(* ===== verification/Prelude.thy ===== *)
theory Prelude
  imports Main "HOL-Library.AList" "HOL-Library.List_Lexorder" "HOL-Library.Char_ord"
    "HOL-Library.Code_Target_Nat"
begin

text \<open>
  Shared vocabulary of the development: the parts of JavaScript the sources lean on
  (strings and truthiness, insertion-ordered \<open>Map\<close> and \<open>Set\<close>, \<open>trim\<close>, \<open>toUpperCase\<close>,
  \<open>slice\<close>, \<open>join\<close>), the type names of the model, the interface of an ordered map, the
  generic safety-invariant interface used by every state machine, and the lemma
  collections the component theories add to.

  A JavaScript string is a \<open>string\<close> (a list of code units below 256). Comparison with
  \<open><\<close> is the lexicographic order on code units (\<^verbatim>\<open>List_Lexorder\<close> over \<^verbatim>\<open>Char_ord\<close>), which is
  what the language uses for \<^verbatim>\<open>a < b\<close> on strings and for \<^verbatim>\<open>[...].sort()\<close>.
\<close>

named_theorems js_simps \<open>rewrite rules for the JavaScript vocabulary\<close>
named_theorems inv_intros \<open>preservation lemmas of the component invariants\<close>

type_synonym millis = int
type_synonym 'v jsmap = "(string \<times> 'v) list"

section \<open>Truthiness and optional strings\<close>

text \<open>An optional string that is used as a condition: absent and empty are both falsy.\<close>

definition truthy :: "string option \<Rightarrow> bool" where
  "truthy s = (case s of None \<Rightarrow> False | Some x \<Rightarrow> x \<noteq> [])"

text \<open>\<^verbatim>\<open>s || d\<close> on an optional string.\<close>

definition or_else :: "string option \<Rightarrow> string \<Rightarrow> string" where
  "or_else s d = (case s of None \<Rightarrow> d | Some x \<Rightarrow> (if x = [] then d else x))"

lemma truthy_simps [simp, js_simps]:
  "\<not> truthy None"
  "truthy (Some x) \<longleftrightarrow> x \<noteq> []"
  by (simp_all add: truthy_def)

lemma or_else_simps [simp, js_simps]:
  "or_else None d = d"
  "or_else (Some []) d = d"
  "x \<noteq> [] \<Longrightarrow> or_else (Some x) d = x"
  by (simp_all add: or_else_def)

lemma truthyE: "truthy s \<Longrightarrow> (\<And>x. s = Some x \<Longrightarrow> x \<noteq> [] \<Longrightarrow> P) \<Longrightarrow> P"
  by (cases s) auto

section \<open>String operations\<close>

text \<open>
  White space as \<^verbatim>\<open>String.prototype.trim\<close> knows it, restricted to code units below 256:
  tab, line feed, vertical tab, form feed, carriage return, space and no-break space.
\<close>

definition is_space :: "char \<Rightarrow> bool" where
  "is_space c = (let n = of_char c :: nat in (9 \<le> n \<and> n \<le> 13) \<or> n = 32 \<or> n = 160)"

definition trim :: "string \<Rightarrow> string" where
  "trim s = rev (dropWhile is_space (rev (dropWhile is_space s)))"

text \<open>
  \<^verbatim>\<open>toUpperCase\<close> and \<^verbatim>\<open>toLowerCase\<close> on the ASCII letters. The other code units below 256
  are left alone: none of them maps to a string that the sources compare with.
\<close>

definition upper_char :: "char \<Rightarrow> char" where
  "upper_char c = (let n = of_char c :: nat in if 97 \<le> n \<and> n \<le> 122 then char_of (n - 32) else c)"

definition lower_char :: "char \<Rightarrow> char" where
  "lower_char c = (let n = of_char c :: nat in if 65 \<le> n \<and> n \<le> 90 then char_of (n + 32) else c)"

definition to_upper :: "string \<Rightarrow> string" where
  "to_upper s = map upper_char s"

definition to_lower :: "string \<Rightarrow> string" where
  "to_lower s = map lower_char s"

definition starts_with :: "string \<Rightarrow> string \<Rightarrow> bool" where
  "starts_with s p = (take (length p) s = p)"

definition ends_with :: "string \<Rightarrow> string \<Rightarrow> bool" where
  "ends_with s p = (length p \<le> length s \<and> drop (length s - length p) s = p)"

definition is_digit :: "char \<Rightarrow> bool" where
  "is_digit c = (let n = of_char c :: nat in 48 \<le> n \<and> n \<le> 57)"

definition is_alpha :: "char \<Rightarrow> bool" where
  "is_alpha c = (let n = of_char c :: nat in (65 \<le> n \<and> n \<le> 90) \<or> (97 \<le> n \<and> n \<le> 122))"

definition is_upper_alpha :: "char \<Rightarrow> bool" where
  "is_upper_alpha c = (let n = of_char c :: nat in 65 \<le> n \<and> n \<le> 90)"

text \<open>\<^verbatim>\<open>parts.join(sep)\<close>.\<close>

fun join :: "string \<Rightarrow> string list \<Rightarrow> string" where
  "join sep [] = []"
| "join sep [x] = x"
| "join sep (x # y # xs) = x @ sep @ join sep (y # xs)"

text \<open>\<^verbatim>\<open>s.split(c)\<close>: the parts of a string between separators.\<close>

fun split_on :: "char \<Rightarrow> string \<Rightarrow> string list" where
  "split_on c [] = [[]]"
| "split_on c (x # xs) = (if x = c then [] # split_on c xs else (x # hd (split_on c xs)) # tl (split_on c xs))"

lemma split_on_nonempty: "split_on c s \<noteq> []"
  by (cases s) auto

lemma split_on_plain: "c \<notin> set s \<Longrightarrow> split_on c s = [s]"
  by (induction s) auto

lemma split_on_append: "c \<notin> set s \<Longrightarrow> split_on c (s @ c # t) = s # split_on c t"
  by (induction s) (auto simp: split_on_nonempty)

lemma split_on_join:
  "ps \<noteq> [] \<Longrightarrow> \<forall>p \<in> set ps. c \<notin> set p \<Longrightarrow> split_on c (join [c] ps) = ps"
  by (induction "[c]" ps rule: join.induct) (auto simp: split_on_plain split_on_append)

lemma join_split_on: "join [c] (split_on c s) = s"
proof (induction s)
  case (Cons x xs)
  obtain p ps where p: "split_on c xs = p # ps" using split_on_nonempty [of c xs] by (cases "split_on c xs") auto
  show ?case
  proof (cases "x = c")
    case True
    with Cons p show ?thesis by simp
  next
    case False
    with Cons p show ?thesis by (cases ps) simp_all
  qed
qed simp

lemma starts_with_append [simp, js_simps]: "starts_with (p @ s) p"
  by (simp add: starts_with_def)

lemma starts_with_iff: "starts_with s p \<longleftrightarrow> (\<exists>r. s = p @ r)"
proof
  assume "starts_with s p"
  then have "s = p @ drop (length p) s"
    by (metis append_take_drop_id starts_with_def)
  then show "\<exists>r. s = p @ r" ..
qed auto

lemma ends_with_iff: "ends_with s p \<longleftrightarrow> (\<exists>r. s = r @ p)"
proof
  assume "ends_with s p"
  then have "s = take (length s - length p) s @ p"
    by (metis append_take_drop_id ends_with_def)
  then show "\<exists>r. s = r @ p" ..
qed (auto simp: ends_with_def)

lemma upper_char_digit [simp]: "is_digit c \<Longrightarrow> upper_char c = c"
  by (auto simp: is_digit_def upper_char_def Let_def)

section \<open>Insertion-ordered maps and sets\<close>

text \<open>
  A JavaScript \<open>Map\<close> iterates in insertion order; setting an existing key keeps its place.
  That is exactly \<^const>\<open>AList.update\<close>. \<open>mget\<close>, \<open>mset_key\<close>, \<open>mdel\<close> and \<open>mkeys\<close> are
  \<^verbatim>\<open>get\<close>, \<^verbatim>\<open>set\<close>, \<^verbatim>\<open>delete\<close> and \<^verbatim>\<open>keys\<close>; \<open>mfrom\<close> is \<^verbatim>\<open>new Map(entries)\<close>.
\<close>

definition mget :: "('k \<times> 'v) list \<Rightarrow> 'k \<Rightarrow> 'v option" where
  "mget m k = map_of m k"

definition mput :: "'k \<Rightarrow> 'v \<Rightarrow> ('k \<times> 'v) list \<Rightarrow> ('k \<times> 'v) list" where
  "mput k v m = AList.update k v m"

definition mdel :: "'k \<Rightarrow> ('k \<times> 'v) list \<Rightarrow> ('k \<times> 'v) list" where
  "mdel k m = AList.delete k m"

definition mhas :: "('k \<times> 'v) list \<Rightarrow> 'k \<Rightarrow> bool" where
  "mhas m k = (mget m k \<noteq> None)"

definition mkeys :: "('k \<times> 'v) list \<Rightarrow> 'k list" where
  "mkeys m = map fst m"

definition mfrom :: "('k \<times> 'v) list \<Rightarrow> ('k \<times> 'v) list" where
  "mfrom es = fold (\<lambda>(k, v) m. mput k v m) es []"

text \<open>\<^verbatim>\<open>Set.add\<close> keeps the position of an element that is already present.\<close>

definition sadd :: "'a \<Rightarrow> 'a list \<Rightarrow> 'a list" where
  "sadd x s = (if x \<in> set s then s else s @ [x])"

definition sfrom :: "'a list \<Rightarrow> 'a list" where
  "sfrom xs = fold sadd xs []"

definition sdel :: "'a \<Rightarrow> 'a list \<Rightarrow> 'a list" where
  "sdel x s = filter (\<lambda>y. y \<noteq> x) s"

subsection \<open>The map interface\<close>

text \<open>
  What the clients of a \<open>Map\<close> rely on. The lemmas inside are proved from the laws only and
  are used through the interpretation on the operations above.
\<close>

locale ordered_map =
  fixes get :: "'m \<Rightarrow> 'k \<Rightarrow> 'v option"
    and put :: "'k \<Rightarrow> 'v \<Rightarrow> 'm \<Rightarrow> 'm"
    and del :: "'k \<Rightarrow> 'm \<Rightarrow> 'm"
    and keys :: "'m \<Rightarrow> 'k list"
    and empty :: 'm
  assumes get_empty: "get empty k = None"
    and get_put: "get (put k v m) k' = (if k' = k then Some v else get m k')"
    and get_del: "get (del k m) k' = (if k' = k then None else get m k')"
    and keys_get: "set (keys m) = {k. get m k \<noteq> None}"
begin

lemma get_put_same: "get (put k v m) k = Some v"
  by (simp add: get_put)

lemma get_put_other: "k' \<noteq> k \<Longrightarrow> get (put k v m) k' = get m k'"
  by (simp add: get_put)

lemma keys_put: "set (keys (put k v m)) = insert k (set (keys m))"
  by (auto simp: keys_get get_put)

lemma put_frame_fold:
  "k \<notin> fst ` set es \<Longrightarrow> get (fold (\<lambda>(x, v) m. put x v m) es m) k = get m k"
proof (induction es arbitrary: m)
  case (Cons e es)
  then show ?case by (cases e) (auto simp: get_put)
qed simp

lemma get_put_fold:
  "distinct (map fst es) \<Longrightarrow> (k, v) \<in> set es \<Longrightarrow>
     get (fold (\<lambda>(x, w) m. put x w m) es m) k = Some v"
proof (induction es arbitrary: m)
  case (Cons e es)
  obtain x w where e: "e = (x, w)" by (cases e)
  show ?case
  proof (cases "(k, v) \<in> set es")
    case True
    with Cons e show ?thesis by simp
  next
    case False
    with Cons.prems e have "x = k" "w = v" by auto
    moreover from Cons.prems e \<open>x = k\<close> have "k \<notin> fst ` set es" by auto
    ultimately show ?thesis using e by (simp add: put_frame_fold get_put)
  qed
qed simp

end

lemma mget_simps [simp, js_simps]:
  "mget [] k = None"
  "mget (mput k v m) k' = (if k' = k then Some v else mget m k')"
  "mget (mdel k m) k' = (if k' = k then None else mget m k')"
  by (auto simp: mget_def mput_def mdel_def update_conv' delete_conv')

lemma mget_Cons: "mget ((k, v) # m) k' = (if k' = k then Some v else mget m k')"
  by (auto simp: mget_def)

lemma set_mkeys: "set (mkeys m) = {k. mget m k \<noteq> None}"
  by (auto simp: mkeys_def mget_def map_of_eq_None_iff)

interpretation jm: ordered_map mget mput mdel mkeys "[]"
  by unfold_locales (simp_all add: set_mkeys)

lemma mhas_simps [simp, js_simps]:
  "\<not> mhas [] k"
  "mhas (mput k v m) k' \<longleftrightarrow> k' = k \<or> mhas m k'"
  by (auto simp: mhas_def)

lemma distinct_mput [simp, inv_intros]: "distinct (mkeys m) \<Longrightarrow> distinct (mkeys (mput k v m))"
  by (simp add: mkeys_def mput_def distinct_update)

lemma distinct_mdel [simp, inv_intros]: "distinct (mkeys m) \<Longrightarrow> distinct (mkeys (mdel k m))"
  by (simp add: mkeys_def mdel_def distinct_delete)

lemma mkeys_mput: "mkeys (mput k v m) = (if mhas m k then mkeys m else mkeys m @ [k])"
proof -
  have "mhas m k \<longleftrightarrow> k \<in> set (map fst m)"
    using set_mkeys [of m] by (auto simp: mhas_def mkeys_def)
  then show ?thesis by (simp add: mkeys_def mput_def update_keys)
qed

lemma length_mput: "length (mput k v m) = (if mhas m k then length m else Suc (length m))"
proof -
  have "length (mkeys (mput k v m)) = length (mput k v m)" "length (mkeys m) = length m"
    by (simp_all add: mkeys_def)
  then show ?thesis using mkeys_mput [of k v m] by (auto split: if_splits)
qed

lemma mget_mfrom:
  assumes "distinct (map fst es)"
  shows "mget (mfrom es) k = map_of es k"
proof (cases "map_of es k")
  case None
  then have "k \<notin> fst ` set es" by (simp add: map_of_eq_None_iff)
  with None show ?thesis by (simp add: mfrom_def jm.put_frame_fold)
next
  case (Some v)
  then have "(k, v) \<in> set es" by (rule map_of_SomeD)
  with assms Some show ?thesis by (simp add: mfrom_def jm.get_put_fold)
qed

lemma distinct_mfrom [simp, inv_intros]: "distinct (mkeys (mfrom es))"
proof -
  have "distinct (mkeys m) \<Longrightarrow> distinct (mkeys (fold (\<lambda>(k, v) m. mput k v m) es m))" for m
    by (induction es arbitrary: m) auto
  from this [of "[]"] show ?thesis by (simp add: mfrom_def mkeys_def)
qed

lemma dom_mget: "dom (mget m) = set (mkeys m)"
  by (auto simp: set_mkeys)

lemma finite_dom_mget [simp]: "finite (dom (mget m))"
  by (simp add: dom_mget)

lemma card_dom_mget: "distinct (mkeys m) \<Longrightarrow> card (dom (mget m)) = length m"
  by (simp add: dom_mget distinct_card) (simp add: mkeys_def)

lemma length_mfrom: "distinct (map fst es) \<Longrightarrow> length (mfrom es) = length es"
proof -
  assume d: "distinct (map fst es)"
  have "dom (mget (mfrom es)) = fst ` set es"
    using d by (auto simp: mget_mfrom dom_map_of_conv_image_fst [symmetric])
  then have "card (dom (mget (mfrom es))) = card (set (map fst es))" by simp
  also have "\<dots> = length es" using d by (simp only: distinct_card length_map)
  finally show ?thesis by (simp add: card_dom_mget)
qed

lemma mput_fresh: "\<not> mhas m k \<Longrightarrow> mput k v m = m @ [(k, v)]"
proof -
  have "k \<notin> fst ` set m \<Longrightarrow> AList.update k v m = m @ [(k, v)]" by (induction m) auto
  moreover assume "\<not> mhas m k"
  then have "k \<notin> fst ` set m" by (simp add: mhas_def mget_def map_of_eq_None_iff)
  ultimately show ?thesis by (simp add: mput_def)
qed

lemma mfrom_distinct: "distinct (map fst es) \<Longrightarrow> mfrom es = es"
proof -
  have "distinct (map fst (m @ es)) \<Longrightarrow> fold (\<lambda>(k, v) m. mput k v m) es m = m @ es" for m
  proof (induction es arbitrary: m)
    case (Cons e es)
    obtain k v where e: "e = (k, v)" by (cases e)
    with Cons.prems have "\<not> mhas m k" by (auto simp: mhas_def mget_def map_of_eq_None_iff)
    with Cons.IH [of "m @ [(k, v)]"] Cons.prems e show ?case by (simp add: mput_fresh)
  qed simp
  from this [of "[]"] show "distinct (map fst es) \<Longrightarrow> mfrom es = es" by (simp add: mfrom_def)
qed

lemma set_sadd [simp, js_simps]: "set (sadd x s) = insert x (set s)"
  by (auto simp: sadd_def)

lemma set_sdel [simp, js_simps]: "set (sdel x s) = set s - {x}"
  by (auto simp: sdel_def)

lemma set_fold_sadd: "set (fold sadd xs s) = set xs \<union> set s"
  by (induction xs arbitrary: s) auto

lemma set_sfrom [simp, js_simps]: "set (sfrom xs) = set xs"
  by (simp add: sfrom_def set_fold_sadd)

lemma distinct_sadd [simp, inv_intros]: "distinct s \<Longrightarrow> distinct (sadd x s)"
  by (simp add: sadd_def)

lemma distinct_sdel [simp, inv_intros]: "distinct s \<Longrightarrow> distinct (sdel x s)"
  by (simp add: sdel_def)

subsection \<open>Grouping\<close>

text \<open>
  The sources group values by key with the same four lines everywhere: read the bucket,
  append to it when it exists, otherwise store a fresh one.
\<close>

definition group_push :: "'k \<Rightarrow> 'a \<Rightarrow> ('k \<times> 'a list) list \<Rightarrow> ('k \<times> 'a list) list" where
  "group_push k x m = (case mget m k of Some xs \<Rightarrow> mput k (xs @ [x]) m | None \<Rightarrow> mput k [x] m)"

definition group_add :: "'k \<Rightarrow> 'a \<Rightarrow> ('k \<times> 'a list) list \<Rightarrow> ('k \<times> 'a list) list" where
  "group_add k x m = (case mget m k of Some xs \<Rightarrow> mput k (sadd x xs) m | None \<Rightarrow> mput k [x] m)"

definition bucket :: "('k \<times> 'a list) list \<Rightarrow> 'k \<Rightarrow> 'a list" where
  "bucket m k = (case mget m k of Some xs \<Rightarrow> xs | None \<Rightarrow> [])"

lemma bucket_group_push [simp, js_simps]:
  "bucket (group_push k x m) k' = (if k' = k then bucket m k @ [x] else bucket m k')"
  by (auto simp: bucket_def group_push_def split: option.splits)

lemma bucket_group_add_eq:
  "bucket (group_add k x m) k' = (if k' = k then sadd x (bucket m k) else bucket m k')"
  by (cases "mget m k") (auto simp: bucket_def group_add_def sadd_def)

lemma bucket_group_add [simp, js_simps]:
  "set (bucket (group_add k x m) k') = (if k' = k then insert x (set (bucket m k)) else set (bucket m k'))"
  by (simp add: bucket_group_add_eq)

lemma bucket_Nil [simp, js_simps]: "bucket [] k = []"
  by (simp add: bucket_def)

lemma mget_group_push:
  "mget (group_push k x m) k' = (if k' = k then Some (bucket m k @ [x]) else mget m k')"
  by (auto simp: bucket_def group_push_def split: option.splits)

lemma distinct_group_push [simp, inv_intros]:
  "distinct (mkeys m) \<Longrightarrow> distinct (mkeys (group_push k x m))"
  by (auto simp: group_push_def split: option.splits)

lemma bucket_fold_group_push:
  "bucket (fold (\<lambda>x m. group_push (f x) (g x) m) xs m) k
     = bucket m k @ map g (filter (\<lambda>x. f x = k) xs)"
  by (induction xs arbitrary: m) auto

lemma mget_fold_group_push:
  "mget (fold (\<lambda>x m. group_push (f x) (g x) m) xs []) k =
     (case map g (filter (\<lambda>x. f x = k) xs) of [] \<Rightarrow> None | ys \<Rightarrow> Some ys)"
proof -
  let ?F = "\<lambda>m. fold (\<lambda>x m. group_push (f x) (g x) m) xs m"
  have aux: "mget (fold (\<lambda>x m. group_push (f x) (g x) m) xs m) k =
       (if (\<exists>x \<in> set xs. f x = k) then Some (bucket m k @ map g (filter (\<lambda>x. f x = k) xs))
        else mget m k)" for m
    by (induction xs arbitrary: m) (auto simp: mget_group_push)
  show ?thesis
  proof (cases "\<exists>x \<in> set xs. f x = k")
    case True
    then have "filter (\<lambda>x. f x = k) xs \<noteq> []" by (auto simp: filter_empty_conv)
    with True show ?thesis by (auto simp: aux split: list.splits)
  next
    case False
    then have "filter (\<lambda>x. f x = k) xs = []" by (auto simp: filter_empty_conv)
    with False show ?thesis by (simp add: aux)
  qed
qed

lemma distinct_fold_group_push [inv_intros]:
  "distinct (mkeys m) \<Longrightarrow> distinct (mkeys (fold (\<lambda>x m. group_push (f x) (g x) m) xs m))"
  by (induction xs arbitrary: m) auto

lemma snd_enumerate: "x \<in> set (enumerate n xs) \<Longrightarrow> snd x \<in> set xs"
  by (cases x) (auto simp: in_set_enumerate_eq)

section \<open>Safety invariants of step relations\<close>

text \<open>
  Every state machine of the development is a step relation together with an invariant;
  the interface says that the start states satisfy it and that each step keeps it, and the
  client lemma lifts it to all reachable states.
\<close>

locale safety_invariant =
  fixes start :: "'s \<Rightarrow> bool"
    and step :: "'s \<Rightarrow> 's \<Rightarrow> bool"
    and inv :: "'s \<Rightarrow> bool"
  assumes start_inv: "start s \<Longrightarrow> inv s"
    and step_inv: "inv s \<Longrightarrow> step s t \<Longrightarrow> inv t"
begin

lemma steps_inv: "step\<^sup>*\<^sup>* s t \<Longrightarrow> inv s \<Longrightarrow> inv t"
  by (induction rule: rtranclp_induct) (auto intro: step_inv)

lemma reachable_inv: "start s \<Longrightarrow> step\<^sup>*\<^sup>* s t \<Longrightarrow> inv t"
  using steps_inv start_inv by blast

end

section \<open>Results with errors\<close>

text \<open>A loop body that may throw, run over a list: the first error wins.\<close>

fun foldM :: "('a \<Rightarrow> 's \<Rightarrow> 'e + 's) \<Rightarrow> 'a list \<Rightarrow> 's \<Rightarrow> 'e + 's" where
  "foldM f [] s = Inr s"
| "foldM f (x # xs) s = (case f x s of Inl e \<Rightarrow> Inl e | Inr t \<Rightarrow> foldM f xs t)"

lemma foldM_append:
  "foldM f (xs @ ys) s = (case foldM f xs s of Inl e \<Rightarrow> Inl e | Inr t \<Rightarrow> foldM f ys t)"
  by (induction xs arbitrary: s) (auto split: sum.splits)

lemma foldM_invariant:
  assumes "foldM f xs s = Inr t" and "P s"
    and "\<And>x s t. x \<in> set xs \<Longrightarrow> P s \<Longrightarrow> f x s = Inr t \<Longrightarrow> P t"
  shows "P t"
  using assms
proof (induction xs arbitrary: s)
  case (Cons x xs)
  then obtain u where u: "f x s = Inr u" and rest: "foldM f xs u = Inr t"
    by (auto split: sum.splits)
  have "P u" by (rule Cons.prems(3) [OF _ Cons.prems(2) u]) simp
  then show ?case by (rule Cons.IH [OF rest]) (rule Cons.prems(3), simp_all)
qed simp

text \<open>The same with the processed prefix as a ghost variable.\<close>

lemma foldM_prefix_invariant:
  assumes "foldM f xs s = Inr t" and "P [] s"
    and "\<And>ps x rest s t. xs = ps @ x # rest \<Longrightarrow> P ps s \<Longrightarrow> f x s = Inr t \<Longrightarrow> P (ps @ [x]) t"
  shows "P xs t"
proof -
  have "foldM f ys u = Inr t \<Longrightarrow> xs = qs @ ys \<Longrightarrow> P qs u \<Longrightarrow> P xs t" for ys qs u
  proof (induction ys arbitrary: qs u)
    case (Cons y ys)
    then obtain w where w: "f y u = Inr w" and rest: "foldM f ys w = Inr t"
      by (auto split: sum.splits)
    have "P (qs @ [y]) w" by (rule assms(3) [OF Cons.prems(2,3) w])
    with Cons.IH [OF rest, of "qs @ [y]"] Cons.prems(2) show ?case by simp
  qed simp
  from this [OF assms(1), of "[]"] assms(2) show ?thesis by simp
qed

text \<open>Two loop bodies that agree on related states make loops that agree.\<close>

lemma foldM_simulation:
  assumes "R s t" and "\<And>x s t. x \<in> set xs \<Longrightarrow> R s t \<Longrightarrow> rel_sum (=) R (f x s) (g x t)"
  shows "rel_sum (=) R (foldM f xs s) (foldM g xs t)"
  using assms
proof (induction xs arbitrary: s t)
  case (Cons x xs)
  from Cons.prems have "rel_sum (=) R (f x s) (g x t)" by simp
  then show ?case
  proof cases
    case (1 e e')
    then show ?thesis by simp
  next
    case (2 s' t')
    with Cons show ?thesis by simp
  qed
qed simp

end
