(* ===== verification/JsDate.thy ===== *)
theory JsDate
  imports Prelude
begin

text \<open>
  The part of the JavaScript \<open>Date\<close> the sources use: a time value is a number of
  milliseconds since the epoch, \<^verbatim>\<open>toISOString().split('T')[0]\<close> prints its UTC calendar day,
  and \<^verbatim>\<open>new Date(`${day}T00:00:00.000Z`)\<close> reads one back. The calendar is the one the language
  standard defines (\<^verbatim>\<open>DayFromYear\<close>, \<^verbatim>\<open>YearFromTime\<close>, \<^verbatim>\<open>MonthFromTime\<close>, \<^verbatim>\<open>DateFromTime\<close>,
  \<^verbatim>\<open>MakeDay\<close>); as in the Node runtime, a day of the month up to 31 is read and then rolls over.

  Shown here: printing and reading a day are inverse, a four-digit day string is accepted
  exactly when it is a real calendar date, and comparing two such strings compares the days.
\<close>

section \<open>Fixed-width decimals\<close>

definition digit_char :: "nat \<Rightarrow> char" where
  "digit_char n = char_of (48 + n)"

definition digit_val :: "char \<Rightarrow> nat" where
  "digit_val c = of_char c - 48"

fun pad_dec :: "nat \<Rightarrow> nat \<Rightarrow> string" where
  "pad_dec 0 n = []"
| "pad_dec (Suc w) n = pad_dec w (n div 10) @ [digit_char (n mod 10)]"

definition read_dec :: "string \<Rightarrow> nat" where
  "read_dec s = foldl (\<lambda>a c. a * 10 + digit_val c) 0 s"

lemma of_char_digit_char [simp]: "n < 10 \<Longrightarrow> (of_char (digit_char n) :: nat) = 48 + n"
  by (simp add: digit_char_def)

lemma digit_val_digit_char [simp]: "n < 10 \<Longrightarrow> digit_val (digit_char n) = n"
  by (simp add: digit_val_def)

lemma is_digit_digit_char [simp]: "n < 10 \<Longrightarrow> is_digit (digit_char n)"
  by (simp add: is_digit_def)

lemma digit_val_less: "is_digit c \<Longrightarrow> digit_val c < 10"
  by (simp add: is_digit_def digit_val_def Let_def) linarith

lemma digit_char_digit_val: "is_digit c \<Longrightarrow> digit_char (digit_val c) = c"
  by (simp add: is_digit_def digit_val_def digit_char_def Let_def)

lemma length_pad_dec [simp]: "length (pad_dec w n) = w"
  by (induction w arbitrary: n) auto

lemma digits_pad_dec: "c \<in> set (pad_dec w n) \<Longrightarrow> is_digit c"
  by (induction w arbitrary: n) auto

lemma read_dec_append: "read_dec (s @ [c]) = read_dec s * 10 + digit_val c"
  by (simp add: read_dec_def)

lemma read_pad_dec: "n < 10 ^ w \<Longrightarrow> read_dec (pad_dec w n) = n"
proof (induction w arbitrary: n)
  case (Suc w)
  then have "n div 10 < 10 ^ w" by auto
  then show ?case using Suc.IH [of "n div 10"] by (simp add: read_dec_append)
qed (simp add: read_dec_def)

lemma pad_read_dec:
  "\<forall>c \<in> set s. is_digit c \<Longrightarrow> pad_dec (length s) (read_dec s) = s \<and> read_dec s < 10 ^ length s"
proof (induction s rule: rev_induct)
  case Nil
  then show ?case by (simp add: read_dec_def)
next
  case (snoc c s)
  then have IH: "pad_dec (length s) (read_dec s) = s" "read_dec s < 10 ^ length s"
    and c: "is_digit c" by auto
  from c have "digit_val c < 10" by (rule digit_val_less)
  with IH c show ?case by (simp add: read_dec_append digit_char_digit_val)
qed

text \<open>Equal-length prefixes decide a lexicographic comparison first.\<close>

lemma lex_append_same_length:
  fixes xs ys us vs :: string
  assumes "length xs = length ys"
  shows "xs @ us < ys @ vs \<longleftrightarrow> xs < ys \<or> (xs = ys \<and> us < vs)"
  using assms by (induction xs ys rule: list_induct2) auto

lemma digit_char_less: "a < 10 \<Longrightarrow> b < 10 \<Longrightarrow> digit_char a < digit_char b \<longleftrightarrow> a < b"
  by (simp add: less_char_def)

lemma pad_dec_less:
  "a < 10 ^ w \<Longrightarrow> b < 10 ^ w \<Longrightarrow> pad_dec w a < pad_dec w b \<longleftrightarrow> a < b"
proof (induction w arbitrary: a b)
  case (Suc w)
  then have d: "a div 10 < 10 ^ w" "b div 10 < 10 ^ w" by auto
  then have eq: "pad_dec w (a div 10) = pad_dec w (b div 10) \<longleftrightarrow> a div 10 = b div 10"
    using read_pad_dec by metis
  have "a < b \<longleftrightarrow> a div 10 < b div 10 \<or> (a div 10 = b div 10 \<and> a mod 10 < b mod 10)"
    using div_mult_mod_eq [of a 10] div_mult_mod_eq [of b 10]
      mod_less_divisor [of 10 a] mod_less_divisor [of 10 b] by linarith
  then show ?case
    using Suc.IH [OF d] by (simp add: lex_append_same_length eq digit_char_less)
qed simp

lemma pad_dec_eq: "a < 10 ^ w \<Longrightarrow> b < 10 ^ w \<Longrightarrow> pad_dec w a = pad_dec w b \<longleftrightarrow> a = b"
  using read_pad_dec by metis

section \<open>The calendar of the language standard\<close>

definition day_ms :: int where
  "day_ms = 86400000"

definition dayFromYear :: "int \<Rightarrow> int" where
  "dayFromYear y = 365 * (y - 1970) + (y - 1969) div 4 - (y - 1901) div 100 + (y - 1601) div 400"

definition leap :: "int \<Rightarrow> bool" where
  "leap y = (y mod 4 = 0 \<and> (y mod 100 \<noteq> 0 \<or> y mod 400 = 0))"

definition yearFromDay :: "int \<Rightarrow> int" where
  "yearFromDay n =
     (let e = 1970 + (400 * n) div 146097
      in if dayFromYear (e + 1) \<le> n then e + 1 else if dayFromYear e \<le> n then e else e - 1)"

text \<open>Days of the year before month \<open>m\<close> (1 to 12).\<close>

definition monthStart :: "bool \<Rightarrow> int \<Rightarrow> int" where
  "monthStart l m =
     (let b = (if l then 1 else 0) in
      if m \<le> 1 then 0 else if m = 2 then 31 else if m = 3 then 59 + b else if m = 4 then 90 + b
      else if m = 5 then 120 + b else if m = 6 then 151 + b else if m = 7 then 181 + b
      else if m = 8 then 212 + b else if m = 9 then 243 + b else if m = 10 then 273 + b
      else if m = 11 then 304 + b else if m = 12 then 334 + b else 365 + b)"

definition monthFromDoy :: "bool \<Rightarrow> int \<Rightarrow> int" where
  "monthFromDoy l d =
     (if d < monthStart l 2 then 1 else if d < monthStart l 3 then 2
      else if d < monthStart l 4 then 3 else if d < monthStart l 5 then 4
      else if d < monthStart l 6 then 5 else if d < monthStart l 7 then 6
      else if d < monthStart l 8 then 7 else if d < monthStart l 9 then 8
      else if d < monthStart l 10 then 9 else if d < monthStart l 11 then 10
      else if d < monthStart l 12 then 11 else 12)"

definition makeDay :: "int \<Rightarrow> int \<Rightarrow> int \<Rightarrow> int" where
  "makeDay y m d = dayFromYear y + monthStart (leap y) m + d - 1"

definition civilFromDay :: "int \<Rightarrow> int \<times> int \<times> int" where
  "civilFromDay n =
     (let y = yearFromDay n; doy = n - dayFromYear y; m = monthFromDoy (leap y) doy
      in (y, m, doy - monthStart (leap y) m + 1))"

definition daysInMonth :: "int \<Rightarrow> int \<Rightarrow> int" where
  "daysInMonth y m = monthStart (leap y) (m + 1) - monthStart (leap y) m"

definition validCivil :: "int \<Rightarrow> int \<Rightarrow> int \<Rightarrow> bool" where
  "validCivil y m d = (1 \<le> m \<and> m \<le> 12 \<and> 1 \<le> d \<and> d \<le> daysInMonth y m)"

lemma int_div_bounds: "0 < k \<Longrightarrow> k * (x div k) \<le> x" "0 < k \<Longrightarrow> x < k * (x div k) + (k :: int)"
  using pos_mod_sign [of k x] pos_mod_bound [of k x] mult_div_mod_eq [of k x] by linarith+

lemma int_div_step:
  fixes x k c :: int
  assumes "1 < k"
  shows "(x + 1 - (1 + k * c)) div k = (x - (1 + k * c)) div k + (if x mod k = 0 then 1 else 0)"
proof -
  have e: "x + 1 - (1 + k * c) = x + k * (- c)" "x - (1 + k * c) = (x - 1) + k * (- c)"
    by (simp_all add: algebra_simps)
  have "x div k = (x - 1) div k + (if x mod k = 0 then 1 else 0)"
  proof (cases "x mod k = 0")
    case True
    then obtain q where q: "x = k * q" by (metis mod_0_imp_dvd dvdE)
    have "(k * q - 1) div k = q - 1"
    proof (rule int_div_pos_eq [where r = "k - 1"])
      show "k * q - 1 = k * (q - 1) + (k - 1)" by (simp add: algebra_simps)
    qed (use assms in auto)
    with q assms show ?thesis by simp
  next
    case False
    then have "0 < x mod k" using assms pos_mod_sign [of k x] by linarith
    moreover have "x - 1 = k * (x div k) + (x mod k - 1)" using mult_div_mod_eq [of k x] by linarith
    moreover have "x mod k - 1 < k" using assms pos_mod_bound [of k x] by linarith
    ultimately have "(x - 1) div k = x div k" by (intro int_div_pos_eq) auto
    with False show ?thesis by simp
  qed
  moreover have "(x + k * (- c)) div k = x div k - c" "(x - 1 + k * (- c)) div k = (x - 1) div k - c"
    using assms by (subst div_mult_self2; simp)+
  ultimately show ?thesis unfolding e by simp
qed

lemma dayFromYear_Suc: "dayFromYear (y + 1) = dayFromYear y + (if leap y then 366 else 365)"
proof -
  have a: "(y + 1 - 1969) div 4 = (y - 1969) div 4 + (if y mod 4 = 0 then 1 else 0)"
    using int_div_step [of 4 y 492] by simp
  have b: "(y + 1 - 1901) div 100 = (y - 1901) div 100 + (if y mod 100 = 0 then 1 else 0)"
    using int_div_step [of 100 y 19] by simp
  have c: "(y + 1 - 1601) div 400 = (y - 1601) div 400 + (if y mod 400 = 0 then 1 else 0)"
    using int_div_step [of 400 y 4] by simp
  have d: "y mod 400 = 0 \<Longrightarrow> y mod 100 = 0" "y mod 100 = 0 \<Longrightarrow> y mod 4 = 0"
    using mod_mod_cancel [of 100 400 y] mod_mod_cancel [of 4 100 y] by simp_all
  have "dayFromYear (y + 1) = 365 * (y + 1 - 1970) + (y + 1 - 1969) div 4
      - (y + 1 - 1901) div 100 + (y + 1 - 1601) div 400"
    by (rule dayFromYear_def)
  also have "\<dots> = dayFromYear y + 365 + (if y mod 4 = 0 then 1 else 0)
      - (if y mod 100 = 0 then 1 else 0) + (if y mod 400 = 0 then 1 else 0)"
    unfolding a b c dayFromYear_def by (simp add: algebra_simps)
  also have "\<dots> = dayFromYear y + (if leap y then 366 else 365)"
    unfolding leap_def using d by (cases "y mod 400 = 0"; cases "y mod 100 = 0"; cases "y mod 4 = 0") simp_all
  finally show ?thesis .
qed

lemma dayFromYear_mono: "y < z \<Longrightarrow> dayFromYear y + 365 \<le> dayFromYear z"
proof (induction "nat (z - y)" arbitrary: z)
  case (Suc k)
  show ?case
  proof (cases "z = y + 1")
    case True
    then show ?thesis by (simp add: dayFromYear_Suc)
  next
    case False
    with Suc have "dayFromYear y + 365 \<le> dayFromYear (z - 1)" by auto
    with dayFromYear_Suc [of "z - 1"] show ?thesis by auto
  qed
qed simp

lemma linear_year_bounds:
  fixes y A B C :: int
  assumes "4 * A \<le> y - 1969" "y - 1969 < 4 * A + 4"
    "100 * B \<le> y - 1901" "y - 1901 < 100 * B + 100"
    "400 * C \<le> y - 1601" "y - 1601 < 400 * C + 400"
  shows "146097 * (y - 1970) - 800 \<le> 400 * (365 * (y - 1970) + A - B + C) \<and>
    400 * (365 * (y - 1970) + A - B + C) \<le> 146097 * (y - 1970) + 800"
  using assms by (simp add: algebra_simps)

lemma dayFromYear_bounds:
  "146097 * (y - 1970) - 800 \<le> 400 * dayFromYear y"
  "400 * dayFromYear y \<le> 146097 * (y - 1970) + 800"
proof -
  have "146097 * (y - 1970) - 800 \<le> 400 * dayFromYear y \<and>
      400 * dayFromYear y \<le> 146097 * (y - 1970) + 800"
    unfolding dayFromYear_def by (rule linear_year_bounds; rule int_div_bounds; simp)
  then show "146097 * (y - 1970) - 800 \<le> 400 * dayFromYear y"
    "400 * dayFromYear y \<le> 146097 * (y - 1970) + 800" by blast+
qed

lemma yearFromDay_sound:
  "dayFromYear (yearFromDay n) \<le> n" "n < dayFromYear (yearFromDay n + 1)"
proof -
  define e where "e = 1970 + (400 * n) div 146097"
  have e: "146097 * (e - 1970) \<le> 400 * n" "400 * n < 146097 * (e - 1969)"
    using int_div_bounds [of 146097 "400 * n"] unfolding e_def by simp_all
  have hi: "n < dayFromYear (e + 1 + 1)" and lo: "dayFromYear (e - 1) \<le> n"
    using e dayFromYear_bounds [of "e + 1 + 1"] dayFromYear_bounds [of "e - 1"]
    by (simp_all add: algebra_simps)
  show "dayFromYear (yearFromDay n) \<le> n" "n < dayFromYear (yearFromDay n + 1)"
    unfolding yearFromDay_def Let_def e_def [symmetric] using hi lo by auto
qed

lemma yearFromDay_unique:
  assumes "dayFromYear y \<le> n" "n < dayFromYear (y + 1)"
  shows "yearFromDay n = y"
proof -
  have "\<not> yearFromDay n < y"
    using assms yearFromDay_sound [of n] dayFromYear_mono [of "yearFromDay n + 1" y]
    by (cases "yearFromDay n + 1 = y") auto
  moreover have "\<not> y < yearFromDay n"
    using assms yearFromDay_sound [of n] dayFromYear_mono [of "y + 1" "yearFromDay n"]
    by (cases "y + 1 = yearFromDay n") auto
  ultimately show ?thesis by linarith
qed

lemma monthFromDoy_range: "1 \<le> monthFromDoy l d" "monthFromDoy l d \<le> 12"
  by (simp_all add: monthFromDoy_def)

lemma monthStart_values:
  "monthStart l 1 = 0" "monthStart l 2 = 31"
  "monthStart l 3 = (if l then 60 else 59)" "monthStart l 4 = (if l then 91 else 90)"
  "monthStart l 5 = (if l then 121 else 120)" "monthStart l 6 = (if l then 152 else 151)"
  "monthStart l 7 = (if l then 182 else 181)" "monthStart l 8 = (if l then 213 else 212)"
  "monthStart l 9 = (if l then 244 else 243)" "monthStart l 10 = (if l then 274 else 273)"
  "monthStart l 11 = (if l then 305 else 304)" "monthStart l 12 = (if l then 335 else 334)"
  "monthStart l 13 = (if l then 366 else 365)"
  by (simp_all add: monthStart_def)

lemma monthFromDoy_sound:
  assumes "0 \<le> d" "d < (if l then 366 else 365)"
  shows "monthStart l (monthFromDoy l d) \<le> d" "d < monthStart l (monthFromDoy l d + 1)"
  using assms by (cases l; simp add: monthFromDoy_def monthStart_values)+

lemma month_cases:
  fixes m :: int
  assumes "1 \<le> m" "m \<le> 12"
  shows "m \<in> {1, 2, 3, 4, 5, 6, 7, 8, 9, 10, 11, 12}"
proof -
  have "m \<in> set [1..12]" using assms by simp
  then show ?thesis by (simp add: upto_rec1)
qed

lemma monthFromDoy_unique:
  assumes "1 \<le> m" "m \<le> 12" "monthStart l m \<le> d" "d < monthStart l (m + 1)"
  shows "monthFromDoy l d = m"
  using month_cases [OF assms(1,2)] assms(3,4)
  by (cases l) (elim insertE emptyE; simp add: monthFromDoy_def monthStart_values)+

lemma monthStart_bounds:
  "1 \<le> m \<Longrightarrow> m \<le> 12 \<Longrightarrow> 0 \<le> monthStart l m"
  "1 \<le> m \<Longrightarrow> m \<le> 12 \<Longrightarrow> monthStart l (m + 1) \<le> (if l then 366 else 365)"
  "1 \<le> m \<Longrightarrow> m \<le> 12 \<Longrightarrow> monthStart l (m + 1) \<le> monthStart l m + 31"
  "1 \<le> m \<Longrightarrow> m \<le> 12 \<Longrightarrow> monthStart l m \<le> 335"
proof -
  assume "1 \<le> m" "m \<le> 12"
  then have "m \<in> {1, 2, 3, 4, 5, 6, 7, 8, 9, 10, 11, 12}" by (rule month_cases)
  then show "0 \<le> monthStart l m" "monthStart l (m + 1) \<le> (if l then 366 else 365)"
    "monthStart l (m + 1) \<le> monthStart l m + 31" "monthStart l m \<le> 335"
    by (elim insertE emptyE; simp add: monthStart_values)+
qed

lemma civilFromDay_valid:
  assumes "civilFromDay n = (y, m, d)"
  shows "validCivil y m d" "makeDay y m d = n" "d \<le> 31"
proof -
  define doy where "doy = n - dayFromYear (yearFromDay n)"
  have doy: "0 \<le> doy" "doy < (if leap (yearFromDay n) then 366 else 365)"
    using yearFromDay_sound [of n] by (auto simp: doy_def dayFromYear_Suc)
  from assms have y: "y = yearFromDay n" and m: "m = monthFromDoy (leap y) doy"
    and d: "d = doy - monthStart (leap y) m + 1"
    by (auto simp: civilFromDay_def Let_def doy_def)
  note r = monthFromDoy_range [of "leap y" doy, folded m]
  have s: "monthStart (leap y) m \<le> doy" "doy < monthStart (leap y) (m + 1)"
    using monthFromDoy_sound [OF doy] y m by auto
  show "validCivil y m d" using r s d by (auto simp: validCivil_def daysInMonth_def)
  show "makeDay y m d = n" using d y by (simp add: makeDay_def doy_def)
  show "d \<le> 31" using r s d monthStart_bounds(3) [of m "leap y"] by linarith
qed

lemma civilFromDay_makeDay:
  assumes "validCivil y m d"
  shows "civilFromDay (makeDay y m d) = (y, m, d)"
proof -
  from assms have m: "1 \<le> m" "m \<le> 12" and d: "1 \<le> d" "d \<le> daysInMonth y m"
    by (auto simp: validCivil_def)
  let ?n = "makeDay y m d"
  have "dayFromYear y \<le> ?n" "?n < dayFromYear (y + 1)"
    using m d monthStart_bounds(1,2) [OF m, of "leap y"]
    by (auto simp: makeDay_def dayFromYear_Suc daysInMonth_def)
  then have y: "yearFromDay ?n = y" by (rule yearFromDay_unique)
  have "monthFromDoy (leap y) (monthStart (leap y) m + d - 1) = m"
    using m d by (intro monthFromDoy_unique) (auto simp: daysInMonth_def)
  then show ?thesis
    by (simp add: civilFromDay_def y) (simp add: makeDay_def Let_def algebra_simps)
qed

lemma makeDay_eq_valid:
  assumes "civilFromDay (makeDay y m d) = (y, m, d)"
  shows "validCivil y m d"
  using civilFromDay_valid(1) [OF assms] .

section \<open>Printing and reading a day\<close>

definition isoYear :: "int \<Rightarrow> string" where
  "isoYear y =
     (if 0 \<le> y \<and> y \<le> 9999 then pad_dec 4 (nat y)
      else if y < 0 then CHR ''-'' # pad_dec 6 (nat (- y)) else CHR ''+'' # pad_dec 6 (nat y))"

definition isoCivil :: "int \<Rightarrow> int \<Rightarrow> int \<Rightarrow> string" where
  "isoCivil y m d = isoYear y @ CHR ''-'' # pad_dec 2 (nat m) @ CHR ''-'' # pad_dec 2 (nat d)"

text \<open>\<^verbatim>\<open>date.toISOString().split('T')[0]\<close> for the day \<open>n\<close> since the epoch.\<close>

definition isoDay :: "int \<Rightarrow> string" where
  "isoDay n = (case civilFromDay n of (y, m, d) \<Rightarrow> isoCivil y m d)"

text \<open>The regular expression \<^verbatim>\<open>/^\d{4}-\d{2}-\d{2}$/\<close>, and the same with a signed six-digit year.\<close>

definition tail_shape :: "string \<Rightarrow> bool" where
  "tail_shape s = (length s = 6 \<and> s ! 0 = CHR ''-'' \<and> list_all is_digit (take 2 (drop 1 s))
     \<and> s ! 3 = CHR ''-'' \<and> list_all is_digit (drop 4 s))"

definition iso_shape :: "string \<Rightarrow> bool" where
  "iso_shape s = (length s = 10 \<and> list_all is_digit (take 4 s) \<and> tail_shape (drop 4 s))"

definition iso_long_shape :: "string \<Rightarrow> bool" where
  "iso_long_shape s = (length s = 13 \<and> (s ! 0 = CHR ''-'' \<or> s ! 0 = CHR ''+'')
     \<and> list_all is_digit (take 6 (drop 1 s)) \<and> tail_shape (drop 7 s))"

text \<open>The largest day a time value can hold is \<open>10^8\<close> away from the epoch.\<close>

definition day_in_range :: "int \<Rightarrow> bool" where
  "day_in_range n = (\<bar>n\<bar> \<le> 100000000)"

definition clipDay :: "int \<Rightarrow> int option" where
  "clipDay n = (if day_in_range n then Some n else None)"

definition readCivil :: "int \<Rightarrow> string \<Rightarrow> int option" where
  "readCivil y t =
     (let m = int (read_dec (take 2 (drop 1 t))); d = int (read_dec (drop 4 t))
      in if 1 \<le> m \<and> m \<le> 12 \<and> 1 \<le> d \<and> d \<le> 31 then clipDay (makeDay y m d) else None)"

text \<open>\<^verbatim>\<open>new Date(`${s}T00:00:00.000Z`)\<close>: \<open>None\<close> is an invalid date.\<close>

definition parseDay :: "string \<Rightarrow> int option" where
  "parseDay s =
     (if iso_shape s then readCivil (int (read_dec (take 4 s))) (drop 4 s)
      else if iso_long_shape s then
        readCivil ((if s ! 0 = CHR ''-'' then - 1 else 1) * int (read_dec (take 6 (drop 1 s)))) (drop 7 s)
      else None)"

lemma tail_shape_pad [simp]: "tail_shape (CHR ''-'' # pad_dec 2 m @ CHR ''-'' # pad_dec 2 d)"
  by (auto simp: tail_shape_def nth_append list_all_iff dest: digits_pad_dec)

lemma readCivil_pad:
  assumes "1 \<le> m" "m \<le> 12" "1 \<le> d" "d \<le> 31"
  shows "readCivil y (CHR ''-'' # pad_dec 2 (nat m) @ CHR ''-'' # pad_dec 2 (nat d)) = clipDay (makeDay y m d)"
proof -
  have "read_dec (pad_dec 2 (nat m)) = nat m" "read_dec (pad_dec 2 (nat d)) = nat d"
    using assms by (intro read_pad_dec; simp)+
  with assms show ?thesis by (simp add: readCivil_def)
qed

lemma year_range:
  assumes "day_in_range n"
  shows "\<bar>yearFromDay n\<bar> < 1000000"
proof -
  have "400 * dayFromYear (yearFromDay n) \<le> 400 * n" "400 * n < 400 * dayFromYear (yearFromDay n + 1)"
    using yearFromDay_sound [of n] by auto
  then show ?thesis
    using assms dayFromYear_bounds [of "yearFromDay n"] dayFromYear_bounds [of "yearFromDay n + 1"]
    by (simp add: day_in_range_def algebra_simps)
qed

lemma iso_shape_short: "iso_shape (pad_dec 4 n @ t) \<longleftrightarrow> tail_shape t"
  by (auto simp: iso_shape_def tail_shape_def list_all_iff dest: digits_pad_dec)

lemma iso_shape_signed: "\<not> is_digit c \<Longrightarrow> \<not> iso_shape (c # s)"
  by (auto simp: iso_shape_def list_all_iff)

lemma iso_long_shape_signed:
  "c = CHR ''-'' \<or> c = CHR ''+'' \<Longrightarrow> iso_long_shape (c # pad_dec 6 n @ t) \<longleftrightarrow> tail_shape t"
  by (auto simp: iso_long_shape_def tail_shape_def list_all_iff dest: digits_pad_dec)

lemma parseDay_isoCivil:
  assumes "\<bar>y\<bar> < 1000000" "1 \<le> m" "m \<le> 12" "1 \<le> d" "d \<le> 31"
  shows "parseDay (isoCivil y m d) = clipDay (makeDay y m d)"
proof (cases "0 \<le> y \<and> y \<le> 9999")
  case True
  then have "read_dec (pad_dec 4 (nat y)) = nat y" by (intro read_pad_dec) (simp add: nat_less_iff)
  with True assms show ?thesis
    by (simp add: parseDay_def isoCivil_def isoYear_def iso_shape_short readCivil_pad)
next
  case False
  then have "read_dec (pad_dec 6 (nat \<bar>y\<bar>)) = nat \<bar>y\<bar>"
    using assms by (intro read_pad_dec) simp
  moreover have "\<not> is_digit CHR ''-''" "\<not> is_digit CHR ''+''" by (simp_all add: is_digit_def)
  ultimately show ?thesis
    using False assms
    by (auto simp: parseDay_def isoCivil_def isoYear_def iso_shape_signed iso_long_shape_signed readCivil_pad)
qed

theorem parseDay_isoDay: "day_in_range n \<Longrightarrow> parseDay (isoDay n) = Some n"
proof -
  assume n: "day_in_range n"
  obtain y m d where c: "civilFromDay n = (y, m, d)" by (cases "civilFromDay n")
  then have "y = yearFromDay n" by (simp add: civilFromDay_def Let_def)
  then have "\<bar>y\<bar> < 1000000" using year_range [OF n] by simp
  moreover have "1 \<le> m" "m \<le> 12" "1 \<le> d" "d \<le> 31" "makeDay y m d = n"
    using civilFromDay_valid [OF c] by (auto simp: validCivil_def)
  ultimately show ?thesis using n c by (simp add: isoDay_def parseDay_isoCivil clipDay_def)
qed

section \<open>Calendar dates as strings\<close>

text \<open>A date string the schemas accept: four-digit year, and it prints back to itself.\<close>

definition isIsoDate :: "string \<Rightarrow> bool" where
  "isIsoDate s =
     (iso_shape s \<and> (case parseDay s of None \<Rightarrow> False
        | Some n \<Rightarrow> take 10 (isoDay n @ ''T00:00:00.000Z'') = s))"

lemma length_isoCivil: "0 \<le> y \<Longrightarrow> y \<le> 9999 \<Longrightarrow> length (isoCivil y m d) = 10"
  by (simp add: isoCivil_def isoYear_def)

lemma nat_pad_eq: "0 \<le> a \<Longrightarrow> 0 \<le> b \<Longrightarrow> a < 10 ^ w \<Longrightarrow> b < 10 ^ w \<Longrightarrow>
    pad_dec w (nat a) = pad_dec w (nat b) \<longleftrightarrow> a = b"
  using pad_dec_eq [of "nat a" w "nat b"] by (simp add: nat_less_iff eq_nat_nat_iff)

lemma nat_pad_less: "0 \<le> a \<Longrightarrow> 0 \<le> b \<Longrightarrow> a < 10 ^ w \<Longrightarrow> b < 10 ^ w \<Longrightarrow>
    pad_dec w (nat a) < pad_dec w (nat b) \<longleftrightarrow> a < b"
  using pad_dec_less [of "nat a" w "nat b"] by (auto simp: nat_less_iff)

lemma isoCivil_inject:
  assumes "0 \<le> y" "y \<le> 9999" "0 \<le> m" "m \<le> 99" "0 \<le> d" "d \<le> 99"
    and "0 \<le> y'" "y' \<le> 9999" "0 \<le> m'" "m' \<le> 99" "0 \<le> d'" "d' \<le> 99"
  shows "isoCivil y m d = isoCivil y' m' d' \<longleftrightarrow> y = y' \<and> m = m' \<and> d = d'"
  using assms by (simp add: isoCivil_def isoYear_def nat_pad_eq)

lemma tail_shape_cases:
  assumes "tail_shape t"
  obtains m d where "m \<le> 99" "d \<le> 99" "t = CHR ''-'' # pad_dec 2 m @ CHR ''-'' # pad_dec 2 d"
proof -
  from assms have len: "length t = 6" by (simp add: tail_shape_def)
  then obtain a b c e f g where t: "t = [a, b, c, e, f, g]"
    by (auto simp: numeral_eq_Suc length_Suc_conv)
  from assms t have digits: "a = CHR ''-''" "e = CHR ''-''" "\<forall>x \<in> set [b, c]. is_digit x" "\<forall>x \<in> set [f, g]. is_digit x"
    by (auto simp: tail_shape_def)
  then have "pad_dec 2 (read_dec [b, c]) = [b, c] \<and> read_dec [b, c] < 100"
    "pad_dec 2 (read_dec [f, g]) = [f, g] \<and> read_dec [f, g] < 100"
    using pad_read_dec [of "[b, c]"] pad_read_dec [of "[f, g]"] by (auto simp: numeral_2_eq_2)
  with t digits show ?thesis by (intro that [of "read_dec [b, c]" "read_dec [f, g]"]) auto
qed

lemma iso_shape_cases:
  assumes "iso_shape s"
  obtains y m d where "0 \<le> y" "y \<le> 9999" "0 \<le> m" "m \<le> 99" "0 \<le> d" "d \<le> 99" "s = isoCivil y m d"
proof -
  let ?y = "read_dec (take 4 s)"
  from assms have "length (take 4 s) = 4" "\<forall>c \<in> set (take 4 s). is_digit c" "tail_shape (drop 4 s)"
    by (auto simp: iso_shape_def list_all_iff)
  then have y: "pad_dec 4 ?y = take 4 s" "?y < 10000" using pad_read_dec [of "take 4 s"] by auto
  obtain m d where md: "m \<le> 99" "d \<le> 99" "drop 4 s = CHR ''-'' # pad_dec 2 m @ CHR ''-'' # pad_dec 2 d"
    using tail_shape_cases [OF \<open>tail_shape (drop 4 s)\<close>] .
  have "s = take 4 s @ drop 4 s" by simp
  with y md show ?thesis by (intro that [of "int ?y" "int m" "int d"]) (auto simp: isoCivil_def isoYear_def)
qed

lemma daysInMonth_le_31: "1 \<le> m \<Longrightarrow> m \<le> 12 \<Longrightarrow> daysInMonth y m \<le> 31"
  using monthStart_bounds(3) [of m "leap y"] by (simp add: daysInMonth_def)

lemma short_year_in_range:
  assumes "0 \<le> y" "y \<le> 9999" "1 \<le> m" "m \<le> 12" "1 \<le> d" "d \<le> 31"
  shows "day_in_range (makeDay y m d)"
  using assms(1,2,5,6) dayFromYear_bounds [of y] monthStart_bounds(1,4) [OF assms(3,4), of "leap y"]
  by (simp add: day_in_range_def makeDay_def abs_le_iff algebra_simps)

lemma isIsoDate_isoCivil:
  assumes "0 \<le> y" "y \<le> 9999" "0 \<le> m" "m \<le> 99" "0 \<le> d" "d \<le> 99"
  shows "isIsoDate (isoCivil y m d) \<longleftrightarrow> validCivil y m d"
proof
  assume iso: "isIsoDate (isoCivil y m d)"
  then obtain n where n: "parseDay (isoCivil y m d) = Some n"
    and same: "take 10 (isoDay n @ ''T00:00:00.000Z'') = isoCivil y m d"
    by (auto simp: isIsoDate_def split: option.splits)
  have md: "1 \<le> m" "m \<le> 12" "1 \<le> d" "d \<le> 31"
  proof -
    have "read_dec (pad_dec 4 (nat y)) = nat y" "read_dec (pad_dec 2 (nat m)) = nat m"
      "read_dec (pad_dec 2 (nat d)) = nat d" using assms by (intro read_pad_dec; simp)+
    with n assms show "1 \<le> m" "m \<le> 12" "1 \<le> d" "d \<le> 31"
      by (auto simp: parseDay_def isoCivil_def isoYear_def iso_shape_short readCivil_def split: if_splits)
  qed
  with n assms have mk: "n = makeDay y m d" by (simp add: parseDay_isoCivil clipDay_def split: if_splits)
  obtain y' m' d' where c: "civilFromDay n = (y', m', d')" by (cases "civilFromDay n")
  note v = civilFromDay_valid [OF c]
  have year: "yearFromDay n = y'" using c by (simp add: civilFromDay_def Let_def)
  have "y' = y \<or> y' = y + 1"
  proof -
    have "dayFromYear y \<le> n" "n < dayFromYear (y + 1 + 1)"
      using mk md dayFromYear_Suc [of y] dayFromYear_Suc [of "y + 1"] monthStart_bounds(1,4) [of m "leap y"]
      by (simp_all add: makeDay_def split: if_splits)
    then show ?thesis
      using yearFromDay_unique [of y n] yearFromDay_unique [of "y + 1" n] year
      by (cases "n < dayFromYear (y + 1)") auto
  qed
  then have range: "0 \<le> y'" "y' \<le> 10000" using assms by auto
  have "y' \<le> 9999"
  proof (rule ccontr)
    assume "\<not> y' \<le> 9999"
    with range have "isoYear y' = CHR ''+'' # pad_dec 6 (nat y')" by (simp add: isoYear_def)
    with same c have "hd (isoCivil y m d) = CHR ''+''"
      by (metis (no_types, lifting) append_Cons case_prod_conv isoCivil_def isoDay_def list.sel(1)
          numeral_eq_Suc take_Suc_Cons)
    moreover have "is_digit (hd (pad_dec 4 (nat y)))"
      by (rule digits_pad_dec [of _ 4 "nat y"], rule hd_in_set) (metis length_pad_dec list.size(3) zero_neq_numeral)
    moreover have "pad_dec 4 (nat y) \<noteq> []" by (metis length_pad_dec list.size(3) zero_neq_numeral)
    moreover have "\<not> is_digit CHR ''+''" by (simp add: is_digit_def)
    ultimately show False using assms by (simp add: isoCivil_def isoYear_def)
  qed
  moreover have "0 \<le> m'" "m' \<le> 99" "0 \<le> d'" "d' \<le> 99" using v by (auto simp: validCivil_def)
  ultimately have "isoCivil y' m' d' = isoCivil y m d"
    using same c range by (simp add: isoDay_def length_isoCivil)
  then have "y' = y \<and> m' = m \<and> d' = d"
    using isoCivil_inject [of y' m' d' y m d] \<open>y' \<le> 9999\<close> range assms v by (auto simp: validCivil_def)
  with v show "validCivil y m d" by simp
next
  assume v: "validCivil y m d"
  then have md: "1 \<le> m" "m \<le> 12" "1 \<le> d" "d \<le> 31"
    using daysInMonth_le_31 [of m y] by (auto simp: validCivil_def)
  have "parseDay (isoCivil y m d) = Some (makeDay y m d)"
    using assms md short_year_in_range by (simp add: parseDay_isoCivil clipDay_def)
  moreover have "isoDay (makeDay y m d) = isoCivil y m d"
    by (simp add: isoDay_def civilFromDay_makeDay [OF v])
  moreover have "iso_shape (isoCivil y m d)"
    using assms by (simp add: isoCivil_def isoYear_def iso_shape_short)
  ultimately show "isIsoDate (isoCivil y m d)"
    using assms by (simp add: isIsoDate_def length_isoCivil)
qed

lemma isIsoDate_cases:
  assumes "isIsoDate s"
  obtains y m d where "0 \<le> y" "y \<le> 9999" "validCivil y m d" "s = isoCivil y m d"
proof -
  from assms have "iso_shape s" by (simp add: isIsoDate_def)
  then obtain y m d where "0 \<le> y" "y \<le> 9999" "0 \<le> m" "m \<le> 99" "0 \<le> d" "d \<le> 99" "s = isoCivil y m d"
    by (rule iso_shape_cases)
  with assms that show ?thesis by (auto simp: isIsoDate_isoCivil)
qed

lemma monthStart_mono: "1 \<le> m \<Longrightarrow> m < m' \<Longrightarrow> m' \<le> 12 \<Longrightarrow> monthStart l (m + 1) \<le> monthStart l m'"
proof -
  assume m: "1 \<le> m" "m < m'" "m' \<le> 12"
  have "\<forall>l. \<forall>a \<in> set [1..12]. \<forall>b \<in> set [1..12]. a < b \<longrightarrow> monthStart l (a + 1) \<le> monthStart l b"
    by code_simp
  moreover have "m \<in> set [1..12]" "m' \<in> set [1..12]" using m by auto
  ultimately show ?thesis using m by blast
qed

lemma makeDay_less:
  assumes "validCivil y m d" "validCivil y' m' d'"
    and "y < y' \<or> y = y' \<and> (m < m' \<or> m = m' \<and> d < d')"
  shows "makeDay y m d < makeDay y' m' d'"
proof -
  from assms have md: "1 \<le> m" "m \<le> 12" "d \<le> daysInMonth y m" "1 \<le> m'" "m' \<le> 12" "1 \<le> d'"
    by (auto simp: validCivil_def)
  consider "y < y'" | "y = y'" "m < m'" | "y = y'" "m = m'" "d < d'" using assms(3) by auto
  then show ?thesis
  proof cases
    case 1
    have "makeDay y m d < dayFromYear (y + 1)"
      using md monthStart_bounds(2) [of m "leap y"] by (simp add: makeDay_def daysInMonth_def dayFromYear_Suc)
    also have "dayFromYear (y + 1) \<le> dayFromYear y'"
      using 1 dayFromYear_mono [of "y + 1" y'] by (cases "y + 1 = y'") auto
    also have "dayFromYear y' \<le> makeDay y' m' d'"
      using md monthStart_bounds(1) [of m' "leap y'"] by (simp add: makeDay_def)
    finally show ?thesis .
  next
    case 2
    with md monthStart_mono [of m m' "leap y"] show ?thesis by (simp add: makeDay_def daysInMonth_def)
  qed (simp add: makeDay_def)
qed

lemma isoCivil_less:
  assumes "0 \<le> y" "y \<le> 9999" "validCivil y m d" "0 \<le> y'" "y' \<le> 9999" "validCivil y' m' d'"
  shows "isoCivil y m d < isoCivil y' m' d' \<longleftrightarrow> makeDay y m d < makeDay y' m' d'"
proof -
  have md: "0 \<le> m" "m < 100" "0 \<le> d" "d < 100" "0 \<le> m'" "m' < 100" "0 \<le> d'" "d' < 100"
    using assms(3,6) daysInMonth_le_31 [of m y] daysInMonth_le_31 [of m' y'] by (auto simp: validCivil_def)
  have "isoCivil y m d < isoCivil y' m' d' \<longleftrightarrow> y < y' \<or> y = y' \<and> (m < m' \<or> m = m' \<and> d < d')"
    using assms md
    by (simp add: isoCivil_def isoYear_def lex_append_same_length nat_pad_less nat_pad_eq)
  moreover have "\<not> (y < y' \<or> y = y' \<and> (m < m' \<or> m = m' \<and> d < d')) \<Longrightarrow>
      (y, m, d) = (y', m', d') \<or> y' < y \<or> y' = y \<and> (m' < m \<or> m' = m \<and> d' < d)" by auto
  ultimately show ?thesis
    using makeDay_less [OF assms(3,6)] makeDay_less [OF assms(6,3)] by fastforce
qed

definition dayOf :: "string \<Rightarrow> int" where
  "dayOf s = (case parseDay s of Some n \<Rightarrow> n | None \<Rightarrow> 0)"

lemma isoCivil_parse:
  assumes "0 \<le> y" "y \<le> 9999" "validCivil y m d"
  shows "parseDay (isoCivil y m d) = Some (makeDay y m d)"
proof -
  have md: "1 \<le> m" "m \<le> 12" "1 \<le> d" "d \<le> 31"
    using assms(3) daysInMonth_le_31 [of m y] by (auto simp: validCivil_def)
  with assms short_year_in_range [of y m d] show ?thesis
    by (simp add: parseDay_isoCivil clipDay_def)
qed

text \<open>String comparison of accepted dates is comparison of the days they name.\<close>

theorem isIsoDate_less:
  assumes "isIsoDate a" "isIsoDate b"
  shows "a < b \<longleftrightarrow> dayOf a < dayOf b"
proof -
  obtain y m d where a: "0 \<le> y" "y \<le> 9999" "validCivil y m d" "a = isoCivil y m d"
    using assms(1) by (rule isIsoDate_cases)
  obtain y' m' d' where b: "0 \<le> y'" "y' \<le> 9999" "validCivil y' m' d'" "b = isoCivil y' m' d'"
    using assms(2) by (rule isIsoDate_cases)
  from a b show ?thesis by (simp add: dayOf_def isoCivil_parse isoCivil_less)
qed

lemma isIsoDate_isoDay:
  assumes "dayFromYear 0 \<le> n" "n < dayFromYear 10000"
  shows "isIsoDate (isoDay n)" "dayOf (isoDay n) = n"
proof -
  obtain y m d where c: "civilFromDay n = (y, m, d)" by (cases "civilFromDay n")
  have y: "y = yearFromDay n" using c by (simp add: civilFromDay_def Let_def)
  have mono: "a \<le> b \<Longrightarrow> dayFromYear a \<le> dayFromYear b" for a b
    using dayFromYear_mono [of a b] by (cases "a = b") auto
  have "\<not> y + 1 \<le> 0" using assms yearFromDay_sound [of n] y mono [of "y + 1" 0] by fastforce
  moreover have "\<not> 10000 \<le> y" using assms yearFromDay_sound [of n] y mono [of 10000 y] by fastforce
  ultimately have "0 \<le> y" "y \<le> 9999" by simp_all
  with civilFromDay_valid [OF c] c show "isIsoDate (isoDay n)" "dayOf (isoDay n) = n"
    using isIsoDate_isoCivil [of y m d]
    by (auto simp: isoDay_def dayOf_def isoCivil_parse validCivil_def)
qed

end
