(* ===== verification/JsJson.thy ===== *)
theory JsJson
  imports JsDate Complex_Main
begin

text \<open>
  JSON values as the control plane receives them from the staging tables, and the two
  printers the identity code relies on: \<^verbatim>\<open>JSON.stringify\<close> of a string and of an integer.
  Both are shown to be prefix-free, which is what makes a multi-part identity preimage
  unambiguous. Objects are insertion-ordered association lists.
\<close>

section \<open>Values\<close>

text \<open>
  A JavaScript number: a finite value or one of the values \<^verbatim>\<open>Number.isFinite\<close> rejects.
  Finite values are exact rationals; rounding of the arithmetic is not modelled.
\<close>

datatype jsnum = Fin rat | NotANumber | PosInfinity | NegInfinity

datatype json =
    JNull
  | JBool bool
  | JNum jsnum
  | JStr string
  | JArr "json list"
  | JObj "(string \<times> json) list"

type_synonym jobj = "(string \<times> json) list"

definition isFinite :: "jsnum \<Rightarrow> bool" where
  "isFinite n = (case n of Fin _ \<Rightarrow> True | _ \<Rightarrow> False)"

definition str_field :: "string \<Rightarrow> jobj \<Rightarrow> string option" where
  "str_field k d = (case mget d k of Some (JStr s) \<Rightarrow> Some s | _ \<Rightarrow> None)"

section \<open>Printing integers\<close>

fun show_nat :: "nat \<Rightarrow> string" where
  "show_nat n = (if n < 10 then [digit_char n] else show_nat (n div 10) @ [digit_char (n mod 10)])"

declare show_nat.simps [simp del]

definition show_int :: "int \<Rightarrow> string" where
  "show_int n = (if n < 0 then CHR ''-'' # show_nat (nat (- n)) else show_nat (nat n))"

lemma read_show_nat [simp]: "read_dec (show_nat n) = n"
proof (induction n rule: show_nat.induct)
  case (1 n)
  show ?case
  proof (cases "n < 10")
    case True
    then show ?thesis by (simp add: show_nat.simps [of n] read_dec_def)
  next
    case False
    with 1 show ?thesis by (simp add: show_nat.simps [of n] read_dec_append)
  qed
qed

lemma digits_show_nat: "c \<in> set (show_nat n) \<Longrightarrow> is_digit c"
proof (induction n rule: show_nat.induct)
  case (1 n)
  then show ?case by (cases "n < 10") (auto simp: show_nat.simps [of n])
qed

lemma show_nat_nonempty [simp]: "show_nat n \<noteq> []"
  by (simp add: show_nat.simps [of n])

lemma show_nat_inject [simp]: "show_nat m = show_nat n \<longleftrightarrow> m = n"
  using read_show_nat by metis

lemma show_int_chars: "c \<in> set (show_int n) \<Longrightarrow> is_digit c \<or> c = CHR ''-''"
  by (auto simp: show_int_def split: if_splits dest: digits_show_nat)

lemma show_int_inject [simp]: "show_int m = show_int n \<longleftrightarrow> m = n"
proof
  assume eq: "show_int m = show_int n"
  have "\<not> is_digit CHR ''-''" by (simp add: is_digit_def)
  then have no: "show_nat k \<noteq> CHR ''-'' # s" for k s using digits_show_nat [of "CHR ''-''" k] by auto
  from eq show "m = n"
    by (cases "m < 0"; cases "n < 0") (auto simp: show_int_def no no [symmetric] simp del: nat_0_iff)
qed simp

lemma show_int_nonempty [simp]: "show_int n \<noteq> []"
  by (simp add: show_int_def)

section \<open>Quoting strings\<close>

definition hex_char :: "nat \<Rightarrow> char" where
  "hex_char n = (if n < 10 then char_of (48 + n) else char_of (87 + n))"

definition hex_val :: "char \<Rightarrow> nat" where
  "hex_val c = (let n = of_char c in if n < 58 then n - 48 else n - 87)"

lemma hex_val_char [simp]: "n < 16 \<Longrightarrow> hex_val (hex_char n) = n"
  by (simp add: hex_char_def hex_val_def)

lemma hex_char_inject: "a < 16 \<Longrightarrow> b < 16 \<Longrightarrow> hex_char a = hex_char b \<longleftrightarrow> a = b"
  using hex_val_char by metis

text \<open>How \<^verbatim>\<open>JSON.stringify\<close> writes one code unit below 256 inside a string.\<close>

definition esc :: "char \<Rightarrow> string" where
  "esc c =
     (let n = of_char c :: nat in
      if n = 34 then [CHR 0x5C, CHR 0x22]
      else if n = 92 then [CHR 0x5C, CHR 0x5C]
      else if n = 8 then [CHR 0x5C, CHR ''b'']
      else if n = 12 then [CHR 0x5C, CHR ''f'']
      else if n = 10 then [CHR 0x5C, CHR ''n'']
      else if n = 13 then [CHR 0x5C, CHR ''r'']
      else if n = 9 then [CHR 0x5C, CHR ''t'']
      else if n < 32 then [CHR 0x5C, CHR ''u'', CHR ''0'', CHR ''0'', hex_char (n div 16), hex_char (n mod 16)]
      else [c])"

definition quote :: "string \<Rightarrow> string" where
  "quote s = CHR 0x22 # concat (map esc s) @ [CHR 0x22]"

text \<open>Reading one escaped code unit back.\<close>

definition unesc :: "string \<Rightarrow> char \<times> string" where
  "unesc s =
     (if hd s \<noteq> CHR 0x5C then (hd s, tl s)
      else if s ! 1 = CHR ''u'' then (char_of (16 * hex_val (s ! 4) + hex_val (s ! 5)), drop 6 s)
      else if s ! 1 = CHR ''b'' then (char_of (8 :: nat), drop 2 s)
      else if s ! 1 = CHR ''f'' then (char_of (12 :: nat), drop 2 s)
      else if s ! 1 = CHR ''n'' then (char_of (10 :: nat), drop 2 s)
      else if s ! 1 = CHR ''r'' then (char_of (13 :: nat), drop 2 s)
      else if s ! 1 = CHR ''t'' then (char_of (9 :: nat), drop 2 s)
      else (s ! 1, drop 2 s))"

lemma char_of_eqI: "(of_char c :: nat) = n \<Longrightarrow> c = char_of n"
  by (metis char_of_char)

lemma special_chars:
  "char_of (8 :: nat) = CHR 0x08" "char_of (9 :: nat) = CHR 0x09" "char_of (10 :: nat) = CHR 0x0A"
  "char_of (12 :: nat) = CHR 0x0C" "char_of (13 :: nat) = CHR 0x0D"
  "char_of (34 :: nat) = CHR 0x22" "char_of (92 :: nat) = CHR 0x5C"
  by code_simp+

lemma unesc_esc: "unesc (esc c @ x) = (c, x)"
proof -
  define n where "n = (of_char c :: nat)"
  have c: "c = char_of n" by (simp add: n_def)
  show ?thesis
  proof (cases "n < 32 \<and> n \<notin> {8, 9, 10, 12, 13}")
    case True
    then have "n div 16 < 16" "n mod 16 < 16" by auto
    with True have "esc c = [CHR 0x5C, CHR ''u'', CHR ''0'', CHR ''0'', hex_char (n div 16), hex_char (n mod 16)]"
      by (simp add: esc_def n_def Let_def)
    with \<open>n div 16 < 16\<close> \<open>n mod 16 < 16\<close> show ?thesis by (simp add: unesc_def c)
  next
    case False
    then consider "n \<in> {8, 9, 10, 12, 13, 34, 92}" | "32 \<le> n" "n \<noteq> 34" "n \<noteq> 92"
      by fastforce
    then show ?thesis
    proof cases
      case 1
      then show ?thesis
        by (elim insertE emptyE; simp add: esc_def unesc_def c special_chars Let_def)
    next
      case 2
      then have e: "esc c = [c]" by (simp add: esc_def n_def [symmetric] Let_def)
      moreover have "c \<noteq> CHR 0x5C" using 2 by (auto simp: n_def)
      ultimately show ?thesis by (simp add: unesc_def)
    qed
  qed
qed

lemma esc_inject: "esc a @ x = esc b @ y \<Longrightarrow> a = b \<and> x = y"
  using unesc_esc by (metis Pair_inject)

lemma esc_hd: "esc c \<noteq> []" "hd (esc c @ x) \<noteq> CHR 0x22"
proof -
  have "of_char c \<noteq> (34 :: nat) \<Longrightarrow> c \<noteq> CHR 0x22" by auto
  then show "esc c \<noteq> []" "hd (esc c @ x) \<noteq> CHR 0x22" by (simp_all add: esc_def Let_def)
qed

lemma escs_prefix_free:
  "concat (map esc s) @ CHR 0x22 # x = concat (map esc t) @ CHR 0x22 # y \<Longrightarrow> s = t \<and> x = y"
proof (induction s arbitrary: t)
  case Nil
  show ?case
  proof (cases t)
    case (Cons b t')
    with Nil have "hd (esc b @ concat (map esc t') @ CHR 0x22 # y) = CHR 0x22"
      by (metis append_assoc concat.simps(2) list.sel(1) list.simps(9) map_is_Nil_conv concat.simps(1) append_Nil)
    then show ?thesis using esc_hd(2) by blast
  qed (use Nil in simp)
next
  case (Cons a s)
  show ?case
  proof (cases t)
    case Nil
    with Cons.prems have "hd (esc a @ concat (map esc s) @ CHR 0x22 # x) = CHR 0x22" by simp
    then show ?thesis using esc_hd(2) by blast
  next
    case (Cons b t')
    with Cons.prems have "esc a @ (concat (map esc s) @ CHR 0x22 # x) = esc b @ (concat (map esc t') @ CHR 0x22 # y)"
      by simp
    from esc_inject [OF this] Cons.IH [of t'] Cons show ?thesis by simp
  qed
qed

lemma quote_prefix_free: "quote s @ x = quote t @ y \<Longrightarrow> s = t \<and> x = y"
proof -
  assume "quote s @ x = quote t @ y"
  then have "concat (map esc s) @ CHR 0x22 # x = concat (map esc t) @ CHR 0x22 # y"
    unfolding quote_def by simp
  then show ?thesis by (rule escs_prefix_free)
qed

end
