(* ===== verification/CrawlBookkeeping.thy ===== *)
theory CrawlBookkeeping
  imports JsJson
begin

text \<open>
  \<^verbatim>\<open>apps/control-plane/src/data/crawl-status.ts\<close> and \<^verbatim>\<open>crawl-bookkeeping.ts\<close>: folding a finished
  crawl into the connection's status and statistics. The connections table is a map by id; a
  \<^verbatim>\<open>where\<close> clause is a guard on the row. Costs are exact rationals.
\<close>

section \<open>Connections\<close>

datatype conn_status = Connecting | Connected | Syncing | NeedsReauth | Errored | Disabled

datatype failure_reason =
    ApiContractDrift | BankLoginFailed | OtpTimeout | OtpRelayUnreachable | WafBlock | OutsideHours
  | SiteUnavailable | InstanceDied | PageCaptureTimeout | NavigationTimeout | CrawlWatchdog | InternalError

record crawl_stats =
  totalCount :: nat
  completedCount :: nat
  failedCount :: nat
  statsConsecutiveFailures :: nat
  lastFailureReason :: "failure_reason option"
  avgCostUsd :: rat
  recentCosts :: "rat list"
  lastSuccessfulTxCrawlDay :: "string option"

record connection =
  cnStatus :: conn_status
  cnConsecutiveFailures :: nat
  cnCrawlStats :: crawl_stats
  cnSafeErrorMessage :: "string option"
  cnCrawlMemory :: "string option"
  cnLoginDomainVerified :: bool
  cnScheduleEnabled :: bool
  cnSchedule :: string
  cnTimezone :: string
  cnScheduleRevision :: nat
  cnScheduleClaim :: "string option"
  cnUpdatedAt :: millis

type_synonym connections = "connection jsmap"

definition RECOVERABLE_CONNECTION_STATUSES :: "conn_status list" where
  "RECOVERABLE_CONNECTION_STATUSES = [Connected, Connecting, Errored, Syncing]"

definition isRecoverableConnectionStatus :: "conn_status \<Rightarrow> bool" where
  "isRecoverableConnectionStatus s = (s \<in> set RECOVERABLE_CONNECTION_STATUSES)"

text \<open>\<^verbatim>\<open>update connections set ... where id = ... and p\<close>\<close>

definition updateConnection ::
  "string \<Rightarrow> (connection \<Rightarrow> bool) \<Rightarrow> (connection \<Rightarrow> connection) \<Rightarrow> connections \<Rightarrow> connections" where
  "updateConnection i p f cs = (case mget cs i of Some c \<Rightarrow> if p c then mput i (f c) cs else cs | None \<Rightarrow> cs)"

section \<open>Failure policy\<close>

definition MAX_CONSECUTIVE_CRAWL_FAILURES :: nat where
  "MAX_CONSECUTIVE_CRAWL_FAILURES = 5"

definition RECENT_COSTS_CAP :: nat where
  "RECENT_COSTS_CAP = 20"

definition AUTH_FAILURE_REASONS :: "failure_reason list" where
  "AUTH_FAILURE_REASONS = [BankLoginFailed]"

definition isAuthCrawlFailureReason :: "failure_reason option \<Rightarrow> bool" where
  "isAuthCrawlFailureReason r = (case r of None \<Rightarrow> False | Some x \<Rightarrow> x \<in> set AUTH_FAILURE_REASONS)"

definition TRANSIENT_FAILURE_REASONS :: "failure_reason list" where
  "TRANSIENT_FAILURE_REASONS =
     [OtpRelayUnreachable, OtpTimeout, OutsideHours, SiteUnavailable, InstanceDied,
      PageCaptureTimeout, NavigationTimeout, CrawlWatchdog]"

definition TRANSIENT_RETRY_DELAYS_MS :: "millis list" where
  "TRANSIENT_RETRY_DELAYS_MS = [30 * 60 * 1000, 2 * 60 * 60 * 1000, 6 * 60 * 60 * 1000]"

text \<open>The failure count arrives as a JavaScript number: \<open>None\<close> when it is not an integer.\<close>

definition transientRetryDelayMs :: "failure_reason option \<Rightarrow> int option \<Rightarrow> millis option" where
  "transientRetryDelayMs reason count =
     (case reason of
        None \<Rightarrow> None
      | Some r \<Rightarrow>
          if r \<notin> set TRANSIENT_FAILURE_REASONS then None
          else case count of
                 None \<Rightarrow> None
               | Some n \<Rightarrow>
                   if n < 1 then None
                   else if nat (n - 1) < length TRANSIENT_RETRY_DELAYS_MS
                        then Some (TRANSIENT_RETRY_DELAYS_MS ! nat (n - 1)) else None)"

section \<open>Statistics\<close>

definition EMPTY_CRAWL_STATS :: crawl_stats where
  "EMPTY_CRAWL_STATS =
     \<lparr>totalCount = 0, completedCount = 0, failedCount = 0, statsConsecutiveFailures = 0,
      lastFailureReason = None, avgCostUsd = 0, recentCosts = [], lastSuccessfulTxCrawlDay = None\<rparr>"

definition withCost :: "crawl_stats \<Rightarrow> rat option \<Rightarrow> rat list \<times> rat" where
  "withCost stats cost =
     (case cost of
        None \<Rightarrow> (recentCosts stats, avgCostUsd stats)
      | Some c \<Rightarrow>
          if c \<le> 0 then (recentCosts stats, avgCostUsd stats)
          else let costs = take RECENT_COSTS_CAP (c # recentCosts stats)
               in (costs, sum_list costs / of_nat (length costs)))"

record success_input =
  suCrawlMemory :: "string option"
  suCostUsd :: "rat option"
  suToday :: millis
  suTransactionsRejected :: "nat option"

definition crawlStatsAfterSuccess :: "crawl_stats option \<Rightarrow> success_input \<Rightarrow> crawl_stats" where
  "crawlStatsAfterSuccess current input =
     (let stats = (case current of Some s \<Rightarrow> s | None \<Rightarrow> EMPTY_CRAWL_STATS);
          today = isoDay (suToday input div day_ms);
          cleanTxExtraction = (case suTransactionsRejected input of Some n \<Rightarrow> n | None \<Rightarrow> 0) = 0;
          costs = withCost stats (suCostUsd input)
      in stats\<lparr>totalCount := totalCount stats + 1,
               completedCount := completedCount stats + 1,
               statsConsecutiveFailures := 0,
               lastFailureReason := None,
               lastSuccessfulTxCrawlDay :=
                 (if cleanTxExtraction then Some today else lastSuccessfulTxCrawlDay stats),
               recentCosts := fst costs, avgCostUsd := snd costs\<rparr>)"

definition applyCrawlSuccess :: "millis \<Rightarrow> string \<Rightarrow> success_input \<Rightarrow> connections \<Rightarrow> connections" where
  "applyCrawlSuccess now i input cs =
     (case mget cs i of
        None \<Rightarrow> cs
      | Some c \<Rightarrow>
          updateConnection i (\<lambda>c. cnStatus c \<noteq> Disabled)
            (\<lambda>row. row\<lparr>cnStatus := Connected, cnConsecutiveFailures := 0, cnSafeErrorMessage := None,
                       cnCrawlStats := crawlStatsAfterSuccess (Some (cnCrawlStats c)) input,
                       cnCrawlMemory := (if truthy (suCrawlMemory input) then suCrawlMemory input else cnCrawlMemory row),
                       cnUpdatedAt := now\<rparr>) cs)"

record failure_input =
  faError :: string
  faFailureReason :: "failure_reason option"
  faCostUsd :: "rat option"

definition crawlStatsAfterFailure ::
  "crawl_stats option \<Rightarrow> nat option \<Rightarrow> failure_input \<Rightarrow> nat \<times> crawl_stats \<times> conn_status" where
  "crawlStatsAfterFailure current currentConsecutiveFailures input =
     (let stats = (case current of Some s \<Rightarrow> s | None \<Rightarrow> EMPTY_CRAWL_STATS);
          consecutive = (case currentConsecutiveFailures of Some n \<Rightarrow> n | None \<Rightarrow> 0) + 1;
          costs = withCost stats (faCostUsd input);
          next = stats\<lparr>totalCount := totalCount stats + 1,
                       failedCount := failedCount stats + 1,
                       statsConsecutiveFailures := consecutive,
                       lastFailureReason := faFailureReason input,
                       recentCosts := fst costs, avgCostUsd := snd costs\<rparr>;
          status = (if consecutive > MAX_CONSECUTIVE_CRAWL_FAILURES
                       \<and> isAuthCrawlFailureReason (faFailureReason input) then NeedsReauth else Errored)
      in (consecutive, next, status))"

definition applyCrawlFailure ::
  "millis \<Rightarrow> string \<Rightarrow> failure_input \<Rightarrow> connections \<Rightarrow> connections \<times> nat" where
  "applyCrawlFailure now i input cs =
     (case mget cs i of
        None \<Rightarrow> (cs, 0)
      | Some c \<Rightarrow>
          (case crawlStatsAfterFailure (Some (cnCrawlStats c)) (Some (cnConsecutiveFailures c)) input of
             (consecutive, next, status) \<Rightarrow>
               (updateConnection i (\<lambda>_. True)
                  (\<lambda>row. row\<lparr>cnStatus := status, cnConsecutiveFailures := consecutive,
                             cnSafeErrorMessage := Some (take 500 (faError input)),
                             cnCrawlStats := next, cnUpdatedAt := now\<rparr>) cs,
                consecutive)))"

section \<open>Invariant of the bookkeeping\<close>

text \<open>
  The counters of one connection: every attempt is a success or a failure, the streak on the
  column is the streak in the statistics and never exceeds the failures, and the cost window
  has at most twenty positive entries whose mean is the stored average.
\<close>

definition statsOk :: "crawl_stats \<Rightarrow> bool" where
  "statsOk s =
     (totalCount s = completedCount s + failedCount s
      \<and> statsConsecutiveFailures s \<le> failedCount s
      \<and> length (recentCosts s) \<le> RECENT_COSTS_CAP
      \<and> (\<forall>c \<in> set (recentCosts s). 0 < c)
      \<and> (recentCosts s \<noteq> [] \<longrightarrow> avgCostUsd s * of_nat (length (recentCosts s)) = sum_list (recentCosts s)))"

definition connectionOk :: "connection \<Rightarrow> bool" where
  "connectionOk c = (statsOk (cnCrawlStats c) \<and> cnConsecutiveFailures c = statsConsecutiveFailures (cnCrawlStats c))"

definition connectionsOk :: "connections \<Rightarrow> bool" where
  "connectionsOk cs = (\<forall>i c. mget cs i = Some c \<longrightarrow> connectionOk c)"

lemma mget_updateConnection:
  "mget (updateConnection i p f cs) j =
     (if j = i then map_option (\<lambda>c. if p c then f c else c) (mget cs i) else mget cs j)"
  by (auto simp: updateConnection_def split: option.splits)

lemma withCost_ok:
  assumes "statsOk s"
  shows "length (fst (withCost s c)) \<le> RECENT_COSTS_CAP"
    and "\<forall>x \<in> set (fst (withCost s c)). 0 < x"
    and "fst (withCost s c) \<noteq> [] \<longrightarrow> snd (withCost s c) * of_nat (length (fst (withCost s c))) = sum_list (fst (withCost s c))"
  using assms
  by (auto simp: withCost_def statsOk_def Let_def RECENT_COSTS_CAP_def split: option.splits if_splits dest: in_set_takeD)

lemma statsOk_success [inv_intros]:
  assumes "statsOk s" shows "statsOk (crawlStatsAfterSuccess (Some s) input)"
  using withCost_ok [OF assms] assms by (simp add: statsOk_def crawlStatsAfterSuccess_def Let_def)

lemma statsOk_failure [inv_intros]:
  assumes "statsOk s" "n = statsConsecutiveFailures s"
  shows "statsOk (fst (snd (crawlStatsAfterFailure (Some s) (Some n) input)))"
  using withCost_ok [OF assms(1)] assms by (simp add: statsOk_def crawlStatsAfterFailure_def Let_def)

lemma connectionsOk_success [inv_intros]:
  "connectionsOk cs \<Longrightarrow> connectionsOk (applyCrawlSuccess now i input cs)"
  by (auto simp: connectionsOk_def applyCrawlSuccess_def mget_updateConnection connectionOk_def
      statsOk_success crawlStatsAfterSuccess_def [THEN arg_cong, of statsConsecutiveFailures] Let_def split: option.splits)

lemma connectionsOk_failure [inv_intros]:
  assumes "connectionsOk cs" shows "connectionsOk (fst (applyCrawlFailure now i input cs))"
proof (cases "mget cs i")
  case None
  with assms show ?thesis by (simp add: applyCrawlFailure_def)
next
  case (Some c)
  with assms have ok: "statsOk (cnCrawlStats c)" "cnConsecutiveFailures c = statsConsecutiveFailures (cnCrawlStats c)"
    by (auto simp: connectionsOk_def connectionOk_def)
  obtain n st status where f: "crawlStatsAfterFailure (Some (cnCrawlStats c)) (Some (cnConsecutiveFailures c)) input = (n, st, status)"
    by (cases "crawlStatsAfterFailure (Some (cnCrawlStats c)) (Some (cnConsecutiveFailures c)) input") auto
  then have "n = statsConsecutiveFailures st" by (auto simp: crawlStatsAfterFailure_def Let_def)
  moreover have "statsOk st" using statsOk_failure [OF ok, of input] f by simp
  ultimately show ?thesis using assms Some f
    by (auto simp: connectionsOk_def applyCrawlFailure_def mget_updateConnection connectionOk_def)
qed

section \<open>Properties\<close>

definition demoConnection :: connection where
  "demoConnection = \<lparr>cnStatus = Syncing, cnConsecutiveFailures = 5,
     cnCrawlStats = EMPTY_CRAWL_STATS\<lparr>totalCount := 6, completedCount := 1, failedCount := 5,
       statsConsecutiveFailures := 5, recentCosts := [2], avgCostUsd := 2\<rparr>,
     cnSafeErrorMessage = None, cnCrawlMemory = None, cnLoginDomainVerified = True, cnScheduleEnabled = True,
     cnSchedule = ''0 6 * * *'', cnTimezone = ''UTC'', cnScheduleRevision = 1, cnScheduleClaim = None, cnUpdatedAt = 0\<rparr>"

lemma demoConnection_ok: "connectionsOk [(''k'', demoConnection)]"
  by (auto simp: connectionsOk_def mget_Cons demoConnection_def connectionOk_def statsOk_def
      EMPTY_CRAWL_STATS_def RECENT_COSTS_CAP_def)

text \<open>
  The bookkeeping keeps its books. Both completions preserve, for every connection: attempts
  are exactly successes plus failures, the streak column equals the streak in the statistics and
  never exceeds the failures, and the cost window holds at most twenty positive costs whose mean
  is the stored average.
\<close>

theorem bookkeeping_keeps_books:
  assumes "connectionsOk cs"
  shows "connectionsOk (applyCrawlSuccess now i success cs)
    \<and> connectionsOk (fst (applyCrawlFailure now i failure cs))"
  using assms by (simp add: connectionsOk_success connectionsOk_failure)

theorem bookkeeping_keeps_books_witness:
  "connectionsOk (fst (applyCrawlFailure 7 ''k'' \<lparr>faError = ''x'', faFailureReason = Some WafBlock, faCostUsd = Some 3\<rparr>
     [(''k'', demoConnection)]))"
  using bookkeeping_keeps_books [OF demoConnection_ok] by blast

text \<open>
  What a completion does to its connection. A success resets the streak, clears the failure
  reason, and moves the watermark to the crawl day exactly when no observation was rejected,
  unless the operator disabled the connection, whose row it leaves untouched. A failure counts one
  more attempt and one more failure, keeps the watermark, and asks for new credentials exactly
  when more than five failures in a row end with a rejected login. Other connections keep their rows.
\<close>

theorem completion_transition:
  assumes "mget cs i = Some c"
  shows "mget (applyCrawlSuccess now i su cs) i =
      (if cnStatus c = Disabled then Some c
       else Some (c\<lparr>cnStatus := Connected, cnConsecutiveFailures := 0, cnSafeErrorMessage := None,
         cnCrawlStats := crawlStatsAfterSuccess (Some (cnCrawlStats c)) su,
         cnCrawlMemory := (if truthy (suCrawlMemory su) then suCrawlMemory su else cnCrawlMemory c), cnUpdatedAt := now\<rparr>))
    \<and> lastSuccessfulTxCrawlDay (crawlStatsAfterSuccess (Some (cnCrawlStats c)) su) =
      (if suTransactionsRejected su \<in> {None, Some 0} then Some (isoDay (suToday su div day_ms))
       else lastSuccessfulTxCrawlDay (cnCrawlStats c))
    \<and> (\<exists>c'. mget (fst (applyCrawlFailure now i fa cs)) i = Some c'
         \<and> cnConsecutiveFailures c' = Suc (cnConsecutiveFailures c)
         \<and> snd (applyCrawlFailure now i fa cs) = Suc (cnConsecutiveFailures c)
         \<and> failedCount (cnCrawlStats c') = Suc (failedCount (cnCrawlStats c))
         \<and> lastSuccessfulTxCrawlDay (cnCrawlStats c') = lastSuccessfulTxCrawlDay (cnCrawlStats c)
         \<and> cnStatus c' \<in> {NeedsReauth, Errored}
         \<and> (cnStatus c' = NeedsReauth \<longleftrightarrow> 5 \<le> cnConsecutiveFailures c \<and> faFailureReason fa = Some BankLoginFailed))
    \<and> (\<forall>j. j \<noteq> i \<longrightarrow> mget (applyCrawlSuccess now i su cs) j = mget cs j
         \<and> mget (fst (applyCrawlFailure now i fa cs)) j = mget cs j)"
  using assms
  by (auto simp: applyCrawlSuccess_def applyCrawlFailure_def mget_updateConnection crawlStatsAfterSuccess_def
      crawlStatsAfterFailure_def Let_def MAX_CONSECUTIVE_CRAWL_FAILURES_def isAuthCrawlFailureReason_def
      AUTH_FAILURE_REASONS_def split: option.splits)

theorem completion_transition_witness:
  "\<exists>c'. mget (fst (applyCrawlFailure 7 ''k'' \<lparr>faError = ''x'', faFailureReason = Some BankLoginFailed, faCostUsd = None\<rparr>
     [(''k'', demoConnection)])) ''k'' = Some c' \<and> cnStatus c' = NeedsReauth"
proof -
  have "mget [(''k'', demoConnection)] ''k'' = Some demoConnection" by (simp add: mget_Cons)
  from completion_transition [OF this, of 7 _ "\<lparr>faError = ''x'', faFailureReason = Some BankLoginFailed, faCostUsd = None\<rparr>"]
  show ?thesis by (auto simp: demoConnection_def)
qed

text \<open>
  Early retries are bounded. A failed crawl is retried ahead of its schedule only for a
  transient reason and only after the first, second and third failure in a row, after 30 minutes,
  2 hours and 6 hours; rejected credentials, a bot block and a contract drift never are.
\<close>

theorem transient_retries_bounded:
  "transientRetryDelayMs reason count = Some d \<longleftrightarrow>
     (\<exists>r. reason = Some r \<and> r \<notin> {BankLoginFailed, WafBlock, ApiContractDrift, InternalError})
     \<and> ((count = Some 1 \<and> d = 1800000) \<or> (count = Some 2 \<and> d = 7200000) \<or> (count = Some 3 \<and> d = 21600000))"
proof -
  have reasons: "r \<in> set TRANSIENT_FAILURE_REASONS \<longleftrightarrow> r \<notin> {BankLoginFailed, WafBlock, ApiContractDrift, InternalError}" for r
    by (cases r) (simp_all add: TRANSIENT_FAILURE_REASONS_def)
  have nth: "(if nat (n - 1) < length TRANSIENT_RETRY_DELAYS_MS then Some (TRANSIENT_RETRY_DELAYS_MS ! nat (n - 1)) else None) = Some d
      \<longleftrightarrow> (n = 1 \<and> d = 1800000) \<or> (n = 2 \<and> d = 7200000) \<or> (n = 3 \<and> d = 21600000)" if pos: "\<not> n < 1" for n
  proof -
    consider "n = 1" | "n = 2" | "n = 3" | "3 < n" using pos by linarith
    then show ?thesis by cases (auto simp: TRANSIENT_RETRY_DELAYS_MS_def)
  qed
  show ?thesis
  proof (cases count)
    case (Some n)
    then show ?thesis using nth [of n]
      by (auto simp: transientRetryDelayMs_def reasons split: option.splits if_splits)
  qed (auto simp: transientRetryDelayMs_def split: option.splits)
qed

text \<open>
  A failure can re-enable a disabled connection. The failing completion has no counterpart of
  the success path's guard: it moves a connection the operator disabled back to a status the
  scheduler accepts, unless the failure is a rejected login.
\<close>

theorem failure_reenables_disabled:
  assumes "mget cs i = Some c" "cnStatus c = Disabled" "faFailureReason fa \<noteq> Some BankLoginFailed"
  shows "\<exists>c'. mget (fst (applyCrawlFailure now i fa cs)) i = Some c' \<and> isRecoverableConnectionStatus (cnStatus c')"
  using assms
  by (auto simp: applyCrawlFailure_def mget_updateConnection crawlStatsAfterFailure_def Let_def
      isAuthCrawlFailureReason_def AUTH_FAILURE_REASONS_def isRecoverableConnectionStatus_def
      RECOVERABLE_CONNECTION_STATUSES_def split: option.splits)

theorem failure_reenables_disabled_witness:
  "\<exists>c'. mget (fst (applyCrawlFailure 7 ''k'' \<lparr>faError = ''x'', faFailureReason = Some WafBlock, faCostUsd = None\<rparr>
     [(''k'', demoConnection\<lparr>cnStatus := Disabled\<rparr>)])) ''k'' = Some c' \<and> isRecoverableConnectionStatus (cnStatus c')"
  using failure_reenables_disabled [of "[(''k'', demoConnection\<lparr>cnStatus := Disabled\<rparr>)]" "''k''" "demoConnection\<lparr>cnStatus := Disabled\<rparr>"
      "\<lparr>faError = ''x'', faFailureReason = Some WafBlock, faCostUsd = None\<rparr>" 7]
  by (simp add: mget_Cons)

end
