(* ===== verification/TxIdentity.thy ===== *)
theory TxIdentity
  imports JsJson "HOL-Library.Word"
begin

text \<open>
  \<^verbatim>\<open>apps/control-plane/src/data/tx-identity.ts\<close>: how an extracted transaction gets the id of
  the row it is stored under. The three layers of trust are the branches of
  \<open>assignTransactionId\<close>: an approved update of a stored row, a bank reference, and the
  identity of one observation inside one promotion. \<open>resolveAuthoritativeTransactionUpdateTargets\<close>
  decides beforehand which update declarations are honoured.

  SHA-256 is a parameter \<open>sha\<close>, a function from a string to the digest bytes. Where a
  theorem needs more of it (the digest has 32 bytes, no collision among the preimages of
  one batch) that is a hypothesis of the theorem.
\<close>

unbundle bit_operations_syntax

type_synonym byte = "8 word"
type_synonym digest = "string \<Rightarrow> byte list"

section \<open>Hashing\<close>

definition hex_byte :: "byte \<Rightarrow> string" where
  "hex_byte b = [hex_char (unat b div 16), hex_char (unat b mod 16)]"

definition to_hex :: "byte list \<Rightarrow> string" where
  "to_hex bs = concat (map hex_byte bs)"

definition CONTENT_ID_PREFIX :: string where
  "CONTENT_ID_PREFIX = ''content:''"

definition OCCURRENCE_ID_PREFIX :: string where
  "OCCURRENCE_ID_PREFIX = ''occurrence:''"

definition UNATTRIBUTED_ACCOUNT_KEY :: string where
  "UNATTRIBUTED_ACCOUNT_KEY = CHR 0x00 # ''accrawl:unattributed''"

definition MAX_TRANSACTION_WINDOW_DAYS :: int where
  "MAX_TRANSACTION_WINDOW_DAYS = 90"

definition RECENT_TRANSACTION_WINDOW_DAYS :: int where
  "RECENT_TRANSACTION_WINDOW_DAYS = 7"

definition hashValue :: "digest \<Rightarrow> string \<Rightarrow> string" where
  "hashValue sha value = to_hex (sha value)"

datatype id_part = StrPart string | NumPart int

definition stringify_part :: "id_part \<Rightarrow> string" where
  "stringify_part p = (case p of StrPart s \<Rightarrow> quote s | NumPart n \<Rightarrow> show_int n)"

definition idPreimage :: "id_part list \<Rightarrow> string" where
  "idPreimage parts = CHR ''['' # join '','' (map stringify_part parts) @ '']''"

definition deterministicOccurrenceId :: "digest \<Rightarrow> string \<Rightarrow> id_part \<Rightarrow> string" where
  "deterministicOccurrenceId sha occurrenceScopeId ordinal =
     (let bytes = take 16 (sha (idPreimage [StrPart occurrenceScopeId, ordinal]));
          bytes = bytes[6 := ((bytes ! 6) AND 0x0f) OR 0x50];
          bytes = bytes[8 := ((bytes ! 8) AND 0x3f) OR 0x80];
          hex = to_hex bytes
      in join ''-'' [take 8 hex, take 4 (drop 8 hex), take 4 (drop 12 hex),
                     take 4 (drop 16 hex), drop 20 hex])"

definition deterministicAccountId :: "digest \<Rightarrow> string \<Rightarrow> string \<Rightarrow> string" where
  "deterministicAccountId sha connectionId providerAccountId =
     take 20 (hashValue sha (idPreimage [StrPart connectionId, StrPart providerAccountId]))"

definition deterministicTransactionId :: "digest \<Rightarrow> string \<Rightarrow> string \<Rightarrow> string" where
  "deterministicTransactionId sha accountId providerTransactionId =
     take 20 (hashValue sha (idPreimage [StrPart accountId, StrPart providerTransactionId]))"

definition deterministicPositionId :: "digest \<Rightarrow> string \<Rightarrow> string \<Rightarrow> string \<Rightarrow> string" where
  "deterministicPositionId sha connectionId providerAccountId providerPositionId =
     take 20 (hashValue sha (idPreimage
       [StrPart connectionId, StrPart providerAccountId, StrPart providerPositionId]))"

definition isBankProvidedId :: "string option \<Rightarrow> bool" where
  "isBankProvidedId ref =
     (case ref of None \<Rightarrow> False
      | Some i \<Rightarrow>
          if i = [] then False
          else let normalized = to_upper (trim i)
               in normalized \<noteq> ''NONE'' \<and> normalized \<noteq> []
                  \<and> \<not> starts_with normalized (to_upper CONTENT_ID_PREFIX)
                  \<and> \<not> starts_with normalized (to_upper OCCURRENCE_ID_PREFIX))"

section \<open>Data\<close>

text \<open>The fields an update declaration is read from; every observation extends it.\<close>

record update_claim =
  providerAccountId :: "string option"
  existingCanonicalId :: "string option"

record tx_identity_input = update_claim +
  providerTransactionId :: "string option"
  bookingDate :: string
  amount :: jsnum
  description :: string
  extractionOccurrenceId :: "string option"

record tx_identity =
  txId :: string
  providerTransactionIdField :: string
  isExistingUpdate :: bool

datatype tx_identity_result = Identified tx_identity | Dropped string

record tx_identity_resolution =
  authoritativeExistingTxId :: "string option"
  occurrenceScopeId :: "string option"

definition canonicalUpdateKey :: "string option \<Rightarrow> string \<Rightarrow> string" where
  "canonicalUpdateKey account canonicalId =
     idPreimage [StrPart (or_else account UNATTRIBUTED_ACCOUNT_KEY), StrPart canonicalId]"

section \<open>Resolving declared updates\<close>

record update_resolution =
  resolvedTargets :: "(string \<times> string) list"
  droppedClaimIndexes :: "(nat \<times> string) list"

definition claimKey :: "'a update_claim_scheme \<Rightarrow> string" where
  "claimKey c = canonicalUpdateKey (providerAccountId c) (or_else (existingCanonicalId c) [])"

text \<open>First loop: the indexes of the claims, grouped by their account-scoped key.\<close>

definition claimIndexesByKey :: "'a update_claim_scheme list \<Rightarrow> (string \<times> nat list) list" where
  "claimIndexesByKey claims =
     fold (\<lambda>(i, c) m. if truthy (existingCanonicalId c) then group_push (claimKey c) i m else m)
          (enumerate 0 claims) []"

text \<open>Second loop, for one key. The state is the resolved targets, the drops and the index of each key's claim.\<close>

record resolve_state =
  rsResolved :: "(string \<times> string) list"
  rsDropped :: "(nat \<times> string) list"
  rsIndex :: "(string \<times> nat) list"

definition rsDrop :: "nat \<Rightarrow> string \<Rightarrow> resolve_state \<Rightarrow> resolve_state" where
  "rsDrop i reason s = s\<lparr>rsDropped := mput i reason (rsDropped s)\<rparr>"

definition resolveKey ::
  "'a update_claim_scheme list \<Rightarrow> (string \<times> string list) list \<Rightarrow> (string \<times> string option) list
   \<Rightarrow> string \<times> nat list \<Rightarrow> resolve_state \<Rightarrow> resolve_state" where
  "resolveKey claims authoritativeTargets existingTargetsById entry s =
     (case entry of (key, matchingIndexes) \<Rightarrow>
       if length matchingIndexes \<noteq> 1 then
         fold (\<lambda>i. rsDrop i ''transaction update target is claimed more than once in one promotion'')
           matchingIndexes s
       else
         let claimIndex = matchingIndexes ! 0; claim = claims ! claimIndex in
         case mget authoritativeTargets key of
           None \<Rightarrow> rsDrop claimIndex ''transaction update target is not in the authoritative crawl snapshot'' s
         | Some approvedTargets \<Rightarrow>
             if length approvedTargets \<noteq> 1 then rsDrop claimIndex ''transaction update target is ambiguous'' s
             else
               let targetId = approvedTargets ! 0 in
               case mget existingTargetsById targetId of
                 None \<Rightarrow> rsDrop claimIndex ''transaction update target is missing or belongs to another connection'' s
               | Some account \<Rightarrow>
                   if canonicalUpdateKey account (or_else (existingCanonicalId claim) []) \<noteq> key then
                     rsDrop claimIndex ''transaction update target belongs to another account'' s
                   else s\<lparr>rsIndex := mput key claimIndex (rsIndex s),
                          rsResolved := mput key targetId (rsResolved s)\<rparr>)"

text \<open>Third loop: a stored row that several keys resolve to is given to none of them.\<close>

definition keysByTarget :: "(string \<times> string) list \<Rightarrow> (string \<times> string list) list" where
  "keysByTarget resolved = fold (\<lambda>(key, targetId) m. group_push targetId key m) resolved []"

definition dropSharedKey :: "string \<Rightarrow> resolve_state \<Rightarrow> resolve_state" where
  "dropSharedKey key s =
     (case mget (rsIndex s) key of
        Some i \<Rightarrow> (rsDrop i ''stored transaction is targeted by more than one update in one promotion'' s)
                    \<lparr>rsResolved := mdel key (rsResolved s)\<rparr>
      | None \<Rightarrow> s\<lparr>rsResolved := mdel key (rsResolved s)\<rparr>)"

definition dropSharedTarget :: "string \<times> string list \<Rightarrow> resolve_state \<Rightarrow> resolve_state" where
  "dropSharedTarget entry s =
     (case entry of (targetId, keys) \<Rightarrow> if length keys = 1 then s else fold dropSharedKey keys s)"

definition resolveAuthoritativeTransactionUpdateTargets ::
  "'a update_claim_scheme list \<Rightarrow> (string \<times> string list) list \<Rightarrow> (string \<times> string option) list
   \<Rightarrow> update_resolution" where
  "resolveAuthoritativeTransactionUpdateTargets claims authoritativeTargets existingTargetsById =
     (let s1 = fold (resolveKey claims authoritativeTargets existingTargetsById)
                 (claimIndexesByKey claims) \<lparr>rsResolved = [], rsDropped = [], rsIndex = []\<rparr>;
          s2 = fold dropSharedTarget (keysByTarget (rsResolved s1)) s1
      in \<lparr>resolvedTargets = rsResolved s2, droppedClaimIndexes = rsDropped s2\<rparr>)"

section \<open>Assigning an identity\<close>

definition occurrenceRef :: "string \<Rightarrow> string \<Rightarrow> string" where
  "occurrenceRef scope occurrence = ''occurrence:'' @ scope @ '':'' @ occurrence"

definition assignTransactionId ::
  "digest \<Rightarrow> string \<Rightarrow> 'a tx_identity_input_scheme \<Rightarrow> string list option
   \<Rightarrow> tx_identity_resolution option \<Rightarrow> tx_identity_result" where
  "assignTransactionId sha connectionId tx approvedUpdateKeys resolution =
     (let providerAccId = or_else (providerAccountId tx) UNATTRIBUTED_ACCOUNT_KEY;
          accountId = deterministicAccountId sha connectionId providerAccId;
          authoritative = Option.bind resolution authoritativeExistingTxId;
          scope = Option.bind resolution occurrenceScopeId;
          bank = isBankProvidedId (providerTransactionId tx);
          existing = or_else (existingCanonicalId tx) [];
          bankId = or_else (providerTransactionId tx) []
      in
      if truthy (existingCanonicalId tx) then
        (if approvedUpdateKeys = None
            \<or> canonicalUpdateKey (providerAccountId tx) existing \<notin> set (the approvedUpdateKeys)
         then Dropped ''existingCanonicalId not in the recent allowlist - dropped to protect against LLM hallucination''
         else if \<not> truthy authoritative
         then Dropped ''approved existingCanonicalId has no authoritative stored-row resolution''
         else Identified \<lparr>txId = or_else authoritative [],
                providerTransactionIdField = (if bank then bankId else existing),
                isExistingUpdate = True\<rparr>)
      else if bank then
        Identified \<lparr>txId = deterministicTransactionId sha accountId bankId,
          providerTransactionIdField = bankId, isExistingUpdate = False\<rparr>
      else if truthy (extractionOccurrenceId tx) \<and> truthy scope then
        (let i = deterministicTransactionId sha accountId
                   (occurrenceRef (or_else scope []) (or_else (extractionOccurrenceId tx) []))
         in Identified \<lparr>txId = i, providerTransactionIdField = OCCURRENCE_ID_PREFIX @ i,
              isExistingUpdate = False\<rparr>)
      else Dropped ''transaction has neither a trustworthy bank id, an authoritative update target, nor a promotion-scoped extraction occurrence id'')"

section \<open>The crawl window\<close>

text \<open>\<^verbatim>\<open>None\<close> is the range error that printing an invalid date raises.\<close>

definition subtractDaysUtc :: "string \<Rightarrow> int \<Rightarrow> string option" where
  "subtractDaysUtc dateStr days =
     (case parseDay dateStr of
        None \<Rightarrow> None
      | Some n \<Rightarrow> map_option isoDay (clipDay (n - days)))"

definition deriveTransactionCutoffDate :: "string option \<Rightarrow> millis \<Rightarrow> string option" where
  "deriveTransactionCutoffDate lastSuccessfulCrawlDay today =
     (let todayUtc = isoDay (today div day_ms)
      in subtractDaysUtc todayUtc
           (if truthy lastSuccessfulCrawlDay then RECENT_TRANSACTION_WINDOW_DAYS
            else MAX_TRANSACTION_WINDOW_DAYS))"

section \<open>The preimage is unambiguous\<close>

lemma stringify_part_prefix_free:
  assumes "stringify_part p @ x = stringify_part q @ y"
    and "x \<noteq> []" "hd x \<in> {CHR '','', CHR '']''}" "y \<noteq> []" "hd y \<in> {CHR '','', CHR '']''}"
  shows "p = q \<and> x = y"
proof -
  have quoted: "hd (quote s @ r) = CHR 0x22" for s r by (simp add: quote_def)
  have plain: "hd (show_int n @ r) \<noteq> CHR 0x22" for n r
    using show_int_chars [of "hd (show_int n)" n] by (auto simp: is_digit_def)
  have cut: "takeWhile (\<lambda>c. c \<notin> {CHR '','', CHR '']''}) (show_int n @ r) = show_int n
      \<and> dropWhile (\<lambda>c. c \<notin> {CHR '','', CHR '']''}) (show_int n @ r) = r"
    if "r \<noteq> []" "hd r \<in> {CHR '','', CHR '']''}" for n r
  proof -
    have "\<forall>c \<in> set (show_int n). c \<notin> {CHR '','', CHR '']''}"
      using show_int_chars by (fastforce simp: is_digit_def)
    with that show ?thesis
      by (cases r) (auto simp: takeWhile_append dropWhile_append)
  qed
  show ?thesis
  proof (cases p; cases q)
    fix a b assume "p = StrPart a" "q = StrPart b"
    with assms(1) show ?thesis using quote_prefix_free [of a x b y] by (simp add: stringify_part_def)
  next
    fix a n assume "p = StrPart a" "q = NumPart n"
    with assms(1) have "quote a @ x = show_int n @ y" by (simp add: stringify_part_def)
    with quoted [of a x] plain [of n y] show ?thesis by simp
  next
    fix a n assume "p = NumPart n" "q = StrPart a"
    with assms(1) have "quote a @ y = show_int n @ x" by (simp add: stringify_part_def)
    with quoted [of a y] plain [of n x] show ?thesis by simp
  next
    fix m n assume eq: "p = NumPart m" "q = NumPart n"
    with assms(1) have "show_int m @ x = show_int n @ y" by (simp add: stringify_part_def)
    with cut [OF assms(2,3), of m] cut [OF assms(4,5), of n] eq show ?thesis by simp
  qed
qed

definition listBody :: "id_part list \<Rightarrow> string" where
  "listBody ps = join '','' (map stringify_part ps) @ '']''"

lemma listBody_simps:
  "listBody [] = '']''"
  "listBody [p] = stringify_part p @ '']''"
  "listBody (p # q # ps) = stringify_part p @ CHR '','' # listBody (q # ps)"
  by (simp_all add: listBody_def)

lemma listBody_Cons:
  "\<exists>t. listBody (p # ps) = stringify_part p @ t \<and> t \<noteq> [] \<and> hd t \<in> {CHR '','', CHR '']''}
     \<and> (ps = [] \<longleftrightarrow> t = '']'') \<and> (ps \<noteq> [] \<longrightarrow> t = CHR '','' # listBody ps)"
  by (cases ps) (auto simp: listBody_simps)

lemma stringify_part_hd: "stringify_part p \<noteq> []" "hd (stringify_part p) \<noteq> CHR '']''"
proof -
  have "hd (show_int n) \<noteq> CHR '']''" for n
    using show_int_chars [of "hd (show_int n)" n] by (auto simp: is_digit_def)
  then show "stringify_part p \<noteq> []" "hd (stringify_part p) \<noteq> CHR '']''"
    by (cases p; simp add: stringify_part_def quote_def)+
qed

lemma listBody_inject: "listBody ps = listBody qs \<Longrightarrow> ps = qs"
proof (induction ps arbitrary: qs)
  case Nil
  show ?case
  proof (cases qs)
    case (Cons q qs')
    obtain t where "listBody (q # qs') = stringify_part q @ t" using listBody_Cons by blast
    with Nil Cons have "stringify_part q @ t = '']''" by (simp add: listBody_simps)
    then show ?thesis using stringify_part_hd [of q] by (cases "stringify_part q") auto
  qed simp
next
  case (Cons p ps)
  obtain t where t: "listBody (p # ps) = stringify_part p @ t" "t \<noteq> []" "hd t \<in> {CHR '','', CHR '']''}"
    "ps = [] \<longleftrightarrow> t = '']''" "ps \<noteq> [] \<longrightarrow> t = CHR '','' # listBody ps" using listBody_Cons by blast
  show ?case
  proof (cases qs)
    case Nil
    with Cons.prems t(1) have "stringify_part p @ t = '']''" by (simp add: listBody_simps)
    then show ?thesis using stringify_part_hd [of p] by (cases "stringify_part p") auto
  next
    case (Cons q qs')
    obtain u where u: "listBody (q # qs') = stringify_part q @ u" "u \<noteq> []" "hd u \<in> {CHR '','', CHR '']''}"
      "qs' = [] \<longleftrightarrow> u = '']''" "qs' \<noteq> [] \<longrightarrow> u = CHR '','' # listBody qs'" using listBody_Cons by blast
    from Cons.prems Cons t(1) u(1) have "stringify_part p @ t = stringify_part q @ u" by simp
    from stringify_part_prefix_free [OF this t(2,3) u(2,3)] have eq: "p = q" "t = u" by auto
    show ?thesis
    proof (cases "ps = []")
      case True
      with t(4) u(4) eq Cons show ?thesis by simp
    next
      case False
      with t(4,5) u(4,5) eq have "qs' \<noteq> []" "listBody ps = listBody qs'" by auto
      with Cons.IH Cons eq show ?thesis by blast
    qed
  qed
qed

lemma idPreimage_inject: "idPreimage ps = idPreimage qs \<longleftrightarrow> ps = qs"
  using listBody_inject by (auto simp: idPreimage_def listBody_def)

lemma canonicalUpdateKey_inject:
  "canonicalUpdateKey a c = canonicalUpdateKey a' c' \<longleftrightarrow>
     or_else a UNATTRIBUTED_ACCOUNT_KEY = or_else a' UNATTRIBUTED_ACCOUNT_KEY \<and> c = c'"
  by (simp add: canonicalUpdateKey_def idPreimage_inject)

section \<open>Resolution of declared updates\<close>

text \<open>
  The abstract rule. A key is a candidate for a stored row when exactly one claim carries it,
  the snapshot approves exactly that row for it, and the row exists and belongs to the
  account of the claim; it is resolved when no other candidate key names the same row.
\<close>

definition declaresUpdate :: "'a update_claim_scheme list \<Rightarrow> nat \<Rightarrow> string \<Rightarrow> bool" where
  "declaresUpdate claims i key =
     (i < length claims \<and> truthy (existingCanonicalId (claims ! i)) \<and> claimKey (claims ! i) = key)"

definition updateCandidate ::
  "'a update_claim_scheme list \<Rightarrow> (string \<times> string list) list \<Rightarrow> (string \<times> string option) list
   \<Rightarrow> string \<Rightarrow> string \<Rightarrow> bool" where
  "updateCandidate claims authoritative existing key target =
     (\<exists>i. declaresUpdate claims i key \<and> (\<forall>j. declaresUpdate claims j key \<longrightarrow> j = i)
        \<and> mget authoritative key = Some [target]
        \<and> (\<exists>account. mget existing target = Some account
             \<and> canonicalUpdateKey account (or_else (existingCanonicalId (claims ! i)) []) = key))"

subsection \<open>First loop\<close>

lemma fold_if_filter:
  "fold (\<lambda>x m. if P x then f x m else m) xs m = fold f (filter P xs) m"
  by (induction xs arbitrary: m) auto

lemma claimIndexesByKey_fold:
  "claimIndexesByKey claims =
     fold (\<lambda>x m. group_push (claimKey (snd x)) (fst x) m)
       (filter (\<lambda>x. truthy (existingCanonicalId (snd x))) (enumerate 0 claims)) []"
  by (simp add: claimIndexesByKey_def fold_if_filter [symmetric] case_prod_beta')

definition claimsOf :: "'a update_claim_scheme list \<Rightarrow> string \<Rightarrow> nat list" where
  "claimsOf claims key =
     map fst (filter (\<lambda>x. truthy (existingCanonicalId (snd x)) \<and> claimKey (snd x) = key) (enumerate 0 claims))"

lemma set_claimsOf: "set (claimsOf claims key) = {i. declaresUpdate claims i key}"
  by (auto simp: claimsOf_def declaresUpdate_def in_set_enumerate_eq image_iff)

lemma distinct_claimsOf: "distinct (claimsOf claims key)"
  unfolding claimsOf_def by (rule distinct_map_filter) (simp add: enumerate_map_upt [symmetric])

lemma mget_claimIndexesByKey:
  "mget (claimIndexesByKey claims) key = (if claimsOf claims key = [] then None else Some (claimsOf claims key))"
  unfolding claimIndexesByKey_fold mget_fold_group_push claimsOf_def
  by (auto split: list.splits simp: conj_commute)

lemma distinct_claimIndexesByKey: "distinct (mkeys (claimIndexesByKey claims))"
  unfolding claimIndexesByKey_fold by (rule distinct_fold_group_push) (simp add: mkeys_def)

lemma claimIndexesByKey_entry:
  "(key, idxs) \<in> set (claimIndexesByKey claims) \<longleftrightarrow> idxs = claimsOf claims key \<and> idxs \<noteq> []"
proof -
  have "(key, idxs) \<in> set (claimIndexesByKey claims) \<longleftrightarrow> mget (claimIndexesByKey claims) key = Some idxs"
    using distinct_claimIndexesByKey [of claims] by (simp add: mget_def mkeys_def)
  then show ?thesis by (auto simp: mget_claimIndexesByKey)
qed

subsection \<open>Second loop\<close>

definition resolvedTarget ::
  "'a update_claim_scheme list \<Rightarrow> (string \<times> string list) list \<Rightarrow> (string \<times> string option) list
   \<Rightarrow> string \<Rightarrow> nat list \<Rightarrow> string option" where
  "resolvedTarget claims authoritative existing key idxs =
     (if length idxs \<noteq> 1 then None
      else case mget authoritative key of None \<Rightarrow> None
        | Some approved \<Rightarrow>
            if length approved \<noteq> 1 then None
            else case mget existing (approved ! 0) of None \<Rightarrow> None
              | Some account \<Rightarrow>
                  if canonicalUpdateKey account (or_else (existingCanonicalId (claims ! (idxs ! 0))) []) \<noteq> key
                  then None else Some (approved ! 0))"

lemma rsDrop_simps [simp]:
  "rsResolved (rsDrop i r s) = rsResolved s"
  "rsIndex (rsDrop i r s) = rsIndex s"
  "mhas (rsDropped (rsDrop i r s)) j \<longleftrightarrow> j = i \<or> mhas (rsDropped s) j"
  by (simp_all add: rsDrop_def)

lemma fold_rsDrop:
  "rsResolved (fold (\<lambda>i. rsDrop i r) is s) = rsResolved s"
  "rsIndex (fold (\<lambda>i. rsDrop i r) is s) = rsIndex s"
  "mhas (rsDropped (fold (\<lambda>i. rsDrop i r) is s)) j \<longleftrightarrow> j \<in> set is \<or> mhas (rsDropped s) j"
  by (induction "is" arbitrary: s) auto

lemma resolveKey_effect:
  shows "rsResolved (resolveKey claims a e (key, idxs) s) =
      (case resolvedTarget claims a e key idxs of None \<Rightarrow> rsResolved s | Some t \<Rightarrow> mput key t (rsResolved s))"
    and "rsIndex (resolveKey claims a e (key, idxs) s) =
      (case resolvedTarget claims a e key idxs of None \<Rightarrow> rsIndex s | Some t \<Rightarrow> mput key (idxs ! 0) (rsIndex s))"
    and "mhas (rsDropped (resolveKey claims a e (key, idxs) s)) j \<longleftrightarrow>
      mhas (rsDropped s) j \<or> (resolvedTarget claims a e key idxs = None \<and> j \<in> set idxs)"
  by (auto simp: resolveKey_def resolvedTarget_def fold_rsDrop Let_def length_Suc_conv
      split: option.splits)

lemma fold_resolveKey:
  assumes "distinct (map fst es)"
  shows "mget (rsResolved (fold (resolveKey claims a e) es s)) k =
      (case map_of es k of None \<Rightarrow> mget (rsResolved s) k
       | Some idxs \<Rightarrow> (case resolvedTarget claims a e k idxs of None \<Rightarrow> mget (rsResolved s) k | Some t \<Rightarrow> Some t))"
    and "mget (rsIndex (fold (resolveKey claims a e) es s)) k =
      (case map_of es k of None \<Rightarrow> mget (rsIndex s) k
       | Some idxs \<Rightarrow> (case resolvedTarget claims a e k idxs of None \<Rightarrow> mget (rsIndex s) k | Some t \<Rightarrow> Some (idxs ! 0)))"
    and "mhas (rsDropped (fold (resolveKey claims a e) es s)) j \<longleftrightarrow>
      mhas (rsDropped s) j \<or> (\<exists>(k, idxs) \<in> set es. resolvedTarget claims a e k idxs = None \<and> j \<in> set idxs)"
    and "distinct (mkeys (rsResolved s)) \<Longrightarrow> distinct (mkeys (rsResolved (fold (resolveKey claims a e) es s)))"
  using assms
proof (induction es arbitrary: s)
  case Nil
  {
    case 1 show ?case by simp
  next
    case 2 show ?case by simp
  next
    case 3 show ?case by simp
  next
    case 4 then show ?case by simp
  }
next
  case (Cons x es)
  obtain key idxs where x: "x = (key, idxs)" by (cases x)
  {
    case 1
    with x have "map_of es key = None" by (simp add: map_of_eq_None_iff)
    with 1 x Cons(1) show ?case by (auto simp: resolveKey_effect split: option.splits)
  next
    case 2
    with x have "map_of es key = None" by (simp add: map_of_eq_None_iff)
    with 2 x Cons(2) show ?case by (auto simp: resolveKey_effect split: option.splits)
  next
    case 3
    with x Cons(3) show ?case by (auto simp: resolveKey_effect)
  next
    case 4
    with x Cons(4) show ?case by (auto simp: resolveKey_effect split: option.splits)
  }
qed

abbreviation initialResolve :: resolve_state where
  "initialResolve \<equiv> \<lparr>rsResolved = [], rsDropped = [], rsIndex = []\<rparr>"

abbreviation afterSecondLoop ::
  "'a update_claim_scheme list \<Rightarrow> (string \<times> string list) list \<Rightarrow> (string \<times> string option) list \<Rightarrow> resolve_state" where
  "afterSecondLoop claims a e \<equiv> fold (resolveKey claims a e) (claimIndexesByKey claims) initialResolve"

lemma claimIndexes_map_of: "map_of (claimIndexesByKey claims) k = mget (claimIndexesByKey claims) k"
  by (simp add: mget_def)

lemma distinct_fst_claimIndexes: "distinct (map fst (claimIndexesByKey claims))"
  using distinct_claimIndexesByKey [of claims] by (simp add: mkeys_def)

lemma length1_iff: "distinct xs \<Longrightarrow> length xs = 1 \<longleftrightarrow> (\<exists>i. i \<in> set xs \<and> (\<forall>j \<in> set xs. j = i))"
  by (cases xs rule: list.exhaust) (auto simp: length_Suc_conv, metis list.set_intros(1) neq_Nil_conv)

lemma resolvedTarget_Nil [simp]: "resolvedTarget claims a e k [] = None"
  by (simp add: resolvedTarget_def)

lemma resolvedTarget_candidate:
  "resolvedTarget claims a e k (claimsOf claims k) = Some t \<longleftrightarrow> updateCandidate claims a e k t"
proof (cases "\<exists>i. claimsOf claims k = [i]")
  case True
  then obtain i where i: "claimsOf claims k = [i]" ..
  then have d: "declaresUpdate claims j k \<longleftrightarrow> j = i" for j
    using set_claimsOf [of claims k] by auto
  show ?thesis
    by (auto simp: i d resolvedTarget_def updateCandidate_def length_Suc_conv split: option.splits if_splits)
next
  case False
  then have "length (claimsOf claims k) \<noteq> 1" by (auto simp: length_Suc_conv)
  moreover from this have "\<not> updateCandidate claims a e k t"
    using length1_iff [OF distinct_claimsOf, of claims k] set_claimsOf [of claims k]
    by (auto simp: updateCandidate_def)
  ultimately show ?thesis by (simp add: resolvedTarget_def)
qed

lemma resolvedTarget_None:
  "resolvedTarget claims a e k (claimsOf claims k) = None \<longleftrightarrow> \<not> (\<exists>t. updateCandidate claims a e k t)"
  using resolvedTarget_candidate [of claims a e k] by (metis not_Some_eq)

lemma second_loop_mget:
  "mget (rsResolved (afterSecondLoop claims a e)) k = resolvedTarget claims a e k (claimsOf claims k)"
  "mget (rsIndex (afterSecondLoop claims a e)) k =
     (case resolvedTarget claims a e k (claimsOf claims k) of None \<Rightarrow> None | Some t \<Rightarrow> Some (claimsOf claims k ! 0))"
  by (simp_all add: fold_resolveKey(1,2) [OF distinct_fst_claimIndexes] claimIndexes_map_of
      mget_claimIndexesByKey split: option.splits)

lemma second_loop_resolved:
  "mget (rsResolved (afterSecondLoop claims a e)) k = Some t \<longleftrightarrow> updateCandidate claims a e k t"
  by (simp only: second_loop_mget resolvedTarget_candidate)

lemma second_loop_index:
  "mget (rsIndex (afterSecondLoop claims a e)) k = Some i \<longleftrightarrow>
     (\<exists>t. updateCandidate claims a e k t) \<and> declaresUpdate claims i k"
proof (cases "resolvedTarget claims a e k (claimsOf claims k)")
  case None
  then show ?thesis using resolvedTarget_None [of claims a e k] by (simp add: second_loop_mget)
next
  case (Some t)
  then have "length (claimsOf claims k) = 1" by (simp add: resolvedTarget_def split: if_splits)
  then have "claimsOf claims k ! 0 = i \<longleftrightarrow> declaresUpdate claims i k"
    using set_claimsOf [of claims k] by (fastforce simp: length_Suc_conv)
  with Some show ?thesis using resolvedTarget_candidate [of claims a e k t]
    by (auto simp only: second_loop_mget option.case option.inject)
qed

lemma second_loop_dropped:
  "mhas (rsDropped (afterSecondLoop claims a e)) i \<longleftrightarrow>
     (\<exists>k. declaresUpdate claims i k \<and> \<not> (\<exists>t. updateCandidate claims a e k t))"
proof -
  have mem: "i \<in> set (claimsOf claims k) \<longleftrightarrow> declaresUpdate claims i k" for k
    by (simp add: set_claimsOf)
  have "mhas (rsDropped (afterSecondLoop claims a e)) i \<longleftrightarrow>
      (\<exists>x \<in> set (claimIndexesByKey claims). resolvedTarget claims a e (fst x) (snd x) = None \<and> i \<in> set (snd x))"
    by (simp add: fold_resolveKey(3) [OF distinct_fst_claimIndexes] case_prod_beta')
  also have "\<dots> \<longleftrightarrow> (\<exists>k. resolvedTarget claims a e k (claimsOf claims k) = None \<and> i \<in> set (claimsOf claims k))"
  proof
    assume "\<exists>x \<in> set (claimIndexesByKey claims). resolvedTarget claims a e (fst x) (snd x) = None \<and> i \<in> set (snd x)"
    then obtain k l where "(k, l) \<in> set (claimIndexesByKey claims)" "resolvedTarget claims a e k l = None" "i \<in> set l"
      by auto
    then show "\<exists>k. resolvedTarget claims a e k (claimsOf claims k) = None \<and> i \<in> set (claimsOf claims k)"
      by (auto simp: claimIndexesByKey_entry)
  next
    assume "\<exists>k. resolvedTarget claims a e k (claimsOf claims k) = None \<and> i \<in> set (claimsOf claims k)"
    then obtain k where k: "resolvedTarget claims a e k (claimsOf claims k) = None" "i \<in> set (claimsOf claims k)" by blast
    then have "(k, claimsOf claims k) \<in> set (claimIndexesByKey claims)" by (auto simp: claimIndexesByKey_entry)
    with k show "\<exists>x \<in> set (claimIndexesByKey claims). resolvedTarget claims a e (fst x) (snd x) = None \<and> i \<in> set (snd x)"
      by force
  qed
  also have "\<dots> \<longleftrightarrow> (\<exists>k. declaresUpdate claims i k \<and> \<not> (\<exists>t. updateCandidate claims a e k t))"
    unfolding mem resolvedTarget_None by blast
  finally show ?thesis .
qed

subsection \<open>Third loop\<close>

lemma dropSharedKey_effect:
  "mget (rsResolved (dropSharedKey k s)) k' = (if k' = k then None else mget (rsResolved s) k')"
  "rsIndex (dropSharedKey k s) = rsIndex s"
  "mhas (rsDropped (dropSharedKey k s)) i \<longleftrightarrow> mhas (rsDropped s) i \<or> mget (rsIndex s) k = Some i"
  by (auto simp: dropSharedKey_def split: option.splits)

lemma fold_dropSharedKey:
  "mget (rsResolved (fold dropSharedKey ks s)) k' = (if k' \<in> set ks then None else mget (rsResolved s) k')"
  "rsIndex (fold dropSharedKey ks s) = rsIndex s"
  "mhas (rsDropped (fold dropSharedKey ks s)) i \<longleftrightarrow> mhas (rsDropped s) i \<or> (\<exists>k \<in> set ks. mget (rsIndex s) k = Some i)"
  by (induction ks arbitrary: s) (auto simp: dropSharedKey_effect)

definition sharedKeys :: "(string \<times> string list) list \<Rightarrow> string set" where
  "sharedKeys es = {k. \<exists>t ks. (t, ks) \<in> set es \<and> length ks \<noteq> 1 \<and> k \<in> set ks}"

lemma sharedKeys_simps:
  "sharedKeys [] = {}"
  "sharedKeys ((t, ks) # es) = (if length ks = 1 then sharedKeys es else set ks \<union> sharedKeys es)"
  by (auto simp: sharedKeys_def)

lemma dropSharedTarget_effect:
  "mget (rsResolved (dropSharedTarget (t, ks) s)) k =
     (if length ks \<noteq> 1 \<and> k \<in> set ks then None else mget (rsResolved s) k)"
  "rsIndex (dropSharedTarget (t, ks) s) = rsIndex s"
  "mhas (rsDropped (dropSharedTarget (t, ks) s)) i \<longleftrightarrow>
     mhas (rsDropped s) i \<or> (length ks \<noteq> 1 \<and> (\<exists>k \<in> set ks. mget (rsIndex s) k = Some i))"
  by (simp_all add: dropSharedTarget_def fold_dropSharedKey)

lemma fold_dropSharedTarget:
  "mget (rsResolved (fold dropSharedTarget es s)) k = (if k \<in> sharedKeys es then None else mget (rsResolved s) k)"
  "rsIndex (fold dropSharedTarget es s) = rsIndex s"
  "mhas (rsDropped (fold dropSharedTarget es s)) i \<longleftrightarrow>
     mhas (rsDropped s) i \<or> (\<exists>k \<in> sharedKeys es. mget (rsIndex s) k = Some i)"
proof (induction es arbitrary: s)
  case (Cons x es)
  obtain t ks where x: "x = (t, ks)" by (cases x)
  {
    case 1 show ?case by (simp add: x Cons.IH dropSharedTarget_effect sharedKeys_simps)
  next
    case 2 show ?case by (simp add: x Cons.IH dropSharedTarget_effect)
  next
    case 3 show ?case by (auto simp: x Cons.IH dropSharedTarget_effect sharedKeys_simps)
  }
qed (simp_all add: sharedKeys_simps)

lemma keysByTarget_entry:
  assumes "distinct (mkeys resolved)"
  shows "(t, ks) \<in> set (keysByTarget resolved) \<longleftrightarrow> ks = map fst (filter (\<lambda>x. snd x = t) resolved) \<and> ks \<noteq> []"
proof -
  have eq: "keysByTarget resolved = fold (\<lambda>x m. group_push (snd x) (fst x) m) resolved []"
    by (simp add: keysByTarget_def case_prod_beta')
  have "distinct (mkeys (keysByTarget resolved))"
    unfolding eq by (rule distinct_fold_group_push) (simp add: mkeys_def)
  then have "(t, ks) \<in> set (keysByTarget resolved) \<longleftrightarrow> mget (keysByTarget resolved) t = Some ks"
    by (simp add: mget_def mkeys_def)
  also have "\<dots> \<longleftrightarrow> ks = map fst (filter (\<lambda>x. snd x = t) resolved) \<and> ks \<noteq> []"
    unfolding eq mget_fold_group_push by (auto split: list.splits)
  finally show ?thesis .
qed

lemma sharedKeys_keysByTarget:
  assumes "distinct (mkeys resolved)"
  shows "k \<in> sharedKeys (keysByTarget resolved) \<longleftrightarrow>
    (\<exists>t k'. k' \<noteq> k \<and> mget resolved k = Some t \<and> mget resolved k' = Some t)"
proof -
  define ks where "ks t = map fst (filter (\<lambda>x. snd x = t) resolved)" for t
  have mem: "x \<in> set (ks t) \<longleftrightarrow> mget resolved x = Some t" for x t
    using assms by (force simp: ks_def mget_def mkeys_def)
  have dist: "distinct (ks t)" for t
    using assms unfolding ks_def mkeys_def by (rule distinct_map_filter)
  have entry: "(t, l) \<in> set (keysByTarget resolved) \<longleftrightarrow> l = ks t \<and> l \<noteq> []" for t l
    unfolding ks_def by (rule keysByTarget_entry [OF assms])
  have "k \<in> sharedKeys (keysByTarget resolved) \<longleftrightarrow> (\<exists>t. length (ks t) \<noteq> 1 \<and> k \<in> set (ks t))"
    unfolding sharedKeys_def by (force simp: entry)
  also have "\<dots> \<longleftrightarrow> (\<exists>t k'. k' \<noteq> k \<and> k \<in> set (ks t) \<and> k' \<in> set (ks t))"
  proof
    assume "\<exists>t. length (ks t) \<noteq> 1 \<and> k \<in> set (ks t)"
    then obtain t where "length (ks t) \<noteq> 1" "k \<in> set (ks t)" by blast
    with length1_iff [OF dist, of t] show "\<exists>t k'. k' \<noteq> k \<and> k \<in> set (ks t) \<and> k' \<in> set (ks t)" by blast
  next
    assume "\<exists>t k'. k' \<noteq> k \<and> k \<in> set (ks t) \<and> k' \<in> set (ks t)"
    then obtain t k' where "k' \<noteq> k" "k \<in> set (ks t)" "k' \<in> set (ks t)" by blast
    then have "length (ks t) \<noteq> 1" by (auto simp: length_Suc_conv)
    with \<open>k \<in> set (ks t)\<close> show "\<exists>t. length (ks t) \<noteq> 1 \<and> k \<in> set (ks t)" by blast
  qed
  finally show ?thesis by (simp add: mem)
qed

subsection \<open>The whole resolution\<close>

lemma distinct_second_loop: "distinct (mkeys (rsResolved (afterSecondLoop claims a e)))"
  by (rule fold_resolveKey(4) [OF distinct_fst_claimIndexes]) (simp add: mkeys_def)

lemma updateCandidate_unique: "updateCandidate claims a e k t \<Longrightarrow> updateCandidate claims a e k t' \<Longrightarrow> t = t'"
  by (auto simp: updateCandidate_def)

lemma resolution_resolved:
  "mget (resolvedTargets (resolveAuthoritativeTransactionUpdateTargets claims a e)) k = Some t \<longleftrightarrow>
     updateCandidate claims a e k t \<and> (\<forall>k'. updateCandidate claims a e k' t \<longrightarrow> k' = k)"
proof -
  let ?R = "rsResolved (afterSecondLoop claims a e)"
  have "mget (resolvedTargets (resolveAuthoritativeTransactionUpdateTargets claims a e)) k =
      (if k \<in> sharedKeys (keysByTarget ?R) then None else mget ?R k)"
    by (simp add: resolveAuthoritativeTransactionUpdateTargets_def Let_def fold_dropSharedTarget)
  moreover have "k \<in> sharedKeys (keysByTarget ?R) \<longleftrightarrow>
      (\<exists>t k'. k' \<noteq> k \<and> updateCandidate claims a e k t \<and> updateCandidate claims a e k' t)"
    unfolding sharedKeys_keysByTarget [OF distinct_second_loop] second_loop_resolved ..
  moreover have "mget ?R k = Some t \<longleftrightarrow> updateCandidate claims a e k t" by (rule second_loop_resolved)
  ultimately show ?thesis using updateCandidate_unique [of claims a e k t]
    by (cases "k \<in> sharedKeys (keysByTarget ?R)") auto
qed

lemma resolution_dropped:
  "declaresUpdate claims i k \<Longrightarrow>
     mhas (droppedClaimIndexes (resolveAuthoritativeTransactionUpdateTargets claims a e)) i \<longleftrightarrow>
     \<not> mhas (resolvedTargets (resolveAuthoritativeTransactionUpdateTargets claims a e)) k"
proof -
  assume decl: "declaresUpdate claims i k"
  then have key: "declaresUpdate claims i k' \<Longrightarrow> k' = k" for k' by (simp add: declaresUpdate_def)
  let ?s = "afterSecondLoop claims a e" and ?R = "resolveAuthoritativeTransactionUpdateTargets claims a e"
  have res: "mhas (resolvedTargets ?R) k \<longleftrightarrow> k \<notin> sharedKeys (keysByTarget (rsResolved ?s)) \<and> (\<exists>t. updateCandidate claims a e k t)"
    using second_loop_resolved [of claims a e k]
    by (auto simp: mhas_def resolveAuthoritativeTransactionUpdateTargets_def Let_def fold_dropSharedTarget)
  have "mhas (droppedClaimIndexes ?R) i \<longleftrightarrow> mhas (rsDropped ?s) i
      \<or> (\<exists>x \<in> sharedKeys (keysByTarget (rsResolved ?s)). mget (rsIndex ?s) x = Some i)"
    by (simp add: resolveAuthoritativeTransactionUpdateTargets_def Let_def fold_dropSharedTarget)
  moreover have "mhas (rsDropped ?s) i \<longleftrightarrow> \<not> (\<exists>t. updateCandidate claims a e k t)"
    unfolding second_loop_dropped using decl key by blast
  moreover have "mget (rsIndex ?s) x = Some i \<longleftrightarrow> x = k \<and> (\<exists>t. updateCandidate claims a e k t)" for x
    unfolding second_loop_index using decl key by blast
  ultimately have "mhas (droppedClaimIndexes ?R) i \<longleftrightarrow> \<not> (\<exists>t. updateCandidate claims a e k t)
      \<or> (k \<in> sharedKeys (keysByTarget (rsResolved ?s)) \<and> (\<exists>t. updateCandidate claims a e k t))"
    by simp
  then show ?thesis unfolding res by blast
qed

lemma resolution_only_declared:
  "mhas (droppedClaimIndexes (resolveAuthoritativeTransactionUpdateTargets claims a e)) i \<Longrightarrow>
     \<exists>k. declaresUpdate claims i k"
  by (auto simp: resolveAuthoritativeTransactionUpdateTargets_def Let_def fold_dropSharedTarget
      second_loop_dropped second_loop_index)

text \<open>Every drop carries a reason, so reading the reason and testing for the drop agree.\<close>

definition reasonsOk :: "resolve_state \<Rightarrow> bool" where
  "reasonsOk s = (\<forall>i r. mget (rsDropped s) i = Some r \<longrightarrow> r \<noteq> [])"

lemma reasonsOk_rsDrop: "reasonsOk s \<Longrightarrow> r \<noteq> [] \<Longrightarrow> reasonsOk (rsDrop i r s)"
  by (simp add: reasonsOk_def rsDrop_def)

lemma reasonsOk_fold:
  "reasonsOk s \<Longrightarrow> (\<And>x s. reasonsOk s \<Longrightarrow> reasonsOk (f x s)) \<Longrightarrow> reasonsOk (fold f xs s)"
  by (induction xs arbitrary: s) auto

lemma reasonsOk_other [simp]:
  "reasonsOk (s\<lparr>rsResolved := a\<rparr>) = reasonsOk s" "reasonsOk (s\<lparr>rsIndex := b\<rparr>) = reasonsOk s"
  by (simp_all add: reasonsOk_def)

lemma reasonsOk_resolveKey: "reasonsOk s \<Longrightarrow> reasonsOk (resolveKey claims a e x s)"
  unfolding resolveKey_def Let_def
  by (auto simp: reasonsOk_rsDrop intro!: reasonsOk_fold split: prod.splits option.splits)

lemma reasonsOk_dropShared: "reasonsOk s \<Longrightarrow> reasonsOk (dropSharedTarget x s)"
proof -
  have "reasonsOk s \<Longrightarrow> reasonsOk (dropSharedKey k s)" for k s
    unfolding dropSharedKey_def by (auto simp: reasonsOk_rsDrop split: option.splits)
  then show "reasonsOk s \<Longrightarrow> reasonsOk (dropSharedTarget x s)"
    unfolding dropSharedTarget_def by (auto intro: reasonsOk_fold split: prod.splits)
qed

lemma dropped_reason:
  assumes "mget (droppedClaimIndexes (resolveAuthoritativeTransactionUpdateTargets claims a e)) i = Some r"
  shows "r \<noteq> []"
proof -
  let ?s1 = "fold (resolveKey claims a e) (claimIndexesByKey claims) initialResolve"
  have "reasonsOk initialResolve" by (simp add: reasonsOk_def)
  then have "reasonsOk ?s1" by (rule reasonsOk_fold) (rule reasonsOk_resolveKey)
  then have "reasonsOk (fold dropSharedTarget (keysByTarget (rsResolved ?s1)) ?s1)"
    by (rule reasonsOk_fold) (rule reasonsOk_dropShared)
  with assms show ?thesis
    by (auto simp: resolveAuthoritativeTransactionUpdateTargets_def Let_def reasonsOk_def)
qed

section \<open>Bank references and occurrence references never meet\<close>

lemma dropWhile_not_hd: "s \<noteq> [] \<Longrightarrow> \<not> P (hd s) \<Longrightarrow> dropWhile P s = s"
  by (cases s) auto

lemma trim_keeps_prefix:
  assumes "p \<noteq> []" "\<not> is_space (hd p)" "\<not> is_space (last p)"
  shows "\<exists>r. trim (p @ x) = p @ r"
proof -
  have "dropWhile is_space (p @ x) = p @ x" using assms(1,2) by (simp add: dropWhile_not_hd)
  then have t: "trim (p @ x) = rev (dropWhile is_space (rev x @ rev p))" by (simp add: trim_def)
  show ?thesis
  proof (cases "\<forall>c \<in> set x. is_space c")
    case True
    then have "dropWhile is_space (rev x @ rev p) = dropWhile is_space (rev p)"
      by (subst dropWhile_append2) auto
    also have "\<dots> = rev p" using assms by (simp add: dropWhile_not_hd hd_rev)
    finally show ?thesis using t by simp
  next
    case False
    then have "dropWhile is_space (rev x @ rev p) = dropWhile is_space (rev x) @ rev p"
      by (auto simp: dropWhile_append1)
    then show ?thesis using t by simp
  qed
qed

lemma isBankProvidedId_occurrence: "\<not> isBankProvidedId (Some (OCCURRENCE_ID_PREFIX @ x))"
proof -
  obtain r where "trim (OCCURRENCE_ID_PREFIX @ x) = OCCURRENCE_ID_PREFIX @ r"
    using trim_keeps_prefix [of OCCURRENCE_ID_PREFIX x]
    by (auto simp: OCCURRENCE_ID_PREFIX_def is_space_def)
  then show ?thesis by (simp add: isBankProvidedId_def to_upper_def Let_def)
qed

lemma isBankProvidedId_occurrenceRef: "\<not> isBankProvidedId (Some (occurrenceRef scope occ))"
  using isBankProvidedId_occurrence [of "scope @ '':'' @ occ"]
  by (simp add: occurrenceRef_def OCCURRENCE_ID_PREFIX_def)

lemma isBankProvidedId_truthy: "isBankProvidedId r \<Longrightarrow> truthy r"
  by (auto simp: isBankProvidedId_def split: option.splits if_splits)

lemma occurrenceRef_inject: "occurrenceRef scope a = occurrenceRef scope b \<longleftrightarrow> a = b"
  by (simp add: occurrenceRef_def)

text \<open>The preimage a transaction id is the truncated hash of.\<close>

definition txPreimage :: "digest \<Rightarrow> string \<Rightarrow> string option \<Rightarrow> string \<Rightarrow> string" where
  "txPreimage sha conn account r =
     idPreimage [StrPart (deterministicAccountId sha conn (or_else account UNATTRIBUTED_ACCOUNT_KEY)), StrPart r]"

definition truncHash :: "digest \<Rightarrow> string \<Rightarrow> string" where
  "truncHash sha p = take 20 (hashValue sha p)"

lemma deterministicTransactionId_truncHash:
  "deterministicTransactionId sha (deterministicAccountId sha conn (or_else account UNATTRIBUTED_ACCOUNT_KEY)) r
     = truncHash sha (txPreimage sha conn account r)"
  by (simp add: deterministicTransactionId_def txPreimage_def truncHash_def)

section \<open>The shape of an occurrence id\<close>

definition is_hex :: "char \<Rightarrow> bool" where
  "is_hex c = (let n = of_char c :: nat in (48 \<le> n \<and> n \<le> 57) \<or> (97 \<le> n \<and> n \<le> 102))"

text \<open>\<^verbatim>\<open>/^[0-9a-f]{8}-[0-9a-f]{4}-[1-5][0-9a-f]{3}-[89ab][0-9a-f]{3}-[0-9a-f]{12}$/\<close>\<close>

definition uuid_shape :: "string \<Rightarrow> bool" where
  "uuid_shape s =
     (length s = 36 \<and> s ! 8 = CHR ''-'' \<and> s ! 13 = CHR ''-'' \<and> s ! 18 = CHR ''-'' \<and> s ! 23 = CHR ''-''
      \<and> s ! 14 \<in> set ''12345'' \<and> s ! 19 \<in> set ''89ab''
      \<and> list_all is_hex (take 8 s) \<and> list_all is_hex (take 4 (drop 9 s))
      \<and> list_all is_hex (take 4 (drop 14 s)) \<and> list_all is_hex (take 4 (drop 19 s))
      \<and> list_all is_hex (drop 24 s))"

lemma is_hex_hex_char: "n < 16 \<Longrightarrow> is_hex (hex_char n)"
  by (simp add: is_hex_def hex_char_def)

lemma hex_byte_hex: "\<forall>c \<in> set (hex_byte b). is_hex c"
proof -
  have "unat b < 256" using unsigned_less [of b] by simp
  then have "unat b div 16 < 16" by auto
  then show ?thesis by (simp add: hex_byte_def is_hex_hex_char)
qed

lemma length_to_hex [simp]: "length (to_hex bs) = 2 * length bs"
  by (induction bs) (simp_all add: to_hex_def hex_byte_def)

lemma to_hex_hex: "\<forall>c \<in> set (to_hex bs). is_hex c"
  by (induction bs) (use hex_byte_hex in \<open>auto simp: to_hex_def\<close>)

lemma to_hex_nth_even: "i < length bs \<Longrightarrow> to_hex bs ! (2 * i) = hex_char (unat (bs ! i) div 16)"
proof (induction bs arbitrary: i)
  case (Cons b bs)
  then show ?case by (cases i) (simp_all add: to_hex_def hex_byte_def)
qed simp

lemma version_nibble: "unat (((b :: byte) AND 0x0f) OR 0x50) div 16 = 5"
proof -
  have "unat ((b AND 0x0f) OR 0x50) = (unat b AND 15) OR 80"
    by (simp add: unsigned_or_eq unsigned_and_eq)
  moreover have "drop_bit 4 ((unat b AND 15) OR 80) = (5 :: nat)"
    by (simp add: drop_bit_and drop_bit_or)
  ultimately show ?thesis by (simp add: drop_bit_eq_div)
qed

lemma variant_nibble: "unat (((b :: byte) AND 0x3f) OR 0x80) div 16 \<in> {8, 9, 10, 11}"
proof -
  have "unat ((b AND 0x3f) OR 0x80) = (unat b AND 63) OR 128"
    by (simp add: unsigned_or_eq unsigned_and_eq)
  moreover have "drop_bit 4 ((unat b AND 63) OR 128) = (drop_bit 4 (unat b) AND 3) OR (8 :: nat)"
    by (simp add: drop_bit_and drop_bit_or)
  moreover have "drop_bit 4 (unat b) AND 3 = drop_bit 4 (unat b) mod 4"
    using take_bit_eq_mask [of 2 "drop_bit 4 (unat b)"] by (simp add: mask_eq_exp_minus_1 take_bit_eq_mod)
  moreover have "drop_bit 4 (unat b) mod 4 \<in> {0, 1, 2, 3}" by auto
  ultimately show ?thesis by (auto simp: drop_bit_eq_div)
qed

lemma uuid_shape_parts:
  assumes len: "length a = 8" "length b = 4" "length c = 4" "length d = 4" "length e = 12"
    and hex: "\<forall>x \<in> set (a @ b @ c @ d @ e). is_hex x"
    and version: "c ! 0 \<in> set ''12345''" and variant: "d ! 0 \<in> set ''89ab''"
  shows "uuid_shape (join ''-'' [a, b, c, d, e])"
proof -
  let ?u = "a @ CHR ''-'' # b @ CHR ''-'' # c @ CHR ''-'' # d @ CHR ''-'' # e"
  have parts: "take 8 ?u = a" "take 4 (drop 9 ?u) = b" "take 4 (drop 14 ?u) = c"
    "take 4 (drop 19 ?u) = d" "drop 24 ?u = e" using len by simp_all
  have "?u ! 14 = c ! 0" "?u ! 19 = d ! 0"
    "?u ! 8 = CHR ''-''" "?u ! 13 = CHR ''-''" "?u ! 18 = CHR ''-''" "?u ! 23 = CHR ''-''"
    using len by (simp_all add: nth_append)
  with parts hex len version variant show ?thesis by (simp add: uuid_shape_def list_all_iff)
qed

lemma uuid_shape_of_hex:
  assumes "length h = 32" "\<forall>c \<in> set h. is_hex c" "h ! 12 \<in> set ''12345''" "h ! 16 \<in> set ''89ab''"
  shows "uuid_shape (join ''-'' [take 8 h, take 4 (drop 8 h), take 4 (drop 12 h), take 4 (drop 16 h), drop 20 h])"
  using assms by (intro uuid_shape_parts) (auto dest: in_set_takeD in_set_dropD)

lemma deterministicOccurrenceId_shape:
  assumes "\<And>x. length (sha x) = 32"
  shows "uuid_shape (deterministicOccurrenceId sha scope ordinal)
    \<and> deterministicOccurrenceId sha scope ordinal ! 14 = CHR ''5''"
proof -
  define b where "b = take 16 (sha (idPreimage [StrPart scope, ordinal]))"
  define b' where "b' = (b[6 := ((b ! 6) AND 0x0f) OR 0x50])[8 := (b ! 8 AND 0x3f) OR 0x80]"
  have len: "length b' = 16" by (simp add: b'_def b_def assms)
  have v6: "b' ! 6 = (b ! 6 AND 0x0f) OR 0x50" and v8: "b' ! 8 = (b ! 8 AND 0x3f) OR 0x80"
    by (simp_all add: b'_def b_def assms)
  have "hex_char 5 = CHR ''5''" by code_simp
  then have five: "to_hex b' ! 12 = CHR ''5''"
    using to_hex_nth_even [of 6 b'] len version_nibble by (simp add: v6)
  moreover have "to_hex b' ! 16 \<in> hex_char ` {8, 9, 10, 11}"
    using to_hex_nth_even [of 8 b'] len variant_nibble [of "b ! 8"] by (auto simp: v8)
  moreover have "hex_char ` {8, 9, 10, 11} = {CHR ''8'', CHR ''9'', CHR ''a'', CHR ''b''}"
    by code_simp
  moreover have "length (to_hex b') = 32" by (simp add: len)
  moreover have "b[6 := ((b ! 6) AND 0x0f) OR 0x50] ! 8 = b ! 8" by simp
  ultimately have "uuid_shape (join ''-'' [take 8 (to_hex b'), take 4 (drop 8 (to_hex b')),
      take 4 (drop 12 (to_hex b')), take 4 (drop 16 (to_hex b')), drop 20 (to_hex b')])"
    by (intro uuid_shape_of_hex to_hex_hex) auto
  moreover have "deterministicOccurrenceId sha scope ordinal =
      join ''-'' [take 8 (to_hex b'), take 4 (drop 8 (to_hex b')),
        take 4 (drop 12 (to_hex b')), take 4 (drop 16 (to_hex b')), drop 20 (to_hex b')]"
    by (simp add: deterministicOccurrenceId_def b_def [symmetric] Let_def b'_def)
  moreover have "join ''-'' [take 8 (to_hex b'), take 4 (drop 8 (to_hex b')), take 4 (drop 12 (to_hex b')),
      take 4 (drop 16 (to_hex b')), drop 20 (to_hex b')] ! 14 = CHR ''5''"
    using five len by (simp add: nth_append)
  ultimately show ?thesis by simp
qed

section \<open>The crawl window\<close>

lemma subtractDaysUtc_isoDay:
  "day_in_range n \<Longrightarrow> day_in_range (n - k) \<Longrightarrow> subtractDaysUtc (isoDay n) k = Some (isoDay (n - k))"
  by (simp add: subtractDaysUtc_def parseDay_isoDay clipDay_def)

lemma day_in_range_4digit: "dayFromYear 0 \<le> n \<Longrightarrow> n < dayFromYear 10000 \<Longrightarrow> day_in_range n"
  by (simp add: day_in_range_def dayFromYear_def abs_le_iff)

section \<open>Properties\<close>

text \<open>
  Identity preimages are unambiguous. The text two part lists are hashed from is the same
  only when the lists are: neither the number of parts, nor their kinds, nor any delimiter,
  quote or control character inside a part can make two different identities share a preimage.
  In particular the account-scoped update keys of two canonical ids agree only within one account.
\<close>

theorem identity_preimages_unambiguous:
  "(idPreimage ps = idPreimage qs \<longleftrightarrow> ps = qs)
   \<and> (canonicalUpdateKey a c = canonicalUpdateKey a' c' \<longleftrightarrow>
        or_else a UNATTRIBUTED_ACCOUNT_KEY = or_else a' UNATTRIBUTED_ACCOUNT_KEY \<and> c = c')"
  by (simp add: idPreimage_inject canonicalUpdateKey_inject)

text \<open>
  C23: A declared update is honoured exactly when it is unambiguous. A key resolves to a stored
  row if and only if one claim of the batch carries it, the snapshot approves exactly that row,
  the row exists in the claim's account, and no other candidate key names the same row; and a
  claim that declares an update is dropped if and only if its key is not resolved.
\<close>

theorem declared_updates_resolved_exactly:
  "(\<forall>k t. mget (resolvedTargets (resolveAuthoritativeTransactionUpdateTargets claims snapshot existing)) k = Some t \<longleftrightarrow>
        updateCandidate claims snapshot existing k t
        \<and> (\<forall>k'. updateCandidate claims snapshot existing k' t \<longrightarrow> k' = k))
   \<and> (\<forall>i. mhas (droppedClaimIndexes (resolveAuthoritativeTransactionUpdateTargets claims snapshot existing)) i \<longleftrightarrow>
        (\<exists>k. declaresUpdate claims i k \<and> \<not> mhas (resolvedTargets (resolveAuthoritativeTransactionUpdateTargets claims snapshot existing)) k))"
proof -
  have "mhas (droppedClaimIndexes (resolveAuthoritativeTransactionUpdateTargets claims snapshot existing)) i \<longleftrightarrow> (\<exists>k. declaresUpdate claims i k \<and> \<not> mhas (resolvedTargets (resolveAuthoritativeTransactionUpdateTargets claims snapshot existing)) k)" for i
    using resolution_only_declared resolution_dropped by blast
  then show ?thesis by (simp only: resolution_resolved simp_thms)
qed

definition twoClaims :: "update_claim list" where
  "twoClaims = [\<lparr>providerAccountId = Some ''a'', existingCanonicalId = Some ''T1''\<rparr>,
                \<lparr>providerAccountId = Some ''a'', existingCanonicalId = Some ''T2''\<rparr>]"

theorem declared_updates_resolved_exactly_witness:
  "mhas (droppedClaimIndexes (resolveAuthoritativeTransactionUpdateTargets twoClaims
       [(canonicalUpdateKey (Some ''a'') ''T1'', [''r1''])] [(''r1'', Some ''a'')])) 1"
proof -
  have "\<not> mhas (resolvedTargets (resolveAuthoritativeTransactionUpdateTargets twoClaims
      [(canonicalUpdateKey (Some ''a'') ''T1'', [''r1''])] [(''r1'', Some ''a'')]))
      (canonicalUpdateKey (Some ''a'') ''T2'')" by code_simp
  moreover have "declaresUpdate twoClaims 1 (canonicalUpdateKey (Some ''a'') ''T2'')"
    by (simp add: declaresUpdate_def twoClaims_def claimKey_def)
  ultimately show ?thesis
    using declared_updates_resolved_exactly [of twoClaims
        "[(canonicalUpdateKey (Some ''a'') ''T1'', [''r1''])]" "[(''r1'', Some ''a'')]"] by blast
qed

text \<open>
  An occurrence id is a well-formed version 5 identifier: five groups of 8, 4, 4, 4 and 12
  lower-case hexadecimal digits, version digit 5 and an RFC 4122 variant digit, for every scope
  and ordinal, given a digest of 32 bytes.
\<close>

theorem occurrence_id_is_uuid:
  assumes "\<And>x. length (sha x) = 32"
  shows "uuid_shape (deterministicOccurrenceId sha scope ordinal)
    \<and> deterministicOccurrenceId sha scope ordinal ! 14 = CHR ''5''"
  by (rule deterministicOccurrenceId_shape) (rule assms)

theorem occurrence_id_is_uuid_witness:
  "uuid_shape (deterministicOccurrenceId (\<lambda>_. replicate 32 255) ''session'' (NumPart 4))"
  using occurrence_id_is_uuid [of "\<lambda>_. replicate 32 255" "''session''" "NumPart 4"] by simp

text \<open>
  The crawl window. For every instant whose day and window lie in the four-digit years, the
  cutoff is the calendar date 90 days before the current UTC day, or 7 days before it once a
  crawl has succeeded, whatever day that success carried; and a real booking date compares below
  the cutoff as a string exactly when its day lies before the window.
\<close>

theorem cutoff_window:
  assumes "dayFromYear 0 + 90 \<le> today div day_ms" "today div day_ms < dayFromYear 10000"
  shows "\<exists>cutoff. deriveTransactionCutoffDate prior today = Some cutoff
    \<and> isIsoDate cutoff \<and> dayOf cutoff = today div day_ms - (if truthy prior then 7 else 90)
    \<and> (\<forall>s. isIsoDate s \<longrightarrow> (s < cutoff \<longleftrightarrow> dayOf s < today div day_ms - (if truthy prior then 7 else 90)))"
proof -
  let ?n = "today div day_ms" and ?w = "if truthy prior then 7 else 90 :: int"
  have r: "dayFromYear 0 \<le> ?n - ?w" "?n - ?w < dayFromYear 10000" "dayFromYear 0 \<le> ?n"
    using assms by (auto split: if_splits)
  have "deriveTransactionCutoffDate prior today = subtractDaysUtc (isoDay ?n) ?w"
    by (simp add: deriveTransactionCutoffDate_def Let_def RECENT_TRANSACTION_WINDOW_DAYS_def
        MAX_TRANSACTION_WINDOW_DAYS_def)
  also have "\<dots> = Some (isoDay (?n - ?w))"
    using day_in_range_4digit assms(2) r by (intro subtractDaysUtc_isoDay) blast+
  finally have "deriveTransactionCutoffDate prior today = Some (isoDay (?n - ?w))" .
  moreover note isIsoDate_isoDay [OF r(1,2)]
  moreover have "isIsoDate s \<Longrightarrow> s < isoDay (?n - ?w) \<longleftrightarrow> dayOf s < ?n - ?w" for s
    using isIsoDate_less [of s "isoDay (?n - ?w)"] isIsoDate_isoDay [OF r(1,2)] by simp
  ultimately show ?thesis by blast
qed

theorem cutoff_window_witness:
  "\<exists>cutoff. deriveTransactionCutoffDate (Some ''2020-01-01'') (19800 * 86400000) = Some cutoff
     \<and> isIsoDate cutoff \<and> dayOf cutoff = 19793"
proof -
  have "(19800 * 86400000 :: int) div day_ms = 19800" by (simp add: day_ms_def)
  then show ?thesis using cutoff_window [of "19800 * 86400000" "Some ''2020-01-01''"]
    by (auto simp: dayFromYear_def)
qed

end
