(* ===== verification/CrawlRecords.thy ===== *)
theory CrawlRecords
  imports TxIdentity
begin

text \<open>
  The first half of \<^verbatim>\<open>apps/control-plane/src/data/store-crawl.ts\<close>: the schemas every extracted
  record has to satisfy before it may be stored (reject, never coerce), and the three merge
  rules that fold an observation into the row already stored.

  A schema is the list of its keys with a flag for required keys and a checker for the
  value, which is what \<^verbatim>\<open>z.object({...})\<close> declares: a missing required key or a value its
  checker refuses rejects the record, keys the schema does not name are stripped. The
  UUID syntax check of the schema library is a parameter \<open>uuidOk\<close>.
\<close>

section \<open>Schemas\<close>

type_synonym checker = "json \<Rightarrow> json option"
type_synonym schema = "(string \<times> bool \<times> checker) list"

definition guardJ :: "(json \<Rightarrow> bool) \<Rightarrow> checker" where
  "guardJ p v = (if p v then Some v else None)"

definition str_ok :: "(string \<Rightarrow> bool) \<Rightarrow> json \<Rightarrow> bool" where
  "str_ok p v = (case v of JStr s \<Rightarrow> p s | _ \<Rightarrow> False)"

definition zString :: checker where
  "zString = guardJ (str_ok (\<lambda>_. True))"

definition zStringMin1 :: checker where
  "zStringMin1 = guardJ (str_ok (\<lambda>s. s \<noteq> []))"

definition zBoolean :: checker where
  "zBoolean = guardJ (\<lambda>v. case v of JBool _ \<Rightarrow> True | _ \<Rightarrow> False)"

definition zEnum :: "string list \<Rightarrow> checker" where
  "zEnum xs = guardJ (str_ok (\<lambda>s. s \<in> set xs))"

definition FiniteNumber :: checker where
  "FiniteNumber = guardJ (\<lambda>v. case v of JNum n \<Rightarrow> isFinite n | _ \<Rightarrow> False)"

definition IsoDate :: checker where
  "IsoDate = guardJ (str_ok isIsoDate)"

definition currency_ok :: "string \<Rightarrow> bool" where
  "currency_ok s = (length s = 3 \<and> list_all is_upper_alpha s)"

definition Currency :: checker where
  "Currency = guardJ (str_ok currency_ok)"

definition zUuid :: "(string \<Rightarrow> bool) \<Rightarrow> checker" where
  "zUuid uuidOk = guardJ (str_ok uuidOk)"

fun parseObj :: "schema \<Rightarrow> jobj \<Rightarrow> jobj option" where
  "parseObj [] d = Some []"
| "parseObj ((k, required, chk) # fs) d =
     (case mget d k of
        None \<Rightarrow> if required then None else parseObj fs d
      | Some v \<Rightarrow> (case chk v of None \<Rightarrow> None | Some w \<Rightarrow> map_option ((#) (k, w)) (parseObj fs d)))"

definition zObject :: "schema \<Rightarrow> checker" where
  "zObject fs v = (case v of JObj d \<Rightarrow> map_option JObj (parseObj fs d) | _ \<Rightarrow> None)"

fun sequence :: "'a option list \<Rightarrow> 'a list option" where
  "sequence [] = Some []"
| "sequence (x # xs) = (case x of None \<Rightarrow> None | Some y \<Rightarrow> map_option ((#) y) (sequence xs))"

definition zArray :: "checker \<Rightarrow> checker" where
  "zArray chk v = (case v of JArr vs \<Rightarrow> map_option JArr (sequence (map chk vs)) | _ \<Rightarrow> None)"

definition CRAWLED_ACCOUNT_TYPES :: "string list" where
  "CRAWLED_ACCOUNT_TYPES =
     [''current'', ''savings'', ''credit'', ''investment'', ''broker_cash'', ''pension'',
      ''study_fund'', ''loan'', ''mortgage'', ''other'']"

definition CreditCardLiabilitySchema :: schema where
  "CreditCardLiabilitySchema =
     [(''aprs'', False, zArray (zObject
         [(''percentage'', True, FiniteNumber),
          (''type'', False, zEnum [''purchase'', ''cash'', ''balance_transfer'', ''penalty'', ''other''])])),
      (''lastStatementDate'', False, zString),
      (''lastStatementBalance'', False, FiniteNumber),
      (''minimumPaymentAmount'', False, FiniteNumber),
      (''nextPaymentDueDate'', False, zString)]"

definition PensionDetailSchema :: schema where
  "PensionDetailSchema =
     [(''scheme'', False, zEnum [''defined_benefit'', ''defined_contribution'', ''provident_fund'', ''study_fund'', ''other'']),
      (''employer'', False, zString),
      (''contributionsToDate'', False, FiniteNumber),
      (''vestedValue'', False, FiniteNumber)]"

definition CrawledAccountSchema :: schema where
  "CrawledAccountSchema =
     [(''providerAccountId'', True, zStringMin1),
      (''name'', True, zStringMin1),
      (''description'', False, zString),
      (''currency'', True, Currency),
      (''type'', True, zEnum CRAWLED_ACCOUNT_TYPES),
      (''balance'', True, FiniteNumber),
      (''available'', False, FiniteNumber),
      (''limit'', False, FiniteNumber),
      (''creditCardLiability'', False, zObject CreditCardLiabilitySchema),
      (''pensionDetail'', False, zObject PensionDetailSchema)]"

definition CrawledTransactionSchema :: "(string \<Rightarrow> bool) \<Rightarrow> schema" where
  "CrawledTransactionSchema uuidOk =
     [(''providerAccountId'', False, zString),
      (''providerTransactionId'', False, zString),
      (''bookingDate'', True, IsoDate),
      (''amount'', True, FiniteNumber),
      (''currency'', True, Currency),
      (''merchant'', False, zString),
      (''description'', True, zString),
      (''providerCategory'', False, zString),
      (''isPending'', True, zBoolean),
      (''existingCanonicalId'', False, zString),
      (''extractionOccurrenceId'', False, zUuid uuidOk)]"

definition CrawledPositionSchema :: schema where
  "CrawledPositionSchema =
     [(''providerPositionId'', True, zStringMin1),
      (''providerAccountId'', True, zStringMin1),
      (''symbol'', False, zStringMin1),
      (''name'', True, zStringMin1),
      (''quantity'', True, FiniteNumber),
      (''currency'', True, Currency),
      (''valueNative'', True, FiniteNumber),
      (''costBasisNative'', False, FiniteNumber),
      (''isin'', False, zStringMin1),
      (''exchange'', False, zStringMin1),
      (''securityType'', False, zStringMin1)]"

definition safeParse :: "schema \<Rightarrow> json \<Rightarrow> jobj option" where
  "safeParse fs v = (case v of JObj d \<Rightarrow> parseObj fs d | _ \<Rightarrow> None)"

fun validateRecords :: "schema \<Rightarrow> json list \<Rightarrow> jobj list \<times> nat" where
  "validateRecords fs [] = ([], 0)"
| "validateRecords fs (r # rs) =
     (case validateRecords fs rs of (valid, rejected) \<Rightarrow>
        (case safeParse fs r of Some d \<Rightarrow> (d # valid, rejected) | None \<Rightarrow> (valid, Suc rejected)))"

section \<open>Merging an observation into the stored row\<close>

definition mergePresentFields :: "jobj option \<Rightarrow> jobj \<Rightarrow> jobj" where
  "mergePresentFields previous observed =
     fold (\<lambda>(key, value) merged. mput key value merged) observed
       (case previous of None \<Rightarrow> [] | Some p \<Rightarrow> p)"

definition mergeAccountData :: "jobj option \<Rightarrow> jobj \<Rightarrow> jobj" where
  "mergeAccountData previous observed =
     mput ''description''
       (case mget observed ''description'' of Some v \<Rightarrow> v | None \<Rightarrow> JStr [])
       (mergePresentFields previous observed)"

definition keepEnrichment :: "string \<Rightarrow> jobj option \<Rightarrow> jobj \<Rightarrow> jobj \<Rightarrow> jobj" where
  "keepEnrichment k previous observed merged =
     (case mget observed k of
        Some _ \<Rightarrow> merged
      | None \<Rightarrow> (case Option.bind previous (\<lambda>p. mget p k) of Some v \<Rightarrow> mput k v merged | None \<Rightarrow> merged))"

definition mergePositionData :: "jobj option \<Rightarrow> jobj \<Rightarrow> jobj" where
  "mergePositionData previous observed =
     keepEnrichment ''securityType'' previous observed
       (keepEnrichment ''exchange'' previous observed
         (keepEnrichment ''isin'' previous observed observed))"

definition stagedTransactionForStore :: "string \<times> json \<Rightarrow> json" where
  "stagedTransactionForStore rec =
     (case rec of (i, v) \<Rightarrow>
        (case v of
           JObj d \<Rightarrow> if mhas d ''extractionOccurrenceId'' then v
                     else JObj (mput ''extractionOccurrenceId'' (JStr i) d)
         | _ \<Rightarrow> v))"

section \<open>Reading a validated transaction\<close>

text \<open>The identity fields of a validated transaction, as the code reads them off the parsed object.\<close>

definition txView :: "jobj \<Rightarrow> tx_identity_input" where
  "txView d =
     \<lparr>providerAccountId = str_field ''providerAccountId'' d,
      existingCanonicalId = str_field ''existingCanonicalId'' d,
      providerTransactionId = str_field ''providerTransactionId'' d,
      bookingDate = (case str_field ''bookingDate'' d of Some s \<Rightarrow> s | None \<Rightarrow> []),
      amount = (case mget d ''amount'' of Some (JNum n) \<Rightarrow> n | _ \<Rightarrow> NotANumber),
      description = (case str_field ''description'' d of Some s \<Rightarrow> s | None \<Rightarrow> []),
      extractionOccurrenceId = str_field ''extractionOccurrenceId'' d\<rparr>"

text \<open>\<^verbatim>\<open>{ ...publicFields, providerTransactionId }\<close> after the two private fields are taken out.\<close>

definition observedData :: "jobj \<Rightarrow> string \<Rightarrow> jobj" where
  "observedData d ref =
     mput ''providerTransactionId'' (JStr ref)
       (mdel ''extractionOccurrenceId'' (mdel ''existingCanonicalId'' d))"

text \<open>The canonical key of a stored row.\<close>

definition rowKey :: "jobj \<Rightarrow> string" where
  "rowKey d = canonicalUpdateKey (str_field ''providerAccountId'' d)
     (case str_field ''providerTransactionId'' d of Some s \<Rightarrow> s | None \<Rightarrow> [])"

section \<open>Laws of the schemas\<close>

lemma parseObj_required:
  "parseObj fs d = Some r \<Longrightarrow> (k, True, chk) \<in> set fs \<Longrightarrow> mget d k \<noteq> None"
  by (induction fs arbitrary: r) (auto split: option.splits if_splits)

lemma parseObj_keys: "parseObj fs d = Some r \<Longrightarrow> set (mkeys r) \<subseteq> fst ` set fs"
proof (induction fs arbitrary: r)
  case (Cons f fs)
  obtain k q c where f: "f = (k, q, c)" by (cases f)
  show ?case
  proof (cases "mget d k")
    case None
    with Cons f show ?thesis by (auto split: if_splits)
  next
    case (Some v)
    with Cons.prems f obtain w r' where r: "r = (k, w) # r'" "parseObj fs d = Some r'"
      by (auto split: option.splits)
    with Cons.IH [of r'] f show ?thesis by (auto simp: mkeys_def)
  qed
qed (simp add: mkeys_def)

lemma parseObj_mget_fresh: "parseObj fs d = Some r \<Longrightarrow> k \<notin> fst ` set fs \<Longrightarrow> mget r k = None"
  by (induction fs arbitrary: r) (auto simp: mget_Cons split: option.splits if_splits)

lemma parseObj_mget:
  assumes "parseObj fs d = Some r" "distinct (map fst fs)" "(k, required, chk) \<in> set fs"
  shows "mget r k = Option.bind (mget d k) chk"
  using assms
proof (induction fs arbitrary: r)
  case (Cons f fs)
  obtain k' q c where f: "f = (k', q, c)" by (cases f)
  show ?case
  proof (cases "k' = k")
    case True
    with Cons.prems f have eq: "q = required" "c = chk" by (auto simp: rev_image_eqI)
    have fresh: "k \<notin> fst ` set fs" using Cons.prems(2) f True by auto
    from Cons.prems(1) f True eq fresh show ?thesis
      by (auto simp: mget_Cons parseObj_mget_fresh split: option.splits if_splits)
  next
    case False
    with Cons.prems f have "(k, required, chk) \<in> set fs" by auto
    with Cons f False show ?thesis by (auto simp: mget_Cons split: option.splits if_splits)
  qed
qed simp

lemma distinct_parseObj: "parseObj fs d = Some r \<Longrightarrow> distinct (map fst fs) \<Longrightarrow> distinct (mkeys r)"
proof (induction fs arbitrary: r)
  case (Cons f fs)
  obtain k q c where f: "f = (k, q, c)" by (cases f)
  show ?case
  proof (cases "mget d k")
    case None
    with Cons f show ?thesis by (auto split: if_splits)
  next
    case (Some v)
    with Cons.prems(1) f obtain w r' where r: "r = (k, w) # r'" "parseObj fs d = Some r'"
      by (auto split: option.splits)
    with Cons.IH [of r'] Cons.prems(2) f parseObj_keys [of fs d r'] show ?thesis
      by (auto simp: mkeys_def)
  qed
qed (simp add: mkeys_def)

lemma safeParse_Some: "safeParse fs r = Some d \<Longrightarrow> \<exists>raw. r = JObj raw \<and> parseObj fs raw = Some d"
  by (cases r) (simp_all add: safeParse_def)

lemma validateRecords_eq:
  "validateRecords fs rs = (List.map_filter (safeParse fs) rs, length (filter (\<lambda>r. safeParse fs r = None) rs))"
  by (induction rs) (auto simp: map_filter_simps split: option.splits)

lemma validateRecords_sound:
  "d \<in> set (fst (validateRecords fs rs)) \<longleftrightarrow> (\<exists>r \<in> set rs. safeParse fs r = Some d)"
  by (induction rs) (auto split: prod.splits option.splits)

lemma validateRecords_counts:
  "length (fst (validateRecords fs rs)) + snd (validateRecords fs rs) = length rs"
  by (induction rs) (auto split: prod.splits option.splits)

section \<open>Laws of the merges\<close>

lemma mget_mergePresentFields:
  assumes "distinct (mkeys observed)"
  shows "mget (mergePresentFields previous observed) k =
    (case mget observed k of Some v \<Rightarrow> Some v | None \<Rightarrow> Option.bind previous (\<lambda>p. mget p k))"
proof (cases "mget observed k")
  case None
  then have "k \<notin> fst ` set observed" by (simp add: mget_def map_of_eq_None_iff)
  with None show ?thesis
    by (simp add: mergePresentFields_def jm.put_frame_fold split: option.splits)
next
  case (Some v)
  then have "(k, v) \<in> set observed" by (simp add: mget_def map_of_SomeD)
  with Some assms show ?thesis
    by (simp add: mergePresentFields_def jm.get_put_fold mkeys_def)
qed

lemma mget_keepEnrichment:
  "mget (keepEnrichment k p d m) k' =
     (if k' = k \<and> mget d k = None \<and> Option.bind p (\<lambda>p. mget p k) \<noteq> None
      then Option.bind p (\<lambda>p. mget p k) else mget m k')"
  by (auto simp: keepEnrichment_def split: option.splits)

lemma distinct_observedData: "distinct (mkeys d) \<Longrightarrow> distinct (mkeys (observedData d r))"
  by (simp add: observedData_def)

lemma mget_observedData:
  "mget (observedData d r) k =
     (if k = ''providerTransactionId'' then Some (JStr r)
      else if k = ''extractionOccurrenceId'' \<or> k = ''existingCanonicalId'' then None else mget d k)"
  by (auto simp: observedData_def)

section \<open>Properties\<close>

lemma guardJ_Some: "guardJ p v = Some w \<longleftrightarrow> w = v \<and> p v"
  by (auto simp: guardJ_def)

lemma FiniteNumber_Some: "FiniteNumber v = Some w \<longleftrightarrow> w = v \<and> (\<exists>q. v = JNum (Fin q))"
proof (cases v)
  case (JNum n)
  then show ?thesis by (cases n) (auto simp: FiniteNumber_def guardJ_Some isFinite_def)
qed (simp_all add: FiniteNumber_def guardJ_Some)

lemma str_okE: "str_ok p v \<Longrightarrow> (\<And>s. v = JStr s \<Longrightarrow> p s \<Longrightarrow> P) \<Longrightarrow> P"
  by (auto simp: str_ok_def split: json.splits)

lemma schema_verbatim:
  assumes "parseObj fs d = Some r" "distinct (map fst fs)"
    and "\<And>k q c v w. (k, q, c) \<in> set fs \<Longrightarrow> c v = Some w \<Longrightarrow> w = v"
    and "mget r k = Some v"
  shows "mget d k = Some v"
proof -
  have "k \<in> fst ` set fs" using parseObj_mget_fresh [OF assms(1), of k] assms(4) by auto
  then obtain q c where f: "(k, q, c) \<in> set fs" by auto
  with parseObj_mget [OF assms(1,2) f] assms(4) obtain u where u: "mget d k = Some u" "c u = Some v"
    by (cases "mget d k") auto
  with assms(3) [OF f u(2)] show ?thesis by simp
qed

lemma schema_required:
  assumes "parseObj fs d = Some r" "distinct (map fst fs)" "(k, True, chk) \<in> set fs"
  shows "\<exists>v w. mget d k = Some v \<and> chk v = Some w \<and> mget r k = Some w"
proof -
  obtain v where v: "mget d k = Some v" using parseObj_required [OF assms(1,3)] by auto
  have "chk v \<noteq> None"
    using assms(1,3) v by (induction fs arbitrary: r) (auto split: option.splits if_splits)
  with v parseObj_mget [OF assms] show ?thesis by auto
qed

lemma transaction_schema_keys: "distinct (map fst (CrawledTransactionSchema uuidOk))"
  by (simp add: CrawledTransactionSchema_def)

lemma transaction_schema_verbatim:
  "(k, q, c) \<in> set (CrawledTransactionSchema uuidOk) \<Longrightarrow> c v = Some w \<Longrightarrow> w = v"
  by (auto simp: CrawledTransactionSchema_def zString_def IsoDate_def FiniteNumber_def Currency_def
      zBoolean_def zUuid_def guardJ_Some)

text \<open>
  C36: Reject, never coerce. Every transaction that survives validation comes from one raw record,
  every field it carries has the value the record had, it has no field the schema does not name,
  its booking date is a real calendar date of a four-digit year, its amount is a finite number
  and its currency three capital letters.
\<close>

theorem valid_transactions_wellformed:
  assumes "d \<in> set (fst (validateRecords (CrawledTransactionSchema uuidOk) rs))"
  shows "(\<exists>raw. JObj raw \<in> set rs \<and> (\<forall>k v. mget d k = Some v \<longrightarrow> mget raw k = Some v))
    \<and> set (mkeys d) \<subseteq> fst ` set (CrawledTransactionSchema uuidOk)
    \<and> (\<exists>y m day. mget d ''bookingDate'' = Some (JStr (isoCivil y m day)) \<and> validCivil y m day \<and> 0 \<le> y \<and> y \<le> 9999)
    \<and> (\<exists>q. mget d ''amount'' = Some (JNum (Fin q)))
    \<and> (\<exists>c. mget d ''currency'' = Some (JStr c) \<and> length c = 3 \<and> list_all is_upper_alpha c)"
proof -
  let ?fs = "CrawledTransactionSchema uuidOk"
  obtain raw where raw: "JObj raw \<in> set rs" "parseObj ?fs raw = Some d"
    using assms by (auto simp: validateRecords_sound dest: safeParse_Some)
  note req = schema_required [OF raw(2) transaction_schema_keys]
  have mem: "(''bookingDate'', True, IsoDate) \<in> set ?fs" "(''amount'', True, FiniteNumber) \<in> set ?fs"
    "(''currency'', True, Currency) \<in> set ?fs" by (simp_all add: CrawledTransactionSchema_def)
  have date: "\<exists>y m day. mget d ''bookingDate'' = Some (JStr (isoCivil y m day)) \<and> validCivil y m day \<and> 0 \<le> y \<and> y \<le> 9999"
  proof -
    from req [OF mem(1)] obtain s where "mget d ''bookingDate'' = Some (JStr s)" "isIsoDate s"
      by (auto simp: IsoDate_def guardJ_Some elim!: str_okE)
    moreover from this(2) obtain y m day where "0 \<le> y" "y \<le> 9999" "validCivil y m day" "s = isoCivil y m day"
      by (rule isIsoDate_cases)
    ultimately show ?thesis by blast
  qed
  have amount: "\<exists>q. mget d ''amount'' = Some (JNum (Fin q))"
    using req [OF mem(2)] by (auto simp: FiniteNumber_Some)
  have currency: "\<exists>c. mget d ''currency'' = Some (JStr c) \<and> length c = 3 \<and> list_all is_upper_alpha c"
    using req [OF mem(3)] by (auto simp: Currency_def guardJ_Some currency_ok_def elim!: str_okE)
  have "\<forall>k v. mget d k = Some v \<longrightarrow> mget raw k = Some v"
    by (intro allI impI, rule schema_verbatim [OF raw(2) transaction_schema_keys])
      (rule transaction_schema_verbatim)
  with raw date amount currency parseObj_keys [OF raw(2)] show ?thesis by blast
qed

theorem valid_transactions_wellformed_witness:
  "\<exists>y m day. (case fst (validateRecords (CrawledTransactionSchema (\<lambda>_. True))
       [JObj [(''bookingDate'', JStr ''2024-02-29''), (''amount'', JNum (Fin 5)), (''currency'', JStr ''EUR''),
          (''description'', JStr []), (''isPending'', JBool False)]]) of
      [d] \<Rightarrow> mget d ''bookingDate'' | _ \<Rightarrow> None) = Some (JStr (isoCivil y m day)) \<and> validCivil y m day"
proof -
  let ?rs = "[JObj [(''bookingDate'', JStr ''2024-02-29''), (''amount'', JNum (Fin 5)), (''currency'', JStr ''EUR''),
    (''description'', JStr []), (''isPending'', JBool False)]]"
  have "length (fst (validateRecords (CrawledTransactionSchema (\<lambda>_. True)) ?rs)) = 1" by code_simp
  then obtain d where d: "fst (validateRecords (CrawledTransactionSchema (\<lambda>_. True)) ?rs) = [d]"
    by (auto simp only: length_Suc_conv One_nat_def length_0_conv)
  then have "d \<in> set (fst (validateRecords (CrawledTransactionSchema (\<lambda>_. True)) ?rs))" by (simp only: list.set_intros)
  from valid_transactions_wellformed [OF this] d show ?thesis by (simp only: list.case) blast
qed

text \<open>
  Merging an observation into a stored row. A field the observation carries takes its
  value and every other field keeps the stored one; an account's description is the exception,
  cleared to the empty string when it was not observed; a position takes the observation
  entirely, except that isin, exchange and security type survive a view that does not show them.
\<close>

theorem merge_laws:
  assumes "distinct (mkeys observed)"
  shows "mget (mergePresentFields previous observed) k =
      (case mget observed k of Some v \<Rightarrow> Some v | None \<Rightarrow> Option.bind previous (\<lambda>p. mget p k))
    \<and> mget (mergeAccountData previous observed) k =
      (if k = ''description'' then Some (case mget observed k of Some v \<Rightarrow> v | None \<Rightarrow> JStr [])
       else mget (mergePresentFields previous observed) k)
    \<and> mget (mergePositionData previous observed) k =
      (if k \<in> {''isin'', ''exchange'', ''securityType''} then mget (mergePresentFields previous observed) k
       else mget observed k)"
proof -
  have "mget (mergePositionData previous observed) k =
      (if k \<in> {''isin'', ''exchange'', ''securityType''} then
         (case mget observed k of Some v \<Rightarrow> Some v | None \<Rightarrow> Option.bind previous (\<lambda>p. mget p k))
       else mget observed k)"
    by (auto simp: mergePositionData_def mget_keepEnrichment split: option.splits)
  then show ?thesis by (simp add: mergeAccountData_def mget_mergePresentFields [OF assms])
qed

theorem merge_laws_witness:
  "mget (mergePositionData (Some [(''isin'', JStr ''X''), (''symbol'', JStr ''S'')]) [(''name'', JStr ''N'')]) ''isin'' = Some (JStr ''X'')
   \<and> mget (mergePositionData (Some [(''isin'', JStr ''X''), (''symbol'', JStr ''S'')]) [(''name'', JStr ''N'')]) ''symbol'' = None"
  using merge_laws [of "[(''name'', JStr ''N'')]" "Some [(''isin'', JStr ''X''), (''symbol'', JStr ''S'')]" "''isin''"]
    merge_laws [of "[(''name'', JStr ''N'')]" "Some [(''isin'', JStr ''X''), (''symbol'', JStr ''S'')]" "''symbol''"]
  by (simp add: mkeys_def mget_Cons)

end
