(* ===== verification/PromotionLoop.thy ===== *)
theory PromotionLoop
  imports Prelude
begin

text \<open>
  The contract of a promotion loop. Both promotion paths of the control plane (the planner of
  \<^verbatim>\<open>plan-crawl-results.ts\<close> and the transactional store of \<^verbatim>\<open>store-crawl.ts\<close>) walk over the
  validated observations with the same promise: one observation is replayed, dropped or
  written, and a written row is new unless the observation was allowed to replace that row.
  \<open>ids_ok\<close> says that the digest the ids are made of is never empty.
  What follows from the promise is proved once here and used through the interpretations on
  the two step functions.
\<close>

locale promotion_loop =
  fixes step :: "'x \<Rightarrow> 's \<Rightarrow> 'e + 's"
    and row :: "'s \<Rightarrow> string \<Rightarrow> 'r option"
    and claim :: "'s \<Rightarrow> string \<Rightarrow> string option"
    and seen :: "'s \<Rightarrow> string set"
    and stored :: "'s \<Rightarrow> nat"
    and added :: "'s \<Rightarrow> nat"
    and modified :: "'s \<Rightarrow> nat"
    and dropped :: "'s \<Rightarrow> nat"
    and occ :: "'x \<Rightarrow> string"
    and may_replace :: "'x \<Rightarrow> string \<Rightarrow> bool"
    and ids_ok :: bool
  assumes step_seen: "step x s = Inr t \<Longrightarrow> occ x \<notin> seen s \<and> seen t = insert (occ x) (seen s)"
    and step_kinds: "step x s = Inr t \<Longrightarrow>
      (\<exists>i. claim s (occ x) = Some i \<and> i \<noteq> [] \<and> row s i \<noteq> None
         \<and> row t = row s \<and> claim t = claim s \<and> stored t = Suc (stored s)
         \<and> added t = added s \<and> modified t = modified s \<and> dropped t = dropped s)
      \<or> (row t = row s \<and> claim t = claim s \<and> stored t = stored s
         \<and> added t = added s \<and> modified t = modified s \<and> dropped t = Suc (dropped s))
      \<or> (\<exists>i v. (row s i = None \<or> may_replace x i) \<and> (ids_ok \<longrightarrow> i \<noteq> [])
         \<and> row t = (row s)(i \<mapsto> v) \<and> claim t = (claim s)(occ x \<mapsto> i) \<and> stored t = Suc (stored s)
         \<and> added t = added s + (if row s i = None then 1 else 0)
         \<and> modified t = modified s + (if row s i = None then 0 else 1) \<and> dropped t = dropped s)"
    and replay_law: "claim s (occ x) = Some i \<Longrightarrow> i \<noteq> [] \<Longrightarrow> row s i \<noteq> None \<Longrightarrow> occ x \<notin> seen s \<Longrightarrow>
      \<exists>t. step x s = Inr t \<and> row t = row s \<and> claim t = claim s \<and> stored t = Suc (stored s)
        \<and> added t = added s \<and> modified t = modified s \<and> dropped t = dropped s"
begin

lemma step_counts:
  "step x s = Inr t \<Longrightarrow> stored t + dropped t = Suc (stored s + dropped s)"
  using step_kinds [of x s t] by auto

lemma loop_counts:
  "foldM step xs s = Inr t \<Longrightarrow> stored t + dropped t = stored s + dropped s + length xs"
proof (induction xs arbitrary: s)
  case (Cons x xs)
  then obtain u where "step x s = Inr u" "foldM step xs u = Inr t" by (auto split: sum.splits)
  with Cons.IH step_counts show ?case by fastforce
qed simp

lemma loop_written:
  "foldM step xs s = Inr t \<Longrightarrow> added t + modified t + stored s \<le> added s + modified s + stored t"
proof (induction xs arbitrary: s)
  case (Cons x xs)
  then obtain u where "step x s = Inr u" "foldM step xs u = Inr t" by (auto split: sum.splits)
  with Cons.IH [of u] step_kinds [of x s u] show ?case by (auto split: if_splits)
qed simp

lemma step_keeps_rows: "step x s = Inr t \<Longrightarrow> row s i \<noteq> None \<Longrightarrow> row t i \<noteq> None"
  using step_kinds [of x s t] by auto

lemma loop_keeps_rows: "foldM step xs s = Inr t \<Longrightarrow> row s i \<noteq> None \<Longrightarrow> row t i \<noteq> None"
  by (rule foldM_invariant [where P = "\<lambda>s. row s i \<noteq> None"]) (auto dest: step_keeps_rows)

lemma loop_frame:
  assumes "foldM step xs s = Inr t" "row s i = Some v" "\<forall>x \<in> set xs. \<not> may_replace x i"
  shows "row t i = Some v"
proof (rule foldM_invariant [where P = "\<lambda>s. row s i = Some v", OF assms(1,2)])
  fix x s t assume "x \<in> set xs" "row s i = Some v" "step x s = Inr t"
  with assms(3) step_kinds [of x s t] show "row t i = Some v" by auto
qed

lemma loop_seen:
  "foldM step xs s = Inr t \<Longrightarrow> seen t = occ ` set xs \<union> seen s \<and> distinct (map occ xs) \<and> occ ` set xs \<inter> seen s = {}"
proof (induction xs arbitrary: s)
  case (Cons x xs)
  then obtain u where u: "step x s = Inr u" and rest: "foldM step xs u = Inr t"
    by (auto split: sum.splits)
  from Cons.IH [OF rest] step_seen [OF u] show ?case by auto
qed simp

lemma step_rows_finite_card:
  assumes "step x s = Inr t" "finite (dom (row s))"
  shows "finite (dom (row t)) \<and> card (dom (row t)) + added s = card (dom (row s)) + added t"
  using step_kinds [OF assms(1)] assms(2)
  by (auto simp: card_insert_if domIff)

lemma loop_rows_card:
  "foldM step xs s = Inr t \<Longrightarrow> finite (dom (row s)) \<Longrightarrow>
     finite (dom (row t)) \<and> card (dom (row t)) + added s = card (dom (row s)) + added t"
proof (induction xs arbitrary: s)
  case (Cons x xs)
  then obtain u where u: "step x s = Inr u" and rest: "foldM step xs u = Inr t"
    by (auto split: sum.splits)
  from Cons.IH [OF rest] step_rows_finite_card [OF u Cons.prems(2)] show ?case by auto
qed simp

text \<open>A claim of an occurrence survives the observations of all other occurrences.\<close>

lemma step_claim_frame: "step x s = Inr t \<Longrightarrow> o' \<noteq> occ x \<Longrightarrow> claim t o' = claim s o'"
  using step_kinds [of x s t] by auto

lemma loop_claim_frame:
  assumes "foldM step xs s = Inr t" "o' \<notin> occ ` set xs"
  shows "claim t o' = claim s o'"
proof (rule foldM_invariant [where P = "\<lambda>u. claim u o' = claim s o'", OF assms(1)])
  fix x u w assume "x \<in> set xs" "claim u o' = claim s o'" "step x u = Inr w"
  moreover from this assms(2) have "o' \<noteq> occ x" by auto
  ultimately show "claim w o' = claim s o'" by (simp add: step_claim_frame)
qed simp

lemma step_dropped_mono: "step x s = Inr t \<Longrightarrow> dropped s \<le> dropped t"
  using step_kinds [of x s t] by auto

lemma loop_dropped_mono: "foldM step xs s = Inr t \<Longrightarrow> dropped s \<le> dropped t"
  by (rule foldM_invariant [where P = "\<lambda>u. dropped s \<le> dropped u"])
    (auto dest: step_dropped_mono intro: order_trans)

lemma step_stored_claim:
  assumes "step x s = Inr t" "dropped t = dropped s" ids_ok
  shows "\<exists>i. claim t (occ x) = Some i \<and> i \<noteq> [] \<and> row t i \<noteq> None"
  using step_kinds [OF assms(1)] assms(2,3) by auto

lemma loop_stored_claims:
  "ids_ok \<Longrightarrow> foldM step xs s = Inr t \<Longrightarrow> dropped t = dropped s \<Longrightarrow>
     \<forall>x \<in> set xs. \<exists>i. claim t (occ x) = Some i \<and> i \<noteq> [] \<and> row t i \<noteq> None"
proof (induction xs arbitrary: s)
  case (Cons x xs)
  then obtain u where u: "step x s = Inr u" and rest: "foldM step xs u = Inr t"
    by (auto split: sum.splits)
  have eq: "dropped u = dropped s" "dropped t = dropped u"
    using step_dropped_mono [OF u] loop_dropped_mono [OF rest] Cons.prems(3) by auto
  obtain i where i: "claim u (occ x) = Some i" "i \<noteq> []" "row u i \<noteq> None"
    using step_stored_claim [OF u eq(1) Cons.prems(1)] by blast
  have "occ x \<notin> occ ` set xs" using loop_seen [OF Cons.prems(2)] by auto
  with i loop_claim_frame [OF rest] loop_keeps_rows [OF rest] have "claim t (occ x) = Some i" "row t i \<noteq> None"
    by auto
  with i Cons.IH [OF Cons.prems(1) rest eq(2)] show ?case by auto
qed simp

text \<open>A batch whose occurrences are all claimed by stored rows is replayed without any write.\<close>

lemma loop_replay:
  assumes "\<forall>x \<in> set xs. \<exists>i. claim s (occ x) = Some i \<and> i \<noteq> [] \<and> row s i \<noteq> None"
    and "distinct (map occ xs)" "occ ` set xs \<inter> seen s = {}"
  shows "\<exists>t. foldM step xs s = Inr t \<and> row t = row s \<and> claim t = claim s
      \<and> stored t = stored s + length xs \<and> added t = added s \<and> modified t = modified s \<and> dropped t = dropped s"
  using assms
proof (induction xs arbitrary: s)
  case (Cons x xs)
  obtain i where i: "claim s (occ x) = Some i" "i \<noteq> []" "row s i \<noteq> None" using Cons.prems(1) by auto
  obtain u where u: "step x s = Inr u" "row u = row s" "claim u = claim s" "stored u = Suc (stored s)"
    "added u = added s" "modified u = modified s" "dropped u = dropped s"
    using replay_law [OF i] Cons.prems(3) by auto
  have "seen u = insert (occ x) (seen s)" using step_seen [OF u(1)] by simp
  with u Cons.prems have "\<exists>t. foldM step xs u = Inr t \<and> row t = row u \<and> claim t = claim u
      \<and> stored t = stored u + length xs \<and> added t = added u \<and> modified t = modified u \<and> dropped t = dropped u"
    by (intro Cons.IH) auto
  with u show ?case by auto
qed simp

text \<open>When nothing of the batch was claimed before, every stored observation is a write.\<close>

lemma loop_first_promotion:
  "foldM step xs s = Inr t \<Longrightarrow> \<forall>x \<in> set xs. claim s (occ x) = None \<Longrightarrow>
     stored t + added s + modified s = added t + modified t + stored s"
proof (induction xs arbitrary: s)
  case (Cons x xs)
  then obtain u where u: "step x s = Inr u" and rest: "foldM step xs u = Inr t"
    by (auto split: sum.splits)
  have "occ x \<notin> occ ` set xs" using loop_seen [OF Cons.prems(1)] by auto
  then have "claim u (occ y) = claim s (occ y)" if "y \<in> set xs" for y
    using that by (intro step_claim_frame [OF u]) (auto simp: image_iff)
  with Cons.prems(2) have "\<forall>y \<in> set xs. claim u (occ y) = None" by simp
  from Cons.IH [OF rest this] step_kinds [OF u] Cons.prems(2) show ?case by (auto split: if_splits)
qed simp

end

end
