(* ===== verification/PlanCrawl.thy ===== *)
theory PlanCrawl
  imports CrawlRecords PromotionLoop
begin

text \<open>
  \<^verbatim>\<open>apps/control-plane/src/data/plan-crawl-results.ts\<close>: the pure planner of the hosted promotion
  path. It validates a crawl's records, resolves the declared updates, walks over the
  transactions once and returns the rows, the occurrence claims and the counters that the
  copy-on-write writer applies. The closures of the source over its local maps are functions
  on a state record here; a thrown error is \<open>Inl message\<close>.
\<close>

section \<open>Data\<close>

record existing_record =
  exId :: string
  exData :: jobj
  exMissingSinceCrawlCount :: "nat option"
  exLastSeenAt :: "millis option"
  exCreatedAt :: "millis option"
  exUpdatedAt :: "millis option"

record planned_record =
  plId :: string
  plData :: jobj
  plPrevious :: "existing_record option"
  plObserved :: bool

record store_result =
  rAccountsStored :: nat
  rTransactionsStored :: nat
  rTransactionsAdded :: nat
  rTransactionsModified :: nat
  rTransactionsDropped :: nat
  rPositionsStored :: nat
  rQuarantinedAccounts :: nat
  rStaleDeletedPositions :: nat
  rRejectedAccounts :: nat
  rRejectedTransactions :: nat
  rRejectedPositions :: nat
  rNewestBookingDate :: "string option"

record promotion_plan =
  ppAccounts :: "planned_record list"
  ppTransactions :: "planned_record list"
  ppPositions :: "planned_record list"
  ppOccurrenceClaims :: "(string \<times> string) list"
  ppResult :: store_result

record plan_input =
  piConnectionId :: string
  piOccurrenceScopeId :: string
  piAccounts :: "json list"
  piTransactions :: "json list"
  piPositions :: "json list"
  piExistingAccounts :: "existing_record list"
  piExistingTransactions :: "existing_record list"
  piExistingPositions :: "existing_record list"
  piAuthoritativeUpdateTargets :: "string list jsmap"
  piOccurrenceClaims :: "string jsmap"

text \<open>
  The local variables of the transaction loop. Both promotion paths have the first group; the
  planner also remembers which rows it observed.
\<close>

record promotion_state =
  storedById :: "jobj jsmap"
  rowIdsByCanonical :: "string list jsmap"
  seenOccurrenceIds :: "string list"
  occurrenceClaims :: "string jsmap"
  transactionsStored :: nat
  transactionsAdded :: nat
  transactionsModified :: nat
  transactionsDropped :: nat
  newestBookingDate :: "string option"

record plan_state = promotion_state +
  observedTransactionIds :: "string list"

text \<open>What the loop reads and never changes.\<close>

record plan_context =
  cConnectionId :: string
  cOccurrenceScopeId :: string
  cResolvedUpdateTargets :: "string jsmap"
  cDroppedClaimIndexes :: "(nat \<times> string) list"
  cInitialRowIdsByCanonical :: "string list jsmap"
  cIncomingProviderIdCounts :: "nat jsmap"
  cFloorDate :: string

section \<open>The canonical index\<close>

definition addCanonicalOwner :: "string \<Rightarrow> jobj \<Rightarrow> string list jsmap \<Rightarrow> string list jsmap" where
  "addCanonicalOwner i data rows = group_add (rowKey data) i rows"

definition removeCanonicalOwner :: "string \<Rightarrow> jobj \<Rightarrow> string list jsmap \<Rightarrow> string list jsmap" where
  "removeCanonicalOwner i data rows =
     (case mget rows (rowKey data) of
        None \<Rightarrow> rows
      | Some owners \<Rightarrow>
          if sdel i owners = [] then mdel (rowKey data) rows
          else mput (rowKey data) (sdel i owners) rows)"

definition replaceStoredIndex ::
  "string \<Rightarrow> jobj \<Rightarrow> 'a promotion_state_scheme \<Rightarrow> 'a promotion_state_scheme" where
  "replaceStoredIndex i data s =
     (let rows = (case mget (storedById s) i of
                    Some previous \<Rightarrow> removeCanonicalOwner i previous (rowIdsByCanonical s)
                  | None \<Rightarrow> rowIdsByCanonical s)
      in s\<lparr>storedById := mput i data (storedById s),
           rowIdsByCanonical := addCanonicalOwner i data rows\<rparr>)"

definition canonicalBelongsToAnotherRow ::
  "string list jsmap \<Rightarrow> string list jsmap \<Rightarrow> string \<Rightarrow> string \<Rightarrow> bool" where
  "canonicalBelongsToAnotherRow initial rows key transactionId =
     (\<exists>i \<in> set (bucket initial key @ bucket rows key). i \<noteq> transactionId)"

definition countProviderIds :: "tx_identity_input list \<Rightarrow> nat jsmap" where
  "countProviderIds txs =
     fold (\<lambda>t m.
         if isBankProvidedId (providerTransactionId t) then
           let key = canonicalUpdateKey (providerAccountId t) (or_else (providerTransactionId t) [])
           in mput key (Suc (case mget m key of Some n \<Rightarrow> n | None \<Rightarrow> 0)) m
         else m) txs []"

definition countOf :: "nat jsmap \<Rightarrow> string \<Rightarrow> nat" where
  "countOf m key = (case mget m key of Some n \<Rightarrow> n | None \<Rightarrow> 0)"

section \<open>One observation\<close>

text \<open>\<^verbatim>\<open>{ ...transaction, providerTransactionId: undefined, existingCanonicalId: undefined }\<close>\<close>

definition asOccurrence :: "tx_identity_input \<Rightarrow> tx_identity_input" where
  "asOccurrence t = t\<lparr>providerTransactionId := None, existingCanonicalId := None\<rparr>"

definition providerKey :: "tx_identity_input \<Rightarrow> string" where
  "providerKey t = canonicalUpdateKey (providerAccountId t) (or_else (providerTransactionId t) [])"

definition authoritativeTarget :: "plan_context \<Rightarrow> tx_identity_input \<Rightarrow> string option" where
  "authoritativeTarget ctx t =
     (if truthy (existingCanonicalId t)
      then mget (cResolvedUpdateTargets ctx)
             (canonicalUpdateKey (providerAccountId t) (or_else (existingCanonicalId t) []))
      else None)"

text \<open>
  The input of the first \<^verbatim>\<open>assignTransactionId\<close> call: an update may lose its replacement
  reference, a plain observation whose bank reference is not exclusive loses it altogether.
\<close>

definition planIdentityInput ::
  "plan_context \<Rightarrow> string list jsmap \<Rightarrow> tx_identity_input \<Rightarrow> tx_identity_input" where
  "planIdentityInput ctx rows t =
     (let demoted =
        (if truthy (existingCanonicalId t) \<and> isBankProvidedId (providerTransactionId t)
            \<and> (countOf (cIncomingProviderIdCounts ctx) (providerKey t) > 1
               \<or> canonicalBelongsToAnotherRow (cInitialRowIdsByCanonical ctx) rows (providerKey t)
                    (or_else (authoritativeTarget ctx t) []))
         then t\<lparr>providerTransactionId := None\<rparr> else t)
      in if \<not> truthy (existingCanonicalId demoted) \<and> isBankProvidedId (providerTransactionId demoted)
            \<and> (countOf (cIncomingProviderIdCounts ctx) (providerKey demoted) > 1
               \<or> length (bucket (cInitialRowIdsByCanonical ctx) (providerKey demoted)) > 0
               \<or> length (bucket rows (providerKey demoted)) > 0)
         then asOccurrence t else demoted)"

definition planIdentity ::
  "digest \<Rightarrow> plan_context \<Rightarrow> string list jsmap \<Rightarrow> jobj jsmap \<Rightarrow> tx_identity_input \<Rightarrow> tx_identity_result" where
  "planIdentity sha ctx rows stored t =
     (let identityInput = planIdentityInput ctx rows t;
          approvedUpdateKeys = mkeys (cResolvedUpdateTargets ctx);
          identity = assignTransactionId sha (cConnectionId ctx) identityInput (Some approvedUpdateKeys)
            (Some \<lparr>authoritativeExistingTxId = authoritativeTarget ctx t,
                   occurrenceScopeId = Some (cOccurrenceScopeId ctx)\<rparr>)
      in case identity of
           Dropped reason \<Rightarrow> Dropped reason
         | Identified idy \<Rightarrow>
             if \<not> truthy (existingCanonicalId identityInput)
                \<and> isBankProvidedId (providerTransactionId identityInput) \<and> mhas stored (txId idy)
             then assignTransactionId sha (cConnectionId ctx) (asOccurrence t) (Some approvedUpdateKeys)
                    (Some \<lparr>authoritativeExistingTxId = None,
                           occurrenceScopeId = Some (cOccurrenceScopeId ctx)\<rparr>)
             else Identified idy)"

definition bumpNewest :: "string \<Rightarrow> string option \<Rightarrow> string option" where
  "bumpNewest d newest = (if \<not> truthy newest \<or> or_else newest [] < d then Some d else newest)"

definition occurrenceOf :: "jobj \<Rightarrow> string" where
  "occurrenceOf d = or_else (str_field ''extractionOccurrenceId'' d) []"

definition planStep :: "digest \<Rightarrow> plan_context \<Rightarrow> nat \<times> jobj \<Rightarrow> plan_state \<Rightarrow> string + plan_state" where
  "planStep sha ctx x s =
     (case x of (transactionIndex, transaction) \<Rightarrow>
      let t = txView transaction; occurrenceId = occurrenceOf transaction in
      if occurrenceId \<in> set (seenOccurrenceIds s) then
        Inl ''the same transaction occurrence id appears more than once in one promotion''
      else
      let s = s\<lparr>seenOccurrenceIds := sadd occurrenceId (seenOccurrenceIds s)\<rparr>;
          existingClaim = mget (occurrenceClaims s) occurrenceId in
      if truthy existingClaim then
        (if \<not> mhas (storedById s) (or_else existingClaim []) then
           Inl ''transaction occurrence points to a missing or cross-connection transaction''
         else Inr (s\<lparr>transactionsStored := Suc (transactionsStored s),
                     newestBookingDate := bumpNewest (bookingDate t) (newestBookingDate s)\<rparr>))
      else if mhas (cDroppedClaimIndexes ctx) transactionIndex then
        Inr (s\<lparr>transactionsDropped := Suc (transactionsDropped s)\<rparr>)
      else if \<not> truthy (existingCanonicalId t) \<and> \<not> isBankProvidedId (providerTransactionId t)
              \<and> bookingDate t < cFloorDate ctx then
        Inr (s\<lparr>transactionsDropped := Suc (transactionsDropped s)\<rparr>)
      else
      (case planIdentity sha ctx (rowIdsByCanonical s) (storedById s) t of
         Dropped _ \<Rightarrow> Inr (s\<lparr>transactionsDropped := Suc (transactionsDropped s)\<rparr>)
       | Identified identity \<Rightarrow>
           let previousData = mget (storedById s) (txId identity);
               data = mergePresentFields previousData
                        (observedData transaction (providerTransactionIdField identity));
               s = s\<lparr>transactionsStored := Suc (transactionsStored s)\<rparr>;
               s = (if previousData = None then s\<lparr>transactionsAdded := Suc (transactionsAdded s)\<rparr>
                    else s\<lparr>transactionsModified := Suc (transactionsModified s)\<rparr>);
               s = replaceStoredIndex (txId identity) data s
           in Inr (s\<lparr>observedTransactionIds := sadd (txId identity) (observedTransactionIds s),
                     occurrenceClaims := mput occurrenceId (txId identity) (occurrenceClaims s),
                     newestBookingDate := bumpNewest (bookingDate t) (newestBookingDate s)\<rparr>)))"

section \<open>The planner\<close>

text \<open>Accounts and positions: every valid observation replaces its deterministic row.\<close>

definition existingById :: "existing_record list \<Rightarrow> existing_record jsmap" where
  "existingById rs = mfrom (map (\<lambda>r. (exId r, r)) rs)"

definition plannedExisting :: "existing_record list \<Rightarrow> planned_record jsmap" where
  "plannedExisting rs =
     mfrom (map (\<lambda>r. (exId r, \<lparr>plId = exId r, plData = exData r, plPrevious = Some r, plObserved = False\<rparr>)) rs)"

definition planUpsert ::
  "(jobj \<Rightarrow> string) \<Rightarrow> (jobj option \<Rightarrow> jobj \<Rightarrow> jobj) \<Rightarrow> existing_record jsmap
   \<Rightarrow> jobj list \<Rightarrow> planned_record jsmap \<Rightarrow> planned_record jsmap" where
  "planUpsert idOf merge existing valid m =
     fold (\<lambda>observed m.
         let i = idOf observed; previous = mget existing i
         in mput i \<lparr>plId = i, plData = merge (map_option exData previous) observed,
                    plPrevious = previous, plObserved = True\<rparr> m) valid m"

definition requiredStr :: "string \<Rightarrow> jobj \<Rightarrow> string" where
  "requiredStr k d = or_else (str_field k d) []"

definition accountRowId :: "digest \<Rightarrow> string \<Rightarrow> jobj \<Rightarrow> string" where
  "accountRowId sha conn d = deterministicAccountId sha conn (requiredStr ''providerAccountId'' d)"

definition positionRowId :: "digest \<Rightarrow> string \<Rightarrow> jobj \<Rightarrow> string" where
  "positionRowId sha conn d =
     deterministicPositionId sha conn (requiredStr ''providerAccountId'' d) (requiredStr ''providerPositionId'' d)"

definition stageTransactions :: "digest \<Rightarrow> string \<Rightarrow> json list \<Rightarrow> json list" where
  "stageTransactions sha scope txs =
     map (\<lambda>(index, d). stagedTransactionForStore (deterministicOccurrenceId sha scope (NumPart (int index)), d))
       (enumerate 0 txs)"

definition planContext ::
  "digest \<Rightarrow> plan_input \<Rightarrow> jobj list \<Rightarrow> string list jsmap \<Rightarrow> string \<Rightarrow> plan_context" where
  "planContext sha input valid rows floorDate =
     (let stored = mfrom (map (\<lambda>r. (exId r, str_field ''providerAccountId'' (exData r))) (piExistingTransactions input));
          updateResolution = resolveAuthoritativeTransactionUpdateTargets (map txView valid)
            (piAuthoritativeUpdateTargets input) stored
      in \<lparr>cConnectionId = piConnectionId input,
          cOccurrenceScopeId = piOccurrenceScopeId input,
          cResolvedUpdateTargets = resolvedTargets updateResolution,
          cDroppedClaimIndexes = droppedClaimIndexes updateResolution,
          cInitialRowIdsByCanonical = rows,
          cIncomingProviderIdCounts = countProviderIds (map txView valid),
          cFloorDate = floorDate\<rparr>)"

definition initialRows :: "existing_record list \<Rightarrow> string list jsmap" where
  "initialRows rs = fold (\<lambda>r m. addCanonicalOwner (exId r) (exData r) m) rs []"

definition initialPlanState :: "plan_input \<Rightarrow> plan_state" where
  "initialPlanState input =
     \<lparr>storedById = mfrom (map (\<lambda>r. (exId r, exData r)) (piExistingTransactions input)),
      rowIdsByCanonical = initialRows (piExistingTransactions input),
      seenOccurrenceIds = [],
      occurrenceClaims = mfrom (piOccurrenceClaims input),
      transactionsStored = 0, transactionsAdded = 0, transactionsModified = 0, transactionsDropped = 0,
      newestBookingDate = None, observedTransactionIds = []\<rparr>"

text \<open>\<open>validTransactionsOf\<close> is \<^verbatim>\<open>vt.valid\<close>, and \<open>runTransactions\<close> the loop over it.\<close>

definition validTransactionsOf :: "digest \<Rightarrow> (string \<Rightarrow> bool) \<Rightarrow> plan_input \<Rightarrow> jobj list" where
  "validTransactionsOf sha uuidOk input =
     fst (validateRecords (CrawledTransactionSchema uuidOk)
            (stageTransactions sha (piOccurrenceScopeId input) (piTransactions input)))"

definition runTransactions ::
  "digest \<Rightarrow> (string \<Rightarrow> bool) \<Rightarrow> string \<Rightarrow> plan_input \<Rightarrow> string + plan_state" where
  "runTransactions sha uuidOk floorDate input =
     (let valid = validTransactionsOf sha uuidOk input;
          ctx = planContext sha input valid (initialRows (piExistingTransactions input)) floorDate
      in foldM (planStep sha ctx) (enumerate 0 valid) (initialPlanState input))"

definition planCrawlResults ::
  "digest \<Rightarrow> (string \<Rightarrow> bool) \<Rightarrow> millis \<Rightarrow> plan_input \<Rightarrow> string + promotion_plan" where
  "planCrawlResults sha uuidOk now input =
     (let va = validateRecords CrawledAccountSchema (piAccounts input);
          vt = validateRecords (CrawledTransactionSchema uuidOk)
                 (stageTransactions sha (piOccurrenceScopeId input) (piTransactions input));
          vp = validateRecords CrawledPositionSchema (piPositions input);
          conn = piConnectionId input;
          accountsById = planUpsert (accountRowId sha conn) mergeAccountData
            (existingById (piExistingAccounts input)) (fst va) (plannedExisting (piExistingAccounts input))
      in case deriveTransactionCutoffDate None now of
           None \<Rightarrow> Inl ''Invalid time value''
         | Some floorDate \<Rightarrow>
      (case runTransactions sha uuidOk floorDate input of
           Inl e \<Rightarrow> Inl e
         | Inr s \<Rightarrow>
           let originals = existingById (piExistingTransactions input);
               known = map (\<lambda>r. mget (plData (snd r)) ''providerAccountId'') accountsById;
               validPositions = filter (\<lambda>p. mget p ''providerAccountId'' \<in> set known) (fst vp);
               unknown = length (fst vp) - length validPositions;
               positionsById = planUpsert (positionRowId sha conn) mergePositionData
                 (existingById (piExistingPositions input)) validPositions
                 (plannedExisting (piExistingPositions input))
           in Inr \<lparr>ppAccounts = map snd accountsById,
                   ppTransactions = map (\<lambda>(i, d). \<lparr>plId = i, plData = d, plPrevious = mget originals i,
                       plObserved = i \<in> set (observedTransactionIds s)\<rparr>) (storedById s),
                   ppPositions = map snd positionsById,
                   ppOccurrenceClaims = occurrenceClaims s,
                   ppResult = \<lparr>rAccountsStored = length (fst va),
                     rTransactionsStored = transactionsStored s,
                     rTransactionsAdded = transactionsAdded s,
                     rTransactionsModified = transactionsModified s,
                     rTransactionsDropped = transactionsDropped s,
                     rPositionsStored = length validPositions,
                     rQuarantinedAccounts = 0, rStaleDeletedPositions = 0,
                     rRejectedAccounts = snd va, rRejectedTransactions = snd vt,
                     rRejectedPositions = snd vp + unknown,
                     rNewestBookingDate = newestBookingDate s\<rparr>\<rparr>))"

section \<open>The identity decision\<close>

text \<open>The row id of an observation that is kept as an independent occurrence.\<close>

definition occurrenceTxId :: "digest \<Rightarrow> string \<Rightarrow> string \<Rightarrow> tx_identity_input \<Rightarrow> string" where
  "occurrenceTxId sha conn scope t =
     deterministicTransactionId sha
       (deterministicAccountId sha conn (or_else (providerAccountId t) UNATTRIBUTED_ACCOUNT_KEY))
       (occurrenceRef scope (or_else (extractionOccurrenceId t) []))"

text \<open>The row id of an observation that is trusted under its bank reference.\<close>

definition bankTxId :: "digest \<Rightarrow> string \<Rightarrow> tx_identity_input \<Rightarrow> string" where
  "bankTxId sha conn t =
     deterministicTransactionId sha
       (deterministicAccountId sha conn (or_else (providerAccountId t) UNATTRIBUTED_ACCOUNT_KEY))
       (or_else (providerTransactionId t) [])"

lemma asOccurrence_simps [simp]:
  "providerTransactionId (asOccurrence t) = None"
  "existingCanonicalId (asOccurrence t) = None"
  "providerAccountId (asOccurrence t) = providerAccountId t"
  "extractionOccurrenceId (asOccurrence t) = extractionOccurrenceId t"
  by (simp_all add: asOccurrence_def)

lemma occurrenceTxId_asOccurrence [simp]:
  "occurrenceTxId sha conn scope (asOccurrence t) = occurrenceTxId sha conn scope t"
  by (simp add: occurrenceTxId_def)

lemma isBankProvidedId_None [simp]: "\<not> isBankProvidedId None"
  by (simp add: isBankProvidedId_def)

lemma assign_asOccurrence:
  "assignTransactionId sha conn (asOccurrence t) approved
     (Some \<lparr>authoritativeExistingTxId = a, occurrenceScopeId = Some scope\<rparr>) =
   (if truthy (extractionOccurrenceId t) \<and> scope \<noteq> [] then
      Identified \<lparr>txId = occurrenceTxId sha conn scope t,
        providerTransactionIdField = OCCURRENCE_ID_PREFIX @ occurrenceTxId sha conn scope t,
        isExistingUpdate = False\<rparr>
    else Dropped ''transaction has neither a trustworthy bank id, an authoritative update target, nor a promotion-scoped extraction occurrence id'')"
  by (auto simp: assignTransactionId_def Let_def occurrenceTxId_def or_else_def split: option.splits)

text \<open>
  The three ways an observation may be identified: the approved update target, a fresh bank
  reference that no stored row and no other row of the batch carries, its own occurrence.
\<close>

definition exclusiveBankRef :: "plan_context \<Rightarrow> string list jsmap \<Rightarrow> tx_identity_input \<Rightarrow> bool" where
  "exclusiveBankRef ctx rows t =
     (isBankProvidedId (providerTransactionId t)
      \<and> countOf (cIncomingProviderIdCounts ctx) (providerKey t) \<le> 1
      \<and> bucket (cInitialRowIdsByCanonical ctx) (providerKey t) = [] \<and> bucket rows (providerKey t) = [])"

lemma planIdentity_update:
  assumes "truthy (existingCanonicalId t)" "planIdentity sha ctx rows stored t = Identified idy"
  shows "authoritativeTarget ctx t = Some (txId idy) \<and> txId idy \<noteq> [] \<and> isExistingUpdate idy"
proof -
  let ?u = "planIdentityInput ctx rows t"
  have u: "existingCanonicalId ?u = existingCanonicalId t" "providerAccountId ?u = providerAccountId t"
    using assms(1) by (simp_all add: planIdentityInput_def Let_def)
  show ?thesis using assms u
    by (auto simp: planIdentity_def assignTransactionId_def Let_def split: if_splits elim!: truthyE)
qed

lemma planIdentityInput_plain:
  assumes "\<not> truthy (existingCanonicalId t)"
  shows "planIdentityInput ctx rows t =
    (if isBankProvidedId (providerTransactionId t) \<and> \<not> exclusiveBankRef ctx rows t then asOccurrence t else t)"
  using assms by (auto simp: planIdentityInput_def exclusiveBankRef_def Let_def)

lemma assign_plain:
  assumes "\<not> truthy (existingCanonicalId t)"
  shows "assignTransactionId sha conn t approved
     (Some \<lparr>authoritativeExistingTxId = a, occurrenceScopeId = Some scope\<rparr>) =
   (if isBankProvidedId (providerTransactionId t) then
      Identified \<lparr>txId = bankTxId sha conn t, providerTransactionIdField = or_else (providerTransactionId t) [],
        isExistingUpdate = False\<rparr>
    else if truthy (extractionOccurrenceId t) \<and> scope \<noteq> [] then
      Identified \<lparr>txId = occurrenceTxId sha conn scope t,
        providerTransactionIdField = OCCURRENCE_ID_PREFIX @ occurrenceTxId sha conn scope t,
        isExistingUpdate = False\<rparr>
    else Dropped ''transaction has neither a trustworthy bank id, an authoritative update target, nor a promotion-scoped extraction occurrence id'')"
  using assms
  by (auto simp: assignTransactionId_def Let_def occurrenceTxId_def bankTxId_def or_else_def split: option.splits)

lemma planIdentity_plain:
  assumes "\<not> truthy (existingCanonicalId t)"
  shows "planIdentity sha ctx rows stored t =
    (if exclusiveBankRef ctx rows t \<and> \<not> mhas stored (bankTxId sha (cConnectionId ctx) t) then
       Identified \<lparr>txId = bankTxId sha (cConnectionId ctx) t,
         providerTransactionIdField = or_else (providerTransactionId t) [], isExistingUpdate = False\<rparr>
     else assignTransactionId sha (cConnectionId ctx) (asOccurrence t) None
       (Some \<lparr>authoritativeExistingTxId = None, occurrenceScopeId = Some (cOccurrenceScopeId ctx)\<rparr>))"
proof -
  have ex: "exclusiveBankRef ctx rows t \<Longrightarrow> isBankProvidedId (providerTransactionId t)"
    by (simp add: exclusiveBankRef_def)
  show ?thesis using assms ex
    by (auto simp: planIdentity_def planIdentityInput_plain assign_plain assign_asOccurrence Let_def)
qed

definition mayReplace :: "digest \<Rightarrow> plan_context \<Rightarrow> nat \<times> jobj \<Rightarrow> string \<Rightarrow> bool" where
  "mayReplace sha ctx x i =
     (authoritativeTarget ctx (txView (snd x)) = Some i
      \<or> i = occurrenceTxId sha (cConnectionId ctx) (cOccurrenceScopeId ctx) (txView (snd x)))"

lemma planIdentity_target:
  assumes "planIdentity sha ctx rows stored t = Identified idy"
  shows "mget stored (txId idy) = None \<or> authoritativeTarget ctx t = Some (txId idy)
    \<or> txId idy = occurrenceTxId sha (cConnectionId ctx) (cOccurrenceScopeId ctx) t"
proof (cases "truthy (existingCanonicalId t)")
  case True
  with assms planIdentity_update show ?thesis by blast
next
  case False
  with assms show ?thesis
    by (auto simp: planIdentity_plain assign_asOccurrence mhas_def split: if_splits)
qed

lemma hash_nonempty: "(\<And>p. sha p \<noteq> []) \<Longrightarrow> take 20 (hashValue sha p) \<noteq> []"
  by (simp add: hashValue_def to_hex_def hex_byte_def concat_eq_Nil_conv ex_in_conv)

lemma planIdentity_nonempty:
  assumes "planIdentity sha ctx rows stored t = Identified idy" "\<And>p. sha p \<noteq> []"
  shows "txId idy \<noteq> []"
proof (cases "truthy (existingCanonicalId t)")
  case True
  with assms planIdentity_update show ?thesis by blast
next
  case False
  with assms(1) show ?thesis using hash_nonempty [of sha, OF assms(2)]
    by (auto simp: planIdentity_plain assign_asOccurrence bankTxId_def occurrenceTxId_def
        deterministicTransactionId_def split: if_splits)
qed

section \<open>One step\<close>

lemma replaceStoredIndex_simps [simp]:
  "storedById (replaceStoredIndex i d s) = mput i d (storedById s)"
  "seenOccurrenceIds (replaceStoredIndex i d s) = seenOccurrenceIds s"
  "occurrenceClaims (replaceStoredIndex i d s) = occurrenceClaims s"
  "transactionsStored (replaceStoredIndex i d s) = transactionsStored s"
  "transactionsAdded (replaceStoredIndex i d s) = transactionsAdded s"
  "transactionsModified (replaceStoredIndex i d s) = transactionsModified s"
  "transactionsDropped (replaceStoredIndex i d s) = transactionsDropped s"
  "newestBookingDate (replaceStoredIndex i d s) = newestBookingDate s"
  by (simp_all add: replaceStoredIndex_def Let_def)

lemma replaceStoredIndex_observed [simp]:
  "observedTransactionIds (replaceStoredIndex i d s) = observedTransactionIds s"
  by (simp add: replaceStoredIndex_def Let_def)

text \<open>The three outcomes of a step that does not throw.\<close>

inductive plan_effect :: "digest \<Rightarrow> plan_context \<Rightarrow> nat \<times> jobj \<Rightarrow> plan_state \<Rightarrow> plan_state \<Rightarrow> bool"
  for sha ctx x s where
  replayed: "mget (occurrenceClaims s) (occurrenceOf (snd x)) = Some i \<Longrightarrow> i \<noteq> [] \<Longrightarrow> mhas (storedById s) i \<Longrightarrow>
    plan_effect sha ctx x s (s\<lparr>seenOccurrenceIds := sadd (occurrenceOf (snd x)) (seenOccurrenceIds s),
      transactionsStored := Suc (transactionsStored s),
      newestBookingDate := bumpNewest (bookingDate (txView (snd x))) (newestBookingDate s)\<rparr>)"
| skipped: "plan_effect sha ctx x s (s\<lparr>seenOccurrenceIds := sadd (occurrenceOf (snd x)) (seenOccurrenceIds s),
      transactionsDropped := Suc (transactionsDropped s)\<rparr>)"
| written: "planIdentity sha ctx (rowIdsByCanonical s) (storedById s) (txView (snd x)) = Identified idy \<Longrightarrow>
    u = replaceStoredIndex (txId idy)
      (mergePresentFields (mget (storedById s) (txId idy)) (observedData (snd x) (providerTransactionIdField idy))) s \<Longrightarrow>
    plan_effect sha ctx x s (u\<lparr>seenOccurrenceIds := sadd (occurrenceOf (snd x)) (seenOccurrenceIds s),
      observedTransactionIds := sadd (txId idy) (observedTransactionIds s),
      occurrenceClaims := mput (occurrenceOf (snd x)) (txId idy) (occurrenceClaims s),
      transactionsStored := Suc (transactionsStored s),
      transactionsAdded := transactionsAdded s + (if mget (storedById s) (txId idy) = None then 1 else 0),
      transactionsModified := transactionsModified s + (if mget (storedById s) (txId idy) = None then 0 else 1),
      newestBookingDate := bumpNewest (bookingDate (txView (snd x))) (newestBookingDate s)\<rparr>)"

lemma planStep_effect:
  assumes "planStep sha ctx x s = Inr t"
  shows "occurrenceOf (snd x) \<notin> set (seenOccurrenceIds s) \<and> plan_effect sha ctx x s t"
proof -
  obtain n d where x: "x = (n, d)" by (cases x)
  have fresh: "occurrenceOf d \<notin> set (seenOccurrenceIds s)"
    using assms by (auto simp: planStep_def x split: if_splits)
  show ?thesis
  proof (cases "truthy (mget (occurrenceClaims s) (occurrenceOf d))")
    case True
    then obtain i where i: "mget (occurrenceClaims s) (occurrenceOf d) = Some i" "i \<noteq> []" by (auto elim: truthyE)
    with assms fresh show ?thesis
      by (auto simp: planStep_def x Let_def intro!: replayed [of s "(n, d)" i, simplified] split: if_splits)
  next
    case False
    show ?thesis
    proof (cases "planIdentity sha ctx (rowIdsByCanonical s) (storedById s) (txView d)")
      case (Dropped r)
      with assms fresh False show ?thesis
        by (auto simp: planStep_def x Let_def intro!: skipped [of sha ctx "(n, d)" s, simplified] split: if_splits)
    next
      case (Identified idy)
      let ?w = "replaceStoredIndex (txId idy)
        (mergePresentFields (mget (storedById s) (txId idy)) (observedData d (providerTransactionIdField idy))) s"
      have "t = s\<lparr>seenOccurrenceIds := sadd (occurrenceOf d) (seenOccurrenceIds s),
            transactionsDropped := Suc (transactionsDropped s)\<rparr>
          \<or> t = ?w\<lparr>seenOccurrenceIds := sadd (occurrenceOf d) (seenOccurrenceIds s),
            observedTransactionIds := sadd (txId idy) (observedTransactionIds s),
            occurrenceClaims := mput (occurrenceOf d) (txId idy) (occurrenceClaims s),
            transactionsStored := Suc (transactionsStored s),
            transactionsAdded := transactionsAdded s + (if mget (storedById s) (txId idy) = None then 1 else 0),
            transactionsModified := transactionsModified s + (if mget (storedById s) (txId idy) = None then 0 else 1),
            newestBookingDate := bumpNewest (bookingDate (txView d)) (newestBookingDate s)\<rparr>"
        using assms fresh False Identified
        by (cases s) (auto simp: planStep_def x Let_def replaceStoredIndex_def split: if_splits)
      with fresh written [of sha ctx s x idy ?w] skipped [of sha ctx x s] Identified show ?thesis
        by (simp only: x snd_conv) blast
    qed
  qed
qed

section \<open>The loop contract\<close>

lemma planStep_replay:
  assumes "mget (occurrenceClaims s) (occurrenceOf (snd x)) = Some i" "i \<noteq> []" "mget (storedById s) i \<noteq> None"
    "occurrenceOf (snd x) \<notin> set (seenOccurrenceIds s)"
  shows "\<exists>t. planStep sha ctx x s = Inr t \<and> mget (storedById t) = mget (storedById s)
      \<and> mget (occurrenceClaims t) = mget (occurrenceClaims s)
      \<and> transactionsStored t = Suc (transactionsStored s) \<and> transactionsAdded t = transactionsAdded s
      \<and> transactionsModified t = transactionsModified s \<and> transactionsDropped t = transactionsDropped s"
  using assms by (cases x) (simp add: planStep_def Let_def mhas_def)

interpretation plan: promotion_loop "planStep sha ctx" "\<lambda>s. mget (storedById s)"
  "\<lambda>s. mget (occurrenceClaims s)" "\<lambda>s. set (seenOccurrenceIds s)"
  transactionsStored transactionsAdded transactionsModified transactionsDropped
  "\<lambda>x. occurrenceOf (snd x)" "mayReplace sha ctx" "\<forall>p. sha p \<noteq> []"
  for sha ctx
proof (unfold_locales, goal_cases)
  case (1 x s t)
  then show ?case by (auto dest!: planStep_effect elim!: plan_effect.cases)
next
  case (2 x s t)
  then have "plan_effect sha ctx x s t" by (simp add: planStep_effect)
  then show ?case
  proof cases
    case (replayed i)
    then show ?thesis by (auto simp: mhas_def)
  next
    case skipped
    then show ?thesis by auto
  next
    case (written idy u)
    from written(2) have "mget (storedById s) (txId idy) = None \<or> mayReplace sha ctx x (txId idy)"
      by (auto simp: mayReplace_def dest: planIdentity_target)
    moreover from written(2) have "(\<forall>p. sha p \<noteq> []) \<longrightarrow> txId idy \<noteq> []"
      using planIdentity_nonempty by blast
    ultimately show ?thesis using written
      by (simp add: fun_eq_iff) blast
  qed
next
  case (3 s x i)
  then show ?case by (rule planStep_replay)
qed

section \<open>The canonical index stays coherent\<close>

definition indexOk :: "jobj jsmap \<Rightarrow> string list jsmap \<Rightarrow> bool" where
  "indexOk stored rows =
     (\<forall>key i. i \<in> set (bucket rows key) \<longleftrightarrow> (\<exists>d. mget stored i = Some d \<and> rowKey d = key))"

lemma bucket_removeCanonicalOwner:
  "set (bucket (removeCanonicalOwner i d rows) key) =
     (if key = rowKey d then set (bucket rows key) - {i} else set (bucket rows key))"
proof (cases "mget rows (rowKey d)")
  case None
  then show ?thesis by (auto simp: removeCanonicalOwner_def bucket_def)
next
  case (Some owners)
  have "sdel i owners = [] \<longleftrightarrow> set owners - {i} = {}" by (metis set_sdel set_empty)
  with Some show ?thesis by (auto simp: removeCanonicalOwner_def bucket_def split: if_splits)
qed

lemma indexOk_replace [inv_intros]:
  assumes "indexOk (storedById s) (rowIdsByCanonical s)"
  shows "indexOk (storedById (replaceStoredIndex i d s)) (rowIdsByCanonical (replaceStoredIndex i d s))"
proof -
  have ok: "j \<in> set (bucket (rowIdsByCanonical s) key) \<longleftrightarrow> (\<exists>d. mget (storedById s) j = Some d \<and> rowKey d = key)" for j key
    using assms by (simp add: indexOk_def)
  let ?rows = "case mget (storedById s) i of Some p \<Rightarrow> removeCanonicalOwner i p (rowIdsByCanonical s)
    | None \<Rightarrow> rowIdsByCanonical s"
  have "j \<in> set (bucket ?rows key) \<longleftrightarrow> j \<noteq> i \<and> (\<exists>d. mget (storedById s) j = Some d \<and> rowKey d = key)" for j key
    by (cases "mget (storedById s) i") (auto simp: bucket_removeCanonicalOwner ok)
  then show ?thesis
    by (auto simp: indexOk_def replaceStoredIndex_def Let_def addCanonicalOwner_def)
qed

lemma indexOk_step [inv_intros]:
  assumes "planStep sha ctx x s = Inr t" "indexOk (storedById s) (rowIdsByCanonical s)"
  shows "indexOk (storedById t) (rowIdsByCanonical t)"
proof -
  from assms(1) have "plan_effect sha ctx x s t" by (simp add: planStep_effect)
  then show ?thesis
    by cases (simp_all add: assms(2) indexOk_replace [OF assms(2), unfolded replaceStoredIndex_simps(1)])
qed

lemma indexOk_initial:
  assumes "distinct (map exId rs)"
  shows "indexOk (mfrom (map (\<lambda>r. (exId r, exData r)) rs)) (initialRows rs)"
proof -
  have stored: "mget (mfrom (map (\<lambda>r. (exId r, exData r)) rs)) i = Some d \<longleftrightarrow>
      (\<exists>r \<in> set rs. exId r = i \<and> exData r = d)" for i d
  proof -
    have "distinct (map fst (map (\<lambda>r. (exId r, exData r)) rs))" using assms by (simp add: comp_def)
    then show ?thesis by (auto simp: mget_mfrom comp_def)
  qed
  have "i \<in> set (bucket (fold (\<lambda>r m. addCanonicalOwner (exId r) (exData r) m) rs m) key) \<longleftrightarrow>
      i \<in> set (bucket m key) \<or> (\<exists>r \<in> set rs. exId r = i \<and> rowKey (exData r) = key)" for i key m
    by (induction rs arbitrary: m) (auto simp: addCanonicalOwner_def)
  then show ?thesis by (auto simp: indexOk_def initialRows_def stored)
qed

section \<open>From the loop to the plan\<close>

definition plannedRow :: "promotion_plan \<Rightarrow> string \<Rightarrow> jobj option" where
  "plannedRow plan i = map_of (map (\<lambda>p. (plId p, plData p)) (ppTransactions plan)) i"

definition existingRow :: "plan_input \<Rightarrow> string \<Rightarrow> jobj option" where
  "existingRow input i = map_of (map (\<lambda>r. (exId r, exData r)) (piExistingTransactions input)) i"

abbreviation planContextOf :: "digest \<Rightarrow> (string \<Rightarrow> bool) \<Rightarrow> string \<Rightarrow> plan_input \<Rightarrow> plan_context" where
  "planContextOf sha uuidOk floorDate input \<equiv>
     planContext sha input (validTransactionsOf sha uuidOk input)
       (initialRows (piExistingTransactions input)) floorDate"

lemma map_of_map_val: "map_of (map (\<lambda>(k, v). (k, f k v)) m) k = map_option (f k) (map_of m k)"
  by (induction m) auto

lemma planCrawlResults_Inr:
  assumes "planCrawlResults sha uuidOk now input = Inr plan"
  obtains floorDate s where
    "deriveTransactionCutoffDate None now = Some floorDate"
    "foldM (planStep sha (planContextOf sha uuidOk floorDate input))
       (enumerate 0 (validTransactionsOf sha uuidOk input)) (initialPlanState input) = Inr s"
    "plannedRow plan = mget (storedById s)"
    "map plId (ppTransactions plan) = mkeys (storedById s)"
    "ppOccurrenceClaims plan = occurrenceClaims s"
    "rTransactionsStored (ppResult plan) = transactionsStored s"
    "rTransactionsAdded (ppResult plan) = transactionsAdded s"
    "rTransactionsModified (ppResult plan) = transactionsModified s"
    "rTransactionsDropped (ppResult plan) = transactionsDropped s"
    "map (\<lambda>p. (plId p, plData p)) (ppTransactions plan) = storedById s"
    "rRejectedTransactions (ppResult plan) = snd (validateRecords (CrawledTransactionSchema uuidOk)
       (stageTransactions sha (piOccurrenceScopeId input) (piTransactions input)))"
proof -
  from assms obtain floorDate where f: "deriveTransactionCutoffDate None now = Some floorDate"
    by (auto simp: planCrawlResults_def Let_def split: option.splits)
  with assms obtain s where s: "runTransactions sha uuidOk floorDate input = Inr s"
    by (auto simp: planCrawlResults_def Let_def split: sum.splits)
  let ?g = "\<lambda>(i, d). \<lparr>plId = i, plData = d, plPrevious = mget (existingById (piExistingTransactions input)) i,
     plObserved = i \<in> set (observedTransactionIds s)\<rparr>"
  from assms f s have tx: "ppTransactions plan = map ?g (storedById s)"
    by (auto simp: planCrawlResults_def Let_def)
  have pairs: "map (\<lambda>p. (plId p, plData p)) (ppTransactions plan) = storedById s"
    by (simp add: tx comp_def case_prod_beta')
  then have row: "plannedRow plan = mget (storedById s)"
    by (simp add: fun_eq_iff plannedRow_def mget_def)
  have ids: "map plId (ppTransactions plan) = mkeys (storedById s)"
    by (simp add: tx mkeys_def comp_def case_prod_beta')
  show thesis
    by (rule that [OF f _ row ids])
      (use assms f s pairs in \<open>auto simp: planCrawlResults_def runTransactions_def Let_def\<close>)
qed

lemma distinct_storedById_step [inv_intros]:
  assumes "planStep sha ctx x s = Inr t" "distinct (mkeys (storedById s))"
  shows "distinct (mkeys (storedById t))"
proof -
  from assms(1) have "plan_effect sha ctx x s t" by (simp add: planStep_effect)
  then show ?thesis by cases (simp_all add: assms(2))
qed

lemma distinct_storedById:
  assumes "foldM (planStep sha ctx) xs (initialPlanState input) = Inr s"
  shows "distinct (mkeys (storedById s))"
  by (rule foldM_invariant [where P = "\<lambda>s. distinct (mkeys (storedById s))", OF assms])
    (auto simp: initialPlanState_def intro: distinct_storedById_step)

lemma distinct_occurrenceClaims:
  assumes "foldM (planStep sha ctx) xs (initialPlanState input) = Inr s"
  shows "distinct (mkeys (occurrenceClaims s))"
proof (rule foldM_invariant [where P = "\<lambda>s. distinct (mkeys (occurrenceClaims s))", OF assms])
  fix x s t assume "distinct (mkeys (occurrenceClaims s))" "planStep sha ctx x s = Inr t"
  from this(2) have "plan_effect sha ctx x s t" by (simp add: planStep_effect)
  then show "distinct (mkeys (occurrenceClaims t))"
    by cases (simp_all add: \<open>distinct (mkeys (occurrenceClaims s))\<close>)
qed (simp add: initialPlanState_def)

lemma mget_mfrom_self: "distinct (mkeys m) \<Longrightarrow> mget (mfrom m) = mget m"
  by (simp add: fun_eq_iff mkeys_def mget_mfrom) (simp add: mget_def)

lemma planCrawlResults_run:
  assumes "deriveTransactionCutoffDate None now = Some floorDate"
    and "foldM (planStep sha (planContextOf sha uuidOk floorDate input))
       (enumerate 0 (validTransactionsOf sha uuidOk input)) (initialPlanState input) = Inr s"
  shows "\<exists>plan. planCrawlResults sha uuidOk now input = Inr plan
    \<and> plannedRow plan = mget (storedById s) \<and> ppOccurrenceClaims plan = occurrenceClaims s
    \<and> rTransactionsStored (ppResult plan) = transactionsStored s
    \<and> rTransactionsAdded (ppResult plan) = transactionsAdded s
    \<and> rTransactionsModified (ppResult plan) = transactionsModified s
    \<and> rTransactionsDropped (ppResult plan) = transactionsDropped s"
proof -
  have "\<exists>plan. planCrawlResults sha uuidOk now input = Inr plan"
    using assms by (simp add: planCrawlResults_def runTransactions_def Let_def)
  then obtain plan where plan: "planCrawlResults sha uuidOk now input = Inr plan" ..
  then show ?thesis using assms by (auto elim!: planCrawlResults_Inr)
qed

lemma initial_row:
  "distinct (map exId (piExistingTransactions input)) \<Longrightarrow>
     mget (storedById (initialPlanState input)) = existingRow input"
  by (simp add: initialPlanState_def existingRow_def fun_eq_iff mget_mfrom comp_def)

lemma initial_counters [simp]:
  "transactionsStored (initialPlanState input) = 0"
  "transactionsAdded (initialPlanState input) = 0"
  "transactionsModified (initialPlanState input) = 0"
  "transactionsDropped (initialPlanState input) = 0"
  "seenOccurrenceIds (initialPlanState input) = []"
  by (simp_all add: initialPlanState_def)

lemma authoritativeTarget_candidate:
  assumes "authoritativeTarget (planContext sha input valid rows f) t = Some i"
  shows "\<exists>u \<in> set (map txView valid). truthy (existingCanonicalId u)
    \<and> mget (piAuthoritativeUpdateTargets input) (claimKey u) = Some [i]
    \<and> (\<exists>account. mget (mfrom (map (\<lambda>r. (exId r, str_field ''providerAccountId'' (exData r)))
            (piExistingTransactions input))) i = Some account
        \<and> canonicalUpdateKey account (or_else (existingCanonicalId u) []) = claimKey u)"
proof -
  let ?e = "mfrom (map (\<lambda>r. (exId r, str_field ''providerAccountId'' (exData r))) (piExistingTransactions input))"
  let ?c = "map txView valid"
  from assms obtain k where "mget (resolvedTargets (resolveAuthoritativeTransactionUpdateTargets ?c
      (piAuthoritativeUpdateTargets input) ?e)) k = Some i"
    by (auto simp: authoritativeTarget_def planContext_def Let_def split: if_splits)
  then have "updateCandidate ?c (piAuthoritativeUpdateTargets input) ?e k i"
    by (simp add: resolution_resolved)
  then obtain j account where "declaresUpdate ?c j k" "mget (piAuthoritativeUpdateTargets input) k = Some [i]"
    "mget ?e i = Some account" "canonicalUpdateKey account (or_else (existingCanonicalId (?c ! j)) []) = k"
    by (auto simp only: updateCandidate_def)
  then show ?thesis by (intro bexI [of _ "?c ! j"]) (auto simp: declaresUpdate_def)
qed

lemma existing_account:
  assumes "distinct (map exId (piExistingTransactions input))" "existingRow input i = Some d"
  shows "mget (mfrom (map (\<lambda>r. (exId r, str_field ''providerAccountId'' (exData r))) (piExistingTransactions input))) i
     = Some (str_field ''providerAccountId'' d)"
proof -
  have "(i, d) \<in> set (map (\<lambda>r. (exId r, exData r)) (piExistingTransactions input))"
    using assms(2) unfolding existingRow_def by (rule map_of_SomeD)
  then obtain r where "r \<in> set (piExistingTransactions input)" "exId r = i" "exData r = d" by auto
  with assms(1) show ?thesis by (auto simp: mget_mfrom comp_def)
qed

section \<open>Observations are never merged\<close>

text \<open>Every preimage the ids of one batch are hashed from.\<close>

definition batchPreimages :: "digest \<Rightarrow> string \<Rightarrow> string \<Rightarrow> tx_identity_input list \<Rightarrow> string list" where
  "batchPreimages sha conn scope ts =
     map (\<lambda>t. txPreimage sha conn (providerAccountId t) (occurrenceRef scope (or_else (extractionOccurrenceId t) []))) ts
     @ map (\<lambda>t. txPreimage sha conn (providerAccountId t) (or_else (providerTransactionId t) [])) ts"

lemma txPreimage_ref: "txPreimage sha conn a r = txPreimage sha conn' a' r' \<Longrightarrow> r = r'"
  by (simp add: txPreimage_def idPreimage_inject)

lemma occurrenceTxId_truncHash:
  "occurrenceTxId sha conn scope t = truncHash sha
     (txPreimage sha conn (providerAccountId t) (occurrenceRef scope (or_else (extractionOccurrenceId t) [])))"
  by (simp add: occurrenceTxId_def deterministicTransactionId_truncHash)

lemma bankTxId_truncHash:
  "bankTxId sha conn t = truncHash sha (txPreimage sha conn (providerAccountId t) (or_else (providerTransactionId t) []))"
  by (simp add: bankTxId_def deterministicTransactionId_truncHash)

lemma batch_ids_separate:
  assumes "inj_on (truncHash sha) (set (batchPreimages sha conn scope ts))" "t \<in> set ts" "u \<in> set ts"
  shows "occurrenceTxId sha conn scope t = occurrenceTxId sha conn scope u \<Longrightarrow>
      or_else (extractionOccurrenceId t) [] = or_else (extractionOccurrenceId u) []"
    and "isBankProvidedId (providerTransactionId u) \<Longrightarrow> occurrenceTxId sha conn scope t \<noteq> bankTxId sha conn u"
proof -
  let ?o = "\<lambda>t. txPreimage sha conn (providerAccountId t) (occurrenceRef scope (or_else (extractionOccurrenceId t) []))"
  let ?b = "\<lambda>t. txPreimage sha conn (providerAccountId t) (or_else (providerTransactionId t) [])"
  have mem: "?o t \<in> set (batchPreimages sha conn scope ts)" "?o u \<in> set (batchPreimages sha conn scope ts)"
    "?b u \<in> set (batchPreimages sha conn scope ts)"
    using assms(2,3) by (auto simp: batchPreimages_def)
  show "or_else (extractionOccurrenceId t) [] = or_else (extractionOccurrenceId u) []"
    if "occurrenceTxId sha conn scope t = occurrenceTxId sha conn scope u"
    using inj_onD [OF assms(1) that [unfolded occurrenceTxId_truncHash] mem(1,2)]
    by (auto dest!: txPreimage_ref simp: occurrenceRef_inject)
  show "occurrenceTxId sha conn scope t \<noteq> bankTxId sha conn u" if bank: "isBankProvidedId (providerTransactionId u)"
  proof
    assume "occurrenceTxId sha conn scope t = bankTxId sha conn u"
    from inj_onD [OF assms(1) this [unfolded occurrenceTxId_truncHash bankTxId_truncHash] mem(1,3)]
    have "occurrenceRef scope (or_else (extractionOccurrenceId t) []) = or_else (providerTransactionId u) []"
      by (rule txPreimage_ref)
    moreover obtain r where "providerTransactionId u = Some r" "r \<noteq> []"
      using isBankProvidedId_truthy [OF bank] by (auto elim: truthyE)
    ultimately have "providerTransactionId u = Some (occurrenceRef scope (or_else (extractionOccurrenceId t) []))" by simp
    with bank show False by (simp add: isBankProvidedId_occurrenceRef)
  qed
qed

text \<open>The loop invariant: every row is an original or was created for a processed observation.\<close>

definition rowsExplained ::
  "digest \<Rightarrow> string \<Rightarrow> string \<Rightarrow> (string \<Rightarrow> bool) \<Rightarrow> (nat \<times> jobj) list \<Rightarrow> plan_state \<Rightarrow> bool" where
  "rowsExplained sha conn scope original ps s =
     (set (seenOccurrenceIds s) = (\<lambda>x. occurrenceOf (snd x)) ` set ps
      \<and> (\<forall>i. mget (storedById s) i \<noteq> None \<longrightarrow> original i
           \<or> (\<exists>x \<in> set ps. i = occurrenceTxId sha conn scope (txView (snd x))
                \<or> (isBankProvidedId (providerTransactionId (txView (snd x))) \<and> i = bankTxId sha conn (txView (snd x)))))
      \<and> transactionsModified s \<le> length (filter (\<lambda>x. truthy (existingCanonicalId (txView (snd x)))) ps))"

lemma rowsExplained_step:
  assumes step: "planStep sha ctx x s = Inr t"
    and inv: "rowsExplained sha (cConnectionId ctx) (cOccurrenceScopeId ctx) original ps s"
    and inj: "inj_on (truncHash sha) (set (batchPreimages sha (cConnectionId ctx) (cOccurrenceScopeId ctx) (map (txView \<circ> snd) xs)))"
    and xs: "insert x (set ps) \<subseteq> set xs"
    and fresh: "\<not> original (occurrenceTxId sha (cConnectionId ctx) (cOccurrenceScopeId ctx) (txView (snd x)))"
    and target: "\<And>i. authoritativeTarget ctx (txView (snd x)) = Some i \<Longrightarrow> original i"
  shows "rowsExplained sha (cConnectionId ctx) (cOccurrenceScopeId ctx) original (ps @ [x]) t"
proof -
  let ?occ = "\<lambda>x. occurrenceTxId sha (cConnectionId ctx) (cOccurrenceScopeId ctx) (txView (snd x))"
  let ?bank = "\<lambda>x. bankTxId sha (cConnectionId ctx) (txView (snd x))"
  have unseen: "occurrenceOf (snd x) \<notin> (\<lambda>x. occurrenceOf (snd x)) ` set ps" and eff: "plan_effect sha ctx x s t"
    using planStep_effect [OF step] inv by (simp_all add: rowsExplained_def)
  have occ_eq: "or_else (extractionOccurrenceId (txView d)) [] = occurrenceOf d" for d
    by (simp add: txView_def occurrenceOf_def)
  have new: "mget (storedById s) (?occ x) = None"
  proof (rule ccontr)
    assume "mget (storedById s) (?occ x) \<noteq> None"
    with inv fresh obtain y where y: "y \<in> set ps" "?occ x = ?occ y
        \<or> (isBankProvidedId (providerTransactionId (txView (snd y))) \<and> ?occ x = ?bank y)"
      unfolding rowsExplained_def by blast
    have mem: "txView (snd x) \<in> set (map (txView \<circ> snd) xs)" "txView (snd y) \<in> set (map (txView \<circ> snd) xs)"
      using xs y(1) by auto
    from y(2) batch_ids_separate [OF inj mem] have "occurrenceOf (snd x) = occurrenceOf (snd y)"
      by (auto simp: occ_eq)
    with unseen y(1) show False by auto
  qed
  from eff show ?thesis
  proof cases
    case (replayed i)
    with inv show ?thesis by (auto simp: rowsExplained_def)
  next
    case skipped
    with inv show ?thesis by (auto simp: rowsExplained_def)
  next
    case (written idy u)
    have "original (txId idy) \<and> truthy (existingCanonicalId (txView (snd x)))
      \<or> mget (storedById s) (txId idy) = None \<and> (txId idy = ?occ x
          \<or> (isBankProvidedId (providerTransactionId (txView (snd x))) \<and> txId idy = ?bank x))"
    proof (cases "truthy (existingCanonicalId (txView (snd x)))")
      case True
      with planIdentity_update [OF True written(2)] target show ?thesis by blast
    next
      case False
      with written(2) new show ?thesis
        by (auto simp: planIdentity_plain assign_asOccurrence mhas_def exclusiveBankRef_def split: if_splits)
    qed
    with inv written show ?thesis by (auto simp: rowsExplained_def)
  qed
qed

section \<open>Accounts and positions\<close>

lemma planUpsert_frame:
  "i \<notin> idOf ` set ds \<Longrightarrow> mget (planUpsert idOf merge ex ds m) i = mget m i"
  unfolding planUpsert_def by (induction ds arbitrary: m) (auto simp: Let_def)

lemma plannedExisting_row:
  "distinct (map exId rs) \<Longrightarrow> r \<in> set rs \<Longrightarrow> mget (plannedExisting rs) (exId r) =
     Some \<lparr>plId = exId r, plData = exData r, plPrevious = Some r, plObserved = False\<rparr>"
  by (auto simp: plannedExisting_def mget_mfrom comp_def)

lemma mget_value: "mget m i = Some v \<Longrightarrow> v \<in> set (map snd m)"
  by (force simp: mget_def dest: map_of_SomeD)

lemma planUpsert_retains:
  assumes "distinct (map exId rs)" "r \<in> set rs" "exId r \<notin> idOf ` set ds"
  shows "\<lparr>plId = exId r, plData = exData r, plPrevious = Some r, plObserved = False\<rparr>
    \<in> set (map snd (planUpsert idOf merge ex ds (plannedExisting rs)))"
  using assms by (intro mget_value [of _ "exId r"]) (simp add: planUpsert_frame plannedExisting_row)

section \<open>A worked batch\<close>

text \<open>
  Two indistinguishable purchases and one declared update of the stored row \<^verbatim>\<open>r1\<close>, with a toy
  digest. The concrete instances below run on it.
\<close>

definition demoSha :: digest where
  "demoSha p = 1 # map of_char (take 12 (rev p))"

definition demoPurchase :: "string \<Rightarrow> json" where
  "demoPurchase occ = JObj
     [(''providerAccountId'', JStr ''a''), (''bookingDate'', JStr ''2024-03-01''),
      (''amount'', JNum (Fin 5)), (''currency'', JStr ''EUR''), (''description'', JStr ''coffee''),
      (''isPending'', JBool False), (''extractionOccurrenceId'', JStr occ)]"

definition demoUpdate :: json where
  "demoUpdate = JObj
     [(''providerAccountId'', JStr ''a''), (''bookingDate'', JStr ''2024-02-28''),
      (''amount'', JNum (Fin 7)), (''currency'', JStr ''EUR''), (''description'', JStr ''rent''),
      (''isPending'', JBool False), (''existingCanonicalId'', JStr ''T1''),
      (''extractionOccurrenceId'', JStr ''o3'')]"

definition demoRow :: existing_record where
  "demoRow = \<lparr>exId = ''r1'',
     exData = [(''providerAccountId'', JStr ''a''), (''providerTransactionId'', JStr ''T1''),
       (''amount'', JNum (Fin 7)), (''isPending'', JBool True)],
     exMissingSinceCrawlCount = None, exLastSeenAt = None, exCreatedAt = None, exUpdatedAt = None\<rparr>"

definition demoHolding :: existing_record where
  "demoHolding = demoRow\<lparr>exId := ''p1'', exData := [(''providerAccountId'', JStr ''a'')]\<rparr>"

definition demoNow :: millis where
  "demoNow = 19800 * 86400000"

definition demoInput :: plan_input where
  "demoInput =
     \<lparr>piConnectionId = ''c'', piOccurrenceScopeId = ''s'', piAccounts = [],
      piTransactions = [demoUpdate], piPositions = [],
      piExistingAccounts = [demoHolding], piExistingTransactions = [demoRow], piExistingPositions = [demoHolding],
      piAuthoritativeUpdateTargets = [(canonicalUpdateKey (Some ''a'') ''T1'', [''r1''])],
      piOccurrenceClaims = []\<rparr>"

definition demoTwins :: plan_input where
  "demoTwins = demoInput\<lparr>piTransactions := [demoPurchase ''o1'', demoPurchase ''o2'']\<rparr>"

definition demoRun :: "plan_input \<Rightarrow> (nat \<times> nat \<times> bool \<times> nat) option" where
  "demoRun input =
     (case planCrawlResults demoSha (\<lambda>_. True) demoNow input of
        Inl _ \<Rightarrow> None
      | Inr p \<Rightarrow> Some (rTransactionsDropped (ppResult p), rTransactionsModified (ppResult p),
                      plannedRow p ''r1'' = existingRow input ''r1'', length (ppTransactions p)))"

lemma demoSha_nonempty: "demoSha p \<noteq> []"
  by (simp add: demoSha_def)

lemma demoInput_run: "demoRun demoInput = Some (0, 1, False, 1)"
  by code_simp

lemma demoTwins_run: "demoRun demoTwins = Some (0, 0, True, 3)"
  by code_simp

lemma demoNow_ok: "deriveTransactionCutoffDate None demoNow \<noteq> None"
  by code_simp

lemma demoRun_Some:
  assumes "demoRun input = Some (d, m, r, n)"
  obtains p where "planCrawlResults demoSha (\<lambda>_. True) demoNow input = Inr p"
    "rTransactionsDropped (ppResult p) = d" "rTransactionsModified (ppResult p) = m"
    "(plannedRow p ''r1'' = existingRow input ''r1'') = r" "length (ppTransactions p) = n"
  using assms by (auto simp: demoRun_def split: sum.splits)

lemma demo_existing:
  "distinct (map exId (piExistingTransactions demoInput))" "distinct (map exId (piExistingTransactions demoTwins))"
  "distinct (map exId (piExistingAccounts demoInput))" "distinct (map exId (piExistingPositions demoInput))"
  "existingRow demoInput ''r1'' = Some (exData demoRow)" "piOccurrenceClaims demoTwins = []"
  by (simp_all add: demoInput_def demoTwins_def existingRow_def demoRow_def)

section \<open>Properties\<close>

text \<open>
  C1: A promotion changes a stored transaction only when it was authorised to. If the row an
  existing transaction is stored under carries different data in the plan, then some valid
  observation either declares an update that the authoritative snapshot resolves to exactly
  that row, inside the same account, or is the very occurrence the row was created for.
\<close>

theorem plan_changes_only_authorised:
  assumes "planCrawlResults sha uuidOk now input = Inr plan"
    and "distinct (map exId (piExistingTransactions input))"
    and "existingRow input i = Some d" and "plannedRow plan i \<noteq> Some d"
  shows "\<exists>t \<in> set (map txView (validTransactionsOf sha uuidOk input)).
      (truthy (existingCanonicalId t)
       \<and> mget (piAuthoritativeUpdateTargets input) (claimKey t) = Some [i]
       \<and> canonicalUpdateKey (str_field ''providerAccountId'' d) (or_else (existingCanonicalId t) []) = claimKey t)
      \<or> i = occurrenceTxId sha (piConnectionId input) (piOccurrenceScopeId input) t"
proof -
  let ?valid = "validTransactionsOf sha uuidOk input"
  obtain f s where run: "foldM (planStep sha (planContextOf sha uuidOk f input)) (enumerate 0 ?valid)
        (initialPlanState input) = Inr s" and row: "plannedRow plan = mget (storedById s)"
    using assms(1) by (rule planCrawlResults_Inr)
  have "mget (storedById (initialPlanState input)) i = Some d" using assms(2,3) by (simp add: initial_row)
  with plan.loop_frame [OF run, of i d] row assms(4)
  obtain x where x: "x \<in> set (enumerate 0 ?valid)" "mayReplace sha (planContextOf sha uuidOk f input) x i"
    by metis
  then have t: "txView (snd x) \<in> set (map txView ?valid)"
    by (auto dest: snd_enumerate)
  have c: "cConnectionId (planContextOf sha uuidOk f input) = piConnectionId input"
    "cOccurrenceScopeId (planContextOf sha uuidOk f input) = piOccurrenceScopeId input"
    by (simp_all add: planContext_def Let_def)
  from x(2) show ?thesis unfolding mayReplace_def c
  proof
    assume "authoritativeTarget (planContextOf sha uuidOk f input) (txView (snd x)) = Some i"
    from authoritativeTarget_candidate [OF this] existing_account [OF assms(2,3)] show ?thesis by auto
  next
    assume "i = occurrenceTxId sha (piConnectionId input) (piOccurrenceScopeId input) (txView (snd x))"
    with t show ?thesis by blast
  qed
qed

theorem plan_changes_only_authorised_witness:
  "\<exists>t \<in> set (map txView (validTransactionsOf demoSha (\<lambda>_. True) demoInput)).
      (truthy (existingCanonicalId t)
       \<and> mget (piAuthoritativeUpdateTargets demoInput) (claimKey t) = Some [''r1'']
       \<and> canonicalUpdateKey (str_field ''providerAccountId'' (exData demoRow)) (or_else (existingCanonicalId t) []) = claimKey t)
      \<or> ''r1'' = occurrenceTxId demoSha (piConnectionId demoInput) (piOccurrenceScopeId demoInput) t"
proof -
  obtain p where p: "planCrawlResults demoSha (\<lambda>_. True) demoNow demoInput = Inr p"
    "(plannedRow p ''r1'' = existingRow demoInput ''r1'') = False"
    by (rule demoRun_Some [OF demoInput_run])
  then have "plannedRow p ''r1'' \<noteq> Some (exData demoRow)" by (simp add: demo_existing)
  from plan_changes_only_authorised [OF p(1) demo_existing(1,5) this] show ?thesis .
qed

text \<open>
  No observation is lost without being counted. Every input transaction is stored, dropped
  or rejected exactly once, the plan holds the existing rows plus exactly the added ones (no row
  disappears), and no row is written that is not counted as stored.
\<close>

theorem plan_accounting:
  assumes "planCrawlResults sha uuidOk now input = Inr plan"
    and "distinct (map exId (piExistingTransactions input))"
  shows "rTransactionsStored (ppResult plan) + rTransactionsDropped (ppResult plan)
           + rRejectedTransactions (ppResult plan) = length (piTransactions input)
    \<and> length (ppTransactions plan) = length (piExistingTransactions input) + rTransactionsAdded (ppResult plan)
    \<and> distinct (map plId (ppTransactions plan))
    \<and> set (map exId (piExistingTransactions input)) \<subseteq> set (map plId (ppTransactions plan))
    \<and> rTransactionsAdded (ppResult plan) + rTransactionsModified (ppResult plan)
        \<le> rTransactionsStored (ppResult plan)"
proof -
  let ?valid = "validTransactionsOf sha uuidOk input" and ?s0 = "initialPlanState input"
  obtain f s where run: "foldM (planStep sha (planContextOf sha uuidOk f input)) (enumerate 0 ?valid) ?s0 = Inr s"
    and ids: "map plId (ppTransactions plan) = mkeys (storedById s)"
    and counts: "rTransactionsStored (ppResult plan) = transactionsStored s"
      "rTransactionsAdded (ppResult plan) = transactionsAdded s"
      "rTransactionsModified (ppResult plan) = transactionsModified s"
      "rTransactionsDropped (ppResult plan) = transactionsDropped s"
    and pairs: "map (\<lambda>p. (plId p, plData p)) (ppTransactions plan) = storedById s"
    and rej: "rRejectedTransactions (ppResult plan) = snd (validateRecords (CrawledTransactionSchema uuidOk)
       (stageTransactions sha (piOccurrenceScopeId input) (piTransactions input)))"
    using assms(1) by (rule planCrawlResults_Inr)
  have len: "length (ppTransactions plan) = length (storedById s)"
    using arg_cong [OF pairs, of length] by simp
  have "transactionsStored s + transactionsDropped s = length ?valid"
    using plan.loop_counts [OF run] by simp
  moreover have "length ?valid + rRejectedTransactions (ppResult plan) = length (piTransactions input)"
    unfolding rej validTransactionsOf_def validateRecords_counts by (simp add: stageTransactions_def)
  ultimately have total: "rTransactionsStored (ppResult plan) + rTransactionsDropped (ppResult plan)
      + rRejectedTransactions (ppResult plan) = length (piTransactions input)" using counts by simp
  have d: "distinct (mkeys (storedById s))" "distinct (mkeys (storedById ?s0))"
    using distinct_storedById [OF run] by (simp_all add: initialPlanState_def)
  have "length (storedById s) = length (storedById ?s0) + transactionsAdded s"
    using plan.loop_rows_card [OF run] d by (simp add: card_dom_mget)
  moreover have "length (storedById ?s0) = length (piExistingTransactions input)"
    using assms(2) by (simp add: initialPlanState_def length_mfrom comp_def)
  ultimately have grow: "length (ppTransactions plan) = length (piExistingTransactions input) + rTransactionsAdded (ppResult plan)"
    using len counts by simp
  have "set (mkeys (storedById ?s0)) = set (map exId (piExistingTransactions input))"
    using assms(2) by (simp add: dom_mget [symmetric] initial_row existingRow_def dom_map_of_conv_image_fst
        image_image existingRow_def [abs_def])
  moreover have "set (mkeys (storedById ?s0)) \<subseteq> set (mkeys (storedById s))"
    using plan.loop_keeps_rows [OF run] by (auto simp: set_mkeys)
  ultimately have keep: "set (map exId (piExistingTransactions input)) \<subseteq> set (map plId (ppTransactions plan))"
    by (simp add: ids)
  have "transactionsAdded s + transactionsModified s \<le> transactionsStored s"
    using plan.loop_written [OF run] by simp
  with total grow keep d ids counts show ?thesis by simp
qed

theorem plan_accounting_witness:
  "\<exists>p. planCrawlResults demoSha (\<lambda>_. True) demoNow demoTwins = Inr p
     \<and> rTransactionsStored (ppResult p) + rTransactionsDropped (ppResult p) + rRejectedTransactions (ppResult p) = 2
     \<and> length (ppTransactions p) = 1 + rTransactionsAdded (ppResult p)"
proof -
  obtain p where p: "planCrawlResults demoSha (\<lambda>_. True) demoNow demoTwins = Inr p"
    by (rule demoRun_Some [OF demoTwins_run])
  from plan_accounting [OF p demo_existing(2)] p show ?thesis by (simp add: demoTwins_def demoInput_def)
qed



text \<open>
  C8: Equal-looking transactions are never collapsed. Take a batch none of whose occurrences was
  promoted before, and a digest that does not collide on the batch's own preimages. Then at most
  the declared updates modify a row: every other stored observation has a row of its own, so the
  plan has at least as many rows as there were rows and stored observations, less the declared
  updates, whatever dates, amounts, descriptions and references the observations share.
\<close>

theorem plan_never_merges:
  assumes "planCrawlResults sha uuidOk now input = Inr plan"
    and "distinct (map exId (piExistingTransactions input))" and "piOccurrenceClaims input = []"
    and "inj_on (truncHash sha) (set (batchPreimages sha (piConnectionId input) (piOccurrenceScopeId input)
           (map txView (validTransactionsOf sha uuidOk input))))"
    and "\<forall>t \<in> set (map txView (validTransactionsOf sha uuidOk input)).
           existingRow input (occurrenceTxId sha (piConnectionId input) (piOccurrenceScopeId input) t) = None"
  shows "rTransactionsModified (ppResult plan)
      \<le> length (filter (\<lambda>d. truthy (existingCanonicalId (txView d))) (validTransactionsOf sha uuidOk input))
    \<and> rTransactionsStored (ppResult plan) = rTransactionsAdded (ppResult plan) + rTransactionsModified (ppResult plan)
    \<and> length (piExistingTransactions input) + rTransactionsStored (ppResult plan)
      \<le> length (ppTransactions plan)
        + length (filter (\<lambda>d. truthy (existingCanonicalId (txView d))) (validTransactionsOf sha uuidOk input))"
proof -
  let ?valid = "validTransactionsOf sha uuidOk input" and ?s0 = "initialPlanState input"
  obtain f s where run: "foldM (planStep sha (planContextOf sha uuidOk f input)) (enumerate 0 ?valid) ?s0 = Inr s"
    and pairs: "map (\<lambda>p. (plId p, plData p)) (ppTransactions plan) = storedById s"
    and counts: "rTransactionsStored (ppResult plan) = transactionsStored s"
      "rTransactionsAdded (ppResult plan) = transactionsAdded s"
      "rTransactionsModified (ppResult plan) = transactionsModified s"
    using assms(1) by (rule planCrawlResults_Inr)
  let ?ctx = "planContextOf sha uuidOk f input" and ?orig = "\<lambda>i. existingRow input i \<noteq> None"
  have c: "cConnectionId ?ctx = piConnectionId input" "cOccurrenceScopeId ?ctx = piOccurrenceScopeId input"
    by (simp_all add: planContext_def Let_def)
  have views: "map (txView \<circ> snd) (enumerate 0 ?valid) = map txView ?valid"
    by (simp only: map_map [symmetric] map_snd_enumerate)
  have target: "?orig i" if "authoritativeTarget ?ctx t = Some i" for t i
  proof -
    from authoritativeTarget_candidate [OF that] obtain account where
      "mget (mfrom (map (\<lambda>r. (exId r, str_field ''providerAccountId'' (exData r))) (piExistingTransactions input))) i = Some account"
      by blast
    then have "i \<in> exId ` set (piExistingTransactions input)"
      using assms(2) by (auto simp: mget_mfrom comp_def dest!: map_of_SomeD)
    then show ?thesis
      by (simp add: existingRow_def map_of_eq_None_iff image_image)
  qed
  have "rowsExplained sha (cConnectionId ?ctx) (cOccurrenceScopeId ?ctx) ?orig (enumerate 0 ?valid) s"
  proof (rule foldM_prefix_invariant [OF run])
    show "rowsExplained sha (cConnectionId ?ctx) (cOccurrenceScopeId ?ctx) ?orig [] ?s0"
      using assms(2) by (simp add: rowsExplained_def initial_row)
  next
    fix ps x rest u t
    assume split: "enumerate 0 ?valid = ps @ x # rest" and step: "planStep sha ?ctx x u = Inr t"
      and inv: "rowsExplained sha (cConnectionId ?ctx) (cOccurrenceScopeId ?ctx) ?orig ps u"
    have x: "x \<in> set (enumerate 0 ?valid)" by (simp add: split)
    show "rowsExplained sha (cConnectionId ?ctx) (cOccurrenceScopeId ?ctx) ?orig (ps @ [x]) t"
    proof (rule rowsExplained_step [OF step inv, where xs = "enumerate 0 ?valid"])
      show "inj_on (truncHash sha) (set (batchPreimages sha (cConnectionId ?ctx) (cOccurrenceScopeId ?ctx)
          (map (txView \<circ> snd) (enumerate 0 ?valid))))" using assms(4) by (simp only: c views)
      show "insert x (set ps) \<subseteq> set (enumerate 0 ?valid)" by (auto simp: split)
      show "\<not> ?orig (occurrenceTxId sha (cConnectionId ?ctx) (cOccurrenceScopeId ?ctx) (txView (snd x)))"
        using assms(5) snd_enumerate [OF x] by (simp add: c)
    qed (rule target)
  qed
  then have "transactionsModified s \<le> length (filter (\<lambda>x. truthy (existingCanonicalId (txView (snd x)))) (enumerate 0 ?valid))"
    by (simp add: rowsExplained_def)
  also have "\<dots> = length (filter (\<lambda>d. truthy (existingCanonicalId (txView d))) (map snd (enumerate 0 ?valid)))"
    by (simp only: filter_map length_map comp_def)
  finally have modified: "transactionsModified s \<le> length (filter (\<lambda>d. truthy (existingCanonicalId (txView d))) ?valid)"
    by simp
  have "transactionsStored s = transactionsAdded s + transactionsModified s"
    using plan.loop_first_promotion [OF run] assms(3) by (simp add: initialPlanState_def mfrom_def)
  moreover have "length (storedById s) = length (piExistingTransactions input) + transactionsAdded s"
    using plan.loop_rows_card [OF run] distinct_storedById [OF run] assms(2)
    by (simp add: card_dom_mget initialPlanState_def length_mfrom comp_def)
  moreover have "length (ppTransactions plan) = length (storedById s)"
    using arg_cong [OF pairs, of length] by simp
  ultimately show ?thesis using modified counts by simp
qed

theorem plan_never_merges_witness:
  "\<exists>p. planCrawlResults demoSha (\<lambda>_. True) demoNow demoTwins = Inr p
     \<and> rTransactionsModified (ppResult p) = 0
     \<and> rTransactionsStored (ppResult p) = rTransactionsAdded (ppResult p)
     \<and> 1 + rTransactionsStored (ppResult p) \<le> length (ppTransactions p)"
proof -
  obtain p where p: "planCrawlResults demoSha (\<lambda>_. True) demoNow demoTwins = Inr p"
    by (rule demoRun_Some [OF demoTwins_run])
  have inj: "inj_on (truncHash demoSha) (set (batchPreimages demoSha (piConnectionId demoTwins)
      (piOccurrenceScopeId demoTwins) (map txView (validTransactionsOf demoSha (\<lambda>_. True) demoTwins))))"
    by code_simp
  have new: "\<forall>t \<in> set (map txView (validTransactionsOf demoSha (\<lambda>_. True) demoTwins)).
      existingRow demoTwins (occurrenceTxId demoSha (piConnectionId demoTwins) (piOccurrenceScopeId demoTwins) t) = None"
    by code_simp
  have none: "length (filter (\<lambda>d. truthy (existingCanonicalId (txView d))) (validTransactionsOf demoSha (\<lambda>_. True) demoTwins)) = 0"
    by code_simp
  have one: "length (piExistingTransactions demoTwins) = 1" by (simp add: demoTwins_def demoInput_def)
  from plan_never_merges [OF p demo_existing(2,6) inj new] p none one show ?thesis by simp
qed

text \<open>
  Absence is not evidence. An existing account or position whose row no valid record of the
  crawl observes is in the plan with the data it had, marked as not observed, and
  carrying its previous row.
\<close>

theorem plan_retains_unobserved:
  assumes "planCrawlResults sha uuidOk now input = Inr plan"
    and "distinct (map exId (piExistingAccounts input))" "distinct (map exId (piExistingPositions input))"
  shows "(\<forall>r \<in> set (piExistingAccounts input).
        exId r \<notin> accountRowId sha (piConnectionId input) ` set (fst (validateRecords CrawledAccountSchema (piAccounts input))) \<longrightarrow>
        \<lparr>plId = exId r, plData = exData r, plPrevious = Some r, plObserved = False\<rparr> \<in> set (ppAccounts plan))
    \<and> (\<forall>r \<in> set (piExistingPositions input).
        exId r \<notin> positionRowId sha (piConnectionId input) ` set (fst (validateRecords CrawledPositionSchema (piPositions input))) \<longrightarrow>
        \<lparr>plId = exId r, plData = exData r, plPrevious = Some r, plObserved = False\<rparr> \<in> set (ppPositions plan))"
proof -
  let ?conn = "piConnectionId input" and ?va = "fst (validateRecords CrawledAccountSchema (piAccounts input))"
    and ?vp = "fst (validateRecords CrawledPositionSchema (piPositions input))"
  have acc: "ppAccounts plan = map snd (planUpsert (accountRowId sha ?conn) mergeAccountData
      (existingById (piExistingAccounts input)) ?va (plannedExisting (piExistingAccounts input)))"
    using assms(1) by (auto simp: planCrawlResults_def Let_def split: option.splits sum.splits)
  have "\<exists>q. ppPositions plan = map snd (planUpsert (positionRowId sha ?conn) mergePositionData
      (existingById (piExistingPositions input)) (filter q ?vp) (plannedExisting (piExistingPositions input)))"
    using assms(1) by (auto simp: planCrawlResults_def Let_def split: option.splits sum.splits)
  then obtain q where pos: "ppPositions plan = map snd (planUpsert (positionRowId sha ?conn) mergePositionData
      (existingById (piExistingPositions input)) (filter q ?vp) (plannedExisting (piExistingPositions input)))" ..
  show ?thesis
  proof (intro conjI ballI impI)
    fix r assume "r \<in> set (piExistingAccounts input)" "exId r \<notin> accountRowId sha ?conn ` set ?va"
    then show "\<lparr>plId = exId r, plData = exData r, plPrevious = Some r, plObserved = False\<rparr> \<in> set (ppAccounts plan)"
      unfolding acc by (rule planUpsert_retains [OF assms(2)])
  next
    fix r assume "r \<in> set (piExistingPositions input)" "exId r \<notin> positionRowId sha ?conn ` set ?vp"
    then show "\<lparr>plId = exId r, plData = exData r, plPrevious = Some r, plObserved = False\<rparr> \<in> set (ppPositions plan)"
      unfolding pos by (intro planUpsert_retains [OF assms(3)]) auto
  qed
qed

theorem plan_retains_unobserved_witness:
  "\<exists>p. planCrawlResults demoSha (\<lambda>_. True) demoNow demoInput = Inr p
     \<and> \<lparr>plId = ''p1'', plData = exData demoHolding, plPrevious = Some demoHolding, plObserved = False\<rparr> \<in> set (ppPositions p)"
proof -
  obtain p where p: "planCrawlResults demoSha (\<lambda>_. True) demoNow demoInput = Inr p"
    by (rule demoRun_Some [OF demoInput_run])
  from plan_retains_unobserved [OF p demo_existing(3,4)] p show ?thesis
    by (simp add: demoInput_def demoHolding_def)
qed

end
