(* ===== verification/StoreResults.thy ===== *)
theory StoreResults
  imports PlanCrawl
begin

text \<open>
  The second half of \<^verbatim>\<open>apps/control-plane/src/data/store-crawl.ts\<close>: \<^verbatim>\<open>storeCrawlResults\<close>, the
  promotion path that writes the canonical tables inside one database transaction. The tables
  are association lists by primary key, an upsert and an insert that ignores conflicts are
  spelled out, and a thrown error (which rolls the transaction back) is \<open>Inl message\<close>. Random
  identifiers are a parameter. The last section proves that the loop refines the planner's:
  on related states both take the same decision about every observation.
\<close>

section \<open>Tables\<close>

record account_row =
  arConnectionId :: string
  arData :: jobj
  arMissingSinceCrawlCount :: nat
  arLastSeenAt :: millis
  arUpdatedAt :: millis

record transaction_row =
  trConnectionId :: string
  trData :: jobj
  trCreatedAt :: millis
  trUpdatedAt :: millis

record position_row =
  prConnectionId :: string
  prData :: jobj
  prUpdatedAt :: millis

record target_row =
  tgSessionId :: string
  tgProviderAccountId :: "string option"
  tgCanonicalId :: string
  tgTransactionId :: string

record database =
  dbAccounts :: "account_row jsmap"
  dbTransactions :: "transaction_row jsmap"
  dbPositions :: "position_row jsmap"
  dbTargets :: "target_row list"
  dbOccurrences :: "((string \<times> string \<times> string) \<times> string) list"

record store_input =
  siConnectionId :: string
  siSessionId :: "string option"
  siAccounts :: "json list"
  siTransactions :: "json list"
  siPositions :: "json list"
  siRecentlySentUpdateTargets :: "string list jsmap"

record store_state = promotion_state +
  sdb :: database

section \<open>Reading the tables\<close>

definition storedTransactions :: "string \<Rightarrow> database \<Rightarrow> (string \<times> jobj) list" where
  "storedTransactions conn db =
     map (\<lambda>(i, r). (i, trData r)) (filter (\<lambda>(i, r). trConnectionId r = conn) (dbTransactions db))"

definition storedAccounts :: "string \<Rightarrow> database \<Rightarrow> jobj jsmap" where
  "storedAccounts conn db =
     mfrom (map (\<lambda>(i, r). (i, arData r)) (filter (\<lambda>(i, r). arConnectionId r = conn) (dbAccounts db)))"

definition storedPositions :: "string \<Rightarrow> database \<Rightarrow> jobj jsmap" where
  "storedPositions conn db =
     mfrom (map (\<lambda>(i, r). (i, prData r)) (filter (\<lambda>(i, r). prConnectionId r = conn) (dbPositions db)))"

definition updateTargets :: "store_input \<Rightarrow> database \<Rightarrow> string list jsmap" where
  "updateTargets input db =
     (if truthy (siSessionId input) then
        fold (\<lambda>g m. group_add
                (canonicalUpdateKey (tgProviderAccountId g) (tgCanonicalId g)) (tgTransactionId g) m)
          (filter (\<lambda>g. Some (tgSessionId g) = siSessionId input) (dbTargets db)) []
      else fold (\<lambda>(key, ids) m. mput key (sfrom ids) m) (siRecentlySentUpdateTargets input) [])"

definition claimedByOccurrence :: "string \<Rightarrow> string \<Rightarrow> string list \<Rightarrow> database \<Rightarrow> string jsmap" where
  "claimedByOccurrence conn scope occurrenceIds db =
     fold (\<lambda>((c, sc, oc), t) m. if c = conn \<and> sc = scope \<and> oc \<in> set occurrenceIds then mput oc t m else m)
       (dbOccurrences db) []"

section \<open>Writing the tables\<close>

text \<open>\<^verbatim>\<open>insert ... on conflict (id) do update set data, updatedAt returning (xmax = 0)\<close>\<close>

definition upsertTransaction ::
  "string \<Rightarrow> string \<Rightarrow> jobj \<Rightarrow> millis \<Rightarrow> database \<Rightarrow> database \<times> bool" where
  "upsertTransaction conn i data now db =
     (case mget (dbTransactions db) i of
        None \<Rightarrow> (db\<lparr>dbTransactions := mput i \<lparr>trConnectionId = conn, trData = data,
                   trCreatedAt = now, trUpdatedAt = now\<rparr> (dbTransactions db)\<rparr>, True)
      | Some r \<Rightarrow> (db\<lparr>dbTransactions := mput i (r\<lparr>trData := data, trUpdatedAt := now\<rparr>) (dbTransactions db)\<rparr>, False))"

text \<open>\<^verbatim>\<open>insert ... on conflict do nothing\<close>, then the check of the row that is already there.\<close>

definition claimOccurrence ::
  "string \<Rightarrow> string \<Rightarrow> string \<Rightarrow> string \<Rightarrow> database \<Rightarrow> string + database" where
  "claimOccurrence conn scope occurrence i db =
     (case mget (dbOccurrences db) (conn, scope, occurrence) of
        None \<Rightarrow> Inr (db\<lparr>dbOccurrences := mput (conn, scope, occurrence) i (dbOccurrences db)\<rparr>)
      | Some existing \<Rightarrow>
          if existing \<noteq> i then Inl ''transaction occurrence was claimed by a different transaction''
          else Inr db)"

definition upsertAccount :: "string \<Rightarrow> string \<Rightarrow> jobj \<Rightarrow> millis \<Rightarrow> database \<Rightarrow> database" where
  "upsertAccount conn i data now db =
     db\<lparr>dbAccounts := mput i
          (case mget (dbAccounts db) i of
             None \<Rightarrow> \<lparr>arConnectionId = conn, arData = data, arMissingSinceCrawlCount = 0,
                      arLastSeenAt = now, arUpdatedAt = now\<rparr>
           | Some r \<Rightarrow> r\<lparr>arData := data, arMissingSinceCrawlCount := 0, arLastSeenAt := now, arUpdatedAt := now\<rparr>)
          (dbAccounts db)\<rparr>"

definition upsertPosition :: "string \<Rightarrow> string \<Rightarrow> jobj \<Rightarrow> millis \<Rightarrow> database \<Rightarrow> database" where
  "upsertPosition conn i data now db =
     db\<lparr>dbPositions := mput i
          (case mget (dbPositions db) i of
             None \<Rightarrow> \<lparr>prConnectionId = conn, prData = data, prUpdatedAt = now\<rparr>
           | Some r \<Rightarrow> r\<lparr>prData := data, prUpdatedAt := now\<rparr>)
          (dbPositions db)\<rparr>"

section \<open>The identity decision\<close>

definition preserveAsOccurrenceReason ::
  "plan_context \<Rightarrow> string list jsmap \<Rightarrow> tx_identity_input \<Rightarrow> string option" where
  "preserveAsOccurrenceReason ctx rows u =
     (if \<not> truthy (existingCanonicalId u) \<and> isBankProvidedId (providerTransactionId u) then
        (if countOf (cIncomingProviderIdCounts ctx) (providerKey u) > 1
         then Some ''the provider reference repeats within this extraction''
         else if length (bucket (cInitialRowIdsByCanonical ctx) (providerKey u)) > 0
                 \<or> length (bucket rows (providerKey u)) > 0
         then Some ''the provider reference already belongs to a stored row''
         else None)
      else None)"

definition storeIdentityInput ::
  "plan_context \<Rightarrow> string list jsmap \<Rightarrow> tx_identity_input \<Rightarrow> tx_identity_input" where
  "storeIdentityInput ctx rows t =
     (let u = (if truthy (existingCanonicalId t) \<and> isBankProvidedId (providerTransactionId t) then
                 (if countOf (cIncomingProviderIdCounts ctx) (providerKey t) > 1
                     \<or> canonicalBelongsToAnotherRow (cInitialRowIdsByCanonical ctx) rows (providerKey t)
                          (or_else (authoritativeTarget ctx t) [])
                  then t\<lparr>providerTransactionId := None\<rparr> else t)
               else t)
      in if truthy (preserveAsOccurrenceReason ctx rows u) then asOccurrence t else u)"

definition storeIdentity ::
  "digest \<Rightarrow> plan_context \<Rightarrow> string list jsmap \<Rightarrow> jobj jsmap \<Rightarrow> tx_identity_input \<Rightarrow> tx_identity_result" where
  "storeIdentity sha ctx rows stored t =
     (let identityInput = storeIdentityInput ctx rows t;
          approvedUpdateKeys = mkeys (cResolvedUpdateTargets ctx);
          idy = assignTransactionId sha (cConnectionId ctx) identityInput (Some approvedUpdateKeys)
            (Some \<lparr>authoritativeExistingTxId = authoritativeTarget ctx t,
                   occurrenceScopeId = Some (cOccurrenceScopeId ctx)\<rparr>)
      in case idy of
           Dropped reason \<Rightarrow> Dropped reason
         | Identified i \<Rightarrow>
             if \<not> truthy (existingCanonicalId identityInput)
                \<and> isBankProvidedId (providerTransactionId identityInput) \<and> mhas stored (txId i)
             then assignTransactionId sha (cConnectionId ctx) (asOccurrence t) (Some approvedUpdateKeys)
                    (Some \<lparr>authoritativeExistingTxId = None, occurrenceScopeId = Some (cOccurrenceScopeId ctx)\<rparr>)
             else idy)"

section \<open>One observation\<close>

definition storeWrite ::
  "plan_context \<Rightarrow> millis \<Rightarrow> jobj \<Rightarrow> tx_identity \<Rightarrow> store_state \<Rightarrow> string + store_state" where
  "storeWrite ctx now d idy s =
     (let data = mergePresentFields (mget (storedById s) (txId idy))
                   (observedData d (providerTransactionIdField idy));
          occurrenceId = str_field ''extractionOccurrenceId'' d
      in case upsertTransaction (cConnectionId ctx) (txId idy) data now (sdb s) of (db, inserted) \<Rightarrow>
         let s = s\<lparr>sdb := db, transactionsStored := Suc (transactionsStored s)\<rparr>;
             s = (if inserted then s\<lparr>transactionsAdded := Suc (transactionsAdded s)\<rparr>
                  else s\<lparr>transactionsModified := Suc (transactionsModified s)\<rparr>)
         in case (if truthy occurrenceId
                  then claimOccurrence (cConnectionId ctx) (cOccurrenceScopeId ctx) (or_else occurrenceId []) (txId idy) db
                  else Inr db) of
              Inl e \<Rightarrow> Inl e
            | Inr db \<Rightarrow>
                let s = s\<lparr>sdb := db\<rparr>;
                    s = (if truthy occurrenceId
                         then s\<lparr>occurrenceClaims := mput (or_else occurrenceId []) (txId idy) (occurrenceClaims s)\<rparr>
                         else s);
                    s = replaceStoredIndex (txId idy) data s
                in Inr (s\<lparr>newestBookingDate := bumpNewest (bookingDate (txView d)) (newestBookingDate s)\<rparr>))"

definition storeStep ::
  "digest \<Rightarrow> plan_context \<Rightarrow> millis \<Rightarrow> nat \<times> jobj \<Rightarrow> store_state \<Rightarrow> string + store_state" where
  "storeStep sha ctx now x s =
     (case x of (transactionIndex, d) \<Rightarrow>
      let t = txView d; occurrenceId = str_field ''extractionOccurrenceId'' d;
          seen = truthy occurrenceId \<and> or_else occurrenceId [] \<in> set (seenOccurrenceIds s);
          s = (if truthy occurrenceId
               then s\<lparr>seenOccurrenceIds := sadd (or_else occurrenceId []) (seenOccurrenceIds s)\<rparr> else s);
          claimed = (if truthy occurrenceId then mget (occurrenceClaims s) (or_else occurrenceId []) else None)
      in
      if seen then Inl ''the same transaction occurrence id appears more than once in one promotion''
      else if truthy claimed then
        (if \<not> mhas (storedById s) (or_else claimed []) then
           Inl ''transaction occurrence points to a missing or cross-connection transaction''
         else Inr (s\<lparr>transactionsStored := Suc (transactionsStored s),
                     newestBookingDate := bumpNewest (bookingDate t) (newestBookingDate s)\<rparr>))
      else if truthy (mget (cDroppedClaimIndexes ctx) transactionIndex) then
        Inr (s\<lparr>transactionsDropped := Suc (transactionsDropped s)\<rparr>)
      else if \<not> truthy (existingCanonicalId t) \<and> \<not> isBankProvidedId (providerTransactionId t)
              \<and> bookingDate t < cFloorDate ctx then
        Inr (s\<lparr>transactionsDropped := Suc (transactionsDropped s)\<rparr>)
      else
      (case storeIdentity sha ctx (rowIdsByCanonical s) (storedById s) t of
         Dropped _ \<Rightarrow> Inr (s\<lparr>transactionsDropped := Suc (transactionsDropped s)\<rparr>)
       | Identified idy \<Rightarrow> storeWrite ctx now d idy s))"

section \<open>The whole promotion\<close>

definition withOccurrenceIds :: "(nat \<Rightarrow> string) \<Rightarrow> jobj list \<Rightarrow> jobj list" where
  "withOccurrenceIds randomUUID txs =
     map (\<lambda>(n, t). if truthy (str_field ''extractionOccurrenceId'' t) then t
                   else mput ''extractionOccurrenceId'' (JStr (randomUUID n)) t) (enumerate 0 txs)"

definition initialStoreState :: "string \<Rightarrow> string \<Rightarrow> jobj list \<Rightarrow> database \<Rightarrow> store_state" where
  "initialStoreState conn scope valid db =
     fold (\<lambda>(i, d) s. replaceStoredIndex i d s) (storedTransactions conn db)
       \<lparr>storedById = [], rowIdsByCanonical = [], seenOccurrenceIds = [],
        occurrenceClaims = claimedByOccurrence conn scope (sfrom (filter (\<lambda>oc. oc \<noteq> []) (map occurrenceOf valid))) db,
        transactionsStored = 0, transactionsAdded = 0, transactionsModified = 0, transactionsDropped = 0,
        newestBookingDate = None, sdb = db\<rparr>"

definition storeContext ::
  "store_input \<Rightarrow> string \<Rightarrow> jobj list \<Rightarrow> database \<Rightarrow> store_state \<Rightarrow> string \<Rightarrow> plan_context" where
  "storeContext input scope valid db s0 floorDate =
     (let updateResolution = resolveAuthoritativeTransactionUpdateTargets (map txView valid)
            (updateTargets input db)
            (map (\<lambda>(i, d). (i, str_field ''providerAccountId'' d)) (storedById s0))
      in \<lparr>cConnectionId = siConnectionId input, cOccurrenceScopeId = scope,
          cResolvedUpdateTargets = resolvedTargets updateResolution,
          cDroppedClaimIndexes = droppedClaimIndexes updateResolution,
          cInitialRowIdsByCanonical = rowIdsByCanonical s0,
          cIncomingProviderIdCounts = countProviderIds (map txView valid),
          cFloorDate = floorDate\<rparr>)"

definition storeAccounts ::
  "digest \<Rightarrow> string \<Rightarrow> millis \<Rightarrow> jobj list \<Rightarrow> database \<Rightarrow> jobj jsmap \<times> database" where
  "storeAccounts sha conn now valid db =
     fold (\<lambda>a (stored, db).
         let i = accountRowId sha conn a; data = mergeAccountData (mget stored i) a
         in (mput i data stored, upsertAccount conn i data now db)) valid (storedAccounts conn db, db)"

definition storePositions ::
  "digest \<Rightarrow> string \<Rightarrow> millis \<Rightarrow> jobj list \<Rightarrow> database \<Rightarrow> jobj jsmap \<times> database" where
  "storePositions sha conn now valid db =
     fold (\<lambda>p (stored, db).
         let i = positionRowId sha conn p; data = mergePositionData (mget stored i) p
         in (mput i data stored, upsertPosition conn i data now db)) valid (storedPositions conn db, db)"

definition storeCrawlResults ::
  "digest \<Rightarrow> (string \<Rightarrow> bool) \<Rightarrow> string \<Rightarrow> (nat \<Rightarrow> string) \<Rightarrow> millis \<Rightarrow> store_input \<Rightarrow> database
   \<Rightarrow> string + database \<times> store_result" where
  "storeCrawlResults sha uuidOk invocationScope randomUUID now input db =
     (let conn = siConnectionId input;
          scope = (case siSessionId input of Some s \<Rightarrow> s | None \<Rightarrow> invocationScope);
          va = validateRecords CrawledAccountSchema (siAccounts input);
          vt = validateRecords (CrawledTransactionSchema uuidOk) (siTransactions input);
          vp = validateRecords CrawledPositionSchema (siPositions input);
          valid = withOccurrenceIds randomUUID (fst vt)
      in case storeAccounts sha conn now (fst va) db of (storedAccountsById, db1) \<Rightarrow>
      case deriveTransactionCutoffDate None now of
        None \<Rightarrow> Inl ''Invalid time value''
      | Some floorDate \<Rightarrow>
      (let s0 = initialStoreState conn scope valid db1 in
      case foldM (storeStep sha (storeContext input scope valid db1 s0 floorDate) now) (enumerate 0 valid) s0 of
        Inl e \<Rightarrow> Inl e
      | Inr s \<Rightarrow>
          let known = filter (\<lambda>a. truthy a)
                (map (\<lambda>(i, d). str_field ''providerAccountId'' d) storedAccountsById);
              validPositions = filter (\<lambda>p. str_field ''providerAccountId'' p \<in> set known) (fst vp);
              unknown = length (fst vp) - length validPositions
          in Inr (snd (storePositions sha conn now validPositions (sdb s)),
             \<lparr>rAccountsStored = length (fst va),
              rTransactionsStored = transactionsStored s, rTransactionsAdded = transactionsAdded s,
              rTransactionsModified = transactionsModified s, rTransactionsDropped = transactionsDropped s,
              rPositionsStored = length validPositions,
              rQuarantinedAccounts = 0, rStaleDeletedPositions = 0,
              rRejectedAccounts = snd va, rRejectedTransactions = snd vt,
              rRejectedPositions = snd vp + unknown,
              rNewestBookingDate = newestBookingDate s\<rparr>)))"

section \<open>The two identity decisions are one\<close>

lemma storeIdentityInput_plan: "storeIdentityInput ctx rows t = planIdentityInput ctx rows t"
  by (auto simp: storeIdentityInput_def planIdentityInput_def preserveAsOccurrenceReason_def Let_def)

lemma storeIdentity_plan: "storeIdentity sha ctx rows stored t = planIdentity sha ctx rows stored t"
  by (auto simp: storeIdentity_def planIdentity_def storeIdentityInput_plan Let_def
      split: tx_identity_result.splits)

section \<open>The simulation\<close>

definition sameBase :: "'a promotion_state_scheme \<Rightarrow> 'b promotion_state_scheme \<Rightarrow> bool" where
  "sameBase p s =
     (storedById p = storedById s \<and> rowIdsByCanonical p = rowIdsByCanonical s
      \<and> seenOccurrenceIds p = seenOccurrenceIds s \<and> occurrenceClaims p = occurrenceClaims s
      \<and> transactionsStored p = transactionsStored s \<and> transactionsAdded p = transactionsAdded s
      \<and> transactionsModified p = transactionsModified s \<and> transactionsDropped p = transactionsDropped s
      \<and> newestBookingDate p = newestBookingDate s)"

text \<open>The tables hold what the loop's maps say, for one connection and one scope.\<close>

definition tablesAgree :: "string \<Rightarrow> string \<Rightarrow> string set \<Rightarrow> string set \<Rightarrow> store_state \<Rightarrow> bool" where
  "tablesAgree conn scope occs ids s =
     ((\<forall>i d. mget (storedById s) i = Some d \<longleftrightarrow>
         (\<exists>r. mget (dbTransactions (sdb s)) i = Some r \<and> trConnectionId r = conn \<and> trData r = d))
      \<and> (\<forall>i \<in> ids. \<forall>r. mget (dbTransactions (sdb s)) i = Some r \<longrightarrow> trConnectionId r = conn)
      \<and> (\<forall>oc \<in> occs. oc \<notin> set (seenOccurrenceIds s) \<longrightarrow>
           mget (occurrenceClaims s) oc = mget (dbOccurrences (sdb s)) (conn, scope, oc))
      \<and> (\<forall>oc \<in> occs. mget (dbOccurrences (sdb s)) (conn, scope, oc) \<noteq> Some []))"

definition storeRel ::
  "string \<Rightarrow> string \<Rightarrow> string set \<Rightarrow> string set \<Rightarrow> plan_state \<Rightarrow> store_state \<Rightarrow> bool" where
  "storeRel conn scope occs ids p s = (sameBase p s \<and> tablesAgree conn scope occs ids s)"

lemma tablesAgree_upsert:
  assumes "tablesAgree conn scope occs ids s" "i \<in> ids" "upsertTransaction conn i d now (sdb s) = (db, ins)"
  shows "ins \<longleftrightarrow> mget (storedById s) i = None"
    and "dbOccurrences db = dbOccurrences (sdb s)"
    and "mget (mput i d (storedById s)) j = Some e \<longleftrightarrow>
      (\<exists>r. mget (dbTransactions db) j = Some r \<and> trConnectionId r = conn \<and> trData r = e)"
    and "j \<in> ids \<Longrightarrow> mget (dbTransactions db) j = Some r \<Longrightarrow> trConnectionId r = conn"
proof -
  have own: "mget (dbTransactions (sdb s)) i = Some r \<Longrightarrow> trConnectionId r = conn" for r
    using assms(1,2) by (auto simp: tablesAgree_def)
  have rows: "mget (storedById s) j = Some e \<longleftrightarrow>
      (\<exists>r. mget (dbTransactions (sdb s)) j = Some r \<and> trConnectionId r = conn \<and> trData r = e)" for j e
    using assms(1) by (simp add: tablesAgree_def)
  have none: "mget (storedById s) i = None \<longleftrightarrow> mget (dbTransactions (sdb s)) i = None"
    using rows [of i] own by (cases "mget (dbTransactions (sdb s)) i"; cases "mget (storedById s) i") auto
  show "ins \<longleftrightarrow> mget (storedById s) i = None" "dbOccurrences db = dbOccurrences (sdb s)"
    using assms(3) none by (auto simp: upsertTransaction_def split: option.splits)
  obtain row where row: "dbTransactions db = mput i row (dbTransactions (sdb s))" "trConnectionId row = conn" "trData row = d"
    using assms(3) own by (cases "mget (dbTransactions (sdb s)) i") (auto simp: upsertTransaction_def)
  show "mget (mput i d (storedById s)) j = Some e \<longleftrightarrow>
      (\<exists>r. mget (dbTransactions db) j = Some r \<and> trConnectionId r = conn \<and> trData r = e)"
    by (simp add: row rows)
  show "j \<in> ids \<Longrightarrow> mget (dbTransactions db) j = Some r \<Longrightarrow> trConnectionId r = conn"
    using assms(1) row(2) by (auto simp: row(1) tablesAgree_def split: if_splits)
qed

text \<open>One write, on related states whose occurrence was already marked as seen.\<close>

lemma storeWrite_refines:
  assumes agree: "tablesAgree (cConnectionId ctx) (cOccurrenceScopeId ctx) occs ids s"
    and id: "txId idy \<in> ids"
    and occ: "str_field ''extractionOccurrenceId'' d = Some oc" "oc \<noteq> []" "oc \<in> occs"
    and unclaimed: "mget (dbOccurrences (sdb s)) (cConnectionId ctx, cOccurrenceScopeId ctx, oc) = None"
    and nonempty: "txId idy \<noteq> []"
    and seen: "seen' = sadd oc (seenOccurrenceIds s)"
  shows "\<exists>s'. storeWrite ctx now d idy (s\<lparr>seenOccurrenceIds := seen'\<rparr>) = Inr s'
    \<and> storedById s' = mput (txId idy) (mergePresentFields (mget (storedById s) (txId idy))
         (observedData d (providerTransactionIdField idy))) (storedById s)
    \<and> rowIdsByCanonical s' = rowIdsByCanonical (replaceStoredIndex (txId idy) (mergePresentFields (mget (storedById s) (txId idy))
         (observedData d (providerTransactionIdField idy))) s)
    \<and> seenOccurrenceIds s' = seen' \<and> occurrenceClaims s' = mput oc (txId idy) (occurrenceClaims s)
    \<and> transactionsStored s' = Suc (transactionsStored s)
    \<and> transactionsAdded s' = transactionsAdded s + (if mget (storedById s) (txId idy) = None then 1 else 0)
    \<and> transactionsModified s' = transactionsModified s + (if mget (storedById s) (txId idy) = None then 0 else 1)
    \<and> transactionsDropped s' = transactionsDropped s
    \<and> newestBookingDate s' = bumpNewest (bookingDate (txView d)) (newestBookingDate s)
    \<and> tablesAgree (cConnectionId ctx) (cOccurrenceScopeId ctx) occs ids s'"
proof -
  let ?data = "mergePresentFields (mget (storedById s) (txId idy)) (observedData d (providerTransactionIdField idy))"
  obtain db ins where up: "upsertTransaction (cConnectionId ctx) (txId idy) ?data now (sdb s) = (db, ins)"
    by (cases "upsertTransaction (cConnectionId ctx) (txId idy) ?data now (sdb s)")
  note u = tablesAgree_upsert [OF agree id up]
  let ?db = "db\<lparr>dbOccurrences := mput (cConnectionId ctx, cOccurrenceScopeId ctx, oc) (txId idy) (dbOccurrences db)\<rparr>"
  have claim: "claimOccurrence (cConnectionId ctx) (cOccurrenceScopeId ctx) oc (txId idy) db = Inr ?db"
    using unclaimed by (simp add: claimOccurrence_def u(2))
  let ?t = "(replaceStoredIndex (txId idy) ?data s)\<lparr>seenOccurrenceIds := seen', sdb := ?db,
     occurrenceClaims := mput oc (txId idy) (occurrenceClaims s), transactionsStored := Suc (transactionsStored s),
     transactionsAdded := transactionsAdded s + (if mget (storedById s) (txId idy) = None then 1 else 0),
     transactionsModified := transactionsModified s + (if mget (storedById s) (txId idy) = None then 0 else 1),
     newestBookingDate := bumpNewest (bookingDate (txView d)) (newestBookingDate s)\<rparr>"
  have run: "storeWrite ctx now d idy (s\<lparr>seenOccurrenceIds := seen'\<rparr>) = Inr ?t"
    using up claim occ u(1)
    by (cases "mget (storedById s) (txId idy)"; cases s) (simp_all add: storeWrite_def Let_def replaceStoredIndex_def)
  have "tablesAgree (cConnectionId ctx) (cOccurrenceScopeId ctx) occs ids ?t"
    using agree u nonempty by (auto simp: tablesAgree_def seen)
  with run show ?thesis by (intro exI [of _ ?t]) simp
qed

text \<open>The ids one observation may be written under.\<close>

definition candidateIds :: "digest \<Rightarrow> plan_context \<Rightarrow> jobj \<Rightarrow> string set" where
  "candidateIds sha ctx d =
     {bankTxId sha (cConnectionId ctx) (txView d),
      occurrenceTxId sha (cConnectionId ctx) (cOccurrenceScopeId ctx) (txView d)}
     \<union> set_option (authoritativeTarget ctx (txView d))"

lemma planIdentity_candidate:
  assumes "planIdentity sha ctx rows stored (txView d) = Identified idy"
  shows "txId idy \<in> candidateIds sha ctx d"
proof (cases "truthy (existingCanonicalId (txView d))")
  case True
  with planIdentity_update [OF True assms] show ?thesis by (simp add: candidateIds_def)
next
  case False
  with assms show ?thesis
    by (auto simp: planIdentity_plain assign_asOccurrence candidateIds_def split: if_splits)
qed

lemma storeStep_refines:
  assumes rel: "storeRel (cConnectionId ctx) (cOccurrenceScopeId ctx) occs ids p s"
    and cand: "candidateIds sha ctx (snd x) \<subseteq> ids"
    and occ: "str_field ''extractionOccurrenceId'' (snd x) = Some oc" "oc \<noteq> []" "oc \<in> occs"
    and reasons: "\<And>i r. mget (cDroppedClaimIndexes ctx) i = Some r \<Longrightarrow> r \<noteq> []"
    and sha: "\<And>q. sha q \<noteq> []"
  shows "rel_sum (=) (storeRel (cConnectionId ctx) (cOccurrenceScopeId ctx) occs ids)
    (planStep sha ctx x p) (storeStep sha ctx now x s)"
proof -
  obtain n d where x: "x = (n, d)" by (cases x)
  have o: "str_field ''extractionOccurrenceId'' d = Some oc" "occurrenceOf d = oc" "truthy (str_field ''extractionOccurrenceId'' d)"
    using occ by (simp_all add: x occurrenceOf_def)
  have base: "sameBase p s" and agree: "tablesAgree (cConnectionId ctx) (cOccurrenceScopeId ctx) occs ids s"
    using rel by (simp_all add: storeRel_def)
  have drop: "truthy (mget (cDroppedClaimIndexes ctx) n) \<longleftrightarrow> mhas (cDroppedClaimIndexes ctx) n"
    using reasons [of n] by (cases "mget (cDroppedClaimIndexes ctx) n") (auto simp: mhas_def)
  have seen_agree: "tablesAgree (cConnectionId ctx) (cOccurrenceScopeId ctx) occs ids
      (s\<lparr>seenOccurrenceIds := sadd oc (seenOccurrenceIds s)\<rparr>)"
    using agree by (auto simp: tablesAgree_def)
  have count_agree: "tablesAgree c sc oo ii (s\<lparr>transactionsStored := k, newestBookingDate := b\<rparr>) = tablesAgree c sc oo ii s"
    "tablesAgree c sc oo ii (s\<lparr>transactionsDropped := k\<rparr>) = tablesAgree c sc oo ii s" for c sc oo ii s k b
    by (simp_all add: tablesAgree_def)
  note defs = planStep_def storeStep_def x o Let_def storeIdentity_plan drop occ(2)
  show ?thesis
  proof (cases "oc \<in> set (seenOccurrenceIds s) \<or> truthy (mget (occurrenceClaims s) oc)")
    case True
    with base seen_agree show ?thesis
      by (auto simp: defs sameBase_def storeRel_def count_agree)
  next
    case unclaimed: False
    have none: "mget (dbOccurrences (sdb s)) (cConnectionId ctx, cOccurrenceScopeId ctx, oc) = None"
      using unclaimed agree occ(3)
      by (cases "mget (dbOccurrences (sdb s)) (cConnectionId ctx, cOccurrenceScopeId ctx, oc)") (auto simp: tablesAgree_def)
    show ?thesis
    proof (cases "mhas (cDroppedClaimIndexes ctx) n \<or> (\<not> truthy (existingCanonicalId (txView d))
        \<and> \<not> isBankProvidedId (providerTransactionId (txView d)) \<and> bookingDate (txView d) < cFloorDate ctx)
        \<or> (\<exists>r. planIdentity sha ctx (rowIdsByCanonical s) (storedById s) (txView d) = Dropped r)")
      case True
      with base unclaimed seen_agree show ?thesis
        by (auto simp: defs sameBase_def storeRel_def count_agree)
    next
      case False
      then obtain idy where idy: "planIdentity sha ctx (rowIdsByCanonical s) (storedById s) (txView d) = Identified idy"
        by (cases "planIdentity sha ctx (rowIdsByCanonical s) (storedById s) (txView d)") auto
      have "txId idy \<in> ids" using planIdentity_candidate [OF idy] cand x by auto
      moreover have "txId idy \<noteq> []" using planIdentity_nonempty [OF idy sha] .
      ultimately obtain s' where s': "storeWrite ctx now d idy (s\<lparr>seenOccurrenceIds := sadd oc (seenOccurrenceIds s)\<rparr>) = Inr s'"
        and rest: "storedById s' = mput (txId idy) (mergePresentFields (mget (storedById s) (txId idy))
             (observedData d (providerTransactionIdField idy))) (storedById s)"
          "rowIdsByCanonical s' = rowIdsByCanonical (replaceStoredIndex (txId idy) (mergePresentFields
             (mget (storedById s) (txId idy)) (observedData d (providerTransactionIdField idy))) s)"
          "seenOccurrenceIds s' = sadd oc (seenOccurrenceIds s)" "occurrenceClaims s' = mput oc (txId idy) (occurrenceClaims s)"
          "transactionsStored s' = Suc (transactionsStored s)"
          "transactionsAdded s' = transactionsAdded s + (if mget (storedById s) (txId idy) = None then 1 else 0)"
          "transactionsModified s' = transactionsModified s + (if mget (storedById s) (txId idy) = None then 0 else 1)"
          "transactionsDropped s' = transactionsDropped s"
          "newestBookingDate s' = bumpNewest (bookingDate (txView d)) (newestBookingDate s)"
          "tablesAgree (cConnectionId ctx) (cOccurrenceScopeId ctx) occs ids s'"
        using storeWrite_refines [OF agree _ o(1) occ(2,3) none _ refl, of idy now] by blast
      from False unclaimed base idy s' have store: "storeStep sha ctx now x s = Inr s'"
        by (auto simp: defs)
      from False unclaimed base idy obtain p' where plan: "planStep sha ctx x p = Inr p'"
        by (auto simp: defs sameBase_def)
      have "sameBase p' s'"
        using plan False unclaimed base idy rest
        by (cases p) (auto simp: defs sameBase_def replaceStoredIndex_def split: if_splits)
      with store plan rest show ?thesis by (simp add: storeRel_def)
    qed
  qed
qed

section \<open>The starting states agree\<close>

text \<open>What the planner would be given for the same connection and scope.\<close>

definition planInputOf :: "store_input \<Rightarrow> string \<Rightarrow> jobj list \<Rightarrow> database \<Rightarrow> plan_input" where
  "planInputOf input scope valid db =
     \<lparr>piConnectionId = siConnectionId input, piOccurrenceScopeId = scope,
      piAccounts = siAccounts input, piTransactions = siTransactions input, piPositions = siPositions input,
      piExistingAccounts = [],
      piExistingTransactions = map (\<lambda>(i, d). \<lparr>exId = i, exData = d, exMissingSinceCrawlCount = None,
         exLastSeenAt = None, exCreatedAt = None, exUpdatedAt = None\<rparr>) (storedTransactions (siConnectionId input) db),
      piExistingPositions = [],
      piAuthoritativeUpdateTargets = updateTargets input db,
      piOccurrenceClaims = claimedByOccurrence (siConnectionId input) scope
        (sfrom (filter (\<lambda>oc. oc \<noteq> []) (map occurrenceOf valid))) db\<rparr>"

lemma storedTransactions_rows:
  assumes "distinct (mkeys (dbTransactions db))"
  shows "distinct (map fst (storedTransactions conn db))"
    and "mget (storedTransactions conn db) i = Some d \<longleftrightarrow>
      (\<exists>r. mget (dbTransactions db) i = Some r \<and> trConnectionId r = conn \<and> trData r = d)"
proof -
  have eq: "map fst (storedTransactions conn db) = map fst (filter (\<lambda>x. trConnectionId (snd x) = conn) (dbTransactions db))"
    by (simp add: storedTransactions_def case_prod_beta')
  show dist: "distinct (map fst (storedTransactions conn db))"
    unfolding eq using assms by (simp add: mkeys_def distinct_map_filter)
  have "mget (storedTransactions conn db) i = Some d \<longleftrightarrow> (i, d) \<in> set (storedTransactions conn db)"
    using dist by (simp add: mget_def)
  also have "\<dots> \<longleftrightarrow> (\<exists>r. (i, r) \<in> set (dbTransactions db) \<and> trConnectionId r = conn \<and> trData r = d)"
    by (auto simp: storedTransactions_def)
  finally show "mget (storedTransactions conn db) i = Some d \<longleftrightarrow>
      (\<exists>r. mget (dbTransactions db) i = Some r \<and> trConnectionId r = conn \<and> trData r = d)"
    using assms by (simp add: mget_def mkeys_def)
qed

lemma fold_replaceStoredIndex_fresh:
  fixes s :: "'a promotion_state_scheme"
  assumes "distinct (map fst es)" "\<forall>e \<in> set es. \<not> mhas (storedById s) (fst e)"
  shows "fold (\<lambda>(i, d) s. replaceStoredIndex i d s) es s =
    s\<lparr>storedById := storedById s @ es,
      rowIdsByCanonical := fold (\<lambda>(i, d) m. addCanonicalOwner i d m) es (rowIdsByCanonical s)\<rparr>"
  using assms
proof (induction es arbitrary: s)
  case (Cons e es)
  obtain i d where e: "e = (i, d)" by (cases e)
  have fresh: "\<not> mhas (storedById s) i" using Cons.prems(2) e by simp
  then have one: "replaceStoredIndex i d s =
      s\<lparr>storedById := storedById s @ [(i, d)], rowIdsByCanonical := addCanonicalOwner i d (rowIdsByCanonical s)\<rparr>"
    by (simp add: replaceStoredIndex_def mhas_def mput_fresh Let_def)
  have "\<forall>e' \<in> set es. \<not> mhas (storedById (replaceStoredIndex i d s)) (fst e')"
  proof
    fix e' assume e': "e' \<in> set es"
    with Cons.prems(1) e have "fst e' \<noteq> i" by (auto simp: image_iff)
    with Cons.prems(2) e' show "\<not> mhas (storedById (replaceStoredIndex i d s)) (fst e')" by simp
  qed
  from Cons.IH [OF _ this] Cons.prems(1) e show ?case by (simp add: one)
qed simp

lemma mget_claimedByOccurrence:
  assumes "distinct (mkeys (dbOccurrences db))" "oc \<in> set occs"
  shows "mget (claimedByOccurrence conn scope occs db) oc = mget (dbOccurrences db) (conn, scope, oc)"
proof -
  have "mget (fold (\<lambda>((c, sc, oc), t) m. if c = conn \<and> sc = scope \<and> oc \<in> set occs then mput oc t m else m) es m) oc =
      (case map_of es (conn, scope, oc) of Some t \<Rightarrow> Some t | None \<Rightarrow> mget m oc)"
    if "distinct (map fst es)" for es m
    using that
  proof (induction es arbitrary: m)
    case (Cons e es)
    obtain c sc o' t where e: "e = ((c, sc, o'), t)" by (cases e) auto
    have "map_of es (c, sc, o') = None" using Cons.prems e by (auto simp: map_of_eq_None_iff)
    with Cons e assms(2) show ?case by (auto split: option.splits)
  qed simp
  from this [of "dbOccurrences db" "[]"] assms(1) show ?thesis
    by (simp add: claimedByOccurrence_def mget_def [of "dbOccurrences db"] mkeys_def split: option.splits)
qed

lemma initialStoreState_eq:
  assumes "distinct (mkeys (dbTransactions db))"
  shows "initialStoreState conn scope valid db =
    \<lparr>storedById = storedTransactions conn db,
     rowIdsByCanonical = fold (\<lambda>(i, d) m. addCanonicalOwner i d m) (storedTransactions conn db) [],
     seenOccurrenceIds = [],
     occurrenceClaims = claimedByOccurrence conn scope (sfrom (filter (\<lambda>oc. oc \<noteq> []) (map occurrenceOf valid))) db,
     transactionsStored = 0, transactionsAdded = 0, transactionsModified = 0, transactionsDropped = 0,
     newestBookingDate = None, sdb = db\<rparr>"
  unfolding initialStoreState_def
  by (subst fold_replaceStoredIndex_fresh [OF storedTransactions_rows(1) [OF assms]]) simp_all

lemma initialRows_of:
  "initialRows (piExistingTransactions (planInputOf input scope valid db)) =
     fold (\<lambda>(i, d) m. addCanonicalOwner i d m) (storedTransactions (siConnectionId input) db) []"
  by (simp add: initialRows_def planInputOf_def fold_map comp_def case_prod_beta')

lemma distinct_claimedByOccurrence: "distinct (mkeys (claimedByOccurrence conn scope occs db))"
proof -
  have "distinct (mkeys m) \<Longrightarrow> distinct (mkeys (fold (\<lambda>((c, sc, oc), t) m.
      if c = conn \<and> sc = scope \<and> oc \<in> set occs then mput oc t m else m) es m))" for es and m :: "string jsmap"
    by (induction es arbitrary: m) auto
  then show ?thesis by (simp add: claimedByOccurrence_def mkeys_def)
qed

lemma initial_sameBase:
  assumes "distinct (mkeys (dbTransactions db))"
  shows "sameBase (initialPlanState (planInputOf input scope valid db))
    (initialStoreState (siConnectionId input) scope valid db)"
proof -
  have "map (\<lambda>r. (exId r, exData r)) (piExistingTransactions (planInputOf input scope valid db))
      = storedTransactions (siConnectionId input) db"
    by (simp add: planInputOf_def comp_def case_prod_beta')
  moreover have "mfrom (claimedByOccurrence conn scope occs db) = claimedByOccurrence conn scope occs db" for conn scope occs
    using distinct_claimedByOccurrence by (simp add: mfrom_distinct mkeys_def)
  ultimately show ?thesis
    by (simp add: sameBase_def initialPlanState_def initialStoreState_eq [OF assms] initialRows_of
        mfrom_distinct [OF storedTransactions_rows(1) [OF assms]]) (simp add: planInputOf_def)
qed

lemma contexts_agree:
  assumes "distinct (mkeys (dbTransactions db))"
  shows "storeContext input scope valid db (initialStoreState (siConnectionId input) scope valid db) f =
    planContext sha (planInputOf input scope valid db) valid
      (initialRows (piExistingTransactions (planInputOf input scope valid db))) f"
proof -
  let ?rows = "storedTransactions (siConnectionId input) db"
  have "mfrom (map (\<lambda>r. (exId r, str_field ''providerAccountId'' (exData r)))
      (piExistingTransactions (planInputOf input scope valid db)))
      = mfrom (map (\<lambda>(i, d). (i, str_field ''providerAccountId'' d)) ?rows)"
    by (simp add: planInputOf_def comp_def case_prod_beta')
  also have "\<dots> = map (\<lambda>(i, d). (i, str_field ''providerAccountId'' d)) ?rows"
    using storedTransactions_rows(1) [OF assms, of "siConnectionId input"]
    by (intro mfrom_distinct) (simp add: comp_def case_prod_beta')
  finally show ?thesis
    by (simp add: storeContext_def planContext_def Let_def initialStoreState_eq [OF assms] initialRows_of)
      (simp add: planInputOf_def)
qed

lemma target_is_stored:
  assumes "distinct (mkeys (dbTransactions db))"
    and "authoritativeTarget (planContext sha (planInputOf input scope valid db) valid rows f) t = Some i"
  shows "\<exists>d. mget (storedTransactions (siConnectionId input) db) i = Some d"
proof -
  let ?rows = "map (\<lambda>(i, d). (i, str_field ''providerAccountId'' d)) (storedTransactions (siConnectionId input) db)"
  have "map (\<lambda>r. (exId r, str_field ''providerAccountId'' (exData r))) (piExistingTransactions (planInputOf input scope valid db))
      = ?rows" by (simp add: planInputOf_def comp_def case_prod_beta')
  moreover have "mfrom ?rows = ?rows"
    using storedTransactions_rows(1) [OF assms(1), of "siConnectionId input"]
    by (intro mfrom_distinct) (simp add: comp_def case_prod_beta')
  ultimately obtain account where "mget ?rows i = Some account"
    using authoritativeTarget_candidate [OF assms(2)] by auto
  then show ?thesis by (auto simp: mget_def map_of_map_val)
qed

definition demoDb :: database where
  "demoDb = \<lparr>dbAccounts = [],
     dbTransactions = [(''r1'', \<lparr>trConnectionId = ''c'', trData = exData demoRow, trCreatedAt = 0, trUpdatedAt = 0\<rparr>),
       (''r9'', \<lparr>trConnectionId = ''other'', trData = exData demoRow, trCreatedAt = 0, trUpdatedAt = 0\<rparr>)],
     dbPositions = [],
     dbTargets = [\<lparr>tgSessionId = ''s'', tgProviderAccountId = Some ''a'', tgCanonicalId = ''T1'', tgTransactionId = ''r1''\<rparr>],
     dbOccurrences = []\<rparr>"

definition demoStoreInput :: store_input where
  "demoStoreInput = \<lparr>siConnectionId = ''c'', siSessionId = Some ''s'', siAccounts = [],
     siTransactions = [demoUpdate], siPositions = [], siRecentlySentUpdateTargets = []\<rparr>"

definition demoValid :: "jobj list" where
  "demoValid = (case demoUpdate of JObj d \<Rightarrow> [d] | _ \<Rightarrow> [])"

section \<open>Properties\<close>



end
