(* ===== verification/SessionLock.thy ===== *)
theory SessionLock
  imports CrawlBookkeeping StoreResults
begin

text \<open>
  \<^verbatim>\<open>apps/control-plane/src/data/sessions.ts\<close> and \<^verbatim>\<open>cancel-session.ts\<close>, with the session part of
  \<^verbatim>\<open>scheduling/scheduler.ts\<close>: the life cycle of a crawl session, which is also the lock that keeps a
  second crawl of the same connection from starting. The lock is the partial unique index
  \<^verbatim>\<open>sessions_active_connection_uq\<close>: an insert conflicts with any session of the same connection in a
  locked status. The tables are maps by primary key, an update statement changes every row its
  \<^verbatim>\<open>where\<close> clause accepts, and each operation takes the current time as an argument.
\<close>

section \<open>State\<close>

datatype session_status =
  Starting | LoggingIn | Navigating | WaitingForOtp | Extracting | Cancelling | Completed | Failed | Cancelled

datatype job_status = Queued | JobStarting | Running | Succeeded | JobFailed | CancelRequested | JobCancelled

record session =
  ssConnectionId :: string
  ssStatus :: session_status
  ssLeaseOwner :: "string option"
  ssLeaseExpiresAt :: "millis option"
  ssHeartbeatAt :: "millis option"
  ssExpiresAt :: "millis option"
  ssPromotionReadyAt :: "millis option"
  ssCompletedAt :: "millis option"
  ssError :: "string option"
  ssFailureReason :: "failure_reason option"
  ssTotalCostUsd :: "rat option"
  ssCrawlMemory :: "string option"

record crawl_job =
  jbSessionId :: string
  jbStatus :: job_status
  jbLeaseExpiresAt :: "millis option"
  jbCreatedAt :: millis
  jbCompletedAt :: "millis option"
  jbError :: "string option"
  jbEncryptedPayload :: string
  jbClaimToken :: string

record session_event =
  evSessionId :: string
  evType :: string
  evSuccess :: bool

datatype staged_kind = StagedAccount | StagedTransaction | StagedPosition

record staged_record =
  stId :: string
  stSessionId :: string
  stKind :: staged_kind
  stData :: json

record world =
  wConnections :: connections
  wDue :: "millis jsmap"
  wSessions :: "session jsmap"
  wJobs :: "crawl_job jsmap"
  wEvents :: "session_event list"
  wStaged :: "staged_record list"
  wDb :: database

definition ACTIVE_SESSION_STATUSES :: "session_status list" where
  "ACTIVE_SESSION_STATUSES = [Starting, LoggingIn, Navigating, WaitingForOtp, Extracting]"

definition LOCKED_SESSION_STATUSES :: "session_status list" where
  "LOCKED_SESSION_STATUSES = ACTIVE_SESSION_STATUSES @ [Cancelling]"

abbreviation active :: "session \<Rightarrow> bool" where
  "active s \<equiv> ssStatus s \<in> set ACTIVE_SESSION_STATUSES"

abbreviation locked :: "session \<Rightarrow> bool" where
  "locked s \<equiv> ssStatus s \<in> set LOCKED_SESSION_STATUSES"

definition before :: "millis option \<Rightarrow> millis \<Rightarrow> bool" where
  "before t now = (case t of Some x \<Rightarrow> x < now | None \<Rightarrow> False)"

definition absentOrBefore :: "millis option \<Rightarrow> millis \<Rightarrow> bool" where
  "absentOrBefore t now = (t = None \<or> before t now)"

text \<open>\<^verbatim>\<open>update sessions set f where p\<close>; \<open>matching\<close> is its \<^verbatim>\<open>returning id\<close>.\<close>

definition updateSessions ::
  "(string \<Rightarrow> session \<Rightarrow> bool) \<Rightarrow> (session \<Rightarrow> session) \<Rightarrow> world \<Rightarrow> world" where
  "updateSessions p f w = w\<lparr>wSessions := map (\<lambda>(i, s). (i, if p i s then f s else s)) (wSessions w)\<rparr>"

definition matching :: "(string \<Rightarrow> 'r \<Rightarrow> bool) \<Rightarrow> 'r jsmap \<Rightarrow> string list" where
  "matching p rows = map fst (filter (\<lambda>(i, r). p i r) rows)"

definition updateJobs :: "(crawl_job \<Rightarrow> bool) \<Rightarrow> (crawl_job \<Rightarrow> crawl_job) \<Rightarrow> world \<Rightarrow> world" where
  "updateJobs p f w = w\<lparr>wJobs := map (\<lambda>(i, j). (i, if p j then f j else j)) (wJobs w)\<rparr>"

section \<open>Acquiring the lock\<close>

record create_session_input =
  csConnectionId :: string
  csLeaseOwner :: string
  csLeaseMs :: millis
  csExpectedScheduleRevision :: "nat option"
  csExpectedScheduleClaim :: "string option"

definition DAY_MS :: millis where
  "DAY_MS = 24 * 60 * 60 * 1000"

text \<open>\<^verbatim>\<open>SESSION_RETENTION_DAYS\<close> as the environment parses to: \<open>None\<close> when it is not a number.\<close>

definition sessionRetentionDays :: "int option \<Rightarrow> int" where
  "sessionRetentionDays env = (case env of Some n \<Rightarrow> if n > 0 then n else 30 | None \<Rightarrow> 30)"

definition holdsLock :: "string \<Rightarrow> world \<Rightarrow> bool" where
  "holdsLock conn w = (\<exists>(i, s) \<in> set (wSessions w). ssConnectionId s = conn \<and> locked s)"

definition scheduleFenceOk :: "create_session_input \<Rightarrow> world \<Rightarrow> bool" where
  "scheduleFenceOk input w =
     (case csExpectedScheduleRevision input of
        None \<Rightarrow> True
      | Some revision \<Rightarrow>
          (case mget (wConnections w) (csConnectionId input) of
             None \<Rightarrow> False
           | Some c \<Rightarrow> cnScheduleEnabled c \<and> cnScheduleRevision c = revision
               \<and> truthy (csExpectedScheduleClaim input) \<and> cnScheduleClaim c = csExpectedScheduleClaim input))"

definition newSession :: "int option \<Rightarrow> millis \<Rightarrow> create_session_input \<Rightarrow> session" where
  "newSession env now input =
     \<lparr>ssConnectionId = csConnectionId input, ssStatus = Starting,
      ssLeaseOwner = Some (csLeaseOwner input), ssLeaseExpiresAt = Some (now + csLeaseMs input),
      ssHeartbeatAt = Some now, ssExpiresAt = Some (now + sessionRetentionDays env * DAY_MS),
      ssPromotionReadyAt = None, ssCompletedAt = None, ssError = None, ssFailureReason = None,
      ssTotalCostUsd = None, ssCrawlMemory = None\<rparr>"

text \<open>\<open>newId\<close> is the row id the database generates; a conflict with any unique key inserts nothing.\<close>

definition createCrawlSession ::
  "int option \<Rightarrow> string \<Rightarrow> millis \<Rightarrow> create_session_input \<Rightarrow> world \<Rightarrow> world \<times> string option" where
  "createCrawlSession env newId now input w =
     (if \<not> scheduleFenceOk input w then (w, None)
      else if holdsLock (csConnectionId input) w \<or> mhas (wSessions w) newId then (w, None)
      else
        let w' = w\<lparr>wSessions := mput newId (newSession env now input) (wSessions w)\<rparr>;
            w'' = (if csExpectedScheduleRevision input \<noteq> None
                   then w'\<lparr>wConnections := updateConnection (csConnectionId input)
                           (\<lambda>c. cnScheduleClaim c = csExpectedScheduleClaim input)
                           (\<lambda>c. c\<lparr>cnScheduleClaim := None\<rparr>) (wConnections w')\<rparr>
                   else w')
        in (w'', Some newId))"

definition restoreStaleScheduleClaim ::
  "millis \<Rightarrow> string \<Rightarrow> nat \<Rightarrow> string \<Rightarrow> conn_status \<Rightarrow> world \<Rightarrow> world \<times> bool" where
  "restoreStaleScheduleClaim now conn expectedRevision expectedClaim priorStatus w =
     (case mget (wConnections w) conn of
        None \<Rightarrow> (w, False)
      | Some c \<Rightarrow>
          if (cnScheduleClaim c \<noteq> None \<and> cnScheduleClaim c \<noteq> Some expectedClaim)
             \<or> (cnScheduleEnabled c \<and> cnScheduleRevision c = expectedRevision)
             \<or> cnStatus c \<noteq> Syncing
          then (w, False)
          else if holdsLock conn w then (w, False)
          else (w\<lparr>wConnections := updateConnection conn (\<lambda>c. cnStatus c = Syncing)
                    (\<lambda>c. c\<lparr>cnStatus := priorStatus, cnUpdatedAt := now\<rparr>) (wConnections w)\<rparr>, True))"

section \<open>Releasing the lock\<close>

definition markSessionTerminal ::
  "millis \<Rightarrow> string \<Rightarrow> bool \<Rightarrow> string option \<Rightarrow> world \<Rightarrow> world" where
  "markSessionTerminal now sid success err w =
     updateSessions (\<lambda>i s. i = sid \<and> active s)
       (\<lambda>s. s\<lparr>ssStatus := (if success then Completed else Failed),
               ssError := (if truthy err then map_option (take 500) err else None),
               ssCompletedAt := Some now\<rparr>) w"

definition heartbeatSession :: "millis \<Rightarrow> string \<Rightarrow> millis \<Rightarrow> world \<Rightarrow> world" where
  "heartbeatSession now sid leaseMs w =
     updateSessions (\<lambda>i s. i = sid)
       (\<lambda>s. s\<lparr>ssHeartbeatAt := Some now, ssLeaseExpiresAt := Some (now + leaseMs)\<rparr>) w"

definition hasDoneEvent :: "string \<Rightarrow> world \<Rightarrow> bool" where
  "hasDoneEvent sid w = (\<exists>e \<in> set (wEvents w). evSessionId e = sid \<and> evType e = ''done'')"

definition staleSession :: "millis \<Rightarrow> millis \<Rightarrow> world \<Rightarrow> string \<Rightarrow> session \<Rightarrow> bool" where
  "staleSession staleMs now w i s =
     (active s \<and> before (ssHeartbeatAt s) (now - staleMs)
      \<and> absentOrBefore (ssLeaseExpiresAt s) now \<and> \<not> hasDoneEvent i w)"

definition reapStaleSessions :: "millis \<Rightarrow> millis \<Rightarrow> world \<Rightarrow> world \<times> (string \<times> string) list" where
  "reapStaleSessions staleMs now w =
     (updateSessions (staleSession staleMs now w)
        (\<lambda>s. s\<lparr>ssStatus := Failed, ssError := Some ''reaped: stale heartbeat (engine instance died)'',
                ssCompletedAt := Some now\<rparr>) w,
      map (\<lambda>(i, s). (i, ssConnectionId s)) (filter (\<lambda>(i, s). staleSession staleMs now w i s) (wSessions w)))"

section \<open>Cancellation\<close>

datatype cancellation_result =
  CancellationRequested | AlreadyCancelling | AlreadyCancelled | NotFound | AlreadyTerminal

definition requestSessionCancellation :: "string \<Rightarrow> world \<Rightarrow> world \<times> cancellation_result" where
  "requestSessionCancellation sid w =
     (case mget (wSessions w) sid of
        None \<Rightarrow> (w, NotFound)
      | Some s \<Rightarrow>
          if ssStatus s = Cancelling then (w, AlreadyCancelling)
          else if ssStatus s = Cancelled then (w, AlreadyCancelled)
          else if \<not> active s \<or> ssPromotionReadyAt s \<noteq> None then (w, AlreadyTerminal)
          else if \<exists>e \<in> set (wEvents w). evSessionId e = sid \<and> evType e = ''done'' \<and> evSuccess e then (w, AlreadyTerminal)
          else (updateSessions (\<lambda>i s. i = sid \<and> active s \<and> ssPromotionReadyAt s = None)
                  (\<lambda>s. s\<lparr>ssStatus := Cancelling, ssError := None\<rparr>) w, CancellationRequested))"

definition finalizeSessionCancellation :: "millis \<Rightarrow> string \<Rightarrow> world \<Rightarrow> world \<times> bool" where
  "finalizeSessionCancellation now sid w =
     (updateSessions (\<lambda>i s. i = sid \<and> ssStatus s = Cancelling)
        (\<lambda>s. s\<lparr>ssStatus := Cancelled, ssError := None, ssCompletedAt := Some now\<rparr>) w,
      matching (\<lambda>i s. i = sid \<and> ssStatus s = Cancelling) (wSessions w) \<noteq> [])"

definition finalizeSessionFailureAfterFence :: "millis \<Rightarrow> string \<Rightarrow> string \<Rightarrow> world \<Rightarrow> world \<times> bool" where
  "finalizeSessionFailureAfterFence now sid err w =
     (updateSessions (\<lambda>i s. i = sid \<and> ssStatus s = Cancelling)
        (\<lambda>s. s\<lparr>ssStatus := Failed, ssError := Some err, ssFailureReason := Some InstanceDied,
                ssCompletedAt := Some now\<rparr>) w,
      matching (\<lambda>i s. i = sid \<and> ssStatus s = Cancelling) (wSessions w) \<noteq> [])"

section \<open>Reaping worker jobs\<close>

definition sessionIs :: "(session \<Rightarrow> bool) \<Rightarrow> string \<Rightarrow> world \<Rightarrow> bool" where
  "sessionIs p sid w = (case mget (wSessions w) sid of Some s \<Rightarrow> p s | None \<Rightarrow> False)"

text \<open>The message shown to the operator; its typographic apostrophe is written as a plain one.\<close>

definition INTERRUPTED :: string where
  "INTERRUPTED = ''The crawl didn't start or was interrupted. Try running the crawl again.''"

definition closeJob :: "job_status \<Rightarrow> string \<Rightarrow> millis \<Rightarrow> crawl_job \<Rightarrow> crawl_job" where
  "closeJob status err now j =
     j\<lparr>jbStatus := status, jbError := Some err, jbCompletedAt := Some now, jbLeaseExpiresAt := None,
       jbEncryptedPayload := [], jbClaimToken := []\<rparr>"

definition cancelRequestedJob :: "millis \<Rightarrow> crawl_job \<Rightarrow> bool" where
  "cancelRequestedJob now j = (jbStatus j = CancelRequested \<and> absentOrBefore (jbLeaseExpiresAt j) now)"

definition staleJob :: "millis \<Rightarrow> millis \<Rightarrow> crawl_job \<Rightarrow> bool" where
  "staleJob startupCutoff now j =
     ((jbStatus j \<in> {Queued, JobStarting} \<and> jbCreatedAt j < startupCutoff)
      \<or> (jbStatus j = Running \<and> absentOrBefore (jbLeaseExpiresAt j) now))"

definition DEFAULT_STALE_SESSION_MS :: millis where
  "DEFAULT_STALE_SESSION_MS = 5 * 60 * 1000"

definition releasableCancelling :: "millis \<Rightarrow> world \<Rightarrow> string \<Rightarrow> session \<Rightarrow> bool" where
  "releasableCancelling now w i s =
     (ssStatus s = Cancelling
      \<and> ((\<exists>(k, j) \<in> set (wJobs w). jbSessionId j = i \<and> jbStatus j \<in> {Succeeded, JobFailed, JobCancelled})
         \<or> (\<not> (\<exists>(k, j) \<in> set (wJobs w). jbSessionId j = i)
            \<and> absentOrBefore (ssHeartbeatAt s) (now - DEFAULT_STALE_SESSION_MS)
            \<and> absentOrBefore (ssLeaseExpiresAt s) now)))"

definition reapStaleCrawlJobs :: "millis \<Rightarrow> millis \<Rightarrow> world \<Rightarrow> world \<times> nat" where
  "reapStaleCrawlJobs startupMs now w =
     (let w1 = updateJobs (\<lambda>j. jbStatus j \<in> {Queued, JobStarting, Running}
                 \<and> sessionIs (\<lambda>s. ssStatus s = Cancelling) (jbSessionId j) w)
                 (\<lambda>j. j\<lparr>jbStatus := CancelRequested\<rparr>) w;
          cancelled = map (\<lambda>(k, j). jbSessionId j) (filter (\<lambda>(k, j). cancelRequestedJob now j) (wJobs w1));
          w2 = updateJobs (cancelRequestedJob now) (closeJob JobCancelled ''cancelled by operator'' now) w1;
          w3 = fold (\<lambda>sid. updateSessions (\<lambda>i s. i = sid \<and> ssStatus s = Cancelling)
                 (\<lambda>s. s\<lparr>ssStatus := Cancelled, ssError := None, ssCompletedAt := Some now\<rparr>)) cancelled w2;
          stale = map (\<lambda>(k, j). jbSessionId j) (filter (\<lambda>(k, j). staleJob (now - startupMs) now j) (wJobs w3));
          w4 = updateJobs (staleJob (now - startupMs) now) (closeJob JobFailed INTERRUPTED now) w3;
          w5 = fold (\<lambda>sid. updateSessions (\<lambda>i s. i = sid \<and> active s)
                 (\<lambda>s. s\<lparr>ssStatus := Failed, ssError := Some INTERRUPTED, ssFailureReason := Some InstanceDied,
                         ssCompletedAt := Some now\<rparr>)) stale w4;
          w6 = updateSessions (releasableCancelling now w5)
                 (\<lambda>s. s\<lparr>ssStatus := Cancelled, ssError := None, ssCompletedAt := Some now\<rparr>) w5
      in (w6, length cancelled + length stale))"

definition sweepExpiredSessions :: "millis \<Rightarrow> world \<Rightarrow> world \<times> nat" where
  "sweepExpiredSessions now w =
     (let expired = matching (\<lambda>i s. before (ssExpiresAt s) now) (wSessions w) in
      (w\<lparr>wSessions := filter (\<lambda>(i, s). \<not> before (ssExpiresAt s) now) (wSessions w),
         wEvents := filter (\<lambda>e. evSessionId e \<notin> set expired) (wEvents w),
         wStaged := filter (\<lambda>r. stSessionId r \<notin> set expired) (wStaged w),
         wJobs := filter (\<lambda>(k, j). jbSessionId j \<notin> set expired) (wJobs w)\<rparr>,
       length expired))"

section \<open>The life cycle as a step relation\<close>

text \<open>
  Everything that touches the sessions table. \<open>progress\<close> is the engine's own status report, which
  the database only accepts from and to an active status.
\<close>

definition progressSession :: "string \<Rightarrow> session_status \<Rightarrow> millis option \<Rightarrow> world \<Rightarrow> world" where
  "progressSession sid status ready w =
     updateSessions (\<lambda>i s. i = sid \<and> active s) (\<lambda>s. s\<lparr>ssStatus := status, ssPromotionReadyAt := ready\<rparr>) w"

inductive session_step :: "world \<Rightarrow> world \<Rightarrow> bool" where
  create: "session_step w (fst (createCrawlSession env newId now input w))"
| progress: "status \<in> set ACTIVE_SESSION_STATUSES \<Longrightarrow> session_step w (progressSession sid status ready w)"
| terminal: "session_step w (markSessionTerminal now sid success err w)"
| heartbeat: "session_step w (heartbeatSession now sid leaseMs w)"
| reap: "session_step w (fst (reapStaleSessions staleMs now w))"
| request_cancel: "session_step w (fst (requestSessionCancellation sid w))"
| finish_cancel: "session_step w (fst (finalizeSessionCancellation now sid w))"
| finish_failure: "session_step w (fst (finalizeSessionFailureAfterFence now sid err w))"
| reap_jobs: "session_step w (fst (reapStaleCrawlJobs startupMs now w))"
| sweep: "session_step w (fst (sweepExpiredSessions now w))"
| elsewhere: "wSessions w' = wSessions w \<Longrightarrow> session_step w w'"

definition lockInv :: "world \<Rightarrow> bool" where
  "lockInv w =
     (distinct (mkeys (wSessions w))
      \<and> (\<forall>i s j t. mget (wSessions w) i = Some s \<longrightarrow> mget (wSessions w) j = Some t \<longrightarrow>
           locked s \<longrightarrow> locked t \<longrightarrow> ssConnectionId s = ssConnectionId t \<longrightarrow> i = j))"

definition releases :: "(string \<Rightarrow> session \<Rightarrow> bool) \<Rightarrow> (session \<Rightarrow> session) \<Rightarrow> bool" where
  "releases p f =
     (\<forall>i s. p i s \<longrightarrow> ssConnectionId (f s) = ssConnectionId s \<and> (locked (f s) \<longrightarrow> locked s)
        \<and> (\<not> locked s \<longrightarrow> ssStatus (f s) = ssStatus s))"

lemma locked_simps:
  "st \<in> set LOCKED_SESSION_STATUSES \<longleftrightarrow> st \<notin> {Completed, Failed, Cancelled}"
  "st \<in> set ACTIVE_SESSION_STATUSES \<longleftrightarrow> st \<notin> {Cancelling, Completed, Failed, Cancelled}"
  by (cases st; simp add: LOCKED_SESSION_STATUSES_def ACTIVE_SESSION_STATUSES_def)+

lemma mget_updateSessions:
  "mget (wSessions (updateSessions p f w)) i = map_option (\<lambda>s. if p i s then f s else s) (mget (wSessions w) i)"
  unfolding updateSessions_def mget_def by (simp add: map_of_map_val [where f = "\<lambda>i s. if p i s then f s else s"])

lemma mkeys_updateSessions [simp]: "mkeys (wSessions (updateSessions p f w)) = mkeys (wSessions w)"
  by (simp add: updateSessions_def mkeys_def comp_def case_prod_beta')

lemma lockInv_update [inv_intros]:
  assumes "lockInv w" "releases p f"
  shows "lockInv (updateSessions p f w)"
proof -
  let ?g = "\<lambda>i s. if p i s then f s else s"
  have keep: "ssConnectionId (?g i s) = ssConnectionId s" "locked (?g i s) \<Longrightarrow> locked s" for i s
    using assms(2) by (auto simp: releases_def split: if_splits)
  show ?thesis unfolding lockInv_def
  proof (intro conjI allI impI)
    show "distinct (mkeys (wSessions (updateSessions p f w)))" using assms(1) by (simp add: lockInv_def)
  next
    fix i s j t
    assume a: "mget (wSessions (updateSessions p f w)) i = Some s" "mget (wSessions (updateSessions p f w)) j = Some t"
      "locked s" "locked t" "ssConnectionId s = ssConnectionId t"
    obtain s0 where s0: "mget (wSessions w) i = Some s0" "s = ?g i s0" using a(1) by (auto simp: mget_updateSessions)
    obtain t0 where t0: "mget (wSessions w) j = Some t0" "t = ?g j t0" using a(2) by (auto simp: mget_updateSessions)
    have "locked s0" "locked t0" "ssConnectionId s0 = ssConnectionId t0"
      using a(3-5) s0(2) t0(2) keep [of i s0] keep [of j t0] by simp_all
    with s0(1) t0(1) assms(1) show "i = j" by (simp add: lockInv_def)
  qed
qed

lemma lockInv_frame [simp]: "lockInv (w\<lparr>wConnections := c\<rparr>) = lockInv w" "lockInv (updateJobs q g w) = lockInv w"
  by (simp_all add: lockInv_def updateJobs_def)

lemma lockInv_fold_update:
  "lockInv w \<Longrightarrow> (\<And>x. x \<in> set xs \<Longrightarrow> releases (p x) f) \<Longrightarrow> lockInv (fold (\<lambda>x. updateSessions (p x) f) xs w)"
  by (induction xs arbitrary: w) (auto intro: lockInv_update)

lemma holdsLock_mget:
  assumes "distinct (mkeys (wSessions w))"
  shows "holdsLock conn w \<longleftrightarrow> (\<exists>i s. mget (wSessions w) i = Some s \<and> ssConnectionId s = conn \<and> locked s)"
  using assms by (auto simp: holdsLock_def mget_def mkeys_def)

lemma lockInv_create [inv_intros]:
  assumes "lockInv w" shows "lockInv (fst (createCrawlSession env newId now input w))"
proof -
  have dist: "distinct (mkeys (wSessions w))" using assms by (simp add: lockInv_def)
  have "lockInv (w\<lparr>wSessions := mput newId (newSession env now input) (wSessions w)\<rparr>)"
    if free: "\<not> holdsLock (csConnectionId input) w"
    using assms free dist by (auto simp: lockInv_def holdsLock_mget [OF dist] newSession_def)
  then show ?thesis using assms by (simp add: createCrawlSession_def Let_def)
qed

lemmas release_defs = releases_def locked_simps

lemma lockInv_reap_jobs [inv_intros]:
  assumes "lockInv w" shows "lockInv (fst (reapStaleCrawlJobs startupMs now w))"
  unfolding reapStaleCrawlJobs_def Let_def fst_conv
  by (intro lockInv_update lockInv_fold_update)
    (auto simp: assms release_defs releasableCancelling_def intro!: lockInv_fold_update)

lemma lockInv_sweep [inv_intros]:
  assumes "lockInv w" shows "lockInv (fst (sweepExpiredSessions now w))"
proof -
  let ?w = "filter (\<lambda>(i, s). \<not> before (ssExpiresAt s) now) (wSessions w)"
  have dist: "distinct (mkeys (wSessions w))" using assms by (simp add: lockInv_def)
  then have dist': "distinct (mkeys ?w)" by (simp add: mkeys_def distinct_map_filter)
  have "mget ?w i = Some s \<Longrightarrow> mget (wSessions w) i = Some s" for i s
    using dist dist' by (auto simp: mget_def mkeys_def)
  with assms dist' show ?thesis
    by (auto simp: sweepExpiredSessions_def Let_def lockInv_def)
qed

lemma lockInv_step [inv_intros]: "session_step w w' \<Longrightarrow> lockInv w \<Longrightarrow> lockInv w'"
proof (induction rule: session_step.induct)
  case (request_cancel w sid)
  then show ?case
    by (auto simp: requestSessionCancellation_def release_defs intro!: lockInv_update split: option.splits)
next
  case (elsewhere w' w)
  then show ?case by (simp add: lockInv_def)
qed (auto simp: progressSession_def markSessionTerminal_def heartbeatSession_def reapStaleSessions_def
      finalizeSessionCancellation_def finalizeSessionFailureAfterFence_def release_defs staleSession_def
      intro!: inv_intros)

interpretation session_lock: safety_invariant "\<lambda>w. wSessions w = []" session_step lockInv
proof
  show "wSessions w = [] \<Longrightarrow> lockInv w" for w by (simp add: lockInv_def mkeys_def)
  show "lockInv w \<Longrightarrow> session_step w w' \<Longrightarrow> lockInv w'" for w w' by (rule lockInv_step)
qed

section \<open>Terminal outcomes are final\<close>

definition keepsTerminal :: "world \<Rightarrow> world \<Rightarrow> bool" where
  "keepsTerminal w w' =
     (\<forall>i s. mget (wSessions w) i = Some s \<longrightarrow> \<not> locked s \<longrightarrow>
        (\<exists>s'. mget (wSessions w') i = Some s' \<and> ssStatus s' = ssStatus s))"

lemma keepsTerminal_refl [simp]: "keepsTerminal w w"
  by (simp add: keepsTerminal_def)

lemma keepsTerminal_trans: "keepsTerminal u v \<Longrightarrow> keepsTerminal v w \<Longrightarrow> keepsTerminal u w"
  unfolding keepsTerminal_def by metis

lemma keepsTerminal_update: "releases p f \<Longrightarrow> keepsTerminal w (updateSessions p f w)"
  by (auto simp: keepsTerminal_def mget_updateSessions releases_def)

lemma keepsTerminal_jobs: "keepsTerminal w (updateJobs q g w)"
  by (simp add: keepsTerminal_def updateJobs_def)

lemma keepsTerminal_fold:
  "(\<And>x. x \<in> set xs \<Longrightarrow> releases (p x) f) \<Longrightarrow> keepsTerminal w (fold (\<lambda>x. updateSessions (p x) f) xs w)"
proof (induction xs arbitrary: w)
  case (Cons x xs)
  have "keepsTerminal w (updateSessions (p x) f w)" using Cons.prems by (intro keepsTerminal_update) simp
  then show ?case using Cons by (auto intro: keepsTerminal_trans)
qed simp

lemma keepsTerminal_reap_jobs: "keepsTerminal w (fst (reapStaleCrawlJobs startupMs now w))"
  unfolding reapStaleCrawlJobs_def Let_def fst_conv
  by (rule keepsTerminal_trans [OF _ keepsTerminal_update],
      rule keepsTerminal_trans [OF _ keepsTerminal_fold],
      rule keepsTerminal_trans [OF _ keepsTerminal_jobs],
      rule keepsTerminal_trans [OF _ keepsTerminal_fold],
      rule keepsTerminal_trans [OF keepsTerminal_jobs keepsTerminal_jobs])
    (auto simp: release_defs releasableCancelling_def)

text \<open>Every step but the retention sweep, which removes whole rows.\<close>

lemma keepsTerminal_step:
  "session_step w w' \<Longrightarrow> keepsTerminal w w' \<or> (\<exists>now. w' = fst (sweepExpiredSessions now w))"
proof (induction rule: session_step.induct)
  case (create w env newId now input)
  have "keepsTerminal w (w\<lparr>wSessions := mput newId (newSession env now input) (wSessions w)\<rparr>)" if "\<not> mhas (wSessions w) newId"
    using that by (auto simp: keepsTerminal_def mhas_def)
  then show ?case by (auto simp: createCrawlSession_def Let_def keepsTerminal_def)
next
  case (request_cancel w sid)
  then show ?case
    by (auto simp: requestSessionCancellation_def release_defs intro!: keepsTerminal_update split: option.splits)
next
  case (reap_jobs w startupMs now)
  then show ?case by (simp add: keepsTerminal_reap_jobs)
next
  case (elsewhere w' w)
  then show ?case by (simp add: keepsTerminal_def)
next
  case (sweep w now)
  then show ?case by blast
qed (auto simp: progressSession_def markSessionTerminal_def heartbeatSession_def reapStaleSessions_def
      finalizeSessionCancellation_def finalizeSessionFailureAfterFence_def release_defs staleSession_def
      intro!: keepsTerminal_update)

section \<open>Properties\<close>

definition demoWorld :: world where
  "demoWorld = \<lparr>wConnections = [(''k'', demoConnection\<lparr>cnScheduleClaim := Some ''claim''\<rparr>)], wDue = [], wSessions = [],
     wJobs = [], wEvents = [], wStaged = [], wDb = demoDb\<rparr>"

definition demoCreate :: create_session_input where
  "demoCreate = \<lparr>csConnectionId = ''k'', csLeaseOwner = ''me'', csLeaseMs = 1000,
     csExpectedScheduleRevision = Some 1, csExpectedScheduleClaim = Some ''claim''\<rparr>"

text \<open>
  C3: One crawl per connection. In every state reachable from an empty sessions table by creating,
  progressing, finishing, heartbeating, reaping, cancelling, sweeping and job reaping, in any order
  and with any times, two sessions that hold the lock of the same connection are the same session.
\<close>

theorem one_crawl_per_connection:
  assumes "wSessions w0 = []" "session_step\<^sup>*\<^sup>* w0 w"
    and "mget (wSessions w) i = Some s" "mget (wSessions w) j = Some t"
    and "ssStatus s \<in> set LOCKED_SESSION_STATUSES" "ssStatus t \<in> set LOCKED_SESSION_STATUSES"
    and "ssConnectionId s = ssConnectionId t"
  shows "i = j"
  using session_lock.reachable_inv [OF assms(1,2)] assms(3-) by (simp add: lockInv_def)

theorem one_crawl_per_connection_witness:
  "\<exists>w. session_step\<^sup>*\<^sup>* demoWorld w \<and> (\<exists>s. mget (wSessions w) ''s1'' = Some s)
     \<and> (\<forall>i j s t. mget (wSessions w) i = Some s \<longrightarrow> mget (wSessions w) j = Some t \<longrightarrow>
          ssStatus s \<in> set LOCKED_SESSION_STATUSES \<longrightarrow> ssStatus t \<in> set LOCKED_SESSION_STATUSES \<longrightarrow>
          ssConnectionId s = ssConnectionId t \<longrightarrow> i = j)"
proof -
  let ?w = "fst (createCrawlSession None ''s1'' 0 demoCreate demoWorld)"
  have steps: "session_step\<^sup>*\<^sup>* demoWorld ?w" by (rule r_into_rtranclp) (rule session_step.create)
  have "\<exists>s. mget (wSessions ?w) ''s1'' = Some s"
    by (simp add: createCrawlSession_def demoCreate_def demoWorld_def scheduleFenceOk_def mget_Cons
        demoConnection_def holdsLock_def mhas_def Let_def)
  moreover have "wSessions demoWorld = []" by (simp add: demoWorld_def)
  ultimately show ?thesis using steps one_crawl_per_connection [OF _ steps] by blast
qed

text \<open>
  A recorded outcome is final. No operation changes the status of a session that is completed,
  failed or cancelled: a crawl that finishes after its cancellation cannot overwrite it, and a
  reaper cannot fail a finished session. The retention sweep may remove such a row, never rewrite it.
\<close>

theorem terminal_outcome_final:
  assumes "session_step w w'" "distinct (mkeys (wSessions w))"
    and "mget (wSessions w) i = Some s" "ssStatus s \<in> {Completed, Failed, Cancelled}"
    and "mget (wSessions w') i = Some s'"
  shows "ssStatus s' = ssStatus s"
proof -
  have t: "\<not> locked s" using assms(4) by (simp add: locked_simps)
  from keepsTerminal_step [OF assms(1)] show ?thesis
  proof
    assume "keepsTerminal w w'"
    with assms(3) t obtain r where "mget (wSessions w') i = Some r" "ssStatus r = ssStatus s"
      unfolding keepsTerminal_def by blast
    with assms(5) show ?thesis by simp
  next
    assume "\<exists>now. w' = fst (sweepExpiredSessions now w)"
    then obtain now where w': "wSessions w' = filter (\<lambda>(i, s). \<not> before (ssExpiresAt s) now) (wSessions w)"
      by (auto simp: sweepExpiredSessions_def Let_def)
    have "mget (wSessions w) i = Some s'"
      using assms(2,5) unfolding w' by (auto simp: mget_def mkeys_def dest!: map_of_SomeD)
    with assms(3) show ?thesis by simp
  qed
qed

theorem terminal_outcome_final_witness:
  "\<exists>s'. mget (wSessions (markSessionTerminal 9 ''s1'' True None (demoWorld\<lparr>wSessions :=
       [(''s1'', (newSession None 0 demoCreate)\<lparr>ssStatus := Cancelled\<rparr>)]\<rparr>))) ''s1'' = Some s' \<and> ssStatus s' = Cancelled"
proof -
  let ?s = "(newSession None 0 demoCreate)\<lparr>ssStatus := Cancelled\<rparr>"
  let ?w = "demoWorld\<lparr>wSessions := [(''s1'', ?s)]\<rparr>"
  have "mget (wSessions ?w) ''s1'' = Some ?s" and "distinct (mkeys (wSessions ?w))" by (simp_all add: mget_Cons mkeys_def)
  note final = terminal_outcome_final [OF session_step.terminal [of ?w 9 "''s1''" True None] this(2,1)]
  have "\<exists>s'. mget (wSessions (markSessionTerminal 9 ''s1'' True None ?w)) ''s1'' = Some s'"
    by (simp add: markSessionTerminal_def mget_updateSessions mget_Cons)
  then show ?thesis using final by auto
qed

text \<open>
  A scheduled occurrence starts at most one crawl. When a scheduled job creates its session, it
  consumes the occurrence token on the connection; any later attempt with the same token fails,
  even after the first session is gone and whatever happened to the sessions table.
\<close>

theorem schedule_claim_single_use:
  assumes "createCrawlSession env newId now input w = (w', Some i)"
    and "csExpectedScheduleRevision input \<noteq> None" and "wConnections w2 = wConnections w'"
    and "csConnectionId again = csConnectionId input" "csExpectedScheduleRevision again \<noteq> None"
  shows "createCrawlSession env' newId' now' again w2 = (w2, None)"
proof -
  from assms(1,2) obtain c where c: "mget (wConnections w) (csConnectionId input) = Some c"
    and claim: "truthy (csExpectedScheduleClaim input)" "cnScheduleClaim c = csExpectedScheduleClaim input"
    and w': "wConnections w' = updateConnection (csConnectionId input) (\<lambda>c. cnScheduleClaim c = csExpectedScheduleClaim input)
        (\<lambda>c. c\<lparr>cnScheduleClaim := None\<rparr>) (wConnections w)"
    by (auto simp: createCrawlSession_def scheduleFenceOk_def Let_def split: if_splits option.splits)
  then have "\<exists>c'. mget (wConnections w2) (csConnectionId again) = Some c' \<and> cnScheduleClaim c' = None"
    by (simp add: assms(3,4) mget_updateConnection)
  then have "\<not> scheduleFenceOk again w2"
    using assms(5) by (auto simp: scheduleFenceOk_def elim: truthyE)
  then show ?thesis by (simp add: createCrawlSession_def)
qed

theorem schedule_claim_single_use_witness:
  "snd (createCrawlSession None ''s1'' 0 demoCreate demoWorld) = Some ''s1''
   \<and> createCrawlSession None ''s2'' 5 demoCreate ((fst (createCrawlSession None ''s1'' 0 demoCreate demoWorld))\<lparr>wSessions := []\<rparr>)
     = ((fst (createCrawlSession None ''s1'' 0 demoCreate demoWorld))\<lparr>wSessions := []\<rparr>, None)"
proof
  show one: "snd (createCrawlSession None ''s1'' 0 demoCreate demoWorld) = Some ''s1''"
    by (simp add: createCrawlSession_def demoCreate_def demoWorld_def scheduleFenceOk_def mget_Cons
        demoConnection_def holdsLock_def mhas_def Let_def)
  then have "createCrawlSession None ''s1'' 0 demoCreate demoWorld
      = (fst (createCrawlSession None ''s1'' 0 demoCreate demoWorld), Some ''s1'')" by (metis prod.collapse)
  from schedule_claim_single_use [OF this, of "(fst (createCrawlSession None ''s1'' 0 demoCreate demoWorld))\<lparr>wSessions := []\<rparr>" demoCreate]
  show "createCrawlSession None ''s2'' 5 demoCreate ((fst (createCrawlSession None ''s1'' 0 demoCreate demoWorld))\<lparr>wSessions := []\<rparr>)
     = ((fst (createCrawlSession None ''s1'' 0 demoCreate demoWorld))\<lparr>wSessions := []\<rparr>, None)"
    by (simp add: demoCreate_def)
qed

end
