(* ===== verification/Scheduler.thy ===== *)
theory Scheduler
  imports SessionLock
begin

text \<open>
  \<^verbatim>\<open>apps/control-plane/src/scheduling/crawl-schedule.ts\<close> and \<^verbatim>\<open>scheduler.ts\<close>,
  \<^verbatim>\<open>orchestration/recover-stranded-crawls.ts\<close> and \<^verbatim>\<open>data/hosted-schedule-policy.ts\<close>: when a
  connection is crawled next, and how a due occurrence is claimed once.

  The cron library and the timezone database are parameters: \<open>cronNext\<close> gives the next instant
  of an expression in a timezone after a given one, \<open>None\<close> when the expression does not parse.
  Theorems that need it assume what the library documents, that the next instant lies strictly
  after the given one. The queue is a parameter too: \<open>enqueue\<close> says whether a send succeeds.
\<close>

section \<open>The schedule\<close>

type_synonym cron = "string \<Rightarrow> string \<Rightarrow> millis \<Rightarrow> millis option"

definition DEFAULT_CRAWL_TIMEZONE :: string where
  "DEFAULT_CRAWL_TIMEZONE = ''UTC''"

definition isValidCrawlTimezone :: "(string \<Rightarrow> bool) \<Rightarrow> string \<Rightarrow> bool" where
  "isValidCrawlTimezone tzKnown timezone =
     (if timezone = [] \<or> length timezone > 100 then False else tzKnown timezone)"

definition isValidCrawlSchedule :: "cron \<Rightarrow> (string \<Rightarrow> bool) \<Rightarrow> millis \<Rightarrow> string \<Rightarrow> string \<Rightarrow> bool" where
  "isValidCrawlSchedule cronNext tzKnown now schedule timezone =
     (if schedule = [] \<or> length schedule > 120 \<or> \<not> isValidCrawlTimezone tzKnown timezone then False
      else cronNext schedule timezone now \<noteq> None)"

definition nextRunFromCron :: "cron \<Rightarrow> (string \<Rightarrow> bool) \<Rightarrow> string \<Rightarrow> string \<Rightarrow> millis \<Rightarrow> millis" where
  "nextRunFromCron cronNext tzKnown schedule timezone now =
     (case cronNext schedule (if isValidCrawlTimezone tzKnown timezone then timezone else DEFAULT_CRAWL_TIMEZONE) now of
        Some t \<Rightarrow> t
      | None \<Rightarrow> now + DAY_MS)"

definition ensureDueRows :: "millis \<Rightarrow> world \<Rightarrow> world \<times> nat" where
  "ensureDueRows now w =
     (let verified = map fst (filter (\<lambda>(i, c). cnLoginDomainVerified c \<and> cnScheduleEnabled c) (wConnections w));
          lacking = filter (\<lambda>i. \<not> mhas (wDue w) i) verified
      in (w\<lparr>wDue := fold (\<lambda>i. mput i now) lacking (wDue w)\<rparr>, length lacking))"

section \<open>Recovering stranded crawls\<close>

text \<open>
  An exception ends the sweep but keeps what was written before it: an error carries the world
  it happened in.
\<close>

definition stagedOf :: "staged_kind \<Rightarrow> string \<Rightarrow> world \<Rightarrow> staged_record list" where
  "stagedOf k sid w = filter (\<lambda>r. stSessionId r = sid \<and> stKind r = k) (wStaged w)"

definition promoteStranded ::
  "digest \<Rightarrow> (string \<Rightarrow> bool) \<Rightarrow> (nat \<Rightarrow> string) \<Rightarrow> millis \<Rightarrow> string \<Rightarrow> session \<Rightarrow> world \<Rightarrow> (string \<times> world) + world" where
  "promoteStranded sha uuidOk randomUUID now sid s w =
     (case storeCrawlResults sha uuidOk [] randomUUID now
         \<lparr>siConnectionId = ssConnectionId s, siSessionId = Some sid,
          siAccounts = map stData (stagedOf StagedAccount sid w),
          siTransactions = map (\<lambda>r. stagedTransactionForStore (stId r, stData r)) (stagedOf StagedTransaction sid w),
          siPositions = map stData (stagedOf StagedPosition sid w),
          siRecentlySentUpdateTargets = []\<rparr> (wDb w) of
        Inl e \<Rightarrow> Inl (e, w)
      | Inr (db, result) \<Rightarrow>
          Inr (w\<lparr>wDb := db,
                 wConnections := applyCrawlSuccess now (ssConnectionId s)
                   \<lparr>suCrawlMemory = ssCrawlMemory s, suCostUsd = ssTotalCostUsd s, suToday = now,
                    suTransactionsRejected = Some (rRejectedTransactions result + rTransactionsDropped result)\<rparr>
                   (wConnections w)\<rparr>))"

definition connectionSyncing :: "string \<Rightarrow> world \<Rightarrow> bool" where
  "connectionSyncing conn w = (case mget (wConnections w) conn of Some c \<Rightarrow> cnStatus c = Syncing | None \<Rightarrow> False)"

definition strandedSessions :: "world \<Rightarrow> (string \<times> session) list" where
  "strandedSessions w =
     filter (\<lambda>(i, s). ssStatus s \<in> {Completed, Failed} \<and> connectionSyncing (ssConnectionId s) w
         \<and> \<not> (\<exists>(j, a) \<in> set (wSessions w). ssConnectionId a = ssConnectionId s \<and> active a)) (wSessions w)"

definition recoverOne ::
  "digest \<Rightarrow> (string \<Rightarrow> bool) \<Rightarrow> (nat \<Rightarrow> string) \<Rightarrow> millis \<Rightarrow> string \<times> session \<Rightarrow> world \<times> nat
   \<Rightarrow> (string \<times> world) + world \<times> nat" where
  "recoverOne sha uuidOk randomUUID now x wn =
     (case (x, wn) of ((sid, s), (w, n)) \<Rightarrow>
        if ssStatus s = Completed then
          (case promoteStranded sha uuidOk randomUUID now sid s w of Inl e \<Rightarrow> Inl e | Inr w' \<Rightarrow> Inr (w', Suc n))
        else
          Inr (w\<lparr>wConnections := fst (applyCrawlFailure now (ssConnectionId s)
                   \<lparr>faError = (case ssError s of Some e \<Rightarrow> e | None \<Rightarrow> ''recovered: crawl interrupted before bookkeeping''),
                    faFailureReason = Some (case ssFailureReason s of Some r \<Rightarrow> r | None \<Rightarrow> InternalError),
                    faCostUsd = ssTotalCostUsd s\<rparr> (wConnections w))\<rparr>, Suc n))"

definition orphanedSessions :: "millis \<Rightarrow> world \<Rightarrow> (string \<times> session) list" where
  "orphanedSessions now w =
     filter (\<lambda>(i, s). active s \<and> connectionSyncing (ssConnectionId s) w
         \<and> absentOrBefore (ssLeaseExpiresAt s) now \<and> hasDoneEvent i w) (wSessions w)"

definition firstDoneSucceeded :: "string \<Rightarrow> world \<Rightarrow> bool" where
  "firstDoneSucceeded sid w =
     (case filter (\<lambda>e. evSessionId e = sid \<and> evType e = ''done'') (wEvents w) of [] \<Rightarrow> False | e # _ \<Rightarrow> evSuccess e)"

definition recoverOrphan ::
  "digest \<Rightarrow> (string \<Rightarrow> bool) \<Rightarrow> (nat \<Rightarrow> string) \<Rightarrow> millis \<Rightarrow> string \<times> session \<Rightarrow> world \<times> nat
   \<Rightarrow> (string \<times> world) + world \<times> nat" where
  "recoverOrphan sha uuidOk randomUUID now x wn =
     (case (x, wn) of ((sid, s), (w, n)) \<Rightarrow>
        if \<not> firstDoneSucceeded sid w then Inr (w, n)
        else case promoteStranded sha uuidOk randomUUID now sid s w of
               Inl e \<Rightarrow> Inl e
             | Inr w' \<Rightarrow> Inr (markSessionTerminal now sid True None w', Suc n))"

definition recoverStrandedCrawls ::
  "digest \<Rightarrow> (string \<Rightarrow> bool) \<Rightarrow> (nat \<Rightarrow> string) \<Rightarrow> millis \<Rightarrow> world \<Rightarrow> (string \<times> world) + world \<times> nat" where
  "recoverStrandedCrawls sha uuidOk randomUUID now w =
     (case foldM (recoverOne sha uuidOk randomUUID now) (strandedSessions w) (w, 0) of
        Inl e \<Rightarrow> Inl e
      | Inr (w', n) \<Rightarrow> foldM (recoverOrphan sha uuidOk randomUUID now) (orphanedSessions now w') (w', n))"

section \<open>One tick\<close>

datatype tick_decision = Skip | BackedOff | Escalated | Claimed millis conn_status nat string

definition NON_AUTH_FAILURE_BACKOFF_MS :: millis where
  "NON_AUTH_FAILURE_BACKOFF_MS = 7 * DAY_MS"

text \<open>The decision about one candidate, taken under the row locks of the due row and the connection.\<close>

definition decideDue ::
  "cron \<Rightarrow> (string \<Rightarrow> bool) \<Rightarrow> string \<Rightarrow> millis \<Rightarrow> string \<Rightarrow> world \<Rightarrow> world \<times> tick_decision" where
  "decideDue cronNext tzKnown scheduleClaim now cid w =
     (case mget (wDue w) cid of
        None \<Rightarrow> (w, Skip)
      | Some nextCrawlAt \<Rightarrow>
     if nextCrawlAt > now then (w, Skip) else
     (case mget (wConnections w) cid of
        None \<Rightarrow> (w, Skip)
      | Some c \<Rightarrow>
     if \<not> cnScheduleEnabled c then (w\<lparr>wDue := mdel cid (wDue w)\<rparr>, Skip)
     else if \<not> isRecoverableConnectionStatus (cnStatus c) then
       (w\<lparr>wDue := mput cid (now + DAY_MS) (wDue w)\<rparr>, BackedOff)
     else if cnConsecutiveFailures c > MAX_CONSECUTIVE_CRAWL_FAILURES then
       (if isAuthCrawlFailureReason (lastFailureReason (cnCrawlStats c)) then
          (w\<lparr>wConnections := updateConnection cid (\<lambda>_. True) (\<lambda>c. c\<lparr>cnStatus := NeedsReauth, cnUpdatedAt := now\<rparr>) (wConnections w),
             wDue := mput cid (now + DAY_MS) (wDue w)\<rparr>, Escalated)
        else (w\<lparr>wDue := mput cid (now + NON_AUTH_FAILURE_BACKOFF_MS) (wDue w)\<rparr>, BackedOff))
     else
       let nextRun = nextRunFromCron cronNext tzKnown (cnSchedule c) (cnTimezone c) now
       in (w\<lparr>wDue := mput cid nextRun (wDue w),
             wConnections := updateConnection cid (\<lambda>_. True)
               (\<lambda>c. c\<lparr>cnStatus := Syncing, cnScheduleClaim := Some scheduleClaim, cnUpdatedAt := now\<rparr>) (wConnections w)\<rparr>,
           Claimed nextRun (cnStatus c) (cnScheduleRevision c) scheduleClaim)))"

text \<open>The claim is taken back only while it is still this tick's, or when an edit superseded it.\<close>

definition rollbackClaim ::
  "millis \<Rightarrow> string \<Rightarrow> millis \<Rightarrow> conn_status \<Rightarrow> nat \<Rightarrow> string \<Rightarrow> world \<Rightarrow> world \<times> bool" where
  "rollbackClaim now cid nextRun priorStatus scheduleRevision scheduleClaim w =
     (case mget (wConnections w) cid of
        None \<Rightarrow> (w, False)
      | Some c \<Rightarrow>
          let exactClaim = (cnScheduleRevision c = scheduleRevision \<and> cnScheduleClaim c = Some scheduleClaim);
              supersededByEdit = (cnScheduleClaim c = None
                \<and> (cnScheduleRevision c \<noteq> scheduleRevision \<or> \<not> cnScheduleEnabled c))
          in if \<not> exactClaim \<and> \<not> supersededByEdit then (w, False)
             else if holdsLock cid w then (w, False)
             else (w\<lparr>wDue := (if exactClaim \<and> mget (wDue w) cid = Some nextRun then mput cid now (wDue w) else wDue w),
                     wConnections := updateConnection cid (\<lambda>_. True)
                       (\<lambda>c. c\<lparr>cnStatus := (if cnStatus c = Syncing then priorStatus else cnStatus c),
                              cnScheduleClaim := (if exactClaim then None else cnScheduleClaim c),
                              cnUpdatedAt := now\<rparr>) (wConnections w)\<rparr>, True))"

record tick_state =
  tkWorld :: world
  tkEnqueue :: "(string \<times> millis \<times> conn_status \<times> nat \<times> string) list"
  tkEscalated :: nat
  tkBackedOff :: nat

definition tickOne ::
  "cron \<Rightarrow> (string \<Rightarrow> bool) \<Rightarrow> (string \<Rightarrow> string) \<Rightarrow> millis \<Rightarrow> string \<Rightarrow> tick_state \<Rightarrow> tick_state" where
  "tickOne cronNext tzKnown claimFor now cid t =
     (case decideDue cronNext tzKnown (claimFor cid) now cid (tkWorld t) of (w, d) \<Rightarrow>
        (let t = t\<lparr>tkWorld := w\<rparr> in
         case d of
           Skip \<Rightarrow> t
         | BackedOff \<Rightarrow> t\<lparr>tkBackedOff := Suc (tkBackedOff t)\<rparr>
         | Escalated \<Rightarrow> t\<lparr>tkEscalated := Suc (tkEscalated t)\<rparr>
         | Claimed nextRun priorStatus revision claim \<Rightarrow>
             t\<lparr>tkEnqueue := tkEnqueue t @ [(cid, nextRun, priorStatus, revision, claim)]\<rparr>))"

definition claimDue ::
  "cron \<Rightarrow> (string \<Rightarrow> bool) \<Rightarrow> (string \<Rightarrow> string) \<Rightarrow> millis \<Rightarrow> world \<Rightarrow> tick_state" where
  "claimDue cronNext tzKnown claimFor now w =
     fold (tickOne cronNext tzKnown claimFor now) (map fst (filter (\<lambda>(i, dueAt). dueAt \<le> now) (wDue w)))
       \<lparr>tkWorld = w, tkEnqueue = [], tkEscalated = 0, tkBackedOff = 0\<rparr>"

definition enqueueOne ::
  "(string \<Rightarrow> bool) \<Rightarrow> millis \<Rightarrow> string \<times> millis \<times> conn_status \<times> nat \<times> string \<Rightarrow> world \<times> nat \<Rightarrow> world \<times> nat" where
  "enqueueOne enqueue now e wn =
     (case (e, wn) of ((cid, nextRun, priorStatus, revision, claim), (w, n)) \<Rightarrow>
        if enqueue cid then (w, Suc n)
        else (fst (rollbackClaim now cid nextRun priorStatus revision claim w), n))"

record tick_result =
  trReaped :: nat
  trEnqueued :: nat
  trEscalated :: nat
  trBackedOff :: nat
  trRecovered :: nat
  trPurged :: nat
  trJobsReaped :: nat

definition reapSessions :: "millis \<Rightarrow> millis \<Rightarrow> world \<Rightarrow> world \<times> nat" where
  "reapSessions staleMs now w =
     (case reapStaleSessions staleMs now w of (w', reaped) \<Rightarrow>
        (w'\<lparr>wConnections := fold (\<lambda>(i, conn) cs. fst (applyCrawlFailure now conn
             \<lparr>faError = ''reaped: stale heartbeat'', faFailureReason = Some InstanceDied, faCostUsd = None\<rparr> cs))
             reaped (wConnections w')\<rparr>, length reaped))"

definition schedulerTick ::
  "digest \<Rightarrow> (string \<Rightarrow> bool) \<Rightarrow> (nat \<Rightarrow> string) \<Rightarrow> cron \<Rightarrow> (string \<Rightarrow> bool) \<Rightarrow> (string \<Rightarrow> string)
   \<Rightarrow> (string \<Rightarrow> bool) \<Rightarrow> millis \<Rightarrow> millis \<Rightarrow> millis \<Rightarrow> world \<Rightarrow> (string \<times> world) + world \<times> tick_result" where
  "schedulerTick sha uuidOk randomUUID cronNext tzKnown claimFor enqueue startupMs staleMs now w =
     (case reapSessions staleMs now w of (w1, reaped) \<Rightarrow>
      case reapStaleCrawlJobs startupMs now w1 of (w2, jobsReaped) \<Rightarrow>
      case recoverStrandedCrawls sha uuidOk randomUUID now w2 of
        Inl e \<Rightarrow> Inl e
      | Inr (w3, recovered) \<Rightarrow>
      (case sweepExpiredSessions now w3 of (w4, purged) \<Rightarrow>
       let w5 = fst (ensureDueRows now w4);
           t = claimDue cronNext tzKnown claimFor now w5;
           r = fold (enqueueOne enqueue now) (tkEnqueue t) (tkWorld t, 0)
       in Inr (fst r, \<lparr>trReaped = reaped, trEnqueued = snd r, trEscalated = tkEscalated t,
            trBackedOff = tkBackedOff t, trRecovered = recovered, trPurged = purged, trJobsReaped = jobsReaped\<rparr>)))"

section \<open>The hosted schedule policy\<close>

definition UNRECOVERABLE_RETRY_MS :: millis where
  "UNRECOVERABLE_RETRY_MS = DAY_MS"

definition AUTH_FAILURE_BACKOFF_MS :: millis where
  "AUTH_FAILURE_BACKOFF_MS = DAY_MS"

definition REPEATED_FAILURE_BACKOFF_MS :: millis where
  "REPEATED_FAILURE_BACKOFF_MS = 7 * DAY_MS"

record next_occurrence =
  nextCrawlAtMs :: millis
  shouldDispatch :: bool

definition planNextOccurrence ::
  "(string \<Rightarrow> string \<Rightarrow> millis \<Rightarrow> millis) \<Rightarrow> connection \<Rightarrow> millis \<Rightarrow> next_occurrence" where
  "planNextOccurrence nextRun c nowMs =
     (if \<not> isRecoverableConnectionStatus (cnStatus c) then
        \<lparr>nextCrawlAtMs = nowMs + UNRECOVERABLE_RETRY_MS, shouldDispatch = False\<rparr>
      else if cnConsecutiveFailures c > MAX_CONSECUTIVE_CRAWL_FAILURES then
        \<lparr>nextCrawlAtMs = nowMs + (if isAuthCrawlFailureReason (lastFailureReason (cnCrawlStats c))
           then AUTH_FAILURE_BACKOFF_MS else REPEATED_FAILURE_BACKOFF_MS), shouldDispatch = False\<rparr>
      else \<lparr>nextCrawlAtMs = nextRun (cnSchedule c) (cnTimezone c) nowMs, shouldDispatch = True\<rparr>)"

record due_record =
  duScheduleRevision :: nat
  duNextCrawlAtMs :: "millis option"
  duTaskArmed :: "bool option"
  duPendingOccurrenceAtMs :: "millis option"
  duPendingOccurrenceShouldDispatch :: "bool option"

record schedule_claim_facts =
  scDeleted :: bool
  scScheduleEnabled :: bool
  scScheduleRevision :: nat

datatype schedule_advance = StaleClaim | PendingSuccessor | Finished bool | Advanced next_occurrence
datatype schedule_consume = ConsumeDispatch | AdvancedWithoutDispatch | ConsumeStale

definition claimMatches :: "nat \<Rightarrow> schedule_claim_facts \<Rightarrow> due_record \<Rightarrow> bool" where
  "claimMatches taskRevision c due =
     (\<not> scDeleted c \<and> scScheduleEnabled c \<and> scScheduleRevision c = taskRevision \<and> duScheduleRevision due = taskRevision)"

definition decideScheduleAdvance ::
  "millis \<Rightarrow> nat \<Rightarrow> schedule_claim_facts option \<Rightarrow> due_record option \<Rightarrow> next_occurrence \<Rightarrow> schedule_advance" where
  "decideScheduleAdvance claimedDueAtMs taskRevision conn due plan =
     (case (conn, due) of
        (Some c, Some d) \<Rightarrow>
          if \<not> claimMatches taskRevision c d then StaleClaim
          else if duPendingOccurrenceAtMs d = Some claimedDueAtMs then
            (if duTaskArmed d \<noteq> Some True then PendingSuccessor
             else Finished (duPendingOccurrenceShouldDispatch d = Some True))
          else if duPendingOccurrenceAtMs d \<noteq> None \<or> duTaskArmed d = Some False
                  \<or> duNextCrawlAtMs d \<noteq> Some claimedDueAtMs then StaleClaim
          else Advanced plan
      | _ \<Rightarrow> StaleClaim)"

definition decideScheduleConsume ::
  "millis \<Rightarrow> nat \<Rightarrow> schedule_claim_facts option \<Rightarrow> due_record option \<Rightarrow> schedule_consume" where
  "decideScheduleConsume claimedDueAtMs taskRevision conn due =
     (case (conn, due) of
        (Some c, Some d) \<Rightarrow>
          if \<not> claimMatches taskRevision c d \<or> duTaskArmed d \<noteq> Some True
             \<or> duPendingOccurrenceAtMs d \<noteq> Some claimedDueAtMs then ConsumeStale
          else if duPendingOccurrenceShouldDispatch d = Some True then ConsumeDispatch
          else AdvancedWithoutDispatch
      | _ \<Rightarrow> ConsumeStale)"

section \<open>Deciding one due connection\<close>

definition cronLater :: "cron \<Rightarrow> bool" where
  "cronLater cronNext = (\<forall>e tz t u. cronNext e tz t = Some u \<longrightarrow> t < u)"

lemma nextRunFromCron_later: "cronLater cronNext \<Longrightarrow> now < nextRunFromCron cronNext tzKnown e tz now"
  by (auto simp: nextRunFromCron_def cronLater_def DAY_MS_def split: option.splits)

lemma decideDue_frame:
  assumes "decideDue cronNext tzKnown claim now cid w = (w', d)"
  shows "i \<noteq> cid \<Longrightarrow> mget (wDue w') i = mget (wDue w) i \<and> mget (wConnections w') i = mget (wConnections w) i"
    and "wSessions w' = wSessions w"
  using assms
  by (auto simp: decideDue_def Let_def mget_updateConnection split: option.splits if_splits)

lemma decideDue_forward:
  assumes "decideDue cronNext tzKnown claim now cid w = (w', d)" "cronLater cronNext"
    and "mget (wConnections w) cid \<noteq> None"
  shows "mget (wDue w') cid = None \<or> (\<exists>t. mget (wDue w') cid = Some t \<and> now < t)"
  using assms(1,3) nextRunFromCron_later [OF assms(2)]
  by (auto simp: decideDue_def Let_def DAY_MS_def NON_AUTH_FAILURE_BACKOFF_MS_def split: option.splits if_splits)

lemma decideDue_skip:
  "mget (wDue w) cid = None \<or> (\<exists>t. mget (wDue w) cid = Some t \<and> now < t) \<Longrightarrow>
     decideDue cronNext tzKnown claim now cid w = (w, Skip)"
  by (auto simp: decideDue_def)

section \<open>The invariants hold across a tick\<close>

definition worldOk :: "world \<Rightarrow> bool" where
  "worldOk w = (lockInv w \<and> connectionsOk (wConnections w))"

lemma connectionsOk_update [inv_intros]:
  "connectionsOk cs \<Longrightarrow> (\<And>c. connectionOk c \<Longrightarrow> p c \<Longrightarrow> connectionOk (f c)) \<Longrightarrow> connectionsOk (updateConnection i p f cs)"
  by (auto simp: connectionsOk_def mget_updateConnection)

lemma connectionOk_frame [simp]:
  "connectionOk (c\<lparr>cnStatus := a, cnUpdatedAt := b\<rparr>) = connectionOk c"
  "connectionOk (c\<lparr>cnStatus := a, cnScheduleClaim := k, cnUpdatedAt := b\<rparr>) = connectionOk c"
  by (simp_all add: connectionOk_def)

lemma wConnections_updateSessions [simp]: "wConnections (updateSessions p f w) = wConnections w"
  by (simp add: updateSessions_def)

lemma wConnections_updateJobs [simp]: "wConnections (updateJobs p f w) = wConnections w"
  by (simp add: updateJobs_def)

lemma wConnections_fold_updateSessions [simp]:
  "wConnections (fold (\<lambda>x. updateSessions (p x) f) xs w) = wConnections w"
  by (induction xs arbitrary: w) auto

lemma worldOk_reap [inv_intros]: "worldOk w \<Longrightarrow> worldOk (fst (reapSessions staleMs now w))"
proof -
  assume ok: "worldOk w"
  have fold: "connectionsOk cs \<Longrightarrow> connectionsOk (fold (\<lambda>(i, conn) cs. fst (applyCrawlFailure now conn fa cs)) xs cs)" for xs fa cs
    by (induction xs arbitrary: cs) (auto intro: connectionsOk_failure)
  have "lockInv (fst (reapStaleSessions staleMs now w))"
    using lockInv_step [OF session_step.reap] ok by (simp add: worldOk_def)
  moreover have "wConnections (fst (reapStaleSessions staleMs now w)) = wConnections w"
    by (simp add: reapStaleSessions_def)
  ultimately show ?thesis using ok fold
    by (auto simp: reapSessions_def worldOk_def split: prod.splits)
qed

lemma worldOk_jobs [inv_intros]: "worldOk w \<Longrightarrow> worldOk (fst (reapStaleCrawlJobs startupMs now w))"
  using lockInv_reap_jobs [of w startupMs now]
  by (simp add: worldOk_def) (simp add: reapStaleCrawlJobs_def Let_def)

lemma worldOk_sweep [inv_intros]: "worldOk w \<Longrightarrow> worldOk (fst (sweepExpiredSessions now w))"
  using lockInv_sweep [of w now] by (simp add: worldOk_def) (simp add: sweepExpiredSessions_def Let_def)

lemma worldOk_due [inv_intros]: "worldOk w \<Longrightarrow> worldOk (fst (ensureDueRows now w))"
  by (simp add: worldOk_def ensureDueRows_def Let_def lockInv_def)

lemma worldOk_promote [inv_intros]:
  "promoteStranded sha uuidOk rnd now sid s w = Inr w' \<Longrightarrow> worldOk w \<Longrightarrow> worldOk w'"
  by (auto simp: promoteStranded_def worldOk_def lockInv_def intro: connectionsOk_success split: sum.splits)

lemma worldOk_recoverOne [inv_intros]:
  assumes "recoverOne sha uuidOk rnd now x wn = Inr wn'" "worldOk (fst wn)" shows "worldOk (fst wn')"
proof (cases x)
  case (Pair sid s)
  show ?thesis
  proof (cases "ssStatus s = Completed")
    case True
    with assms Pair show ?thesis by (cases wn) (auto simp: recoverOne_def intro: worldOk_promote split: sum.splits)
  next
    case False
    with assms Pair show ?thesis
      by (cases wn) (auto simp: recoverOne_def worldOk_def intro: connectionsOk_failure)
  qed
qed

lemma worldOk_recoverOrphan [inv_intros]:
  assumes "recoverOrphan sha uuidOk rnd now x wn = Inr wn'" "worldOk (fst wn)" shows "worldOk (fst wn')"
proof -
  have "worldOk v \<Longrightarrow> worldOk (markSessionTerminal now sid b e v)" for v sid b e
    using lockInv_step [OF session_step.terminal] by (simp add: worldOk_def) (simp add: markSessionTerminal_def)
  note terminal = this
  obtain sid s where x: "x = (sid, s)" by (cases x)
  obtain w n where wn: "wn = (w, n)" by (cases wn)
  show ?thesis
  proof (cases "firstDoneSucceeded sid w")
    case False
    with assms x wn show ?thesis by (simp add: recoverOrphan_def)
  next
    case True
    then obtain w' where p: "promoteStranded sha uuidOk rnd now sid s w = Inr w'"
      and r: "wn' = (markSessionTerminal now sid True None w', Suc n)"
      using assms(1) x wn by (auto simp: recoverOrphan_def split: sum.splits)
    have "worldOk w'" by (rule worldOk_promote [OF p]) (use assms(2) wn in simp)
    then show ?thesis using r terminal by simp
  qed
qed

lemma worldOk_recover [inv_intros]:
  assumes "recoverStrandedCrawls sha uuidOk rnd now w = Inr (w', n)" "worldOk w" shows "worldOk w'"
proof -
  obtain u m where u: "foldM (recoverOne sha uuidOk rnd now) (strandedSessions w) (w, 0) = Inr (u, m)"
    and v: "foldM (recoverOrphan sha uuidOk rnd now) (orphanedSessions now u) (u, m) = Inr (w', n)"
    using assms(1) by (auto simp: recoverStrandedCrawls_def split: sum.splits)
  have "worldOk (fst (u, m))"
    by (rule foldM_invariant [where P = "\<lambda>x. worldOk (fst x)", OF u]) (auto simp: assms(2) intro: worldOk_recoverOne)
  then have "worldOk (fst (w', n))"
    by (rule foldM_invariant [where P = "\<lambda>x. worldOk (fst x)", OF v]) (auto intro: worldOk_recoverOrphan)
  then show ?thesis by simp
qed

lemma worldOk_decideDue [inv_intros]:
  assumes "worldOk w" shows "worldOk (fst (decideDue cronNext tzKnown claim now cid w))"
proof -
  have "lockInv (fst (decideDue cronNext tzKnown claim now cid w))"
    using assms decideDue_frame(2) [of cronNext tzKnown claim now cid w]
    by (cases "decideDue cronNext tzKnown claim now cid w") (simp add: worldOk_def lockInv_def)
  moreover have "connectionsOk (wConnections (fst (decideDue cronNext tzKnown claim now cid w)))"
    using assms
    by (auto simp: decideDue_def worldOk_def Let_def intro!: connectionsOk_update split: option.splits)
  ultimately show ?thesis by (simp add: worldOk_def)
qed

lemma worldOk_rollback [inv_intros]:
  assumes "worldOk w" shows "worldOk (fst (rollbackClaim now cid nextRun prior revision claim w))"
  using assms
  by (auto simp: rollbackClaim_def worldOk_def lockInv_def Let_def intro!: connectionsOk_update split: option.splits)

lemma worldOk_tickOne: "worldOk (tkWorld t) \<Longrightarrow> worldOk (tkWorld (tickOne cronNext tzKnown claimFor now cid t))"
  using worldOk_decideDue [of "tkWorld t" cronNext tzKnown "claimFor cid" now cid]
  by (auto simp: tickOne_def Let_def split: prod.splits tick_decision.splits)

lemma worldOk_enqueueOne: "worldOk (fst wn) \<Longrightarrow> worldOk (fst (enqueueOne enqueue now e wn))"
  by (cases e; cases wn) (auto simp: enqueueOne_def intro: worldOk_rollback)

lemma fold_preserves: "P s \<Longrightarrow> (\<And>x s. P s \<Longrightarrow> P (f x s)) \<Longrightarrow> P (fold f xs s)"
  by (induction xs arbitrary: s) auto

lemma worldOk_claimDue [inv_intros]: "worldOk w \<Longrightarrow> worldOk (tkWorld (claimDue cronNext tzKnown claimFor now w))"
  unfolding claimDue_def by (rule fold_preserves [where P = "\<lambda>t. worldOk (tkWorld t)"]) (auto intro: worldOk_tickOne)

section \<open>What a tick hands to the queue\<close>

text \<open>The scheduler's eligibility test on the row it locked.\<close>

definition eligible :: "connection \<Rightarrow> bool" where
  "eligible c = (cnScheduleEnabled c \<and> isRecoverableConnectionStatus (cnStatus c)
     \<and> cnConsecutiveFailures c \<le> MAX_CONSECUTIVE_CRAWL_FAILURES)"

definition dueNow :: "millis \<Rightarrow> world \<Rightarrow> string \<Rightarrow> bool" where
  "dueNow now w i = (\<exists>t. mget (wDue w) i = Some t \<and> t \<le> now)"

definition claimOf ::
  "cron \<Rightarrow> (string \<Rightarrow> bool) \<Rightarrow> (string \<Rightarrow> string) \<Rightarrow> millis \<Rightarrow> string \<Rightarrow> connection \<Rightarrow> string \<times> millis \<times> conn_status \<times> nat \<times> string" where
  "claimOf cronNext tzKnown claimFor now i c =
     (i, nextRunFromCron cronNext tzKnown (cnSchedule c) (cnTimezone c) now, cnStatus c, cnScheduleRevision c, claimFor i)"

text \<open>What holds between the candidates handled so far and the state, relative to the start.\<close>

definition tickInv ::
  "cron \<Rightarrow> (string \<Rightarrow> bool) \<Rightarrow> (string \<Rightarrow> string) \<Rightarrow> millis \<Rightarrow> world \<Rightarrow> string list \<Rightarrow> tick_state \<Rightarrow> bool" where
  "tickInv cronNext tzKnown claimFor now w seen t =
     (wSessions (tkWorld t) = wSessions w
      \<and> (\<forall>i. i \<notin> set seen \<longrightarrow> mget (wDue (tkWorld t)) i = mget (wDue w) i
           \<and> mget (wConnections (tkWorld t)) i = mget (wConnections w) i)
      \<and> distinct (map fst (tkEnqueue t)) \<and> fst ` set (tkEnqueue t) \<subseteq> set seen
      \<and> (\<forall>e. e \<in> set (tkEnqueue t) \<longleftrightarrow>
           (\<exists>i c. i \<in> set seen \<and> dueNow now w i \<and> mget (wConnections w) i = Some c \<and> eligible c
              \<and> e = claimOf cronNext tzKnown claimFor now i c)))"

lemma decideDue_eligible:
  assumes "dueNow now w i" "mget (wConnections w) i = Some c" "eligible c"
  shows "snd (decideDue cronNext tzKnown claim now i w) =
      Claimed (nextRunFromCron cronNext tzKnown (cnSchedule c) (cnTimezone c) now) (cnStatus c) (cnScheduleRevision c) claim"
  using assms by (auto simp: decideDue_def dueNow_def eligible_def Let_def)

lemma decideDue_claimedD:
  assumes "decideDue cronNext tzKnown claim now i w = (w', Claimed n p r k)"
  shows "dueNow now w i \<and> k = claim \<and> (\<exists>c. mget (wConnections w) i = Some c \<and> eligible c
    \<and> n = nextRunFromCron cronNext tzKnown (cnSchedule c) (cnTimezone c) now \<and> p = cnStatus c \<and> r = cnScheduleRevision c
    \<and> mget (wConnections w') i = Some (c\<lparr>cnStatus := Syncing, cnScheduleClaim := Some claim, cnUpdatedAt := now\<rparr>)
    \<and> mget (wDue w') i = Some n)"
  using assms
  by (auto simp: decideDue_def dueNow_def eligible_def Let_def mget_updateConnection split: option.splits if_splits)

lemma tickInv_step:
  assumes inv: "tickInv cronNext tzKnown claimFor now w seen t" and new: "c \<notin> set seen"
  shows "tickInv cronNext tzKnown claimFor now w (seen @ [c]) (tickOne cronNext tzKnown claimFor now c t)"
proof -
  obtain w' d where d: "decideDue cronNext tzKnown (claimFor c) now c (tkWorld t) = (w', d)" by fastforce
  have same: "mget (wDue (tkWorld t)) c = mget (wDue w) c" "mget (wConnections (tkWorld t)) c = mget (wConnections w) c"
    using inv new by (auto simp: tickInv_def)
  then have due: "dueNow now (tkWorld t) c = dueNow now w c" by (simp add: dueNow_def)
  let ?t = "tickOne cronNext tzKnown claimFor now c t"
  let ?claimed = "{e. \<exists>k. dueNow now w c \<and> mget (wConnections w) c = Some k \<and> eligible k \<and> e = claimOf cronNext tzKnown claimFor now c k}"
  have world: "tkWorld ?t = w'"
    using d by (auto simp: tickOne_def Let_def split: tick_decision.splits)
  have enq: "set (tkEnqueue ?t) = set (tkEnqueue t) \<union> ?claimed \<and> distinct (map fst (tkEnqueue ?t))"
  proof (cases "\<exists>n p r k. d = Claimed n p r k")
    case True
    then obtain n p r k where dk: "d = Claimed n p r k" by blast
    from decideDue_claimedD [OF d [unfolded dk]] same due
    obtain x where x: "dueNow now w c" "mget (wConnections w) c = Some x" "eligible x"
      and e: "(c, n, p, r, k) = claimOf cronNext tzKnown claimFor now c x"
      by (auto simp: claimOf_def)
    then have cl: "?claimed = {(c, n, p, r, k)}" by auto
    have "tkEnqueue ?t = tkEnqueue t @ [(c, n, p, r, k)]" using d dk by (simp add: tickOne_def Let_def)
    moreover have "c \<notin> fst ` set (tkEnqueue t)" using inv new by (auto simp: tickInv_def)
    ultimately show ?thesis using cl inv by (simp add: tickInv_def)
  next
    case False
    have none: "?claimed = {}"
    proof (rule ccontr)
      assume "?claimed \<noteq> {}"
      then obtain k where "dueNow now (tkWorld t) c" "mget (wConnections (tkWorld t)) c = Some k" "eligible k"
        using same due by auto
      from decideDue_eligible [OF this, of cronNext tzKnown "claimFor c"] d False show False by simp
    qed
    have "tkEnqueue ?t = tkEnqueue t" using d False by (auto simp: tickOne_def Let_def split: tick_decision.splits)
    moreover have "distinct (map fst (tkEnqueue t))" using inv by (simp add: tickInv_def)
    ultimately show ?thesis unfolding none by simp
  qed
  have frame: "wSessions w' = wSessions (tkWorld t)"
    "i \<noteq> c \<Longrightarrow> mget (wDue w') i = mget (wDue (tkWorld t)) i \<and> mget (wConnections w') i = mget (wConnections (tkWorld t)) i" for i
    using decideDue_frame [OF d] by blast+
  have claimed: "e \<in> ?claimed \<Longrightarrow> fst e = c" for e by (auto simp: claimOf_def)
  have mem: "e \<in> set (tkEnqueue t) \<longleftrightarrow> (\<exists>i k. i \<in> set seen \<and> dueNow now w i \<and> mget (wConnections w) i = Some k \<and> eligible k
      \<and> e = claimOf cronNext tzKnown claimFor now i k)" for e
    using inv unfolding tickInv_def by blast
  have sub: "fst ` set (tkEnqueue t) \<subseteq> set seen" and old: "wSessions (tkWorld t) = wSessions w"
    "\<And>i. i \<notin> set seen \<Longrightarrow> mget (wDue (tkWorld t)) i = mget (wDue w) i \<and> mget (wConnections (tkWorld t)) i = mget (wConnections w) i"
    using inv by (simp_all add: tickInv_def)
  show ?thesis unfolding tickInv_def world
  proof (intro conjI allI impI)
    show "fst ` set (tkEnqueue ?t) \<subseteq> set (seen @ [c])" using enq sub claimed by auto
    show "distinct (map fst (tkEnqueue ?t))" using enq by simp
    show "wSessions w' = wSessions w" using frame(1) old(1) by simp
    fix e
    have "e \<in> set (tkEnqueue ?t) \<longleftrightarrow> e \<in> set (tkEnqueue t) \<or> e \<in> ?claimed" using enq by simp
    then show "e \<in> set (tkEnqueue ?t) \<longleftrightarrow> (\<exists>i k. i \<in> set (seen @ [c]) \<and> dueNow now w i \<and> mget (wConnections w) i = Some k
        \<and> eligible k \<and> e = claimOf cronNext tzKnown claimFor now i k)"
      unfolding mem by auto
  qed (use frame(2) old(2) in auto)
qed

lemma tickInv_fold:
  "distinct (seen @ cids) \<Longrightarrow> tickInv cronNext tzKnown claimFor now w seen t \<Longrightarrow>
     tickInv cronNext tzKnown claimFor now w (seen @ cids) (fold (tickOne cronNext tzKnown claimFor now) cids t)"
proof (induction cids arbitrary: seen t)
  case (Cons c cids)
  have "tickInv cronNext tzKnown claimFor now w (seen @ [c]) (tickOne cronNext tzKnown claimFor now c t)"
    using Cons.prems by (intro tickInv_step) auto
  with Cons.IH [of "seen @ [c]"] Cons.prems show ?case by simp
qed simp

lemma tickInv_claimDue:
  assumes "distinct (mkeys (wDue w))"
  shows "tickInv cronNext tzKnown claimFor now w (map fst (filter (\<lambda>(i, dueAt). dueAt \<le> now) (wDue w)))
    (claimDue cronNext tzKnown claimFor now w)"
  unfolding claimDue_def
  using tickInv_fold [of "[]" "map fst (filter (\<lambda>(i, dueAt). dueAt \<le> now) (wDue w))" cronNext tzKnown claimFor now w
      "\<lparr>tkWorld = w, tkEnqueue = [], tkEscalated = 0, tkBackedOff = 0\<rparr>"] assms
  by (simp add: tickInv_def mkeys_def distinct_map_filter)

lemma dueNow_candidates:
  assumes "distinct (mkeys (wDue w))"
  shows "dueNow now w i \<longleftrightarrow> i \<in> set (map fst (filter (\<lambda>(i, dueAt). dueAt \<le> now) (wDue w)))"
  using assms by (auto simp: dueNow_def mget_def mkeys_def image_iff)

lemma schedulerTick_returns:
  "recoverStrandedCrawls sha uuidOk rnd now (fst (reapStaleCrawlJobs startupMs now (fst (reapSessions staleMs now w)))) = Inr x \<Longrightarrow>
     \<exists>w' r. schedulerTick sha uuidOk rnd cronNext tzKnown claimFor enqueue startupMs staleMs now w = Inr (w', r)"
  by (cases x) (auto simp: schedulerTick_def Let_def split: prod.splits)

section \<open>Properties\<close>

definition demoCron :: cron where
  "demoCron e tz t = Some (t + 3600000)"

definition demoClaimWorld :: world where
  "demoClaimWorld = demoWorld\<lparr>wDue := [(''k'', 10)],
     wConnections := [(''k'', demoConnection\<lparr>cnStatus := Connected\<rparr>)]\<rparr>"

lemma demoCron_later: "cronLater demoCron"
  by (simp add: cronLater_def demoCron_def)

lemmas demo_claim_simps = demoClaimWorld_def demoWorld_def demoConnection_def mget_Cons mkeys_def

text \<open>
  No double claim. Whatever a tick decides about a connection, it removes its due time or moves
  it past the moment of the decision, so a second tick whose clock is not later skips it and
  changes nothing. The cron library is assumed to return instants after the one it is given.
\<close>

theorem due_decided_once:
  assumes "decideDue cronNext tzKnown claim now cid w = (w', d)" "cronLater cronNext"
    and "mget (wConnections w) cid \<noteq> None" "now' \<le> now"
  shows "decideDue cronNext' tzKnown' claim' now' cid w' = (w', Skip)"
  using decideDue_forward [OF assms(1-3)] assms(4) by (intro decideDue_skip) auto

theorem due_decided_once_witness:
  "snd (decideDue demoCron (\<lambda>_. True) ''u'' 20 ''k'' demoClaimWorld) = Claimed 3600020 Connected 1 ''u''
   \<and> snd (decideDue demoCron (\<lambda>_. True) ''v'' 20 ''k'' (fst (decideDue demoCron (\<lambda>_. True) ''u'' 20 ''k'' demoClaimWorld))) = Skip"
proof
  show "snd (decideDue demoCron (\<lambda>_. True) ''u'' 20 ''k'' demoClaimWorld) = Claimed 3600020 Connected 1 ''u''"
    by (simp add: decideDue_def demo_claim_simps demoCron_def nextRunFromCron_def Let_def isRecoverableConnectionStatus_def
        RECOVERABLE_CONNECTION_STATUSES_def MAX_CONSECUTIVE_CRAWL_FAILURES_def)
  have "mget (wConnections demoClaimWorld) ''k'' \<noteq> None" by (simp add: demo_claim_simps)
  from due_decided_once [OF prod.collapse [symmetric] demoCron_later this order_refl]
  show "snd (decideDue demoCron (\<lambda>_. True) ''v'' 20 ''k'' (fst (decideDue demoCron (\<lambda>_. True) ''u'' 20 ''k'' demoClaimWorld))) = Skip"
    by simp
qed



text \<open>
  C25: The self-hosted scheduler and the hosted policy agree. For a due connection with its schedule
  enabled, the due time the scheduler writes is the one the hosted policy plans, and the scheduler
  claims the occurrence exactly when the hosted policy dispatches it.
\<close>

theorem scheduler_agrees_with_hosted_policy:
  fixes cronNext tzKnown claim
  assumes "dueNow now w cid" "mget (wConnections w) cid = Some c" "cnScheduleEnabled c"
  defines "p \<equiv> planNextOccurrence (nextRunFromCron cronNext tzKnown) c now"
    and "r \<equiv> decideDue cronNext tzKnown claim now cid w"
  shows "mget (wDue (fst r)) cid = Some (nextCrawlAtMs p)
    \<and> (shouldDispatch p \<longleftrightarrow> snd r = Claimed (nextCrawlAtMs p) (cnStatus c) (cnScheduleRevision c) claim)"
  using assms(1-3) unfolding p_def r_def
  by (auto simp: dueNow_def decideDue_def planNextOccurrence_def Let_def UNRECOVERABLE_RETRY_MS_def
      AUTH_FAILURE_BACKOFF_MS_def REPEATED_FAILURE_BACKOFF_MS_def NON_AUTH_FAILURE_BACKOFF_MS_def)

theorem scheduler_agrees_with_hosted_policy_witness:
  "mget (wDue (fst (decideDue demoCron (\<lambda>_. True) ''u'' 20 ''k'' demoClaimWorld))) ''k''
     = Some (nextCrawlAtMs (planNextOccurrence (nextRunFromCron demoCron (\<lambda>_. True)) (demoConnection\<lparr>cnStatus := Connected\<rparr>) 20))"
proof -
  have "dueNow 20 demoClaimWorld ''k''" "mget (wConnections demoClaimWorld) ''k'' = Some (demoConnection\<lparr>cnStatus := Connected\<rparr>)"
    "cnScheduleEnabled (demoConnection\<lparr>cnStatus := Connected\<rparr>)"
    by (simp_all add: demo_claim_simps dueNow_def)
  from scheduler_agrees_with_hosted_policy [OF this] show ?thesis by blast
qed

text \<open>
  A failed send gives the occurrence back, and only its own. Rolling back right after the claim,
  with no session holding the lock, restores the status, clears the claim and makes the connection
  due at once; a rollback that finds another claim on the connection changes nothing.
\<close>

theorem claim_rollback:
  assumes "decideDue cronNext tzKnown claim now cid w = (w', Claimed nextRun prior revision claim)"
    and "\<not> holdsLock cid w" "mget (wConnections w) cid = Some c"
  shows "(\<exists>v. rollbackClaim later cid nextRun prior revision claim w' = (v, True)
      \<and> mget (wConnections v) cid = Some (c\<lparr>cnScheduleClaim := None, cnUpdatedAt := later\<rparr>)
      \<and> mget (wDue v) cid = Some later)
    \<and> (\<forall>other. other \<noteq> claim \<longrightarrow> rollbackClaim later cid nextRun prior revision other w' = (w', False))"
proof -
  from decideDue_claimedD [OF assms(1)] assms(3)
  have w': "mget (wConnections w') cid = Some (c\<lparr>cnStatus := Syncing, cnScheduleClaim := Some claim, cnUpdatedAt := now\<rparr>)"
    "mget (wDue w') cid = Some nextRun" "prior = cnStatus c" "revision = cnScheduleRevision c"
    by auto
  have lock: "\<not> holdsLock cid w'" using assms(2) decideDue_frame(2) [OF assms(1)] by (simp add: holdsLock_def)
  have "c\<lparr>cnStatus := cnStatus c, cnScheduleClaim := None, cnUpdatedAt := later\<rparr> = c\<lparr>cnScheduleClaim := None, cnUpdatedAt := later\<rparr>"
    by (cases c) simp
  then show ?thesis using w' lock by (auto simp: rollbackClaim_def Let_def mget_updateConnection)
qed

theorem claim_rollback_witness:
  "mget (wDue (fst (rollbackClaim 30 ''k'' 3600020 Connected 1 ''u''
     (fst (decideDue demoCron (\<lambda>_. True) ''u'' 20 ''k'' demoClaimWorld))))) ''k'' = Some 30"
proof -
  have s: "snd (decideDue demoCron (\<lambda>_. True) ''u'' 20 ''k'' demoClaimWorld) = Claimed 3600020 Connected 1 ''u''"
    by (simp add: decideDue_def demo_claim_simps demoCron_def nextRunFromCron_def Let_def isRecoverableConnectionStatus_def
        RECOVERABLE_CONNECTION_STATUSES_def MAX_CONSECUTIVE_CRAWL_FAILURES_def)
  have d: "decideDue demoCron (\<lambda>_. True) ''u'' 20 ''k'' demoClaimWorld
      = (fst (decideDue demoCron (\<lambda>_. True) ''u'' 20 ''k'' demoClaimWorld), Claimed 3600020 Connected 1 ''u'')"
    using s by (metis prod.collapse)
  have "\<not> holdsLock ''k'' demoClaimWorld" "mget (wConnections demoClaimWorld) ''k'' = Some (demoConnection\<lparr>cnStatus := Connected\<rparr>)"
    by (simp_all add: demo_claim_simps holdsLock_def)
  from claim_rollback [OF d this, of 30] show ?thesis by auto
qed

text \<open>
  A tick keeps every invariant. After a whole tick, reaping, job reaping, recovery, retention
  sweep, claims and rollbacks included, at most one session holds each connection's lock and the
  books of every connection balance.
\<close>

theorem tick_keeps_world:
  assumes "worldOk w"
    and "schedulerTick sha uuidOk rnd cronNext tzKnown claimFor enqueue startupMs staleMs now w = Inr (w', r)"
  shows "worldOk w'"
proof -
  define w2 where "w2 = fst (reapStaleCrawlJobs startupMs now (fst (reapSessions staleMs now w)))"
  obtain w3 n where rec: "recoverStrandedCrawls sha uuidOk rnd now w2 = Inr (w3, n)"
    and w': "w' = fst (fold (enqueueOne enqueue now) (tkEnqueue (claimDue cronNext tzKnown claimFor now
        (fst (ensureDueRows now (fst (sweepExpiredSessions now w3))))))
      (tkWorld (claimDue cronNext tzKnown claimFor now (fst (ensureDueRows now (fst (sweepExpiredSessions now w3))))), 0))"
    using assms(2) unfolding schedulerTick_def w2_def
    by (auto simp: Let_def split: prod.splits sum.splits)
  have "worldOk w2" unfolding w2_def by (intro worldOk_jobs worldOk_reap assms(1))
  then have "worldOk w3" by (rule worldOk_recover [OF rec])
  then show ?thesis unfolding w'
    by (intro fold_preserves [where P = "\<lambda>x. worldOk (fst x)"])
      (auto intro: worldOk_enqueueOne worldOk_claimDue worldOk_due worldOk_sweep)
qed

theorem tick_keeps_world_witness:
  "\<exists>w' r. schedulerTick demoSha (\<lambda>_. True) (\<lambda>_. ''x'') demoCron (\<lambda>_. True) (\<lambda>_. ''u'') (\<lambda>_. False) 0 0 20 demoClaimWorld = Inr (w', r)
     \<and> worldOk w'"
proof -
  have "worldOk demoClaimWorld"
    by (auto simp: worldOk_def lockInv_def demo_claim_simps connectionsOk_def connectionOk_def statsOk_def
        EMPTY_CRAWL_STATS_def RECENT_COSTS_CAP_def)
  note ok = tick_keeps_world [OF this]
  let ?w2 = "fst (reapStaleCrawlJobs 0 20 (fst (reapSessions 0 20 demoClaimWorld)))"
  have "wSessions ?w2 = []"
    by (simp add: reapSessions_def reapStaleSessions_def reapStaleCrawlJobs_def updateSessions_def updateJobs_def
        demoClaimWorld_def demoWorld_def Let_def)
  then have "recoverStrandedCrawls demoSha (\<lambda>_. True) (\<lambda>_. ''x'') 20 ?w2 = Inr (?w2, 0)"
    by (simp add: recoverStrandedCrawls_def strandedSessions_def orphanedSessions_def)
  from schedulerTick_returns [OF this]
  have "\<exists>w' r. schedulerTick demoSha (\<lambda>_. True) (\<lambda>_. ''x'') demoCron (\<lambda>_. True) (\<lambda>_. ''u'') (\<lambda>_. False) 0 0 20 demoClaimWorld = Inr (w', r)" .
  with ok show ?thesis by blast
qed

text \<open>
  Each occurrence is consumed once, by one side. On the same due record the advance finishes an
  occurrence exactly when the consumer accepts it, with the same answer to whether it dispatches;
  and an occurrence the advance would still plan is one the consumer rejects.
\<close>

theorem schedule_handover:
  "(decideScheduleAdvance due revision conn row plan = Finished d \<longleftrightarrow>
      decideScheduleConsume due revision conn row = (if d then ConsumeDispatch else AdvancedWithoutDispatch))
   \<and> (decideScheduleAdvance due revision conn row plan = Advanced plan' \<longrightarrow> decideScheduleConsume due revision conn row = ConsumeStale)"
  by (cases d) (auto simp: decideScheduleAdvance_def decideScheduleConsume_def split: option.splits if_splits)

theorem schedule_handover_witness:
  "decideScheduleConsume 5 1 (Some \<lparr>scDeleted = False, scScheduleEnabled = True, scScheduleRevision = 1\<rparr>)
     (Some \<lparr>duScheduleRevision = 1, duNextCrawlAtMs = Some 5, duTaskArmed = None, duPendingOccurrenceAtMs = None,
        duPendingOccurrenceShouldDispatch = None\<rparr>) = ConsumeStale"
proof -
  have "decideScheduleAdvance 5 1 (Some \<lparr>scDeleted = False, scScheduleEnabled = True, scScheduleRevision = 1\<rparr>)
     (Some \<lparr>duScheduleRevision = 1, duNextCrawlAtMs = Some 5, duTaskArmed = None, duPendingOccurrenceAtMs = None,
        duPendingOccurrenceShouldDispatch = None\<rparr>) \<lparr>nextCrawlAtMs = 9, shouldDispatch = True\<rparr>
     = Advanced \<lparr>nextCrawlAtMs = 9, shouldDispatch = True\<rparr>"
    by (simp add: decideScheduleAdvance_def claimMatches_def)
  with schedule_handover show ?thesis by blast
qed

text \<open>
  Recovery counts old failures again. The sweep replays every retained terminal session of a syncing connection, not only the
  interrupted one: when the scheduler has claimed a connection and its crawl has not yet opened a
  session, two old failed sessions count as two new failures.
\<close>

theorem recovery_recounts_old_failures:
  assumes "wSessions w = [(i, s), (j, t)]" "ssStatus s = Failed" "ssStatus t = Failed"
    and "ssConnectionId s = k" "ssConnectionId t = k"
    and "mget (wConnections w) k = Some c" "cnStatus c = Syncing"
  shows "\<exists>w' c'. recoverStrandedCrawls sha uuidOk rnd now w = Inr (w', 2)
    \<and> mget (wConnections w') k = Some c' \<and> cnConsecutiveFailures c' = cnConsecutiveFailures c + 2"
proof -
  have "strandedSessions w = [(i, s), (j, t)]"
    using assms by (simp add: strandedSessions_def connectionSyncing_def locked_simps)
  then show ?thesis using assms
    by (auto simp: recoverStrandedCrawls_def recoverOne_def orphanedSessions_def locked_simps applyCrawlFailure_def
        crawlStatsAfterFailure_def mget_updateConnection Let_def split: prod.splits)
qed

theorem recovery_recounts_old_failures_witness:
  "\<exists>w' c'. recoverStrandedCrawls demoSha (\<lambda>_. True) (\<lambda>_. ''x'') 20 (demoWorld\<lparr>wSessions :=
       [(''s1'', (newSession None 0 demoCreate)\<lparr>ssStatus := Failed\<rparr>), (''s2'', (newSession None 0 demoCreate)\<lparr>ssStatus := Failed\<rparr>)]\<rparr>) = Inr (w', 2)
     \<and> mget (wConnections w') ''k'' = Some c' \<and> cnConsecutiveFailures c' = 7"
proof -
  let ?s = "(newSession None 0 demoCreate)\<lparr>ssStatus := Failed\<rparr>"
  let ?w = "demoWorld\<lparr>wSessions := [(''s1'', ?s), (''s2'', ?s)]\<rparr>"
  have "mget (wConnections ?w) ''k'' = Some (demoConnection\<lparr>cnScheduleClaim := Some ''claim''\<rparr>)"
    by (simp add: demoWorld_def mget_Cons)
  from recovery_recounts_old_failures [OF _ _ _ _ _ this, of "''s1''" ?s "''s2''" ?s demoSha "\<lambda>_. True" "\<lambda>_. ''x''" 20]
  show ?thesis by (simp add: newSession_def demoCreate_def demoConnection_def)
qed

end
