(* ===== verification/RunCrawl.thy ===== *)
theory RunCrawl
  imports Scheduler
begin

text \<open>
  \<^verbatim>\<open>apps/control-plane/src/orchestration/run-crawl.ts\<close>, \<^verbatim>\<open>lib/domain.ts\<close> and \<^verbatim>\<open>lib/crawl-budget.ts\<close>: one
  crawl from the lock to the released session. The controller composes the session life cycle, the
  store and the bookkeeping of the other theories. What happens elsewhere while it waits (the engine,
  the operator, the reapers) is an argument: one state transformer per poll, with the empty list for
  the deadline, and one for every other wait. Parameters stand for the URL parser, the public-suffix
  list, the decryption of credentials, the binding of a phone and its token, and the dispatch call.
  A thrown error is the left side of a sum with the state it was thrown in. Webhooks and the wake of
  the companion have no effect on the tables and are left out, as is the column \<^verbatim>\<open>syncCounts\<close>.
\<close>

section \<open>The login domain\<close>

record login_url =
  luProtocol :: string
  luUsername :: string
  luPassword :: string
  luHostname :: string

type_synonym url_parser = "string \<Rightarrow> login_url option"

definition webHostname :: "url_parser \<Rightarrow> string \<Rightarrow> string option" where
  "webHostname parseUrl u =
     (case parseUrl u of
        None \<Rightarrow> None
      | Some p \<Rightarrow>
          if (luProtocol p \<noteq> ''https:'' \<and> luProtocol p \<noteq> ''http:'') \<or> luUsername p \<noteq> [] \<or> luPassword p \<noteq> [] then None
          else if length (luHostname p) > 0 then Some (to_lower (luHostname p)) else None)"

definition hostnameOf :: "url_parser \<Rightarrow> string \<Rightarrow> string option" where
  "hostnameOf parseUrl u = webHostname parseUrl u"

definition isHostWithinDomain :: "url_parser \<Rightarrow> string \<Rightarrow> string \<Rightarrow> bool" where
  "isHostWithinDomain parseUrl u canonicalDomain =
     (case hostnameOf parseUrl u of
        None \<Rightarrow> False
      | Some host \<Rightarrow> if host = [] then False
          else let dom = to_lower canonicalDomain in host = dom \<or> ends_with host (CHR ''.'' # dom))"

text \<open>\<^verbatim>\<open>v.includes(s)\<close>\<close>

fun includesText :: "string \<Rightarrow> string \<Rightarrow> bool" where
  "includesText s [] = (s = [])"
| "includesText s (c # v) = (starts_with (c # v) s \<or> includesText s v)"

definition deriveCanonicalDomain :: "url_parser \<Rightarrow> (string \<Rightarrow> string option) \<Rightarrow> string \<Rightarrow> string option" where
  "deriveCanonicalDomain parseUrl getDomain u =
     (case webHostname parseUrl u of
        None \<Rightarrow> None
      | Some hostname \<Rightarrow>
          (case getDomain hostname of
             None \<Rightarrow> None
           | Some domain \<Rightarrow> if length domain > 0 then Some (to_lower domain) else None))"

definition isRegistrableHost :: "url_parser \<Rightarrow> (string \<Rightarrow> string option) \<Rightarrow> string \<Rightarrow> bool" where
  "isRegistrableHost parseUrl getDomain v =
     (deriveCanonicalDomain parseUrl getDomain (if includesText ''://'' v then v else ''https://'' @ v) \<noteq> None)"

text \<open>\<^verbatim>\<open>/^127\.\d{1,3}\.\d{1,3}\.\d{1,3}$/\<close>: three groups of one to three digits after the prefix.\<close>

fun dotGroups :: "nat \<Rightarrow> string \<Rightarrow> bool" where
  "dotGroups 0 s = (s = [])"
| "dotGroups (Suc n) s =
     (case s of
        [] \<Rightarrow> False
      | c # r \<Rightarrow> c = CHR ''.'' \<and> takeWhile is_digit r \<noteq> [] \<and> length (takeWhile is_digit r) \<le> 3
                \<and> dotGroups n (dropWhile is_digit r))"

definition isLoopbackHost :: "string \<Rightarrow> bool" where
  "isLoopbackHost host =
     (host = ''localhost'' \<or> host = ''::1'' \<or> host = ''[::1]''
      \<or> (starts_with host ''127'' \<and> dotGroups 3 (drop 3 host)))"

definition insecureLoginUrlAllowed :: "string option \<Rightarrow> string option \<Rightarrow> string \<Rightarrow> bool" where
  "insecureLoginUrlAllowed nodeEnv allowInsecure hostname =
     (if isLoopbackHost (to_lower hostname) then True
      else let env = map_option trim nodeEnv in
        if \<not> truthy env \<or> env = Some ''production'' then False else allowInsecure = Some ''1'')"

definition isSecureLoginUrl :: "url_parser \<Rightarrow> string option \<Rightarrow> string option \<Rightarrow> string \<Rightarrow> bool" where
  "isSecureLoginUrl parseUrl nodeEnv allowInsecure u =
     (case parseUrl u of
        None \<Rightarrow> False
      | Some p \<Rightarrow>
          if luProtocol p = ''https:'' then True
          else if luProtocol p \<noteq> ''http:'' then False
          else insecureLoginUrlAllowed nodeEnv allowInsecure (luHostname p))"

section \<open>Time budget\<close>

definition MAX_CRAWL_SECONDS :: int where
  "MAX_CRAWL_SECONDS = 1800"

definition CRAWL_DISPATCH_GRACE_SECONDS :: int where
  "CRAWL_DISPATCH_GRACE_SECONDS = 600"

definition CRAWL_EXPIRE_SECONDS :: int where
  "CRAWL_EXPIRE_SECONDS = MAX_CRAWL_SECONDS + CRAWL_DISPATCH_GRACE_SECONDS"

definition DEFAULT_LEASE_MS :: millis where
  "DEFAULT_LEASE_MS = CRAWL_EXPIRE_SECONDS * 1000"

definition ENGINE_COMPLETION_GRACE_MS :: millis where
  "ENGINE_COMPLETION_GRACE_MS = 90000"

section \<open>Configuration\<close>

record institution =
  inCanonicalDomain :: string
  inLoginUrl :: string
  inAllowedDomains :: "string list"
  inScanStatus :: string
  inTimeoutSeconds :: int
  inThinkingLevel :: "string option"
  inUseDeviceProxy :: bool

text \<open>The columns of a connection that a crawl only reads.\<close>

record connection_profile =
  cpInstitutionId :: string
  cpOwnerSubject :: string
  cpLoginUrlOverride :: "string option"

record crawl_request =
  rqSessionId :: string
  rqLoginUrl :: string
  rqAllowedDomains :: "string list"
  rqUsername :: string
  rqPassword :: string
  rqTimeoutSeconds :: int
  rqThinkingLevel :: "string option"
  rqRecentTransactions :: "jobj list"
  rqCutoffDate :: string
  rqHistoryFloorDate :: string
  rqAccountsWithoutStoredHistory :: "string option list"
  rqTunnelToken :: "string option"

datatype crawl_ack = AckAccepted | AckRefused "string option" | AckThrew string

record crawl_env =
  ceProfiles :: "connection_profile jsmap"
  ceInstitutions :: "institution jsmap"
  ceParseUrl :: url_parser
  ceDecrypt :: "string \<Rightarrow> string + string \<times> string"
  ceHistoryOk :: "jobj list \<Rightarrow> bool"
  ceEngineSharedSecret :: "string option"
  ceBindDevice :: "string \<Rightarrow> string \<Rightarrow> string option"
  ceTunnelToken :: "string \<Rightarrow> string \<Rightarrow> string \<Rightarrow> string"

definition THINKING_LEVELS :: "string list" where
  "THINKING_LEVELS = [''minimal'', ''low'', ''medium'', ''high'']"

definition sanitizeThinkingLevel :: "string option \<Rightarrow> string option" where
  "sanitizeThinkingLevel v = (case v of Some l \<Rightarrow> if l \<in> set THINKING_LEVELS then Some l else None | None \<Rightarrow> None)"

section \<open>Ending a crawl\<close>

definition finishSession :: "millis \<Rightarrow> string \<Rightarrow> bool \<Rightarrow> string option \<Rightarrow> world \<Rightarrow> world" where
  "finishSession now sid success err w = markSessionTerminal now sid success err w"

definition recordFailure ::
  "millis \<Rightarrow> string \<Rightarrow> string \<Rightarrow> failure_reason option \<Rightarrow> rat option \<Rightarrow> world \<Rightarrow> world" where
  "recordFailure now conn err reason cost w =
     w\<lparr>wConnections := fst (applyCrawlFailure now conn
        \<lparr>faError = err, faFailureReason = reason, faCostUsd = cost\<rparr> (wConnections w))\<rparr>"

text \<open>\<^verbatim>\<open>applyCrawlFailure\<close> followed by \<^verbatim>\<open>finishSession(false, error)\<close>, as on every refusing path.\<close>

definition failCrawl ::
  "millis \<Rightarrow> string \<Rightarrow> string \<Rightarrow> string \<Rightarrow> failure_reason option \<Rightarrow> rat option \<Rightarrow> world \<Rightarrow> world" where
  "failCrawl now conn sid err reason cost w = finishSession now sid False (Some err) (recordFailure now conn err reason cost w)"

datatype run_outcome = RunLocked | RunFailed string string | RunCompleted string "store_result option"

section \<open>Gates and the request\<close>

text \<open>The messages of the refusals; their typographic apostrophes are written as plain ones.\<close>

datatype gate_result =
    GateThrow string
  | GateNotReady string
  | GateRefuse string
  | GateOpen connection connection_profile institution

definition crawlGate :: "crawl_env \<Rightarrow> string \<Rightarrow> world \<Rightarrow> gate_result" where
  "crawlGate env conn w =
     (case (mget (wConnections w) conn, mget (ceProfiles env) conn) of
        (Some c, Some p) \<Rightarrow>
          (case mget (ceInstitutions env) (cpInstitutionId p) of
             None \<Rightarrow> GateThrow ''institution not found''
           | Some inst \<Rightarrow>
               if \<not> isRecoverableConnectionStatus (cnStatus c)
               then GateNotReady ''This connection must be enabled and signed in before the crawl can start.''
               else if \<not> cnLoginDomainVerified c
               then GateRefuse ''This institution's login domain hasn't been verified, so the crawl can't start.''
               else if truthy (cpLoginUrlOverride p)
                       \<and> \<not> isHostWithinDomain (ceParseUrl env) (or_else (cpLoginUrlOverride p) []) (inCanonicalDomain inst)
               then GateRefuse ''The saved login address doesn't match this institution's domain.''
               else if inScanStatus inst \<noteq> ''passed''
               then GateRefuse ''The crawl can't start until its safety check passes.''
               else GateOpen c p inst)
      | _ \<Rightarrow> GateThrow ''Connection not found.'')"

definition txRowsOf :: "string \<Rightarrow> world \<Rightarrow> (string \<times> jobj) list" where
  "txRowsOf conn w = map (\<lambda>(i, r). (i, trData r)) (filter (\<lambda>(i, r). trConnectionId r = conn) (dbTransactions (wDb w)))"

definition bookingDateOf :: "jobj \<Rightarrow> string" where
  "bookingDateOf d = (case str_field ''bookingDate'' d of Some s \<Rightarrow> s | None \<Rightarrow> [])"

text \<open>\<^verbatim>\<open>localeCompare\<close> orders calendar dates of four-digit years as their code units do.\<close>

definition recentTransactionRows :: "string option \<Rightarrow> string \<Rightarrow> (string \<times> jobj) list \<Rightarrow> (string \<times> jobj) list" where
  "recentTransactionRows lastDay cutoffDate txRows =
     (if truthy lastDay
      then rev (sort_key (\<lambda>r. bookingDateOf (snd r)) (rev (filter (\<lambda>r. bookingDateOf (snd r) \<ge> cutoffDate) txRows)))
      else [])"

definition targetRow :: "string \<Rightarrow> string \<times> jobj \<Rightarrow> target_row" where
  "targetRow sid r =
     \<lparr>tgSessionId = sid,
      tgProviderAccountId = Some (case str_field ''providerAccountId'' (snd r) of Some a \<Rightarrow> a | None \<Rightarrow> []),
      tgCanonicalId = (case str_field ''providerTransactionId'' (snd r) of Some t \<Rightarrow> t | None \<Rightarrow> []),
      tgTransactionId = fst r\<rparr>"

text \<open>Inserting the private targets 500 rows at a time.\<close>

function insertTargets :: "target_row list \<Rightarrow> target_row list \<Rightarrow> target_row list" where
  "insertTargets rows stored = (if rows = [] then stored else insertTargets (drop 500 rows) (stored @ take 500 rows))"
  by pat_completeness auto
termination by (relation "measure (length \<circ> fst)") auto

declare insertTargets.simps [simp del]

definition accountIdsOf :: "string \<Rightarrow> world \<Rightarrow> string option list" where
  "accountIdsOf conn w =
     map (\<lambda>(i, r). str_field ''providerAccountId'' (arData r)) (filter (\<lambda>(i, r). arConnectionId r = conn) (dbAccounts (wDb w)))"

definition accountsWithoutStoredHistory :: "string \<Rightarrow> world \<Rightarrow> string option list" where
  "accountsWithoutStoredHistory conn w =
     (let stored = filter truthy (map (\<lambda>r. str_field ''providerAccountId'' (snd r)) (txRowsOf conn w))
      in filter (\<lambda>a. a \<notin> set stored) (accountIdsOf conn w))"

datatype start_result =
    StartThrow string world
  | StartRefuse string world
  | StartNotReady string world
  | StartDispatch crawl_request world

definition startCrawl :: "crawl_env \<Rightarrow> millis \<Rightarrow> string \<Rightarrow> string \<Rightarrow> world \<Rightarrow> start_result" where
  "startCrawl env today conn sid w =
     (case crawlGate env conn w of
        GateThrow e \<Rightarrow> StartThrow e w
      | GateNotReady e \<Rightarrow> StartNotReady e w
      | GateRefuse e \<Rightarrow> StartRefuse e w
      | GateOpen c p inst \<Rightarrow>
          (case ceDecrypt env conn of
             Inl e \<Rightarrow> StartThrow e w
           | Inr (username, password) \<Rightarrow>
               (let lastDay = lastSuccessfulTxCrawlDay (cnCrawlStats c) in
                case (deriveTransactionCutoffDate lastDay today, deriveTransactionCutoffDate None today) of
                  (Some cutoffDate, Some historyFloorDate) \<Rightarrow>
                    let recent = recentTransactionRows lastDay cutoffDate (txRowsOf conn w) in
                    if \<not> ceHistoryOk env (map snd recent) then StartThrow ''invalid transaction history'' w
                    else
                      let w1 = w\<lparr>wDb := (wDb w)\<lparr>dbTargets := insertTargets (map (targetRow sid) recent) (dbTargets (wDb w))\<rparr>\<rparr>;
                          request = (\<lambda>token.
                            \<lparr>rqSessionId = sid,
                             rqLoginUrl = (case cpLoginUrlOverride p of Some u \<Rightarrow> u | None \<Rightarrow> inLoginUrl inst),
                             rqAllowedDomains = inAllowedDomains inst, rqUsername = username, rqPassword = password,
                             rqTimeoutSeconds = min (inTimeoutSeconds inst) MAX_CRAWL_SECONDS,
                             rqThinkingLevel = sanitizeThinkingLevel (inThinkingLevel inst),
                             rqRecentTransactions = map snd recent, rqCutoffDate = cutoffDate,
                             rqHistoryFloorDate = historyFloorDate,
                             rqAccountsWithoutStoredHistory = accountsWithoutStoredHistory conn w,
                             rqTunnelToken = token\<rparr>)
                      in if \<not> inUseDeviceProxy inst then StartDispatch (request None) w1
                         else if \<not> truthy (ceEngineSharedSecret env)
                         then StartRefuse ''Accrawl isn't configured to route crawls through a phone's network.'' w1
                         else (case ceBindDevice env sid (cpOwnerSubject p) of
                                 None \<Rightarrow> StartRefuse ''None of the paired phones is allowed to crawl this connection.'' w1
                               | Some device \<Rightarrow>
                                   StartDispatch (request (Some (ceTunnelToken env (or_else (ceEngineSharedSecret env) []) sid device))) w1)
                | _ \<Rightarrow> StartThrow ''Invalid time value'' w)))"

section \<open>Waiting for the engine\<close>

text \<open>One look at the session: its row, and whether a success awaits promotion.\<close>

definition readOutcome :: "string \<Rightarrow> world \<Rightarrow> (session \<times> bool) option" where
  "readOutcome sid w =
     (case mget (wSessions w) sid of
        None \<Rightarrow> None
      | Some s \<Rightarrow>
          if ssStatus s \<in> {Completed, Failed, Cancelled} then Some (s, False)
          else if ssStatus s = Cancelling then None
          else if \<not> hasDoneEvent sid w then None
          else if firstDoneSucceeded sid w then Some (s, True)
          else Some (s\<lparr>ssStatus := Failed, ssError := (case ssError s of Some e \<Rightarrow> Some e | None \<Rightarrow> Some ''crawl failed'')\<rparr>, False))"

fun waitForEngineOutcome :: "string \<Rightarrow> (world \<Rightarrow> world) list \<Rightarrow> world \<Rightarrow> world \<times> (session \<times> bool) option" where
  "waitForEngineOutcome sid turns w =
     (case readOutcome sid w of
        Some outcome \<Rightarrow> (w, Some outcome)
      | None \<Rightarrow> (case turns of [] \<Rightarrow> (w, None) | others # rest \<Rightarrow> waitForEngineOutcome sid rest (others w)))"

declare waitForEngineOutcome.simps [simp del]

section \<open>Settling the outcome\<close>

definition promoteCrawl ::
  "digest \<Rightarrow> (string \<Rightarrow> bool) \<Rightarrow> (nat \<Rightarrow> string) \<Rightarrow> millis \<Rightarrow> millis \<Rightarrow> string \<Rightarrow> string \<Rightarrow> session \<Rightarrow> world
     \<Rightarrow> (string \<times> world) + world \<times> store_result" where
  "promoteCrawl sha uuidOk randomUUID now today conn sid final w =
     (case storeCrawlResults sha uuidOk [] randomUUID now
         \<lparr>siConnectionId = conn, siSessionId = Some sid,
          siAccounts = map stData (stagedOf StagedAccount sid w),
          siTransactions = map (\<lambda>r. stagedTransactionForStore (stId r, stData r)) (stagedOf StagedTransaction sid w),
          siPositions = map stData (stagedOf StagedPosition sid w),
          siRecentlySentUpdateTargets = []\<rparr> (wDb w) of
        Inl e \<Rightarrow> Inl (e, w)
      | Inr (db, store) \<Rightarrow>
          Inr (w\<lparr>wDb := db,
                 wConnections := applyCrawlSuccess now conn
                   \<lparr>suCrawlMemory = ssCrawlMemory final, suCostUsd = ssTotalCostUsd final, suToday = today,
                    suTransactionsRejected = Some (rRejectedTransactions store + rTransactionsDropped store)\<rparr>
                   (wConnections w)\<rparr>, store))"

definition settleOutcome ::
  "digest \<Rightarrow> (string \<Rightarrow> bool) \<Rightarrow> (nat \<Rightarrow> string) \<Rightarrow> millis \<Rightarrow> millis \<Rightarrow> string \<Rightarrow> string \<Rightarrow> (world \<Rightarrow> world)
     \<Rightarrow> session \<times> bool \<Rightarrow> world \<Rightarrow> (string \<times> world) + world \<times> run_outcome" where
  "settleOutcome sha uuidOk randomUUID now today conn sid duringStore outcome w =
     (let (final, awaiting) = outcome;
          failed = (\<lambda>default. let err = (case ssError final of Some e \<Rightarrow> e | None \<Rightarrow> default) in
                      Inr (failCrawl now conn sid err (ssFailureReason final) (ssTotalCostUsd final) w, RunFailed sid err))
      in if ssStatus final = Cancelled then failed ''cancelled by operator''
         else if ssStatus final = Completed then Inr (w, RunCompleted sid None)
         else if \<not> awaiting then failed ''crawl failed''
         else case promoteCrawl sha uuidOk randomUUID now today conn sid final w of
                Inl e \<Rightarrow> Inl e
              | Inr (w1, store) \<Rightarrow> Inr (finishSession now sid True None (duringStore w1), RunCompleted sid (Some store)))"

text \<open>The deadline: cancel, fence the engine, or read the outcome that won the race.\<close>

definition DEADLINE_ERROR :: string where
  "DEADLINE_ERROR = ''The crawl didn't finish within the allowed time.''"

definition settleDeadline ::
  "(world \<Rightarrow> world \<times> string option) \<Rightarrow> (world \<Rightarrow> world) list \<Rightarrow> millis \<Rightarrow> string \<Rightarrow> string \<Rightarrow> world
     \<Rightarrow> (string \<times> world) + world \<times> (session \<times> bool) option" where
  "settleDeadline fenceCrawl turns now conn sid w =
     (case requestSessionCancellation sid w of
        (w1, cancellation) \<Rightarrow>
          if cancellation = CancellationRequested \<or> cancellation = AlreadyCancelling then
            (case fenceCrawl w1 of
               (w2, Some e) \<Rightarrow> Inl (e, w2)
             | (w2, None) \<Rightarrow>
                 if cancellation = CancellationRequested
                 then Inr (failCrawl now conn sid DEADLINE_ERROR (Some InstanceDied) None
                             (fst (finalizeSessionFailureAfterFence now sid DEADLINE_ERROR w2)), None)
                 else (case waitForEngineOutcome sid turns (fst (finalizeSessionCancellation now sid w2)) of
                         (w3, None) \<Rightarrow> Inl (DEADLINE_ERROR, w3)
                       | (w3, Some outcome) \<Rightarrow> Inr (w3, Some outcome)))
          else (case waitForEngineOutcome sid turns w1 of
                  (w3, None) \<Rightarrow> Inl (DEADLINE_ERROR, w3)
                | (w3, Some outcome) \<Rightarrow> Inr (w3, Some outcome)))"

section \<open>The controller\<close>

record run_inputs =
  rnSha :: digest
  rnUuidOk :: "string \<Rightarrow> bool"
  rnRandomUUID :: "nat \<Rightarrow> string"
  rnRetention :: "int option"
  rnNewId :: string
  rnStart :: millis
  rnNow :: millis
  rnLeaseOwner :: string
  rnLeaseMs :: "millis option"
  rnDispatch :: "crawl_request \<Rightarrow> world \<Rightarrow> world \<times> crawl_ack"
  rnTurns :: "(world \<Rightarrow> world) list"
  rnLateTurns :: "(world \<Rightarrow> world) list"
  rnFence :: "world \<Rightarrow> world \<times> string option"
  rnDuringStore :: "world \<Rightarrow> world"

definition crawlBody ::
  "crawl_env \<Rightarrow> run_inputs \<Rightarrow> string \<Rightarrow> string \<Rightarrow> world \<Rightarrow> (string \<times> world) + world \<times> run_outcome" where
  "crawlBody env r conn sid w =
     (let settle = settleOutcome (rnSha r) (rnUuidOk r) (rnRandomUUID r) (rnNow r) (rnStart r) conn sid (rnDuringStore r) in
      case startCrawl env (rnStart r) conn sid w of
        StartThrow e w1 \<Rightarrow> Inl (e, w1)
      | StartNotReady e w1 \<Rightarrow> Inr (finishSession (rnNow r) sid False (Some e) w1, RunFailed sid e)
      | StartRefuse e w1 \<Rightarrow> Inr (failCrawl (rnNow r) conn sid e (Some InternalError) None w1, RunFailed sid e)
      | StartDispatch request w1 \<Rightarrow>
          (case rnDispatch r request w1 of
             (w2, AckThrew e) \<Rightarrow> Inl (e, w2)
           | (w2, AckRefused err) \<Rightarrow>
               let e = (case err of Some e \<Rightarrow> e | None \<Rightarrow> ''engine did not accept the crawl'')
               in Inr (failCrawl (rnNow r) conn sid e (Some InstanceDied) None w2, RunFailed sid e)
           | (w2, AckAccepted) \<Rightarrow>
               (case waitForEngineOutcome sid (rnTurns r) w2 of
                  (w3, Some outcome) \<Rightarrow> settle outcome w3
                | (w3, None) \<Rightarrow>
                    (case settleDeadline (rnFence r) (rnLateTurns r) (rnNow r) conn sid w3 of
                       Inl e \<Rightarrow> Inl e
                     | Inr (w4, None) \<Rightarrow> Inr (w4, RunFailed sid DEADLINE_ERROR)
                     | Inr (w4, Some outcome) \<Rightarrow> settle outcome w4))))"

definition runCrawl ::
  "crawl_env \<Rightarrow> run_inputs \<Rightarrow> string \<Rightarrow> nat option \<Rightarrow> string option \<Rightarrow> world \<Rightarrow> world \<times> run_outcome" where
  "runCrawl env r conn expectedScheduleRevision expectedScheduleClaim w =
     (case createCrawlSession (rnRetention r) (rnNewId r) (rnStart r)
         \<lparr>csConnectionId = conn, csLeaseOwner = rnLeaseOwner r,
          csLeaseMs = (case rnLeaseMs r of Some l \<Rightarrow> l | None \<Rightarrow> DEFAULT_LEASE_MS),
          csExpectedScheduleRevision = expectedScheduleRevision, csExpectedScheduleClaim = expectedScheduleClaim\<rparr> w of
        (w0, None) \<Rightarrow> (w0, RunLocked)
      | (w0, Some sid) \<Rightarrow>
          (case crawlBody env r conn sid w0 of
             Inr result \<Rightarrow> result
           | Inl (e, w1) \<Rightarrow> (failCrawl (rnNow r) conn sid e (Some InternalError) None w1, RunFailed sid e)))"

section \<open>Lemmas\<close>

lemma insertTargets_append: "insertTargets rows stored = stored @ rows"
proof (induction rows stored rule: insertTargets.induct)
  case (1 rows stored)
  then show ?case by (subst insertTargets.simps) simp
qed

lemma waitForEngineOutcome_simps:
  "waitForEngineOutcome sid [] w = (w, readOutcome sid w)"
  "waitForEngineOutcome sid (others # turns) w =
     (case readOutcome sid w of Some outcome \<Rightarrow> (w, Some outcome) | None \<Rightarrow> waitForEngineOutcome sid turns (others w))"
  by (subst waitForEngineOutcome.simps, simp split: option.splits)+

lemma waitForEngineOutcome_read:
  "waitForEngineOutcome sid turns w = (w', o') \<Longrightarrow> readOutcome sid w' = o'"
  by (induction turns arbitrary: w) (auto simp: waitForEngineOutcome_simps split: option.splits)

lemma readOutcome_Some:
  assumes "readOutcome sid w = Some (final, awaiting)"
  shows "\<exists>s. mget (wSessions w) sid = Some s \<and> ssStatus s \<noteq> Cancelling
    \<and> (awaiting \<longrightarrow> final = s \<and> active s \<and> firstDoneSucceeded sid w)
    \<and> (ssStatus final \<in> {Completed, Cancelled} \<longrightarrow> final = s \<or> awaiting)"
  using assms by (auto simp: readOutcome_def locked_simps split: option.splits if_splits)

definition notActive :: "string \<Rightarrow> world \<Rightarrow> bool" where
  "notActive sid w = (\<forall>s. mget (wSessions w) sid = Some s \<longrightarrow> \<not> active s)"

lemma notActive_finish [simp]: "notActive sid (finishSession now sid success err w)"
proof -
  have "\<not> active s" if "mget (wSessions (finishSession now sid success err w)) sid = Some s" for s
  proof -
    from that obtain t where "mget (wSessions w) sid = Some t"
      and s: "active t \<Longrightarrow> ssStatus s = (if success then Completed else Failed)" "\<not> active t \<Longrightarrow> s = t"
      by (auto simp: finishSession_def markSessionTerminal_def mget_updateSessions)
    then show ?thesis by (cases "active t") (auto simp: locked_simps split: if_splits)
  qed
  then show ?thesis by (simp add: notActive_def)
qed

lemma notActive_fail [simp]: "notActive sid (failCrawl now conn sid err reason cost w)"
  by (simp add: failCrawl_def)

lemma notActive_settle:
  assumes "settleOutcome sha uuidOk rnd now today conn sid others outcome w = Inr (w', out)"
    and "readOutcome sid w = Some outcome"
  shows "notActive sid w' \<and> (\<exists>e store. out = RunFailed sid e \<or> out = RunCompleted sid store)"
proof -
  obtain final awaiting where o': "outcome = (final, awaiting)" by fastforce
  have done_row: "notActive sid w" if "ssStatus final = Completed" "\<not> awaiting"
    using readOutcome_Some [of sid w final awaiting] assms(2) o' that
    by (auto simp: notActive_def locked_simps)
  have "awaiting \<Longrightarrow> ssStatus final \<notin> {Completed, Cancelled}"
    using readOutcome_Some [of sid w final awaiting] assms(2) o' by (auto simp: locked_simps)
  with assms(1) o' done_row show ?thesis
    by (auto simp: settleOutcome_def Let_def split: if_splits sum.splits)
qed

lemma notActive_body:
  assumes "crawlBody env r conn sid w = Inr (w', out)"
  shows "notActive sid w' \<and> (\<exists>e store. out = RunFailed sid e \<or> out = RunCompleted sid store)"
proof -
  let ?settle = "settleOutcome (rnSha r) (rnUuidOk r) (rnRandomUUID r) (rnNow r) (rnStart r) conn sid (rnDuringStore r)"
  have late: "readOutcome sid w4 = Some outcome"
    if "settleDeadline (rnFence r) (rnLateTurns r) (rnNow r) conn sid w3 = Inr (w4, Some outcome)" for w3 w4 outcome
    using that by (auto simp: settleDeadline_def dest: waitForEngineOutcome_read split: prod.splits option.splits if_splits)
  have early: "notActive sid w4"
    if "settleDeadline (rnFence r) (rnLateTurns r) (rnNow r) conn sid w3 = Inr (w4, None)" for w3 w4
    using that by (auto simp: settleDeadline_def split: prod.splits option.splits if_splits)
  show ?thesis
    using assms
    by (auto simp: crawlBody_def Let_def split: start_result.splits prod.splits crawl_ack.splits option.splits sum.splits
        dest: waitForEngineOutcome_read notActive_settle late early)
qed

lemma createCrawlSession_id:
  "createCrawlSession env newId now input w = (w', Some sid) \<Longrightarrow> sid = newId"
  by (auto simp: createCrawlSession_def Let_def split: if_splits)

section \<open>An example crawl\<close>

definition demoUrl :: url_parser where
  "demoUrl u = (if u = ''https://login.bank.test/'' then
     Some \<lparr>luProtocol = ''https:'', luUsername = [], luPassword = [], luHostname = ''login.bank.test''\<rparr> else None)"

definition demoInstitution :: institution where
  "demoInstitution = \<lparr>inCanonicalDomain = ''bank.test'', inLoginUrl = ''https://bank.test/'', inAllowedDomains = [],
     inScanStatus = ''passed'', inTimeoutSeconds = 5000, inThinkingLevel = Some ''huge'', inUseDeviceProxy = False\<rparr>"

definition demoEnv :: crawl_env where
  "demoEnv = \<lparr>ceProfiles = [(''k'', \<lparr>cpInstitutionId = ''bank'', cpOwnerSubject = ''owner'',
       cpLoginUrlOverride = Some ''https://login.bank.test/''\<rparr>)],
     ceInstitutions = [(''bank'', demoInstitution)], ceParseUrl = demoUrl, ceDecrypt = (\<lambda>_. Inr (''user'', ''secret'')),
     ceHistoryOk = (\<lambda>_. True), ceEngineSharedSecret = None, ceBindDevice = (\<lambda>_ _. None), ceTunnelToken = (\<lambda>_ _ _. [])\<rparr>"

definition engineSucceeds :: "world \<Rightarrow> world" where
  "engineSucceeds w = w\<lparr>wEvents := wEvents w @ [\<lparr>evSessionId = ''run'', evType = ''done'', evSuccess = True\<rparr>]\<rparr>"

definition demoRun :: run_inputs where
  "demoRun = \<lparr>rnSha = (\<lambda>_. [1]), rnUuidOk = (\<lambda>_. True), rnRandomUUID = (\<lambda>_. ''u''), rnRetention = None, rnNewId = ''run'',
     rnStart = 19800 * 86400000, rnNow = 19800 * 86400000 + 60000, rnLeaseOwner = ''me'', rnLeaseMs = None,
     rnDispatch = (\<lambda>rq w. (w, AckAccepted)), rnTurns = [id, engineSucceeds], rnLateTurns = [],
     rnFence = (\<lambda>w. (w, None)), rnDuringStore = id\<rparr>"

lemma demo_run_eval:
  "(case snd (runCrawl demoEnv demoRun ''k'' None None demoWorld) of RunCompleted i (Some st) \<Rightarrow> i = ''run'' | _ \<Rightarrow> False)"
  "map_option (\<lambda>c. (cnStatus c, totalCount (cnCrawlStats c)))
     (mget (wConnections (fst (runCrawl demoEnv demoRun ''k'' None None demoWorld))) ''k'') = Some (Connected, 7)"
  by code_simp+

lemma demo_run:
  obtains store where "runCrawl demoEnv demoRun ''k'' None None demoWorld =
    (fst (runCrawl demoEnv demoRun ''k'' None None demoWorld), RunCompleted ''run'' (Some store))"
  using demo_run_eval(1) by (auto simp: prod_eq_iff split: run_outcome.splits option.splits)

text \<open>
  C5: Whatever the engine, the operator and the reapers do while a crawl runs, and wherever an
  error is thrown, a crawl that took the lock never ends with its session still active: the
  session is terminal, or a cancellation that is still waiting for its fence owns it.
\<close>

theorem crawl_never_left_active:
  assumes "runCrawl env r conn revision claim w = (w', out)" and "out \<noteq> RunLocked"
  shows "notActive (rnNewId r) w' \<and> (\<exists>e store. out = RunFailed (rnNewId r) e \<or> out = RunCompleted (rnNewId r) store)"
  using assms
  by (auto simp: runCrawl_def split: prod.splits option.splits sum.splits dest!: createCrawlSession_id dest: notActive_body)

theorem crawl_never_left_active_witness:
  "\<exists>w' store. runCrawl demoEnv demoRun ''k'' None None demoWorld = (w', RunCompleted ''run'' (Some store)) \<and> notActive ''run'' w'"
proof (rule demo_run)
  fix store
  let ?w = "fst (runCrawl demoEnv demoRun ''k'' None None demoWorld)"
  assume "runCrawl demoEnv demoRun ''k'' None None demoWorld = (?w, RunCompleted ''run'' (Some store))"
  moreover from crawl_never_left_active [OF this] have "notActive ''run'' ?w" by (simp add: demoRun_def)
  ultimately show ?thesis by blast
qed

section \<open>What is dispatched\<close>

lemma crawlGate_open:
  assumes "crawlGate env conn w = GateOpen c p inst"
  shows "mget (wConnections w) conn = Some c \<and> mget (ceProfiles env) conn = Some p
    \<and> mget (ceInstitutions env) (cpInstitutionId p) = Some inst
    \<and> isRecoverableConnectionStatus (cnStatus c) \<and> cnLoginDomainVerified c \<and> inScanStatus inst = ''passed''
    \<and> (truthy (cpLoginUrlOverride p) \<longrightarrow>
         isHostWithinDomain (ceParseUrl env) (or_else (cpLoginUrlOverride p) []) (inCanonicalDomain inst))"
  using assms by (auto simp: crawlGate_def split: option.splits if_splits)

lemma set_recentTransactionRows:
  "set (recentTransactionRows lastDay cutoff rows) =
     (if truthy lastDay then {r \<in> set rows. cutoff \<le> bookingDateOf (snd r)} else {})"
  by (auto simp: recentTransactionRows_def)

lemma sorted_recentTransactionRows:
  "sorted (rev (map (\<lambda>r. bookingDateOf (snd r)) (recentTransactionRows lastDay cutoff rows)))"
  by (simp add: recentTransactionRows_def rev_map)

text \<open>
  C6: Credentials leave the control plane only for a connection that is enabled, whose login domain was
  verified and whose recipe passed its safety scan, towards the institution's own login page or an
  override inside its domain, with a time limit of at most half an hour, and through a bound phone
  whenever the institution demands one. The comparison list is exactly the stored transactions of the
  window, newest first and empty before the first success, and each of its rows is registered as an
  update target of this session.
\<close>

theorem dispatch_is_gated:
  assumes "startCrawl env today conn sid w = StartDispatch rq w1"
  shows "\<exists>c p inst.
      mget (wConnections w) conn = Some c \<and> mget (ceProfiles env) conn = Some p
    \<and> mget (ceInstitutions env) (cpInstitutionId p) = Some inst
    \<and> isRecoverableConnectionStatus (cnStatus c) \<and> cnLoginDomainVerified c \<and> inScanStatus inst = ''passed''
    \<and> (rqLoginUrl rq = inLoginUrl inst \<or> rqLoginUrl rq = []
       \<or> isHostWithinDomain (ceParseUrl env) (rqLoginUrl rq) (inCanonicalDomain inst))
    \<and> rqTimeoutSeconds rq \<le> 1800
    \<and> (inUseDeviceProxy inst \<longrightarrow> (\<exists>device. ceBindDevice env sid (cpOwnerSubject p) = Some device
         \<and> rqTunnelToken rq = Some (ceTunnelToken env (or_else (ceEngineSharedSecret env) []) sid device)))
    \<and> set (rqRecentTransactions rq) =
        (if truthy (lastSuccessfulTxCrawlDay (cnCrawlStats c))
         then {d \<in> snd ` set (txRowsOf conn w). rqCutoffDate rq \<le> bookingDateOf d} else {})
    \<and> sorted (rev (map bookingDateOf (rqRecentTransactions rq)))
    \<and> (\<exists>rows. map snd rows = rqRecentTransactions rq
         \<and> dbTargets (wDb w1) = dbTargets (wDb w) @ map (targetRow sid) rows)"
proof -
  obtain c p inst where gate: "crawlGate env conn w = GateOpen c p inst"
    using assms by (cases "crawlGate env conn w") (auto simp: startCrawl_def)
  note open_facts = crawlGate_open [OF gate]
  let ?last = "lastSuccessfulTxCrawlDay (cnCrawlStats c)"
  obtain username password cutoff floorDate where
    parts: "ceDecrypt env conn = Inr (username, password)" "deriveTransactionCutoffDate ?last today = Some cutoff"
      "deriveTransactionCutoffDate None today = Some floorDate"
    using assms gate by (auto simp: startCrawl_def Let_def split: sum.splits option.splits)
  let ?recent = "recentTransactionRows ?last cutoff (txRowsOf conn w)"
  have fields: "rqLoginUrl rq = (case cpLoginUrlOverride p of Some u \<Rightarrow> u | None \<Rightarrow> inLoginUrl inst)"
      "rqTimeoutSeconds rq = min (inTimeoutSeconds inst) MAX_CRAWL_SECONDS" "rqCutoffDate rq = cutoff"
      "rqRecentTransactions rq = map snd ?recent"
      "dbTargets (wDb w1) = dbTargets (wDb w) @ map (targetRow sid) ?recent"
    and proxy: "inUseDeviceProxy inst \<Longrightarrow> \<exists>device. ceBindDevice env sid (cpOwnerSubject p) = Some device
         \<and> rqTunnelToken rq = Some (ceTunnelToken env (or_else (ceEngineSharedSecret env) []) sid device)"
    using assms gate parts
    by (auto simp: startCrawl_def Let_def insertTargets_append split: if_splits option.splits)
  have login: "rqLoginUrl rq = inLoginUrl inst \<or> rqLoginUrl rq = []
      \<or> isHostWithinDomain (ceParseUrl env) (rqLoginUrl rq) (inCanonicalDomain inst)"
  proof (cases "cpLoginUrlOverride p")
    case (Some u)
    then show ?thesis using open_facts fields(1) by (cases "u = []") simp_all
  qed (use fields(1) in simp)
  have recent: "set (rqRecentTransactions rq) =
      (if truthy ?last then {d \<in> snd ` set (txRowsOf conn w). rqCutoffDate rq \<le> bookingDateOf d} else {})"
    using fields(3,4) set_recentTransactionRows [of ?last cutoff "txRowsOf conn w"] by auto
  have "sorted (rev (map bookingDateOf (rqRecentTransactions rq)))"
    using fields(4) sorted_recentTransactionRows [of ?last cutoff "txRowsOf conn w"] by (simp add: comp_def)
  with open_facts fields proxy login recent show ?thesis
    by (intro exI [of _ c] exI [of _ p] exI [of _ inst]) (auto simp: MAX_CRAWL_SECONDS_def)
qed

lemma demo_start: "(case startCrawl demoEnv 1710720000000 ''k'' ''run'' demoWorld of
    StartDispatch rq w1 \<Rightarrow> rqLoginUrl rq = ''https://login.bank.test/'' \<and> rqTimeoutSeconds rq = 1800 \<and> rqThinkingLevel rq = None
  | _ \<Rightarrow> False)"
  by code_simp

theorem dispatch_is_gated_witness:
  "\<exists>rq w1 (inst :: institution). startCrawl demoEnv 1710720000000 ''k'' ''run'' demoWorld = StartDispatch rq w1
     \<and> inScanStatus inst = ''passed'' \<and> rqTimeoutSeconds rq \<le> 1800"
proof -
  obtain rq w1 where s: "startCrawl demoEnv 1710720000000 ''k'' ''run'' demoWorld = StartDispatch rq w1"
    using demo_start by (auto split: start_result.splits)
  obtain inst :: institution where "inScanStatus inst = ''passed''" "rqTimeoutSeconds rq \<le> 1800"
    using dispatch_is_gated [OF s] by (elim exE conjE) (rule that, assumption+)
  with s show ?thesis by blast
qed

section \<open>What is promoted and counted\<close>

lemma settle_promoted:
  assumes "settleOutcome sha uuidOk rnd now today conn sid others outcome w = Inr (w', RunCompleted i (Some store))"
    and "readOutcome sid w = Some outcome"
  shows "\<exists>s v. mget (wSessions w) sid = Some s \<and> active s \<and> firstDoneSucceeded sid w
    \<and> promoteCrawl sha uuidOk rnd now today conn sid s w = Inr (v, store) \<and> w' = finishSession now sid True None (others v)"
proof -
  obtain final awaiting where o': "outcome = (final, awaiting)" by fastforce
  have "awaiting" and p: "\<exists>v. promoteCrawl sha uuidOk rnd now today conn sid final w = Inr (v, store)
      \<and> w' = finishSession now sid True None (others v)"
    using assms(1) o' by (auto simp: settleOutcome_def Let_def split: if_splits sum.splits)
  with readOutcome_Some [of sid w final awaiting] assms(2) o' show ?thesis by blast
qed

lemma late_outcome_read:
  "settleDeadline fence turns now conn sid w = Inr (w', Some outcome) \<Longrightarrow> readOutcome sid w' = Some outcome"
  by (auto simp: settleDeadline_def dest: waitForEngineOutcome_read split: prod.splits option.splits if_splits)

lemma body_promoted:
  assumes "crawlBody env r conn sid w = Inr (w', RunCompleted i (Some store))"
  shows "\<exists>u outcome. readOutcome sid u = Some outcome
    \<and> settleOutcome (rnSha r) (rnUuidOk r) (rnRandomUUID r) (rnNow r) (rnStart r) conn sid (rnDuringStore r) outcome u
        = Inr (w', RunCompleted i (Some store))"
  using assms
  by (auto simp: crawlBody_def Let_def split: start_result.splits prod.splits crawl_ack.splits option.splits sum.splits
      dest: waitForEngineOutcome_read late_outcome_read)



definition attempts :: "string \<Rightarrow> world \<Rightarrow> nat option" where
  "attempts conn w = map_option (\<lambda>c. totalCount (cnCrawlStats c)) (mget (wConnections w) conn)"

definition connStatusOf :: "string \<Rightarrow> world \<Rightarrow> conn_status option" where
  "connStatusOf conn w = map_option cnStatus (mget (wConnections w) conn)"

text \<open>Everything that runs beside the crawl leaves the connections table alone.\<close>

definition leavesConnections :: "run_inputs \<Rightarrow> bool" where
  "leavesConnections r =
     ((\<forall>f \<in> set (rnTurns r @ rnLateTurns r @ [rnDuringStore r]). \<forall>v. wConnections (f v) = wConnections v)
      \<and> (\<forall>rq v. wConnections (fst (rnDispatch r rq v)) = wConnections v)
      \<and> (\<forall>v. wConnections (fst (rnFence r v)) = wConnections v))"

lemma books_finish [simp]:
  "wConnections (finishSession now sid success err w) = wConnections w"
  by (simp add: finishSession_def markSessionTerminal_def updateSessions_def)

lemma attempts_fail:
  "attempts conn w = Some n \<Longrightarrow> attempts conn (failCrawl now conn sid err reason cost w) = Some (Suc n)"
  by (auto simp: attempts_def failCrawl_def recordFailure_def applyCrawlFailure_def crawlStatsAfterFailure_def
      mget_updateConnection Let_def split: prod.splits)

lemma attempts_promote:
  "promoteCrawl sha uuidOk rnd now today conn sid s w = Inr (v, store) \<Longrightarrow> attempts conn w = Some n \<Longrightarrow>
     connStatusOf conn w \<noteq> Some Disabled \<Longrightarrow> attempts conn v = Some (Suc n)"
  by (auto simp: attempts_def connStatusOf_def promoteCrawl_def applyCrawlSuccess_def crawlStatsAfterSuccess_def
      mget_updateConnection Let_def split: sum.splits)

lemma books_frame: "wConnections v = wConnections w \<Longrightarrow> attempts conn v = attempts conn w \<and> connStatusOf conn v = connStatusOf conn w"
  by (simp add: attempts_def connStatusOf_def)

lemma books_wait:
  "waitForEngineOutcome sid turns w = (w', o') \<Longrightarrow> \<forall>f \<in> set turns. \<forall>v. wConnections (f v) = wConnections v \<Longrightarrow>
     wConnections w' = wConnections w"
  by (induction turns arbitrary: w) (auto simp: waitForEngineOutcome_simps split: option.splits)

lemma attempts_settle:
  assumes "attempts conn w = Some n" and "connStatusOf conn w \<noteq> Some Disabled" and "\<And>v. wConnections (others v) = wConnections v"
  shows "case settleOutcome sha uuidOk rnd now today conn sid others outcome w of
      Inl (e, w1) \<Rightarrow> w1 = w
    | Inr (w', out) \<Rightarrow> attempts conn w' = Some (if out = RunCompleted sid None then n else Suc n)"
proof -
  obtain final awaiting where o': "outcome = (final, awaiting)" by fastforce
  have promoted: "attempts conn (finishSession now sid True None (others v)) = Some (Suc n)"
    if "promoteCrawl sha uuidOk rnd now today conn sid final w = Inr (v, store)" for v store
    using attempts_promote [OF that assms(1,2)] books_frame [of "finishSession now sid True None (others v)" v conn] assms(3)
    by simp
  have "w1 = w" if "promoteCrawl sha uuidOk rnd now today conn sid final w = Inl (e, w1)" for e w1
    using that by (auto simp: promoteCrawl_def split: sum.splits)
  with promoted attempts_fail [OF assms(1)] assms(1) o' show ?thesis
    by (auto simp: settleOutcome_def Let_def split: sum.splits prod.splits)
qed

lemma books_cancellation [simp]:
  "wConnections (fst (requestSessionCancellation sid w)) = wConnections w"
  "wConnections (fst (finalizeSessionCancellation now sid w)) = wConnections w"
  "wConnections (fst (finalizeSessionFailureAfterFence now sid err w)) = wConnections w"
  by (auto simp: requestSessionCancellation_def finalizeSessionCancellation_def finalizeSessionFailureAfterFence_def
      updateSessions_def split: option.splits)

lemma attempts_deadline:
  assumes n: "attempts conn w = Some n"
    and turns: "\<forall>f \<in> set turns. \<forall>v. wConnections (f v) = wConnections v" "\<And>v. wConnections (fst (fence v)) = wConnections v"
  shows "case settleDeadline fence turns now conn sid w of
      Inl (e, w1) \<Rightarrow> wConnections w1 = wConnections w
    | Inr (w1, None) \<Rightarrow> attempts conn w1 = Some (Suc n)
    | Inr (w1, Some outcome) \<Rightarrow> wConnections w1 = wConnections w"
proof -
  obtain w1 c where c: "requestSessionCancellation sid w = (w1, c)" by fastforce
  then have w1: "wConnections w1 = wConnections w" using books_cancellation(1) [of sid w] by simp
  obtain w2 e where f: "fence w1 = (w2, e)" by fastforce
  then have w2: "wConnections w2 = wConnections w" using turns(2) [of w1] w1 by simp
  have wait: "wConnections v' = wConnections v" if "waitForEngineOutcome sid turns v = (v', o')" for v v' o'
    using books_wait [OF that turns(1)] .
  have "attempts conn (failCrawl now conn sid DEADLINE_ERROR (Some InstanceDied) None
      (fst (finalizeSessionFailureAfterFence now sid DEADLINE_ERROR w2))) = Some (Suc n)"
    using n w2 books_cancellation(3) [of now sid DEADLINE_ERROR w2] by (intro attempts_fail) (simp add: attempts_def)
  with c f w1 w2 wait books_cancellation(2) [of now sid w2] show ?thesis
    by (auto simp: settleDeadline_def split: prod.splits option.splits)
qed

lemma startCrawl_books:
  assumes "attempts conn w = Some n"
  shows "case startCrawl env today conn sid w of
      StartThrow e w1 \<Rightarrow> wConnections w1 = wConnections w
    | StartRefuse e w1 \<Rightarrow> wConnections w1 = wConnections w
    | StartNotReady e w1 \<Rightarrow> wConnections w1 = wConnections w \<and> \<not> (\<exists>st. connStatusOf conn w = Some st \<and> isRecoverableConnectionStatus st)
    | StartDispatch rq w1 \<Rightarrow> wConnections w1 = wConnections w \<and> connStatusOf conn w \<noteq> Some Disabled"
proof (cases "crawlGate env conn w")
  case (GateNotReady e)
  then show ?thesis
    by (auto simp: startCrawl_def crawlGate_def connStatusOf_def split: option.splits if_splits)
next
  case (GateOpen c p inst)
  then have "connStatusOf conn w \<noteq> Some Disabled"
    using crawlGate_open [OF GateOpen]
    by (auto simp: connStatusOf_def isRecoverableConnectionStatus_def RECOVERABLE_CONNECTION_STATUSES_def)
  with GateOpen show ?thesis
    by (auto simp: startCrawl_def Let_def split: sum.splits option.splits)
qed (simp_all add: startCrawl_def)

lemma attempts_body:
  assumes n: "attempts conn w = Some n" and quiet: "leavesConnections r"
  shows "case crawlBody env r conn sid w of
      Inl (e, w1) \<Rightarrow> attempts conn w1 = Some n
    | Inr (w', out) \<Rightarrow> attempts conn w' = Some (Suc n)
        \<or> attempts conn w' = Some n \<and> (out = RunCompleted sid None
            \<or> \<not> (\<exists>st. connStatusOf conn w = Some st \<and> isRecoverableConnectionStatus st))"
proof (cases "startCrawl env (rnStart r) conn sid w")
  case (StartThrow e w1)
  with n startCrawl_books [OF n, of env "rnStart r" sid] books_frame [of w1 w conn] show ?thesis
    by (simp add: crawlBody_def)
next
  case (StartNotReady e w1)
  with n startCrawl_books [OF n, of env "rnStart r" sid] show ?thesis
    by (simp add: crawlBody_def attempts_def)
next
  case (StartRefuse e w1)
  then have "attempts conn w1 = Some n"
    using n startCrawl_books [OF n, of env "rnStart r" sid] books_frame [of w1 w conn] by simp
  with StartRefuse attempts_fail show ?thesis by (simp add: crawlBody_def)
next
  case (StartDispatch rq w1)
  obtain w2 ack where d: "rnDispatch r rq w1 = (w2, ack)" by fastforce
  have q: "\<forall>f \<in> set (rnTurns r). \<forall>v. wConnections (f v) = wConnections v"
    "\<forall>f \<in> set (rnLateTurns r). \<forall>v. wConnections (f v) = wConnections v"
    "\<And>v. wConnections (rnDuringStore r v) = wConnections v" "\<And>v. wConnections (fst (rnFence r v)) = wConnections v"
    using quiet by (auto simp: leavesConnections_def)
  have w2: "attempts conn w2 = Some n" "connStatusOf conn w2 \<noteq> Some Disabled"
  proof -
    have "wConnections w2 = wConnections w1" using quiet d unfolding leavesConnections_def by (metis fst_conv)
    then show "attempts conn w2 = Some n" "connStatusOf conn w2 \<noteq> Some Disabled"
      using n StartDispatch startCrawl_books [OF n, of env "rnStart r" sid] by (auto simp: attempts_def connStatusOf_def)
  qed
  let ?settle = "settleOutcome (rnSha r) (rnUuidOk r) (rnRandomUUID r) (rnNow r) (rnStart r) conn sid (rnDuringStore r)"
  have settled: "case ?settle outcome v of Inl (e, w1) \<Rightarrow> attempts conn w1 = Some n
      | Inr (w', out) \<Rightarrow> attempts conn w' = Some (if out = RunCompleted sid None then n else Suc n)"
    if "wConnections v = wConnections w2" for v outcome
  proof -
    have v: "attempts conn v = Some n" "connStatusOf conn v \<noteq> Some Disabled" using w2 that by (simp_all add: attempts_def connStatusOf_def)
    have "case ?settle outcome v of Inl (e, w1) \<Rightarrow> w1 = v
        | Inr (w', out) \<Rightarrow> attempts conn w' = Some (if out = RunCompleted sid None then n else Suc n)"
      by (rule attempts_settle [OF v q(3)])
    with v show ?thesis by (auto split: sum.splits)
  qed
  obtain w3 o3 where w3: "waitForEngineOutcome sid (rnTurns r) w2 = (w3, o3)" by fastforce
  then have c3: "wConnections w3 = wConnections w2" using books_wait q(1) by blast
  then have n3: "attempts conn w3 = Some n" using w2 by (simp add: attempts_def)
  have deadline: "case settleDeadline (rnFence r) (rnLateTurns r) (rnNow r) conn sid w3 of
      Inl (e, w1) \<Rightarrow> attempts conn w1 = Some n
    | Inr (w1, None) \<Rightarrow> attempts conn w1 = Some (Suc n)
    | Inr (w1, Some outcome) \<Rightarrow> wConnections w1 = wConnections w2"
    using attempts_deadline [OF n3 q(2,4), of "rnNow r" sid] n3 c3
    by (auto simp: attempts_def split: sum.splits prod.splits option.splits)
  show ?thesis
  proof (cases ack)
    case (AckThrew e)
    with StartDispatch d w2 show ?thesis by (simp add: crawlBody_def)
  next
    case (AckRefused e)
    with StartDispatch d w2 attempts_fail show ?thesis by (simp add: crawlBody_def Let_def)
  next
    case AckAccepted
    show ?thesis
    proof (cases o3)
      case (Some outcome)
      with AckAccepted StartDispatch d w3 settled [OF c3, of outcome] show ?thesis
        by (auto simp: crawlBody_def Let_def split: sum.splits prod.splits if_splits)
    next
      case None
      have late: "case ?settle outcome v of Inl (e, w1) \<Rightarrow> attempts conn w1 = Some n
          | Inr (w', out) \<Rightarrow> attempts conn w' = Some (if out = RunCompleted sid None then n else Suc n)"
        if "settleDeadline (rnFence r) (rnLateTurns r) (rnNow r) conn sid w3 = Inr (v, Some outcome)" for v outcome
        using deadline that settled by simp
      from None AckAccepted StartDispatch d w3 deadline show ?thesis
        by (cases "settleDeadline (rnFence r) (rnLateTurns r) (rnNow r) conn sid w3")
          (auto simp: crawlBody_def Let_def dest!: late split: sum.splits prod.splits option.splits if_splits)
    qed
  qed
qed

text \<open>
  Every crawl that took the lock is counted exactly once in the statistics of its connection,
  whichever way it ended and wherever an error was thrown, with two exceptions that count nothing: the
  connection was not in a crawlable status, or the outcome had been promoted by someone else already.
\<close>

theorem crawl_counted_once:
  assumes run: "runCrawl env r conn revision claim w = (w', out)" and "out \<noteq> RunLocked"
    and n: "attempts conn w = Some n" and quiet: "leavesConnections r"
  shows "attempts conn w' = Some (Suc n)
    \<or> attempts conn w' = Some n \<and> (out = RunCompleted (rnNewId r) None
         \<or> (\<exists>st. connStatusOf conn w = Some st \<and> \<not> isRecoverableConnectionStatus st))"
proof -
  let ?input = "\<lparr>csConnectionId = conn, csLeaseOwner = rnLeaseOwner r,
      csLeaseMs = (case rnLeaseMs r of Some l \<Rightarrow> l | None \<Rightarrow> DEFAULT_LEASE_MS),
      csExpectedScheduleRevision = revision, csExpectedScheduleClaim = claim\<rparr>"
  obtain w0 i where c: "createCrawlSession (rnRetention r) (rnNewId r) (rnStart r) ?input w = (w0, i)" by fastforce
  have "attempts conn w0 = attempts conn w \<and> connStatusOf conn w0 = connStatusOf conn w"
    using c by (cases "mget (wConnections w) conn")
      (auto simp: createCrawlSession_def attempts_def connStatusOf_def mget_updateConnection Let_def split: if_splits)
  moreover from n obtain st where st: "connStatusOf conn w = Some st" by (auto simp: attempts_def connStatusOf_def)
  moreover have "i = Some (rnNewId r)"
    using c run assms(2) createCrawlSession_id by (cases i) (auto simp: runCrawl_def)
  moreover from calculation n have "attempts conn w0 = Some n" by simp
  note attempts_body [OF this quiet, where env = env and sid = "rnNewId r"]
  ultimately show ?thesis
    using run c n
    by (auto simp: runCrawl_def attempts_fail split: sum.splits prod.splits)
qed

theorem crawl_counted_once_witness:
  "attempts ''k'' demoWorld = Some 6 \<and> attempts ''k'' (fst (runCrawl demoEnv demoRun ''k'' None None demoWorld)) \<noteq> None"
proof (rule demo_run)
  fix store
  let ?w = "fst (runCrawl demoEnv demoRun ''k'' None None demoWorld)"
  assume r: "runCrawl demoEnv demoRun ''k'' None None demoWorld = (?w, RunCompleted ''run'' (Some store))"
  have n: "attempts ''k'' demoWorld = Some 6"
    by (simp add: attempts_def demoWorld_def demoConnection_def mget_Cons)
  have "leavesConnections demoRun" by (simp add: leavesConnections_def demoRun_def engineSucceeds_def)
  from crawl_counted_once [OF r _ n this] n show ?thesis by auto
qed

lemma request_timeout: "startCrawl env today conn sid w = StartDispatch rq w1 \<Longrightarrow> rqTimeoutSeconds rq \<le> MAX_CRAWL_SECONDS"
  by (auto simp: startCrawl_def Let_def split: gate_result.splits sum.splits option.splits if_splits)

text \<open>
  The lock outlives the crawl. A session created with the default lease cannot be reaped as stale
  while the controller may still be waiting for it: the time limit of any dispatched request and both
  waits for its outcome end before the lease does.
\<close>

theorem lease_outlives_crawl:
  assumes "startCrawl env today conn sid w = StartDispatch rq w1"
    and "csLeaseMs input = DEFAULT_LEASE_MS"
    and "t \<le> now + rqTimeoutSeconds rq * 1000 + 2 * ENGINE_COMPLETION_GRACE_MS"
  shows "\<not> staleSession staleMs t v sid (newSession retention now input)"
proof -
  have "rqTimeoutSeconds rq \<le> MAX_CRAWL_SECONDS" using assms(1) by (rule request_timeout)
  with assms(2,3) have "t \<le> now + csLeaseMs input"
    by (simp add: DEFAULT_LEASE_MS_def CRAWL_EXPIRE_SECONDS_def MAX_CRAWL_SECONDS_def CRAWL_DISPATCH_GRACE_SECONDS_def
        ENGINE_COMPLETION_GRACE_MS_def)
  then show ?thesis by (simp add: staleSession_def newSession_def absentOrBefore_def before_def)
qed

theorem lease_outlives_crawl_witness:
  "\<exists>rq w1. startCrawl demoEnv 1710720000000 ''k'' ''run'' demoWorld = StartDispatch rq w1
     \<and> \<not> staleSession 300000 1900000 demoWorld ''run'' (newSession None 0 (demoCreate\<lparr>csLeaseMs := DEFAULT_LEASE_MS\<rparr>))"
proof -
  obtain rq w1 where s: "startCrawl demoEnv 1710720000000 ''k'' ''run'' demoWorld = StartDispatch rq w1"
    and "rqTimeoutSeconds rq = 1800"
    using demo_start by (auto split: start_result.splits)
  with lease_outlives_crawl [OF s, of "demoCreate\<lparr>csLeaseMs := DEFAULT_LEASE_MS\<rparr>" 1900000 0] show ?thesis
    by (simp add: ENGINE_COMPLETION_GRACE_MS_def)
qed

end
