(* ===== verification/WorkerOwnership.thy ===== *)
theory WorkerOwnership
  imports SessionLock "HOL-Library.Multiset"
begin

text \<open>
  \<^verbatim>\<open>apps/control-plane/src/data/worker-ownership.ts\<close>: who owns a crawl attempt. SHA-256 and HMAC
  are parameters on byte strings; Node's base64url and hex codecs are modelled on bytes as 8-bit
  words. A malformed bearer raises \<^verbatim>\<open>WorkerBrokerFenceError\<close>, which is the left side of a sum.
  The URL scrubbing of telemetry (\<^verbatim>\<open>sanitizeTelemetryValue\<close>) is not modelled.
\<close>

section \<open>Byte codecs\<close>

definition utf8_char :: "char \<Rightarrow> byte list" where
  "utf8_char c = (let n = of_char c :: nat in
     if n < 128 then [of_nat n] else [of_nat (192 + n div 64), of_nat (128 + n mod 64)])"

definition utf8 :: "string \<Rightarrow> byte list" where
  "utf8 s = concat (map utf8_char s)"

text \<open>The base64url alphabet: \<^verbatim>\<open>A-Z a-z 0-9 - _\<close>.\<close>

definition b64_char :: "nat \<Rightarrow> char" where
  "b64_char n =
     (if n < 26 then char_of (65 + n) else if n < 52 then char_of (71 + n)
      else if n < 62 then char_of (n - 4) else if n = 62 then CHR ''-'' else CHR ''_'')"

definition b64_val :: "char \<Rightarrow> nat option" where
  "b64_val c = (let n = of_char c :: nat in
     if 65 \<le> n \<and> n \<le> 90 then Some (n - 65) else if 97 \<le> n \<and> n \<le> 122 then Some (n - 71)
     else if 48 \<le> n \<and> n \<le> 57 then Some (n + 4) else if n = 45 then Some 62 else if n = 95 then Some 63 else None)"

definition isB64 :: "char \<Rightarrow> bool" where
  "isB64 c = (b64_val c \<noteq> None)"

text \<open>\<^verbatim>\<open>buffer.toString('base64url')\<close>: groups of three bytes, no padding.\<close>

fun b64url_encode :: "byte list \<Rightarrow> string" where
  "b64url_encode [] = []"
| "b64url_encode [a] = [b64_char (unat a div 4), b64_char (unat a mod 4 * 16)]"
| "b64url_encode [a, b] =
     [b64_char (unat a div 4), b64_char (unat a mod 4 * 16 + unat b div 16), b64_char (unat b mod 16 * 4)]"
| "b64url_encode (a # b # c # r) =
     b64_char (unat a div 4) # b64_char (unat a mod 4 * 16 + unat b div 16)
     # b64_char (unat b mod 16 * 4 + unat c div 64) # b64_char (unat c mod 64) # b64url_encode r"

text \<open>
  \<^verbatim>\<open>Buffer.from(s, 'base64url')\<close> on the values of a string over the alphabet: the bits left over
  after the last whole byte are dropped.
\<close>

fun b64url_values :: "nat list \<Rightarrow> byte list" where
  "b64url_values (w # x # y # z # r) =
     of_nat (w * 4 + x div 16) # of_nat (x mod 16 * 16 + y div 4) # of_nat (y mod 4 * 64 + z) # b64url_values r"
| "b64url_values [w, x, y] = [of_nat (w * 4 + x div 16), of_nat (x mod 16 * 16 + y div 4)]"
| "b64url_values [w, x] = [of_nat (w * 4 + x div 16)]"
| "b64url_values _ = []"

definition b64url_decode :: "string \<Rightarrow> byte list" where
  "b64url_decode s = b64url_values (map (\<lambda>c. the (b64_val c)) (filter isB64 s))"

fun from_hex :: "string \<Rightarrow> byte list" where
  "from_hex (a # b # r) = of_nat (16 * hex_val a + hex_val b) # from_hex r"
| "from_hex _ = []"

section \<open>Bearers and digests\<close>

definition WORKER_LEASE_MS :: millis where
  "WORKER_LEASE_MS = 120000"

definition WORKER_ACTIVE_SESSION_STATUSES :: "string list" where
  "WORKER_ACTIVE_SESSION_STATUSES = [''starting'', ''logging_in'', ''navigating'', ''waiting_for_otp'', ''extracting'']"

definition TERMINAL_JOB_STATUSES :: "string list" where
  "TERMINAL_JOB_STATUSES = [''succeeded'', ''failed'', ''cancelled'']"

text \<open>\<^verbatim>\<open>/^[A-Za-z0-9_-]{43}$/\<close>\<close>

definition SESSION_BEARER :: "string \<Rightarrow> bool" where
  "SESSION_BEARER s = (length s = 43 \<and> list_all isB64 s)"

text \<open>\<^verbatim>\<open>/^[a-f0-9]{64}$/\<close>\<close>

definition SHA256_HEX :: "string \<Rightarrow> bool" where
  "SHA256_HEX s = (length s = 64 \<and> list_all is_hex s)"

datatype fence_error = WorkerBrokerFenceError string

type_synonym byte_hash = "byte list \<Rightarrow> byte list"

definition safeDigestEqual :: "string option \<Rightarrow> string \<Rightarrow> bool" where
  "safeDigestEqual expected actual =
     (case expected of
        None \<Rightarrow> False
      | Some e \<Rightarrow> if e = [] \<or> \<not> SHA256_HEX e \<or> \<not> SHA256_HEX actual then False
                  else from_hex e = from_hex actual)"

definition decodeSessionBearer :: "string \<Rightarrow> fence_error + byte list" where
  "decodeSessionBearer bearer =
     (if \<not> SESSION_BEARER bearer then Inl (WorkerBrokerFenceError ''cancelled'')
      else let decoded = b64url_decode bearer
           in if length decoded \<noteq> 32 \<or> b64url_encode decoded \<noteq> bearer
              then Inl (WorkerBrokerFenceError ''cancelled'')
              else Inr decoded)"

definition bearerDigest :: "byte_hash \<Rightarrow> string \<Rightarrow> fence_error + string" where
  "bearerDigest sha256 bearer = map_sum (\<lambda>e. e) (\<lambda>decoded. to_hex (sha256 decoded)) (decodeSessionBearer bearer)"

definition ownerGeneration :: "byte_hash \<Rightarrow> string \<Rightarrow> string \<Rightarrow> string" where
  "ownerGeneration sha256 executionUid attemptId =
     to_hex (sha256 (utf8 (''accrawl-worker-output'' @ CHR 0x00 # executionUid @ CHR 0x00 # attemptId)))"

definition completionOutputGeneration :: "byte_hash \<Rightarrow> string \<Rightarrow> string \<Rightarrow> string" where
  "completionOutputGeneration sha256 assetGeneration digest =
     to_hex (sha256 (utf8 (''accrawl-worker-completion-output-v1'' @ CHR 0x00 # assetGeneration @ CHR 0x00 # digest)))"

section \<open>The completion receipt\<close>

text \<open>
  \<open>numStr\<close> is the language's number printing; a value that is not finite raises. A JSON object of
  the model has no undefined fields, so the filter on them keeps everything.
\<close>

fun canonicalJson :: "(rat \<Rightarrow> string) \<Rightarrow> json \<Rightarrow> string + string" where
  "canonicalJson numStr JNull = Inr ''null''"
| "canonicalJson numStr (JBool b) = Inr (if b then ''true'' else ''false'')"
| "canonicalJson numStr (JNum n) =
     (case n of Fin r \<Rightarrow> Inr (if r = 0 then ''0'' else numStr r)
      | _ \<Rightarrow> Inl ''worker completion contains a non-finite number'')"
| "canonicalJson numStr (JStr s) = Inr (quote s)"
| "canonicalJson numStr (JArr vs) =
     (case those (map (\<lambda>v. case canonicalJson numStr v of Inr s \<Rightarrow> Some s | Inl _ \<Rightarrow> None) vs) of
        Some ss \<Rightarrow> Inr (''['' @ join '','' ss @ '']'')
      | None \<Rightarrow> Inl ''worker completion contains a non-finite number'')"
| "canonicalJson numStr (JObj kvs) =
     (case those (map (\<lambda>(k, t). case t of Inr s \<Rightarrow> Some (quote k @ '':'' @ s) | Inl _ \<Rightarrow> None)
             (sort_key fst (map (\<lambda>(k, v). (k, canonicalJson numStr v)) kvs))) of
        Some ss \<Rightarrow> Inr (''{'' @ join '','' ss @ ''}'')
      | None \<Rightarrow> Inl ''worker completion contains a non-finite number'')"

record complete_request =
  rqSessionId :: string
  rqAttemptId :: string
  rqExecution :: string
  rqSuccess :: bool
  rqJson :: json

datatype completion_error = Fence fence_error | BadValue string

definition completionDigest ::
  "(byte list \<Rightarrow> byte_hash) \<Rightarrow> (rat \<Rightarrow> string) \<Rightarrow> complete_request \<Rightarrow> string \<Rightarrow> string option \<Rightarrow> completion_error + string" where
  "completionDigest hmac numStr request bearer safeFailure =
     (case decodeSessionBearer bearer of
        Inl e \<Rightarrow> Inl (Fence e)
      | Inr key \<Rightarrow>
          (case canonicalJson numStr (rqJson request) of
             Inl e \<Rightarrow> Inl (BadValue e)
           | Inr body \<Rightarrow>
               Inr (to_hex (hmac key (utf8 (''accrawl-worker-completion-v1'' @ CHR 0x00 #
                 (case safeFailure of Some f \<Rightarrow> f | None \<Rightarrow> []) @ CHR 0x00 # body))))))"

section \<open>Ownership\<close>

record attempt_context =
  acSessionId :: string
  acAttemptId :: string
  acExecution :: string

record worker_job_facts =
  wjId :: string
  wjSessionId :: string
  wjStatus :: string
  wjExpectedAttemptId :: "string option"
  wjWorkerExecutionName :: "string option"
  wjWorkerExecutionUid :: "string option"
  wjWorkerSessionBearerDigest :: "string option"
  wjWorkerAssetGeneration :: "string option"
  wjWorkerOutputGeneration :: "string option"
  wjWorkerCompletionDigest :: "string option"
  wjLeaseExpiresAtMs :: "millis option"

record worker_session_facts =
  wsId :: string
  wsStatus :: string
  wsWorkerAttemptId :: "string option"
  wsWorkerClaimOwnerId :: "string option"
  wsWorkerOutputGeneration :: "string option"
  wsWorkerCompletionDigest :: "string option"
  wsWorkerClaimLeaseExpiresAtMs :: "millis option"

record ownership_allowances =
  allowCancellation :: bool
  allowTerminal :: bool

text \<open>\<open>a && digest\<close>: the digest of the bearer is only computed, and can only raise, when \<open>a\<close> holds.\<close>

definition bearerMatches :: "byte_hash \<Rightarrow> worker_job_facts \<Rightarrow> string \<Rightarrow> bool \<Rightarrow> fence_error + bool" where
  "bearerMatches sha256 job bearer a =
     (if \<not> a then Inr False
      else map_sum (\<lambda>e. e) (safeDigestEqual (wjWorkerSessionBearerDigest job)) (bearerDigest sha256 bearer))"

definition leaseLive :: "millis option \<Rightarrow> millis \<Rightarrow> bool" where
  "leaseLive lease nowMs = (case lease of Some t \<Rightarrow> t > nowMs | None \<Rightarrow> False)"

definition workerOwnsAttempt ::
  "byte_hash \<Rightarrow> attempt_context \<Rightarrow> string \<Rightarrow> worker_job_facts \<Rightarrow> worker_session_facts \<Rightarrow> millis
   \<Rightarrow> ownership_allowances \<Rightarrow> fence_error + bool" where
  "workerOwnsAttempt sha256 context bearer job session nowMs options =
     map_sum (\<lambda>e. e)
       (\<lambda>ownerMatches. ownerMatches
          \<and> leaseLive (wjLeaseExpiresAtMs job) nowMs \<and> leaseLive (wsWorkerClaimLeaseExpiresAtMs session) nowMs
          \<and> (wjStatus job = ''running''
             \<or> (allowCancellation options \<and> wjStatus job = ''cancel_requested'')
             \<or> (allowTerminal options \<and> wjStatus job \<in> set TERMINAL_JOB_STATUSES))
          \<and> (wsStatus session \<in> set WORKER_ACTIVE_SESSION_STATUSES
             \<or> (allowCancellation options \<and> wsStatus session = ''cancelling'')
             \<or> (allowTerminal options \<and> wsStatus session \<in> {''completed'', ''failed'', ''cancelled''})))
       (bearerMatches sha256 job bearer
          (wjId job = acSessionId context \<and> wjSessionId job = acSessionId context
           \<and> wjExpectedAttemptId job = Some (acAttemptId context)
           \<and> wjWorkerExecutionName job = Some (acExecution context)
           \<and> wsId session = acSessionId context
           \<and> wsWorkerAttemptId session = Some (acAttemptId context)
           \<and> wsWorkerClaimOwnerId session = wjWorkerExecutionUid job))"

definition isExactTerminalCompletion ::
  "byte_hash \<Rightarrow> complete_request \<Rightarrow> string \<Rightarrow> string \<Rightarrow> worker_job_facts \<Rightarrow> worker_session_facts \<Rightarrow> fence_error + bool" where
  "isExactTerminalCompletion sha256 request bearer digest job session =
     (let outcomeMatches = (if rqSuccess request then wjStatus job = ''succeeded'' else wjStatus job = ''failed'');
          expectedOutputGeneration = (if truthy (wjWorkerAssetGeneration job)
            then map_option (\<lambda>g. completionOutputGeneration sha256 g digest) (wjWorkerAssetGeneration job) else None);
          acceptedOutputMatches = (if rqSuccess request
            then expectedOutputGeneration \<noteq> None \<and> wjWorkerOutputGeneration job = expectedOutputGeneration
              \<and> wsWorkerOutputGeneration session = expectedOutputGeneration
            else True)
      in map_sum (\<lambda>e. e)
           (\<lambda>ownerMatches. ownerMatches \<and> outcomeMatches \<and> acceptedOutputMatches
              \<and> safeDigestEqual (wjWorkerCompletionDigest job) digest
              \<and> safeDigestEqual (wsWorkerCompletionDigest session) digest)
           (bearerMatches sha256 job bearer
              (wjId job = rqSessionId request \<and> wjSessionId job = rqSessionId request
               \<and> wjExpectedAttemptId job = Some (rqAttemptId request)
               \<and> wjWorkerExecutionName job = Some (rqExecution request)
               \<and> wsId session = rqSessionId request)))"

definition isExactCancellationAcknowledgement ::
  "byte_hash \<Rightarrow> attempt_context \<Rightarrow> string \<Rightarrow> worker_job_facts \<Rightarrow> fence_error + bool" where
  "isExactCancellationAcknowledgement sha256 context bearer job =
     bearerMatches sha256 job bearer
       (wjId job = acSessionId context \<and> wjSessionId job = acSessionId context
        \<and> wjExpectedAttemptId job = Some (acAttemptId context)
        \<and> wjWorkerExecutionName job = Some (acExecution context)
        \<and> wjStatus job = ''cancelled'')"

section \<open>The codecs\<close>

lemma b64_val_char [simp]: "n < 64 \<Longrightarrow> b64_val (b64_char n) = Some n"
  by (auto simp: b64_val_def b64_char_def Let_def)

lemma isB64_char [simp]: "n < 64 \<Longrightarrow> isB64 (b64_char n)"
  by (simp add: isB64_def)

lemma byte_bounds:
  "unat (a :: byte) div 4 < 64" "unat (a :: byte) mod 4 * 16 + unat (b :: byte) div 16 < 64"
  "unat (b :: byte) mod 16 * 4 + unat (c :: byte) div 64 < 64" "unat (c :: byte) mod 64 < 64"
  "unat (a :: byte) mod 4 * 16 < 64" "unat (b :: byte) mod 16 * 4 < 64"
proof -
  have lt: "unat x < 256" for x :: byte using unsigned_less [of x] by simp
  have "unat b div 16 < 16" "unat c div 64 < 4" using lt [of b] lt [of c] by (simp_all add: div_less_iff_less_mult)
  moreover have "unat a mod 4 < 4" "unat b mod 16 < 16" by simp_all
  ultimately show "unat (a :: byte) mod 4 * 16 + unat b div 16 < 64" "unat b mod 16 * 4 + unat c div 64 < 64" by linarith+
  show "unat a div 4 < 64" using lt [of a] by (simp add: div_less_iff_less_mult)
qed simp_all

lemma byte_join:
  "of_nat (unat (a :: byte) div 4 * 4 + (unat a mod 4 * 16 + unat (b :: byte) div 16) div 16) = a"
  "of_nat ((unat (a :: byte) mod 4 * 16 + unat b div 16) mod 16 * 16 + (unat b mod 16 * 4 + unat (c :: byte) div 64) div 4) = b"
  "of_nat ((unat (b :: byte) mod 16 * 4 + unat c div 64) mod 4 * 64 + unat c mod 64) = c"
  "of_nat (unat (a :: byte) div 4 * 4 + (unat a mod 4 * 16) div 16) = a"
  "of_nat ((unat (a :: byte) mod 4 * 16 + unat b div 16) mod 16 * 16 + (unat b mod 16 * 4) div 4) = b"
proof -
  have lt: "unat x < 256" for x :: byte using unsigned_less [of x] by simp
  have b: "unat b div 16 < 16" and c: "unat c div 64 < 4" using lt [of b] lt [of c] by (simp_all add: div_less_iff_less_mult)
  have "(unat a mod 4 * 16 + unat b div 16) div 16 = unat a mod 4"
    "(unat a mod 4 * 16 + unat b div 16) mod 16 = unat b div 16" using b by simp_all
  moreover have "(unat b mod 16 * 4 + unat c div 64) div 4 = unat b mod 16"
    "(unat b mod 16 * 4 + unat c div 64) mod 4 = unat c div 64" using c by simp_all
  ultimately show
    "of_nat (unat a div 4 * 4 + (unat a mod 4 * 16 + unat b div 16) div 16) = a"
    "of_nat ((unat a mod 4 * 16 + unat b div 16) mod 16 * 16 + (unat b mod 16 * 4 + unat c div 64) div 4) = b"
    "of_nat ((unat b mod 16 * 4 + unat c div 64) mod 4 * 64 + unat c mod 64) = c"
    "of_nat (unat a div 4 * 4 + (unat a mod 4 * 16) div 16) = a"
    "of_nat ((unat a mod 4 * 16 + unat b div 16) mod 16 * 16 + (unat b mod 16 * 4) div 4) = b"
    by simp_all
qed

lemma b64url_encode_chars: "list_all isB64 (b64url_encode bs)"
  by (induction bs rule: b64url_encode.induct) (simp_all add: byte_bounds)

lemma b64url_values_encode: "b64url_values (map (\<lambda>c. the (b64_val c)) (b64url_encode bs)) = bs"
  by (induction bs rule: b64url_encode.induct)
    (simp_all only: b64url_encode.simps list.map b64_val_char byte_bounds option.sel b64url_values.simps byte_join)

lemma b64url_decode_encode [simp]: "b64url_decode (b64url_encode bs) = bs"
proof -
  have "filter isB64 (b64url_encode bs) = b64url_encode bs"
    using b64url_encode_chars [of bs] by (simp add: list_all_iff filter_id_conv)
  then show ?thesis by (simp add: b64url_decode_def b64url_values_encode)
qed

lemma length_b64url_encode: "length (b64url_encode bs) = (4 * length bs + 2) div 3"
  by (induction bs rule: b64url_encode.induct) simp_all

lemma decodeSessionBearer_iff: "decodeSessionBearer s = Inr b \<longleftrightarrow> length b = 32 \<and> b64url_encode b = s"
proof
  assume "length b = 32 \<and> b64url_encode b = s"
  then have s: "s = b64url_encode b" "length b = 32" by auto
  then have "SESSION_BEARER s" by (simp add: SESSION_BEARER_def length_b64url_encode b64url_encode_chars)
  with s show "decodeSessionBearer s = Inr b" by (simp add: decodeSessionBearer_def)
qed (auto simp: decodeSessionBearer_def Let_def split: if_splits)

section \<open>Digests\<close>

lemma hex_char_val: "is_hex c \<Longrightarrow> hex_val c < 16 \<and> hex_char (hex_val c) = c"
proof -
  assume h: "is_hex c"
  define n where "n = (of_char c :: nat)"
  have c: "c = char_of n" by (simp add: n_def)
  from h show ?thesis by (auto simp: is_hex_def hex_val_def hex_char_def Let_def n_def [symmetric] c)
qed

lemma hex_byte_join:
  assumes "is_hex a" "is_hex b"
  shows "hex_byte (of_nat (16 * hex_val a + hex_val b)) = [a, b]"
proof -
  have ab: "hex_val a < 16" "hex_val b < 16" using assms hex_char_val by auto
  then have "16 * hex_val a + hex_val b < 256" by linarith
  then have "unat (of_nat (16 * hex_val a + hex_val b) :: byte) = 16 * hex_val a + hex_val b"
    by (simp only: unat_of_nat) simp
  then show ?thesis using ab assms hex_char_val by (simp only: hex_byte_def) simp
qed

lemma hex_nibbles:
  "unat (x :: byte) div 16 = unat y div 16 \<Longrightarrow> unat x mod 16 = unat y mod 16 \<Longrightarrow> x = y"
  by (metis div_mult_mod_eq unsigned_word_eqI)

lemma hex_byte_inject: "hex_byte x = hex_byte y \<longleftrightarrow> x = y"
proof
  assume eq: "hex_byte x = hex_byte y"
  have "unat x div 16 < 16" "unat y div 16 < 16"
    using unsigned_less [of x] unsigned_less [of y] by (simp_all add: div_less_iff_less_mult)
  with eq show "x = y" by (intro hex_nibbles) (simp_all add: hex_byte_def hex_char_inject)
qed simp

lemma to_hex_inject: "to_hex x = to_hex y \<longleftrightarrow> x = y"
proof (induction x arbitrary: y)
  case (Cons a x)
  then show ?case
  proof (cases y)
    case (Cons b z)
    with Cons.IH [of z] show ?thesis
      using hex_byte_inject [of a b] by (auto simp: to_hex_def hex_byte_def)
  qed (simp add: to_hex_def hex_byte_def)
next
  case Nil
  show ?case by (cases y) (simp_all add: to_hex_def hex_byte_def)
qed

lemma to_hex_from_hex: "list_all is_hex s \<Longrightarrow> even (length s) \<Longrightarrow> to_hex (from_hex s) = s"
proof (induction s rule: from_hex.induct)
  case (1 a b r)
  then have "to_hex (from_hex r) = r" "is_hex a" "is_hex b" by simp_all
  then show ?case unfolding from_hex.simps to_hex_def list.map concat.simps hex_byte_join [OF \<open>is_hex a\<close> \<open>is_hex b\<close>] by simp
qed (simp_all add: to_hex_def)

lemma safeDigestEqual_iff: "safeDigestEqual e a \<longleftrightarrow> e = Some a \<and> SHA256_HEX a"
proof -
  have "from_hex x = from_hex a \<longleftrightarrow> x = a" if "SHA256_HEX x" "SHA256_HEX a" for x
  proof -
    have "to_hex (from_hex x) = x" "to_hex (from_hex a) = a"
      using that by (auto simp: SHA256_HEX_def intro: to_hex_from_hex)
    then show ?thesis by metis
  qed
  then show ?thesis by (auto simp: safeDigestEqual_def SHA256_HEX_def split: option.splits)
qed

lemma map_sum_Inr_True: "map_sum (\<lambda>e. e) f r = Inr True \<longleftrightarrow> (\<exists>x. r = Inr x \<and> f x)"
  by (cases r) auto

lemma bearerMatches_True:
  "bearerMatches sha256 job bearer a = Inr True \<longleftrightarrow>
     a \<and> (\<exists>key. length key = 32 \<and> b64url_encode key = bearer
        \<and> wjWorkerSessionBearerDigest job = Some (to_hex (sha256 key)) \<and> SHA256_HEX (to_hex (sha256 key)))"
proof -
  have digest: "bearerDigest sha256 bearer = Inr d \<longleftrightarrow> (\<exists>key. length key = 32 \<and> b64url_encode key = bearer \<and> d = to_hex (sha256 key))" for d
  proof -
    have "bearerDigest sha256 bearer = Inr d \<longleftrightarrow> (\<exists>key. decodeSessionBearer bearer = Inr key \<and> d = to_hex (sha256 key))"
      by (cases "decodeSessionBearer bearer") (auto simp: bearerDigest_def)
    then show ?thesis by (simp add: decodeSessionBearer_iff conj_assoc)
  qed
  show ?thesis
  proof (cases a)
    case True
    then have "bearerMatches sha256 job bearer a = Inr True \<longleftrightarrow>
        (\<exists>d. bearerDigest sha256 bearer = Inr d \<and> safeDigestEqual (wjWorkerSessionBearerDigest job) d)"
      by (simp add: bearerMatches_def map_sum_Inr_True)
    with True show ?thesis unfolding digest safeDigestEqual_iff by blast
  qed (simp add: bearerMatches_def)
qed

section \<open>Printing does not depend on the order of fields\<close>

inductive json_reorder :: "json \<Rightarrow> json \<Rightarrow> bool" where
  fields: "mset kvs = mset kvs' \<Longrightarrow> distinct (map fst kvs) \<Longrightarrow> json_reorder (JObj kvs) (JObj kvs')"
| element: "json_reorder v v' \<Longrightarrow> json_reorder (JArr (xs @ v # ys)) (JArr (xs @ v' # ys))"
| field: "json_reorder v v' \<Longrightarrow> json_reorder (JObj (xs @ (k, v) # ys)) (JObj (xs @ (k, v') # ys))"

lemma canonicalJson_reorder: "json_reorder v v' \<Longrightarrow> canonicalJson numStr v = canonicalJson numStr v'"
proof (induction rule: json_reorder.induct)
  case (fields kvs kvs')
  let ?m = "map (\<lambda>(k, v). (k, canonicalJson numStr v))"
  have inj: "inj_on fst (set (?m kvs))"
    by (auto simp: inj_on_def dest: eq_key_imp_eq_value [OF fields.hyps(2)])
  have "sort_key fst (?m kvs) = sort_key fst (?m kvs')"
    by (rule sort_key_eq_sort_key [OF _ inj]) (simp only: mset_map fields.hyps(1))
  then show ?case by simp
qed simp_all

section \<open>Properties\<close>

text \<open>
  A bearer is one canonical encoding of 32 bytes. The decoder accepts a string exactly when it
  is the base64url encoding of a 32-byte key, and returns that key: no second spelling of the same
  key, with stray low bits in its last character, gets through.
\<close>

theorem bearer_roundtrip: "decodeSessionBearer bearer = Inr key \<longleftrightarrow> length key = 32 \<and> b64url_encode key = bearer"
  by (rule decodeSessionBearer_iff)

text \<open>
  A request that owns an attempt proves it. When the ownership test passes, the presented bearer
  encodes a 32-byte key whose hash is the one recorded at claim time, the job and the session are
  those of the named attempt, both leases end after now, and unless the caller allows more the job
  is running and the session is active.
\<close>

theorem ownership_proves_attempt:
  assumes "workerOwnsAttempt sha256 context bearer job session nowMs options = Inr True"
  shows "(\<exists>key. length key = 32 \<and> b64url_encode key = bearer \<and> wjWorkerSessionBearerDigest job = Some (to_hex (sha256 key)))
    \<and> wjSessionId job = wsId session \<and> wsId session = acSessionId context
    \<and> wjExpectedAttemptId job = wsWorkerAttemptId session \<and> wsWorkerAttemptId session = Some (acAttemptId context)
    \<and> wsWorkerClaimOwnerId session = wjWorkerExecutionUid job
    \<and> (\<exists>t u. wjLeaseExpiresAtMs job = Some t \<and> wsWorkerClaimLeaseExpiresAtMs session = Some u \<and> nowMs < min t u)
    \<and> (\<not> allowCancellation options \<and> \<not> allowTerminal options \<longrightarrow>
         wjStatus job = ''running'' \<and> wsStatus session \<in> set WORKER_ACTIVE_SESSION_STATUSES)"
proof -
  from assms obtain a where m: "bearerMatches sha256 job bearer a = Inr True"
    unfolding workerOwnsAttempt_def map_sum_Inr_True by auto
  have "leaseLive l nowMs \<longleftrightarrow> (\<exists>t. l = Some t \<and> nowMs < t)" for l
    by (auto simp: leaseLive_def split: option.splits)
  with assms m show ?thesis
    unfolding workerOwnsAttempt_def map_sum_Inr_True by (auto simp: bearerMatches_True)
qed

definition demoKey :: "byte list" where
  "demoKey = replicate 32 7"

definition demoHash :: byte_hash where
  "demoHash k = take 32 (k @ replicate 32 0)"

definition demoJobFacts :: worker_job_facts where
  "demoJobFacts = \<lparr>wjId = ''s'', wjSessionId = ''s'', wjStatus = ''running'', wjExpectedAttemptId = Some ''a'',
     wjWorkerExecutionName = Some ''e'', wjWorkerExecutionUid = Some ''u'',
     wjWorkerSessionBearerDigest = Some (to_hex (demoHash demoKey)), wjWorkerAssetGeneration = None,
     wjWorkerOutputGeneration = None, wjWorkerCompletionDigest = Some (to_hex (demoHash demoKey)), wjLeaseExpiresAtMs = Some 9\<rparr>"

definition demoSessionFacts :: worker_session_facts where
  "demoSessionFacts = \<lparr>wsId = ''s'', wsStatus = ''extracting'', wsWorkerAttemptId = Some ''a'', wsWorkerClaimOwnerId = Some ''u'',
     wsWorkerOutputGeneration = None, wsWorkerCompletionDigest = Some (to_hex (demoHash demoKey)),
     wsWorkerClaimLeaseExpiresAtMs = Some 8\<rparr>"

definition demoRequest :: complete_request where
  "demoRequest = \<lparr>rqSessionId = ''s'', rqAttemptId = ''a'', rqExecution = ''e'', rqSuccess = False, rqJson = JNull\<rparr>"

lemma demo_bearer:
  "bearerMatches demoHash demoJobFacts (b64url_encode demoKey) True = Inr True"
  "bearerMatches demoHash (demoJobFacts\<lparr>wjStatus := st\<rparr>) (b64url_encode demoKey) True = Inr True"
  using to_hex_hex [of "demoHash demoKey"]
  by (auto simp: bearerMatches_True demoJobFacts_def SHA256_HEX_def list_all_iff demoKey_def demoHash_def
      intro!: exI [of _ demoKey])

theorem ownership_proves_attempt_witness:
  "\<exists>t u. wjLeaseExpiresAtMs demoJobFacts = Some t \<and> wsWorkerClaimLeaseExpiresAtMs demoSessionFacts = Some u \<and> 5 < min t u"
proof -
  have "workerOwnsAttempt demoHash \<lparr>acSessionId = ''s'', acAttemptId = ''a'', acExecution = ''e''\<rparr> (b64url_encode demoKey)
      demoJobFacts demoSessionFacts 5 \<lparr>allowCancellation = False, allowTerminal = False\<rparr> = Inr True"
    using demo_bearer(1) unfolding workerOwnsAttempt_def map_sum_Inr_True
    by (intro exI [of _ True])
      (simp add: demoJobFacts_def demoSessionFacts_def leaseLive_def WORKER_ACTIVE_SESSION_STATUSES_def)
  from ownership_proves_attempt [OF this] show ?thesis by blast
qed

text \<open>
  A replayed completion is never a second outcome. Two completions that are both recognised as
  the one already recorded on a job carry the same digest and the same outcome, and that digest is
  the one on both the job and the session.
\<close>

theorem completion_replay_unique:
  assumes "isExactTerminalCompletion sha256 r1 b1 d1 job session = Inr True"
    and "isExactTerminalCompletion sha256 r2 b2 d2 job session = Inr True"
  shows "d1 = d2 \<and> rqSuccess r1 = rqSuccess r2 \<and> wjWorkerCompletionDigest job = Some d1
    \<and> wsWorkerCompletionDigest session = Some d1"
proof -
  have one: "wjWorkerCompletionDigest job = Some d \<and> wsWorkerCompletionDigest session = Some d
      \<and> wjStatus job = (if rqSuccess r then ''succeeded'' else ''failed'')"
    if "isExactTerminalCompletion sha256 r b d job session = Inr True" for r b d
    using that unfolding isExactTerminalCompletion_def Let_def map_sum_Inr_True
    by (auto simp: safeDigestEqual_iff split: if_splits)
  show ?thesis using one [OF assms(1)] one [OF assms(2)] by (auto split: if_splits)
qed

theorem completion_replay_unique_witness:
  "wjWorkerCompletionDigest (demoJobFacts\<lparr>wjStatus := ''failed''\<rparr>) = Some (to_hex (demoHash demoKey))
   \<and> isExactTerminalCompletion demoHash demoRequest
        (b64url_encode demoKey) (to_hex (demoHash demoKey)) (demoJobFacts\<lparr>wjStatus := ''failed''\<rparr>) demoSessionFacts = Inr True"
proof -
  have "SHA256_HEX (to_hex (demoHash demoKey))"
    using to_hex_hex [of "demoHash demoKey"] by (simp add: SHA256_HEX_def list_all_iff demoHash_def demoKey_def)
  then have ok: "isExactTerminalCompletion demoHash demoRequest
        (b64url_encode demoKey) (to_hex (demoHash demoKey)) (demoJobFacts\<lparr>wjStatus := ''failed''\<rparr>) demoSessionFacts = Inr True"
    using demo_bearer(2) [of "''failed''"] unfolding isExactTerminalCompletion_def Let_def map_sum_Inr_True safeDigestEqual_iff
    by (intro exI [of _ True]) (simp add: demoJobFacts_def demoSessionFacts_def demoRequest_def)
  from completion_replay_unique [OF ok ok] ok show ?thesis by blast
qed

text \<open>
  The completion receipt does not depend on the order of fields. Reordering the fields of any
  object of the completion, at any depth and any number of times, leaves its digest unchanged.
\<close>

theorem receipt_ignores_field_order:
  assumes "json_reorder\<^sup>*\<^sup>* v v'"
  shows "completionDigest hmac numStr (r\<lparr>rqJson := v\<rparr>) bearer failure = completionDigest hmac numStr (r\<lparr>rqJson := v'\<rparr>) bearer failure"
proof -
  from assms have "canonicalJson numStr v = canonicalJson numStr v'"
    by (induction rule: rtranclp_induct) (simp_all add: canonicalJson_reorder)
  then show ?thesis by (cases "decodeSessionBearer bearer") (simp_all add: completionDigest_def)
qed

theorem receipt_ignores_field_order_witness:
  "completionDigest (\<lambda>_. demoHash) (\<lambda>_. ''1'') (demoRequest\<lparr>rqJson := JArr [JObj [(''a'', JNull), (''b'', JBool True)]]\<rparr>) (b64url_encode demoKey) None
   = completionDigest (\<lambda>_. demoHash) (\<lambda>_. ''1'') (demoRequest\<lparr>rqJson := JArr [JObj [(''b'', JBool True), (''a'', JNull)]]\<rparr>) (b64url_encode demoKey) None"
proof -
  have "json_reorder (JObj [(''a'', JNull), (''b'', JBool True)]) (JObj [(''b'', JBool True), (''a'', JNull)])"
    by (rule json_reorder.fields) simp_all
  from json_reorder.element [OF this, of "[]" "[]"]
  have "json_reorder\<^sup>*\<^sup>* (JArr [JObj [(''a'', JNull), (''b'', JBool True)]]) (JArr [JObj [(''b'', JBool True), (''a'', JNull)]])"
    by (simp add: r_into_rtranclp)
  from receipt_ignores_field_order [OF this] show ?thesis .
qed

end
