(* ===== verification/HostedPolicies.thy ===== *)
theory HostedPolicies
  imports WorkerOwnership
begin

text \<open>
  The storage-neutral policies of the hosted deployment under
  \<^verbatim>\<open>apps/control-plane/src/data\<close>: \<^verbatim>\<open>crawl-admission.ts\<close> (may a crawl start),
  \<^verbatim>\<open>hosted-dispatch-decisions.ts\<close> (may it be handed to a worker), \<^verbatim>\<open>crawl-promotion.ts\<close> (may its
  output be published) and \<^verbatim>\<open>crawl-webhook-outbox-policy.ts\<close> (what subscribers are told). Each is a
  pure function from facts to a verdict; statuses arrive as strings.
\<close>

section \<open>Admission\<close>

datatype hosted_copy =
    CrawlConnectionNotReady | CrawlLoginDomainUnverified | CrawlLoginAddressMismatch
  | CrawlSafetyCheckBlocked | CrawlPhoneRoutingNotConfigured | ConnectionCredentialsUnavailable

record admission_connection =
  acnStatus :: conn_status
  acnLoginDomainVerified :: "bool option"
  acnVerifiedTrustFingerprint :: "string option"
  acnLoginUrlOverride :: "string option"
  acnHasUsername :: bool
  acnHasPassword :: bool

record admission_institution =
  ainTrustFingerprint :: string
  ainCanonicalDomain :: string
  ainScanStatus :: string
  ainUseDeviceProxy :: "bool option"

datatype crawl_admission = Admitted | Refused hosted_copy bool

definition decideCrawlAdmission :: "admission_connection \<Rightarrow> admission_institution \<Rightarrow> bool \<Rightarrow> crawl_admission" where
  "decideCrawlAdmission connection institution loginOverrideWithinDomain =
     (if \<not> isRecoverableConnectionStatus (acnStatus connection) then Refused CrawlConnectionNotReady False
      else if acnLoginDomainVerified connection \<noteq> Some True
              \<or> acnVerifiedTrustFingerprint connection \<noteq> Some (ainTrustFingerprint institution)
        then Refused CrawlLoginDomainUnverified True
      else if truthy (acnLoginUrlOverride connection) \<and> \<not> loginOverrideWithinDomain
        then Refused CrawlLoginAddressMismatch True
      else if ainScanStatus institution \<noteq> ''passed'' then Refused CrawlSafetyCheckBlocked True
      else if ainUseDeviceProxy institution = Some True then Refused CrawlPhoneRoutingNotConfigured True
      else if \<not> acnHasUsername connection \<or> \<not> acnHasPassword connection
        then Refused ConnectionCredentialsUnavailable True
      else Admitted)"

section \<open>Dispatch\<close>

definition DISPATCH_LEASE_MS :: millis where
  "DISPATCH_LEASE_MS = 45000"

definition DISPATCH_RETRY_AFTER_MS :: millis where
  "DISPATCH_RETRY_AFTER_MS = 120000"

definition JOB_RETENTION_MS :: millis where
  "JOB_RETENTION_MS = 3 * 24 * 60 * 60 * 1000"

definition MAX_DISPATCH_ATTEMPTS :: int where
  "MAX_DISPATCH_ATTEMPTS = 1"

text \<open>\<^verbatim>\<open>/^[0-9a-f]{8}-[0-9a-f]{4}-[1-5][0-9a-f]{3}-[89ab][0-9a-f]{3}-[0-9a-f]{12}$/i\<close>\<close>

definition SESSION_ID :: "string \<Rightarrow> bool" where
  "SESSION_ID s = uuid_shape (to_lower s)"

record dispatch_session_facts =
  dsStatus :: "string option"
  dsExpectedWorkerAttemptId :: "string option"

record dispatch_job_facts =
  djSessionId :: "string option"
  djExpectedAttemptId :: "string option"
  djStatus :: "string option"
  djDispatchOutcome :: "string option"
  djDispatchAttempts :: "int option"
  djDispatchLeaseExpiresAtMs :: "millis option"
  djClaimSecretVersion :: "string option"

datatype write_kind = Create | Update

record reservation_write =
  rwKind :: write_kind
  rwAttempts :: int
  rwLeaseExpiresAtMs :: millis
  rwExpiresAtMs :: "millis option"

datatype dispatch_decision =
    Missing | DispatchCancelled | Rejected | AlreadyDispatched
  | Exhausted "string option" | Dispatch string string reservation_write

datatype dispatch_error = DispatchJobMismatchError

record reservation_input =
  riSessionId :: string
  riRequestedAttemptId :: "string option"
  riHasEncryptedPayload :: bool
  riSession :: "dispatch_session_facts option"
  riJob :: "dispatch_job_facts option"
  riNowMs :: millis
  riOwner :: string

definition decideDispatchReservation :: "reservation_input \<Rightarrow> dispatch_error + dispatch_decision" where
  "decideDispatchReservation input =
     (case riSession input of
        None \<Rightarrow> Inr Missing
      | Some session \<Rightarrow>
     if (case dsStatus session of Some s \<Rightarrow> s | None \<Rightarrow> []) \<notin> set WORKER_ACTIVE_SESSION_STATUSES
       then Inr DispatchCancelled
     else let attemptId = (case dsExpectedWorkerAttemptId session of Some a \<Rightarrow> a | None \<Rightarrow> []) in
     if \<not> SESSION_ID attemptId
        \<or> (riRequestedAttemptId input \<noteq> None \<and> riRequestedAttemptId input \<noteq> Some attemptId)
       then Inr DispatchCancelled
     else (case riJob input of
        Some job \<Rightarrow>
          if djSessionId job \<noteq> Some (riSessionId input) \<or> djExpectedAttemptId job \<noteq> Some attemptId
            then Inl DispatchJobMismatchError
          else if djDispatchOutcome job = Some ''rejected'' \<or> djStatus job = Some ''failed'' then Inr Rejected
          else if djStatus job \<in> {Some ''running'', Some ''succeeded'', Some ''cancel_requested'', Some ''cancelled''}
            then Inr AlreadyDispatched
          else if leaseLive (djDispatchLeaseExpiresAtMs job) (riNowMs input) then Inr AlreadyDispatched
          else let attempts = (case djDispatchAttempts job of Some n \<Rightarrow> n | None \<Rightarrow> 0) in
            if attempts \<ge> MAX_DISPATCH_ATTEMPTS then Inr (Exhausted (djClaimSecretVersion job))
            else Inr (Dispatch attemptId (riOwner input)
                   \<lparr>rwKind = Update, rwAttempts = attempts + 1,
                    rwLeaseExpiresAtMs = riNowMs input + DISPATCH_LEASE_MS, rwExpiresAtMs = None\<rparr>)
      | None \<Rightarrow>
          if \<not> riHasEncryptedPayload input then Inr Missing
          else Inr (Dispatch attemptId (riOwner input)
                 \<lparr>rwKind = Create, rwAttempts = 1, rwLeaseExpiresAtMs = riNowMs input + DISPATCH_LEASE_MS,
                  rwExpiresAtMs = Some (riNowMs input + JOB_RETENTION_MS)\<rparr>)))"

section \<open>Promotion\<close>

type_synonym output_counts = "int option \<times> int option \<times> int option"

record promotion_session =
  psStatus :: string
  psWorkerOutcome :: "string option"
  psOutputGeneration :: "string option"
  psOutputDigest :: "string option"
  psCompletionDigest :: "string option"
  psOutputCounts :: "output_counts option"
  psTargetDataGeneration :: "string option"

record promotion_job =
  pjStatus :: string
  pjOutputGeneration :: "string option"
  pjOutputDigest :: "string option"
  pjCompletionDigest :: "string option"

record promotion_connection =
  pcActiveSessionId :: "string option"
  pcActiveDataGeneration :: "string option"

record promotion_expectation =
  peSessionId :: string
  peOutputGeneration :: string
  peOutputDigest :: string
  peCompletionDigest :: string
  peCounts :: output_counts
  peBaseDataGeneration :: "string option"
  peTargetDataGeneration :: "string option"
  peManifestStatus :: "string option"
  peManifestPlanDigest :: "string option"
  peExpectedPlanDigest :: string
  peActiveSessionStatuses :: "string list"

datatype promotion_readiness = AlreadyPromoted | Ready | NotReady string

text \<open>
  Absent counts read as three absent numbers. \<^verbatim>\<open>targetDataGeneration\<close> may be undefined or null in
  the source and the two differ under \<^verbatim>\<open>!==\<close>; the model has one absent value.
\<close>

definition promotionFailures ::
  "promotion_session \<Rightarrow> promotion_job \<Rightarrow> promotion_connection \<Rightarrow> promotion_expectation \<Rightarrow> (bool \<times> string) list" where
  "promotionFailures session job connection expected =
     [(psWorkerOutcome session \<noteq> Some ''success'', ''the worker did not report success''),
      (psOutputGeneration session \<noteq> Some (peOutputGeneration expected)
       \<or> psOutputDigest session \<noteq> Some (peOutputDigest expected)
       \<or> psCompletionDigest session \<noteq> Some (peCompletionDigest expected),
       ''the session does not carry the output this promotion describes''),
      ((case psOutputCounts session of Some c \<Rightarrow> c | None \<Rightarrow> (None, None, None)) \<noteq> peCounts expected,
       ''the staged row counts do not match what the worker reported''),
      (pjStatus job \<noteq> ''succeeded''
       \<or> pjOutputGeneration job \<noteq> Some (peOutputGeneration expected)
       \<or> pjOutputDigest job \<noteq> Some (peOutputDigest expected)
       \<or> pjCompletionDigest job \<noteq> Some (peCompletionDigest expected),
       ''the durable job record does not agree with the session''),
      (psStatus session \<notin> set (peActiveSessionStatuses expected), ''the session is no longer running''),
      (pcActiveSessionId connection \<noteq> Some (peSessionId expected),
       ''another crawl has become the connection's active one''),
      (pcActiveDataGeneration connection \<noteq> peBaseDataGeneration expected,
       ''the connection moved to a different generation while this crawl ran''),
      (psTargetDataGeneration session \<noteq> peTargetDataGeneration expected,
       ''the session is aiming at a different generation than this promotion''),
      (peManifestStatus expected \<noteq> Some ''ready'', ''the staged output is not complete''),
      (peManifestPlanDigest expected \<noteq> Some (peExpectedPlanDigest expected),
       ''the plan was computed from different staged output'')]"

definition decidePromotionReadiness ::
  "promotion_session \<Rightarrow> promotion_job \<Rightarrow> promotion_connection \<Rightarrow> promotion_expectation \<Rightarrow> promotion_readiness" where
  "decidePromotionReadiness session job connection expected =
     (if psStatus session = ''completed'' then AlreadyPromoted
      else case List.find fst (promotionFailures session job connection expected) of
             Some failed \<Rightarrow> NotReady (snd failed)
           | None \<Rightarrow> Ready)"

section \<open>Webhook outbox\<close>

definition DELIVERY_LEASE_MS :: millis where
  "DELIVERY_LEASE_MS = 60000"

definition MAX_DELIVERY_ATTEMPTS :: int where
  "MAX_DELIVERY_ATTEMPTS = 20"

definition DELIVERY_BUDGET_EXHAUSTED :: string where
  "DELIVERY_BUDGET_EXHAUSTED = ''delivery attempt budget exhausted''"

definition MAX_DELIVERY_ERROR_LENGTH :: nat where
  "MAX_DELIVERY_ERROR_LENGTH = 500"

definition deliveryId :: "digest \<Rightarrow> string \<Rightarrow> string \<Rightarrow> string \<Rightarrow> string" where
  "deliveryId sha sessionId event webhookId =
     ''whd_'' @ hashValue sha (idPreimage [StrPart sessionId, StrPart event, StrPart webhookId])"

record immutable_delivery =
  idId :: string
  idSessionId :: string
  idConnectionId :: string
  idWebhookId :: string
  idEvent :: string
  idUrl :: string
  idSecret :: "string option"
  idBody :: string
  idTimestamp :: string
  idStatus :: "string option"

definition sameImmutableDelivery :: "immutable_delivery \<Rightarrow> immutable_delivery \<Rightarrow> bool" where
  "sameImmutableDelivery existing expected =
     (idId existing = idId expected \<and> idSessionId existing = idSessionId expected
      \<and> idConnectionId existing = idConnectionId expected \<and> idWebhookId existing = idWebhookId expected
      \<and> idEvent existing = idEvent expected \<and> idUrl existing = idUrl expected
      \<and> (idSecret existing = idSecret expected
         \<or> (idSecret existing = None \<and> idStatus existing \<in> {Some ''delivered'', Some ''permanent_failure''}))
      \<and> idBody existing = idBody expected \<and> idTimestamp existing = idTimestamp expected)"

datatype attempt_outcome =
    AttemptDelivered "int option"
  | AttemptPermanent "int option" "string option"
  | AttemptRetryable "int option" "string option"

datatype finish_decision =
    FinishDelivered "int option"
  | FinishPermanent "int option" "string option"
  | FinishRetry "int option" "string option"

definition decideDeliveryFinish :: "attempt_outcome \<Rightarrow> int \<Rightarrow> finish_decision" where
  "decideDeliveryFinish result attempts =
     (case result of
        AttemptDelivered status \<Rightarrow> FinishDelivered status
      | AttemptPermanent status detail \<Rightarrow> FinishPermanent status detail
      | AttemptRetryable status detail \<Rightarrow>
          if attempts \<ge> MAX_DELIVERY_ATTEMPTS then FinishPermanent status (Some DELIVERY_BUDGET_EXHAUSTED)
          else FinishRetry status detail)"

record terminal_crawl_facts =
  tcId :: string
  tcConnectionId :: string
  tcInstitutionId :: string
  tcStatus :: string
  tcLastError :: "string option"
  tcSyncCounts :: "(int option \<times> int option) option"
  tcConnectionStatusBeforeCrawl :: "string option"
  tcConnectionStatusAfterCrawl :: "string option"

record event_payload =
  epEvent :: string
  epPayload :: jobj

definition countJson :: "int option \<Rightarrow> json" where
  "countJson n = JNum (Fin (case n of Some i \<Rightarrow> of_int i | None \<Rightarrow> 0))"

definition terminalCrawlEvents :: "terminal_crawl_facts \<Rightarrow> string \<Rightarrow> event_payload list" where
  "terminalCrawlEvents session occurredAt =
     (let success = (tcStatus session = ''completed'');
          crawlEvent = (if success then ''crawl.completed'' else ''crawl.failed'');
          syncEvent = (if success then ''sync.succeeded'' else ''sync.failed'');
          error = (if success then None else map_option (take MAX_DELIVERY_ERROR_LENGTH) (tcLastError session));
          errorField = (if truthy error then [(''error'', JStr (the error))] else []);
          base = [(''connectionId'', JStr (tcConnectionId session)), (''syncId'', JStr (tcId session)), (''occurredAt'', JStr occurredAt)]
      in [\<lparr>epEvent = crawlEvent, epPayload =
             [(''event'', JStr crawlEvent), (''connectionId'', JStr (tcConnectionId session)),
              (''institutionId'', JStr (tcInstitutionId session)), (''sessionId'', JStr (tcId session)),
              (''status'', JStr (if success then ''completed'' else ''failed''))]
             @ errorField @ [(''occurredAt'', JStr occurredAt)]\<rparr>,
          \<lparr>epEvent = syncEvent, epPayload =
             (''event'', JStr syncEvent) # base @ [(''status'', JStr (if success then ''succeeded'' else ''failed''))] @ errorField\<rparr>]
         @ (case tcSyncCounts session of
              Some (added, modified) \<Rightarrow>
                if success then [\<lparr>epEvent = ''transactions.updated'', epPayload =
                  (''event'', JStr ''transactions.updated'') # base
                  @ [(''added'', countJson added), (''modified'', countJson modified), (''removed'', JNum (Fin 0))]\<rparr>]
                else []
            | None \<Rightarrow> [])
         @ (if truthy (tcConnectionStatusBeforeCrawl session) \<and> truthy (tcConnectionStatusAfterCrawl session)
               \<and> tcConnectionStatusAfterCrawl session \<noteq> tcConnectionStatusBeforeCrawl session
            then [\<lparr>epEvent = ''connection.status_changed'', epPayload =
                  (''event'', JStr ''connection.status_changed'') # base
                  @ [(''from'', JStr (the (tcConnectionStatusBeforeCrawl session))),
                     (''to'', JStr (the (tcConnectionStatusAfterCrawl session)))]\<rparr>]
            else []))"

section \<open>Shared lemmas\<close>

lemma dispatch_write:
  assumes "decideDispatchReservation input = Inr (Dispatch a owner w)"
  shows "rwAttempts w = (case riJob input of Some j \<Rightarrow> (case djDispatchAttempts j of Some n \<Rightarrow> n | None \<Rightarrow> 0) + 1 | None \<Rightarrow> 1)
    \<and> rwLeaseExpiresAtMs w = riNowMs input + DISPATCH_LEASE_MS \<and> SESSION_ID a \<and> owner = riOwner input
    \<and> (riRequestedAttemptId input = None \<or> riRequestedAttemptId input = Some a)
    \<and> (\<exists>s. riSession input = Some s \<and> dsExpectedWorkerAttemptId s \<in> {Some a, None}
         \<and> (\<exists>st. dsStatus s = Some st \<and> st \<in> set WORKER_ACTIVE_SESSION_STATUSES))"
proof -
  have "[] \<notin> set WORKER_ACTIVE_SESSION_STATUSES" by (simp add: WORKER_ACTIVE_SESSION_STATUSES_def)
  with assms show ?thesis
    by (auto simp: decideDispatchReservation_def Let_def split: option.splits if_splits)
qed

lemma dispatch_attempts:
  assumes "riJob input = Some job" "djDispatchAttempts job = Some n" "MAX_DISPATCH_ATTEMPTS \<le> n"
  shows "decideDispatchReservation input \<noteq> Inr (Dispatch a owner w)"
  using assms by (auto simp: decideDispatchReservation_def Let_def split: option.splits if_splits)

lemma find_fst_None: "List.find fst xs = None \<longleftrightarrow> (\<forall>x \<in> set xs. \<not> fst x)"
  by (auto simp: find_None_iff)

lemma find_fst_split:
  "map_option snd (List.find fst xs) = Some r \<Longrightarrow>
     \<exists>before after. xs = before @ (True, r) # after \<and> list_all (\<lambda>f. \<not> fst f) before"
proof (induction xs)
  case (Cons f xs)
  show ?case
  proof (cases "fst f")
    case True
    with Cons.prems have "f # xs = [] @ (True, r) # xs" by (cases f) simp
    then show ?thesis by force
  next
    case False
    with Cons obtain before after where "xs = before @ (True, r) # after" "list_all (\<lambda>f. \<not> fst f) before" by auto
    with False have "f # xs = (f # before) @ (True, r) # after" "list_all (\<lambda>f. \<not> fst f) (f # before)" by simp_all
    then show ?thesis by blast
  qed
qed simp

lemma readiness_iff:
  "decidePromotionReadiness s j c x = Ready \<longleftrightarrow>
     psStatus s \<noteq> ''completed'' \<and> (\<forall>f \<in> set (promotionFailures s j c x). \<not> fst f)"
  using find_fst_None [of "promotionFailures s j c x"]
  by (cases "List.find fst (promotionFailures s j c x)") (auto simp: decidePromotionReadiness_def)

lemma terminalCrawlEvents_names:
  "map epEvent (terminalCrawlEvents session occurredAt) =
     (if tcStatus session = ''completed'' then [''crawl.completed'', ''sync.succeeded''] else [''crawl.failed'', ''sync.failed''])
     @ (if tcStatus session = ''completed'' \<and> tcSyncCounts session \<noteq> None then [''transactions.updated''] else [])
     @ (if truthy (tcConnectionStatusBeforeCrawl session) \<and> truthy (tcConnectionStatusAfterCrawl session)
           \<and> tcConnectionStatusAfterCrawl session \<noteq> tcConnectionStatusBeforeCrawl session then [''connection.status_changed''] else [])"
  by (auto simp: terminalCrawlEvents_def Let_def split: option.splits)

lemma terminalCrawlEvents_distinct: "distinct (map epEvent (terminalCrawlEvents session occurredAt))"
  unfolding terminalCrawlEvents_names by auto

section \<open>Properties\<close>

definition demoUuid :: string where
  "demoUuid = ''00000000-0000-4000-8000-000000000000''"

definition demoReservation :: reservation_input where
  "demoReservation = \<lparr>riSessionId = ''s'', riRequestedAttemptId = None, riHasEncryptedPayload = True,
     riSession = Some \<lparr>dsStatus = Some ''starting'', dsExpectedWorkerAttemptId = Some demoUuid\<rparr>, riJob = None,
     riNowMs = 7, riOwner = ''o''\<rparr>"

text \<open>
  One hand-off per crawl. A granted hand-off names a well-formed attempt of an active session,
  is the attempt the caller asked for if it asked for one, and writes an attempt count of one and a
  lease of 45 seconds. Once a job record carries that count, no later reservation is granted:
  whatever the clock, the lease, the status or the caller.
\<close>

theorem dispatch_at_most_once:
  assumes "decideDispatchReservation input = Inr (Dispatch a owner w)"
    and "\<forall>j n. riJob input = Some j \<longrightarrow> djDispatchAttempts j = Some n \<longrightarrow> 0 \<le> n"
  shows "SESSION_ID a \<and> riRequestedAttemptId input \<in> {None, Some a}
    \<and> (\<exists>s st. riSession input = Some s \<and> dsStatus s = Some st \<and> st \<in> set WORKER_ACTIVE_SESSION_STATUSES)
    \<and> rwAttempts w = 1 \<and> rwLeaseExpiresAtMs w = riNowMs input + 45000
    \<and> (\<forall>later job. riJob later = Some job \<longrightarrow> djDispatchAttempts job = Some (rwAttempts w) \<longrightarrow>
         (\<forall>b o' v. decideDispatchReservation later \<noteq> Inr (Dispatch b o' v)))"
proof -
  have small: "case riJob input of Some j \<Rightarrow> (case djDispatchAttempts j of Some n \<Rightarrow> n = 0 | None \<Rightarrow> True) | None \<Rightarrow> True"
  proof (cases "riJob input")
    case (Some j)
    have "\<not> 1 \<le> n" if n: "djDispatchAttempts j = Some n" for n
      using dispatch_attempts [OF Some n, of a owner w] assms(1) by (auto simp: MAX_DISPATCH_ATTEMPTS_def)
    with Some assms(2) show ?thesis by (force split: option.splits)
  qed simp
  from dispatch_write [OF assms(1)] small have one: "rwAttempts w = 1" by (auto split: option.splits)
  have "decideDispatchReservation later \<noteq> Inr (Dispatch b o' v)"
    if "riJob later = Some job" "djDispatchAttempts job = Some (rwAttempts w)" for later job b o' v
    using dispatch_attempts [OF that] one by (simp add: MAX_DISPATCH_ATTEMPTS_def)
  then show ?thesis using dispatch_write [OF assms(1)] one by (auto simp: DISPATCH_LEASE_MS_def)
qed

theorem dispatch_at_most_once_witness:
  "\<exists>w. decideDispatchReservation demoReservation = Inr (Dispatch demoUuid ''o'' w) \<and> rwAttempts w = 1"
proof -
  have "SESSION_ID demoUuid" by code_simp
  then obtain w where w: "decideDispatchReservation demoReservation = Inr (Dispatch demoUuid ''o'' w)"
    by (simp add: decideDispatchReservation_def demoReservation_def WORKER_ACTIVE_SESSION_STATUSES_def)
  have "\<forall>j n. riJob demoReservation = Some j \<longrightarrow> djDispatchAttempts j = Some n \<longrightarrow> 0 \<le> n" by (simp add: demoReservation_def)
  from dispatch_at_most_once [OF w this] w show ?thesis by blast
qed

text \<open>
  Every delivery ends. Whatever a webhook endpoint answers to its first, second, third attempt
  and so on, there is an attempt no later than the twentieth that records a final outcome, and all
  attempts before it were retries; the error of a delivery that runs out of attempts says so.
\<close>

theorem delivery_ends:
  "\<exists>n \<ge> 1. n \<le> 20
     \<and> (\<forall>status detail. decideDeliveryFinish (answer n) n \<noteq> FinishRetry status detail)
     \<and> (\<forall>m. 1 \<le> m \<and> m < n \<longrightarrow> (\<exists>status detail. decideDeliveryFinish (answer m) m = FinishRetry status detail))
     \<and> (\<forall>status detail. answer n = AttemptRetryable status detail \<longrightarrow>
          decideDeliveryFinish (answer n) n = FinishPermanent status (Some DELIVERY_BUDGET_EXHAUSTED))"
proof -
  let ?final = "\<lambda>n. \<forall>status detail. decideDeliveryFinish (answer n) n \<noteq> FinishRetry status detail"
  define k where "k = (LEAST k. ?final (int (Suc k)))"
  have last: "?final (int (Suc 19))"
    by (auto simp: decideDeliveryFinish_def MAX_DELIVERY_ATTEMPTS_def split: attempt_outcome.splits)
  then have fin: "?final (int (Suc k))" and "k \<le> 19"
    unfolding k_def by (rule LeastI [where P = "\<lambda>k. ?final (int (Suc k))"], rule Least_le)
  have before: "\<exists>status detail. decideDeliveryFinish (answer m) m = FinishRetry status detail" if m: "1 \<le> m" "m < int (Suc k)" for m
  proof (rule ccontr)
    assume "\<not> ?thesis"
    then have "?final (int (Suc (nat (m - 1))))" using m by simp
    then have "k \<le> nat (m - 1)" unfolding k_def by (rule Least_le)
    with m show False by linarith
  qed
  have "decideDeliveryFinish (answer (int (Suc k))) (int (Suc k)) = FinishPermanent status (Some DELIVERY_BUDGET_EXHAUSTED)"
    if "answer (int (Suc k)) = AttemptRetryable status detail" for status detail
    using fin that by (auto simp: decideDeliveryFinish_def split: if_splits)
  with fin before \<open>k \<le> 19\<close> show ?thesis by (intro exI [of _ "int (Suc k)"]) simp
qed

theorem delivery_ends_witness:
  "\<exists>n \<ge> 1. n \<le> 20 \<and> (\<forall>status detail. decideDeliveryFinish (AttemptRetryable (Some 500) None) n \<noteq> FinishRetry status detail)"
  using delivery_ends [of "\<lambda>_. AttemptRetryable (Some 500) None"] by blast

text \<open>
  Every event of every finished crawl has its own delivery per webhook. The events of one crawl
  have distinct names, each payload repeats its event's name, and when two deliveries share an id
  and SHA-256 does not collide on the two preimages, they are the same event of the same crawl to the
  same webhook.
\<close>

theorem delivery_ids_separate:
  assumes "e \<in> set (terminalCrawlEvents c t)" "e' \<in> set (terminalCrawlEvents c' t')"
    and "deliveryId sha (tcId c) (epEvent e) hook = deliveryId sha (tcId c') (epEvent e') hook'"
    and "\<And>p q. sha p = sha q \<Longrightarrow> p \<in> {idPreimage [StrPart (tcId c), StrPart (epEvent e), StrPart hook],
           idPreimage [StrPart (tcId c'), StrPart (epEvent e'), StrPart hook']} \<Longrightarrow>
         q \<in> {idPreimage [StrPart (tcId c), StrPart (epEvent e), StrPart hook],
           idPreimage [StrPart (tcId c'), StrPart (epEvent e'), StrPart hook']} \<Longrightarrow> p = q"
  shows "tcId c = tcId c' \<and> epEvent e = epEvent e' \<and> hook = hook'
    \<and> (c = c' \<and> t = t' \<longrightarrow> e = e') \<and> mget (epPayload e) ''event'' = Some (JStr (epEvent e))"
proof -
  let ?p = "idPreimage [StrPart (tcId c), StrPart (epEvent e), StrPart hook]"
  let ?q = "idPreimage [StrPart (tcId c'), StrPart (epEvent e'), StrPart hook']"
  have "sha ?p = sha ?q" using assms(3) by (simp add: deliveryId_def hashValue_def to_hex_inject)
  then have "?p = ?q" by (rule assms(4)) simp_all
  then have same: "tcId c = tcId c'" "epEvent e = epEvent e'" "hook = hook'" by (simp_all add: idPreimage_inject)
  have "e = e'" if "c = c'" "t = t'"
    using terminalCrawlEvents_distinct [of c t] assms(1,2) same(2) that by (auto simp: distinct_map inj_on_def)
  moreover have "mget (epPayload e) ''event'' = Some (JStr (epEvent e))"
    using assms(1) by (auto simp: terminalCrawlEvents_def Let_def mget_Cons split: option.splits if_splits)
  ultimately show ?thesis using same by blast
qed

theorem delivery_ids_separate_witness:
  "\<exists>c e. e \<in> set (terminalCrawlEvents c ''now'') \<and> mget (epPayload e) ''event'' = Some (JStr (epEvent e))"
proof -
  let ?c = "\<lparr>tcId = ''s'', tcConnectionId = ''k'', tcInstitutionId = ''i'', tcStatus = ''completed'', tcLastError = None,
    tcSyncCounts = None, tcConnectionStatusBeforeCrawl = None, tcConnectionStatusAfterCrawl = None\<rparr>"
  obtain e where e: "e \<in> set (terminalCrawlEvents ?c ''now'')" by (auto simp: terminalCrawlEvents_def Let_def)
  from delivery_ids_separate [OF e e refl, of "\<lambda>s. map (of_nat \<circ> of_char) s" "''h''"] e show ?thesis by blast
qed

text \<open>
  The gate in front of the bank. A crawl is admitted exactly when the connection is in a
  crawlable status, its login domain is verified under the institution's current fingerprint, an
  overriding address stays in that domain, the recipe passed its safety check, no phone routing is
  needed and both credentials are stored. A refusal that does not count as a failure never hits a
  connection the scheduler would claim, so what can never succeed stops being retried.
\<close>

theorem admission_gate:
  "(decideCrawlAdmission c i inDomain = Admitted \<longleftrightarrow>
      isRecoverableConnectionStatus (acnStatus c) \<and> acnLoginDomainVerified c = Some True
      \<and> acnVerifiedTrustFingerprint c = Some (ainTrustFingerprint i)
      \<and> (acnLoginUrlOverride c \<in> {None, Some []} \<or> inDomain) \<and> ainScanStatus i = ''passed''
      \<and> ainUseDeviceProxy i \<noteq> Some True \<and> acnHasUsername c \<and> acnHasPassword c)
   \<and> (decideCrawlAdmission c i inDomain = Refused copy False \<longrightarrow> acnStatus c \<in> {NeedsReauth, Disabled} \<and> copy = CrawlConnectionNotReady)"
proof -
  have "\<not> isRecoverableConnectionStatus s \<longleftrightarrow> s \<in> {NeedsReauth, Disabled}" for s
    by (cases s) (simp_all add: isRecoverableConnectionStatus_def RECOVERABLE_CONNECTION_STATUSES_def)
  moreover have "truthy o' \<longleftrightarrow> o' \<notin> {None, Some []}" for o' by (cases o') auto
  ultimately show ?thesis by (auto simp: decideCrawlAdmission_def)
qed

theorem admission_gate_witness:
  "decideCrawlAdmission \<lparr>acnStatus = Disabled, acnLoginDomainVerified = None, acnVerifiedTrustFingerprint = None,
     acnLoginUrlOverride = None, acnHasUsername = True, acnHasPassword = True\<rparr>
     \<lparr>ainTrustFingerprint = ''f'', ainCanonicalDomain = ''d'', ainScanStatus = ''passed'', ainUseDeviceProxy = None\<rparr> False
     \<noteq> Admitted"
  unfolding admission_gate [THEN conjunct1] by simp

text \<open>
  Only agreed output is published. A session is ready for promotion exactly when it is not yet
  completed and every clause holds: the job and the session carry the same output and completion
  digests, the counts match, the session is still the connection's active crawl on the generation the
  plan was computed from, and the manifest is ready and is the one planned. Otherwise the reason
  reported is that of the first clause that fails.
\<close>

theorem promotion_only_agreed_output:
  "(decidePromotionReadiness s j c x = Ready \<longleftrightarrow>
      psStatus s \<noteq> ''completed'' \<and> psStatus s \<in> set (peActiveSessionStatuses x)
      \<and> psWorkerOutcome s = Some ''success'' \<and> pjStatus j = ''succeeded''
      \<and> psOutputGeneration s = Some (peOutputGeneration x) \<and> pjOutputGeneration j = psOutputGeneration s
      \<and> psOutputDigest s = Some (peOutputDigest x) \<and> pjOutputDigest j = psOutputDigest s
      \<and> psCompletionDigest s = Some (peCompletionDigest x) \<and> pjCompletionDigest j = psCompletionDigest s
      \<and> (case psOutputCounts s of Some k \<Rightarrow> k | None \<Rightarrow> (None, None, None)) = peCounts x
      \<and> pcActiveSessionId c = Some (peSessionId x) \<and> pcActiveDataGeneration c = peBaseDataGeneration x
      \<and> psTargetDataGeneration s = peTargetDataGeneration x
      \<and> peManifestStatus x = Some ''ready'' \<and> peManifestPlanDigest x = Some (peExpectedPlanDigest x))
   \<and> (decidePromotionReadiness s j c x = NotReady r \<longrightarrow>
        (\<exists>before after. promotionFailures s j c x = before @ (True, r) # after \<and> list_all (\<lambda>f. \<not> fst f) before))"
proof
  show "decidePromotionReadiness s j c x = NotReady r \<longrightarrow>
        (\<exists>before after. promotionFailures s j c x = before @ (True, r) # after \<and> list_all (\<lambda>f. \<not> fst f) before)"
  proof
    assume "decidePromotionReadiness s j c x = NotReady r"
    then have "map_option snd (List.find fst (promotionFailures s j c x)) = Some r"
      by (cases "List.find fst (promotionFailures s j c x)") (simp_all add: decidePromotionReadiness_def split: if_splits)
    then show "\<exists>before after. promotionFailures s j c x = before @ (True, r) # after \<and> list_all (\<lambda>f. \<not> fst f) before"
      by (rule find_fst_split)
  qed
qed (rule iffI; simp add: readiness_iff promotionFailures_def)

theorem promotion_only_agreed_output_witness:
  "decidePromotionReadiness \<lparr>psStatus = ''extracting'', psWorkerOutcome = None, psOutputGeneration = None, psOutputDigest = None,
     psCompletionDigest = None, psOutputCounts = None, psTargetDataGeneration = None\<rparr>
     \<lparr>pjStatus = ''succeeded'', pjOutputGeneration = None, pjOutputDigest = None, pjCompletionDigest = None\<rparr>
     \<lparr>pcActiveSessionId = None, pcActiveDataGeneration = None\<rparr>
     \<lparr>peSessionId = ''s'', peOutputGeneration = ''g'', peOutputDigest = ''d'', peCompletionDigest = ''c'', peCounts = (None, None, None),
      peBaseDataGeneration = None, peTargetDataGeneration = None, peManifestStatus = None, peManifestPlanDigest = None,
      peExpectedPlanDigest = ''p'', peActiveSessionStatuses = [''extracting'']\<rparr> \<noteq> Ready"
  unfolding promotion_only_agreed_output [THEN conjunct1] by simp

end
