(* ===== verification/BrowserGuard.thy ===== *)
theory BrowserGuard
  imports JsJson
begin

text \<open>
  \<^verbatim>\<open>apps/engine/src/browser/write-gate.ts\<close>, \<^verbatim>\<open>egress-guard.ts\<close> and \<^verbatim>\<open>utils/safe-browser-url.ts\<close>:
  which requests may leave the browser. Parameters stand for what the sources only call: the URL
  parser and query-string parser of the platform, \<^verbatim>\<open>JSON.parse\<close>, the public-suffix list
  (\<^verbatim>\<open>tldts\<close>) and the model that vets a request. A vet answers, throws or stays silent past its
  timeout; its answer is kept as a string because nothing at run time restricts it.
\<close>

section \<open>Request metadata\<close>

datatype crawl_phase = Login | Extract

record vettable_request =
  vrMethod :: string
  vrSafeUrl :: string
  vrParameterNames :: "string list"
  vrOperationHints :: "string list"

datatype vet_outcome = Answered string | VetThrew | VetSilent

type_synonym request_vet = "vettable_request \<Rightarrow> vet_outcome"

record gate_decision =
  gdAllowed :: bool
  gdReason :: string

definition NON_IDEMPOTENT_METHODS :: "string list" where
  "NON_IDEMPOTENT_METHODS = [''POST'', ''PUT'', ''PATCH'', ''DELETE'']"

definition isNonIdempotent :: "string \<Rightarrow> bool" where
  "isNonIdempotent m = (to_upper m \<in> set NON_IDEMPOTENT_METHODS)"

definition MAX_PARAMETER_NAMES :: nat where
  "MAX_PARAMETER_NAMES = 40"

definition MAX_PARAMETER_NAME_LENGTH :: nat where
  "MAX_PARAMETER_NAME_LENGTH = 60"

definition MAX_JSON_DEPTH :: nat where
  "MAX_JSON_DEPTH = 3"

text \<open>\<^verbatim>\<open>/^[A-Za-z][A-Za-z0-9_$.:-]{0,63}$/\<close>\<close>

definition isHintChar :: "char \<Rightarrow> bool" where
  "isHintChar c = (is_alpha c \<or> is_digit c \<or> c \<in> set ''_$.:-'')"

definition OPERATION_HINT :: "string \<Rightarrow> bool" where
  "OPERATION_HINT s = (s \<noteq> [] \<and> is_alpha (hd s) \<and> list_all isHintChar s \<and> length s \<le> 64)"

definition isOperationHint :: "json \<Rightarrow> bool" where
  "isOperationHint v = (case v of JStr s \<Rightarrow> OPERATION_HINT s | _ \<Rightarrow> False)"

record request_parameters =
  rpNames :: "string list"
  rpHints :: "string list"

definition EMPTY_PARAMETERS :: request_parameters where
  "EMPTY_PARAMETERS = \<lparr>rpNames = [], rpHints = []\<rparr>"

text \<open>The loop of \<^verbatim>\<open>capped\<close>, with the output so far; its elements are the set \<^verbatim>\<open>seen\<close>.\<close>

fun cappedFrom :: "nat \<Rightarrow> string list \<Rightarrow> string list \<Rightarrow> string list" where
  "cappedFrom maxLength out [] = out"
| "cappedFrom maxLength out (raw # values) =
     (if raw = [] then cappedFrom maxLength out values
      else let value = take maxLength raw in
        if value \<in> set out then cappedFrom maxLength out values
        else let out = out @ [value] in
          if length out \<ge> MAX_PARAMETER_NAMES then out else cappedFrom maxLength out values)"

definition capped :: "string list \<Rightarrow> nat \<Rightarrow> string list" where
  "capped values maxLength = cappedFrom maxLength [] values"

definition cap :: "string list \<Rightarrow> string list \<Rightarrow> request_parameters" where
  "cap names hints = \<lparr>rpNames = capped names MAX_PARAMETER_NAME_LENGTH, rpHints = capped hints MAX_PARAMETER_NAME_LENGTH\<rparr>"

definition collect :: "(string \<times> string) list \<Rightarrow> request_parameters" where
  "collect pairs = cap (map fst pairs) (filter OPERATION_HINT (map snd pairs))"

text \<open>\<^verbatim>\<open>walkJson\<close> appends to the two accumulators it is given.\<close>

definition addField :: "string \<Rightarrow> json \<Rightarrow> string list \<times> string list \<Rightarrow> string list \<times> string list" where
  "addField key entry acc =
     (fst acc @ [key], snd acc @ (case entry of JStr s \<Rightarrow> if isOperationHint entry then [s] else [] | _ \<Rightarrow> []))"

definition walkStops :: "nat \<Rightarrow> string list \<times> string list \<Rightarrow> bool" where
  "walkStops depth acc = (depth > MAX_JSON_DEPTH \<or> length (fst acc) \<ge> MAX_PARAMETER_NAMES)"

fun walkJson :: "json \<Rightarrow> nat \<Rightarrow> string list \<times> string list \<Rightarrow> string list \<times> string list"
  and walkElements :: "json list \<Rightarrow> nat \<Rightarrow> string list \<times> string list \<Rightarrow> string list \<times> string list"
  and walkFields :: "jobj \<Rightarrow> nat \<Rightarrow> string list \<times> string list \<Rightarrow> string list \<times> string list" where
  "walkJson (JArr entries) depth acc = (if walkStops depth acc then acc else walkElements entries depth acc)"
| "walkJson (JObj kvs) depth acc = (if walkStops depth acc then acc else walkFields kvs depth acc)"
| "walkJson _ depth acc = acc"
| "walkElements [] depth acc = acc"
| "walkElements (entry # entries) depth acc = walkElements entries depth (walkJson entry (depth + 1) acc)"
| "walkFields [] depth acc = acc"
| "walkFields ((key, entry) # kvs) depth acc =
     (if length (fst (addField key entry acc)) \<ge> MAX_PARAMETER_NAMES then addField key entry acc
      else walkFields kvs depth (walkJson entry (depth + 1) (addField key entry acc)))"

text \<open>\<^verbatim>\<open>/\bname="([^"]{1,200})"/g\<close>: the scan from each position, \<open>prev\<close> being the character before it.\<close>

definition isWordChar :: "char \<Rightarrow> bool" where
  "isWordChar c = (is_alpha c \<or> is_digit c \<or> c = CHR ''_'')"

definition quotedName :: "string \<Rightarrow> (string \<times> string) option" where
  "quotedName s =
     (let start = ''name='' @ [CHR 0x22] in
      if \<not> starts_with s start then None
      else let body = drop (length start) s; name = takeWhile (\<lambda>c. c \<noteq> CHR 0x22) body in
        if 1 \<le> length name \<and> length name \<le> 200 \<and> length name < length body
        then Some (name, drop (length name + 1) body) else None)"

lemma quotedName_shorter: "quotedName s = Some (name, rest) \<Longrightarrow> length rest < length s"
  by (auto simp: quotedName_def Let_def split: if_splits)

function multipartNames :: "char option \<Rightarrow> string \<Rightarrow> string list" where
  "multipartNames prev [] = []"
| "multipartNames prev (c # s) =
     (case (if prev \<noteq> None \<and> isWordChar (the prev) then None else quotedName (c # s)) of
        Some (name, rest) \<Rightarrow> name # multipartNames (Some CHR 0x22) rest
      | None \<Rightarrow> multipartNames (Some c) s)"
  by pat_completeness auto

termination
proof (relation "measure (length \<circ> snd)")
  fix prev c s name rest and x :: "string \<times> string"
  assume x: "(if prev \<noteq> None \<and> isWordChar (the prev) then None else quotedName (c # s)) = Some x" "(name, rest) = x"
  then have "quotedName (c # s) = Some (name, rest)" by (auto split: if_splits)
  from quotedName_shorter [OF this] show "((Some CHR 0x22, rest), prev, c # s) \<in> measure (length \<circ> snd)" by simp
qed auto

definition str_includes :: "string \<Rightarrow> string \<Rightarrow> bool" where
  "str_includes s sub = (\<exists>i \<in> set [0 ..< length s + 1]. starts_with (drop i s) sub)"

definition bodyParameters ::
  "(string \<Rightarrow> json option) \<Rightarrow> (string \<Rightarrow> (string \<times> string) list) \<Rightarrow> string option \<Rightarrow> string option \<Rightarrow> request_parameters" where
  "bodyParameters jsonParse searchParams contentType body =
     (if \<not> truthy body then EMPTY_PARAMETERS
      else let type = to_lower (case contentType of Some t \<Rightarrow> t | None \<Rightarrow> []) in
        if str_includes type ''application/json'' then
          (case jsonParse (the body) of
             Some v \<Rightarrow> (case walkJson v 0 ([], []) of (names, hints) \<Rightarrow> cap names hints)
           | None \<Rightarrow> EMPTY_PARAMETERS)
        else if str_includes type ''multipart/form-data'' then
          \<lparr>rpNames = capped (multipartNames None (the body)) MAX_PARAMETER_NAME_LENGTH, rpHints = []\<rparr>
        else collect (searchParams (the body)))"

text \<open>\<open>urlQuery\<close> gives the query pairs of a URL, \<open>None\<close> when it does not parse.\<close>

definition queryParameters :: "(string \<Rightarrow> (string \<times> string) list option) \<Rightarrow> string \<Rightarrow> request_parameters" where
  "queryParameters urlQuery url = (case urlQuery url of Some pairs \<Rightarrow> collect pairs | None \<Rightarrow> EMPTY_PARAMETERS)"

definition mergeParameters :: "request_parameters list \<Rightarrow> request_parameters" where
  "mergeParameters parts = cap (concat (map rpNames parts)) (concat (map rpHints parts))"

section \<open>The write gate\<close>

record write_gate =
  wgPhase :: crawl_phase
  wgVerdicts :: "string jsmap"
  wgBlocked :: "string list"

definition newGate :: write_gate where
  "newGate = \<lparr>wgPhase = Login, wgVerdicts = [], wgBlocked = []\<rparr>"

definition setPhase :: "crawl_phase \<Rightarrow> write_gate \<Rightarrow> write_gate" where
  "setPhase phase g = (if phase = wgPhase g then g else g\<lparr>wgPhase := phase\<rparr>)"

definition cacheKey :: "vettable_request \<Rightarrow> string" where
  "cacheKey r = to_upper (vrMethod r) @ '' '' @ vrSafeUrl r @ '' n=['' @ join '','' (sort (vrParameterNames r))
     @ ''] h=['' @ join '','' (sort (vrOperationHints r)) @ '']''"

definition drainBlocked :: "write_gate \<Rightarrow> write_gate \<times> string list" where
  "drainBlocked g = (g\<lparr>wgBlocked := []\<rparr>, wgBlocked g)"

definition deny :: "vettable_request \<Rightarrow> string \<Rightarrow> write_gate \<Rightarrow> write_gate \<times> gate_decision" where
  "deny r reason g =
     (g\<lparr>wgBlocked := wgBlocked g @ [to_upper (vrMethod r) @ '' '' @ vrSafeUrl r @ '' ('' @ reason @ '')'']\<rparr>,
      \<lparr>gdAllowed = False, gdReason = reason\<rparr>)"

definition allow :: "string \<Rightarrow> write_gate \<Rightarrow> write_gate \<times> gate_decision" where
  "allow reason g = (g, \<lparr>gdAllowed = True, gdReason = reason\<rparr>)"

definition withTimeout :: "vet_outcome \<Rightarrow> string option" where
  "withTimeout v = (case v of Answered s \<Rightarrow> Some s | VetThrew \<Rightarrow> None | VetSilent \<Rightarrow> None)"

definition evaluate :: "request_vet option \<Rightarrow> vettable_request \<Rightarrow> write_gate \<Rightarrow> write_gate \<times> gate_decision" where
  "evaluate vet r g =
     (if \<not> isNonIdempotent (vrMethod r) then allow ''idempotent method'' g
      else if wgPhase g = Login then allow ''authentication phase'' g
      else if truthy (mget (wgVerdicts g) (cacheKey r)) then
        (if mget (wgVerdicts g) (cacheKey r) = Some ''read'' then allow ''vetted as a data read (cached)'' g
         else deny r ''vetted as a state change (cached)'' g)
      else case vet of
             None \<Rightarrow> deny r ''state-changing method after login, and no request vet is configured'' g
           | Some f \<Rightarrow>
               (case withTimeout (f r) of
                  None \<Rightarrow> deny r ''request vet did not return a verdict'' g
                | Some verdict \<Rightarrow>
                    let g = g\<lparr>wgVerdicts := mput (cacheKey r) verdict (wgVerdicts g)\<rparr> in
                    if verdict = ''read'' then allow ''vetted as a data read'' g
                    else deny r ''vetted as a state change'' g))"

section \<open>The egress guard\<close>

type_synonym domain_lookup = "string \<Rightarrow> string option"

text \<open>\<^verbatim>\<open>/^(about|data|blob):/i\<close>\<close>

definition INERT_SCHEME :: "string \<Rightarrow> bool" where
  "INERT_SCHEME url = (\<exists>p \<in> set [''about:'', ''data:'', ''blob:'']. starts_with (to_lower url) p)"

definition allowedSuffixes :: "domain_lookup \<Rightarrow> domain_lookup \<Rightarrow> string \<Rightarrow> string list \<Rightarrow> string list" where
  "allowedSuffixes getDomain getHostname loginUrl allowedDomains =
     (if truthy (getDomain loginUrl) then [to_lower (the (getDomain loginUrl))] else [])
     @ concat (map (\<lambda>d. let url = (if str_includes d ''://'' then d else ''https://'' @ d) in
         if truthy (getHostname url) \<and> truthy (getDomain url) then [to_lower (the (getHostname url))] else []) allowedDomains)"

definition hostWithin :: "string \<Rightarrow> string \<Rightarrow> bool" where
  "hostWithin host suffix = (host = suffix \<or> ends_with host (CHR ''.'' # suffix))"

definition isUrlAllowed :: "domain_lookup \<Rightarrow> string \<Rightarrow> string list \<Rightarrow> bool" where
  "isUrlAllowed getHostname url suffixes =
     (if INERT_SCHEME url then True
      else if \<not> truthy (getHostname url) then False
      else \<exists>s \<in> set suffixes. hostWithin (to_lower (the (getHostname url))) s)"

text \<open>What \<^verbatim>\<open>new URL\<close> reports of a URL.\<close>

record parsed_url =
  puProtocol :: string
  puOrigin :: string
  puHost :: string
  puPathname :: string

definition safeBrowserUrl :: "(string \<Rightarrow> parsed_url option) \<Rightarrow> string \<Rightarrow> string" where
  "safeBrowserUrl parseUrl raw =
     (if raw = [] then []
      else case parseUrl raw of
             None \<Rightarrow> []
           | Some u \<Rightarrow>
               if puProtocol u \<in> {''http:'', ''https:'', ''ws:'', ''wss:''} then puOrigin u @ puPathname u
               else if puProtocol u = ''about:'' then ''about:'' @ puPathname u
               else if puProtocol u \<in> {''chrome:'', ''chrome-error:'', ''devtools:''}
                 then puProtocol u @ ''//'' @ puHost u @ puPathname u
               else puProtocol u)"

record browser_request =
  brUrl :: string
  brMethod :: string
  brBody :: "string option"
  brContentType :: "string option"

record url_library =
  ulParse :: "string \<Rightarrow> parsed_url option"
  ulQuery :: "string \<Rightarrow> (string \<times> string) list option"
  ulSearchParams :: "string \<Rightarrow> (string \<times> string) list"
  ulJsonParse :: "string \<Rightarrow> json option"

datatype route_action = Continue | Abort

definition toVettable :: "url_library \<Rightarrow> browser_request \<Rightarrow> vettable_request" where
  "toVettable lib q =
     (let p = mergeParameters [queryParameters (ulQuery lib) (brUrl q),
                bodyParameters (ulJsonParse lib) (ulSearchParams lib) (brContentType q) (brBody q)]
      in \<lparr>vrMethod = brMethod q, vrSafeUrl = safeBrowserUrl (ulParse lib) (brUrl q),
          vrParameterNames = rpNames p, vrOperationHints = rpHints p\<rparr>)"

definition routeThroughWriteGate ::
  "url_library \<Rightarrow> request_vet option \<Rightarrow> browser_request \<Rightarrow> write_gate \<Rightarrow> write_gate \<times> route_action" where
  "routeThroughWriteGate lib vet q g =
     (case evaluate vet (toVettable lib q) g of (g', d) \<Rightarrow> (g', if gdAllowed d then Continue else Abort))"

definition routeRequest ::
  "domain_lookup \<Rightarrow> url_library \<Rightarrow> string list \<Rightarrow> request_vet option \<Rightarrow> browser_request \<Rightarrow> write_gate \<Rightarrow> write_gate \<times> route_action" where
  "routeRequest getHostname lib suffixes vet q g =
     (if \<not> isUrlAllowed getHostname (brUrl q) suffixes then (g, Abort)
      else if isNonIdempotent (brMethod q) then routeThroughWriteGate lib vet q g
      else (g, Continue))"

definition routeWebSocket :: "domain_lookup \<Rightarrow> string list \<Rightarrow> string \<Rightarrow> route_action" where
  "routeWebSocket getHostname suffixes url = (if isUrlAllowed getHostname url suffixes then Continue else Abort)"

section \<open>What the vet is shown\<close>

definition cappedOk :: "nat \<Rightarrow> string list \<Rightarrow> bool" where
  "cappedOk maxLength out =
     (distinct out \<and> length out \<le> MAX_PARAMETER_NAMES \<and> (\<forall>s \<in> set out. s \<noteq> [] \<and> length s \<le> maxLength))"

lemma cappedFrom_ok:
  "0 < maxLength \<Longrightarrow> cappedOk maxLength out \<Longrightarrow> length out < MAX_PARAMETER_NAMES \<Longrightarrow> cappedOk maxLength (cappedFrom maxLength out raws)"
proof (induction raws arbitrary: out)
  case (Cons raw raws)
  let ?v = "take maxLength raw"
  show ?case
  proof (cases "raw = [] \<or> ?v \<in> set out")
    case True
    then show ?thesis using Cons by (auto simp: Let_def)
  next
    case False
    then have v: "cappedOk maxLength (out @ [?v])" using Cons.prems by (auto simp: cappedOk_def)
    then show ?thesis using False Cons.IH [of "out @ [?v]"] Cons.prems(1) by (auto simp: Let_def)
  qed
qed simp

lemma capped_ok: "cappedOk MAX_PARAMETER_NAME_LENGTH (capped raws MAX_PARAMETER_NAME_LENGTH)"
  unfolding capped_def by (rule cappedFrom_ok) (simp_all add: cappedOk_def MAX_PARAMETER_NAMES_def MAX_PARAMETER_NAME_LENGTH_def)

lemma cappedFrom_origin: "v \<in> set (cappedFrom maxLength out raws) \<Longrightarrow> v \<in> set out \<or> (\<exists>raw \<in> set raws. raw \<noteq> [] \<and> v = take maxLength raw)"
proof (induction raws arbitrary: out)
  case (Cons raw raws)
  show ?case
  proof (cases "raw = [] \<or> take maxLength raw \<in> set out")
    case True
    then have "cappedFrom maxLength out (raw # raws) = cappedFrom maxLength out raws" by (auto simp: Let_def)
    then show ?thesis using Cons.prems Cons.IH [of out] by auto
  next
    case False
    then show ?thesis using Cons.prems Cons.IH [of "out @ [take maxLength raw]"] by (auto simp: Let_def split: if_splits)
  qed
qed simp

lemma capped_origin: "v \<in> set (capped raws n) \<Longrightarrow> \<exists>raw \<in> set raws. raw \<noteq> [] \<and> v = take n raw"
  using cappedFrom_origin [of v n "[]" raws] by (auto simp: capped_def)

text \<open>Cutting a hint short keeps it identifier-shaped.\<close>

lemma hint_take: "OPERATION_HINT s \<Longrightarrow> 0 < n \<Longrightarrow> OPERATION_HINT (take n s)"
  by (cases s; cases n) (auto simp: OPERATION_HINT_def list_all_iff dest: in_set_takeD)

lemma capped_hints:
  assumes "\<forall>s \<in> set raws. OPERATION_HINT s"
  shows "\<forall>s \<in> set (capped raws MAX_PARAMETER_NAME_LENGTH). OPERATION_HINT s"
proof
  fix s assume "s \<in> set (capped raws MAX_PARAMETER_NAME_LENGTH)"
  then obtain raw where "raw \<in> set raws" "s = take MAX_PARAMETER_NAME_LENGTH raw" using capped_origin by blast
  with assms show "OPERATION_HINT s" by (simp add: hint_take MAX_PARAMETER_NAME_LENGTH_def)
qed

lemma walk_hints:
  "\<forall>s \<in> set (snd acc). OPERATION_HINT s \<Longrightarrow> \<forall>s \<in> set (snd (walkJson v depth acc)). OPERATION_HINT s"
  "\<forall>s \<in> set (snd acc). OPERATION_HINT s \<Longrightarrow> \<forall>s \<in> set (snd (walkElements vs depth acc)). OPERATION_HINT s"
  "\<forall>s \<in> set (snd acc). OPERATION_HINT s \<Longrightarrow> \<forall>s \<in> set (snd (walkFields kvs depth acc)). OPERATION_HINT s"
proof (induction v depth acc and vs depth acc and kvs depth acc rule: walkJson_walkElements_walkFields.induct)
  case (7 key entry kvs depth acc)
  have "\<forall>s \<in> set (snd (addField key entry acc)). OPERATION_HINT s"
    using 7(3) by (auto simp: addField_def isOperationHint_def split: json.splits)
  then show ?case using 7(1,2) by (simp del: fst_conv)
qed auto

lemma collect_hints: "\<forall>s \<in> set (rpHints (collect pairs)). OPERATION_HINT s"
  unfolding collect_def cap_def by (simp, rule capped_hints) simp

lemma bodyParameters_hints: "\<forall>s \<in> set (rpHints (bodyParameters jp sp ct body)). OPERATION_HINT s"
proof -
  have "\<forall>s \<in> set (rpHints (case walkJson v 0 ([], []) of (names, hints) \<Rightarrow> cap names hints)). OPERATION_HINT s" for v
    using walk_hints(1) [of "([], [])" v 0] by (cases "walkJson v 0 ([], [])") (simp add: cap_def capped_hints)
  then show ?thesis
    by (auto simp: bodyParameters_def Let_def EMPTY_PARAMETERS_def collect_hints split: option.splits)
qed

lemma vettable_hints: "\<forall>s \<in> set (vrOperationHints (toVettable lib q)). OPERATION_HINT s"
proof -
  let ?q = "queryParameters (ulQuery lib) (brUrl q)"
  let ?b = "bodyParameters (ulJsonParse lib) (ulSearchParams lib) (brContentType q) (brBody q)"
  have "\<forall>s \<in> set (rpHints ?q). OPERATION_HINT s"
    by (simp add: queryParameters_def collect_hints EMPTY_PARAMETERS_def split: option.splits)
  then have "\<forall>s \<in> set (rpHints ?q @ rpHints ?b). OPERATION_HINT s" using bodyParameters_hints by simp blast
  from capped_hints [OF this] show ?thesis
    by (simp add: toVettable_def mergeParameters_def cap_def Let_def)
qed

lemma vettable_capped:
  "cappedOk MAX_PARAMETER_NAME_LENGTH (vrParameterNames (toVettable lib q))"
  "cappedOk MAX_PARAMETER_NAME_LENGTH (vrOperationHints (toVettable lib q))"
  by (simp_all add: toVettable_def mergeParameters_def cap_def Let_def capped_ok)

section \<open>The cache answers only questions that were asked\<close>

text \<open>The vet's answer to this evaluation, if it is consulted and answers.\<close>

definition vetCall :: "request_vet option \<Rightarrow> vettable_request \<Rightarrow> write_gate \<Rightarrow> (vettable_request \<times> string) list" where
  "vetCall vet r g =
     (if isNonIdempotent (vrMethod r) \<and> wgPhase g = Extract \<and> \<not> truthy (mget (wgVerdicts g) (cacheKey r)) then
        (case vet of Some f \<Rightarrow> (case f r of Answered v \<Rightarrow> [(r, v)] | _ \<Rightarrow> []) | None \<Rightarrow> [])
      else [])"

text \<open>A crawl's use of the gate, with the answers the vet gave so far.\<close>

inductive gate_run :: "write_gate \<Rightarrow> (vettable_request \<times> string) list \<Rightarrow> bool" where
  start: "gate_run newGate []"
| phase: "gate_run g h \<Longrightarrow> gate_run (setPhase p g) h"
| drain: "gate_run g h \<Longrightarrow> gate_run (fst (drainBlocked g)) h"
| request: "gate_run g h \<Longrightarrow> gate_run (fst (evaluate vet r g)) (h @ vetCall vet r g)"

definition cacheSound :: "write_gate \<Rightarrow> (vettable_request \<times> string) list \<Rightarrow> bool" where
  "cacheSound g h = (\<forall>k v. mget (wgVerdicts g) k = Some v \<longrightarrow> (\<exists>r. cacheKey r = k \<and> (r, v) \<in> set h))"

lemma evaluate_verdicts:
  "wgVerdicts (fst (evaluate vet r g)) =
     (case vetCall vet r g of [] \<Rightarrow> wgVerdicts g | (r', v) # _ \<Rightarrow> mput (cacheKey r) v (wgVerdicts g))"
  by (cases "wgPhase g")
    (auto simp: evaluate_def vetCall_def allow_def deny_def withTimeout_def Let_def split: option.splits vet_outcome.splits)

lemma vetCall_cases: "vetCall vet r g = [] \<or> (\<exists>v. vetCall vet r g = [(r, v)])"
  by (auto simp: vetCall_def split: option.splits vet_outcome.splits)

lemma gate_run_sound: "gate_run g h \<Longrightarrow> cacheSound g h"
proof (induction rule: gate_run.induct)
  case (request g h vet r)
  from vetCall_cases [of vet r g] show ?case
  proof (elim disjE exE)
    assume "vetCall vet r g = []"
    with request.IH show ?thesis by (simp add: cacheSound_def evaluate_verdicts)
  next
    fix v assume c: "vetCall vet r g = [(r, v)]"
    show ?thesis unfolding cacheSound_def
    proof (intro allI impI)
      fix k u assume "mget (wgVerdicts (fst (evaluate vet r g))) k = Some u"
      then have k: "(if k = cacheKey r then Some v else mget (wgVerdicts g) k) = Some u" by (simp add: evaluate_verdicts c)
      show "\<exists>q. cacheKey q = k \<and> (q, u) \<in> set (h @ vetCall vet r g)"
      proof (cases "k = cacheKey r")
        case True
        with k c show ?thesis by auto
      next
        case False
        with k request.IH show ?thesis unfolding cacheSound_def by (metis UnCI set_append)
      qed
    qed
  qed
qed (auto simp: cacheSound_def newGate_def setPhase_def drainBlocked_def mget_def)

lemma evaluate_allowed:
  assumes "gdAllowed (snd (evaluate vet r g))" "isNonIdempotent (vrMethod r)" "wgPhase g = Extract"
  shows "mget (wgVerdicts g) (cacheKey r) = Some ''read'' \<or> (r, ''read'') \<in> set (vetCall vet r g)"
proof (cases "truthy (mget (wgVerdicts g) (cacheKey r))")
  case True
  with assms show ?thesis by (cases "mget (wgVerdicts g) (cacheKey r) = Some ''read''") (simp_all add: evaluate_def deny_def)
next
  case False
  with assms obtain f where f: "vet = Some f" by (cases vet) (simp_all add: evaluate_def deny_def)
  with False assms obtain v where v: "f r = Answered v" by (cases "f r") (simp_all add: evaluate_def deny_def withTimeout_def)
  with f False assms have "v = ''read''"
    by (cases "v = ''read''") (simp_all add: evaluate_def deny_def withTimeout_def Let_def)
  with f v False assms show ?thesis by (simp add: vetCall_def)
qed

section \<open>The cache key of well-behaved requests\<close>

lemma split_at: "a @ c # x = b @ c # y \<Longrightarrow> c \<notin> set a \<Longrightarrow> c \<notin> set b \<Longrightarrow> a = b \<and> x = y"
proof (induction a arbitrary: b)
  case Nil
  then show ?case by (cases b) auto
next
  case (Cons z a)
  then show ?case by (cases b) auto
qed

definition plain :: "string \<Rightarrow> bool" where
  "plain s = (s \<noteq> [] \<and> CHR '','' \<notin> set s \<and> CHR '']'' \<notin> set s)"

lemma join_chars: "c \<in> set (join '','' xs) \<Longrightarrow> c = CHR '','' \<or> (\<exists>x \<in> set xs. c \<in> set x)"
  by (induction "'',''" xs rule: join.induct) auto

lemma join_plain: "list_all plain xs \<Longrightarrow> CHR '']'' \<notin> set (join '','' xs)"
  using join_chars by (fastforce simp: list_all_iff plain_def)

lemma join_Cons: "join sep (x # xs) = x @ (if xs = [] then [] else sep @ join sep xs)"
  by (cases xs) auto

lemma join_inject:
  "list_all plain xs \<Longrightarrow> list_all plain ys \<Longrightarrow> join '','' xs = join '','' ys \<Longrightarrow> xs = ys"
proof (induction xs arbitrary: ys)
  case Nil
  then show ?case by (cases ys) (auto simp: join_Cons plain_def)
next
  case (Cons x xs)
  then obtain y zs where ys: "ys = y # zs" by (cases ys) (auto simp: join_Cons plain_def)
  have comma: "CHR '','' \<notin> set x" "CHR '','' \<notin> set y" using Cons.prems ys by (simp_all add: plain_def)
  have eq: "x @ (if xs = [] then [] else CHR '','' # join '','' xs) = y @ (if zs = [] then [] else CHR '','' # join '','' zs)"
    using Cons.prems(3) ys by (simp add: join_Cons split: if_splits)
  show ?case
  proof (cases "xs = [] \<or> zs = []")
    case True
    with eq comma have "xs = [] \<and> zs = []" by (auto split: if_splits)
    with eq ys show ?thesis by simp
  next
    case False
    with eq comma split_at [of x "CHR '',''" "join '','' xs" y "join '','' zs"] have "x = y" "join '','' xs = join '','' zs" by auto
    with Cons.IH [of zs] Cons.prems ys show ?thesis by simp
  qed
qed

definition wellBehaved :: "vettable_request \<Rightarrow> bool" where
  "wellBehaved r =
     (CHR '' '' \<notin> set (vrMethod r) \<and> CHR '' '' \<notin> set (vrSafeUrl r)
      \<and> list_all plain (vrParameterNames r) \<and> list_all plain (vrOperationHints r))"

lemma upper_space: "upper_char c = CHR '' '' \<longleftrightarrow> c = CHR '' ''"
proof -
  have "(of_char (CHR '' '') :: nat) = 32" by simp
  then have space: "x = CHR '' '' \<longleftrightarrow> (of_char x :: nat) = 32" for x by (metis of_char_eq_iff)
  have "(of_char (upper_char c) :: nat) = (if 97 \<le> (of_char c :: nat) \<and> (of_char c :: nat) \<le> 122 then of_char c - 32 else of_char c)"
    by (auto simp: upper_char_def Let_def intro!: mod_less)
  then show ?thesis unfolding space by (auto split: if_splits)
qed

lemma cacheKey_inject:
  assumes "wellBehaved r" "wellBehaved q" "cacheKey r = cacheKey q"
  shows "to_upper (vrMethod r) = to_upper (vrMethod q) \<and> vrSafeUrl r = vrSafeUrl q
    \<and> sort (vrParameterNames r) = sort (vrParameterNames q) \<and> sort (vrOperationHints r) = sort (vrOperationHints q)"
proof -
  have key: "cacheKey x = to_upper (vrMethod x) @ CHR '' '' # (vrSafeUrl x @ CHR '' '' # ''n=['' @
      (join '','' (sort (vrParameterNames x)) @ CHR '']'' # '' h=['' @ (join '','' (sort (vrOperationHints x)) @ CHR '']'' # [])))" for x
    by (simp add: cacheKey_def)
  have m: "CHR '' '' \<notin> set (to_upper (vrMethod x))" if "wellBehaved x" for x
    using that by (auto simp: wellBehaved_def to_upper_def upper_space dest: sym)
  have plain: "list_all plain (sort (vrParameterNames x))" "list_all plain (sort (vrOperationHints x))" if "wellBehaved x" for x
    using that by (simp_all add: wellBehaved_def list_all_iff)
  from split_at [OF assms(3) [unfolded key] m [OF assms(1)] m [OF assms(2)]]
  have same_method: "to_upper (vrMethod r) = to_upper (vrMethod q)"
    and one: "vrSafeUrl r @ CHR '' '' # ''n=['' @ (join '','' (sort (vrParameterNames r)) @ CHR '']'' # '' h=['' @ (join '','' (sort (vrOperationHints r)) @ CHR '']'' # []))
      = vrSafeUrl q @ CHR '' '' # ''n=['' @ (join '','' (sort (vrParameterNames q)) @ CHR '']'' # '' h=['' @ (join '','' (sort (vrOperationHints q)) @ CHR '']'' # []))"
    by simp_all
  from split_at [OF one] assms(1,2) have same_url: "vrSafeUrl r = vrSafeUrl q"
    and two: "join '','' (sort (vrParameterNames r)) @ CHR '']'' # '' h=['' @ (join '','' (sort (vrOperationHints r)) @ CHR '']'' # [])
      = join '','' (sort (vrParameterNames q)) @ CHR '']'' # '' h=['' @ (join '','' (sort (vrOperationHints q)) @ CHR '']'' # [])"
    by (simp_all add: wellBehaved_def)
  from split_at [OF two join_plain [OF plain(1) [OF assms(1)]] join_plain [OF plain(1) [OF assms(2)]]]
  have names: "join '','' (sort (vrParameterNames r)) = join '','' (sort (vrParameterNames q))"
    and hints: "join '','' (sort (vrOperationHints r)) = join '','' (sort (vrOperationHints q))" by simp_all
  show ?thesis using same_method same_url join_inject [OF plain(1) [OF assms(1)] plain(1) [OF assms(2)] names]
      join_inject [OF plain(2) [OF assms(1)] plain(2) [OF assms(2)] hints] by simp
qed

section \<open>Properties\<close>

lemma route_continue:
  "snd (routeRequest getHostname lib suffixes vet q g) = Continue \<longleftrightarrow>
     isUrlAllowed getHostname (brUrl q) suffixes
     \<and> (isNonIdempotent (brMethod q) \<longrightarrow> gdAllowed (snd (evaluate vet (toVettable lib q) g)))"
  by (auto simp: routeRequest_def routeThroughWriteGate_def split: prod.splits if_splits)

definition demoRequestOf :: "string list \<Rightarrow> vettable_request" where
  "demoRequestOf names = \<lparr>vrMethod = ''POST'', vrSafeUrl = ''https://bank.example/do'', vrParameterNames = names, vrOperationHints = []\<rparr>"


definition demoLibrary :: url_library where
  "demoLibrary = \<lparr>ulParse = (\<lambda>u. Some \<lparr>puProtocol = ''https:'', puOrigin = u, puHost = u, puPathname = ''/''\<rparr>),
     ulQuery = (\<lambda>_. Some [(''do'', ''list'')]), ulSearchParams = (\<lambda>_. []), ulJsonParse = (\<lambda>_. None)\<rparr>"

definition demoBrowserRequest :: browser_request where
  "demoBrowserRequest = \<lparr>brUrl = ''https://bank.example'', brMethod = ''post'', brBody = None, brContentType = None\<rparr>"


text \<open>
  The browser is pinned. A request or WebSocket that is let through is inert or goes to a host
  that is an allowed suffix or ends in a dot followed by one, so a look-alike that merely ends in the
  same letters is refused; and every allowed suffix is the registrable domain of the login address or
  an allowed host that has a registrable domain, in lower case.
\<close>

theorem egress_pinned:
  fixes getDomain getHostname loginUrl allowedDomains
  defines "suffixes \<equiv> allowedSuffixes getDomain getHostname loginUrl allowedDomains"
  shows "(snd (routeRequest getHostname lib suffixes vet q g) = Continue \<longrightarrow>
      INERT_SCHEME (brUrl q) \<or> (\<exists>host s. getHostname (brUrl q) = Some host \<and> s \<in> set suffixes
        \<and> (to_lower host = s \<or> (\<exists>sub. to_lower host = sub @ ''.'' @ s))))
    \<and> (routeWebSocket getHostname suffixes url = Continue \<longleftrightarrow> isUrlAllowed getHostname url suffixes)
    \<and> (\<forall>s. s \<in> set suffixes \<longrightarrow> (\<exists>d. getDomain loginUrl = Some d \<and> s = to_lower d)
         \<or> (\<exists>u d host. u \<in> set allowedDomains \<union> (\<lambda>a. ''https://'' @ a) ` set allowedDomains
              \<and> getDomain u = Some d \<and> d \<noteq> [] \<and> getHostname u = Some host \<and> s = to_lower host))"
proof (intro conjI allI impI)
  assume "snd (routeRequest getHostname lib suffixes vet q g) = Continue"
  then have "isUrlAllowed getHostname (brUrl q) suffixes" by (simp add: route_continue)
  then show "INERT_SCHEME (brUrl q) \<or> (\<exists>host s. getHostname (brUrl q) = Some host \<and> s \<in> set suffixes
        \<and> (to_lower host = s \<or> (\<exists>sub. to_lower host = sub @ ''.'' @ s)))"
    by (cases "getHostname (brUrl q)") (auto simp: isUrlAllowed_def hostWithin_def ends_with_iff split: if_splits)
next
  show "routeWebSocket getHostname suffixes url = Continue \<longleftrightarrow> isUrlAllowed getHostname url suffixes"
    by (simp add: routeWebSocket_def)
next
  fix s assume "s \<in> set suffixes"
  then show "(\<exists>d. getDomain loginUrl = Some d \<and> s = to_lower d)
         \<or> (\<exists>u d host. u \<in> set allowedDomains \<union> (\<lambda>a. ''https://'' @ a) ` set allowedDomains
              \<and> getDomain u = Some d \<and> d \<noteq> [] \<and> getHostname u = Some host \<and> s = to_lower host)"
    unfolding suffixes_def allowedSuffixes_def by (auto simp: Let_def elim!: truthyE split: if_splits)
qed

theorem egress_pinned_witness:
  "snd (routeRequest (\<lambda>_. Some ''evilbank.example'') demoLibrary
     (allowedSuffixes (\<lambda>_. Some ''bank.example'') (\<lambda>_. Some ''evilbank.example'') ''https://bank.example'' []) None
     (demoBrowserRequest\<lparr>brUrl := ''https://evilbank.example''\<rparr>) newGate) \<noteq> Continue"
proof
  let ?s = "allowedSuffixes (\<lambda>_. Some ''bank.example'') (\<lambda>_. Some ''evilbank.example'') ''https://bank.example'' []"
  assume "snd (routeRequest (\<lambda>_. Some ''evilbank.example'') demoLibrary ?s None
      (demoBrowserRequest\<lparr>brUrl := ''https://evilbank.example''\<rparr>) newGate) = Continue"
  from egress_pinned [where getDomain = "\<lambda>_. Some ''bank.example''" and getHostname = "\<lambda>_. Some ''evilbank.example''"
      and loginUrl = "''https://bank.example''" and allowedDomains = "[]" and lib = demoLibrary and vet = None and g = newGate
      and q = "demoBrowserRequest\<lparr>brUrl := ''https://evilbank.example''\<rparr>", THEN conjunct1, THEN mp, OF this]
  have "INERT_SCHEME ''https://evilbank.example'' \<or> (\<exists>s. s \<in> set ?s
      \<and> (to_lower ''evilbank.example'' = s \<or> ends_with (to_lower ''evilbank.example'') (CHR ''.'' # s)))"
    by (simp add: ends_with_iff)
  moreover have "\<not> INERT_SCHEME ''https://evilbank.example''" by code_simp
  moreover have "set ?s = {''bank.example''}" by code_simp
  moreover have "to_lower ''evilbank.example'' \<noteq> ''bank.example''"
    "\<not> ends_with (to_lower ''evilbank.example'') (CHR ''.'' # ''bank.example'')" by code_simp+
  ultimately show False by auto
qed

text \<open>
  The verdict cache can answer a question that was never asked. Parameter names are free text
  and the cache key joins them with commas, so a request whose single parameter is named after two
  others shares their key: once it is vetted as a read, the other request passes although the vet
  calls it a write.
\<close>

theorem cache_key_ambiguous:
  "\<exists>vet r1 r2. vet r2 = Answered ''write'' \<and> set (vrParameterNames r1) \<noteq> set (vrParameterNames r2)
     \<and> gdAllowed (snd (evaluate (Some vet) r2 (fst (evaluate (Some vet) r1 (setPhase Extract newGate)))))"
proof -
  let ?r1 = "demoRequestOf [''amount,to'']" and ?r2 = "demoRequestOf [''amount'', ''to'']"
  let ?vet = "\<lambda>r. if length (vrParameterNames r) = 1 then Answered ''read'' else Answered ''write''"
  have order: "sort [''amount'', ''to''] = [''amount'', ''to'']" by code_simp
  have key: "cacheKey ?r1 = cacheKey ?r2" by (simp add: cacheKey_def demoRequestOf_def order)
  have post: "isNonIdempotent (vrMethod (demoRequestOf ns))" for ns
    unfolding demoRequestOf_def by simp code_simp
  have "fst (evaluate (Some ?vet) ?r1 (setPhase Extract newGate)) = \<lparr>wgPhase = Extract, wgVerdicts = [(cacheKey ?r1, ''read'')], wgBlocked = []\<rparr>"
    using post by (simp add: evaluate_def setPhase_def newGate_def allow_def withTimeout_def mget_def mput_def demoRequestOf_def)
  then have "gdAllowed (snd (evaluate (Some ?vet) ?r2 (fst (evaluate (Some ?vet) ?r1 (setPhase Extract newGate)))))"
    using post by (simp add: evaluate_def allow_def mget_def key)
  moreover have "?vet ?r2 = Answered ''write''" "set (vrParameterNames ?r1) \<noteq> set (vrParameterNames ?r2)"
    by (simp_all add: demoRequestOf_def)
  ultimately show ?thesis by (intro exI [of _ ?vet] exI [of _ ?r1] exI [of _ ?r2] conjI)
qed

end
