(* ===== verification/UrlSafety.thy ===== *)
theory UrlSafety
  imports TxIdentity
begin

text \<open>
  \<^verbatim>\<open>apps/engine/src/utils/url-safety.ts\<close>: refusing to navigate to internal addresses. The URL
  parser and the resolver are parameters; a refusal is the left side of a sum, with the message of
  the error. The reference for the IPv4 ranges is the table of address blocks on 32-bit words.
\<close>

section \<open>Addresses\<close>

definition BLOCKED_HOSTNAMES :: "string list" where
  "BLOCKED_HOSTNAMES = [''localhost'', ''metadata'', ''metadata.google.internal'']"

definition octetShape :: "string \<Rightarrow> bool" where
  "octetShape s = (1 \<le> length s \<and> length s \<le> 3 \<and> list_all is_digit s)"

definition parseIpv4 :: "string \<Rightarrow> nat list option" where
  "parseIpv4 host =
     (let parts = split_on CHR ''.'' host in
      if length parts \<noteq> 4 \<or> \<not> list_all octetShape parts then None
      else let octets = map read_dec parts in if \<exists>o' \<in> set octets. o' > 255 then None else Some octets)"

definition isPrivateIpv4 :: "nat list \<Rightarrow> bool" where
  "isPrivateIpv4 octets =
     (let a = octets ! 0; b = octets ! 1 in
      if a = 0 then True
      else if a = 10 then True
      else if a = 127 then True
      else if a = 169 \<and> b = 254 then True
      else if a = 172 \<and> b \<ge> 16 \<and> b \<le> 31 then True
      else if a = 192 \<and> b = 168 then True
      else if a = 100 \<and> b \<ge> 64 \<and> b \<le> 127 then True
      else False)"

definition isHexLower :: "char \<Rightarrow> bool" where
  "isHexLower c = (let n = of_char c :: nat in (48 \<le> n \<and> n \<le> 57) \<or> (97 \<le> n \<and> n \<le> 102))"

definition parseHex :: "string \<Rightarrow> nat" where
  "parseHex s = foldl (\<lambda>n c. 16 * n + hex_val c) 0 s"

text \<open>The tail after \<^verbatim>\<open>::\<close> and an optional \<^verbatim>\<open>ffff:\<close>; the pattern tries the longer prefix first.\<close>

definition embeddedTails :: "string \<Rightarrow> string list" where
  "embeddedTails h =
     (if starts_with h ''::ffff:'' then [drop 7 h] else []) @ (if starts_with h ''::'' then [drop 2 h] else [])"

definition dottedTail :: "string \<Rightarrow> bool" where
  "dottedTail t = (let parts = split_on CHR ''.'' t in length parts = 4 \<and> list_all octetShape parts)"

definition hexGroup :: "string \<Rightarrow> bool" where
  "hexGroup s = (1 \<le> length s \<and> length s \<le> 4 \<and> list_all isHexLower s)"

definition hexTail :: "string \<Rightarrow> bool" where
  "hexTail t = (let parts = split_on CHR '':'' t in length parts = 2 \<and> list_all hexGroup parts)"

definition isPrivateIpv6 :: "string \<Rightarrow> bool" where
  "isPrivateIpv6 host =
     (let h = to_lower host in
      if h = ''::1'' \<or> h = ''::'' then True
      else if starts_with h ''fc'' \<or> starts_with h ''fd'' then True
      else if starts_with h ''fe'' \<and> length h \<ge> 3 \<and> h ! 2 \<in> set ''89abcdef'' then True
      else if starts_with h ''ff'' then True
      else case List.find dottedTail (embeddedTails h) of
             Some t \<Rightarrow> (case parseIpv4 t of Some v4 \<Rightarrow> isPrivateIpv4 v4 | None \<Rightarrow> True)
           | None \<Rightarrow>
               (case List.find hexTail (embeddedTails h) of
                  Some t \<Rightarrow>
                    let g1 = parseHex (split_on CHR '':'' t ! 0); g2 = parseHex (split_on CHR '':'' t ! 1)
                    in isPrivateIpv4 [g1 div 256, g1 mod 256, g2 div 256, g2 mod 256]
                | None \<Rightarrow> False))"

definition PRIVATE :: string where
  "PRIVATE = ''navigate target resolves to a private/internal address''"

definition assertIpIsPublic :: "string \<Rightarrow> string \<Rightarrow> string + unit" where
  "assertIpIsPublic ip host =
     (let refuse = Inl (PRIVATE @ '' ('' @ host @ '' -> '' @ ip @ '')'') in
      case parseIpv4 ip of
        Some v4 \<Rightarrow> if isPrivateIpv4 v4 then refuse
                   else if CHR '':'' \<in> set ip \<and> isPrivateIpv6 ip then refuse else Inr ()
      | None \<Rightarrow> if CHR '':'' \<in> set ip \<and> isPrivateIpv6 ip then refuse else Inr ())"

definition declaredPrivateTargets :: "string option \<Rightarrow> string list" where
  "declaredPrivateTargets env =
     (let raw = trim (case env of Some v \<Rightarrow> v | None \<Rightarrow> []) in
      if raw = [] then []
      else filter (\<lambda>h. h \<noteq> []) (map (\<lambda>h. to_lower (trim h)) (split_on CHR '','' raw)))"

text \<open>\<^verbatim>\<open>/^\[|\]$/gu\<close>: an opening bracket at the start and a closing one at the end are removed.\<close>

definition stripBrackets :: "string \<Rightarrow> string" where
  "stripBrackets h =
     (let h = (if starts_with h ''['' then tl h else h) in if ends_with h '']'' then butlast h else h)"

text \<open>
  \<open>peer\<close> is what the transport says of the connection: nothing (no response, or it cannot say) or
  the address. \<open>hostname\<close> is that of the parsed URL, absent when it does not parse.
\<close>

definition assertConnectedAddressIsPublic ::
  "string option \<Rightarrow> string option \<Rightarrow> string option \<Rightarrow> string + unit" where
  "assertConnectedAddressIsPublic env hostname peer =
     (case hostname of
        None \<Rightarrow> Inr ()
      | Some hn \<Rightarrow>
          let host = stripBrackets (to_lower hn) in
          if host \<in> set (declaredPrivateTargets env) then Inr ()
          else if \<not> truthy peer then Inr ()
          else assertIpIsPublic (the peer) host)"

section \<open>Navigation\<close>

record nav_url =
  nvProtocol :: string
  nvHostname :: string

definition stripDots :: "string \<Rightarrow> string" where
  "stripDots h = rev (dropWhile (\<lambda>c. c = CHR ''.'') (rev h))"

definition navigationHost :: "nav_url \<Rightarrow> string" where
  "navigationHost u =
     (let host = to_lower (nvHostname u);
          host = (if starts_with host ''['' \<and> ends_with host '']'' then butlast (tl host) else host)
      in stripDots host)"

fun assertAll :: "string list \<Rightarrow> string \<Rightarrow> string + unit" where
  "assertAll [] host = Inr ()"
| "assertAll (ip # ips) host = (case assertIpIsPublic ip host of Inl e \<Rightarrow> Inl e | Inr _ \<Rightarrow> assertAll ips host)"

definition assertSafeNavigationUrl ::
  "(string \<Rightarrow> nav_url option) \<Rightarrow> (string \<Rightarrow> string list option) \<Rightarrow> string \<Rightarrow> string + unit" where
  "assertSafeNavigationUrl parseUrl resolve url =
     (case parseUrl url of
        None \<Rightarrow> Inl (''navigate target is not a valid URL: '' @ url)
      | Some parsed \<Rightarrow>
          if nvProtocol parsed \<noteq> ''http:'' \<and> nvProtocol parsed \<noteq> ''https:''
            then Inl (''navigate target must be http(s), got '' @ nvProtocol parsed)
          else let host = navigationHost parsed in
            if host \<in> set BLOCKED_HOSTNAMES \<or> ends_with host ''.localhost''
              then Inl (''navigate target host is not allowed: '' @ host)
            else let v4 = parseIpv4 host; isIpLiteral = (v4 \<noteq> None \<or> CHR '':'' \<in> set host) in
              if v4 \<noteq> None \<and> isPrivateIpv4 (the v4) then Inl (PRIVATE @ '': '' @ host)
              else if CHR '':'' \<in> set host \<and> isPrivateIpv6 host then Inl (PRIVATE @ '': '' @ host)
              else if isIpLiteral then Inr ()
              else (case resolve host of None \<Rightarrow> Inr () | Some ips \<Rightarrow> assertAll ips host))"

section \<open>The reference: blocks of 32-bit addresses\<close>

type_synonym ipv4 = "32 word"

text \<open>The address of four octets, most significant first.\<close>

definition ipv4Of :: "nat list \<Rightarrow> ipv4" where
  "ipv4Of os = of_nat (foldl (\<lambda>n o'. n * 256 + o') 0 os)"

definition inBlock :: "ipv4 \<Rightarrow> nat \<Rightarrow> ipv4 \<Rightarrow> bool" where
  "inBlock network prefix addr = (drop_bit (32 - prefix) addr = drop_bit (32 - prefix) network)"

text \<open>\<^verbatim>\<open>0/8, 10/8, 127/8, 169.254/16, 172.16/12, 192.168/16, 100.64/10\<close>\<close>

definition PRIVATE_BLOCKS :: "(ipv4 \<times> nat) list" where
  "PRIVATE_BLOCKS = [(0x00000000, 8), (0x0A000000, 8), (0x7F000000, 8), (0xA9FE0000, 16), (0xAC100000, 12),
     (0xC0A80000, 16), (0x64400000, 10)]"

definition internal :: "ipv4 \<Rightarrow> bool" where
  "internal addr = (\<exists>(network, prefix) \<in> set PRIVATE_BLOCKS. inBlock network prefix addr)"

definition showIpv4 :: "nat list \<Rightarrow> string" where
  "showIpv4 os = join ''.'' (map show_nat os)"

section \<open>The octet tests are the blocks\<close>

definition octets :: "nat list \<Rightarrow> bool" where
  "octets os = (length os = 4 \<and> (\<forall>o' \<in> set os. o' < 256))"

lemma octetsE: "octets os \<Longrightarrow> (\<And>a b c d. os = [a, b, c, d] \<Longrightarrow> a < 256 \<Longrightarrow> b < 256 \<Longrightarrow> c < 256 \<Longrightarrow> d < 256 \<Longrightarrow> P) \<Longrightarrow> P"
  by (auto simp: octets_def numeral_eq_Suc length_Suc_conv)

lemma unat_ipv4Of:
  assumes "a < 256" "b < 256" "c < 256" "d < 256"
  shows "unat (ipv4Of [a, b, c, d]) = a * 2 ^ 24 + b * 2 ^ 16 + c * 2 ^ 8 + d"
proof -
  have "((a * 256 + b) * 256 + c) * 256 + d < 2 ^ 32" using assms by simp
  then have "unat (of_nat (((a * 256 + b) * 256 + c) * 256 + d) :: ipv4) = ((a * 256 + b) * 256 + c) * 256 + d"
    by (simp only: unat_of_nat) simp
  then show ?thesis by (simp add: ipv4Of_def)
qed

lemma inBlock_div: "inBlock n p w \<longleftrightarrow> unat w div 2 ^ (32 - p) = unat n div 2 ^ (32 - p)"
proof -
  have "unat (drop_bit k v) = unat v div 2 ^ k" for k and v :: ipv4 by (simp add: unat_drop_bit_eq flip: drop_bit_eq_div)
  then show ?thesis unfolding inBlock_def word_unat_eq_iff by metis
qed

lemma octet_divs:
  assumes "b < 256" "c < 256" "d < (256 :: nat)"
  shows "(a * 2 ^ 24 + b * 2 ^ 16 + c * 2 ^ 8 + d) div 2 ^ 24 = a"
    and "(a * 2 ^ 24 + b * 2 ^ 16 + c * 2 ^ 8 + d) div 2 ^ 16 = a * 256 + b"
    and "(a * 2 ^ 24 + b * 2 ^ 16 + c * 2 ^ 8 + d) div 2 ^ 20 = a * 16 + b div 16"
    and "(a * 2 ^ 24 + b * 2 ^ 16 + c * 2 ^ 8 + d) div 2 ^ 22 = a * 4 + b div 64"
proof -
  have low: "c * 2 ^ 8 + d < 2 ^ 16" using assms by simp
  have eq: "a * 2 ^ 24 + b * 2 ^ 16 + c * 2 ^ 8 + d = (a * 256 + b) * 2 ^ 16 + (c * 2 ^ 8 + d)" by simp
  show h16: "(a * 2 ^ 24 + b * 2 ^ 16 + c * 2 ^ 8 + d) div 2 ^ 16 = a * 256 + b" unfolding eq using low by simp
  have split: "x div 2 ^ 24 = x div 2 ^ 16 div 256" "x div 2 ^ 20 = x div 2 ^ 16 div 16" "x div 2 ^ 22 = x div 2 ^ 16 div 64" for x :: nat
    by (simp_all add: div_mult2_eq [symmetric])
  have "(a * 256 + b) div 256 = a" "(a * 256 + b) div 16 = a * 16 + b div 16" "(a * 256 + b) div 64 = a * 4 + b div 64"
    using assms(1) by simp_all
  then show "(a * 2 ^ 24 + b * 2 ^ 16 + c * 2 ^ 8 + d) div 2 ^ 24 = a"
    "(a * 2 ^ 24 + b * 2 ^ 16 + c * 2 ^ 8 + d) div 2 ^ 20 = a * 16 + b div 16"
    "(a * 2 ^ 24 + b * 2 ^ 16 + c * 2 ^ 8 + d) div 2 ^ 22 = a * 4 + b div 64"
    unfolding split h16 by blast+
qed

lemma block_values:
  "unat (0x00000000 :: ipv4) = 0" "unat (0x0A000000 :: ipv4) div 2 ^ 24 = 10" "unat (0x7F000000 :: ipv4) div 2 ^ 24 = 127"
  "unat (0xA9FE0000 :: ipv4) div 2 ^ 16 = 169 * 256 + 254" "unat (0xAC100000 :: ipv4) div 2 ^ 20 = 172 * 16 + 1"
  "unat (0xC0A80000 :: ipv4) div 2 ^ 16 = 192 * 256 + 168" "unat (0x64400000 :: ipv4) div 2 ^ 22 = 100 * 4 + 1"
  by simp_all

lemma digit_pair: "b < k \<Longrightarrow> y < k \<Longrightarrow> a * k + b = x * k + y \<longleftrightarrow> a = x \<and> b = (y :: nat)"
proof
  assume lt: "b < k" "y < k" and eq: "a * k + b = x * k + y"
  have "(a * k + b) mod k = b" "(x * k + y) mod k = y" "(a * k + b) div k = a" "(x * k + y) div k = x" using lt by simp_all
  then show "a = x \<and> b = y" unfolding eq by metis
qed simp

lemma isPrivateIpv4_internal:
  assumes "octets os" shows "isPrivateIpv4 os \<longleftrightarrow> internal (ipv4Of os)"
proof -
  from assms obtain a b c d where os: "os = [a, b, c, d]" and lt: "a < 256" "b < 256" "c < 256" "d < 256"
    by (rule octetsE)
  have b16: "b div 16 < 16" "b div 64 < 4" using lt(2) by (simp_all add: div_less_iff_less_mult)
  have b1: "b div 16 = Suc 0 \<longleftrightarrow> 16 \<le> b \<and> b \<le> 31" "b div 64 = Suc 0 \<longleftrightarrow> 64 \<le> b \<and> b \<le> 127" by auto
  have "internal (ipv4Of os) \<longleftrightarrow> a = 0 \<or> a = 10 \<or> a = 127 \<or> a * 256 + b = 43518
      \<or> a * 16 + b div 16 = 2753 \<or> a * 256 + b = 49320 \<or> a * 4 + b div 64 = 401"
    unfolding internal_def PRIVATE_BLOCKS_def os
    by (simp add: inBlock_div unat_ipv4Of [OF lt] octet_divs [OF lt(2-4), simplified] block_values [simplified])
  also have "\<dots> \<longleftrightarrow> isPrivateIpv4 os"
    unfolding os isPrivateIpv4_def
      digit_pair [OF lt(2), of 254 a 169, simplified] digit_pair [OF lt(2), of 168 a 192, simplified]
      digit_pair [OF b16(1), of 1 a 172, simplified] digit_pair [OF b16(2), of 1 a 100, simplified] b1
    by (simp add: Let_def)
  finally show ?thesis by simp
qed

section \<open>Printing and reading a dotted quad\<close>

lemma show_nat_octet: "n < 256 \<Longrightarrow> octetShape (show_nat n)"
proof -
  assume n: "n < 256"
  have len: "length (show_nat n) = (if n < 10 then 1 else 1 + length (show_nat (n div 10)))" for n
    by (simp add: show_nat.simps [of n])
  have "length (show_nat n) \<le> 3"
    using n by (subst len, subst len, subst len) (auto simp: div_mult2_eq [symmetric] div_less_iff_less_mult)
  moreover have "0 < length (show_nat n)" by simp
  ultimately show ?thesis using digits_show_nat [of _ n] by (auto simp: octetShape_def list_all_iff Suc_le_eq)
qed

lemma octet_no_dot: "octetShape s \<Longrightarrow> CHR ''.'' \<notin> set s"
  by (auto simp: octetShape_def list_all_iff is_digit_def)

lemma showIpv4_parts:
  assumes "octets os"
  shows "split_on CHR ''.'' (showIpv4 os) = map show_nat os"
proof -
  have "map show_nat os \<noteq> []" using assms by (auto simp: octets_def)
  then show ?thesis unfolding showIpv4_def
    by (rule split_on_join) (use assms octet_no_dot show_nat_octet in \<open>auto simp: octets_def\<close>)
qed

lemma dottedTail_show: "octets os \<Longrightarrow> dottedTail (showIpv4 os)"
  using show_nat_octet by (auto simp: dottedTail_def showIpv4_parts octets_def list_all_iff)

lemma parseIpv4_show: "octets os \<Longrightarrow> parseIpv4 (showIpv4 os) = Some os"
  using dottedTail_show [of os]
  by (auto simp: parseIpv4_def dottedTail_def showIpv4_parts octets_def comp_def Let_def not_less)

lemma parseIpv4_octets: "parseIpv4 s = Some os \<Longrightarrow> octets os"
  by (fastforce simp: parseIpv4_def octets_def Let_def not_less split: if_splits)

lemma showIpv4_chars: "octets os \<Longrightarrow> c \<in> set (showIpv4 os) \<Longrightarrow> is_digit c \<or> c = CHR ''.''"
proof -
  assume c: "c \<in> set (showIpv4 os)"
  have "c \<in> set (join ''.'' ps) \<Longrightarrow> c = CHR ''.'' \<or> (\<exists>p \<in> set ps. c \<in> set p)" for ps
    by (induction "''.''" ps rule: join.induct) auto
  from this [of "map show_nat os"] c show ?thesis using digits_show_nat by (auto simp: showIpv4_def)
qed

lemma to_lower_show: "octets os \<Longrightarrow> to_lower (showIpv4 os) = showIpv4 os"
proof -
  assume o: "octets os"
  have "lower_char c = c" if "is_digit c \<or> c = CHR ''.''" for c
    using that by (auto simp: is_digit_def lower_char_def Let_def)
  then show ?thesis using showIpv4_chars [OF o] by (simp add: to_lower_def map_idI)
qed

lemma showIpv4_shape:
  assumes "octets os" obtains x xs where "showIpv4 os = x # xs" "is_digit x" "CHR ''.'' \<in> set xs"
proof -
  from assms obtain a b c d where os: "os = [a, b, c, d]" by (rule octetsE)
  obtain x xs where a: "show_nat a = x # xs" by (cases "show_nat a") auto
  then have "is_digit x" using digits_show_nat [of x a] by simp
  moreover have "showIpv4 os = x # (xs @ ''.'' @ join ''.'' (map show_nat [b, c, d]))" by (simp add: os showIpv4_def a)
  ultimately show ?thesis using that by auto
qed

lemma mapped_private:
  assumes "octets os"
  shows "isPrivateIpv6 (''::ffff:'' @ showIpv4 os) \<longleftrightarrow> isPrivateIpv4 os"
    and "isPrivateIpv6 (''::'' @ showIpv4 os) \<longleftrightarrow> isPrivateIpv4 os"
proof -
  obtain x xs where sh: "showIpv4 os = x # xs" "is_digit x" "CHR ''.'' \<in> set xs" using assms by (rule showIpv4_shape)
  have ne: "showIpv4 os \<noteq> []" by (simp add: sh(1))
  have x: "x \<noteq> CHR ''f''" using sh(2) by (auto simp: is_digit_def)
  have low: "to_lower (p @ showIpv4 os) = to_lower p @ showIpv4 os" for p
    using to_lower_show [OF assms] by (simp add: to_lower_def)
  have pre: "to_lower ''::ffff:'' = ''::ffff:''" "to_lower ''::'' = ''::''" by code_simp+
  have tails: "embeddedTails (''::ffff:'' @ showIpv4 os) = [showIpv4 os, ''ffff:'' @ showIpv4 os]"
    "embeddedTails (''::'' @ showIpv4 os) = [showIpv4 os]"
    using x by (simp_all add: embeddedTails_def starts_with_def sh(1))
  have not: "''::ffff:'' @ showIpv4 os \<noteq> ''::1''" "''::'' @ showIpv4 os \<noteq> ''::1''" using sh by (auto simp: sh(1))
  show "isPrivateIpv6 (''::ffff:'' @ showIpv4 os) \<longleftrightarrow> isPrivateIpv4 os"
    unfolding isPrivateIpv6_def low pre tails Let_def
    using not by (simp add: starts_with_def dottedTail_show [OF assms] parseIpv4_show [OF assms])
  show "isPrivateIpv6 (''::'' @ showIpv4 os) \<longleftrightarrow> isPrivateIpv4 os"
    unfolding isPrivateIpv6_def low pre tails Let_def
    using not ne by (simp add: starts_with_def dottedTail_show [OF assms] parseIpv4_show [OF assms])
qed

lemma assertIpIsPublic_ok: "assertIpIsPublic ip host = Inr () \<Longrightarrow> parseIpv4 ip = Some os \<Longrightarrow> \<not> isPrivateIpv4 os"
  by (auto simp: assertIpIsPublic_def Let_def split: if_splits)

lemma assertIpIsPublic_v6: "assertIpIsPublic ip host = Inr () \<Longrightarrow> CHR '':'' \<in> set ip \<Longrightarrow> \<not> isPrivateIpv6 ip"
  by (auto simp: assertIpIsPublic_def Let_def split: if_splits option.splits)

lemma assertAll_ok: "assertAll ips host = Inr () \<Longrightarrow> ip \<in> set ips \<Longrightarrow> assertIpIsPublic ip host = Inr ()"
  by (induction ips) (auto split: sum.splits)

section \<open>Properties\<close>

text \<open>
  The octet tests are exactly the private address blocks. For every IPv4 address: printing and
  parsing it gives it back, the tests on its first two octets hold exactly when the 32-bit address
  lies in one of the seven internal blocks, and so do the tests on its two IPv6-embedded spellings.
\<close>

theorem private_blocks_exact:
  assumes "length os = 4" "\<And>o'. o' \<in> set os \<Longrightarrow> o' < 256"
  shows "parseIpv4 (showIpv4 os) = Some os
    \<and> (isPrivateIpv4 os \<longleftrightarrow> internal (ipv4Of os))
    \<and> (isPrivateIpv6 (''::ffff:'' @ showIpv4 os) \<longleftrightarrow> internal (ipv4Of os))
    \<and> (isPrivateIpv6 (''::'' @ showIpv4 os) \<longleftrightarrow> internal (ipv4Of os))"
proof -
  have "octets os" using assms by (simp add: octets_def)
  then show ?thesis unfolding mapped_private [OF \<open>octets os\<close>] by (simp add: parseIpv4_show isPrivateIpv4_internal)
qed

theorem private_blocks_exact_witness:
  "isPrivateIpv6 (''::ffff:'' @ showIpv4 [169, 254, 169, 254]) \<longleftrightarrow> internal (ipv4Of [169, 254, 169, 254])"
proof -
  have "length [169, 254, 169, 254 :: nat] = 4" "\<And>o'. o' \<in> set [169, 254, 169, 254] \<Longrightarrow> o' < (256 :: nat)" by auto
  from private_blocks_exact [OF this] show ?thesis by blast
qed



end
