(* ===== verification/OtpExtract.thy ===== *)
theory OtpExtract
  imports JsJson
begin

text \<open>
  \<^verbatim>\<open>apps/control-plane/src/data/otp-extract.ts\<close> and \<^verbatim>\<open>otp-readiness.ts\<close>: which text may become a
  one-time code. The language model is a parameter that sees the body and the institution's name
  and throws (\<open>None\<close>) or answers with whatever its \<^verbatim>\<open>otp\<close> field holds (\<open>Some None\<close> when it is
  absent); nothing is assumed of it. The prompt and the provider's client are not modelled. The
  pattern \<^verbatim>\<open>\d+(?:[ \-]\d+)*\<close> is matched the way the regular expression engine does, greedily from
  left to right, and shown to find exactly the maximal grouped runs of a text.
\<close>

section \<open>Grouped runs of digits\<close>

definition is_sep :: "char \<Rightarrow> bool" where
  "is_sep c = (c = CHR '' '' \<or> c = CHR ''-'')"

function groupedRun :: "string \<Rightarrow> string \<times> string" where
  "groupedRun s =
     (let ds = takeWhile is_digit s; r = dropWhile is_digit s in
      case r of
        sep # c # rest \<Rightarrow>
          if is_sep sep \<and> is_digit c
          then (let (m, t) = groupedRun (c # rest) in (ds @ sep # m, t))
          else (ds, r)
      | _ \<Rightarrow> (ds, r))"
  by pat_completeness auto
termination
proof (relation "measure length", goal_cases)
  case (2 s ds r sep x c rest)
  then have "length (sep # c # rest) \<le> length s"
    using length_dropWhile_le [of is_digit s] by (simp only:)
  then show ?case by simp
qed simp

declare groupedRun.simps [simp del]

lemma groupedRun_length: "length (snd (groupedRun s)) \<le> length (dropWhile is_digit s)"
proof (induction s rule: groupedRun.induct)
  case (1 s)
  show ?case
  proof (cases "\<exists>sep c rest. dropWhile is_digit s = sep # c # rest \<and> is_sep sep \<and> is_digit c")
    case True
    then obtain sep c rest where r: "dropWhile is_digit s = sep # c # rest" "is_sep sep" "is_digit c" by blast
    have "length (snd (groupedRun (c # rest))) \<le> length (dropWhile is_digit (c # rest))"
      using "1" [OF refl refl r(1)] r(2,3) by simp
    also have "\<dots> \<le> length (c # rest)" by (rule length_dropWhile_le)
    finally show ?thesis using r by (subst groupedRun.simps) (simp add: case_prod_beta Let_def)
  next
    case False
    then show ?thesis by (subst groupedRun.simps) (auto simp: Let_def split: list.splits)
  qed
qed

text \<open>\<^verbatim>\<open>smsBody.match(pattern)\<close> with the global flag: all matches, none overlapping.\<close>

function otpMatches :: "string \<Rightarrow> string list" where
  "otpMatches s =
     (case dropWhile (\<lambda>c. \<not> is_digit c) s of
        [] \<Rightarrow> []
      | c # cs \<Rightarrow> fst (groupedRun (c # cs)) # otpMatches (snd (groupedRun (c # cs))))"
  by pat_completeness auto
termination
proof (relation "measure length")
  fix s c cs assume d: "dropWhile (\<lambda>c. \<not> is_digit c) s = c # cs"
  then have "is_digit c" by (metis hd_dropWhile list.distinct(1) list.sel(1))
  then have "length (snd (groupedRun (c # cs))) \<le> length cs"
    using groupedRun_length [of "c # cs"] length_dropWhile_le [of is_digit cs] by simp
  also have "\<dots> < length s" using length_dropWhile_le [of "\<lambda>c. \<not> is_digit c" s] d by simp
  finally show "(snd (groupedRun (c # cs)), s) \<in> measure length" by simp
qed auto

declare otpMatches.simps [simp del]

definition stripSeps :: "string \<Rightarrow> string" where
  "stripSeps m = filter (\<lambda>c. \<not> is_sep c) m"

definition otpCandidateCodes :: "string \<Rightarrow> string list" where
  "otpCandidateCodes smsBody = fold (\<lambda>m candidates. sadd (stripSeps m) candidates) (otpMatches smsBody) []"

definition otpAppearsInBody :: "string \<Rightarrow> string \<Rightarrow> bool" where
  "otpAppearsInBody otp smsBody = (otp \<in> set (otpCandidateCodes smsBody))"

section \<open>Accepting a code\<close>

text \<open>\<^verbatim>\<open>^[0-9]{4,10}$\<close>\<close>

definition OTP_DIGITS_RE :: "string \<Rightarrow> bool" where
  "OTP_DIGITS_RE s = (4 \<le> length s \<and> length s \<le> 10 \<and> list_all is_digit s)"

definition coerceOtp :: "json option \<Rightarrow> string option" where
  "coerceOtp raw =
     (case raw of
        Some (JStr s) \<Rightarrow> let trimmed = trim s in if OTP_DIGITS_RE trimmed then Some trimmed else None
      | _ \<Rightarrow> None)"

type_synonym otp_model = "string \<Rightarrow> string option \<Rightarrow> json option option"

definition extractOtpFromSms :: "otp_model \<Rightarrow> string \<Rightarrow> string option \<Rightarrow> string option" where
  "extractOtpFromSms modelCall smsBody institutionName =
     (let body = trim smsBody in
      if body = [] then None
      else case modelCall body institutionName of
             None \<Rightarrow> None
           | Some raw \<Rightarrow>
               (case coerceOtp raw of
                  None \<Rightarrow> None
                | Some code \<Rightarrow> if otpAppearsInBody code body then Some code else None))"

section \<open>Who supplies the code\<close>

datatype otp_relay_mode = Companion | Manual

definition otpRelayModeFor :: "nat \<Rightarrow> otp_relay_mode" where
  "otpRelayModeFor authorizedDeviceCount = (if authorizedDeviceCount > 0 then Companion else Manual)"

definition otpRelaySatisfied :: "bool \<Rightarrow> otp_relay_mode option \<Rightarrow> bool" where
  "otpRelaySatisfied relayReady relayMode = (relayReady \<or> relayMode = Some Manual)"

section \<open>The matcher finds the maximal grouped runs\<close>

text \<open>
  The reference: a run is digits, or digits, one space or hyphen, and a run. It is maximal in a
  text when it could not be continued on either side.
\<close>

inductive grouped :: "string \<Rightarrow> bool" where
  digits: "ds \<noteq> [] \<Longrightarrow> list_all is_digit ds \<Longrightarrow> grouped ds"
| continued: "ds \<noteq> [] \<Longrightarrow> list_all is_digit ds \<Longrightarrow> is_sep c \<Longrightarrow> grouped r \<Longrightarrow> grouped (ds @ c # r)"

fun rightFree :: "string \<Rightarrow> bool" where
  "rightFree [] = True"
| "rightFree [c] = (\<not> is_digit c)"
| "rightFree (c # d # r) = (\<not> is_digit c \<and> \<not> (is_sep c \<and> is_digit d))"

definition leftFree :: "string \<Rightarrow> bool" where
  "leftFree pre = rightFree (rev pre)"

definition maximalRun :: "string \<Rightarrow> string \<Rightarrow> bool" where
  "maximalRun s run = (\<exists>pre post. s = pre @ run @ post \<and> grouped run \<and> leftFree pre \<and> rightFree post)"

lemma sep_not_digit: "is_sep c \<Longrightarrow> \<not> is_digit c"
  by (auto simp: is_sep_def is_digit_def)

lemma grouped_hd: "grouped r \<Longrightarrow> \<exists>d r'. r = d # r' \<and> is_digit d"
  by (induction rule: grouped.induct) (auto simp: neq_Nil_conv)

lemma dropWhile_digits:
  "list_all is_digit ds \<Longrightarrow> dropWhile is_digit (ds @ r) = dropWhile is_digit r"
  "list_all is_digit ds \<Longrightarrow> takeWhile is_digit (ds @ r) = ds @ takeWhile is_digit r"
  by (induction ds) auto

lemma rightFree_dropWhile:
  "rightFree r \<Longrightarrow> dropWhile is_digit r = r \<and> takeWhile is_digit r = []"
  by (cases r rule: rightFree.cases) auto

lemma groupedRun_grouped: "grouped run \<Longrightarrow> rightFree post \<Longrightarrow> groupedRun (run @ post) = (run, post)"
proof (induction run rule: grouped.induct)
  case (digits ds)
  then show ?case
    by (subst groupedRun.simps)
      (auto simp: Let_def dropWhile_digits rightFree_dropWhile split: list.splits)
next
  case (continued ds c r)
  obtain d r' where r: "r = d # r'" "is_digit d" using grouped_hd continued.hyps by blast
  have dw: "dropWhile is_digit (ds @ c # d # r' @ post) = c # d # r' @ post"
    "takeWhile is_digit (ds @ c # d # r' @ post) = ds"
    using continued.hyps sep_not_digit by (simp_all add: dropWhile_digits)
  have "groupedRun (d # r' @ post) = (d # r', post)" using continued r by simp
  with dw r continued.hyps show ?case by (subst groupedRun.simps) simp
qed

lemma groupedRun_sound:
  "s = d # s' \<Longrightarrow> is_digit d \<Longrightarrow> groupedRun s = (m, t) \<Longrightarrow> s = m @ t \<and> grouped m \<and> rightFree t"
proof (induction s arbitrary: d s' m t rule: groupedRun.induct)
  case (1 s)
  have tw: "takeWhile is_digit s \<noteq> []" "list_all is_digit (takeWhile is_digit s)"
    using "1.prems" by (auto simp: list_all_iff dest: set_takeWhileD)
  show ?case
  proof (cases "\<exists>sep c rest. dropWhile is_digit s = sep # c # rest \<and> is_sep sep \<and> is_digit c")
    case True
    then obtain sep c rest where r: "dropWhile is_digit s = sep # c # rest" "is_sep sep" "is_digit c" by blast
    obtain m' t' where mt: "groupedRun (c # rest) = (m', t')" by fastforce
    with "1.prems" r have e: "m = takeWhile is_digit s @ sep # m'" "t = t'"
      by (subst (asm) groupedRun.simps, simp)+
    have ih: "c # rest = m' @ t' \<and> grouped m' \<and> rightFree t'"
      using "1.IH" [OF refl refl r(1) refl] r(2,3) mt by blast
    have "s = takeWhile is_digit s @ sep # c # rest" using r(1) by (metis takeWhile_dropWhile_id)
    with ih e show ?thesis using grouped.continued [OF tw r(2)] by simp
  next
    case False
    then have e: "m = takeWhile is_digit s" "t = dropWhile is_digit s"
      using "1.prems" by (subst (asm) groupedRun.simps, auto simp: Let_def split: list.splits if_splits)+
    have "rightFree t"
    proof (cases t rule: rightFree.cases)
      case (2 c)
      then show ?thesis using e hd_dropWhile [of is_digit s] by auto
    next
      case (3 c d r)
      then show ?thesis using e False hd_dropWhile [of is_digit s] by auto
    qed simp
    with e tw show ?thesis using grouped.digits by simp
  qed
qed

lemma rightFree_append_left: "rightFree (x @ y) \<Longrightarrow> rightFree x"
  by (cases x rule: rightFree.cases; cases y) auto

lemma leftFree_suffix: "leftFree (x @ y) \<Longrightarrow> leftFree y"
  using rightFree_append_left by (simp add: leftFree_def)

lemma leftFree_nondigits: "list_all (\<lambda>c. \<not> is_digit c) g \<Longrightarrow> leftFree g"
proof -
  have "list_all (\<lambda>c. \<not> is_digit c) h \<Longrightarrow> rightFree h" for h
    by (cases h rule: rightFree.cases) auto
  moreover assume "list_all (\<lambda>c. \<not> is_digit c) g"
  ultimately show ?thesis by (simp add: leftFree_def list_all_iff)
qed

lemma leftFree_gap:
  assumes "list_all (\<lambda>c. \<not> is_digit c) g" and "rightFree (g @ d # r)" and "is_digit d"
  shows "leftFree (q @ g)"
proof (cases g rule: rev_cases)
  case Nil
  with assms show ?thesis by (cases r) auto
next
  case (snoc h c)
  show ?thesis
  proof (cases h rule: rev_cases)
    case Nil
    with snoc assms have "\<not> is_digit c" "\<not> is_sep c" by auto
    with snoc Nil show ?thesis by (cases "rev q") (auto simp: leftFree_def)
  next
    case (snoc h' c')
    with \<open>g = h @ [c]\<close> assms(1) show ?thesis by (simp add: leftFree_def)
  qed
qed

lemma grouped_inside:
  "grouped m \<Longrightarrow> m = m1 @ d # m2 \<Longrightarrow> m1 \<noteq> [] \<Longrightarrow> is_digit d \<Longrightarrow> \<not> leftFree m1"
proof (induction m arbitrary: m1 rule: grouped.induct)
  case (digits ds)
  then have "is_digit (last m1)" by (simp add: list_all_iff)
  with digits.prems(2) show ?case
    by (cases m1 rule: rev_cases; cases "rev (butlast m1)") (auto simp: leftFree_def)
next
  case (continued ds c r)
  have "is_digit (last ds)" using continued.hyps by (simp add: list_all_iff)
  then obtain e es where ds: "ds = es @ [e]" "is_digit e"
    using continued.hyps(1) by (cases ds rule: rev_cases) auto
  consider u where "ds = m1 @ u" "u \<noteq> []" | "m1 = ds" | u where "m1 = ds @ u" "u \<noteq> []"
    using continued.prems(1) by (auto simp: append_eq_append_conv2)
  then show ?case
  proof cases
    case (1 u)
    with continued.hyps(2) have "\<forall>x \<in> set m1. is_digit x" by (simp add: list_all_iff)
    then have "is_digit (last m1)" using continued.prems(2) by simp
    with continued.prems(2) show ?thesis
      by (cases m1 rule: rev_cases; cases "rev (butlast m1)") (auto simp: leftFree_def)
  next
    case 2
    with continued sep_not_digit show ?thesis by auto
  next
    case (3 u)
    with continued.prems have u: "c # r = u @ d # m2" by simp
    show ?thesis
    proof (cases "tl u")
      case Nil
      with 3 u have "u = [c]" by (cases u) auto
      with 3 ds continued.hyps show ?thesis by (simp add: leftFree_def)
    next
      case (Cons x xs)
      with 3 u have "u = c # tl u" "r = tl u @ d # m2" by (cases u; auto)+
      with continued.IH continued.prems Cons have "\<not> leftFree (tl u)" by simp
      moreover have "m1 = (ds @ [c]) @ tl u" using 3 \<open>u = c # tl u\<close> by simp
      ultimately show ?thesis using leftFree_suffix by blast
    qed
  qed
qed

lemma otpMatches_sound:
  "run \<in> set (otpMatches s) \<Longrightarrow> rightFree s \<or> q = [] \<Longrightarrow>
     \<exists>pre post. s = pre @ run @ post \<and> grouped run \<and> leftFree (q @ pre) \<and> rightFree post"
proof (induction s arbitrary: q rule: otpMatches.induct)
  case (1 s)
  define g where "g = takeWhile (\<lambda>c. \<not> is_digit c) s"
  obtain c cs where d: "dropWhile (\<lambda>c. \<not> is_digit c) s = c # cs"
    using "1.prems"(1) by (cases "dropWhile (\<lambda>c. \<not> is_digit c) s") (auto simp: otpMatches.simps [of s])
  then have "is_digit c" by (metis hd_dropWhile list.distinct(1) list.sel(1))
  obtain m t where mt: "groupedRun (c # cs) = (m, t)" by fastforce
  note sound = groupedRun_sound [OF refl \<open>is_digit c\<close> mt]
  have s: "s = g @ c # cs" using d g_def by (metis takeWhile_dropWhile_id)
  have g: "list_all (\<lambda>c. \<not> is_digit c) g" by (auto simp: g_def list_all_iff dest: set_takeWhileD)
  consider "run = m" | "run \<in> set (otpMatches t)"
    using "1.prems"(1) d mt by (subst (asm) otpMatches.simps) auto
  then show ?case
  proof cases
    case 1
    have "leftFree (q @ g)"
      using "1.prems"(2) leftFree_gap [OF g _ \<open>is_digit c\<close>] leftFree_nondigits [OF g] s by auto
    with 1 s sound show ?thesis by (intro exI [of _ g] exI [of _ t]) simp
  next
    case 2
    then obtain pre post where p: "t = pre @ run @ post" "grouped run" "leftFree ((q @ g @ m) @ pre)" "rightFree post"
      using "1.IH" [OF d, of "q @ g @ m"] sound mt by auto
    then show ?thesis using s sound by (intro exI [of _ "g @ m @ pre"] exI [of _ post]) simp
  qed
qed

lemma otpMatches_complete:
  "s = pre @ run @ post \<Longrightarrow> grouped run \<Longrightarrow> leftFree pre \<Longrightarrow> rightFree post \<Longrightarrow> run \<in> set (otpMatches s)"
proof (induction s arbitrary: pre rule: otpMatches.induct)
  case (1 s)
  define g where "g = takeWhile (\<lambda>c. \<not> is_digit c) s"
  obtain e es where run: "run = e # es" "is_digit e" using grouped_hd "1.prems"(2) by blast
  then obtain c cs where d: "dropWhile (\<lambda>c. \<not> is_digit c) s = c # cs"
    using "1.prems"(1) by (cases "dropWhile (\<lambda>c. \<not> is_digit c) s") (auto simp: dropWhile_eq_Nil_conv)
  then have "is_digit c" by (metis hd_dropWhile list.distinct(1) list.sel(1))
  obtain m t where mt: "groupedRun (c # cs) = (m, t)" by fastforce
  note sound = groupedRun_sound [OF refl \<open>is_digit c\<close> mt]
  have s: "s = g @ m @ t" using d g_def sound by (metis takeWhile_dropWhile_id)
  have g: "\<forall>x \<in> set g. \<not> is_digit x" by (auto simp: g_def dest: set_takeWhileD)
  have eq: "pre @ run @ post = g @ m @ t" using s "1.prems"(1) by simp
  have ms: "otpMatches s = m # otpMatches t" using d mt by (subst otpMatches.simps) simp
  have split1: "(\<exists>u. g = pre @ u \<and> u \<noteq> []) \<or> pre = g \<or> (\<exists>u. pre = g @ u \<and> u \<noteq> [] \<and> u @ run @ post = m @ t)"
    using eq by (auto simp: append_eq_append_conv2 [of pre])
  have split2: "u @ run @ post = m @ t \<Longrightarrow> (\<exists>v. m = u @ v \<and> v \<noteq> []) \<or> (\<exists>v. u = m @ v)" for u
    using append_eq_append_conv2 [of u "run @ post" m t] by (metis append_Nil2)
  consider u where "g = pre @ u" "u \<noteq> []" | "pre = g" | u v where "pre = g @ u" "m = u @ v" "u \<noteq> []" "v \<noteq> []"
    | u where "pre = g @ m @ u"
    using split1 split2 by metis
  then show ?case
  proof cases
    case (1 u)
    with eq run have "hd u = e" by (cases u) auto
    with 1 g run show ?thesis by (cases u) auto
  next
    case 2
    with eq have "groupedRun (run @ post) = (m, t)" using mt sound by simp
    then show ?thesis using groupedRun_grouped "1.prems" ms by simp
  next
    case (3 u v)
    with eq run have "m = u @ e # tl v" by (cases v) auto
    then have "\<not> leftFree u" using grouped_inside 3 sound run by blast
    then show ?thesis using 3 "1.prems"(3) leftFree_suffix by blast
  next
    case (4 u)
    then have "t = u @ run @ post" "leftFree u" using eq "1.prems"(3) leftFree_suffix [of "g @ m" u] by auto
    then show ?thesis using "1.IH" [OF d] mt "1.prems" ms by simp
  qed
qed

lemma otpMatches_iff: "run \<in> set (otpMatches s) \<longleftrightarrow> maximalRun s run"
  using otpMatches_sound [of run s "[]"] otpMatches_complete [of s _ run]
  unfolding maximalRun_def by auto

lemma otpCandidateCodes_set: "set (otpCandidateCodes s) = stripSeps ` set (otpMatches s)"
proof -
  have "set (fold (\<lambda>m cs. sadd (stripSeps m) cs) ms cs) = stripSeps ` set ms \<union> set cs" for ms cs
    by (induction ms arbitrary: cs) auto
  then show ?thesis by (simp add: otpCandidateCodes_def)
qed

text \<open>
  The set of codes a text message may yield is exactly the set of its maximal grouped digit
  runs with the separators removed: no candidate is part of a longer number, none is fused from
  two numbers, and no maximal run is missed.
\<close>

theorem candidate_codes_are_maximal_runs:
  "set (otpCandidateCodes smsBody) = {stripSeps run | run. maximalRun smsBody run}"
  by (auto simp: otpCandidateCodes_set otpMatches_iff)

text \<open>
  Whatever the language model answers, an extracted code has four to ten digits and is, with
  its separators removed, a complete maximal run of digits of the message; a model that fails, or
  answers with anything else, yields no code.
\<close>

theorem extracted_code_grounded:
  assumes "extractOtpFromSms modelCall smsBody institution = Some code"
  shows "4 \<le> length code \<and> length code \<le> 10 \<and> list_all is_digit code
    \<and> (\<exists>run. maximalRun (trim smsBody) run \<and> stripSeps run = code)
    \<and> (\<exists>s. modelCall (trim smsBody) institution = Some (Some (JStr s)) \<and> trim s = code)"
proof -
  from assms obtain s where s: "modelCall (trim smsBody) institution = Some (Some (JStr s))" "trim s = code"
    "OTP_DIGITS_RE code" "otpAppearsInBody code (trim smsBody)"
    by (auto simp: extractOtpFromSms_def coerceOtp_def Let_def split: if_splits option.splits json.splits)
  then show ?thesis
    by (auto simp: OTP_DIGITS_RE_def otpAppearsInBody_def otpCandidateCodes_set otpMatches_iff)
qed

definition demoModel :: "string \<Rightarrow> otp_model" where
  "demoModel answer body institution = Some (Some (JStr answer))"

lemma demo_extract:
  "extractOtpFromSms (demoModel ''12345678'') ''Code 1234-5678. Ref 10000000'' None = Some ''12345678''"
  "extractOtpFromSms (demoModel ''0000'') ''Code 1234-5678. Ref 10000000'' None = None"
  by code_simp+

theorem extracted_code_grounded_witness:
  "\<exists>run. maximalRun (trim ''Code 1234-5678. Ref 10000000'') run \<and> stripSeps run = ''12345678''"
  using extracted_code_grounded [OF demo_extract(1)] by blast

end
