(* ===== verification/Devices.thy ===== *)
theory Devices
  imports WorkerOwnership OtpExtract
begin

text \<open>
  \<^verbatim>\<open>apps/control-plane/src/data/devices.ts\<close> and the tunnel store of
  \<^verbatim>\<open>apps/engine/src/platform/postgres.ts\<close>: paired companion devices, their tokens and grants, and the
  binding of a device to a crawl. A session row is the row of \<^verbatim>\<open>SessionLock\<close> extended with the columns
  of the one-time code and the tunnel. The branches that delegate to a hosted credential store are
  not modelled. Where a function reads and later writes, what other transactions do in between is
  an argument of type \<open>interference\<close>. SHA-256 is a parameter, as are random bytes and row ids.
\<close>

section \<open>State\<close>

record device =
  dvOwnerSubject :: string
  dvName :: string
  dvHashedToken :: string
  dvConnectionGrants :: "string list"
  dvPushTransport :: "string option"
  dvPushToken :: "string option"
  dvPairedAt :: millis
  dvLastSeenAt :: "millis option"
  dvRevokedAt :: "millis option"

record relay_session = session +
  rlCurrentStep :: "string option"
  rlStepCount :: nat
  rlStartedAt :: millis
  rlOtp :: "string option"
  rlOtpRequested :: bool
  rlOtpRequestedAt :: "millis option"
  rlOtpReceivedAt :: "millis option"
  rlOtpRequestEpoch :: nat
  rlOtpIdempotencyKey :: "string option"
  rlOtpRelayOnline :: bool
  rlOtpRelayOnlineAt :: "millis option"
  rlOtpRelayReady :: bool
  rlOtpRelayReadyAt :: "millis option"
  rlOtpRelayMode :: "otp_relay_mode option"
  rlTunnelRequested :: bool
  rlTunnelDeviceId :: "string option"
  rlTunnelClaimedAt :: "millis option"

record relay_connection =
  rcOwnerSubject :: string
  rcInstitutionId :: string
  rcNickname :: "string option"

record relay_institution =
  riName :: string
  riOtpSenderPattern :: "string option"
  riUseDeviceProxy :: bool

record api_key =
  akOwnerSubject :: string
  akName :: string
  akHashedKey :: string
  akScopes :: "string list"
  akConnectionGrants :: "string list"
  akGrantId :: "string option"
  akDeviceId :: "string option"
  akCreatedAt :: millis
  akLastUsedAt :: "millis option"
  akRevokedAt :: "millis option"
  akExpiresAt :: "millis option"

record relay_event =
  reSessionId :: string
  reSeq :: nat
  reType :: string
  reData :: json

record relay_world =
  ryDevices :: "device jsmap"
  rySessions :: "relay_session jsmap"
  ryConnections :: "relay_connection jsmap"
  ryInstitutions :: "relay_institution jsmap"
  ryKeys :: "api_key jsmap"
  ryEvents :: "relay_event list"
  ryStaged :: "(string \<times> staged_kind \<times> json) list"

type_synonym interference = "relay_world \<Rightarrow> relay_world"

abbreviation live :: "'a session_scheme \<Rightarrow> bool" where
  "live s \<equiv> ssStatus s \<in> set ACTIVE_SESSION_STATUSES"

text \<open>\<^verbatim>\<open>update <table> set f where p\<close> on the two tables that are written.\<close>

definition updateRows :: "(string \<Rightarrow> 'r \<Rightarrow> bool) \<Rightarrow> ('r \<Rightarrow> 'r) \<Rightarrow> 'r jsmap \<Rightarrow> 'r jsmap" where
  "updateRows p f rows = map (\<lambda>(i, r). (i, if p i r then f r else r)) rows"

definition updateDevices :: "(string \<Rightarrow> device \<Rightarrow> bool) \<Rightarrow> (device \<Rightarrow> device) \<Rightarrow> relay_world \<Rightarrow> relay_world" where
  "updateDevices p f w = w\<lparr>ryDevices := updateRows p f (ryDevices w)\<rparr>"

definition updateRelay ::
  "(string \<Rightarrow> relay_session \<Rightarrow> bool) \<Rightarrow> (relay_session \<Rightarrow> relay_session) \<Rightarrow> relay_world \<Rightarrow> relay_world" where
  "updateRelay p f w = w\<lparr>rySessions := updateRows p f (rySessions w)\<rparr>"

section \<open>Tokens and contexts\<close>

definition DEVICE_PREFIX :: string where
  "DEVICE_PREFIX = ''acdv_''"

definition hashDeviceToken :: "digest \<Rightarrow> string \<Rightarrow> string" where
  "hashDeviceToken sha plaintext = to_hex (sha plaintext)"

definition generateDeviceToken :: "digest \<Rightarrow> byte list \<Rightarrow> string \<times> string" where
  "generateDeviceToken sha random =
     (let plaintext = DEVICE_PREFIX @ b64url_encode random in (plaintext, hashDeviceToken sha plaintext))"

record device_context =
  dcId :: string
  dcName :: string
  dcOwnerSubject :: string
  dcCredentialHash :: string
  dcConnectionGrants :: "string list"

definition contextOf :: "string \<Rightarrow> device \<Rightarrow> device_context" where
  "contextOf i d =
     \<lparr>dcId = i, dcName = dvName d, dcOwnerSubject = dvOwnerSubject d, dcCredentialHash = dvHashedToken d,
      dcConnectionGrants = dvConnectionGrants d\<rparr>"

text \<open>\<^verbatim>\<open>and(...)\<close> skips a condition that is \<^verbatim>\<open>undefined\<close>: an absent or empty hash is not compared.\<close>

definition activeDevice :: "string \<Rightarrow> string \<Rightarrow> string option \<Rightarrow> string \<Rightarrow> device \<Rightarrow> bool" where
  "activeDevice deviceId ownerSubject credentialHash i d =
     (i = deviceId \<and> dvOwnerSubject d = ownerSubject
      \<and> (truthy credentialHash \<longrightarrow> Some (dvHashedToken d) = credentialHash) \<and> dvRevokedAt d = None)"

definition findDevice :: "(string \<Rightarrow> device \<Rightarrow> bool) \<Rightarrow> relay_world \<Rightarrow> (string \<times> device) option" where
  "findDevice p w = find (\<lambda>(i, d). p i d) (ryDevices w)"

definition refreshDeviceContext :: "device_context \<Rightarrow> relay_world \<Rightarrow> device_context option" where
  "refreshDeviceContext ctx w =
     map_option (\<lambda>(i, d). contextOf i d)
       (findDevice (\<lambda>i d. i = dcId ctx \<and> dvOwnerSubject d = dcOwnerSubject ctx
                        \<and> dvHashedToken d = dcCredentialHash ctx \<and> dvRevokedAt d = None) w)"

text \<open>\<^verbatim>\<open>lockActiveDevice\<close> of \<^verbatim>\<open>session-io.ts\<close>.\<close>

definition lockActiveDevice :: "string \<Rightarrow> string \<Rightarrow> string option \<Rightarrow> relay_world \<Rightarrow> device_context option" where
  "lockActiveDevice deviceId ownerSubject credentialHash w =
     map_option (\<lambda>(i, d). contextOf i d) (findDevice (activeDevice deviceId ownerSubject credentialHash) w)"

section \<open>Pairing, authentication and revocation\<close>

record pair_input =
  piName :: string
  piConnectionGrants :: "string list option"
  piPushTransport :: "string option"
  piPushToken :: "string option"

text \<open>An insert that violates the unique key of the token (or of the id) raises.\<close>

definition pairDevice ::
  "digest \<Rightarrow> byte list \<Rightarrow> string \<Rightarrow> millis \<Rightarrow> pair_input \<Rightarrow> string \<Rightarrow> relay_world
     \<Rightarrow> string + relay_world \<times> string \<times> string" where
  "pairDevice sha random newId now input ownerSubject w =
     (let (plaintext, hashedToken) = generateDeviceToken sha random in
      if mhas (ryDevices w) newId \<or> (\<exists>(i, d) \<in> set (ryDevices w). dvHashedToken d = hashedToken)
      then Inl ''duplicate key value violates unique constraint''
      else Inr (w\<lparr>ryDevices := mput newId
                  \<lparr>dvOwnerSubject = ownerSubject, dvName = piName input, dvHashedToken = hashedToken,
                   dvConnectionGrants = (case piConnectionGrants input of Some g \<Rightarrow> g | None \<Rightarrow> []),
                   dvPushTransport = piPushTransport input, dvPushToken = piPushToken input,
                   dvPairedAt = now, dvLastSeenAt = None, dvRevokedAt = None\<rparr> (ryDevices w)\<rparr>,
                newId, plaintext))"

text \<open>The liveness stamp may fail without failing authentication; here it succeeds.\<close>

definition verifyDeviceToken ::
  "digest \<Rightarrow> millis \<Rightarrow> string \<Rightarrow> relay_world \<Rightarrow> relay_world \<times> device_context option" where
  "verifyDeviceToken sha now presented w =
     (if \<not> starts_with presented DEVICE_PREFIX then (w, None)
      else case findDevice (\<lambda>i d. dvHashedToken d = hashDeviceToken sha presented) w of
             None \<Rightarrow> (w, None)
           | Some (i, d) \<Rightarrow>
               if dvRevokedAt d \<noteq> None then (w, None)
               else (updateDevices (\<lambda>j e. j = i) (\<lambda>e. e\<lparr>dvLastSeenAt := Some now\<rparr>) w, Some (contextOf i d)))"

definition listDevices :: "string \<Rightarrow> relay_world \<Rightarrow> (string \<times> device) list" where
  "listDevices ownerSubject w =
     sort_key (\<lambda>(i, d). - dvPairedAt d)
       (filter (\<lambda>(i, d). dvOwnerSubject d = ownerSubject \<and> dvRevokedAt d = None) (ryDevices w))"

definition revokeDeviceAccess ::
  "millis \<Rightarrow> string \<Rightarrow> string \<Rightarrow> string option \<Rightarrow> relay_world \<Rightarrow> relay_world \<times> bool \<times> string list" where
  "revokeDeviceAccess now deviceId ownerSubject credentialHash w =
     (if findDevice (activeDevice deviceId ownerSubject credentialHash) w = None then (w, False, [])
      else
        let w1 = updateDevices (activeDevice deviceId ownerSubject credentialHash) (\<lambda>d. d\<lparr>dvRevokedAt := Some now\<rparr>) w;
            w2 = w1\<lparr>ryKeys := updateRows (\<lambda>k r. akDeviceId r = Some deviceId \<and> akRevokedAt r = None)
                              (\<lambda>r. r\<lparr>akRevokedAt := Some now\<rparr>) (ryKeys w1)\<rparr>;
            fenced = (\<lambda>i s. rlTunnelDeviceId s = Some deviceId \<and> live s)
        in (updateRelay fenced (\<lambda>s. s\<lparr>ssStatus := Cancelling\<rparr>) w2, True, matching fenced (rySessions w2)))"

definition revokeDevice :: "millis \<Rightarrow> string \<Rightarrow> string \<Rightarrow> relay_world \<Rightarrow> relay_world \<times> bool" where
  "revokeDevice now deviceId ownerSubject w =
     (let (w', revoked, sessionIds) = revokeDeviceAccess now deviceId ownerSubject None w in (w', revoked))"

section \<open>Push registrations\<close>

definition currentDevice :: "device_context \<Rightarrow> string \<Rightarrow> device \<Rightarrow> bool" where
  "currentDevice ctx i d =
     (i = dcId ctx \<and> dvOwnerSubject d = dcOwnerSubject ctx \<and> dvHashedToken d = dcCredentialHash ctx
      \<and> dvRevokedAt d = None)"

definition updateDevicePush ::
  "millis \<Rightarrow> device_context \<Rightarrow> string \<Rightarrow> string \<Rightarrow> relay_world \<Rightarrow> relay_world \<times> bool" where
  "updateDevicePush now ctx pushTransport pushToken w =
     (updateDevices (currentDevice ctx)
        (\<lambda>d. d\<lparr>dvPushTransport := Some pushTransport, dvPushToken := Some pushToken, dvLastSeenAt := Some now\<rparr>) w,
      matching (currentDevice ctx) (ryDevices w) \<noteq> [])"

definition countRelayAuthorizedDevices :: "string \<Rightarrow> string \<Rightarrow> relay_world \<Rightarrow> nat" where
  "countRelayAuthorizedDevices ownerSubject connectionId w =
     length (filter (\<lambda>(i, d). connectionId \<in> set (dvConnectionGrants d))
       (filter (\<lambda>(i, d). dvOwnerSubject d = ownerSubject \<and> dvRevokedAt d = None) (ryDevices w)))"

definition listCompanionPushTargets ::
  "string \<Rightarrow> string \<Rightarrow> string option \<Rightarrow> relay_world \<Rightarrow> (string \<times> string \<times> string) list" where
  "listCompanionPushTargets ownerSubject connectionId deviceId w =
     map (\<lambda>(i, d). (i, or_else (dvPushTransport d) [], or_else (dvPushToken d) []))
       (filter (\<lambda>(i, d). connectionId \<in> set (dvConnectionGrants d) \<and> truthy (dvPushTransport d) \<and> truthy (dvPushToken d))
         (filter (\<lambda>(i, d). dvOwnerSubject d = ownerSubject \<and> (truthy deviceId \<longrightarrow> Some i = deviceId)
                           \<and> dvRevokedAt d = None) (ryDevices w)))"

definition clearDevicePushToken :: "string \<Rightarrow> string \<Rightarrow> string \<Rightarrow> relay_world \<Rightarrow> relay_world \<times> bool" where
  "clearDevicePushToken deviceId ownerSubject rejectedToken w =
     (let rejected = (\<lambda>i d. i = deviceId \<and> dvOwnerSubject d = ownerSubject
                       \<and> dvPushToken d = Some rejectedToken \<and> dvRevokedAt d = None)
      in (updateDevices rejected (\<lambda>d. d\<lparr>dvPushTransport := None, dvPushToken := None\<rparr>) w,
          matching rejected (ryDevices w) \<noteq> []))"

definition pickPairedDevice :: "string \<Rightarrow> relay_world \<Rightarrow> string option" where
  "pickPairedDevice ownerSubject w =
     (case listDevices ownerSubject w of [] \<Rightarrow> None | (i, d) # rest \<Rightarrow> Some i)"

section \<open>Binding a device to a crawl\<close>

text \<open>The transaction that rechecks the selected device and writes the session.\<close>

definition bindSelected :: "string \<Rightarrow> string \<Rightarrow> string \<Rightarrow> string \<Rightarrow> relay_world \<Rightarrow> relay_world \<times> string option" where
  "bindSelected sessionId ownerSubject connectionId deviceId w =
     (case findDevice (activeDevice deviceId ownerSubject None) w of
        None \<Rightarrow> (w, None)
      | Some (i, d) \<Rightarrow>
          if connectionId \<notin> set (dvConnectionGrants d) then (w, None)
          else (updateRelay (\<lambda>j s. j = sessionId) (\<lambda>s. s\<lparr>rlTunnelRequested := True, rlTunnelDeviceId := Some i\<rparr>) w,
                if mhas (rySessions w) sessionId then Some i else None))"

definition bindPairedDeviceToSession ::
  "interference \<Rightarrow> string \<Rightarrow> string \<Rightarrow> relay_world \<Rightarrow> relay_world \<times> string option" where
  "bindPairedDeviceToSession others sessionId ownerSubject w =
     (case mget (rySessions w) sessionId of
        None \<Rightarrow> (w, None)
      | Some s \<Rightarrow>
          (case find (\<lambda>(i, d). ssConnectionId s \<in> set (dvConnectionGrants d)) (listDevices ownerSubject w) of
             None \<Rightarrow> (w, None)
           | Some (i, d) \<Rightarrow> bindSelected sessionId ownerSubject (ssConnectionId s) i (others w)))"

definition listDeviceProxyConnections :: "device_context \<Rightarrow> relay_world \<Rightarrow> (string \<times> string) list" where
  "listDeviceProxyConnections ctx w =
     (if dcConnectionGrants ctx = [] then []
      else List.map_filter (\<lambda>(i, c).
             case mget (ryInstitutions w) (rcInstitutionId c) of
               None \<Rightarrow> None
             | Some inst \<Rightarrow>
                 if i \<in> set (dcConnectionGrants ctx) \<and> rcOwnerSubject c = dcOwnerSubject ctx \<and> riUseDeviceProxy inst
                 then Some (i, or_else (map_option trim (rcNickname c)) (riName inst))
                 else None) (ryConnections w))"

section \<open>The tunnel claim of the engine\<close>

record tunnel_context =
  tcStatus :: session_status
  tcTunnelRequested :: bool
  tcClaimed :: bool

definition loadTunnelContext ::
  "millis \<Rightarrow> string \<Rightarrow> string \<Rightarrow> relay_world \<Rightarrow> relay_world \<times> tunnel_context option" where
  "loadTunnelContext now sessionId deviceId w =
     (let claimable = (\<lambda>i s. i = sessionId \<and> live s \<and> rlTunnelRequested s
                         \<and> rlTunnelDeviceId s = Some deviceId \<and> rlTunnelClaimedAt s = None)
      in case mget (rySessions w) sessionId of
           None \<Rightarrow> (w, None)
         | Some s \<Rightarrow>
             if claimable sessionId s
             then (updateRelay claimable (\<lambda>s. s\<lparr>rlTunnelClaimedAt := Some now\<rparr>) w,
                   Some \<lparr>tcStatus = ssStatus s, tcTunnelRequested = True, tcClaimed = True\<rparr>)
             else (w, Some \<lparr>tcStatus = ssStatus s, tcTunnelRequested = rlTunnelRequested s, tcClaimed = False\<rparr>))"

definition releaseTunnelClaim :: "string \<Rightarrow> relay_world \<Rightarrow> relay_world" where
  "releaseTunnelClaim sessionId w =
     updateRelay (\<lambda>i s. i = sessionId \<and> rlTunnelClaimedAt s \<noteq> None) (\<lambda>s. s\<lparr>rlTunnelClaimedAt := None\<rparr>) w"

end
