(* ===== verification/SessionIo.thy ===== *)
theory SessionIo
  imports Devices
begin

text \<open>
  \<^verbatim>\<open>apps/control-plane/src/data/session-io.ts\<close> and \<^verbatim>\<open>notifications/companion-wake.ts\<close>, with the session
  store and the one-time-code provider of \<^verbatim>\<open>apps/engine/src/platform/postgres.ts\<close>: how a one-time code
  travels from the operator or a paired phone to a waiting crawl, how the engine reports progress and
  its outcome, and how events are replayed. Loops that poll the database take a list with one entry
  per poll made before the deadline: the time of the poll and what other transactions did since the
  previous one; the empty list is the deadline. Sending the push and writing log lines are not modelled.
\<close>

section \<open>Reading sessions\<close>

text \<open>The inner joins with \<^verbatim>\<open>connections\<close> and \<^verbatim>\<open>institutions\<close>.\<close>

definition joined :: "relay_world \<Rightarrow> relay_session \<Rightarrow> (relay_connection \<times> relay_institution) option" where
  "joined w s =
     (case mget (ryConnections w) (ssConnectionId s) of
        None \<Rightarrow> None
      | Some c \<Rightarrow> map_option (\<lambda>inst. (c, inst)) (mget (ryInstitutions w) (rcInstitutionId c)))"

record wake_context =
  wkSessionId :: string
  wkOwnerSubject :: string
  wkConnectionId :: string
  wkInstitutionId :: string
  wkInstitutionName :: string
  wkConnectionName :: "string option"
  wkOtpSenderPattern :: "string option"
  wkOtpRequestEpoch :: nat

definition getCompanionOtpWakeContext :: "string \<Rightarrow> relay_world \<Rightarrow> wake_context option" where
  "getCompanionOtpWakeContext sessionId w =
     (case mget (rySessions w) sessionId of
        None \<Rightarrow> None
      | Some s \<Rightarrow>
          (case joined w s of
             None \<Rightarrow> None
           | Some (c, inst) \<Rightarrow>
               if rlOtpRequested s \<and> live s
               then Some \<lparr>wkSessionId = sessionId, wkOwnerSubject = rcOwnerSubject c, wkConnectionId = ssConnectionId s,
                          wkInstitutionId = rcInstitutionId c, wkInstitutionName = riName inst,
                          wkConnectionName = rcNickname c, wkOtpSenderPattern = riOtpSenderPattern inst,
                          wkOtpRequestEpoch = rlOtpRequestEpoch s\<rparr>
               else None))"

definition awaitingOtp :: "string \<Rightarrow> device_context option \<Rightarrow> relay_world \<Rightarrow> relay_session \<Rightarrow> bool" where
  "awaitingOtp ownerSubject dev w s =
     (case joined w s of
        None \<Rightarrow> False
      | Some (c, inst) \<Rightarrow>
          rlOtpRequested s \<and> live s \<and> rcOwnerSubject c = ownerSubject
          \<and> (case dev of None \<Rightarrow> True | Some d \<Rightarrow> ssConnectionId s \<in> set (dcConnectionGrants d)))"

definition listAwaitingOtpSessions :: "string \<Rightarrow> device_context option \<Rightarrow> relay_world \<Rightarrow> string list" where
  "listAwaitingOtpSessions ownerSubject dev w =
     (let read = (\<lambda>active'. if map_option dcConnectionGrants active' = Some [] then []
                           else matching (\<lambda>i s. awaitingOtp ownerSubject active' w s) (rySessions w))
      in case dev of
           None \<Rightarrow> read None
         | Some d \<Rightarrow>
             (case lockActiveDevice (dcId d) ownerSubject (Some (dcCredentialHash d)) w of
                None \<Rightarrow> []
              | Some active' \<Rightarrow> read (Some active')))"

definition listAwaitingTunnelSessions ::
  "string \<Rightarrow> string option \<Rightarrow> string option \<Rightarrow> relay_world \<Rightarrow> string list" where
  "listAwaitingTunnelSessions ownerSubject deviceId credentialHash w =
     (let rows = matching (\<lambda>i s. rlTunnelRequested s \<and> rlTunnelClaimedAt s = None \<and> live s
                   \<and> (case joined w s of None \<Rightarrow> False | Some (c, inst) \<Rightarrow> rcOwnerSubject c = ownerSubject)
                   \<and> (truthy deviceId \<longrightarrow> rlTunnelDeviceId s = deviceId)) (rySessions w)
      in if \<not> truthy deviceId then rows
         else if lockActiveDevice (or_else deviceId []) ownerSubject credentialHash w = None then [] else rows)"

record session_records =
  srCounts :: "nat \<times> nat \<times> nat"
  srAccounts :: "json list"
  srTransactions :: "json list"
  srPositions :: "json list"

definition RECORDS_CAP :: nat where
  "RECORDS_CAP = 500"

definition pushRecord :: "staged_kind \<times> json \<Rightarrow> session_records \<Rightarrow> session_records" where
  "pushRecord r out =
     (let capped = (\<lambda>xs. if length xs < RECORDS_CAP then xs @ [snd r] else xs);
          (a, t, p) = srCounts out
      in case fst r of
           StagedAccount \<Rightarrow> out\<lparr>srCounts := (a + 1, t, p), srAccounts := capped (srAccounts out)\<rparr>
         | StagedTransaction \<Rightarrow> out\<lparr>srCounts := (a, t + 1, p), srTransactions := capped (srTransactions out)\<rparr>
         | StagedPosition \<Rightarrow> out\<lparr>srCounts := (a, t, p + 1), srPositions := capped (srPositions out)\<rparr>)"

definition getSessionRecords :: "string \<Rightarrow> relay_world \<Rightarrow> session_records" where
  "getSessionRecords sessionId w =
     fold pushRecord (map snd (filter (\<lambda>r. fst r = sessionId) (ryStaged w)))
       \<lparr>srCounts = (0, 0, 0), srAccounts = [], srTransactions = [], srPositions = []\<rparr>"

definition getSessionConnectionId :: "string \<Rightarrow> relay_world \<Rightarrow> string option" where
  "getSessionConnectionId sessionId w = map_option ssConnectionId (mget (rySessions w) sessionId)"

section \<open>Events\<close>

text \<open>\<^verbatim>\<open>coalesce(max(seq), 0) + 1\<close> over the events of the session.\<close>

definition nextSeq :: "string \<Rightarrow> relay_world \<Rightarrow> nat" where
  "nextSeq sessionId w = fold max (map reSeq (filter (\<lambda>e. reSessionId e = sessionId) (ryEvents w))) 0 + 1"

definition emitEvent :: "string \<Rightarrow> string \<Rightarrow> json \<Rightarrow> relay_world \<Rightarrow> relay_world" where
  "emitEvent sessionId type data w =
     w\<lparr>ryEvents := ryEvents w @ [\<lparr>reSessionId = sessionId, reSeq = nextSeq sessionId w, reType = type, reData = data\<rparr>]\<rparr>"

definition listSessionEvents :: "string \<Rightarrow> nat \<Rightarrow> relay_world \<Rightarrow> relay_event list" where
  "listSessionEvents sessionId sinceSeq w =
     sort_key reSeq (filter (\<lambda>e. reSessionId e = sessionId \<and> reSeq e > sinceSeq) (ryEvents w))"

section \<open>The relay of a one-time code\<close>

definition markOtpRelayMode :: "string \<Rightarrow> nat \<Rightarrow> otp_relay_mode \<Rightarrow> relay_world \<Rightarrow> relay_world \<times> bool" where
  "markOtpRelayMode sessionId epoch m w =
     (let armed = (\<lambda>i s. i = sessionId \<and> rlOtpRequested s \<and> rlOtpRequestEpoch s = epoch \<and> live s)
      in (updateRelay armed (\<lambda>s. s\<lparr>rlOtpRelayMode := Some m\<rparr>) w, matching armed (rySessions w) \<noteq> []))"

datatype otp_wake_result = NotPending | WakeManual | WakeSent otp_relay_mode

text \<open>\<open>others\<close> runs between reading the context and recording the mode.\<close>

definition armOtpRelayEpisode :: "interference \<Rightarrow> string \<Rightarrow> relay_world \<Rightarrow> relay_world \<times> otp_wake_result" where
  "armOtpRelayEpisode others sessionId w =
     (case getCompanionOtpWakeContext sessionId w of
        None \<Rightarrow> (w, NotPending)
      | Some ctx \<Rightarrow>
          let authorizedDeviceCount = countRelayAuthorizedDevices (wkOwnerSubject ctx) (wkConnectionId ctx) w;
              m = otpRelayModeFor authorizedDeviceCount;
              (w', recorded) = markOtpRelayMode (wkSessionId ctx) (wkOtpRequestEpoch ctx) m (others w)
          in (w', if m = Manual then WakeManual else WakeSent m))"

definition ownedBy :: "device_context \<Rightarrow> relay_world \<Rightarrow> relay_session \<Rightarrow> bool" where
  "ownedBy d w s =
     (case mget (ryConnections w) (ssConnectionId s) of
        None \<Rightarrow> False
      | Some c \<Rightarrow> rlOtpRequested s \<and> live s \<and> rcOwnerSubject c = dcOwnerSubject d
                  \<and> ssConnectionId s \<in> set (dcConnectionGrants d))"

definition markOtpRelayStatus ::
  "millis \<Rightarrow> string \<Rightarrow> device_context \<Rightarrow> bool \<Rightarrow> bool \<Rightarrow> relay_world \<Rightarrow> relay_world \<times> bool" where
  "markOtpRelayStatus now sessionId dev smsPermission ready w =
     (case lockActiveDevice (dcId dev) (dcOwnerSubject dev) (Some (dcCredentialHash dev)) w of
        None \<Rightarrow> (w, False)
      | Some d \<Rightarrow>
          if dcConnectionGrants d = [] then (w, False)
          else case mget (rySessions w) sessionId of
                 None \<Rightarrow> (w, False)
               | Some s \<Rightarrow>
                   if \<not> ownedBy d w s then (w, False)
                   else (updateRelay (\<lambda>i s. i = sessionId)
                           (\<lambda>s. let s' = s\<lparr>rlOtpRelayOnline := True, rlOtpRelayOnlineAt := Some now\<rparr> in
                                if smsPermission \<and> ready
                                then s'\<lparr>rlOtpRelayReady := True, rlOtpRelayReadyAt := Some now\<rparr> else s') w, True))"

definition MIN_SENDER_PATTERN_LENGTH :: nat where
  "MIN_SENDER_PATTERN_LENGTH = 3"

definition senderMatches :: "string \<Rightarrow> string option \<Rightarrow> bool" where
  "senderMatches sender pattern =
     (case map_option trim pattern of
        None \<Rightarrow> False
      | Some p \<Rightarrow>
          if p = [] \<or> length p < MIN_SENDER_PATTERN_LENGTH then False
          else let s = trim sender in if s = [] then False else to_lower s = to_lower p)"

datatype submit_otp_result = Accepted | OtpNotFound | NotActive

text \<open>The guarded update of \<^verbatim>\<open>submitOtp\<close>.\<close>

definition writeOtp :: "string \<Rightarrow> string \<Rightarrow> string option \<Rightarrow> relay_world \<Rightarrow> relay_world \<times> submit_otp_result" where
  "writeOtp sessionId code idempotencyKey w =
     (let waiting = (\<lambda>i s. i = sessionId \<and> ssStatus s = WaitingForOtp)
      in (updateRelay waiting (\<lambda>s. s\<lparr>rlOtp := Some code, rlOtpIdempotencyKey := idempotencyKey\<rparr>) w,
          if matching waiting (rySessions w) \<noteq> [] then Accepted else NotActive))"

text \<open>The read, then the guarded update; \<open>others\<close> runs in between.\<close>

definition submitOtp ::
  "interference \<Rightarrow> string \<Rightarrow> string \<Rightarrow> string option \<Rightarrow> relay_world \<Rightarrow> relay_world \<times> submit_otp_result" where
  "submitOtp others sessionId code idempotencyKey w =
     (case mget (rySessions w) sessionId of
        None \<Rightarrow> (w, OtpNotFound)
      | Some s \<Rightarrow>
          if truthy idempotencyKey \<and> rlOtpIdempotencyKey s = idempotencyKey then (w, Accepted)
          else if ssStatus s \<noteq> WaitingForOtp then (w, NotActive)
          else writeOtp sessionId code idempotencyKey (others w))"

definition otpSmsIdempotencyKey :: "digest \<Rightarrow> string \<Rightarrow> nat \<Rightarrow> string \<Rightarrow> string" where
  "otpSmsIdempotencyKey sha sessionId epoch smsBody =
     ''sms|'' @ sessionId @ ''|'' @ show_nat epoch @ ''|'' @ to_hex (sha smsBody)"

datatype submit_sms_result = SmsSubmitted submit_otp_result | Unauthorized | SenderMismatch | StaleEpoch | NoOtp

record sms_input =
  smSessionId :: string
  smSmsBody :: string
  smSender :: string
  smOtpRequestEpoch :: nat

text \<open>
  Everything before the call of the language model: a final answer, or the connection of the
  session, the institution's name and the key under which a code may be submitted.
\<close>

definition checkSms ::
  "digest \<Rightarrow> sms_input \<Rightarrow> device_context option \<Rightarrow> relay_world \<Rightarrow> submit_sms_result + string \<times> string \<times> string" where
  "checkSms sha input dev w =
     (case (case dev of None \<Rightarrow> Some None | Some d \<Rightarrow> map_option Some (refreshDeviceContext d w)) of
        None \<Rightarrow> Inl Unauthorized
      | Some initial \<Rightarrow>
          (case mget (rySessions w) (smSessionId input) of
             None \<Rightarrow> Inl (SmsSubmitted OtpNotFound)
           | Some s \<Rightarrow>
               (case joined w s of
                  None \<Rightarrow> Inl (SmsSubmitted OtpNotFound)
                | Some (c, inst) \<Rightarrow>
                    if (case initial of None \<Rightarrow> False | Some d \<Rightarrow> ssConnectionId s \<notin> set (dcConnectionGrants d))
                    then Inl (SmsSubmitted OtpNotFound)
                    else let key = otpSmsIdempotencyKey sha (smSessionId input) (smOtpRequestEpoch input) (smSmsBody input) in
                      if rlOtpIdempotencyKey s = Some key then Inl (SmsSubmitted Accepted)
                      else if ssStatus s \<noteq> WaitingForOtp then Inl (SmsSubmitted NotActive)
                      else if \<not> senderMatches (smSender input) (riOtpSenderPattern inst) then Inl SenderMismatch
                      else if rlOtpRequestEpoch s \<noteq> smOtpRequestEpoch input then Inl StaleEpoch
                      else Inr (ssConnectionId s, riName inst, key))))"

text \<open>Everything after it, on the state found when the model has answered.\<close>

definition finishSms ::
  "interference \<Rightarrow> sms_input \<Rightarrow> device_context option \<Rightarrow> string \<Rightarrow> string \<Rightarrow> string \<Rightarrow> relay_world
     \<Rightarrow> relay_world \<times> submit_sms_result" where
  "finishSms others input dev connectionId key code w =
     (case dev of
        None \<Rightarrow> map_prod id SmsSubmitted (submitOtp others (smSessionId input) code (Some key) w)
      | Some d \<Rightarrow>
          (case lockActiveDevice (dcId d) (dcOwnerSubject d) (Some (dcCredentialHash d)) w of
             None \<Rightarrow> (w, Unauthorized)
           | Some active' \<Rightarrow>
               if connectionId \<notin> set (dcConnectionGrants active') then (w, Unauthorized)
               else map_prod id SmsSubmitted (submitOtp others (smSessionId input) code (Some key) w)))"

definition submitOtpFromSms ::
  "digest \<Rightarrow> otp_model \<Rightarrow> interference \<Rightarrow> interference \<Rightarrow> sms_input \<Rightarrow> device_context option \<Rightarrow> relay_world
     \<Rightarrow> relay_world \<times> submit_sms_result" where
  "submitOtpFromSms sha modelCall duringModel others input dev w =
     (case checkSms sha input dev w of
        Inl answer \<Rightarrow> (w, answer)
      | Inr (connectionId, institutionName, key) \<Rightarrow>
          (case extractOtpFromSms modelCall (smSmsBody input) (Some institutionName) of
             None \<Rightarrow> (duringModel w, NoOtp)
           | Some code \<Rightarrow> finishSms others input dev connectionId key code (duringModel w)))"

section \<open>The engine's side of the code\<close>

datatype engine_error =
  CrawlCancelledError | SessionNotFoundError | OtpTimeoutError | RelayNotReadyError | RelayOfflineError

definition openEpisode :: "millis \<Rightarrow> string \<Rightarrow> relay_world \<Rightarrow> relay_world \<times> bool" where
  "openEpisode now sessionId w =
     (let idle = (\<lambda>i s. i = sessionId \<and> live s \<and> \<not> rlOtpRequested s)
      in (updateRelay idle
            (\<lambda>s. s\<lparr>rlOtpRequested := True, rlOtpRequestedAt := Some now, rlOtpRequestEpoch := rlOtpRequestEpoch s + 1,
                    rlOtpRelayOnline := False, rlOtpRelayOnlineAt := None, rlOtpRelayReady := False,
                    rlOtpRelayReadyAt := None, rlOtpRelayMode := None\<rparr>) w,
          matching idle (rySessions w) \<noteq> []))"

text \<open>The poll of \<^verbatim>\<open>prepare\<close>: elapsed time and interference of every turn.\<close>

fun preparePoll ::
  "millis \<Rightarrow> millis \<Rightarrow> bool \<Rightarrow> string \<Rightarrow> (millis \<times> interference) list \<Rightarrow> relay_world
     \<Rightarrow> relay_world \<times> engine_error option option" where
  "preparePoll offlineMs busyMs joinedExisting sessionId [] w = (w, None)"
| "preparePoll offlineMs busyMs joinedExisting sessionId ((elapsed, others) # turns) w =
     (let w1 = others w in
      case mget (rySessions w1) sessionId of
        None \<Rightarrow> (w1, Some (Some SessionNotFoundError))
      | Some s \<Rightarrow>
          if \<not> live s then (w1, Some (Some CrawlCancelledError))
          else if joinedExisting \<and> \<not> rlOtpRequested s then (w1, Some None)
          else if rlOtpRelayReady s then (w1, Some None)
          else if rlOtpRelayMode s = Some Manual then (w1, Some None)
          else if elapsed \<ge> (if rlOtpRelayOnline s then busyMs else offlineMs)
          then (w1, Some (Some (if rlOtpRelayOnline s then RelayNotReadyError else RelayOfflineError)))
          else preparePoll offlineMs busyMs joinedExisting sessionId turns w1)"

definition prepareOtp ::
  "millis \<Rightarrow> millis \<Rightarrow> millis \<Rightarrow> interference \<Rightarrow> string \<Rightarrow> (millis \<times> interference) list \<Rightarrow> relay_world
     \<Rightarrow> relay_world \<times> engine_error option option" where
  "prepareOtp now offlineMs busyMs others sessionId turns w =
     (case openEpisode now sessionId w of
        (w1, True) \<Rightarrow>
          preparePoll offlineMs busyMs False sessionId turns (emitEvent sessionId ''otp_requested'' (JObj []) w1)
      | (w1, False) \<Rightarrow>
          (let w2 = others w1 in
           case mget (rySessions w2) sessionId of
             None \<Rightarrow> (w2, Some (Some SessionNotFoundError))
           | Some s \<Rightarrow>
               if \<not> live s then (w2, Some (Some CrawlCancelledError))
               else if \<not> rlOtpRequested s then (w2, Some None)
               else preparePoll offlineMs busyMs True sessionId turns w2))"

definition beginWait :: "string \<Rightarrow> relay_world \<Rightarrow> relay_world" where
  "beginWait sessionId w =
     updateRelay (\<lambda>i s. i = sessionId \<and> live s)
       (\<lambda>s. s\<lparr>ssStatus := WaitingForOtp, rlCurrentStep := Some ''Waiting for OTP code...''\<rparr>) w"

definition closeEpisode :: "millis \<Rightarrow> relay_session \<Rightarrow> relay_session" where
  "closeEpisode now s =
     s\<lparr>rlOtp := None, rlOtpReceivedAt := Some now, rlOtpRequested := False, rlOtpRelayOnline := False,
       rlOtpRelayOnlineAt := None, rlOtpRelayReady := False, rlOtpRelayReadyAt := None,
       ssStatus := LoggingIn, rlCurrentStep := Some ''Entering OTP code...''\<rparr>"

definition consumeOtp :: "millis \<Rightarrow> string \<Rightarrow> relay_world \<Rightarrow> relay_world \<times> string option" where
  "consumeOtp now sessionId w =
     (case mget (rySessions w) sessionId of
        None \<Rightarrow> (w, None)
      | Some s \<Rightarrow>
          if live s \<and> rlOtp s \<noteq> None
          then (emitEvent sessionId ''status'' (JObj [(''status'', JStr ''logging_in''), (''currentStep'', JStr ''Entering OTP code...'')])
                  (updateRelay (\<lambda>i s. i = sessionId) (closeEpisode now) w), rlOtp s)
          else (w, None))"

fun waitPoll :: "string \<Rightarrow> (millis \<times> interference) list \<Rightarrow> relay_world \<Rightarrow> relay_world \<times> (engine_error + string)" where
  "waitPoll sessionId [] w = (w, Inl OtpTimeoutError)"
| "waitPoll sessionId ((now, others) # turns) w =
     (case consumeOtp now sessionId (others w) of
        (w1, Some code) \<Rightarrow> (w1, Inr (trim code))
      | (w1, None) \<Rightarrow>
          (case mget (rySessions w1) sessionId of
             None \<Rightarrow> (w1, Inl SessionNotFoundError)
           | Some s \<Rightarrow> if \<not> live s then (w1, Inl CrawlCancelledError) else waitPoll sessionId turns w1))"

definition waitForOtp :: "string \<Rightarrow> (millis \<times> interference) list \<Rightarrow> relay_world \<Rightarrow> relay_world \<times> (engine_error + string)" where
  "waitForOtp sessionId turns w =
     (case mget (rySessions w) sessionId of
        None \<Rightarrow> (w, Inl SessionNotFoundError)
      | Some s \<Rightarrow> if \<not> live s then (w, Inl CrawlCancelledError) else waitPoll sessionId turns (beginWait sessionId w))"

section \<open>The engine's session store\<close>

definition sessionStatusOf :: "string \<Rightarrow> session_status option" where
  "sessionStatusOf name =
     map_of [(''starting'', Starting), (''logging_in'', LoggingIn), (''navigating'', Navigating),
             (''waiting_for_otp'', WaitingForOtp), (''extracting'', Extracting), (''cancelling'', Cancelling),
             (''completed'', Completed), (''failed'', Failed), (''cancelled'', Cancelled)] name"

definition assertActive :: "string \<Rightarrow> relay_world \<Rightarrow> engine_error option" where
  "assertActive sessionId w =
     (case mget (rySessions w) sessionId of
        None \<Rightarrow> Some CrawlCancelledError
      | Some s \<Rightarrow> if live s then None else Some CrawlCancelledError)"

definition jnat :: "nat \<Rightarrow> json" where
  "jnat n = JNum (Fin (of_nat n))"

definition progressRow :: "millis \<Rightarrow> string \<Rightarrow> string \<Rightarrow> nat option \<Rightarrow> relay_session \<Rightarrow> relay_session" where
  "progressRow now status currentStep stepCount s =
     s\<lparr>ssStatus := (case sessionStatusOf status of Some st \<Rightarrow> st | None \<Rightarrow> ssStatus s),
       rlCurrentStep := Some currentStep,
       rlStepCount := (case stepCount of Some n \<Rightarrow> n | None \<Rightarrow> rlStepCount s),
       ssHeartbeatAt := Some now\<rparr>"

definition updateStatus ::
  "millis \<Rightarrow> string \<Rightarrow> string \<Rightarrow> string \<Rightarrow> nat option \<Rightarrow> relay_world \<Rightarrow> relay_world \<times> engine_error option" where
  "updateStatus now sessionId status currentStep stepCount w =
     (case mget (rySessions w) sessionId of
        None \<Rightarrow> (w, None)
      | Some s \<Rightarrow>
          if \<not> live s then (w, Some CrawlCancelledError)
          else (emitEvent sessionId ''status''
                  (JObj ([(''status'', JStr status), (''currentStep'', JStr currentStep)]
                         @ (case stepCount of None \<Rightarrow> [] | Some n \<Rightarrow> [(''stepCount'', jnat n)])))
                  (updateRelay (\<lambda>i s. i = sessionId \<and> live s) (progressRow now status currentStep stepCount) w), None))"

definition heartbeatEngine :: "millis \<Rightarrow> string \<Rightarrow> relay_world \<Rightarrow> relay_world" where
  "heartbeatEngine now sessionId w =
     updateRelay (\<lambda>i s. i = sessionId \<and> live s) (\<lambda>s. s\<lparr>ssHeartbeatAt := Some now\<rparr>) w"

record completion_results =
  coAccounts :: "json list"
  coTransactions :: "json list"
  coPositions :: "json list"
  coCost :: "rat option"
  coCrawlMemory :: "string option"
  coFailureReason :: "failure_reason option"

definition stageRecords :: "string \<Rightarrow> staged_kind \<Rightarrow> json list \<Rightarrow> relay_world \<Rightarrow> relay_world" where
  "stageRecords sessionId kind items w = w\<lparr>ryStaged := ryStaged w @ map (\<lambda>d. (sessionId, kind, d)) items\<rparr>"

definition doneData :: "bool \<Rightarrow> bool \<Rightarrow> completion_results \<Rightarrow> json" where
  "doneData cancellationRequested success results =
     JObj [(''success'', JBool (\<not> cancellationRequested \<and> success)),
           (''status'', JStr (if cancellationRequested then ''cancelled'' else if success then ''completed'' else ''failed'')),
           (''counts'', JObj
              [(''accounts'', jnat (if cancellationRequested then 0 else length (coAccounts results))),
               (''transactions'', jnat (if cancellationRequested then 0 else length (coTransactions results))),
               (''positions'', jnat (if cancellationRequested then 0 else length (coPositions results)))])]"

text \<open>The three update statements of \<^verbatim>\<open>complete\<close>: cancelled, succeeded, failed.\<close>

definition outcomeRow ::
  "millis \<Rightarrow> bool \<Rightarrow> bool \<Rightarrow> string option \<Rightarrow> completion_results \<Rightarrow> relay_session \<Rightarrow> relay_session" where
  "outcomeRow now cancellationRequested success err results s =
     (let account = s\<lparr>ssTotalCostUsd := (case coCost results of Some c \<Rightarrow> Some c | None \<Rightarrow> ssTotalCostUsd s),
                       ssCrawlMemory := (case coCrawlMemory results of Some m \<Rightarrow> Some m | None \<Rightarrow> ssCrawlMemory s),
                       ssExpiresAt := Some (now + 3 * DAY_MS)\<rparr>
      in if cancellationRequested then account
         else if success then account\<lparr>ssPromotionReadyAt := Some now\<rparr>
         else account\<lparr>ssStatus := Failed, ssCompletedAt := Some now,
                ssError := (if truthy err then err else None), ssFailureReason := coFailureReason results\<rparr>)"

text \<open>The whole transaction: outcome, staged records and the \<^verbatim>\<open>done\<close> event commit together.\<close>

definition completeSession ::
  "millis \<Rightarrow> string \<Rightarrow> bool \<Rightarrow> string option \<Rightarrow> completion_results \<Rightarrow> relay_world \<Rightarrow> engine_error + relay_world" where
  "completeSession now sessionId success err results w =
     (case mget (rySessions w) sessionId of
        None \<Rightarrow> Inl SessionNotFoundError
      | Some s \<Rightarrow>
          let cancellationRequested = (ssStatus s = Cancelling \<or> ssStatus s = Cancelled) in
          if \<not> cancellationRequested \<and> \<not> live s then Inl CrawlCancelledError
          else
            let w1 = updateRelay (\<lambda>i s. i = sessionId) (outcomeRow now cancellationRequested success err results) w;
                w2 = (if cancellationRequested then w1
                      else stageRecords sessionId StagedPosition (coPositions results)
                             (stageRecords sessionId StagedTransaction (coTransactions results)
                               (stageRecords sessionId StagedAccount (coAccounts results) w1)))
            in Inr (emitEvent sessionId ''done'' (doneData cancellationRequested success results) w2))"

end
