(* ===== verification/RelaySafety.thy ===== *)
theory RelaySafety
  imports SessionIo
begin

text \<open>
  What the companion protocol guarantees. The operations of \<^verbatim>\<open>devices.ts\<close>, \<^verbatim>\<open>session-io.ts\<close> and the
  engine's Postgres adapter become the steps of one transition system over the shared tables, in any
  order and for any number of sessions and devices; a function that reads before it writes
  contributes its writing transaction, so every interleaving is covered. The life cycle of
  \<^verbatim>\<open>SessionLock\<close> enters as steps that update the base columns of a row.
\<close>

section \<open>The transition system\<close>

definition sessionsOf :: "relay_world \<Rightarrow> session jsmap" where
  "sessionsOf w = map (\<lambda>(i, s). (i, session.truncate s)) (rySessions w)"

text \<open>The defaults of the columns a new session row is inserted with.\<close>

definition freshRelay :: "millis \<Rightarrow> session \<Rightarrow> relay_session" where
  "freshRelay now s =
     \<lparr>ssConnectionId = ssConnectionId s, ssStatus = ssStatus s, ssLeaseOwner = ssLeaseOwner s,
      ssLeaseExpiresAt = ssLeaseExpiresAt s, ssHeartbeatAt = ssHeartbeatAt s, ssExpiresAt = ssExpiresAt s,
      ssPromotionReadyAt = ssPromotionReadyAt s, ssCompletedAt = ssCompletedAt s, ssError = ssError s,
      ssFailureReason = ssFailureReason s, ssTotalCostUsd = ssTotalCostUsd s, ssCrawlMemory = ssCrawlMemory s,
      rlCurrentStep = None, rlStepCount = 0, rlStartedAt = now, rlOtp = None, rlOtpRequested = False,
      rlOtpRequestedAt = None, rlOtpReceivedAt = None, rlOtpRequestEpoch = 0, rlOtpIdempotencyKey = None,
      rlOtpRelayOnline = False, rlOtpRelayOnlineAt = None, rlOtpRelayReady = False, rlOtpRelayReadyAt = None,
      rlOtpRelayMode = None, rlTunnelRequested = False, rlTunnelDeviceId = None, rlTunnelClaimedAt = None\<rparr>"

definition relayHoldsLock :: "string \<Rightarrow> relay_world \<Rightarrow> bool" where
  "relayHoldsLock conn w =
     (\<exists>(i, s) \<in> set (rySessions w). ssConnectionId s = conn \<and> ssStatus s \<in> set LOCKED_SESSION_STATUSES)"

definition baseUpdate :: "(string \<Rightarrow> session \<Rightarrow> bool) \<Rightarrow> (session \<Rightarrow> session) \<Rightarrow> relay_world \<Rightarrow> relay_world" where
  "baseUpdate p f w =
     updateRelay (\<lambda>i s. p i (session.truncate s)) (\<lambda>s. session.extend (f (session.truncate s)) (session.more s)) w"

definition neverActivates :: "(string \<Rightarrow> session \<Rightarrow> bool) \<Rightarrow> (session \<Rightarrow> session) \<Rightarrow> bool" where
  "neverActivates p f = (\<forall>i s. p i s \<longrightarrow> active (f s) \<longrightarrow> active s)"

inductive relay_step :: "relay_world \<Rightarrow> relay_world \<Rightarrow> bool" where
  pair: "pairDevice sha random newId now input owner w = Inr (w', i, plaintext) \<Longrightarrow> relay_step w w'"
| verify: "relay_step w (fst (verifyDeviceToken sha now presented w))"
| revoke: "relay_step w (fst (revokeDeviceAccess now did owner hash w))"
| push: "relay_step w (fst (updateDevicePush now ctx transport token w))"
| clear_push: "relay_step w (fst (clearDevicePushToken did owner token w))"
| bind: "relay_step w (fst (bindSelected sid owner conn did w))"
| claim: "relay_step w (fst (loadTunnelContext now sid did w))"
| release: "relay_step w (releaseTunnelClaim sid w)"
| relay_mode: "relay_step w (fst (markOtpRelayMode sid epoch m w))"
| relay_status: "relay_step w (fst (markOtpRelayStatus now sid ctx sms ready w))"
| write_otp: "relay_step w (fst (writeOtp sid code key w))"
| open_episode: "relay_step w (fst (openEpisode now sid w))"
| begin_wait: "relay_step w (beginWait sid w)"
| consume: "relay_step w (fst (consumeOtp now sid w))"
| status: "relay_step w (fst (updateStatus now sid st currentStep n w))"
| engine_heartbeat: "relay_step w (heartbeatEngine now sid w)"
| complete: "completeSession now sid success err results w = Inr w' \<Longrightarrow> relay_step w w'"
| event: "relay_step w (emitEvent sid type data w)"
| create: "\<not> mhas (rySessions w) newId \<Longrightarrow> \<not> relayHoldsLock (csConnectionId input) w \<Longrightarrow>
    relay_step w (w\<lparr>rySessions := mput newId (freshRelay now (newSession env now input)) (rySessions w)\<rparr>)"
| lifecycle: "releases p f \<Longrightarrow> neverActivates p f \<Longrightarrow> relay_step w (baseUpdate p f w)"
| sweep: "relay_step w (w\<lparr>rySessions := filter (\<lambda>(i, s). i \<notin> expired) (rySessions w)\<rparr>)"

section \<open>The invariant\<close>

text \<open>
  The relay columns describe the current episode only, a tunnel is claimed only after it was
  requested for a device, and the device of an active crawl is paired and not revoked.
\<close>

definition rowOk :: "device jsmap \<Rightarrow> relay_session \<Rightarrow> bool" where
  "rowOk devices s =
     ((rlOtpRelayReady s \<longrightarrow> rlOtpRelayOnline s) \<and> (rlOtpRelayOnline s \<longrightarrow> rlOtpRequested s)
      \<and> (rlOtpRequested s \<longrightarrow> rlOtpRequestEpoch s > 0)
      \<and> (rlTunnelRequested s \<longleftrightarrow> rlTunnelDeviceId s \<noteq> None)
      \<and> (rlTunnelClaimedAt s \<noteq> None \<longrightarrow> rlTunnelRequested s)
      \<and> (live s \<longrightarrow> (\<forall>i. rlTunnelDeviceId s = Some i \<longrightarrow>
           (\<exists>d. mget devices i = Some d \<and> dvRevokedAt d = None))))"

definition relayLock :: "relay_session jsmap \<Rightarrow> bool" where
  "relayLock rows =
     (\<forall>i s j t. mget rows i = Some s \<longrightarrow> mget rows j = Some t \<longrightarrow> ssStatus s \<in> set LOCKED_SESSION_STATUSES \<longrightarrow>
        ssStatus t \<in> set LOCKED_SESSION_STATUSES \<longrightarrow> ssConnectionId s = ssConnectionId t \<longrightarrow> i = j)"

definition tokensDistinct :: "device jsmap \<Rightarrow> bool" where
  "tokensDistinct devices =
     (\<forall>i d j e. mget devices i = Some d \<longrightarrow> mget devices j = Some e \<longrightarrow> dvHashedToken d = dvHashedToken e \<longrightarrow> i = j)"

definition relayInv :: "relay_world \<Rightarrow> bool" where
  "relayInv w =
     (distinct (mkeys (rySessions w)) \<and> distinct (mkeys (ryDevices w)) \<and> relayLock (rySessions w)
      \<and> tokensDistinct (ryDevices w)
      \<and> (\<forall>i s. mget (rySessions w) i = Some s \<longrightarrow> rowOk (ryDevices w) s))"

lemma mget_updateRows:
  "mget (updateRows p f rows) i = map_option (\<lambda>r. if p i r then f r else r) (mget rows i)"
  unfolding updateRows_def mget_def by (simp add: map_of_map_val [where f = "\<lambda>i r. if p i r then f r else r"])

lemma mkeys_updateRows [simp]: "mkeys (updateRows p f rows) = mkeys rows"
  by (simp add: updateRows_def mkeys_def case_prod_beta comp_def)

lemma relayLock_lockInv:
  "distinct (mkeys (rySessions w)) \<Longrightarrow> relayLock (rySessions w) \<longleftrightarrow> lockInv (b\<lparr>wSessions := sessionsOf w\<rparr>)"
proof -
  have m: "mget (sessionsOf w) i = map_option session.truncate (mget (rySessions w) i)" for i
    unfolding sessionsOf_def mget_def by (simp add: map_of_map_val [where f = "\<lambda>i s. session.truncate s"])
  have k: "mkeys (sessionsOf w) = mkeys (rySessions w)"
    by (simp add: sessionsOf_def mkeys_def case_prod_beta comp_def)
  have t: "ssStatus (session.truncate s) = ssStatus s" "ssConnectionId (session.truncate s) = ssConnectionId s"
    for s :: relay_session by (simp_all add: session.defs)
  show "distinct (mkeys (rySessions w)) \<Longrightarrow> ?thesis"
    by (auto simp: lockInv_def relayLock_def m k t)
qed

text \<open>An update of session rows keeps the invariant when it keeps it row by row.\<close>

lemma relayInv_update:
  assumes "relayInv w"
    and "\<And>i s. mget (rySessions w) i = Some s \<Longrightarrow> p i s \<Longrightarrow> rowOk (ryDevices w) s \<Longrightarrow>
      ssConnectionId (f s) = ssConnectionId s
      \<and> (ssStatus (f s) \<in> set LOCKED_SESSION_STATUSES \<longrightarrow> ssStatus s \<in> set LOCKED_SESSION_STATUSES)
      \<and> rowOk (ryDevices w) (f s)"
  shows "relayInv (updateRelay p f w)"
proof -
  have rows: "\<exists>t. mget (rySessions w) i = Some t \<and> ssConnectionId s = ssConnectionId t
      \<and> (ssStatus s \<in> set LOCKED_SESSION_STATUSES \<longrightarrow> ssStatus t \<in> set LOCKED_SESSION_STATUSES)
      \<and> rowOk (ryDevices w) s"
    if "mget (rySessions (updateRelay p f w)) i = Some s" for i s
  proof -
    from that obtain t where t: "mget (rySessions w) i = Some t" "s = (if p i t then f t else t)"
      by (auto simp: updateRelay_def mget_updateRows)
    then show ?thesis using assms unfolding relayInv_def by (cases "p i t") auto
  qed
  have "relayLock (rySessions (updateRelay p f w))"
    unfolding relayLock_def
  proof (intro allI impI)
    fix i s j t
    assume *: "mget (rySessions (updateRelay p f w)) i = Some s" "mget (rySessions (updateRelay p f w)) j = Some t"
      "ssStatus s \<in> set LOCKED_SESSION_STATUSES" "ssStatus t \<in> set LOCKED_SESSION_STATUSES"
      "ssConnectionId s = ssConnectionId t"
    obtain s' t' where "mget (rySessions w) i = Some s'" "mget (rySessions w) j = Some t'"
      "ssStatus s' \<in> set LOCKED_SESSION_STATUSES" "ssStatus t' \<in> set LOCKED_SESSION_STATUSES"
      "ssConnectionId s' = ssConnectionId t'"
      using rows [OF *(1)] rows [OF *(2)] * by metis
    then show "i = j" using assms(1) unfolding relayInv_def relayLock_def by blast
  qed
  with rows assms(1) show ?thesis
    unfolding relayInv_def by (auto simp: updateRelay_def)
qed

lemma relayInv_frame:
  "relayInv w \<Longrightarrow> rySessions w' = rySessions w \<Longrightarrow> ryDevices w' = ryDevices w \<Longrightarrow> relayInv w'"
  by (simp add: relayInv_def)

lemma relayInv_devices:
  assumes "relayInv w"
    and "\<And>d. dvHashedToken (f d) = dvHashedToken d \<and> dvRevokedAt (f d) = dvRevokedAt d"
  shows "relayInv (updateDevices p f w)"
proof -
  have dev: "\<exists>e. mget (ryDevices w) i = Some e \<and> dvHashedToken d = dvHashedToken e"
    if "mget (updateRows p f (ryDevices w)) i = Some d" for i d
    using that assms(2) by (auto simp: mget_updateRows)
  have "\<exists>e. mget (updateRows p f (ryDevices w)) i = Some e \<and> dvRevokedAt e = None"
    if "mget (ryDevices w) i = Some d" "dvRevokedAt d = None" for i d
    using that assms(2) by (auto simp: mget_updateRows)
  then have row: "rowOk (updateRows p f (ryDevices w)) s" if "rowOk (ryDevices w) s" for s
    using that unfolding rowOk_def by blast
  have "tokensDistinct (updateRows p f (ryDevices w))"
    unfolding tokensDistinct_def
  proof (intro allI impI)
    fix i d j e
    assume "mget (updateRows p f (ryDevices w)) i = Some d" "mget (updateRows p f (ryDevices w)) j = Some e"
      "dvHashedToken d = dvHashedToken e"
    with dev obtain d' e' where "mget (ryDevices w) i = Some d'" "mget (ryDevices w) j = Some e'"
      "dvHashedToken d' = dvHashedToken e'" by metis
    then show "i = j" using assms(1) unfolding relayInv_def tokensDistinct_def by blast
  qed
  with row assms(1) show ?thesis by (auto simp: relayInv_def updateDevices_def)
qed

lemma findDevice_Some: "findDevice p w = Some (i, d) \<Longrightarrow> p i d \<and> (i, d) \<in> set (ryDevices w)"
  unfolding findDevice_def by (induction "ryDevices w" arbitrary: w) (auto simp: find_Some_iff in_set_conv_nth)

lemma findDevice_mget:
  "distinct (mkeys (ryDevices w)) \<Longrightarrow> findDevice p w = Some (i, d) \<Longrightarrow> mget (ryDevices w) i = Some d \<and> p i d"
  using findDevice_Some [of p w i d] by (auto simp: mget_def mkeys_def)

text \<open>The devices a revocation touches, and what becomes of them.\<close>

lemma relayInv_revoke:
  assumes inv: "relayInv w"
  shows "relayInv (fst (revokeDeviceAccess now did owner hash w))"
proof (cases "findDevice (activeDevice did owner hash) w = None")
  case True
  with inv show ?thesis by (simp add: revokeDeviceAccess_def)
next
  case False
  let ?p = "activeDevice did owner hash"
  let ?devs = "updateRows ?p (\<lambda>d. d\<lparr>dvRevokedAt := Some now\<rparr>) (ryDevices w)"
  let ?fenced = "\<lambda>i s. rlTunnelDeviceId s = Some did \<and> live s"
  let ?rows = "updateRows ?fenced (\<lambda>s. s\<lparr>ssStatus := Cancelling\<rparr>) (rySessions w)"
  have "tokensDistinct ?devs"
    using inv unfolding relayInv_def tokensDistinct_def by (fastforce simp: mget_updateRows split: if_splits)
  moreover have "relayLock ?rows"
    using inv relayInv_update [OF inv, of ?fenced "\<lambda>s. s\<lparr>ssStatus := Cancelling\<rparr>"]
    by (auto simp: relayInv_def updateRelay_def rowOk_def locked_simps)
  moreover have "rowOk ?devs s" if s: "mget ?rows i = Some s" for i s
  proof -
    from s obtain t where t: "mget (rySessions w) i = Some t" "s = (if ?fenced i t then t\<lparr>ssStatus := Cancelling\<rparr> else t)"
      by (auto simp: mget_updateRows)
    have ok: "rowOk (ryDevices w) t" using inv t(1) by (simp add: relayInv_def)
    have keep: "mget ?devs j = mget (ryDevices w) j" if "j \<noteq> did" for j
      using that by (cases "mget (ryDevices w) j") (auto simp: mget_updateRows activeDevice_def)
    show ?thesis using ok t(2) keep unfolding rowOk_def
      by (cases "?fenced i t") (auto simp: locked_simps)
  qed
  ultimately show ?thesis
    using inv False by (auto simp: revokeDeviceAccess_def relayInv_def updateDevices_def updateRelay_def Let_def)
qed

lemma relayInv_pair:
  assumes inv: "relayInv w" and p: "pairDevice sha random newId now input owner w = Inr (w', i, plaintext)"
  shows "relayInv w'"
proof -
  from p obtain d where w': "w' = w\<lparr>ryDevices := mput newId d (ryDevices w)\<rparr>" and fresh: "\<not> mhas (ryDevices w) newId"
    and tok: "\<forall>(j, e) \<in> set (ryDevices w). dvHashedToken e \<noteq> dvHashedToken d"
    by (auto simp: pairDevice_def Let_def split: prod.splits if_splits) force
  have other: "dvHashedToken e \<noteq> dvHashedToken d" if "mget (ryDevices w) j = Some e" for j e
    using that tok by (auto simp: mget_def dest: map_of_SomeD)
  have "tokensDistinct (mput newId d (ryDevices w))"
    using inv other unfolding relayInv_def tokensDistinct_def
    by (auto split: if_splits dest: sym)
  moreover have "rowOk (mput newId d (ryDevices w)) s" if "rowOk (ryDevices w) s" for s
    using that fresh unfolding rowOk_def mhas_def by fastforce
  ultimately show ?thesis using inv w' by (auto simp: relayInv_def)
qed

lemma relayInv_bind: "relayInv w \<Longrightarrow> relayInv (fst (bindSelected sid owner conn did w))"
proof (cases "findDevice (activeDevice did owner None) w")
  case (Some a)
  obtain i d where a: "a = (i, d)" by fastforce
  assume inv: "relayInv w"
  then have "mget (ryDevices w) i = Some d" "dvRevokedAt d = None"
    using findDevice_mget [of w "activeDevice did owner None" i d] Some a by (auto simp: relayInv_def activeDevice_def)
  with inv Some a show ?thesis
    by (auto simp: bindSelected_def rowOk_def intro!: relayInv_update)
qed (simp add: bindSelected_def)

lemma rowOk_frame:
  assumes "rowOk devices s" and "ssStatus t = ssStatus s \<or> \<not> live t \<or> live s"
    and "rlOtpRelayReady t = rlOtpRelayReady s" "rlOtpRelayOnline t = rlOtpRelayOnline s"
    and "rlOtpRequested t = rlOtpRequested s" "rlOtpRequestEpoch t = rlOtpRequestEpoch s"
    and "rlTunnelRequested t = rlTunnelRequested s" "rlTunnelDeviceId t = rlTunnelDeviceId s"
    and "rlTunnelClaimedAt t = rlTunnelClaimedAt s"
  shows "rowOk devices t"
  using assms unfolding rowOk_def by auto

lemma outcomeRow_frame [simp]:
  "ssConnectionId (outcomeRow now cr success err results s) = ssConnectionId s"
  "ssStatus (outcomeRow now cr success err results s) = (if cr \<or> success then ssStatus s else Failed)"
  by (simp_all add: outcomeRow_def Let_def)

lemma rowOk_outcomeRow: "rowOk ds s \<Longrightarrow> rowOk ds (outcomeRow now cr success err results s)"
  by (rule rowOk_frame [of _ s]) (auto simp: outcomeRow_def Let_def locked_simps)

lemma rowOk_progressRow: "rowOk ds s \<Longrightarrow> live s \<Longrightarrow> rowOk ds (progressRow now st currentStep n s)"
  by (rule rowOk_frame [of _ s]) (auto simp: progressRow_def)

lemma relayInv_complete:
  assumes inv: "relayInv w" and c: "completeSession now sid success err results w = Inr w'"
  shows "relayInv w'"
proof -
  obtain cr where cr: "rySessions w' = rySessions (updateRelay (\<lambda>i s. i = sid) (outcomeRow now cr success err results) w)"
    "ryDevices w' = ryDevices w"
    using c by (auto simp: completeSession_def Let_def emitEvent_def stageRecords_def updateRelay_def
        split: if_splits option.splits)
  have "relayInv (updateRelay (\<lambda>i s. i = sid) (outcomeRow now cr success err results) w)"
    by (rule relayInv_update [OF inv]) (auto simp: rowOk_outcomeRow locked_simps)
  with cr show ?thesis by (simp add: relayInv_frame [of "updateRelay _ _ w"] updateRelay_def)
qed

lemma truncate_simps [simp]:
  fixes s :: relay_session
  shows "ssConnectionId (session.truncate s) = ssConnectionId s" "ssStatus (session.truncate s) = ssStatus s"
  by (simp_all add: session.defs)

lemma extend_base [simp]:
  fixes b :: session and m :: relay_session
  shows "ssConnectionId (session.extend b (session.more m) :: relay_session) = ssConnectionId b"
    "ssStatus (session.extend b (session.more m) :: relay_session) = ssStatus b"
  by (simp_all add: session.defs)

lemma extend_relay [simp]:
  fixes b :: session and s :: relay_session
  shows "rlOtpRelayReady (session.extend b (session.more s)) = rlOtpRelayReady s"
    "rlOtpRelayOnline (session.extend b (session.more s)) = rlOtpRelayOnline s"
    "rlOtpRequested (session.extend b (session.more s)) = rlOtpRequested s"
    "rlOtpRequestEpoch (session.extend b (session.more s)) = rlOtpRequestEpoch s"
    "rlTunnelRequested (session.extend b (session.more s)) = rlTunnelRequested s"
    "rlTunnelDeviceId (session.extend b (session.more s)) = rlTunnelDeviceId s"
    "rlTunnelClaimedAt (session.extend b (session.more s)) = rlTunnelClaimedAt s"
  by (cases s; simp add: session.defs)+

lemma relayInv_lifecycle:
  assumes inv: "relayInv w" and "releases p f" "neverActivates p f"
  shows "relayInv (baseUpdate p f w)"
  unfolding baseUpdate_def
proof (rule relayInv_update [OF inv])
  fix i s assume "mget (rySessions w) i = Some s" and p: "p i (session.truncate s)" and ok: "rowOk (ryDevices w) s"
  let ?t = "session.extend (f (session.truncate s)) (session.more s)"
  have "active (f (session.truncate s)) \<longrightarrow> live s"
    using assms(3) p unfolding neverActivates_def by (metis truncate_simps(2))
  then have "rowOk (ryDevices w) ?t" by (intro rowOk_frame [OF ok]) auto
  moreover have "ssConnectionId (f (session.truncate s)) = ssConnectionId s
      \<and> (locked (f (session.truncate s)) \<longrightarrow> ssStatus s \<in> set LOCKED_SESSION_STATUSES)"
    using assms(2) p unfolding releases_def by (metis truncate_simps)
  ultimately show "ssConnectionId ?t = ssConnectionId s
      \<and> (ssStatus ?t \<in> set LOCKED_SESSION_STATUSES \<longrightarrow> ssStatus s \<in> set LOCKED_SESSION_STATUSES)
      \<and> rowOk (ryDevices w) ?t"
    by simp
qed

lemma relayInv_create:
  assumes inv: "relayInv w" and fresh: "\<not> mhas (rySessions w) newId" and nolock: "\<not> relayHoldsLock (csConnectionId input) w"
  shows "relayInv (w\<lparr>rySessions := mput newId (freshRelay now (newSession env now input)) (rySessions w)\<rparr>)"
proof -
  let ?r = "freshRelay now (newSession env now input)"
  have r: "ssConnectionId ?r = csConnectionId input" "rowOk (ryDevices w) ?r"
    by (simp_all add: freshRelay_def newSession_def rowOk_def)
  have "\<not> (ssConnectionId s = csConnectionId input \<and> ssStatus s \<in> set LOCKED_SESSION_STATUSES)"
    if "mget (rySessions w) i = Some s" for i s
    using that nolock by (auto simp: relayHoldsLock_def mget_def dest: map_of_SomeD)
  with inv r have "relayLock (mput newId ?r (rySessions w))"
    unfolding relayInv_def relayLock_def by (auto split: if_splits dest: sym)
  with inv r show ?thesis by (auto simp: relayInv_def)
qed

lemma relayInv_sweep:
  "relayInv w \<Longrightarrow> relayInv (w\<lparr>rySessions := filter (\<lambda>(i, s). i \<notin> expired) (rySessions w)\<rparr>)"
proof -
  assume inv: "relayInv w"
  then have d: "distinct (mkeys (rySessions w))" by (simp add: relayInv_def)
  have m: "mget (filter (\<lambda>(i, s). i \<notin> expired) rows) i = Some s \<Longrightarrow> mget rows i = Some s"
    if "distinct (mkeys rows)" for rows :: "relay_session jsmap" and i s
    using that by (auto simp: mget_def mkeys_def dest!: map_of_SomeD)
  have "distinct (mkeys (filter (\<lambda>(i, s). i \<notin> expired) (rySessions w)))"
    using d by (simp add: mkeys_def distinct_map_filter)
  then show ?thesis
    using inv m [OF d] unfolding relayInv_def relayLock_def by (auto) blast
qed

lemma relayInv_step: "relay_step w w' \<Longrightarrow> relayInv w \<Longrightarrow> relayInv w'"
proof (induction rule: relay_step.induct)
  case (verify w sha now presented)
  then show ?case
    by (auto simp: verifyDeviceToken_def intro!: relayInv_devices split: option.splits)
next
  case (push w now ctx transport token)
  then show ?case by (auto simp: updateDevicePush_def intro!: relayInv_devices)
next
  case (clear_push w did owner token)
  then show ?case by (auto simp: clearDevicePushToken_def Let_def intro!: relayInv_devices)
next
  case (claim w now sid did)
  then show ?case
    by (auto simp: loadTunnelContext_def Let_def rowOk_def intro!: relayInv_update split: option.splits)
next
  case (release w sid)
  then show ?case by (auto simp: releaseTunnelClaim_def rowOk_def intro!: relayInv_update)
next
  case (relay_mode w sid epoch m)
  then show ?case by (auto simp: markOtpRelayMode_def Let_def rowOk_def intro!: relayInv_update)
next
  case (relay_status w now sid ctx sms ready)
  then show ?case
    by (auto simp: markOtpRelayStatus_def ownedBy_def Let_def rowOk_def locked_simps intro!: relayInv_update
        split: option.splits if_splits)
next
  case (write_otp w sid code key)
  then show ?case by (auto simp: writeOtp_def Let_def rowOk_def intro!: relayInv_update)
next
  case (open_episode w now sid)
  then show ?case by (auto simp: openEpisode_def Let_def rowOk_def intro!: relayInv_update)
next
  case (begin_wait w sid)
  then show ?case by (auto simp: beginWait_def rowOk_def locked_simps intro!: relayInv_update)
next
  case (consume w now sid)
  then have "relayInv (updateRelay (\<lambda>i s. i = sid) (closeEpisode now) w)"
    if "mget (rySessions w) sid = Some s" "live s" for s
    using that by (auto simp: closeEpisode_def rowOk_def locked_simps intro!: relayInv_update)
  with consume show ?case
    by (auto simp: consumeOtp_def emitEvent_def relayInv_def split: option.splits)
next
  case (status w now sid st currentStep n)
  have "relayInv (updateRelay (\<lambda>i s. i = sid \<and> live s) (progressRow now st currentStep n) w)"
  proof (rule relayInv_update [OF status])
    fix i s assume "i = sid \<and> live s" "rowOk (ryDevices w) s"
    then show "ssConnectionId (progressRow now st currentStep n s) = ssConnectionId s
        \<and> (ssStatus (progressRow now st currentStep n s) \<in> set LOCKED_SESSION_STATUSES \<longrightarrow>
           ssStatus s \<in> set LOCKED_SESSION_STATUSES)
        \<and> rowOk (ryDevices w) (progressRow now st currentStep n s)"
      using rowOk_progressRow by (simp add: locked_simps) (simp add: progressRow_def)
  qed
  with status show ?case
    by (auto simp: updateStatus_def emitEvent_def relayInv_def split: option.splits)
next
  case (engine_heartbeat w now sid)
  then show ?case by (auto simp: heartbeatEngine_def rowOk_def intro!: relayInv_update)
next
  case (event w sid type data)
  then show ?case by (simp add: emitEvent_def relayInv_def)
qed (auto intro: relayInv_pair relayInv_revoke relayInv_bind relayInv_complete relayInv_create relayInv_lifecycle relayInv_sweep)

lemma relayInv_initial: "rySessions w = [] \<Longrightarrow> ryDevices w = [] \<Longrightarrow> relayInv w"
  by (simp add: relayInv_def relayLock_def tokensDistinct_def mkeys_def)

interpretation relay: safety_invariant "\<lambda>w. rySessions w = [] \<and> ryDevices w = []" relay_step relayInv
  by unfold_locales (blast intro: relayInv_initial relayInv_step)+

end
