(* ===== verification/CompanionProtocol.thy ===== *)
theory CompanionProtocol
  imports RelaySafety
begin

text \<open>
  The guarantees of the companion protocol, over the transition system of \<^verbatim>\<open>RelaySafety\<close>: the
  invariant of the shared tables, revocation, the path of a one-time code from a text message to the
  waiting crawl, completion against cancellation, and the replay of events.
\<close>

section \<open>Example states\<close>

definition demoSession :: relay_session where
  "demoSession = freshRelay 0 (newSession None 0
     \<lparr>csConnectionId = ''conn'', csLeaseOwner = ''worker'', csLeaseMs = 60000,
      csExpectedScheduleRevision = None, csExpectedScheduleClaim = None\<rparr>)"

definition demoDevice :: device where
  "demoDevice = \<lparr>dvOwnerSubject = ''owner'', dvName = ''phone'', dvHashedToken = ''hash'', dvConnectionGrants = [''conn''],
     dvPushTransport = None, dvPushToken = None, dvPairedAt = 0, dvLastSeenAt = None, dvRevokedAt = None\<rparr>"

definition demoRelay :: "device jsmap \<Rightarrow> relay_session jsmap \<Rightarrow> relay_world" where
  "demoRelay devices rows =
     \<lparr>ryDevices = devices, rySessions = rows,
      ryConnections = [(''conn'', \<lparr>rcOwnerSubject = ''owner'', rcInstitutionId = ''bank'', rcNickname = None\<rparr>)],
      ryInstitutions = [(''bank'', \<lparr>riName = ''Bank'', riOtpSenderPattern = Some ''BANKCO'', riUseDeviceProxy = True\<rparr>)],
      ryKeys = [], ryEvents = [], ryStaged = []\<rparr>"

definition demoContext :: device_context where
  "demoContext = contextOf ''dev'' demoDevice"

section \<open>The shared tables\<close>


lemma demo_reachable: "relay_step\<^sup>*\<^sup>* (demoRelay [] []) (demoRelay [] [(''s'', demoSession)])"
proof -
  have "relay_step (demoRelay [] [])
      ((demoRelay [] [])\<lparr>rySessions := mput ''s'' (freshRelay 0 (newSession None 0
         \<lparr>csConnectionId = ''conn'', csLeaseOwner = ''worker'', csLeaseMs = 60000,
          csExpectedScheduleRevision = None, csExpectedScheduleClaim = None\<rparr>)) (rySessions (demoRelay [] []))\<rparr>)"
    by (rule relay_step.create) (simp_all add: demoRelay_def relayHoldsLock_def)
  also have "(demoRelay [] [])\<lparr>rySessions := mput ''s'' (freshRelay 0 (newSession None 0
         \<lparr>csConnectionId = ''conn'', csLeaseOwner = ''worker'', csLeaseMs = 60000,
          csExpectedScheduleRevision = None, csExpectedScheduleClaim = None\<rparr>)) (rySessions (demoRelay [] []))\<rparr>
      = demoRelay [] [(''s'', demoSession)]"
    by (simp add: demoRelay_def demoSession_def mput_def)
  finally show ?thesis by blast
qed


section \<open>Revocation\<close>

definition isRevoked :: "string \<Rightarrow> string \<Rightarrow> relay_world \<Rightarrow> bool" where
  "isRevoked did token w = (\<exists>d. mget (ryDevices w) did = Some d \<and> dvRevokedAt d \<noteq> None \<and> dvHashedToken d = token)"

lemma isRevoked_updateDevices:
  "(\<And>d. dvRevokedAt d \<noteq> None \<Longrightarrow> dvRevokedAt (f d) \<noteq> None) \<Longrightarrow> (\<And>d. dvHashedToken (f d) = dvHashedToken d) \<Longrightarrow>
     isRevoked did token w \<Longrightarrow> isRevoked did token (updateDevices p f w)"
proof -
  assume f: "\<And>d. dvRevokedAt d \<noteq> None \<Longrightarrow> dvRevokedAt (f d) \<noteq> None" "\<And>d. dvHashedToken (f d) = dvHashedToken d"
    and "isRevoked did token w"
  then obtain d where d: "mget (ryDevices w) did = Some d" "dvRevokedAt d \<noteq> None" "dvHashedToken d = token"
    by (auto simp: isRevoked_def)
  then have "mget (ryDevices (updateDevices p f w)) did = Some (if p did d then f d else d)"
    by (simp add: updateDevices_def mget_updateRows)
  then show ?thesis using f d by (auto simp: isRevoked_def)
qed

lemma isRevoked_frame: "ryDevices w' = ryDevices w \<Longrightarrow> isRevoked did token w' = isRevoked did token w"
  by (simp add: isRevoked_def)

lemma ryDevices_updateRelay [simp]: "ryDevices (updateRelay p f w) = ryDevices w"
  by (simp add: updateRelay_def)

lemma ryDevices_complete: "completeSession now sid success err results w = Inr w' \<Longrightarrow> ryDevices w' = ryDevices w"
  by (auto simp: completeSession_def Let_def emitEvent_def stageRecords_def split: if_splits option.splits)

lemma isRevoked_step: "relay_step w w' \<Longrightarrow> isRevoked did token w \<Longrightarrow> isRevoked did token w'"
proof (induction rule: relay_step.induct)
  case (pair sha random newId now input owner w w' i plaintext)
  then show ?case
    by (auto simp: pairDevice_def Let_def isRevoked_def mhas_def split: prod.splits if_splits)
next
  case (verify w sha now presented)
  then show ?case
    by (auto simp: verifyDeviceToken_def intro!: isRevoked_updateDevices split: option.splits)
next
  case (revoke w now did' owner hash)
  have "isRevoked did token (updateDevices (activeDevice did' owner hash) (\<lambda>d. d\<lparr>dvRevokedAt := Some now\<rparr>) w)"
    by (rule isRevoked_updateDevices) (use revoke in auto)
  with revoke show ?case by (auto simp: revokeDeviceAccess_def Let_def isRevoked_def)
next
  case (push w now ctx transport tok)
  then show ?case by (auto simp: updateDevicePush_def intro!: isRevoked_updateDevices)
next
  case (clear_push w did owner tok)
  then show ?case by (auto simp: clearDevicePushToken_def Let_def intro!: isRevoked_updateDevices)
next
  case (complete now sid success err results w w')
  then show ?case using ryDevices_complete isRevoked_frame by metis
qed (auto simp: isRevoked_def bindSelected_def loadTunnelContext_def releaseTunnelClaim_def markOtpRelayMode_def
    markOtpRelayStatus_def writeOtp_def openEpisode_def beginWait_def consumeOtp_def updateStatus_def
    heartbeatEngine_def emitEvent_def baseUpdate_def Let_def split: option.splits)

lemma isRevoked_steps: "relay_step\<^sup>*\<^sup>* w w' \<Longrightarrow> isRevoked did token w \<Longrightarrow> isRevoked did token w'"
  by (induction rule: rtranclp_induct) (auto intro: isRevoked_step)

lemma revoked_not_found:
  assumes "relayInv w" and "isRevoked did token w"
    and "\<And>i d. p i d \<Longrightarrow> i = did \<and> dvRevokedAt d = None"
  shows "findDevice p w = None"
proof (cases "findDevice p w")
  case (Some a)
  obtain i d where a: "a = (i, d)" by fastforce
  with Some findDevice_mget [of w p i d] assms(1) have "mget (ryDevices w) i = Some d" "p i d"
    by (auto simp: relayInv_def)
  with assms(2,3) show ?thesis unfolding isRevoked_def by fastforce
qed simp


definition demoRevoked :: relay_world where
  "demoRevoked = fst (revokeDeviceAccess 1 ''dev'' ''owner'' None (demoRelay [(''dev'', demoDevice)] []))"

lemma demoRevoked_ok: "relayInv demoRevoked" "isRevoked ''dev'' ''hash'' demoRevoked"
proof -
  have "relayInv (demoRelay [(''dev'', demoDevice)] [])"
    by (simp add: relayInv_def demoRelay_def mkeys_def relayLock_def tokensDistinct_def mget_Cons)
  then show "relayInv demoRevoked" unfolding demoRevoked_def by (rule relayInv_revoke)
  show "isRevoked ''dev'' ''hash'' demoRevoked"
    by (simp add: demoRevoked_def revokeDeviceAccess_def demoRelay_def demoDevice_def findDevice_def activeDevice_def
        isRevoked_def updateDevices_def updateRelay_def updateRows_def mget_Cons)
qed


lemma find_append_None: "find p xs = None \<Longrightarrow> find p (xs @ ys) = find p ys"
  by (induction xs) (auto split: if_splits)

text \<open>
  Pairing a phone yields a token that authenticates exactly that phone, with the owner and the
  connections it was paired for.
\<close>

theorem device_token_roundtrip:
  assumes "pairDevice sha random newId now input owner w = Inr (w', did, plaintext)" and "relayInv w"
  shows "did = newId \<and> snd (verifyDeviceToken sha now' plaintext w') =
    Some \<lparr>dcId = newId, dcName = piName input, dcOwnerSubject = owner,
          dcCredentialHash = hashDeviceToken sha plaintext,
          dcConnectionGrants = (case piConnectionGrants input of Some g \<Rightarrow> g | None \<Rightarrow> [])\<rparr>"
proof -
  from assms(1) have fresh: "\<not> mhas (ryDevices w) newId" "did = newId"
    and plain: "plaintext = DEVICE_PREFIX @ b64url_encode random"
    and unused: "\<forall>(i, d) \<in> set (ryDevices w). dvHashedToken d \<noteq> hashDeviceToken sha plaintext"
    by (auto simp: pairDevice_def generateDeviceToken_def Let_def split: prod.splits if_splits)
  let ?tok = "\<lambda>i d. dvHashedToken d = hashDeviceToken sha plaintext"
  have "find (\<lambda>(i, d). ?tok i d) (ryDevices w) = None"
    using unused by (auto simp: find_None_iff)
  then have skip: "find (\<lambda>(i, d). ?tok i d) (ryDevices w @ xs) = find (\<lambda>(i, d). ?tok i d) xs" for xs
    by (rule find_append_None)
  from assms(1) fresh have "\<exists>d. ryDevices w' = ryDevices w @ [(newId, d)] \<and> contextOf newId d =
      \<lparr>dcId = newId, dcName = piName input, dcOwnerSubject = owner, dcCredentialHash = hashDeviceToken sha plaintext,
       dcConnectionGrants = (case piConnectionGrants input of Some g \<Rightarrow> g | None \<Rightarrow> [])\<rparr>
      \<and> dvHashedToken d = hashDeviceToken sha plaintext \<and> dvRevokedAt d = None"
    by (auto simp: pairDevice_def generateDeviceToken_def Let_def contextOf_def mput_fresh split: prod.splits if_splits)
  then show ?thesis
    using skip fresh plain by (auto simp: verifyDeviceToken_def findDevice_def)
qed

definition zeroSha :: digest where
  "zeroSha s = replicate 32 0"

definition demoPair :: pair_input where
  "demoPair = \<lparr>piName = ''phone'', piConnectionGrants = Some [''conn''], piPushTransport = None, piPushToken = None\<rparr>"

theorem device_token_roundtrip_witness:
  "\<exists>w' plaintext. pairDevice zeroSha [1, 2, 3] ''dev'' 0 demoPair ''owner'' (demoRelay [] []) = Inr (w', ''dev'', plaintext)
     \<and> map_option dcConnectionGrants (snd (verifyDeviceToken zeroSha 5 plaintext w')) = Some [''conn'']"
proof -
  obtain w' did plaintext where p:
    "pairDevice zeroSha [1, 2, 3] ''dev'' 0 demoPair ''owner'' (demoRelay [] []) = Inr (w', did, plaintext)"
    by (simp add: pairDevice_def generateDeviceToken_def demoRelay_def Let_def)
  have "relayInv (demoRelay [] [])" by (simp add: relayInv_initial demoRelay_def)
  from device_token_roundtrip [OF p this, of 5] p show ?thesis by (auto simp: demoPair_def)
qed

section \<open>From the text message to the crawl\<close>

lemma matching_mget:
  "distinct (mkeys rows) \<Longrightarrow> matching (\<lambda>i r. i = k \<and> p r) rows \<noteq> [] \<longleftrightarrow> (\<exists>r. mget rows k = Some r \<and> p r)"
  by (auto simp: matching_def filter_empty_conv mget_def mkeys_def dest: map_of_SomeD)

lemma checkSms_Inr:
  assumes "checkSms sha input dev w = Inr (conn, name, key)"
  shows "\<exists>s c inst. mget (rySessions w) (smSessionId input) = Some s \<and> joined w s = Some (c, inst)
    \<and> ssConnectionId s = conn \<and> riName inst = name \<and> ssStatus s = WaitingForOtp
    \<and> senderMatches (smSender input) (riOtpSenderPattern inst) \<and> rlOtpRequestEpoch s = smOtpRequestEpoch input
    \<and> key = otpSmsIdempotencyKey sha (smSessionId input) (smOtpRequestEpoch input) (smSmsBody input)"
  using assms by (auto simp: checkSms_def Let_def split: option.splits if_splits)

lemma finishSms_authorised:
  assumes "finishSms others input dev conn key code w = (w', SmsSubmitted r)"
  shows "submitOtp others (smSessionId input) code (Some key) w = (w', r)
    \<and> (\<forall>d. dev = Some d \<longrightarrow> (\<exists>a. lockActiveDevice (dcId d) (dcOwnerSubject d) (Some (dcCredentialHash d)) w = Some a
         \<and> conn \<in> set (dcConnectionGrants a)))"
  using assms by (cases "submitOtp others (smSessionId input) code (Some key) w")
    (auto simp: finishSms_def split: option.splits if_splits)

lemma submitOtp_accepted:
  assumes "submitOtp others sid code key w = (w', Accepted)" and "distinct (mkeys (rySessions (others w)))"
  shows "(\<exists>s. mget (rySessions w) sid = Some s \<and> w' = w \<and> truthy key \<and> rlOtpIdempotencyKey s = key)
    \<or> (\<exists>t. mget (rySessions (others w)) sid = Some t \<and> ssStatus t = WaitingForOtp
         \<and> mget (rySessions w') sid = Some (t\<lparr>rlOtp := Some code, rlOtpIdempotencyKey := key\<rparr>))"
  using assms matching_mget [OF assms(2), of sid "\<lambda>s. ssStatus s = WaitingForOtp"]
  by (auto simp: submitOtp_def writeOtp_def Let_def updateRelay_def mget_updateRows split: option.splits if_splits)


text \<open>A waiting crawl, the operator's own code and the request that follows it.\<close>

definition demoWaiting :: relay_world where
  "demoWaiting = demoRelay [] [(''s'', demoSession\<lparr>ssStatus := WaitingForOtp, rlOtpRequested := True, rlOtpRequestEpoch := 1\<rparr>)]"

definition demoSms :: sms_input where
  "demoSms = \<lparr>smSessionId = ''s'', smSmsBody = ''Your code: 482910'', smSender = '' bankco '', smOtpRequestEpoch = 1\<rparr>"

definition operatorTypesFirst :: interference where
  "operatorTypesFirst w =
     beginWait ''s'' (fst (openEpisode 3 ''s'' (fst (consumeOtp 2 ''s'' (fst (writeOtp ''s'' ''111222'' None w))))))"

lemma operatorTypesFirst_steps: "relay_step\<^sup>*\<^sup>* w (operatorTypesFirst w)"
  unfolding operatorTypesFirst_def
  by (rule rtranclp.rtrancl_into_rtrancl [OF rtranclp.rtrancl_into_rtrancl [OF rtranclp.rtrancl_into_rtrancl
        [OF r_into_rtranclp [of relay_step, OF relay_step.write_otp] relay_step.consume] relay_step.open_episode] relay_step.begin_wait])

lemma demo_sms:
  "snd (submitOtpFromSms zeroSha (demoModel ''482910'') id id demoSms None demoWaiting) = SmsSubmitted Accepted"
  "snd (submitOtpFromSms zeroSha (demoModel ''482910'') operatorTypesFirst id demoSms None demoWaiting) = SmsSubmitted Accepted"
  "map_option (\<lambda>s. (rlOtp s, rlOtpRequestEpoch s)) (mget (rySessions
     (fst (submitOtpFromSms zeroSha (demoModel ''482910'') operatorTypesFirst id demoSms None demoWaiting))) ''s'')
   = Some (Some ''482910'', 2)"
  by code_simp+



section \<open>Waiting for a code\<close>

text \<open>
  With no phone authorised for the connection, the control plane settles a freshly opened code
  request as a manual one, and the engine's wait for a phone ends at its first look at the row
  instead of running into the readiness deadline.
\<close>

theorem no_phone_falls_back_to_operator:
  assumes s: "mget (rySessions w) sid = Some s" "live s" "\<not> rlOtpRequested s" and inv: "relayInv w"
    and j: "joined w s = Some (c, inst)" and none: "countRelayAuthorizedDevices (rcOwnerSubject c) (ssConnectionId s) w = 0"
  shows "snd (prepareOtp now offlineMs busyMs others sid
           ((elapsed, \<lambda>v. fst (armOtpRelayEpisode id sid v)) # turns) w) = Some None"
proof -
  define s1 where "s1 = s\<lparr>rlOtpRequested := True, rlOtpRequestedAt := Some now, rlOtpRequestEpoch := rlOtpRequestEpoch s + 1,
     rlOtpRelayOnline := False, rlOtpRelayOnlineAt := None, rlOtpRelayReady := False, rlOtpRelayReadyAt := None,
     rlOtpRelayMode := None\<rparr>"
  let ?w1 = "fst (openEpisode now sid w)"
  let ?w2 = "emitEvent sid ''otp_requested'' (JObj []) ?w1"
  have keys: "distinct (mkeys (rySessions w))" using inv by (simp add: relayInv_def)
  have opened: "openEpisode now sid w = (?w1, True)"
    using matching_mget [OF keys, of sid "\<lambda>s. live s \<and> \<not> rlOtpRequested s"] s
    by (simp add: openEpisode_def Let_def)
  have row: "mget (rySessions ?w2) sid = Some s1"
    using s by (simp add: emitEvent_def openEpisode_def Let_def updateRelay_def mget_updateRows s1_def)
  have frame: "ryConnections ?w2 = ryConnections w" "ryInstitutions ?w2 = ryInstitutions w" "ryDevices ?w2 = ryDevices w"
    by (simp_all add: emitEvent_def openEpisode_def Let_def updateRelay_def)
  have s1: "ssConnectionId s1 = ssConnectionId s" "ssStatus s1 = ssStatus s" "rlOtpRequested s1"
    by (simp_all add: s1_def)
  have j2: "joined ?w2 s1 = Some (c, inst)" using j frame s1 by (simp add: joined_def cong: option.case_cong)
  have "countRelayAuthorizedDevices (rcOwnerSubject c) (ssConnectionId s1) ?w2 = 0"
    using none frame s1 by (simp add: countRelayAuthorizedDevices_def)
  then have "fst (armOtpRelayEpisode id sid ?w2) = fst (markOtpRelayMode sid (rlOtpRequestEpoch s1) Manual ?w2)"
    using row j2 s1 s by (auto simp: armOtpRelayEpisode_def getCompanionOtpWakeContext_def otpRelayModeFor_def Let_def split: prod.splits)
  then have "mget (rySessions (fst (armOtpRelayEpisode id sid ?w2))) sid = Some (s1\<lparr>rlOtpRelayMode := Some Manual\<rparr>)"
    using row s1 s by (simp add: markOtpRelayMode_def Let_def updateRelay_def mget_updateRows)
  moreover have "prepareOtp now offlineMs busyMs others sid ts w = preparePoll offlineMs busyMs False sid ts ?w2" for ts
    unfolding prepareOtp_def by (subst opened) simp
  ultimately show ?thesis using s1 s by (simp add: Let_def)
qed

definition demoUnpaired :: relay_world where
  "demoUnpaired = demoRelay [] [(''s'', demoSession)]"

theorem no_phone_falls_back_to_operator_witness:
  "snd (prepareOtp 1 90000 300000 id ''s'' [(0, \<lambda>v. fst (armOtpRelayEpisode id ''s'' v))] demoUnpaired) = Some None"
proof (rule no_phone_falls_back_to_operator)
  show "mget (rySessions demoUnpaired) ''s'' = Some demoSession"
    by (simp add: demoUnpaired_def demoRelay_def mget_Cons)
  show "live demoSession" "\<not> rlOtpRequested demoSession"
    by (simp_all add: demoSession_def freshRelay_def newSession_def locked_simps)
  show "relayInv demoUnpaired"
    unfolding demoUnpaired_def using relay.steps_inv [OF demo_reachable] by (simp add: relayInv_initial demoRelay_def)
  show "joined demoUnpaired demoSession = Some (\<lparr>rcOwnerSubject = ''owner'', rcInstitutionId = ''bank'', rcNickname = None\<rparr>,
      \<lparr>riName = ''Bank'', riOtpSenderPattern = Some ''BANKCO'', riUseDeviceProxy = True\<rparr>)"
    by code_simp
  show "countRelayAuthorizedDevices (rcOwnerSubject \<lparr>rcOwnerSubject = ''owner'', rcInstitutionId = ''bank'', rcNickname = None\<rparr>)
      (ssConnectionId demoSession) demoUnpaired = 0"
    by (simp add: countRelayAuthorizedDevices_def demoUnpaired_def demoRelay_def)
qed

section \<open>Completion, cancellation and revocation\<close>

text \<open>
  The engine's outcome and a cancellation are decided by whichever commits first. Once a session is
  being cancelled, completing it stages nothing, leaves its status alone and reports no success; once
  a success is recorded, a cancellation request is refused and the status is left for the promotion.
\<close>

theorem completion_or_cancellation:
  assumes c: "completeSession now sid success err results w = Inr w'" and s: "mget (rySessions w) sid = Some s"
  shows "\<exists>t e. mget (rySessions w') sid = Some t \<and> ryEvents w' = ryEvents w @ [e] \<and> reSessionId e = sid \<and> reType e = ''done''
    \<and> (ssStatus s \<in> {Cancelling, Cancelled} \<longrightarrow>
         ssStatus t = ssStatus s \<and> ryStaged w' = ryStaged w \<and> reData e = doneData True success results)
    \<and> (ssStatus s \<notin> {Cancelling, Cancelled} \<longrightarrow> live s \<and> reData e = doneData False success results
         \<and> ryStaged w' = ryStaged w @ map (\<lambda>d. (sid, StagedAccount, d)) (coAccounts results)
             @ map (\<lambda>d. (sid, StagedTransaction, d)) (coTransactions results)
             @ map (\<lambda>d. (sid, StagedPosition, d)) (coPositions results)
         \<and> (\<not> success \<longrightarrow> ssStatus t = Failed)
         \<and> (success \<longrightarrow> ssStatus t = ssStatus s
             \<and> requestSessionCancellation sid (base\<lparr>wSessions := sessionsOf w'\<rparr>) = (base\<lparr>wSessions := sessionsOf w'\<rparr>, AlreadyTerminal)))"
proof -
  define cr where "cr = (ssStatus s = Cancelling \<or> ssStatus s = Cancelled)"
  let ?t = "outcomeRow now cr success err results s"
  have live: "\<not> cr \<Longrightarrow> live s" using c s by (auto simp: completeSession_def cr_def split: if_splits)
  have row: "mget (rySessions w') sid = Some ?t"
    using c s by (auto simp: completeSession_def cr_def Let_def emitEvent_def stageRecords_def updateRelay_def mget_updateRows
        split: if_splits)
  have staged: "ryStaged w' = (if cr then ryStaged w else ryStaged w @ map (\<lambda>d. (sid, StagedAccount, d)) (coAccounts results)
      @ map (\<lambda>d. (sid, StagedTransaction, d)) (coTransactions results) @ map (\<lambda>d. (sid, StagedPosition, d)) (coPositions results))"
    using c s by (auto simp: completeSession_def cr_def Let_def emitEvent_def stageRecords_def updateRelay_def split: if_splits)
  have event: "\<exists>e. ryEvents w' = ryEvents w @ [e] \<and> reSessionId e = sid \<and> reType e = ''done'' \<and> reData e = doneData cr success results"
    using c s by (auto simp: completeSession_def cr_def Let_def emitEvent_def stageRecords_def updateRelay_def split: if_splits)
  have view: "mget (sessionsOf w') sid = Some (session.truncate ?t)"
    using row unfolding sessionsOf_def mget_def by (simp add: map_of_map_val [where f = "\<lambda>i s. session.truncate s"])
  have "requestSessionCancellation sid (base\<lparr>wSessions := sessionsOf w'\<rparr>) = (base\<lparr>wSessions := sessionsOf w'\<rparr>, AlreadyTerminal)"
    if "\<not> cr" "success"
  proof -
    have "ssPromotionReadyAt (session.truncate ?t) \<noteq> None" using that by (simp add: session.defs outcomeRow_def)
    then show ?thesis using view that by (simp add: requestSessionCancellation_def cr_def)
  qed
  with row staged event live show ?thesis
    by (intro exI [of _ ?t]) (auto simp: cr_def)
qed

definition demoResults :: completion_results where
  "demoResults = \<lparr>coAccounts = [JNull], coTransactions = [], coPositions = [], coCost = None, coCrawlMemory = None,
     coFailureReason = None\<rparr>"

theorem completion_or_cancellation_witness:
  "\<exists>w'. completeSession 9 ''s'' True None demoResults demoUnpaired = Inr w'
     \<and> ryStaged w' = [(''s'', StagedAccount, JNull)]
     \<and> (\<forall>base. snd (requestSessionCancellation ''s'' (base\<lparr>wSessions := sessionsOf w'\<rparr>)) = AlreadyTerminal)"
proof -
  have s: "mget (rySessions demoUnpaired) ''s'' = Some demoSession" "ssStatus demoSession = Starting" "ryStaged demoUnpaired = []"
    by (simp_all add: demoUnpaired_def demoRelay_def mget_Cons demoSession_def freshRelay_def newSession_def)
  then obtain w' where w': "completeSession 9 ''s'' True None demoResults demoUnpaired = Inr w'"
    by (simp add: completeSession_def Let_def locked_simps)
  have "snd (requestSessionCancellation ''s'' (base\<lparr>wSessions := sessionsOf w'\<rparr>)) = AlreadyTerminal
      \<and> ryStaged w' = [(''s'', StagedAccount, JNull)]" for base
    using completion_or_cancellation [OF w' s(1), of base] s by (auto simp: demoResults_def)
  with w' show ?thesis by blast
qed

text \<open>
  Revoking a phone overrides a recorded success. Where a cancellation request is refused because
  the engine's success is already recorded, revoking the bound phone still moves the session to
  cancelling; from there it can only end as cancelled or failed, although its data may be promoted.
\<close>

theorem revocation_overrides_completion:
  assumes found: "findDevice (activeDevice did owner hash) w = Some a"
    and s: "mget (rySessions w) sid = Some s" "live s" "rlTunnelDeviceId s = Some did" "ssPromotionReadyAt s \<noteq> None"
  shows "snd (requestSessionCancellation sid (base\<lparr>wSessions := sessionsOf w\<rparr>)) = AlreadyTerminal
    \<and> map_option ssStatus (mget (rySessions (fst (revokeDeviceAccess now did owner hash w))) sid) = Some Cancelling"
proof -
  have "mget (sessionsOf w) sid = Some (session.truncate s)"
    using s(1) unfolding sessionsOf_def mget_def by (simp add: map_of_map_val [where f = "\<lambda>i s. session.truncate s"])
  then have "snd (requestSessionCancellation sid (base\<lparr>wSessions := sessionsOf w\<rparr>)) = AlreadyTerminal"
    using s by (auto simp: requestSessionCancellation_def session.defs locked_simps)
  moreover have "map_option ssStatus (mget (rySessions (fst (revokeDeviceAccess now did owner hash w))) sid) = Some Cancelling"
    using found s by (simp add: revokeDeviceAccess_def Let_def updateRelay_def updateDevices_def mget_updateRows)
  ultimately show ?thesis ..
qed

definition demoReady :: relay_world where
  "demoReady = demoRelay [(''dev'', demoDevice)]
     [(''s'', demoSession\<lparr>rlTunnelRequested := True, rlTunnelDeviceId := Some ''dev'', ssPromotionReadyAt := Some 5\<rparr>)]"

theorem revocation_overrides_completion_witness:
  "map_option ssStatus (mget (rySessions (fst (revokeDeviceAccess 6 ''dev'' ''owner'' None demoReady))) ''s'') = Some Cancelling"
proof -
  have "findDevice (activeDevice ''dev'' ''owner'' None) demoReady = Some (''dev'', demoDevice)" by code_simp
  from revocation_overrides_completion [OF this, of "''s''"
      "demoSession\<lparr>rlTunnelRequested := True, rlTunnelDeviceId := Some ''dev'', ssPromotionReadyAt := Some 5\<rparr>"]
  show ?thesis
    by (simp add: demoReady_def demoRelay_def mget_Cons demoSession_def freshRelay_def newSession_def locked_simps)
qed

section \<open>Replaying events\<close>

definition eventsOf :: "string \<Rightarrow> relay_world \<Rightarrow> relay_event list" where
  "eventsOf sid w = filter (\<lambda>e. reSessionId e = sid) (ryEvents w)"

definition logOk :: "relay_world \<Rightarrow> bool" where
  "logOk w = (\<forall>sid. map reSeq (eventsOf sid w) = [1..<Suc (length (eventsOf sid w))])"

lemma fold_max_upt: "fold max [1..<Suc n] (0::nat) = n"
  by (induction n) simp_all

lemma nextSeq_logOk: "logOk w \<Longrightarrow> nextSeq sid w = Suc (length (eventsOf sid w))"
  using fold_max_upt [of "length (eventsOf sid w)"]
  unfolding logOk_def nextSeq_def eventsOf_def by (metis Suc_eq_plus1)

lemma eventsOf_emit:
  "eventsOf sid (emitEvent sid' type data w) =
     eventsOf sid w @ (if sid' = sid then [\<lparr>reSessionId = sid', reSeq = nextSeq sid' w, reType = type, reData = data\<rparr>] else [])"
  by (simp add: eventsOf_def emitEvent_def)

lemma logOk_emit: "logOk w \<Longrightarrow> logOk (emitEvent sid type data w)"
  unfolding logOk_def using nextSeq_logOk [of w] by (auto simp: eventsOf_emit logOk_def)

lemma eventsOf_frame: "ryEvents w' = ryEvents w \<Longrightarrow> eventsOf sid w' = eventsOf sid w"
  by (simp add: eventsOf_def)

definition extendsLog :: "relay_world \<Rightarrow> relay_world \<Rightarrow> bool" where
  "extendsLog w w' = (logOk w' \<and> (\<forall>sid. \<exists>es. eventsOf sid w' = eventsOf sid w @ es))"

lemma extendsLog_frame: "logOk w \<Longrightarrow> ryEvents w' = ryEvents w \<Longrightarrow> extendsLog w w'"
  by (simp add: extendsLog_def logOk_def eventsOf_def)

lemma extendsLog_emit: "logOk w \<Longrightarrow> ryEvents v = ryEvents w \<Longrightarrow> extendsLog w (emitEvent sid type data v)"
proof -
  assume "logOk w" "ryEvents v = ryEvents w"
  then have "logOk v" by (simp add: logOk_def eventsOf_def)
  then have "logOk (emitEvent sid type data v)" by (rule logOk_emit)
  moreover have "eventsOf sid' v = eventsOf sid' w" for sid' using \<open>ryEvents v = ryEvents w\<close> by (rule eventsOf_frame)
  ultimately show ?thesis by (simp add: extendsLog_def eventsOf_emit)
qed

lemma ryEvents_updates [simp]:
  "ryEvents (updateRelay p f w) = ryEvents w" "ryEvents (updateDevices q g w) = ryEvents w"
  by (simp_all add: updateRelay_def updateDevices_def)

lemma extendsLog_step: "relay_step w w' \<Longrightarrow> logOk w \<Longrightarrow> extendsLog w w'"
proof (induction rule: relay_step.induct)
  case (pair sha random newId now input owner w w' i plaintext)
  then show ?case
    by (auto simp: pairDevice_def Let_def intro!: extendsLog_frame split: prod.splits if_splits)
next
  case (consume w now sid)
  then show ?case
    by (auto simp: consumeOtp_def intro: extendsLog_emit extendsLog_frame split: option.splits)
next
  case (status w now sid st currentStep n)
  then show ?case
    by (auto simp: updateStatus_def intro: extendsLog_emit extendsLog_frame split: option.splits)
next
  case (complete now sid success err results w w')
  then show ?case
    by (auto simp: completeSession_def Let_def stageRecords_def split: if_splits option.splits
        intro!: extendsLog_emit)
next
  case (event w sid type data)
  then show ?case by (auto intro: extendsLog_emit)
qed (auto simp: verifyDeviceToken_def revokeDeviceAccess_def updateDevicePush_def clearDevicePushToken_def bindSelected_def
    loadTunnelContext_def releaseTunnelClaim_def markOtpRelayMode_def markOtpRelayStatus_def writeOtp_def openEpisode_def
    beginWait_def heartbeatEngine_def baseUpdate_def Let_def intro!: extendsLog_frame split: option.splits)

lemma extendsLog_steps: "relay_step\<^sup>*\<^sup>* w w' \<Longrightarrow> logOk w \<Longrightarrow> extendsLog w w'"
proof (induction rule: rtranclp_induct)
  case base
  then show ?case by (simp add: extendsLog_frame)
next
  case (step y z)
  then have y: "extendsLog w y" by simp
  with step extendsLog_step have "extendsLog y z" by (auto simp: extendsLog_def)
  with y show ?case unfolding extendsLog_def by (metis append.assoc)
qed

lemma listSessionEvents_drop:
  assumes "logOk w" and "c \<le> length (eventsOf sid w)"
  shows "listSessionEvents sid c w = drop c (eventsOf sid w)"
proof -
  let ?es = "eventsOf sid w"
  have seq: "map reSeq ?es = [1..<Suc (length ?es)]" using assms(1) by (simp add: logOk_def)
  then have nth: "reSeq (?es ! i) = Suc i" if "i < length ?es" for i
    using that by (metis add.commute length_map length_upt nth_map nth_upt plus_1_eq_Suc add_diff_cancel_left' less_Suc_eq_le Suc_leI)
  have "filter (\<lambda>e. reSeq e > c) ?es = filter (\<lambda>e. reSeq e > c) (take c ?es) @ filter (\<lambda>e. reSeq e > c) (drop c ?es)"
    by (metis append_take_drop_id filter_append)
  also have "filter (\<lambda>e. reSeq e > c) (take c ?es) = []"
    using nth assms(2) by (auto simp: filter_empty_conv in_set_conv_nth)
  also have "filter (\<lambda>e. reSeq e > c) (drop c ?es) = drop c ?es"
    using nth by (auto simp: filter_id_conv in_set_conv_nth)
  finally have "filter (\<lambda>e. reSessionId e = sid \<and> reSeq e > c) (ryEvents w) = drop c ?es"
    by (simp add: eventsOf_def conj_commute)
  moreover have "sorted (map reSeq (drop c ?es))"
    using seq by (metis drop_map sorted_upt sorted_wrt_drop)
  ultimately show ?thesis by (simp add: listSessionEvents_def sorted_sort_id sort_key_id_if_sorted)
qed

text \<open>
  Event numbers of a session are 1, 2, 3, \<dots> without gaps, and a reader that resumes from the number
  of the last event it saw receives exactly the events appended since, in order: none is lost and
  none is repeated, whatever the engine and the control plane did in between.
\<close>

theorem event_replay_complete:
  assumes "ryEvents w0 = []" and "relay_step\<^sup>*\<^sup>* w0 w" and "relay_step\<^sup>*\<^sup>* w w'"
  shows "map reSeq (eventsOf sid w') = [1..<Suc (length (eventsOf sid w'))]
    \<and> eventsOf sid w' = eventsOf sid w @ listSessionEvents sid (length (eventsOf sid w)) w'"
proof -
  have "logOk w0" using assms(1) by (simp add: logOk_def eventsOf_def)
  then have "logOk w" using extendsLog_steps assms(2) by (auto simp: extendsLog_def)
  then have ext: "extendsLog w w'" using extendsLog_steps assms(3) by blast
  then obtain es where es: "eventsOf sid w' = eventsOf sid w @ es" and ok: "logOk w'" by (auto simp: extendsLog_def)
  have "listSessionEvents sid (length (eventsOf sid w)) w' = es"
    using listSessionEvents_drop [OF ok, of "length (eventsOf sid w)" sid] es by simp
  moreover have "map reSeq (eventsOf sid w') = [1..<Suc (length (eventsOf sid w'))]"
    using ok unfolding logOk_def by (rule spec)
  ultimately show ?thesis using es by blast
qed

theorem event_replay_complete_witness:
  "\<exists>w'. map reType (eventsOf ''s'' w') = [''status'', ''step'']
     \<and> eventsOf ''s'' w' = eventsOf ''s'' (emitEvent ''s'' ''status'' JNull (demoRelay [] [])) @ listSessionEvents ''s'' 1 w'"
proof -
  let ?w = "emitEvent ''s'' ''status'' JNull (demoRelay [] [])"
  let ?w' = "emitEvent ''s'' ''step'' JNull ?w"
  have len: "length (eventsOf ''s'' ?w) = 1" "map reType (eventsOf ''s'' ?w') = [''status'', ''step'']"
    by (simp_all add: eventsOf_def emitEvent_def demoRelay_def)
  have "eventsOf ''s'' ?w' = eventsOf ''s'' ?w @ listSessionEvents ''s'' (length (eventsOf ''s'' ?w)) ?w'"
    using event_replay_complete [of "demoRelay [] []" ?w ?w' "''s''"]
    by (simp add: demoRelay_def r_into_rtranclp relay_step.event)
  with len(1) have "eventsOf ''s'' ?w' = eventsOf ''s'' ?w @ listSessionEvents ''s'' 1 ?w'" by (simp only:)
  with len(2) show ?thesis by (intro exI [of _ ?w'] conjI)
qed

end
