(* ===== verification/JsText.thy ===== *)
theory JsText
  imports WorkerOwnership
begin

text \<open>
  The text encodings the tunnel uses, as the runtime implements them: \<^verbatim>\<open>JSON.parse\<close> and
  \<^verbatim>\<open>JSON.stringify\<close>, and the base64 and UTF-8 conversions of \<^verbatim>\<open>Buffer\<close>. Strings are sequences of code
  units below 256; a text with larger ones is outside the model, so an escape above \<^verbatim>\<open>\u00ff\<close> does not
  parse. Numbers are exact rationals, except that a magnitude that rounds to infinity is infinite.
  The parser recurses with a fuel that is shown never to run out.
\<close>

section \<open>JSON text\<close>

subsection \<open>The parser\<close>

definition is_ws :: "char \<Rightarrow> bool" where
  "is_ws c \<longleftrightarrow> c = CHR '' '' \<or> c = CHR 0x09 \<or> c = CHR 0x0A \<or> c = CHR 0x0D"

definition skipWs :: "string \<Rightarrow> string" where
  "skipWs s = dropWhile is_ws s"

definition hexDigit :: "char \<Rightarrow> nat option" where
  "hexDigit c =
     (let n = of_char c :: nat in
      if 48 \<le> n \<and> n \<le> 57 then Some (n - 48)
      else if 97 \<le> n \<and> n \<le> 102 then Some (n - 87)
      else if 65 \<le> n \<and> n \<le> 70 then Some (n - 55)
      else None)"

definition hex4 :: "char \<Rightarrow> char \<Rightarrow> char \<Rightarrow> char \<Rightarrow> nat option" where
  "hex4 a b c d =
     (case (hexDigit a, hexDigit b, hexDigit c, hexDigit d) of
        (Some w, Some x, Some y, Some z) \<Rightarrow> Some (((w * 16 + x) * 16 + y) * 16 + z)
      | _ \<Rightarrow> None)"

definition simpleEscape :: "char \<Rightarrow> char option" where
  "simpleEscape c =
     (if c = CHR 0x22 \<or> c = CHR 0x5C \<or> c = CHR ''/'' then Some c
      else if c = CHR ''b'' then Some (CHR 0x08)
      else if c = CHR ''f'' then Some (CHR 0x0C)
      else if c = CHR ''n'' then Some (CHR 0x0A)
      else if c = CHR ''r'' then Some (CHR 0x0D)
      else if c = CHR ''t'' then Some (CHR 0x09)
      else None)"

definition consTo :: "'a \<Rightarrow> ('a list \<times> 'b) option \<Rightarrow> ('a list \<times> 'b) option" where
  "consTo x r = map_option (\<lambda>(xs, q). (x # xs, q)) r"

text \<open>The characters of a string up to its closing quotation mark, and what follows it.\<close>

fun parseStr :: "string \<Rightarrow> (string \<times> string) option" where
  "parseStr [] = None"
| "parseStr (c # r) =
     (if c = CHR 0x22 then Some ([], r)
      else if c = CHR 0x5C then
        (case r of
           [] \<Rightarrow> None
         | e # r1 \<Rightarrow>
             if e = CHR ''u'' then
               (case r1 of
                  w # x # y # z # r2 \<Rightarrow>
                    (case hex4 w x y z of
                       Some n \<Rightarrow> if n < 256 then consTo (char_of n) (parseStr r2) else None
                     | None \<Rightarrow> None)
                | _ \<Rightarrow> None)
             else (case simpleEscape e of Some ch \<Rightarrow> consTo ch (parseStr r1) | None \<Rightarrow> None))
      else if (of_char c :: nat) < 32 then None
      else consTo c (parseStr r))"

text \<open>Numbers: sign, integer part without leading zeros, fraction and exponent.\<close>

definition MAX_FINITE :: rat where
  "MAX_FINITE = 2 ^ 1024 - 2 ^ 970"

definition toNumber :: "rat \<Rightarrow> jsnum" where
  "toNumber r = (if r \<ge> MAX_FINITE then PosInfinity else if r \<le> - MAX_FINITE then NegInfinity else Fin r)"

definition intPart :: "string \<Rightarrow> (string \<times> string) option" where
  "intPart s =
     (case s of
        [] \<Rightarrow> None
      | c # r \<Rightarrow> if c = CHR ''0'' then Some ([c], r)
                 else if is_digit c then Some (takeWhile is_digit s, dropWhile is_digit s)
                 else None)"

definition fracPart :: "string \<Rightarrow> (string \<times> string) option" where
  "fracPart s =
     (case s of
        c # r \<Rightarrow> if c \<noteq> CHR ''.'' then Some ([], s)
                 else if takeWhile is_digit r = [] then None
                 else Some (takeWhile is_digit r, dropWhile is_digit r)
      | [] \<Rightarrow> Some ([], s))"

definition expPart :: "string \<Rightarrow> (int \<times> string) option" where
  "expPart s =
     (case s of
        c # r \<Rightarrow>
          if c \<noteq> CHR ''e'' \<and> c \<noteq> CHR ''E'' then Some (0, s)
          else let neg = (r \<noteq> [] \<and> hd r = CHR ''-'');
                   r = (if r \<noteq> [] \<and> (hd r = CHR ''-'' \<or> hd r = CHR ''+'') then tl r else r)
               in if takeWhile is_digit r = [] then None
                  else Some ((if neg then -1 else 1) * int (read_dec (takeWhile is_digit r)), dropWhile is_digit r)
      | [] \<Rightarrow> Some (0, s))"

definition scale10 :: "int \<Rightarrow> rat \<Rightarrow> rat" where
  "scale10 e r = (if 0 \<le> e then r * 10 ^ nat e else r / 10 ^ nat (- e))"

definition parseNum :: "string \<Rightarrow> (jsnum \<times> string) option" where
  "parseNum s =
     (let neg = (s \<noteq> [] \<and> hd s = CHR ''-'');
          s = (if neg then tl s else s)
      in case intPart s of
           None \<Rightarrow> None
         | Some (i, s) \<Rightarrow>
             (case fracPart s of
                None \<Rightarrow> None
              | Some (f, s) \<Rightarrow>
                  (case expPart s of
                     None \<Rightarrow> None
                   | Some (e, s) \<Rightarrow>
                       let m = scale10 e (of_nat (read_dec i) + of_nat (read_dec f) / 10 ^ length f)
                       in Some (toNumber (if neg then - m else m), s))))"

text \<open>
  A value, the elements of an array after \<^verbatim>\<open>[\<close>, and the members of an object after the opening brace.
  A repeated key keeps its first position and its last value.
\<close>

fun parseV :: "nat \<Rightarrow> string \<Rightarrow> (json \<times> string) option"
and parseElems :: "nat \<Rightarrow> string \<Rightarrow> (json list \<times> string) option"
and parseMembers :: "nat \<Rightarrow> string \<Rightarrow> ((string \<times> json) list \<times> string) option" where
  "parseV 0 s = None"
| "parseV (Suc n) s =
     (case skipWs s of
        [] \<Rightarrow> None
      | c # r \<Rightarrow>
          if c = CHR 0x22 then map_option (\<lambda>(t, q). (JStr t, q)) (parseStr r)
          else if c = CHR ''{'' then
            (if skipWs r \<noteq> [] \<and> hd (skipWs r) = CHR ''}'' then Some (JObj [], tl (skipWs r))
             else map_option (\<lambda>(ms, q). (JObj (mfrom ms), q)) (parseMembers n r))
          else if c = CHR ''['' then
            (if skipWs r \<noteq> [] \<and> hd (skipWs r) = CHR '']'' then Some (JArr [], tl (skipWs r))
             else map_option (\<lambda>(vs, q). (JArr vs, q)) (parseElems n r))
          else if starts_with (c # r) ''true'' then Some (JBool True, drop 4 (c # r))
          else if starts_with (c # r) ''false'' then Some (JBool False, drop 5 (c # r))
          else if starts_with (c # r) ''null'' then Some (JNull, drop 4 (c # r))
          else map_option (\<lambda>(x, q). (JNum x, q)) (parseNum (c # r)))"
| "parseElems 0 s = None"
| "parseElems (Suc n) s =
     (case parseV n s of
        None \<Rightarrow> None
      | Some (v, r) \<Rightarrow>
          (case skipWs r of
             [] \<Rightarrow> None
           | c # q \<Rightarrow> if c = CHR '','' then consTo v (parseElems n q)
                      else if c = CHR '']'' then Some ([v], q)
                      else None))"
| "parseMembers 0 s = None"
| "parseMembers (Suc n) s =
     (case skipWs s of
        [] \<Rightarrow> None
      | c # r \<Rightarrow>
          if c \<noteq> CHR 0x22 then None
          else (case parseStr r of
                  None \<Rightarrow> None
                | Some (k, r) \<Rightarrow>
                    (case skipWs r of
                       [] \<Rightarrow> None
                     | c # r \<Rightarrow>
                         if c \<noteq> CHR '':'' then None
                         else (case parseV n r of
                                 None \<Rightarrow> None
                               | Some (v, r) \<Rightarrow>
                                   (case skipWs r of
                                      [] \<Rightarrow> None
                                    | c # q \<Rightarrow> if c = CHR '','' then consTo (k, v) (parseMembers n q)
                                               else if c = CHR ''}'' then Some ([(k, v)], q)
                                               else None)))))"

definition jsonParse :: "string \<Rightarrow> json option" where
  "jsonParse s =
     (case parseV (2 * length s + 1) s of
        Some (v, r) \<Rightarrow> if skipWs r = [] then Some v else None
      | None \<Rightarrow> None)"

subsection \<open>The parser consumes its input\<close>

lemma skipWs_length: "length (skipWs s) \<le> length s"
  by (simp add: skipWs_def length_dropWhile_le)

lemma skipWs_Cons: "skipWs s = c # r \<Longrightarrow> length r < length s"
  using skipWs_length [of s] by simp

lemma consTo_Some [simp]: "consTo x p = Some (ys, q) \<longleftrightarrow> (\<exists>xs. ys = x # xs \<and> p = Some (xs, q))"
  by (auto simp: consTo_def)

lemma consTo_simps [simp]: "consTo x None = None" "consTo x (Some (xs, q)) = Some (x # xs, q)"
  by (simp_all add: consTo_def)

lemma parseStr_length: "parseStr s = Some (t, q) \<Longrightarrow> length q < length s"
  by (induction s arbitrary: t q rule: parseStr.induct)
     (force split: if_splits list.splits option.splits)+

lemma intPart_length: "intPart s = Some (i, q) \<Longrightarrow> length q < length s"
  by (auto simp: intPart_def length_dropWhile_le less_Suc_eq_le split: list.splits if_splits)

lemma fracPart_length: "fracPart s = Some (f, q) \<Longrightarrow> length q \<le> length s"
  by (auto simp: fracPart_def le_SucI length_dropWhile_le split: list.splits if_splits)

lemma expPart_length: "expPart s = Some (e, q) \<Longrightarrow> length q \<le> length s"
proof -
  have "length (dropWhile is_digit (tl r)) \<le> length r" for r
    using length_dropWhile_le [of is_digit "tl r"] by simp
  then show "expPart s = Some (e, q) \<Longrightarrow> length q \<le> length s"
    by (auto simp: expPart_def Let_def le_SucI length_dropWhile_le split: list.splits if_splits)
qed

lemma parseNum_length: "parseNum s = Some (x, q) \<Longrightarrow> length q < length s"
proof -
  assume "parseNum s = Some (x, q)"
  then obtain i r f r' e where "intPart (if s \<noteq> [] \<and> hd s = CHR ''-'' then tl s else s) = Some (i, r)"
    "fracPart r = Some (f, r')" "expPart r' = Some (e, q)"
    by (auto simp: parseNum_def Let_def split: option.splits prod.splits)
  from intPart_length [OF this(1)] fracPart_length [OF this(2)] expPart_length [OF this(3)]
  show ?thesis by (auto split: if_splits)
qed

lemma drop_Cons_length: "k \<noteq> 0 \<Longrightarrow> skipWs s = c # r \<Longrightarrow> length (drop k (c # r)) < length s"
  using skipWs_length [of s] by auto

lemma parse_lengths:
  "parseV n s = Some (v, q) \<Longrightarrow> length q < length s"
  "parseElems n s = Some (vs, q) \<Longrightarrow> length q < length s"
  "parseMembers n s = Some (ms, q) \<Longrightarrow> length q < length s"
proof (induction n s and n s and n s arbitrary: v q and vs q and ms q
    rule: parseV_parseElems_parseMembers.induct)
  case (2 n s)
  from "2.prems" obtain c r where cr: "skipWs s = c # r" by (auto split: list.splits)
  note len = skipWs_Cons [OF cr]
  have tl: "length (tl (skipWs r)) < length s"
    using len skipWs_length [of r] by simp
  have num: "parseNum (c # r) = Some (x, q) \<Longrightarrow> length q < length s" for x
    using parseNum_length [of "c # r" x q] skipWs_length [of s] cr by simp
  have d: "k \<noteq> 0 \<Longrightarrow> length (drop k (c # r)) < length s" for k
    by (rule drop_Cons_length [OF _ cr])
  show ?case
  proof (cases "c = CHR 0x22 \<or> c = CHR ''{'' \<or> c = CHR ''[''")
    case True
    with "2.prems" "2.IH"(1,2) [OF cr] cr len tl parseStr_length show ?thesis
      by (fastforce split: if_splits)
  next
    case False
    with "2.prems" cr d [of 4] d [of 5] num show ?thesis by (auto split: if_splits)
  qed
next
  case (4 n s)
  from "4.prems" obtain v r c r' where v: "parseV n s = Some (v, r)" "skipWs r = c # r'"
    by (auto split: option.splits list.splits)
  from "4.IH"(1) [OF v(1)] skipWs_Cons [OF v(2)] have "length r' < length s" by simp
  with "4.prems" v "4.IH"(2) [OF v(1) refl v(2)] show ?case by (fastforce split: if_splits)
next
  case (6 n s)
  from "6.prems" obtain c r where cr: "skipWs s = c # r" "c = CHR 0x22"
    by (auto split: list.splits if_splits)
  from "6.prems" cr obtain k r1 where k: "parseStr r = Some (k, r1)"
    by (auto split: option.splits)
  from "6.prems" cr k obtain c1 r2 where c1: "skipWs r1 = c1 # r2" "c1 = CHR '':''"
    by (auto split: list.splits if_splits)
  from "6.prems" cr k c1 obtain v r3 where v: "parseV n r2 = Some (v, r3)"
    by (auto split: option.splits)
  from "6.prems" cr k c1 v obtain c2 r4 where c2: "skipWs r3 = c2 # r4"
    by (auto split: list.splits)
  have l: "length r2 < length s" "length r4 < length r3"
    using skipWs_Cons [OF cr(1)] parseStr_length [OF k] skipWs_Cons [OF c1(1)] skipWs_Cons [OF c2] by simp_all
  have v': "length r3 < length r2" using "6.IH"(1) cr k c1 v by simp
  show ?case
  proof (cases "c2 = CHR '',''")
    case True
    with "6.prems" cr k c1 v c2 obtain ms' where "parseMembers n r4 = Some (ms', q)" by auto
    with "6.IH"(2) cr k c1 v c2 True have "length q < length r4" by simp
    with l v' show ?thesis by simp
  next
    case False
    with "6.prems" cr k c1 v c2 l v' show ?thesis by (auto split: if_splits)
  qed
qed simp_all

subsection \<open>The fuel is enough\<close>

text \<open>
  Every call with more fuel than twice the length of its input gives the same result, so the bound
  of the top-level call never cuts a parse short.
\<close>

lemma parse_fuel:
  "2 * length s + 1 \<le> n \<Longrightarrow> 2 * length s + 1 \<le> m \<Longrightarrow> parseV n s = parseV m s"
  "2 * length s + 2 \<le> n \<Longrightarrow> 2 * length s + 2 \<le> m \<Longrightarrow> parseElems n s = parseElems m s"
  "2 * length s + 2 \<le> n \<Longrightarrow> 2 * length s + 2 \<le> m \<Longrightarrow> parseMembers n s = parseMembers m s"
proof (induction n s and n s and n s arbitrary: m and m and m
    rule: parseV_parseElems_parseMembers.induct)
  case (2 n s)
  from "2.prems" obtain m' where m: "m = Suc m'" by (cases m) auto
  show ?case
  proof (cases "skipWs s")
    case (Cons c r)
    with skipWs_Cons [OF Cons] "2.prems" m
    have "2 * length r + 2 \<le> n" "2 * length r + 2 \<le> m'" by simp_all
    then have "c = CHR ''{'' \<Longrightarrow> \<not> (skipWs r \<noteq> [] \<and> hd (skipWs r) = CHR ''}'') \<Longrightarrow> parseMembers n r = parseMembers m' r"
      "c = CHR ''['' \<Longrightarrow> \<not> (skipWs r \<noteq> [] \<and> hd (skipWs r) = CHR '']'') \<Longrightarrow> parseElems n r = parseElems m' r"
      using "2.IH"(1) [OF Cons, of m'] "2.IH"(2) [OF Cons, of m'] by blast+
    then show ?thesis by (simp add: m Cons)
  qed (simp add: m)
next
  case (4 n s)
  from "4.prems" obtain m' where m: "m = Suc m'" by (cases m) auto
  from "4.IH"(1) [of m'] "4.prems" m have v: "parseV n s = parseV m' s" by simp
  show ?case
  proof (cases "parseV n s")
    case (Some p)
    obtain w r where p: "p = (w, r)" by fastforce
    show ?thesis
    proof (cases "skipWs r")
      case (Cons c q)
      have "length q < length s"
        using skipWs_Cons [OF Cons] parse_lengths(1) [of n s w r] Some p by simp
      with "4.prems" m have "2 * length q + 2 \<le> n" "2 * length q + 2 \<le> m'" by simp_all
      with "4.IH"(2) [OF Some p [symmetric] Cons, of m'] show ?thesis unfolding m by (simp add: v [symmetric] Some p Cons)
    qed (simp add: v [symmetric] Some p m)
  qed (simp add: v [symmetric] m)
next
  case (6 n s)
  from "6.prems" obtain m' where m: "m = Suc m'" by (cases m) auto
  show ?case
  proof (cases "\<exists>r k r1 r2. skipWs s = CHR 0x22 # r \<and> parseStr r = Some (k, r1) \<and> skipWs r1 = CHR '':'' # r2")
    case False
    then show ?thesis unfolding m by (auto split: list.splits option.splits if_splits)
  next
    case True
    then obtain r k r1 r2 where a: "skipWs s = CHR 0x22 # r" "parseStr r = Some (k, r1)"
      "skipWs r1 = CHR '':'' # r2" by blast
    have l: "length r2 + 3 \<le> length s"
      using skipWs_Cons [OF a(1)] parseStr_length [OF a(2)] skipWs_Cons [OF a(3)] by simp
    with "6.IH"(1) [of "CHR 0x22" r "(k, r1)" k r1 "CHR '':''" r2 m'] a "6.prems" m
    have v: "parseV n r2 = parseV m' r2" by simp
    show ?thesis
    proof (cases "parseV n r2")
      case (Some p)
      obtain w r3 where p: "p = (w, r3)" by fastforce
      show ?thesis
      proof (cases "skipWs r3")
        case (Cons c q)
        have "length q < length r2"
          using skipWs_Cons [OF Cons] parse_lengths(1) [of n r2 w r3] Some p by simp
        with l "6.prems" m have "2 * length q + 2 \<le> n" "2 * length q + 2 \<le> m'" by simp_all
        then have "c = CHR '','' \<Longrightarrow> parseMembers n q = parseMembers m' q"
          using "6.IH"(2) [OF a(1) _ a(2) refl a(3) _ Some p [symmetric] Cons, of m'] by simp
        then show ?thesis by (simp add: m a v [symmetric] Some p Cons)
      qed (simp add: v [symmetric] Some p m a)
    qed (simp add: v [symmetric] m a)
  qed
qed simp_all

subsection \<open>Printing\<close>

text \<open>
  \<^verbatim>\<open>JSON.stringify\<close>: a number below \<open>10\<^sup>2\<^sup>1\<close> without a fraction prints its digits; \<open>numStr\<close> prints the
  other finite numbers, and a number that is not finite prints as \<^verbatim>\<open>null\<close>.
\<close>

definition numText :: "(rat \<Rightarrow> string) \<Rightarrow> rat \<Rightarrow> string" where
  "numText numStr r = (if of_int \<lfloor>r\<rfloor> = r \<and> \<bar>r\<bar> < 10 ^ 21 then show_int \<lfloor>r\<rfloor> else numStr r)"

fun stringify :: "(rat \<Rightarrow> string) \<Rightarrow> json \<Rightarrow> string" where
  "stringify numStr JNull = ''null''"
| "stringify numStr (JBool b) = (if b then ''true'' else ''false'')"
| "stringify numStr (JNum x) = (case x of Fin r \<Rightarrow> numText numStr r | _ \<Rightarrow> ''null'')"
| "stringify numStr (JStr s) = quote s"
| "stringify numStr (JArr vs) = ''['' @ join '','' (map (stringify numStr) vs) @ '']''"
| "stringify numStr (JObj kvs) =
     ''{'' @ join '','' (map (\<lambda>(k, v). quote k @ '':'' @ stringify numStr v) kvs) @ ''}''"

text \<open>The values the tunnel exchanges: whole numbers, and objects without repeated keys.\<close>

fun plainJson :: "json \<Rightarrow> bool" where
  "plainJson (JNum x) = (case x of Fin r \<Rightarrow> of_int \<lfloor>r\<rfloor> = r \<and> \<bar>r\<bar> < 10 ^ 21 | _ \<Rightarrow> False)"
| "plainJson (JArr vs) = (\<forall>v\<in>set vs. plainJson v)"
| "plainJson (JObj kvs) = (distinct (map fst kvs) \<and> (\<forall>kv\<in>set kvs. plainJson (snd kv)))"
| "plainJson _ = True"

definition stops :: "string \<Rightarrow> bool" where
  "stops r \<longleftrightarrow> r = [] \<or> \<not> is_digit (hd r) \<and> hd r \<noteq> CHR ''.'' \<and> hd r \<noteq> CHR ''e'' \<and> hd r \<noteq> CHR ''E''"

lemma digit_not_special:
  "is_digit c \<Longrightarrow> c \<noteq> CHR 0x22 \<and> c \<noteq> CHR ''{'' \<and> c \<noteq> CHR ''['' \<and> c \<noteq> CHR ''t'' \<and> c \<noteq> CHR ''f'' \<and> c \<noteq> CHR ''n'' \<and> c \<noteq> CHR ''-'' \<and> \<not> is_ws c"
  by (auto simp: is_digit_def is_ws_def)

lemma hd_show_nat: "n \<noteq> 0 \<Longrightarrow> hd (show_nat n) \<noteq> CHR ''0''"
proof (induction n rule: show_nat.induct)
  case (1 n)
  have z: "k < 10 \<Longrightarrow> k \<noteq> 0 \<Longrightarrow> digit_char k \<noteq> CHR ''0''" for k
  proof
    assume "k < 10" "k \<noteq> 0" "digit_char k = CHR ''0''"
    then have "digit_val (digit_char k) = 0" by (simp add: digit_val_def)
    with \<open>k < 10\<close> \<open>k \<noteq> 0\<close> show False by simp
  qed
  show ?case
  proof (cases "n < 10")
    case True
    with "1.prems" z show ?thesis by (simp add: show_nat.simps [of n])
  next
    case False
    with 1 show ?thesis by (simp add: show_nat.simps [of n])
  qed
qed

lemma takeWhile_digits:
  assumes "stops r"
  shows "takeWhile is_digit (show_nat n @ r) = show_nat n" "dropWhile is_digit (show_nat n @ r) = r"
proof -
  have "\<forall>c\<in>set (show_nat n). is_digit c" by (simp add: digits_show_nat)
  moreover have "takeWhile is_digit r = []" "dropWhile is_digit r = r"
    using assms by (cases r; simp add: stops_def)+
  ultimately show "takeWhile is_digit (show_nat n @ r) = show_nat n" "dropWhile is_digit (show_nat n @ r) = r"
    by simp_all
qed

lemma intPart_show: "stops r \<Longrightarrow> intPart (show_nat n @ r) = Some (show_nat n, r)"
proof -
  assume r: "stops r"
  obtain c t where ct: "show_nat n = c # t" by (cases "show_nat n") auto
  have dig: "is_digit c" using digits_show_nat [of c n] ct by simp
  show ?thesis
  proof (cases "n = 0")
    case True
    have "show_nat 0 = ''0''" by code_simp
    with True show ?thesis by (simp add: intPart_def)
  next
    case False
    then have "c \<noteq> CHR ''0''" using hd_show_nat [of n] by (simp add: ct)
    with dig takeWhile_digits [OF r, of n] show ?thesis by (simp add: intPart_def ct)
  qed
qed

lemma toNumber_int: "\<bar>i\<bar> < 10 ^ 21 \<Longrightarrow> toNumber (of_int i) = Fin (of_int i)"
proof -
  assume i: "\<bar>i\<bar> < 10 ^ 21"
  have "of_int \<bar>i\<bar> < (of_int (10 ^ 21) :: rat)" using i by (simp only: of_int_less_iff)
  moreover have "(of_int (10 ^ 21) :: rat) < MAX_FINITE" by (simp add: MAX_FINITE_def)
  ultimately have "\<bar>of_int i :: rat\<bar> < MAX_FINITE" by simp
  then show ?thesis by (auto simp: toNumber_def abs_less_iff)
qed

lemma parseNum_show: "stops r \<Longrightarrow> \<bar>i\<bar> < 10 ^ 21 \<Longrightarrow> parseNum (show_int i @ r) = Some (Fin (of_int i), r)"
proof -
  assume r: "stops r" and i: "\<bar>i\<bar> < 10 ^ 21"
  have tails: "fracPart r = Some ([], r)" "expPart r = Some (0, r)"
    using r by (cases r; auto simp: stops_def fracPart_def expPart_def)+
  have nd: "hd (show_nat k @ r) \<noteq> CHR ''-''" for k
    using digits_show_nat [of "hd (show_nat k)" k] by (simp add: hd_in_set digit_not_special)
  have z: "read_dec [] = 0" by (simp add: read_dec_def)
  show ?thesis
  proof (cases "i < 0")
    case True
    then have "- of_nat (nat (- i)) = (of_int i :: rat)" by simp
    with True intPart_show [OF r] tails toNumber_int [OF i] z show ?thesis
      by (simp add: parseNum_def show_int_def scale10_def)
  next
    case False
    then have "of_nat (nat i) = (of_int i :: rat)" by simp
    with False intPart_show [OF r] tails toNumber_int [OF i] z nd show ?thesis
      by (simp add: parseNum_def show_int_def scale10_def)
  qed
qed

lemma hexDigit_char [simp]: "n < 16 \<Longrightarrow> hexDigit (hex_char n) = Some n"
  by (auto simp: hexDigit_def hex_char_def Let_def)

lemma hexDigit_zero [simp]: "hexDigit (CHR ''0'') = Some 0"
  by code_simp

lemma parseStr_esc: "parseStr (esc c @ r) = consTo c (parseStr r)"
proof -
  define n where "n = (of_char c :: nat)"
  have c: "c = char_of n" by (simp add: n_def)
  consider "n < 32 \<and> n \<notin> {8, 9, 10, 12, 13}" | "n \<in> {8, 9, 10, 12, 13, 34, 92}"
    | "32 \<le> n" "n \<noteq> 34" "n \<noteq> 92" by fastforce
  then show ?thesis
  proof cases
    case 1
    then have "n div 16 < 16" "n mod 16 < 16" by auto
    with 1 have e: "esc c = [CHR 0x5C, CHR ''u'', CHR ''0'', CHR ''0'', hex_char (n div 16), hex_char (n mod 16)]"
      by (simp add: esc_def n_def Let_def)
    have "hex4 (CHR ''0'') (CHR ''0'') (hex_char (n div 16)) (hex_char (n mod 16)) = Some n"
      using \<open>n div 16 < 16\<close> \<open>n mod 16 < 16\<close> by (simp add: hex4_def)
    with 1 show ?thesis by (simp add: e) (simp add: c)
  next
    case 2
    then show ?thesis
      by (elim insertE emptyE; simp add: esc_def c special_chars simpleEscape_def Let_def)
  next
    case 3
    then have e: "esc c = [c]" by (simp add: esc_def n_def [symmetric] Let_def)
    moreover have "c \<noteq> CHR 0x5C" "c \<noteq> CHR 0x22" "\<not> (of_char c :: nat) < 32" using 3 by (auto simp: n_def)
    ultimately show ?thesis by simp
  qed
qed

lemma parseStr_escs: "parseStr (concat (map esc t) @ CHR 0x22 # r) = Some (t, r)"
  by (induction t) (simp_all add: parseStr_esc)

text \<open>A text that reads back as a value wherever it is followed by something that ends it.\<close>

definition readsAs :: "string \<Rightarrow> json \<Rightarrow> bool" where
  "readsAs s v \<longleftrightarrow> s \<noteq> [] \<and> \<not> is_ws (hd s) \<and> hd s \<noteq> CHR ''}'' \<and> hd s \<noteq> CHR '']''
     \<and> (\<forall>n r. stops r \<longrightarrow> 2 * length (s @ r) + 1 \<le> n \<longrightarrow> parseV n (s @ r) = Some (v, r))"

lemma skipWs_id: "s \<noteq> [] \<Longrightarrow> \<not> is_ws (hd s) \<Longrightarrow> skipWs (s @ r) = s @ r"
  by (cases s) (simp_all add: skipWs_def)

lemma skipWs_char [simp]: "\<not> is_ws c \<Longrightarrow> skipWs (c # r) = c # r"
  by (simp add: skipWs_def)

lemma ws_chars [simp]:
  "\<not> is_ws (CHR '','')" "\<not> is_ws (CHR '']'')" "\<not> is_ws (CHR ''}'')" "\<not> is_ws (CHR ''{'')"
  "\<not> is_ws (CHR ''['')" "\<not> is_ws (CHR '':'')" "\<not> is_ws (CHR 0x22)" "\<not> is_ws (CHR ''t'')"
  "\<not> is_ws (CHR ''f'')" "\<not> is_ws (CHR ''n'')" "\<not> is_ws (CHR ''-'')"
  by (simp_all add: is_ws_def)

lemma stops_chars [simp]: "stops (CHR '','' # r)" "stops (CHR '']'' # r)" "stops (CHR ''}'' # r)" "stops []"
  by (simp_all add: stops_def is_digit_def)

lemma readsAsD:
  "readsAs s v \<Longrightarrow> stops r \<Longrightarrow> 2 * length (s @ r) + 1 \<le> n \<Longrightarrow> parseV n (s @ r) = Some (v, r)"
  by (simp add: readsAs_def)

lemma readsAs_quote: "readsAs (quote t) (JStr t)"
  by (auto simp: readsAs_def quote_def parseStr_escs Suc_le_eq dest!: gr0_implies_Suc less_imp_Suc_add)

lemma readsAs_words: "readsAs ''null'' JNull" "readsAs ''true'' (JBool True)" "readsAs ''false'' (JBool False)"
  by (auto simp: readsAs_def starts_with_def dest!: Suc_le_D)

lemma parseV_num:
  assumes "s \<noteq> []" "is_digit (hd s) \<or> hd s = CHR ''-''" "n \<noteq> 0"
  shows "parseV n s = map_option (\<lambda>(x, q). (JNum x, q)) (parseNum s)"
proof -
  obtain c r where s: "s = c # r" using assms(1) by (cases s) auto
  obtain k where n: "n = Suc k" using assms(3) by (cases n) auto
  have "\<not> is_ws c" "c \<noteq> CHR 0x22" "c \<noteq> CHR ''{''" "c \<noteq> CHR ''[''" "c \<noteq> CHR ''t''" "c \<noteq> CHR ''f''" "c \<noteq> CHR ''n''"
    using assms(2) digit_not_special [of c] unfolding s list.sel(1) by (elim disjE; simp)+
  then show ?thesis by (simp add: s n starts_with_def)
qed

lemma show_int_hd: "is_digit (hd (show_int i)) \<or> hd (show_int i) = CHR ''-''"
  using show_int_chars [of "hd (show_int i)" i] by (simp add: hd_in_set)

lemma readsAs_int: "\<bar>i\<bar> < 10 ^ 21 \<Longrightarrow> readsAs (show_int i) (JNum (Fin (of_int i)))"
proof -
  assume i: "\<bar>i\<bar> < 10 ^ 21"
  have "\<not> is_ws (hd (show_int i))" "hd (show_int i) \<noteq> CHR ''}''" "hd (show_int i) \<noteq> CHR '']''"
    using show_int_hd [of i] digit_not_special [of "hd (show_int i)"] by (auto simp: is_digit_def)
  moreover have "parseV n (show_int i @ r) = Some (JNum (Fin (of_int i)), r)"
    if "stops r" "2 * length (show_int i @ r) + 1 \<le> n" for n r
    using that parseV_num [of "show_int i @ r" n] parseNum_show [OF that(1) i] show_int_hd [of i] by simp
  ultimately show ?thesis by (simp add: readsAs_def)
qed

lemma join_Cons_map: "join sep (x # xs) = x @ concat (map (\<lambda>y. sep @ y) xs)"
  by (induction xs arbitrary: x) simp_all

lemma elems_read:
  assumes "readsAs s v" "list_all2 readsAs ss vs" "2 * length (s @ concat (map (\<lambda>y. '','' @ y) ss) @ '']'' @ r) + 2 \<le> n"
  shows "parseElems n (s @ concat (map (\<lambda>y. '','' @ y) ss) @ '']'' @ r) = Some (v # vs, r)"
  using assms(2,1,3)
proof (induction ss vs arbitrary: s v n rule: list_all2_induct)
  case Nil
  then obtain k where "n = Suc k" by (cases n) auto
  with Nil readsAsD [OF Nil(1), of "CHR '']'' # r" k] show ?case by simp
next
  case (Cons s' ss v' vs)
  then obtain k where n: "n = Suc k" by (cases n) auto
  let ?rest = "s' @ concat (map (\<lambda>y. '','' @ y) ss) @ '']'' @ r"
  from Cons.prems n have v: "parseV k (s @ CHR '','' # ?rest) = Some (v, CHR '','' # ?rest)"
    by (intro readsAsD) auto
  have "parseElems k ?rest = Some (v' # vs, r)"
    using Cons.prems n by (intro Cons.IH Cons.hyps) auto
  with v show ?case by (simp add: n)
qed

definition memberText :: "string \<Rightarrow> string \<Rightarrow> string" where
  "memberText k s = quote k @ '':'' @ s"

lemma members_read:
  assumes "readsAs s v" "list_all2 (\<lambda>p q. fst p = fst q \<and> readsAs (snd p) (snd q)) ss vs"
    "2 * length (memberText k s @ concat (map (\<lambda>(k, y). '','' @ memberText k y) ss) @ ''}'' @ r) + 2 \<le> n"
  shows "parseMembers n (memberText k s @ concat (map (\<lambda>(k, y). '','' @ memberText k y) ss) @ ''}'' @ r) = Some ((k, v) # vs, r)"
  using assms(2,1,3)
proof (induction ss vs arbitrary: k s v n rule: list_all2_induct)
  case Nil
  then obtain j where "n = Suc j" by (cases n) auto
  with Nil readsAsD [OF Nil(1), of "CHR ''}'' # r" j] show ?case
    by (simp add: memberText_def quote_def parseStr_escs)
next
  case (Cons p ss q vs)
  then obtain j where n: "n = Suc j" by (cases n) auto
  obtain k' s' v' where pq: "p = (k', s')" "q = (k', v')" "readsAs s' v'"
    using Cons.hyps(1) by (cases p; cases q) auto
  let ?rest = "memberText k' s' @ concat (map (\<lambda>(k, y). '','' @ memberText k y) ss) @ ''}'' @ r"
  from Cons.prems n pq have v: "parseV j (s @ CHR '','' # ?rest) = Some (v, CHR '','' # ?rest)"
    by (intro readsAsD) (auto simp: memberText_def)
  have "parseMembers j ?rest = Some ((k', v') # vs, r)"
    using Cons.prems n pq by (intro Cons.IH) (auto simp: memberText_def)
  with v show ?case by (simp add: n pq memberText_def [of k] quote_def parseStr_escs)
qed

lemma readsAs_array:
  assumes "list_all2 readsAs ss vs"
  shows "readsAs (''['' @ join '','' ss @ '']'') (JArr vs)"
proof -
  have "parseV n ((''['' @ join '','' ss @ '']'') @ r) = Some (JArr vs, r)"
    if "2 * length ((''['' @ join '','' ss @ '']'') @ r) + 1 \<le> n" for n r
  proof -
    from that obtain k where n: "n = Suc k" by (cases n) auto
    show ?thesis
    proof (cases ss)
      case Nil
      with assms show ?thesis by (simp add: n)
    next
      case (Cons s ss')
      with assms obtain v vs' where v: "vs = v # vs'" "readsAs s v" "list_all2 readsAs ss' vs'"
        by (cases vs) auto
      have hd: "s \<noteq> []" "\<not> is_ws (hd s)" "hd s \<noteq> CHR '']''" using v(2) by (auto simp: readsAs_def)
      from elems_read [OF v(2,3), of r k] that n Cons
      have "parseElems k (s @ concat (map (\<lambda>y. '','' @ y) ss') @ '']'' @ r) = Some (vs, r)"
        by (simp add: v(1) join_Cons_map)
      with hd show ?thesis by (simp add: n Cons join_Cons_map skipWs_id)
    qed
  qed
  then show ?thesis by (simp add: readsAs_def)
qed

lemma memberText_hd: "memberText k s \<noteq> []" "hd (memberText k s) = CHR 0x22"
  by (simp_all add: memberText_def quote_def)

lemma readsAs_object:
  assumes "list_all2 (\<lambda>p q. fst p = fst q \<and> readsAs (snd p) (snd q)) ss kvs" "distinct (map fst kvs)"
  shows "readsAs (''{'' @ join '','' (map (\<lambda>(k, s). memberText k s) ss) @ ''}'') (JObj kvs)"
proof -
  let ?t = "join '','' (map (\<lambda>(k, s). memberText k s) ss)"
  have "parseV n ((''{'' @ ?t @ ''}'') @ r) = Some (JObj kvs, r)"
    if "2 * length ((''{'' @ ?t @ ''}'') @ r) + 1 \<le> n" for n r
  proof -
    from that obtain j where n: "n = Suc j" by (cases n) auto
    show ?thesis
    proof (cases ss)
      case Nil
      with assms show ?thesis by (simp add: n)
    next
      case (Cons p ss')
      with assms obtain k s v kvs' where v: "p = (k, s)" "kvs = (k, v) # kvs'" "readsAs s v"
        "list_all2 (\<lambda>p q. fst p = fst q \<and> readsAs (snd p) (snd q)) ss' kvs'"
        by (cases kvs; cases p) (auto split: prod.splits)
      have t: "?t = memberText k s @ concat (map (\<lambda>(k, y). '','' @ memberText k y) ss')"
        by (simp add: Cons v(1) join_Cons_map comp_def case_prod_unfold)
      from members_read [OF v(3,4), of k r j] that n t
      have "parseMembers j (?t @ ''}'' @ r) = Some (kvs, r)" by (simp add: v(2))
      moreover have "skipWs (?t @ ''}'' @ r) = ?t @ ''}'' @ r" "?t \<noteq> []" "hd ?t = CHR 0x22"
        using memberText_hd [of k s] by (simp_all add: t skipWs_id)
      ultimately show ?thesis using mfrom_distinct [OF assms(2)] by (simp add: n)
    qed
  qed
  then show ?thesis by (simp add: readsAs_def)
qed

text \<open>The numbers of a value print as text that reads back.\<close>

fun readable :: "(rat \<Rightarrow> string) \<Rightarrow> json \<Rightarrow> bool" where
  "readable numStr (JNum x) = (case x of Fin r \<Rightarrow> readsAs (numText numStr r) (JNum (Fin r)) | _ \<Rightarrow> False)"
| "readable numStr (JArr vs) = (\<forall>v\<in>set vs. readable numStr v)"
| "readable numStr (JObj kvs) = (distinct (map fst kvs) \<and> (\<forall>kv\<in>set kvs. readable numStr (snd kv)))"
| "readable numStr _ = True"

lemma readsAs_readable: "readable numStr v \<Longrightarrow> readsAs (stringify numStr v) v"
proof (induction v)
  case (JNum x)
  then show ?case by (auto split: jsnum.splits)
next
  case (JArr vs)
  then have "list_all2 readsAs (map (stringify numStr) vs) vs" by (auto simp: list_all2_map1 list_all2_same)
  from readsAs_array [OF this] show ?case by simp
next
  case (JObj kvs)
  have "list_all2 (\<lambda>p q. fst p = fst q \<and> readsAs (snd p) (snd q)) (map (\<lambda>(k, v). (k, stringify numStr v)) kvs) kvs"
    using JObj by (auto simp: list_all2_map1 list_all2_same)
  from readsAs_object [OF this] JObj.prems show ?case by (simp add: comp_def case_prod_unfold memberText_def)
qed (simp_all add: readsAs_quote readsAs_words)

lemma parse_readable: "readable numStr v \<Longrightarrow> jsonParse (stringify numStr v) = Some v"
  using readsAsD [OF readsAs_readable [of numStr v], of "[]" "2 * length (stringify numStr v) + 1"]
  by (simp add: jsonParse_def skipWs_def)

lemma plain_readable: "plainJson v \<Longrightarrow> readable numStr v"
proof (induction v)
  case (JNum x)
  then obtain r where r: "x = Fin r" "of_int \<lfloor>r\<rfloor> = r" "\<bar>r\<bar> < 10 ^ 21" by (auto split: jsnum.splits)
  then have "(of_int \<bar>\<lfloor>r\<rfloor>\<bar> :: rat) < of_int (10 ^ 21)" unfolding of_int_abs r(2) by simp
  then have "\<bar>\<lfloor>r\<rfloor>\<bar> < 10 ^ 21" by (simp only: of_int_less_iff)
  with readsAs_int [OF this] r show ?case by (simp add: numText_def)
qed auto

lemma parse_stringify: "plainJson v \<Longrightarrow> jsonParse (stringify numStr v) = Some v"
  by (rule parse_readable [OF plain_readable])

section \<open>Base64 and UTF-8\<close>

text \<open>
  \<^verbatim>\<open>buffer.toString('base64')\<close> uses the alphabet with \<^verbatim>\<open>+\<close> and \<^verbatim>\<open>/\<close> and pads to whole groups of four;
  \<^verbatim>\<open>Buffer.from(s, 'base64')\<close> reads both alphabets and skips every other character.
\<close>

definition stdChar :: "char \<Rightarrow> char" where
  "stdChar c = (if c = CHR ''-'' then CHR ''+'' else if c = CHR ''_'' then CHR ''/'' else c)"

definition urlChar :: "char \<Rightarrow> char" where
  "urlChar c = (if c = CHR ''+'' then CHR ''-'' else if c = CHR ''/'' then CHR ''_'' else c)"

definition base64_encode :: "byte list \<Rightarrow> string" where
  "base64_encode bs =
     map stdChar (b64url_encode bs) @ replicate ((3 - length bs mod 3) mod 3) (CHR ''='')"

definition base64_decode :: "string \<Rightarrow> byte list" where
  "base64_decode s = b64url_decode (map urlChar s)"

lemma base64_roundtrip [simp]: "base64_decode (base64_encode bs) = bs"
proof -
  have "isB64 c \<Longrightarrow> urlChar (stdChar c) = c" for c
    by (cases "c = CHR ''+'' \<or> c = CHR ''/''") (auto simp: urlChar_def stdChar_def isB64_def b64_val_def)
  then have "map (urlChar \<circ> stdChar) (b64url_encode bs) = b64url_encode bs"
    using b64url_encode_chars [of bs] by (intro map_idI) (auto simp: list_all_iff)
  moreover have "filter isB64 (replicate k (CHR ''='')) = []" for k
    by (auto simp: filter_empty_conv isB64_def b64_val_def)
  moreover have "urlChar (CHR ''='') = CHR ''=''" by (simp add: urlChar_def)
  ultimately show ?thesis
    using b64url_decode_encode [of bs] by (simp add: base64_decode_def base64_encode_def b64url_decode_def)
qed

text \<open>\<^verbatim>\<open>buffer.toString('utf8')\<close> on the encodings of code points below 256; other bytes are outside the model.\<close>

fun utf8_decode :: "byte list \<Rightarrow> string option" where
  "utf8_decode [] = Some []"
| "utf8_decode (b # r) =
     (if unat b < 128 then map_option (\<lambda>s. char_of (unat b) # s) (utf8_decode r)
      else case r of
             [] \<Rightarrow> None
           | b' # r' \<Rightarrow>
               if 194 \<le> unat b \<and> unat b \<le> 195 \<and> 128 \<le> unat b' \<and> unat b' < 192
               then map_option (\<lambda>s. char_of ((unat b - 192) * 64 + (unat b' - 128)) # s) (utf8_decode r')
               else None)"

lemma utf8_decode_char: "utf8_decode (utf8_char c @ r) = map_option (\<lambda>s. c # s) (utf8_decode r)"
proof -
  define n where "n = (of_char c :: nat)"
  have n: "n < 256" "c = char_of n" by (simp_all add: n_def)
  show ?thesis
  proof (cases "n < 128")
    case True
    then show ?thesis by (simp add: utf8_char_def n_def [symmetric] n(2) [symmetric] unat_of_nat)
  next
    case False
    define q where "q = n div 64"
    define m where "m = n mod 64"
    have qm: "2 \<le> q" "q \<le> 3" "m < 64" "n = q * 64 + m" using False n(1) by (auto simp: q_def m_def)
    then have u: "unat (of_nat (192 + q) :: byte) = 192 + q" "unat (of_nat (128 + m) :: byte) = 128 + m"
      by (simp_all only: unat_of_nat) simp_all
    have e: "utf8_char c = [of_nat (192 + q), of_nat (128 + m)]"
      using False by (simp add: utf8_char_def n_def [symmetric] q_def m_def Let_def)
    have d: "char_of (q * 64 + m) = c" using qm n by simp
    have "(unat (of_nat (192 + q) :: byte) - 192) * 64 + (unat (of_nat (128 + m) :: byte) - 128) = q * 64 + m"
      unfolding u by simp
    then show ?thesis unfolding e using qm d by (simp add: u del: of_nat_add)
  qed
qed

lemma utf8_roundtrip [simp]: "utf8_decode (utf8 s) = Some s"
  unfolding utf8_def by (induction s) (simp_all add: utf8_decode_char)

end
