(* ===== verification/Socks5.thy ===== *)
theory Socks5
  imports TxIdentity
begin

text \<open>
  \<^verbatim>\<open>apps/engine/src/tunnel/socks5-server.ts\<close>: the SOCKS5 server the browser connects through. A
  client socket is a record of the handler's local variables and of what was done to the socket
  (bytes written, destroyed, timer armed); the server is the map of tracked sockets, the connection
  counter and the list of CONNECTs handed to the callback. A destroyed socket emits no more data.
\<close>

section \<open>Consuming a stream in chunks\<close>

text \<open>
  TCP keeps the bytes of a stream but not where its chunks end. A consumer is independent of the
  chunking when feeding two chunks one after the other is equivalent to feeding them joined.
\<close>

locale chunked_input =
  fixes feed :: "'b list \<Rightarrow> 's \<Rightarrow> 's"
    and eqv :: "'s \<Rightarrow> 's \<Rightarrow> bool"
  assumes eqv_refl: "eqv s s"
    and eqv_trans: "eqv s t \<Longrightarrow> eqv t u \<Longrightarrow> eqv s u"
    and feed_eqv: "eqv s t \<Longrightarrow> eqv (feed c s) (feed c t)"
    and feed_append: "eqv (feed b (feed a s)) (feed (a @ b) s)"
begin

lemma fold_feed_eqv: "eqv s t \<Longrightarrow> eqv (fold feed cs s) (fold feed cs t)"
  by (induction cs arbitrary: s t) (auto intro: feed_eqv)

lemma feed_two: "eqv (fold feed (c # d # cs) s) (fold feed ((c @ d) # cs) s)"
  by (simp add: fold_feed_eqv feed_append)

lemma chunking_irrelevant: "eqv (fold feed (c # cs) s) (feed (concat (c # cs)) s)"
proof (induction cs arbitrary: c)
  case Nil
  show ?case by (simp add: eqv_refl)
next
  case (Cons d cs)
  from feed_two [of c d cs s] Cons.IH [of "c @ d"] show ?case by (auto intro: eqv_trans)
qed

end

section \<open>One client\<close>

datatype socks_phase = Greeting | Request | Done

record socks_client =
  scPhase :: socks_phase
  scBuf :: "byte list"
  scWritten :: "byte list list"
  scDestroyed :: bool
  scTimerArmed :: bool

record socks_connect =
  coConnId :: nat
  coHost :: string
  coPort :: nat

record socks_server =
  svNextConnId :: nat
  svCallback :: bool
  svConnects :: "socks_connect list"

definition HANDSHAKE_TIMEOUT_MS :: millis where
  "HANDSHAKE_TIMEOUT_MS = 30000"

definition newClient :: socks_client where
  "newClient = \<lparr>scPhase = Greeting, scBuf = [], scWritten = [], scDestroyed = False, scTimerArmed = True\<rparr>"

text \<open>
  Destroying a socket closes it, which clears the handshake timer. A write to a destroyed socket
  does not happen in this code.
\<close>

definition destroySocket :: "socks_client \<Rightarrow> socks_client" where
  "destroySocket c = c\<lparr>scDestroyed := True, scTimerArmed := False\<rparr>"

definition writeSocket :: "byte list \<Rightarrow> socks_client \<Rightarrow> socks_client" where
  "writeSocket bytes c = c\<lparr>scWritten := scWritten c @ [bytes]\<rparr>"

definition reply :: "byte \<Rightarrow> byte list" where
  "reply code = [5, code, 0, 1, 0, 0, 0, 0, 0, 0]"

definition readUInt16BE :: "byte list \<Rightarrow> nat \<Rightarrow> nat" where
  "readUInt16BE buf i = unat (buf ! i) * 256 + unat (buf ! (i + 1))"

text \<open>\<^verbatim>\<open>buf.toString('ascii')\<close> drops the top bit of each byte.\<close>

definition ascii :: "byte list \<Rightarrow> string" where
  "ascii bs = map (\<lambda>b. char_of (unat b mod 128)) bs"

fun show_hex :: "nat \<Rightarrow> string" where
  "show_hex n = (if n < 16 then [hex_char n] else show_hex (n div 16) @ [hex_char (n mod 16)])"

declare show_hex.simps [simp del]

definition handleRequest :: "string \<Rightarrow> nat \<Rightarrow> socks_server \<times> socks_client \<Rightarrow> socks_server \<times> socks_client" where
  "handleRequest host port st =
     (case st of (sv, c) \<Rightarrow>
        let connId = svNextConnId sv;
            sv = sv\<lparr>svNextConnId := svNextConnId sv + 1\<rparr>
        in if \<not> svCallback sv then (sv, destroySocket (writeSocket (reply 1) c))
           else (sv\<lparr>svConnects := svConnects sv @ [\<lparr>coConnId = connId, coHost = host, coPort = port\<rparr>]\<rparr>, c))"

definition sendSuccess :: "socks_client \<Rightarrow> socks_client" where
  "sendSuccess c = writeSocket (reply 0) c"

definition sendFailure :: "socks_client \<Rightarrow> socks_client" where
  "sendFailure c = destroySocket (writeSocket (reply 5) c)"

definition requestHost :: "byte list \<Rightarrow> string" where
  "requestHost buf =
     (if buf ! 3 = 1 then
        join ''.'' (map (\<lambda>i. show_nat (unat (buf ! i))) [4, 5, 6, 7])
      else if buf ! 3 = 3 then ascii (take (unat (buf ! 4)) (drop 5 buf))
      else join '':'' (map (\<lambda>i. show_hex (readUInt16BE buf (4 + i))) [0, 2, 4, 6, 8, 10, 12, 14]))"

text \<open>The parse of the buffered request: not complete yet, refused with a code, or a target.\<close>

datatype request_parse = NeedMore | Refuse byte | Target string nat

definition parseRequest :: "byte list \<Rightarrow> request_parse" where
  "parseRequest buf =
     (if length buf < 4 then NeedMore
      else if buf ! 0 \<noteq> 5 \<or> buf ! 1 \<noteq> 1 then Refuse 7
      else let atyp = buf ! 3 in
        if atyp \<noteq> 1 \<and> atyp \<noteq> 4 \<and> atyp \<noteq> 3 then Refuse 8
        else if atyp = 3 \<and> length buf < 5 then NeedMore
        else let addrLen = (if atyp = 1 then 4 else if atyp = 4 then 16 else 1 + unat (buf ! 4));
                 requestLen = 4 + addrLen + 2
             in if length buf < requestLen then NeedMore
                else Target (requestHost buf) (readUInt16BE buf (4 + addrLen)))"

definition tryHandleRequest :: "socks_server \<times> socks_client \<Rightarrow> socks_server \<times> socks_client" where
  "tryHandleRequest st =
     (case st of (sv, c) \<Rightarrow>
        case parseRequest (scBuf c) of
          NeedMore \<Rightarrow> (sv, c)
        | Refuse code \<Rightarrow> (sv, destroySocket (writeSocket (reply code) (c\<lparr>scPhase := Done\<rparr>)))
        | Target host port \<Rightarrow> handleRequest host port (sv, c\<lparr>scPhase := Done, scTimerArmed := False\<rparr>))"

text \<open>The data handler, with the greeting falling through to a pipelined request.\<close>

definition greet :: "socks_client \<Rightarrow> socks_client" where
  "greet c =
     (if scPhase c \<noteq> Greeting then c
      else if length (scBuf c) < 2 then c
      else if scBuf c ! 0 \<noteq> 5 then destroySocket c
      else let greetingLen = 2 + unat (scBuf c ! 1)
           in if length (scBuf c) < greetingLen then c
              else writeSocket [5, 0] (c\<lparr>scBuf := drop greetingLen (scBuf c), scPhase := Request\<rparr>))"

definition onData :: "byte list \<Rightarrow> socks_server \<times> socks_client \<Rightarrow> socks_server \<times> socks_client" where
  "onData chunk st =
     (case st of (sv, c) \<Rightarrow>
        if scDestroyed c \<or> scPhase c = Done then (sv, c)
        else let c = greet (c\<lparr>scBuf := scBuf c @ chunk\<rparr>)
             in if scPhase c = Request then tryHandleRequest (sv, c) else (sv, c))"

section \<open>The server\<close>

record socks_state =
  skServer :: socks_server
  skSockets :: "(nat \<times> socks_client) list"

definition updateClient ::
  "nat \<Rightarrow> (socks_server \<times> socks_client \<Rightarrow> socks_server \<times> socks_client) \<Rightarrow> socks_state \<Rightarrow> socks_state" where
  "updateClient i f s =
     (case mget (skSockets s) i of
        None \<Rightarrow> s
      | Some c \<Rightarrow> (case f (skServer s, c) of (sv, c') \<Rightarrow> s\<lparr>skServer := sv, skSockets := mput i c' (skSockets s)\<rparr>))"

definition handshakeTimeout :: "socks_server \<times> socks_client \<Rightarrow> socks_server \<times> socks_client" where
  "handshakeTimeout st = (case st of (sv, c) \<Rightarrow> if scTimerArmed c \<and> \<not> scDestroyed c then (sv, destroySocket c) else (sv, c))"

definition closeServer :: "socks_state \<Rightarrow> socks_state" where
  "closeServer s = s\<lparr>skSockets := map (\<lambda>(i, c). (i, destroySocket c)) (skSockets s)\<rparr>"

definition newServer :: socks_state where
  "newServer = \<lparr>skServer = \<lparr>svNextConnId = 1, svCallback = False, svConnects = []\<rparr>, skSockets = []\<rparr>"

inductive socks_step :: "socks_state \<Rightarrow> socks_state \<Rightarrow> bool" where
  register: "socks_step s (s\<lparr>skServer := (skServer s)\<lparr>svCallback := True\<rparr>\<rparr>)"
| accept: "\<not> mhas (skSockets s) i \<Longrightarrow> socks_step s (s\<lparr>skSockets := mput i newClient (skSockets s)\<rparr>)"
| data: "socks_step s (updateClient i (onData chunk) s)"
| timeout: "socks_step s (updateClient i handshakeTimeout s)"
| gone: "socks_step s (s\<lparr>skSockets := mdel i (skSockets s)\<rparr>)"
| close: "socks_step s (closeServer s)"

section \<open>A decided parse stays decided\<close>

lemma requestHost_append:
  assumes "4 + (if buf ! 3 = 1 then 4 else if buf ! 3 = 4 then 16 else 1 + unat (buf ! 4)) + 2 \<le> length buf"
    and "buf ! 3 = 1 \<or> buf ! 3 = 4 \<or> buf ! 3 = 3"
  shows "requestHost (buf @ rest) = requestHost buf"
proof -
  have nth: "i < length buf \<Longrightarrow> (buf @ rest) ! i = buf ! i" for i by (simp add: nth_append)
  from assms(2) show ?thesis
  proof (elim disjE)
    assume "buf ! 3 = 1"
    then show ?thesis using assms(1) by (simp add: requestHost_def nth)
  next
    assume "buf ! 3 = 4"
    then show ?thesis using assms(1) by (simp add: requestHost_def nth readUInt16BE_def)
  next
    assume t: "buf ! 3 = 3"
    then have "unat (buf ! 4) \<le> length (drop 5 buf)" using assms(1) by simp
    then show ?thesis using t assms(1) by (simp add: requestHost_def nth)
  qed
qed

lemma parseRequest_append:
  assumes "parseRequest buf \<noteq> NeedMore"
  shows "parseRequest (buf @ rest) = parseRequest buf"
proof -
  have nth: "i < length buf \<Longrightarrow> (buf @ rest) ! i = buf ! i" for i by (simp add: nth_append)
  have four: "4 \<le> length buf" using assms by (auto simp: parseRequest_def split: if_splits)
  then have hdr: "(buf @ rest) ! 0 = buf ! 0" "(buf @ rest) ! Suc 0 = buf ! Suc 0" "(buf @ rest) ! 3 = buf ! 3"
    by (auto simp: nth_append)
  show ?thesis
  proof (cases "buf ! 0 \<noteq> 5 \<or> buf ! 1 \<noteq> 1 \<or> (buf ! 3 \<noteq> 1 \<and> buf ! 3 \<noteq> 4 \<and> buf ! 3 \<noteq> 3)")
    case True
    then show ?thesis using four by (auto simp: parseRequest_def hdr Let_def)
  next
    case False
    define len where "len = (if buf ! 3 = 1 then 4 else if buf ! 3 = 4 then 16 else 1 + unat (buf ! 4))"
    have full: "4 + len + 2 \<le> length buf" "buf ! 3 = 3 \<Longrightarrow> 5 \<le> length buf"
      using assms False four by (auto simp: parseRequest_def len_def Let_def split: if_splits)
    then have host: "requestHost (buf @ rest) = requestHost buf"
      using False by (intro requestHost_append) (auto simp: len_def)
    have "parseRequest buf = Target (requestHost buf) (readUInt16BE buf (4 + len))"
      using False full four by (auto simp: parseRequest_def len_def Let_def)
    moreover have "parseRequest (buf @ rest) = Target (requestHost buf) (readUInt16BE (buf @ rest) (4 + len))"
      using False full four host by (auto simp: parseRequest_def len_def nth hdr Let_def)
    moreover have "readUInt16BE (buf @ rest) (4 + len) = readUInt16BE buf (4 + len)"
      using full by (simp add: readUInt16BE_def nth)
    ultimately show ?thesis by simp
  qed
qed

section \<open>Chunks do not matter\<close>

text \<open>Two clients are equivalent when they are equal, or finished with the same visible history.\<close>

definition finished :: "socks_client \<Rightarrow> bool" where
  "finished c = (scDestroyed c \<or> scPhase c = Done)"

definition sameClient :: "socks_server \<times> socks_client \<Rightarrow> socks_server \<times> socks_client \<Rightarrow> bool" where
  "sameClient s t =
     (s = t \<or> (fst s = fst t \<and> finished (snd s) \<and> finished (snd t)
        \<and> (snd s)\<lparr>scBuf := []\<rparr> = (snd t)\<lparr>scBuf := []\<rparr>))"

lemma onData_finished [simp]: "finished c \<Longrightarrow> onData chunk (sv, c) = (sv, c)"
  by (auto simp: onData_def finished_def)

text \<open>What one handler call does to a running client, by the bytes it has then.\<close>

definition process :: "socks_server \<times> socks_client \<Rightarrow> socks_server \<times> socks_client" where
  "process st = (case st of (sv, c) \<Rightarrow> let c = greet c in if scPhase c = Request then tryHandleRequest (sv, c) else (sv, c))"

lemma onData_running:
  "\<not> finished c \<Longrightarrow> onData chunk (sv, c) = process (sv, c\<lparr>scBuf := scBuf c @ chunk\<rparr>)"
  by (simp add: onData_def finished_def process_def)

lemma finished_tryHandle:
  assumes "scPhase c = Request" "\<not> scDestroyed c"
  shows "finished (snd (tryHandleRequest (sv, c))) \<longleftrightarrow> parseRequest (scBuf c) \<noteq> NeedMore"
  using assms
  by (auto simp: tryHandleRequest_def handleRequest_def finished_def destroySocket_def writeSocket_def Let_def
      split: request_parse.splits)

lemma tryHandle_append:
  assumes "parseRequest (scBuf c) \<noteq> NeedMore"
  shows "sameClient (tryHandleRequest (sv, c)) (tryHandleRequest (sv, c\<lparr>scBuf := scBuf c @ rest\<rparr>))"
  using parseRequest_append [OF assms, of rest] assms
  by (auto simp: sameClient_def tryHandleRequest_def handleRequest_def finished_def destroySocket_def writeSocket_def Let_def
      split: request_parse.splits)

lemma greet_request: "scPhase c = Request \<Longrightarrow> greet c = c"
  by (simp add: greet_def)

lemma process_wait:
  assumes "\<not> finished c" "scPhase c = Request"
  shows "process (sv, c) = tryHandleRequest (sv, c)"
  using assms by (simp add: process_def greet_request)

lemma process_request:
  assumes "\<not> finished c" "scPhase c = Request"
  shows "sameClient (onData b (process (sv, c))) (process (sv, c\<lparr>scBuf := scBuf c @ b\<rparr>))"
proof (cases "parseRequest (scBuf c) = NeedMore")
  case True
  then have "process (sv, c) = (sv, c)" using process_wait [OF assms] by (simp add: tryHandleRequest_def)
  then show ?thesis using assms(1) by (simp add: onData_running sameClient_def)
next
  case False
  obtain sv' c' where p: "process (sv, c) = (sv', c')" by fastforce
  then have "finished c'" using finished_tryHandle [of c sv] False assms process_wait [OF assms, of sv]
    by (simp add: finished_def)
  moreover have "process (sv, c\<lparr>scBuf := scBuf c @ b\<rparr>) = tryHandleRequest (sv, c\<lparr>scBuf := scBuf c @ b\<rparr>)"
    using assms by (intro process_wait) (simp_all add: finished_def)
  ultimately show ?thesis using tryHandle_append [OF False, of sv b] p process_wait [OF assms, of sv] by simp
qed

lemma process_append:
  assumes "\<not> finished c"
  shows "sameClient (onData b (process (sv, c))) (process (sv, c\<lparr>scBuf := scBuf c @ b\<rparr>))"
proof (cases "scPhase c = Request")
  case True
  then show ?thesis using assms process_request by blast
next
  case False
  then have g: "scPhase c = Greeting" using assms by (cases "scPhase c") (simp_all add: finished_def)
  have d: "\<not> scDestroyed c" using assms by (simp add: finished_def)
  let ?n = "2 + unat (scBuf c ! 1)"
  consider "length (scBuf c) < 2" | "2 \<le> length (scBuf c)" "scBuf c ! 0 \<noteq> 5"
    | "2 \<le> length (scBuf c)" "scBuf c ! 0 = 5" "length (scBuf c) < ?n"
    | "2 \<le> length (scBuf c)" "scBuf c ! 0 = 5" "?n \<le> length (scBuf c)"
    by fastforce
  then show ?thesis
  proof cases
    case 1
    then have "process (sv, c) = (sv, c)" using g by (simp add: process_def greet_def)
    then show ?thesis using assms by (simp add: onData_running sameClient_def)
  next
    case 2
    then have hd: "(scBuf c @ b) ! 0 = scBuf c ! 0" by (auto simp: nth_append)
    have "process (sv, c) = (sv, destroySocket c)" using 2 g by (simp add: process_def greet_def destroySocket_def)
    moreover have "process (sv, c\<lparr>scBuf := scBuf c @ b\<rparr>) = (sv, destroySocket (c\<lparr>scBuf := scBuf c @ b\<rparr>))"
      using 2 g by (simp add: process_def greet_def destroySocket_def hd)
    ultimately show ?thesis by (simp add: sameClient_def finished_def destroySocket_def onData_def)
  next
    case 3
    then have "process (sv, c) = (sv, c)" using g by (simp add: process_def greet_def)
    then show ?thesis using assms by (simp add: onData_running sameClient_def)
  next
    case 4
    define k where "k = writeSocket [5, 0] (c\<lparr>scBuf := drop ?n (scBuf c), scPhase := Request\<rparr>)"
    have run: "\<not> finished k" "scPhase k = Request" using d by (simp_all add: k_def finished_def writeSocket_def)
    have "(scBuf c @ b) ! 0 = scBuf c ! 0" "(scBuf c @ b) ! Suc 0 = scBuf c ! Suc 0" using 4 by (auto simp: nth_append)
    then have "greet (c\<lparr>scBuf := scBuf c @ b\<rparr>) = k\<lparr>scBuf := scBuf k @ b\<rparr>" and "greet c = k"
      using 4 g by (simp_all add: greet_def writeSocket_def k_def)
    then have "process (sv, c) = process (sv, k)"
      "process (sv, c\<lparr>scBuf := scBuf c @ b\<rparr>) = process (sv, k\<lparr>scBuf := scBuf k @ b\<rparr>)"
      using run(2) by (simp_all add: process_def greet_request)
    then show ?thesis using process_request [OF run] by simp
  qed
qed

lemma onData_append: "sameClient (onData b (onData a st)) (onData (a @ b) st)"
proof -
  obtain sv c where st: "st = (sv, c)" by fastforce
  show ?thesis
  proof (cases "finished c")
    case True
    then show ?thesis by (simp add: st sameClient_def)
  next
    case False
    moreover have "\<not> finished (c\<lparr>scBuf := scBuf c @ a\<rparr>)" using False by (simp add: finished_def)
    ultimately show ?thesis using process_append [of "c\<lparr>scBuf := scBuf c @ a\<rparr>" b sv]
      by (simp add: st onData_running)
  qed
qed

interpretation socks: chunked_input onData sameClient
proof
  show "sameClient s s" for s by (simp add: sameClient_def)
  show "sameClient s t \<Longrightarrow> sameClient t u \<Longrightarrow> sameClient s u" for s t u by (auto simp: sameClient_def)
  show "sameClient s t \<Longrightarrow> sameClient (onData c s) (onData c t)" for s t c
    by (cases s; cases t) (auto simp: sameClient_def)
  show "sameClient (onData b (onData a s)) (onData (a @ b) s)" for a b s by (rule onData_append)
qed

section \<open>What a browser sends\<close>

datatype target = V4 byte byte byte byte | Domain "byte list" | V6 "nat list"

definition encodeU16 :: "nat \<Rightarrow> byte list" where
  "encodeU16 n = [of_nat (n div 256), of_nat (n mod 256)]"

definition encodeTarget :: "target \<Rightarrow> byte list" where
  "encodeTarget t =
     (case t of V4 a b c d \<Rightarrow> [1, a, b, c, d] | Domain bs \<Rightarrow> 3 # of_nat (length bs) # bs
      | V6 ws \<Rightarrow> 4 # concat (map encodeU16 ws))"

definition encodeRequest :: "target \<Rightarrow> nat \<Rightarrow> byte list" where
  "encodeRequest t port = [5, 1, 0] @ encodeTarget t @ encodeU16 port"

definition targetOk :: "target \<Rightarrow> bool" where
  "targetOk t =
     (case t of V4 a b c d \<Rightarrow> True | Domain bs \<Rightarrow> length bs < 256
      | V6 ws \<Rightarrow> length ws = 8 \<and> (\<forall>w \<in> set ws. w < 65536))"

definition showTarget :: "target \<Rightarrow> string" where
  "showTarget t =
     (case t of V4 a b c d \<Rightarrow> join ''.'' (map (\<lambda>x. show_nat (unat x)) [a, b, c, d])
      | Domain bs \<Rightarrow> ascii bs | V6 ws \<Rightarrow> join '':'' (map show_hex ws))"

lemma unat_byte_small: "n < 256 \<Longrightarrow> unat (of_nat n :: byte) = n"
  by (simp add: unat_of_nat)

lemma readUInt16BE_bound: "readUInt16BE buf i < 65536"
proof -
  have "unat (buf ! i) < 256" "unat (buf ! (i + 1)) < 256"
    using unsigned_less [of "buf ! i"] unsigned_less [of "buf ! (i + 1)"] by simp_all
  then show ?thesis by (simp add: readUInt16BE_def)
qed

lemma readUInt16BE_encode: "n < 65536 \<Longrightarrow> readUInt16BE (xs @ encodeU16 n @ ys) (length xs) = n"
  by (simp add: readUInt16BE_def encodeU16_def nth_append unat_byte_small div_less_iff_less_mult)

lemma encodeU16_nonempty: "length (encodeU16 n) = 2"
  by (simp add: encodeU16_def)

lemma list8: "length ws = 8 \<Longrightarrow> \<exists>a b c d e f g h. ws = [a, b, c, d, e, f, g, h]"
  by (auto simp: numeral_eq_Suc length_Suc_conv)

lemma requestHost_encode:
  assumes "targetOk t"
  shows "requestHost (encodeRequest t port) = showTarget t"
proof (cases t)
  case (V6 ws)
  then obtain a b c d e f g h where ws: "ws = [a, b, c, d, e, f, g, h]"
    and small: "\<forall>w \<in> {a, b, c, d, e, f, g, h}. w < 65536"
    using assms list8 [of ws] by (auto simp: targetOk_def)
  then show ?thesis
    by (simp add: V6 showTarget_def requestHost_def encodeRequest_def encodeTarget_def readUInt16BE_def encodeU16_def
        unat_byte_small div_less_iff_less_mult)
qed (use assms in \<open>simp_all add: showTarget_def requestHost_def encodeRequest_def encodeTarget_def targetOk_def unat_byte_small\<close>)

lemma parseRequest_encode:
  assumes "targetOk t" "port < 65536"
  shows "parseRequest (encodeRequest t port) = Target (showTarget t) port"
proof -
  define len where "len = length (encodeTarget t) - 1"
  let ?buf = "encodeRequest t port"
  have tlen: "length (encodeTarget t) = 1 + len"
    by (cases t) (simp_all add: len_def encodeTarget_def)
  have hdr: "?buf ! 0 = 5" "?buf ! 1 = 1" "?buf ! 3 = (case t of V4 _ _ _ _ \<Rightarrow> 1 | Domain _ \<Rightarrow> 3 | V6 _ \<Rightarrow> 4)"
    by (cases t; simp add: encodeRequest_def encodeTarget_def)+
  have alen: "len = (if ?buf ! 3 = 1 then 4 else if ?buf ! 3 = 4 then 16 else 1 + unat (?buf ! 4))"
  proof (cases t)
    case (V6 ws)
    have "length (concat (map encodeU16 xs)) = 2 * length xs" for xs
      by (induction xs) (simp_all add: encodeU16_def)
    then show ?thesis using V6 assms(1) hdr(3) by (simp add: len_def encodeTarget_def targetOk_def)
  qed (use assms(1) hdr(3) in \<open>simp_all add: len_def encodeTarget_def targetOk_def encodeRequest_def unat_byte_small\<close>)
  have length: "length ?buf = 4 + len + 2" by (simp add: encodeRequest_def tlen encodeU16_nonempty)
  have "readUInt16BE (([5, 1, 0] @ encodeTarget t) @ encodeU16 port @ []) (length ([5, 1, 0] @ encodeTarget t)) = port"
    by (rule readUInt16BE_encode [OF assms(2)])
  then have p: "readUInt16BE ?buf (4 + len) = port" by (simp add: encodeRequest_def tlen numeral_eq_Suc)
  have kinds: "?buf ! 3 = 1 \<or> ?buf ! 3 = 4 \<or> ?buf ! 3 = 3" using hdr(3) by (cases t) simp_all
  have "parseRequest ?buf = Target (requestHost ?buf) (readUInt16BE ?buf (4 + len))"
    unfolding parseRequest_def Let_def using hdr(1,2) kinds length by (simp add: alen [symmetric])
  then show ?thesis by (simp add: p requestHost_encode [OF assms(1)])
qed

section \<open>The server's invariant\<close>

definition clientOk :: "socks_client \<Rightarrow> bool" where
  "clientOk c = (finished c \<or> scTimerArmed c)"

definition serverOk :: "socks_server \<Rightarrow> bool" where
  "serverOk sv =
     (distinct (map coConnId (svConnects sv))
      \<and> (\<forall>k \<in> set (svConnects sv). coConnId k < svNextConnId sv \<and> coPort k < 65536))"

definition socksInv :: "socks_state \<Rightarrow> bool" where
  "socksInv s = (serverOk (skServer s) \<and> (\<forall>i c. mget (skSockets s) i = Some c \<longrightarrow> clientOk c))"

lemma parseRequest_port: "parseRequest buf = Target host port \<Longrightarrow> port < 65536"
  by (auto simp: parseRequest_def Let_def readUInt16BE_bound split: if_splits)

lemma serverOk_handle:
  assumes "serverOk sv" "port < 65536"
  shows "serverOk (fst (handleRequest host port (sv, c)))"
  using assms by (force simp: handleRequest_def serverOk_def Let_def)

lemma clientOk_greet: "clientOk c \<Longrightarrow> clientOk (greet c)"
  by (auto simp: clientOk_def greet_def finished_def destroySocket_def writeSocket_def Let_def)

lemma socks_onData:
  assumes "serverOk sv" "clientOk c"
  shows "serverOk (fst (onData chunk (sv, c))) \<and> clientOk (snd (onData chunk (sv, c)))"
proof (cases "finished c")
  case False
  let ?c = "greet (c\<lparr>scBuf := scBuf c @ chunk\<rparr>)"
  have c: "clientOk ?c" using assms(2) by (intro clientOk_greet) (simp add: clientOk_def finished_def)
  have "serverOk (fst (tryHandleRequest (sv, ?c))) \<and> clientOk (snd (tryHandleRequest (sv, ?c)))"
  proof (cases "parseRequest (scBuf ?c)")
    case (Target host port)
    then show ?thesis using serverOk_handle [OF assms(1) parseRequest_port [OF Target]]
      by (auto simp: tryHandleRequest_def handleRequest_def clientOk_def finished_def destroySocket_def writeSocket_def Let_def)
  qed (use assms c in \<open>simp_all add: tryHandleRequest_def clientOk_def finished_def destroySocket_def writeSocket_def\<close>)
  then show ?thesis using False assms c by (simp add: onData_running process_def Let_def)
qed (use assms in simp)

lemma socksInv_update:
  assumes "socksInv s" "\<And>sv c. serverOk sv \<Longrightarrow> clientOk c \<Longrightarrow> serverOk (fst (f (sv, c))) \<and> clientOk (snd (f (sv, c)))"
  shows "socksInv (updateClient i f s)"
proof (cases "mget (skSockets s) i")
  case (Some c)
  obtain sv' c' where f: "f (skServer s, c) = (sv', c')" by fastforce
  have "serverOk sv'" "clientOk c'" using assms(2) [of "skServer s" c] assms(1) Some f by (auto simp: socksInv_def)
  then show ?thesis using Some f assms(1) by (auto simp: updateClient_def socksInv_def)
qed (use assms(1) in \<open>simp add: updateClient_def\<close>)

lemma mget_closeServer: "mget (skSockets (closeServer s)) i = map_option destroySocket (mget (skSockets s) i)"
proof -
  have "mget (map (\<lambda>(i, c). (i, destroySocket c)) xs) i = map_option destroySocket (mget xs i)" for xs
    by (induction xs) (auto simp: mget_def)
  then show ?thesis by (simp add: closeServer_def)
qed

lemma socksInv_step: "socks_step s t \<Longrightarrow> socksInv s \<Longrightarrow> socksInv t"
proof (induction rule: socks_step.induct)
  case (data s i chunk)
  then show ?case using socksInv_update [of s "onData chunk" i] socks_onData by blast
next
  case (timeout s i)
  have "serverOk (fst (handshakeTimeout (sv, c))) \<and> clientOk (snd (handshakeTimeout (sv, c)))"
    if "serverOk sv" "clientOk c" for sv c
    using that by (simp add: handshakeTimeout_def clientOk_def finished_def destroySocket_def)
  with timeout show ?case using socksInv_update [of s handshakeTimeout i] by blast
next
  case (close s)
  have "clientOk (destroySocket c)" for c by (simp add: clientOk_def finished_def destroySocket_def)
  with close show ?case by (auto simp: socksInv_def mget_closeServer) (simp add: closeServer_def)
next
  case (gone s i)
  then show ?case by (auto simp: socksInv_def)
next
  case (accept s i)
  then show ?case by (auto simp: socksInv_def newClient_def clientOk_def)
qed (auto simp: socksInv_def serverOk_def)

interpretation socks_server: safety_invariant "\<lambda>s. s = newServer" socks_step socksInv
proof
  show "s = newServer \<Longrightarrow> socksInv s" for s by (simp add: newServer_def socksInv_def serverOk_def mget_def)
  show "socksInv s \<Longrightarrow> socks_step s t \<Longrightarrow> socksInv t" for s t using socksInv_step by blast
qed

lemma chunking_facts:
  "fst (fold onData chunks (sv, newClient)) = fst (onData (concat chunks) (sv, newClient))
   \<and> (snd (fold onData chunks (sv, newClient)))\<lparr>scBuf := []\<rparr> = (snd (onData (concat chunks) (sv, newClient)))\<lparr>scBuf := []\<rparr>"
proof (cases chunks)
  case Nil
  have "greet newClient = newClient" by (simp add: greet_def newClient_def)
  then have "onData [] (sv, newClient) = (sv, newClient)" by (simp add: onData_def newClient_def)
  with Nil show ?thesis by simp
next
  case (Cons c cs)
  have "sameClient (fold onData chunks (sv, newClient)) (onData (concat chunks) (sv, newClient))"
    unfolding Cons by (rule socks.chunking_irrelevant)
  then show ?thesis unfolding sameClient_def by auto
qed

section \<open>Properties\<close>

text \<open>
  C28: How the bytes are cut into chunks does not matter. A client that sends the same bytes in any
  number of pieces, cut anywhere, ends with the same phase, the same replies, the same fate of its
  socket and its handshake timer, and the server with the same list of CONNECTs.
\<close>

theorem chunking_is_invisible:
  "fst (fold onData chunks (sv, newClient)) = fst (onData (concat chunks) (sv, newClient))
   \<and> (snd (fold onData chunks (sv, newClient)))\<lparr>scBuf := []\<rparr> = (snd (onData (concat chunks) (sv, newClient)))\<lparr>scBuf := []\<rparr>"
  by (rule chunking_facts)

text \<open>
  A well-formed CONNECT gets through. Whatever methods the browser offers, and however its
  greeting and request are cut into chunks and followed by early data, a request for an IPv4 address,
  a domain name or an IPv6 address makes exactly one CONNECT, with the next connection number, the
  printed host and the port; the client is told no authentication is needed and its handshake timer
  is off.
\<close>

theorem connect_roundtrip:
  assumes "concat chunks = [5, of_nat (length methods)] @ methods @ encodeRequest t port @ early"
    and "length methods < 256" "targetOk t" "port < 65536" "svCallback sv"
  shows "\<exists>c. fold onData chunks (sv, newClient) =
      (sv\<lparr>svNextConnId := svNextConnId sv + 1,
          svConnects := svConnects sv @ [\<lparr>coConnId = svNextConnId sv, coHost = showTarget t, coPort = port\<rparr>]\<rparr>, c)
    \<and> scPhase c = Done \<and> scWritten c = [[5, 0]] \<and> \<not> scDestroyed c \<and> \<not> scTimerArmed c"
proof -
  let ?bytes = "[5, of_nat (length methods)] @ methods @ encodeRequest t port @ early"
  let ?k = "writeSocket [5, 0] (newClient\<lparr>scBuf := encodeRequest t port @ early, scPhase := Request\<rparr>)"
  have greet: "greet (newClient\<lparr>scBuf := ?bytes\<rparr>) = ?k"
    using assms(2) by (simp add: greet_def newClient_def unat_byte_small)
  have parse: "parseRequest (encodeRequest t port @ early) = Target (showTarget t) port"
    using parseRequest_encode [OF assms(3,4)] by (simp add: parseRequest_append)
  have one: "onData ?bytes (sv, newClient) =
      (sv\<lparr>svNextConnId := svNextConnId sv + 1,
          svConnects := svConnects sv @ [\<lparr>coConnId = svNextConnId sv, coHost = showTarget t, coPort = port\<rparr>]\<rparr>,
       ?k\<lparr>scPhase := Done, scTimerArmed := False\<rparr>)"
  proof -
    have "onData ?bytes (sv, newClient) = tryHandleRequest (sv, ?k)"
      using greet by (simp add: onData_def newClient_def writeSocket_def)
    also have "\<dots> = handleRequest (showTarget t) port (sv, ?k\<lparr>scPhase := Done, scTimerArmed := False\<rparr>)"
      using parse by (simp add: tryHandleRequest_def writeSocket_def)
    finally show ?thesis using assms(5) by (simp add: handleRequest_def Let_def)
  qed
  obtain sv' c where f: "fold onData chunks (sv, newClient) = (sv', c)" by fastforce
  have "c\<lparr>scBuf := []\<rparr> = (?k\<lparr>scPhase := Done, scTimerArmed := False\<rparr>)\<lparr>scBuf := []\<rparr>"
    and "sv' = fst (onData ?bytes (sv, newClient))"
    using chunking_facts [of chunks sv] one assms(1) f by simp_all
  then show ?thesis using one f by (cases c) (simp add: writeSocket_def newClient_def)
qed

theorem connect_roundtrip_witness:
  "\<exists>c. fold onData [[5], [1, 0, 5, 1, 0, 1, 127, 0], [0, 1, 1, 187]] (\<lparr>svNextConnId = 1, svCallback = True, svConnects = []\<rparr>, newClient)
     = (\<lparr>svNextConnId = 2, svCallback = True, svConnects = [\<lparr>coConnId = 1, coHost = ''127.0.0.1'', coPort = 443\<rparr>]\<rparr>, c)"
proof -
  have bytes: "concat [[5], [1, 0, 5, 1, 0, 1, 127, 0], [0, 1, 1, 187]]
      = [5, of_nat (length [0 :: byte])] @ [0] @ encodeRequest (V4 127 0 0 1) 443 @ []"
    by (simp add: encodeRequest_def encodeTarget_def encodeU16_def)
  have host: "showTarget (V4 127 0 0 1) = ''127.0.0.1''" by code_simp
  from connect_roundtrip [OF bytes, of "\<lparr>svNextConnId = 1, svCallback = True, svConnects = []\<rparr>"]
  show ?thesis by (auto simp: targetOk_def host numeral_2_eq_2)
qed

text \<open>
  Connection numbers are never reused and no handshake can hang. In every state the server can
  reach, by clients connecting, sending, stalling and leaving in any order, the CONNECTs handed out
  have distinct numbers and 16-bit ports, and every tracked socket is finished, destroyed or has its
  handshake timer running; closing the server destroys every one of them.
\<close>

theorem socks_server_safe:
  assumes "socks_step\<^sup>*\<^sup>* newServer s"
  shows "distinct (map coConnId (svConnects (skServer s)))
    \<and> (\<forall>k. k \<in> set (svConnects (skServer s)) \<longrightarrow> coConnId k < svNextConnId (skServer s) \<and> coPort k < 65536)
    \<and> (\<forall>i c. mget (skSockets s) i = Some c \<longrightarrow> scDestroyed c \<or> scPhase c = Done \<or> scTimerArmed c)
    \<and> (\<forall>i c. mget (skSockets (closeServer s)) i = Some c \<longrightarrow> scDestroyed c)"
  using socks_server.reachable_inv [OF refl assms]
  by (auto simp: socksInv_def serverOk_def clientOk_def finished_def mget_closeServer destroySocket_def)

theorem socks_server_safe_witness:
  "\<exists>s. socks_step\<^sup>*\<^sup>* newServer s \<and> mget (skSockets s) 7 = Some newClient
     \<and> (\<forall>i c. mget (skSockets (closeServer s)) i = Some c \<longrightarrow> scDestroyed c)"
proof -
  let ?s = "newServer\<lparr>skSockets := mput 7 newClient (skSockets newServer)\<rparr>"
  have "socks_step\<^sup>*\<^sup>* newServer ?s"
    by (rule r_into_rtranclp, rule socks_step.accept) (simp add: newServer_def mhas_def mget_def)
  moreover from socks_server_safe [OF this]
  have "\<forall>i c. mget (skSockets (closeServer ?s)) i = Some c \<longrightarrow> scDestroyed c" by blast
  moreover have "mget (skSockets ?s) 7 = Some newClient" by simp
  ultimately show ?thesis by blast
qed

end
