(* ===== verification/TunnelBridge.thy ===== *)
theory TunnelBridge
  imports JsText Socks5
begin

text \<open>
  The bridge of \<^verbatim>\<open>apps/engine/src/tunnel/tunnel-server.ts\<close> between the SOCKS5 clients of the browser and
  the WebSocket of the phone. A connection entry keeps the fields of the code (the socket, the data
  listener, \<open>paused\<close>, \<open>wsBackpressured\<close>) and what the runtime holds for it: whether the socket's read
  side is paused, whether a drain listener is registered and whether a drain poll is scheduled.
  Entries stay in \<open>tnEntries\<close> after they leave the map \<open>connections\<close>, because handlers still refer to
  them; \<open>tnConnections\<close> lists the keys of that map. What the runtime decides is an argument of the
  handler: how much of \<^verbatim>\<open>ws.bufferedAmount\<close> the system has taken, the result of \<^verbatim>\<open>socket.write\<close>, and whether a \<^verbatim>\<open>destroy()\<close>
  or \<^verbatim>\<open>terminate()\<close> throws. Connection ids come from the counter of the SOCKS5 server.
\<close>

section \<open>Frames\<close>

datatype tunnel_message =
    TmConnect rat string nat
  | TmConnected rat
  | TmData rat string
  | TmClose rat
  | TmError rat string

primrec tmConnId :: "tunnel_message \<Rightarrow> rat" where
  "tmConnId (TmConnect c h p) = c"
| "tmConnId (TmConnected c) = c"
| "tmConnId (TmData c d) = c"
| "tmConnId (TmClose c) = c"
| "tmConnId (TmError c m) = c"

text \<open>The object literal of a message, printed by \<^verbatim>\<open>JSON.stringify\<close> when it is sent.\<close>

primrec frameJson :: "tunnel_message \<Rightarrow> json" where
  "frameJson (TmConnect c h p) =
     JObj [(''type'', JStr ''connect''), (''connId'', JNum (Fin c)), (''host'', JStr h), (''port'', JNum (Fin (of_nat p)))]"
| "frameJson (TmConnected c) = JObj [(''type'', JStr ''connected''), (''connId'', JNum (Fin c))]"
| "frameJson (TmData c d) = JObj [(''type'', JStr ''data''), (''connId'', JNum (Fin c)), (''data'', JStr d)]"
| "frameJson (TmClose c) = JObj [(''type'', JStr ''close''), (''connId'', JNum (Fin c))]"
| "frameJson (TmError c m) = JObj [(''type'', JStr ''error''), (''connId'', JNum (Fin c)), (''message'', JStr m)]"

definition frameOfJson :: "json option \<Rightarrow> tunnel_message option" where
  "frameOfJson parsed =
     (case parsed of
        Some (JObj msg) \<Rightarrow>
          (case (mget msg ''type'', mget msg ''connId'') of
             (Some (JStr ty), Some (JNum (Fin connId))) \<Rightarrow>
               if ty = ''connected'' then Some (TmConnected connId)
               else if ty = ''data'' then
                 (case mget msg ''data'' of Some (JStr d) \<Rightarrow> Some (TmData connId d) | _ \<Rightarrow> None)
               else if ty = ''close'' then Some (TmClose connId)
               else if ty = ''error'' then
                 Some (TmError connId (case mget msg ''message'' of Some (JStr m) \<Rightarrow> m | _ \<Rightarrow> []))
               else None
           | _ \<Rightarrow> None)
      | _ \<Rightarrow> None)"

definition parseTunnelFrame :: "string \<Rightarrow> tunnel_message option" where
  "parseTunnelFrame raw = frameOfJson (jsonParse raw)"

text \<open>
  A message as text, and the bytes it occupies in the send buffer: the payload behind the header of an
  unmasked WebSocket frame. Messages carry whole numbers only.
\<close>

definition frameText :: "tunnel_message \<Rightarrow> string" where
  "frameText msg = stringify (\<lambda>_. []) (frameJson msg)"

definition frameBytes :: "tunnel_message \<Rightarrow> nat" where
  "frameBytes msg =
     (let n = length (utf8 (frameText msg)) in (if n < 126 then 2 else if n < 65536 then 4 else 10) + n)"

section \<open>State\<close>

definition WS_HIGH_WATER_BYTES :: nat where
  "WS_HIGH_WATER_BYTES = 1024 * 1024"

definition WS_LOW_WATER_BYTES :: nat where
  "WS_LOW_WATER_BYTES = 256 * 1024"

record socks_entry =
  seSocket :: socks_client
  seListener :: bool
  sePaused :: bool
  seWsBackpressured :: bool
  seReadPaused :: bool
  seDrainArmed :: bool
  sePollArmed :: bool

datatype ws_state = WsOpen | WsClosing | WsClosed

record tunnel =
  tnWs :: ws_state
  tnWsPaused :: bool
  tnSent :: "tunnel_message list"
  tnBuffered :: nat
  tnEntries :: "(nat \<times> socks_entry) list"
  tnConnections :: "nat list"
  tnBackpressured :: "nat list"
  tnNextConnId :: nat

definition newTunnel :: tunnel where
  "newTunnel = \<lparr>tnWs = WsOpen, tnWsPaused = False, tnSent = [], tnBuffered = 0, tnEntries = [], tnConnections = [],
     tnBackpressured = [], tnNextConnId = 1\<rparr>"

definition updEntry :: "nat \<Rightarrow> (socks_entry \<Rightarrow> socks_entry) \<Rightarrow> tunnel \<Rightarrow> tunnel" where
  "updEntry c f t = (case mget (tnEntries t) c of None \<Rightarrow> t | Some e \<Rightarrow> t\<lparr>tnEntries := mput c (f e) (tnEntries t)\<rparr>)"

definition sendToApk :: "tunnel_message \<Rightarrow> tunnel \<Rightarrow> tunnel" where
  "sendToApk msg t = (if tnWs t = WsOpen then t\<lparr>tnSent := tnSent t @ [msg], tnBuffered := tnBuffered t + frameBytes msg\<rparr> else t)"

section \<open>Backpressure towards the phone\<close>

text \<open>\<^verbatim>\<open>ws.pause()\<close> and \<^verbatim>\<open>ws.resume()\<close> do nothing on a closed WebSocket.\<close>

definition addWsBackpressure :: "nat \<Rightarrow> tunnel \<Rightarrow> tunnel" where
  "addWsBackpressure c t =
     (let wasEmpty = (tnBackpressured t = []);
          t = t\<lparr>tnBackpressured := sadd c (tnBackpressured t)\<rparr>
      in if wasEmpty \<and> tnWs t \<noteq> WsClosed then t\<lparr>tnWsPaused := True\<rparr> else t)"

definition removeWsBackpressure :: "nat \<Rightarrow> tunnel \<Rightarrow> tunnel" where
  "removeWsBackpressure c t =
     (if c \<notin> set (tnBackpressured t) then t
      else let t = t\<lparr>tnBackpressured := sdel c (tnBackpressured t)\<rparr>
           in if tnBackpressured t = [] \<and> tnWs t \<noteq> WsClosed then t\<lparr>tnWsPaused := False\<rparr> else t)"

definition destroySocksConn :: "nat \<Rightarrow> tunnel \<Rightarrow> tunnel" where
  "destroySocksConn c t = updEntry c (\<lambda>e. e\<lparr>seListener := False, seSocket := destroySocket (seSocket e)\<rparr>) t"

definition clearFlag :: "nat \<Rightarrow> tunnel \<Rightarrow> tunnel" where
  "clearFlag c t = removeWsBackpressure c (updEntry c (\<lambda>e. e\<lparr>seWsBackpressured := False\<rparr>) t)"

definition deleteConn :: "nat \<Rightarrow> tunnel \<Rightarrow> tunnel" where
  "deleteConn c t = t\<lparr>tnConnections := sdel c (tnConnections t)\<rparr>"

section \<open>Handlers\<close>

text \<open>
  A CONNECT of the SOCKS5 server. With the phone gone the socket is refused and nothing is
  registered; the second component is the socket after the handler.
\<close>

definition onConnect :: "socks_connect \<Rightarrow> socks_client \<Rightarrow> tunnel \<Rightarrow> tunnel \<times> socks_client" where
  "onConnect conn sock t =
     (let c = coConnId conn;
          t = t\<lparr>tnNextConnId := c + 1\<rparr>
      in if tnWs t \<noteq> WsOpen then (t, destroySocket (sendFailure sock))
         else let entry = \<lparr>seSocket = sock, seListener = True, sePaused = False, seWsBackpressured = False,
                           seReadPaused = False, seDrainArmed = False, sePollArmed = False\<rparr>;
                  t = t\<lparr>tnEntries := mput c entry (tnEntries t), tnConnections := sadd c (tnConnections t)\<rparr>
              in (sendToApk (TmConnect (of_nat c) (coHost conn) (coPort conn)) t, sock))"

text \<open>\<open>left\<close> bounds what \<^verbatim>\<open>ws.bufferedAmount\<close> reports after the send: the system may have taken some of it at once.\<close>

definition onSocketData :: "nat \<Rightarrow> byte list \<Rightarrow> nat \<Rightarrow> tunnel \<Rightarrow> tunnel" where
  "onSocketData c chunk left t =
     (if tnWs t \<noteq> WsOpen then t
      else let t = sendToApk (TmData (of_nat c) (base64_encode chunk)) t;
               t = t\<lparr>tnBuffered := min left (tnBuffered t)\<rparr>
           in updEntry c (\<lambda>e. if \<not> sePaused e \<and> tnBuffered t > WS_HIGH_WATER_BYTES
                              then e\<lparr>sePaused := True, seReadPaused := True, sePollArmed := True\<rparr>
                              else e) t)"

text \<open>The socket is gone when it emits \<^verbatim>\<open>close\<close> or \<^verbatim>\<open>error\<close>; both handlers do the same.\<close>

definition onSocketGone :: "nat \<Rightarrow> tunnel \<Rightarrow> tunnel" where
  "onSocketGone c t =
     (let t = updEntry c (\<lambda>e. e\<lparr>seSocket := destroySocket (seSocket e)\<rparr>) t;
          t = clearFlag c (deleteConn c t)
      in sendToApk (TmClose (of_nat c)) t)"

definition onDrain :: "nat \<Rightarrow> tunnel \<Rightarrow> tunnel" where
  "onDrain c t = clearFlag c (updEntry c (\<lambda>e. e\<lparr>seDrainArmed := False\<rparr>) t)"

text \<open>One run of the poll that \<^verbatim>\<open>scheduleDrainResume\<close> arms; an unfinished one stays armed.\<close>

definition pollDrain :: "nat \<Rightarrow> tunnel \<Rightarrow> tunnel" where
  "pollDrain c t =
     updEntry c (\<lambda>e.
       if \<not> sePaused e then e\<lparr>sePollArmed := False\<rparr>
       else if scDestroyed (seSocket e) \<or> tnWs t \<noteq> WsOpen then e\<lparr>sePaused := False, sePollArmed := False\<rparr>
       else if tnBuffered t \<le> WS_LOW_WATER_BYTES
            then e\<lparr>sePaused := False, seReadPaused := False, sePollArmed := False\<rparr>
       else e) t"

text \<open>The key of the map that a number received from the phone selects.\<close>

definition connKey :: "rat \<Rightarrow> tunnel \<Rightarrow> nat option" where
  "connKey r t = find (\<lambda>c. of_nat c = r) (tnConnections t)"

definition onTunnelData :: "nat \<Rightarrow> string \<Rightarrow> bool \<Rightarrow> tunnel \<Rightarrow> tunnel" where
  "onTunnelData c d writeOk t =
     (let t = updEntry c (\<lambda>e. e\<lparr>seSocket := writeSocket (base64_decode d) (seSocket e)\<rparr>) t
      in case mget (tnEntries t) c of
           None \<Rightarrow> t
         | Some e \<Rightarrow>
             if \<not> writeOk \<and> \<not> seWsBackpressured e
             then addWsBackpressure c (updEntry c (\<lambda>e. e\<lparr>seWsBackpressured := True, seDrainArmed := True\<rparr>) t)
             else t)"

definition onMessage :: "string \<Rightarrow> bool \<Rightarrow> tunnel \<Rightarrow> tunnel" where
  "onMessage raw writeOk t =
     (case parseTunnelFrame raw of
        None \<Rightarrow> t
      | Some msg \<Rightarrow>
          (case connKey (tmConnId msg) t of
             None \<Rightarrow> t
           | Some c \<Rightarrow>
               (case msg of
                  TmConnected _ \<Rightarrow> updEntry c (\<lambda>e. e\<lparr>seSocket := sendSuccess (seSocket e)\<rparr>) t
                | TmData _ d \<Rightarrow> onTunnelData c d writeOk t
                | TmClose _ \<Rightarrow> deleteConn c (clearFlag c (destroySocksConn c t))
                | TmError _ _ \<Rightarrow>
                    deleteConn c (clearFlag c (updEntry c (\<lambda>e. e\<lparr>seSocket := sendFailure (seSocket e)\<rparr>) t))
                | TmConnect _ _ _ \<Rightarrow> t)))"

text \<open>
  Removing one connection during teardown: the listener is detached first, and when the destruction
  throws the connection stays registered for the next attempt.
\<close>

definition tearConn :: "(nat \<Rightarrow> bool) \<Rightarrow> nat \<Rightarrow> tunnel \<Rightarrow> tunnel" where
  "tearConn destroyOk c t =
     (if destroyOk c then deleteConn c (clearFlag c (destroySocksConn c t))
      else updEntry c (\<lambda>e. e\<lparr>seListener := False\<rparr>) t)"

definition failConn :: "(nat \<Rightarrow> bool) \<Rightarrow> nat \<Rightarrow> tunnel \<Rightarrow> tunnel" where
  "failConn destroyOk c t =
     updEntry c (\<lambda>e. e\<lparr>seSocket := (if destroyOk c then sendFailure (seSocket e)
                                    else writeSocket (reply 5) (seSocket e))\<rparr>) t"

definition onWsGone :: "(nat \<Rightarrow> bool) \<Rightarrow> tunnel \<Rightarrow> tunnel" where
  "onWsGone destroyOk t = fold (\<lambda>c t. tearConn destroyOk c (failConn destroyOk c t)) (tnConnections t) t"

text \<open>
  The part of \<^verbatim>\<open>closeTunnel\<close> before its first wait: every registered connection, then the WebSocket; the
  second component counts the failures. Closing the SOCKS5 server destroys the sockets it tracks.
\<close>

definition closeSweep :: "(nat \<Rightarrow> bool) \<Rightarrow> bool \<Rightarrow> tunnel \<Rightarrow> tunnel \<times> nat" where
  "closeSweep destroyOk terminateOk t =
     (let failures = length (filter (\<lambda>c. \<not> destroyOk c) (tnConnections t));
          t = fold (tearConn destroyOk) (tnConnections t) t
      in if terminateOk then (t\<lparr>tnWs := (if tnWs t = WsClosed then WsClosed else WsClosing)\<rparr>, failures)
         else (t, Suc failures))"

section \<open>The bridge as a transition system\<close>

inductive bridge_step :: "tunnel \<Rightarrow> tunnel \<Rightarrow> bool" where
  connect: "tnNextConnId t \<le> coConnId conn \<Longrightarrow> \<not> scDestroyed sock \<Longrightarrow> bridge_step t (fst (onConnect conn sock t))"
| data: "mget (tnEntries t) c = Some e \<Longrightarrow> seListener e \<Longrightarrow> \<not> scDestroyed (seSocket e) \<Longrightarrow> \<not> seReadPaused e
    \<Longrightarrow> bridge_step t (onSocketData c chunk left t)"
| gone: "mget (tnEntries t) c = Some e \<Longrightarrow> bridge_step t (onSocketGone c t)"
| message: "bridge_step t (onMessage raw writeOk t)"
| drain: "mget (tnEntries t) c = Some e \<Longrightarrow> seDrainArmed e \<Longrightarrow> bridge_step t (onDrain c t)"
| poll: "mget (tnEntries t) c = Some e \<Longrightarrow> sePollArmed e \<Longrightarrow> bridge_step t (pollDrain c t)"
| flush: "n \<le> tnBuffered t \<Longrightarrow> bridge_step t (t\<lparr>tnBuffered := n\<rparr>)"
| wsClose: "bridge_step t (onWsGone destroyOk (t\<lparr>tnWs := WsClosed\<rparr>))"
| wsError: "bridge_step t (onWsGone destroyOk (t\<lparr>tnWs := (if tnWs t = WsClosed then WsClosed else WsClosing)\<rparr>))"
| close: "bridge_step t (fst (closeSweep destroyOk terminateOk t))"

inductive_cases bridge_stepE: "bridge_step t u"

section \<open>The invariant\<close>

definition framesOf :: "nat \<Rightarrow> tunnel_message list \<Rightarrow> tunnel_message list" where
  "framesOf c sent = filter (\<lambda>m. tmConnId m = of_nat c) sent"

text \<open>What the phone is told about one connection: it opens, carries data, and ends.\<close>

definition conversation :: "nat \<Rightarrow> tunnel_message list \<Rightarrow> bool" where
  "conversation c fs \<longleftrightarrow>
     (\<exists>h p ds n. fs = TmConnect (of_nat c) h p # map (TmData (of_nat c)) ds @ replicate n (TmClose (of_nat c)))"

definition entryOk :: "tunnel \<Rightarrow> nat \<Rightarrow> socks_entry \<Rightarrow> bool" where
  "entryOk t c e \<longleftrightarrow>
     (seWsBackpressured e \<longleftrightarrow> c \<in> set (tnBackpressured t)) \<and>
     (seWsBackpressured e \<longrightarrow> c \<in> set (tnConnections t) \<and> seDrainArmed e) \<and>
     (seListener e \<and> \<not> scDestroyed (seSocket e) \<longrightarrow> c \<in> set (tnConnections t)) \<and>
     (sePaused e \<longleftrightarrow> sePollArmed e) \<and> (sePollArmed e \<longrightarrow> seReadPaused e) \<and>
     (seReadPaused e \<and> \<not> scDestroyed (seSocket e) \<and> tnWs t = WsOpen \<longrightarrow> sePollArmed e) \<and>
     conversation c (framesOf c (tnSent t)) \<and>
     (TmClose (of_nat c) \<in> set (tnSent t) \<longrightarrow> scDestroyed (seSocket e))"

definition wsOk :: "tunnel \<Rightarrow> bool" where
  "wsOk t \<longleftrightarrow> distinct (tnConnections t) \<and> distinct (tnBackpressured t)
     \<and> set (tnConnections t) \<subseteq> set (mkeys (tnEntries t))
     \<and> (\<forall>c\<in>set (mkeys (tnEntries t)). c < tnNextConnId t)
     \<and> set (tnBackpressured t) \<subseteq> set (tnConnections t)
     \<and> (tnWs t \<noteq> WsClosed \<longrightarrow> (tnWsPaused t \<longleftrightarrow> tnBackpressured t \<noteq> []))
     \<and> (\<forall>m\<in>set (tnSent t). \<exists>c\<in>set (mkeys (tnEntries t)). tmConnId m = of_nat c)"

definition tunnelInv :: "tunnel \<Rightarrow> bool" where
  "tunnelInv t \<longleftrightarrow> wsOk t \<and> (\<forall>c e. mget (tnEntries t) c = Some e \<longrightarrow> entryOk t c e)"

lemma tunnelInvI:
  "wsOk t \<Longrightarrow> (\<And>c e. mget (tnEntries t) c = Some e \<Longrightarrow> entryOk t c e) \<Longrightarrow> tunnelInv t"
  by (simp add: tunnelInv_def)

lemma tunnelInvD:
  assumes "tunnelInv t"
  shows "wsOk t" "mget (tnEntries t) c = Some e \<Longrightarrow> entryOk t c e"
  using assms by (auto simp: tunnelInv_def)

subsection \<open>Effects of the primitives\<close>

lemma updEntry_fields [simp]:
  "tnWs (updEntry c f t) = tnWs t" "tnWsPaused (updEntry c f t) = tnWsPaused t"
  "tnSent (updEntry c f t) = tnSent t" "tnBuffered (updEntry c f t) = tnBuffered t" "tnConnections (updEntry c f t) = tnConnections t"
  "tnBackpressured (updEntry c f t) = tnBackpressured t" "tnNextConnId (updEntry c f t) = tnNextConnId t"
  by (simp_all add: updEntry_def split: option.splits)

lemma mget_updEntry [simp]:
  "mget (tnEntries (updEntry c f t)) c' =
     (if c' = c then map_option f (mget (tnEntries t) c) else mget (tnEntries t) c')"
  by (simp add: updEntry_def split: option.splits)

lemma mkeys_updEntry [simp]: "mkeys (tnEntries (updEntry c f t)) = mkeys (tnEntries t)"
  by (auto simp: updEntry_def mkeys_mput mhas_def split: option.splits)

lemma sdel_Nil: "sdel c xs = [] \<longleftrightarrow> set xs \<subseteq> {c}"
  by (metis Diff_eq_empty_iff set_empty set_sdel)

lemma remove_fields [simp]:
  "tnWs (removeWsBackpressure c t) = tnWs t" "tnBuffered (removeWsBackpressure c t) = tnBuffered t" "tnSent (removeWsBackpressure c t) = tnSent t"
  "tnEntries (removeWsBackpressure c t) = tnEntries t" "tnConnections (removeWsBackpressure c t) = tnConnections t"
  "tnNextConnId (removeWsBackpressure c t) = tnNextConnId t"
  "set (tnBackpressured (removeWsBackpressure c t)) = set (tnBackpressured t) - {c}"
  by (auto simp: removeWsBackpressure_def Let_def sdel_Nil)

lemma clearFlag_fields [simp]:
  "tnWs (clearFlag c t) = tnWs t" "tnBuffered (clearFlag c t) = tnBuffered t" "tnSent (clearFlag c t) = tnSent t"
  "tnConnections (clearFlag c t) = tnConnections t" "tnNextConnId (clearFlag c t) = tnNextConnId t"
  "set (tnBackpressured (clearFlag c t)) = set (tnBackpressured t) - {c}"
  "mkeys (tnEntries (clearFlag c t)) = mkeys (tnEntries t)"
  "mget (tnEntries (clearFlag c t)) c' =
     (if c' = c then map_option (\<lambda>e. e\<lparr>seWsBackpressured := False\<rparr>) (mget (tnEntries t) c) else mget (tnEntries t) c')"
  by (simp_all add: clearFlag_def)

lemma deleteConn_fields [simp]:
  "tnWs (deleteConn c t) = tnWs t" "tnBuffered (deleteConn c t) = tnBuffered t" "tnSent (deleteConn c t) = tnSent t" "tnWsPaused (deleteConn c t) = tnWsPaused t"
  "tnEntries (deleteConn c t) = tnEntries t" "tnNextConnId (deleteConn c t) = tnNextConnId t"
  "tnBackpressured (deleteConn c t) = tnBackpressured t"
  "tnConnections (deleteConn c t) = sdel c (tnConnections t)"
  by (simp_all add: deleteConn_def)

lemma clearFlag_deleteConn: "clearFlag c (deleteConn c t) = deleteConn c (clearFlag c t)"
  by (auto simp: clearFlag_def removeWsBackpressure_def updEntry_def deleteConn_def Let_def split: option.splits)

lemma socket_simps [simp]:
  "scDestroyed (destroySocket s)" "scDestroyed (sendFailure s)"
  "scDestroyed (writeSocket b s) = scDestroyed s" "scDestroyed (sendSuccess s) = scDestroyed s"
  by (simp_all add: destroySocket_def sendFailure_def writeSocket_def sendSuccess_def)

subsection \<open>Preservation\<close>

lemma entryOk_frame:
  "entryOk t c e \<Longrightarrow> tnBackpressured u = tnBackpressured t \<Longrightarrow> tnConnections u = tnConnections t \<Longrightarrow> tnWs u = tnWs t
    \<Longrightarrow> tnSent u = tnSent t \<Longrightarrow> entryOk u c e"
  by (simp add: entryOk_def)

lemma inv_updEntry:
  assumes "tunnelInv t" "\<And>e. mget (tnEntries t) c = Some e \<Longrightarrow> entryOk t c e \<Longrightarrow> entryOk t c (f e)"
  shows "tunnelInv (updEntry c f t)"
proof (rule tunnelInvI)
  show "wsOk (updEntry c f t)" using tunnelInvD(1) [OF assms(1)] by (simp add: wsOk_def)
  fix d e
  assume "mget (tnEntries (updEntry c f t)) d = Some e"
  then have "entryOk t d e" using assms(2) tunnelInvD(2) [OF assms(1)] by (auto split: if_splits)
  then show "entryOk (updEntry c f t) d e" by (rule entryOk_frame) simp_all
qed

lemma inv_clearFlag:
  assumes "tunnelInv t"
  shows "tunnelInv (clearFlag c t)"
proof (rule tunnelInvI)
  note ws = tunnelInvD(1) [OF assms]
  have bp: "tnWs t \<noteq> WsClosed \<longrightarrow> (tnWsPaused (clearFlag c t) \<longleftrightarrow> tnBackpressured (clearFlag c t) \<noteq> [])"
    "distinct (tnBackpressured (clearFlag c t))"
    using ws by (auto simp: wsOk_def clearFlag_def removeWsBackpressure_def Let_def)
  show "wsOk (clearFlag c t)" using ws bp by (auto simp: wsOk_def)
  fix d e
  assume "mget (tnEntries (clearFlag c t)) d = Some e"
  then show "entryOk (clearFlag c t) d e"
    using tunnelInvD(2) [OF assms] by (auto simp: entryOk_def split: if_splits)
qed

lemma inv_deleteConn:
  assumes "tunnelInv t"
    and "\<And>e. mget (tnEntries t) c = Some e \<Longrightarrow> \<not> seWsBackpressured e \<and> (scDestroyed (seSocket e) \<or> \<not> seListener e)"
  shows "tunnelInv (deleteConn c t)"
proof (rule tunnelInvI)
  note ws = tunnelInvD(1) [OF assms(1)]
  have "c \<notin> set (tnBackpressured t)"
  proof
    assume c: "c \<in> set (tnBackpressured t)"
    with ws obtain e where "mget (tnEntries t) c = Some e" by (auto simp: wsOk_def set_mkeys)
    with c assms(2) tunnelInvD(2) [OF assms(1)] show False by (auto simp: entryOk_def)
  qed
  with ws show "wsOk (deleteConn c t)" by (auto simp: wsOk_def)
  fix d e
  assume "mget (tnEntries (deleteConn c t)) d = Some e"
  then show "entryOk (deleteConn c t) d e"
    using tunnelInvD(2) [OF assms(1)] assms(2) by (auto simp: entryOk_def)
qed

text \<open>Dropping a connection whose socket is destroyed, or whose listener is detached.\<close>

lemma inv_drop:
  assumes "tunnelInv t"
    and "\<And>e. mget (tnEntries t) c = Some e \<Longrightarrow> scDestroyed (seSocket e) \<or> \<not> seListener e"
  shows "tunnelInv (deleteConn c (clearFlag c t))"
  by (rule inv_deleteConn [OF inv_clearFlag [OF assms(1)]]) (use assms(2) in auto)

lemma inv_destroy: "tunnelInv t \<Longrightarrow> tunnelInv (destroySocksConn c t)"
  unfolding destroySocksConn_def by (rule inv_updEntry) (auto simp: entryOk_def)

lemma mget_destroy [simp]:
  "mget (tnEntries (destroySocksConn c t)) d =
     (if d = c then map_option (\<lambda>e. e\<lparr>seListener := False, seSocket := destroySocket (seSocket e)\<rparr>) (mget (tnEntries t) c)
      else mget (tnEntries t) d)"
  by (simp add: destroySocksConn_def)

lemma inv_tearConn: "tunnelInv t \<Longrightarrow> tunnelInv (tearConn ok c t)"
  unfolding tearConn_def
  by (auto intro!: inv_drop inv_destroy inv_updEntry simp: entryOk_def)

lemma inv_failConn: "tunnelInv t \<Longrightarrow> tunnelInv (failConn ok c t)"
  unfolding failConn_def by (rule inv_updEntry) (auto simp: entryOk_def)

lemma inv_fold: "tunnelInv t \<Longrightarrow> (\<And>c t. tunnelInv t \<Longrightarrow> tunnelInv (f c t)) \<Longrightarrow> tunnelInv (fold f cs t)"
  by (induction cs arbitrary: t) auto

lemma inv_buffered: "tunnelInv t \<Longrightarrow> tunnelInv (t\<lparr>tnBuffered := n\<rparr>)"
  by (simp add: tunnelInv_def wsOk_def entryOk_def)

lemma inv_ws: "tunnelInv t \<Longrightarrow> w \<noteq> WsOpen \<Longrightarrow> (tnWs t = WsClosed \<Longrightarrow> w = WsClosed) \<Longrightarrow> tunnelInv (t\<lparr>tnWs := w\<rparr>)"
  by (auto simp: tunnelInv_def wsOk_def entryOk_def)

lemma framesOf_append [simp]:
  "framesOf c (s @ [m]) = framesOf c s @ (if tmConnId m = of_nat c then [m] else [])"
  by (simp add: framesOf_def)

lemma close_framesOf: "TmClose (of_nat c) \<in> set (framesOf c s) \<longleftrightarrow> TmClose (of_nat c) \<in> set s"
  by (auto simp: framesOf_def)

lemma conversation_data:
  assumes "conversation c fs" "TmClose (of_nat c) \<notin> set fs"
  shows "conversation c (fs @ [TmData (of_nat c) d])"
proof -
  from assms obtain h p ds where "fs = TmConnect (of_nat c) h p # map (TmData (of_nat c)) ds"
    by (auto simp: conversation_def)
  then have "fs @ [TmData (of_nat c) d]
      = TmConnect (of_nat c) h p # map (TmData (of_nat c)) (ds @ [d]) @ replicate 0 (TmClose (of_nat c))" by simp
  then show ?thesis unfolding conversation_def by blast
qed

lemma conversation_close:
  assumes "conversation c fs"
  shows "conversation c (fs @ [TmClose (of_nat c)])"
proof -
  from assms obtain h p ds n where "fs = TmConnect (of_nat c) h p # map (TmData (of_nat c)) ds @ replicate n (TmClose (of_nat c))"
    by (auto simp: conversation_def)
  then have "fs @ [TmClose (of_nat c)]
      = TmConnect (of_nat c) h p # map (TmData (of_nat c)) ds @ replicate (Suc n) (TmClose (of_nat c))"
    by (simp add: replicate_append_same [symmetric])
  then show ?thesis unfolding conversation_def by blast
qed

lemma sendToApk_fields [simp]:
  "tnWs (sendToApk m t) = tnWs t" "tnWsPaused (sendToApk m t) = tnWsPaused t"
  "tnEntries (sendToApk m t) = tnEntries t" "tnConnections (sendToApk m t) = tnConnections t"
  "tnBackpressured (sendToApk m t) = tnBackpressured t" "tnNextConnId (sendToApk m t) = tnNextConnId t"
  by (simp_all add: sendToApk_def)

lemma inv_send:
  assumes "tunnelInv t" "mget (tnEntries t) c = Some e" "tmConnId m = of_nat c"
    "conversation c (framesOf c (tnSent t) @ [m])" "m = TmClose (of_nat c) \<Longrightarrow> scDestroyed (seSocket e)"
  shows "tunnelInv (sendToApk m t)"
proof (cases "tnWs t = WsOpen")
  case True
  have sent: "tnSent (sendToApk m t) = tnSent t @ [m]" using True by (simp add: sendToApk_def)
  have "c \<in> set (mkeys (tnEntries t))" using assms(2) by (auto simp: set_mkeys)
  then have "wsOk (sendToApk m t)" using tunnelInvD(1) [OF assms(1)] assms(3) by (auto simp: wsOk_def sent)
  moreover have "entryOk (sendToApk m t) d e'" if d: "mget (tnEntries t) d = Some e'" for d e'
  proof (cases "d = c")
    case True
    with d assms(2) have "e' = e" by simp
    with True tunnelInvD(2) [OF assms(1,2)] assms(3-5) show ?thesis by (auto simp: entryOk_def sent)
  next
    case False
    then have "tmConnId m \<noteq> of_nat d" using assms(3) by simp
    with tunnelInvD(2) [OF assms(1) d] show ?thesis by (auto simp: entryOk_def sent)
  qed
  ultimately show ?thesis by (auto intro: tunnelInvI)
next
  case False
  then show ?thesis using assms(1) by (simp add: sendToApk_def)
qed

lemma inv_connect:
  assumes "tunnelInv t" "tnNextConnId t \<le> coConnId conn" "\<not> scDestroyed sock"
  shows "tunnelInv (fst (onConnect conn sock t))"
proof -
  define c where "c = coConnId conn"
  have ws: "wsOk t" by (rule tunnelInvD(1) [OF assms(1)])
  then have fresh: "mget (tnEntries t) c = None" "c \<notin> set (tnConnections t)" "c \<notin> set (tnBackpressured t)"
    using assms(2) by (fastforce simp: wsOk_def set_mkeys c_def)+
  have quiet: "framesOf c (tnSent t) = []" "TmClose (of_nat c) \<notin> set (tnSent t)"
  proof -
    have "\<forall>m\<in>set (tnSent t). tmConnId m \<noteq> of_nat c"
      using ws fresh(1) by (auto simp: wsOk_def set_mkeys)
    then show "framesOf c (tnSent t) = []" "TmClose (of_nat c) \<notin> set (tnSent t)"
      by (auto simp: framesOf_def filter_empty_conv)
  qed
  show ?thesis
  proof (cases "tnWs t = WsOpen")
    case False
    then show ?thesis
      using assms(1,2) by (fastforce simp: onConnect_def Let_def tunnelInv_def wsOk_def entryOk_def)
  next
    case True
    let ?u = "fst (onConnect conn sock t)"
    have u: "tnEntries ?u = mput c \<lparr>seSocket = sock, seListener = True, sePaused = False, seWsBackpressured = False,
               seReadPaused = False, seDrainArmed = False, sePollArmed = False\<rparr> (tnEntries t)"
      "tnConnections ?u = sadd c (tnConnections t)" "tnBackpressured ?u = tnBackpressured t"
      "tnWs ?u = tnWs t" "tnWsPaused ?u = tnWsPaused t" "tnNextConnId ?u = c + 1"
      "tnSent ?u = tnSent t @ [TmConnect (of_nat c) (coHost conn) (coPort conn)]"
      using True by (simp_all add: onConnect_def Let_def c_def sendToApk_def)
    have new: "conversation c [TmConnect (of_nat c) (coHost conn) (coPort conn)]"
      unfolding conversation_def by (rule exI, rule exI, rule exI [of _ "[]"], rule exI [of _ 0]) simp
    have "d < c" if "d \<in> set (mkeys (tnEntries t))" for d
      using ws assms(2) that by (fastforce simp: wsOk_def c_def)
    with ws have "wsOk ?u" unfolding wsOk_def u jm.keys_put by (auto simp: less_Suc_eq)
    moreover have "entryOk ?u d e" if "mget (tnEntries ?u) d = Some e" for d e
    proof (cases "d = c")
      case True
      with that new fresh quiet assms(3) show ?thesis by (auto simp: u entryOk_def)
    next
      case False
      with that have "mget (tnEntries t) d = Some e" by (simp add: u)
      from tunnelInvD(2) [OF assms(1) this] False show ?thesis by (auto simp: u entryOk_def)
    qed
    ultimately show ?thesis by (rule tunnelInvI)
  qed
qed

lemma inv_data:
  assumes "tunnelInv t" "mget (tnEntries t) c = Some e" "seListener e" "\<not> scDestroyed (seSocket e)" "\<not> seReadPaused e"
  shows "tunnelInv (onSocketData c chunk left t)"
proof (cases "tnWs t = WsOpen")
  case True
  have e: "entryOk t c e" by (rule tunnelInvD(2) [OF assms(1,2)])
  then have "TmClose (of_nat c) \<notin> set (framesOf c (tnSent t))"
    using assms(4) by (auto simp: entryOk_def close_framesOf)
  with e have "conversation c (framesOf c (tnSent t) @ [TmData (of_nat c) (base64_encode chunk)])"
    by (intro conversation_data) (auto simp: entryOk_def)
  with assms(1,2) have "tunnelInv (sendToApk (TmData (of_nat c) (base64_encode chunk)) t)"
    by (intro inv_send) auto
  then have "tunnelInv (sendToApk (TmData (of_nat c) (base64_encode chunk)) t\<lparr>tnBuffered := n\<rparr>)" for n
    by (rule inv_buffered)
  then show ?thesis using True unfolding onSocketData_def Let_def
    by (simp, intro inv_updEntry) (auto simp: entryOk_def)
qed (use assms(1) in \<open>simp add: onSocketData_def\<close>)

lemma inv_gone:
  assumes "tunnelInv t" "mget (tnEntries t) c = Some e"
  shows "tunnelInv (onSocketGone c t)"
proof -
  define u where "u = updEntry c (\<lambda>e. e\<lparr>seSocket := destroySocket (seSocket e)\<rparr>) t"
  have "tunnelInv u" unfolding u_def by (rule inv_updEntry [OF assms(1)]) (auto simp: entryOk_def)
  then have d: "tunnelInv (deleteConn c (clearFlag c u))"
    by (rule inv_drop) (auto simp: u_def assms(2))
  have "conversation c (framesOf c (tnSent t) @ [TmClose (of_nat c)])"
    using tunnelInvD(2) [OF assms] by (intro conversation_close) (simp add: entryOk_def)
  then show ?thesis unfolding onSocketGone_def Let_def u_def [symmetric] clearFlag_deleteConn
    by (intro inv_send [where c = c, OF d], (simp add: u_def assms(2))+)
qed

lemma connKey_Some: "connKey r t = Some c \<Longrightarrow> c \<in> set (tnConnections t) \<and> of_nat c = r"
  by (auto simp: connKey_def find_Some_iff)

lemma inv_tunnelData:
  assumes "tunnelInv t" "c \<in> set (tnConnections t)"
  shows "tunnelInv (onTunnelData c d ok t)"
proof -
  define u where "u = updEntry c (\<lambda>e. e\<lparr>seSocket := writeSocket (base64_decode d) (seSocket e)\<rparr>) t"
  have u: "tunnelInv u" unfolding u_def by (rule inv_updEntry [OF assms(1)]) (auto simp: entryOk_def)
  have c: "c \<in> set (tnConnections u)" using assms(2) by (simp add: u_def)
  show ?thesis
  proof (cases "\<exists>e. mget (tnEntries u) c = Some e \<and> \<not> ok \<and> \<not> seWsBackpressured e")
    case False
    then show ?thesis using u unfolding onTunnelData_def Let_def u_def [symmetric] by (auto split: option.split)
  next
    case True
    then obtain e where e: "mget (tnEntries u) c = Some e" "\<not> ok" "\<not> seWsBackpressured e" by blast
    let ?v = "addWsBackpressure c (updEntry c (\<lambda>e. e\<lparr>seWsBackpressured := True, seDrainArmed := True\<rparr>) u)"
    have v: "tnWs ?v = tnWs u" "tnSent ?v = tnSent u" "tnConnections ?v = tnConnections u" "tnNextConnId ?v = tnNextConnId u"
      "set (tnBackpressured ?v) = insert c (set (tnBackpressured u))" "mkeys (tnEntries ?v) = mkeys (tnEntries u)"
      "mget (tnEntries ?v) d' = (if d' = c then Some (e\<lparr>seWsBackpressured := True, seDrainArmed := True\<rparr>) else mget (tnEntries u) d')" for d'
      by (simp_all add: addWsBackpressure_def Let_def e)
    have "distinct (tnBackpressured ?v)" "tnWs u \<noteq> WsClosed \<longrightarrow> tnWsPaused ?v"
      using tunnelInvD(1) [OF u] by (auto simp: addWsBackpressure_def Let_def wsOk_def)
    moreover have "tnBackpressured ?v \<noteq> []" using v(5) by (metis empty_set insert_not_empty)
    ultimately have "wsOk ?v" using tunnelInvD(1) [OF u] c by (auto simp: wsOk_def v)
    moreover have "entryOk ?v d' e'" if "mget (tnEntries ?v) d' = Some e'" for d' e'
      using that tunnelInvD(2) [OF u, of d'] c e(1) by (cases "d' = c") (auto simp: v entryOk_def)
    ultimately have "tunnelInv ?v" by (rule tunnelInvI)
    with e show ?thesis unfolding onTunnelData_def Let_def u_def [symmetric] by simp
  qed
qed

lemma inv_message: "tunnelInv t \<Longrightarrow> tunnelInv (onMessage raw ok t)"
proof -
  assume t: "tunnelInv t"
  have f: "tunnelInv (deleteConn c (clearFlag c (updEntry c (\<lambda>e. e\<lparr>seSocket := sendFailure (seSocket e)\<rparr>) t)))" for c
    by (intro inv_drop inv_updEntry t) (auto simp: entryOk_def)
  have s: "tunnelInv (updEntry c (\<lambda>e. e\<lparr>seSocket := sendSuccess (seSocket e)\<rparr>) t)" for c
    by (intro inv_updEntry t) (auto simp: entryOk_def)
  have d: "tunnelInv (deleteConn c (clearFlag c (destroySocksConn c t)))" for c
    by (intro inv_drop inv_destroy t) auto
  show ?thesis
    unfolding onMessage_def using t f s d inv_tunnelData [OF t] connKey_Some [of _ t]
    by (auto split: option.split tunnel_message.split)
qed

lemma updEntry_twice: "updEntry c f (updEntry c g t) = updEntry c (f \<circ> g) t"
  by (simp add: updEntry_def mput_def split: option.split) (simp add: mget_simps(2) [unfolded mput_def])

lemma updEntry_remove: "updEntry c f (removeWsBackpressure c t) = removeWsBackpressure c (updEntry c f t)"
  by (cases "mget (tnEntries t) c") (simp_all add: updEntry_def removeWsBackpressure_def Let_def)

lemma inv_drain: "tunnelInv t \<Longrightarrow> tunnelInv (onDrain c t)"
proof -
  assume t: "tunnelInv t"
  have "onDrain c t = updEntry c (\<lambda>e. e\<lparr>seDrainArmed := False\<rparr>) (clearFlag c t)"
  proof -
    have "(\<lambda>e :: socks_entry. e\<lparr>seDrainArmed := False, seWsBackpressured := False\<rparr>)
        = (\<lambda>e. e\<lparr>seWsBackpressured := False, seDrainArmed := False\<rparr>)" by (rule ext) simp
    then show ?thesis by (simp add: onDrain_def clearFlag_def updEntry_remove updEntry_twice comp_def)
  qed
  moreover have "tunnelInv (updEntry c (\<lambda>e. e\<lparr>seDrainArmed := False\<rparr>) (clearFlag c t))"
    by (intro inv_updEntry inv_clearFlag t) (auto simp: entryOk_def)
  ultimately show ?thesis by simp
qed

lemma inv_poll: "tunnelInv t \<Longrightarrow> tunnelInv (pollDrain c t)"
  unfolding pollDrain_def by (rule inv_updEntry) (auto simp: entryOk_def)

lemma inv_step: "bridge_step t u \<Longrightarrow> tunnelInv t \<Longrightarrow> tunnelInv u"
proof (induction rule: bridge_step.induct)
  case (wsClose t ok)
  then show ?case unfolding onWsGone_def by (intro inv_fold inv_tearConn inv_failConn inv_ws) auto
next
  case (wsError t ok)
  then show ?case unfolding onWsGone_def by (intro inv_fold inv_tearConn inv_failConn inv_ws) auto
next
  case (close t ok tok)
  then have "tunnelInv (fold (tearConn ok) (tnConnections t) t)" by (intro inv_fold inv_tearConn)
  then show ?case by (auto simp: closeSweep_def Let_def intro: inv_ws)
qed (auto intro: inv_connect inv_data inv_gone inv_message inv_drain inv_poll inv_buffered)

interpretation bridge: safety_invariant "\<lambda>t. t = newTunnel" bridge_step tunnelInv
proof unfold_locales
  show "t = newTunnel \<Longrightarrow> tunnelInv t" for t
    by (simp add: newTunnel_def tunnelInv_def wsOk_def mkeys_def)
qed (rule inv_step)

section \<open>What the send buffer can hold\<close>

definition isData :: "tunnel_message \<Rightarrow> bool" where
  "isData m = (case m of TmData _ _ \<Rightarrow> True | _ \<Rightarrow> False)"

definition controlBytes :: "tunnel_message list \<Rightarrow> nat" where
  "controlBytes sent = sum_list (map frameBytes (filter (\<lambda>m. \<not> isData m) sent))"

text \<open>Connections that send nothing for now: paused, or with a destroyed socket.\<close>

definition stuck :: "tunnel \<Rightarrow> nat set" where
  "stuck t = {c. \<exists>e. mget (tnEntries t) c = Some e \<and> (sePaused e \<or> scDestroyed (seSocket e))}"

definition bufferOk :: "nat \<Rightarrow> tunnel \<Rightarrow> bool" where
  "bufferOk M t \<longleftrightarrow> (tnWs t = WsOpen \<longrightarrow> (\<forall>m\<in>set (tnSent t). isData m \<longrightarrow> frameBytes m \<le> M) \<longrightarrow>
     tnBuffered t \<le> WS_HIGH_WATER_BYTES + M * card (stuck t) + controlBytes (tnSent t))"

text \<open>Steps that add only control frames to the buffer and release no connection.\<close>

definition calm :: "tunnel \<Rightarrow> tunnel \<Rightarrow> bool" where
  "calm t u \<longleftrightarrow> stuck t \<subseteq> stuck u \<and> set (tnSent t) \<subseteq> set (tnSent u) \<and> (tnWs u = WsOpen \<longrightarrow> tnWs t = WsOpen)
     \<and> tnBuffered u + controlBytes (tnSent t) \<le> tnBuffered t + controlBytes (tnSent u)"

lemma finite_stuck [simp]: "finite (stuck t)"
  by (rule finite_subset [OF _ finite_dom_mget [of "tnEntries t"]]) (auto simp: stuck_def)

lemma calm_refl [simp]: "calm t t"
  by (simp add: calm_def)

lemma calm_trans: "calm t u \<Longrightarrow> calm u v \<Longrightarrow> calm t v"
  by (auto simp: calm_def)

lemma calm_bufferOk:
  assumes "calm t u" "bufferOk M t"
  shows "bufferOk M u"
  unfolding bufferOk_def
proof (intro impI)
  assume u: "tnWs u = WsOpen" "\<forall>m\<in>set (tnSent u). isData m \<longrightarrow> frameBytes m \<le> M"
  with assms have "tnBuffered t \<le> WS_HIGH_WATER_BYTES + M * card (stuck t) + controlBytes (tnSent t)"
    by (auto simp: calm_def bufferOk_def)
  moreover have "M * card (stuck t) \<le> M * card (stuck u)"
    using assms(1) by (intro mult_left_mono card_mono) (auto simp: calm_def)
  moreover have "tnBuffered u + controlBytes (tnSent t) \<le> tnBuffered t + controlBytes (tnSent u)"
    using assms(1) by (simp add: calm_def)
  ultimately show "tnBuffered u \<le> WS_HIGH_WATER_BYTES + M * card (stuck u) + controlBytes (tnSent u)" by linarith
qed

lemma calm_updEntry:
  "(\<And>e. sePaused e \<or> scDestroyed (seSocket e) \<Longrightarrow> sePaused (f e) \<or> scDestroyed (seSocket (f e))) \<Longrightarrow> calm t (updEntry c f t)"
  by (auto simp: calm_def stuck_def)

lemma calm_clearFlag: "calm t (clearFlag c t)"
  by (auto simp: calm_def stuck_def)

lemma calm_deleteConn: "calm t (deleteConn c t)"
  by (auto simp: calm_def stuck_def)

lemma calm_destroy: "calm t (destroySocksConn c t)"
  unfolding destroySocksConn_def by (rule calm_updEntry) simp

lemma calm_control: "\<not> isData m \<Longrightarrow> calm t (sendToApk m t)"
  by (auto simp: calm_def stuck_def sendToApk_def controlBytes_def)

lemma calm_ws: "w \<noteq> WsOpen \<Longrightarrow> calm t (t\<lparr>tnWs := w\<rparr>)"
  by (auto simp: calm_def stuck_def)

lemmas calm_steps = calm_clearFlag calm_deleteConn calm_destroy

lemma calm_drop: "calm t u \<Longrightarrow> calm t (deleteConn c (clearFlag c u))"
  by (blast intro: calm_trans calm_steps)

lemma calm_tearConn: "calm t (tearConn ok c t)"
  unfolding tearConn_def using calm_drop [OF calm_destroy] by (simp add: calm_updEntry)

lemma calm_failConn: "calm t (failConn ok c t)"
  unfolding failConn_def by (rule calm_updEntry) auto

lemma calm_fold: "(\<And>c t. calm t (f c t)) \<Longrightarrow> calm t (fold f cs t)"
  by (induction cs arbitrary: t) (auto intro: calm_trans)

lemma calm_wsGone: "w \<noteq> WsOpen \<Longrightarrow> calm t (onWsGone ok (t\<lparr>tnWs := w\<rparr>))"
  unfolding onWsGone_def by (rule calm_trans [OF calm_ws]) (auto intro: calm_fold calm_trans calm_failConn calm_tearConn)

lemma calm_gone: "calm t (onSocketGone c t)"
proof -
  have "calm t (updEntry c (\<lambda>e. e\<lparr>seSocket := destroySocket (seSocket e)\<rparr>) t)" by (rule calm_updEntry) simp
  from calm_trans [OF calm_drop [OF this] calm_control] show ?thesis
    by (simp add: onSocketGone_def Let_def clearFlag_deleteConn isData_def)
qed

lemma calm_tunnelData: "calm t (onTunnelData c d ok t)"
proof -
  let ?u = "updEntry c (\<lambda>e. e\<lparr>seSocket := writeSocket (base64_decode d) (seSocket e)\<rparr>) t"
  have u: "calm t ?u" by (rule calm_updEntry) simp
  have "calm v (addWsBackpressure c v)" for v by (simp add: calm_def stuck_def addWsBackpressure_def Let_def)
  moreover have "calm ?u (updEntry c (\<lambda>e. e\<lparr>seWsBackpressured := True, seDrainArmed := True\<rparr>) ?u)"
    by (rule calm_updEntry) simp
  ultimately have "calm t (addWsBackpressure c (updEntry c (\<lambda>e. e\<lparr>seWsBackpressured := True, seDrainArmed := True\<rparr>) ?u))"
    using u by (blast intro: calm_trans)
  with u show ?thesis unfolding onTunnelData_def Let_def by (auto split: option.split)
qed

lemma calm_message: "calm t (onMessage raw ok t)"
proof -
  have s: "calm t (updEntry c (\<lambda>e. e\<lparr>seSocket := sendSuccess (seSocket e)\<rparr>) t)" for c by (rule calm_updEntry) simp
  have f: "calm t (deleteConn c (clearFlag c (updEntry c (\<lambda>e. e\<lparr>seSocket := sendFailure (seSocket e)\<rparr>) t)))" for c
    by (intro calm_drop calm_updEntry) simp
  show ?thesis unfolding onMessage_def using s f calm_tunnelData calm_drop [OF calm_destroy]
    by (auto split: option.split tunnel_message.split)
qed

lemma bufferOk_data:
  assumes "tunnelInv t" "bufferOk M t" "mget (tnEntries t) c = Some e" "\<not> scDestroyed (seSocket e)" "\<not> seReadPaused e"
  shows "bufferOk M (onSocketData c chunk left t)"
proof (cases "tnWs t = WsOpen")
  case True
  define m where "m = TmData (of_nat c) (base64_encode chunk)"
  define n where "n = min left (tnBuffered t + frameBytes m)"
  define u where "u = onSocketData c chunk left t"
  have u: "tnSent u = tnSent t @ [m]" "tnBuffered u = n" "tnWs u = WsOpen"
    "mget (tnEntries u) d = (if d = c then Some (if n > WS_HIGH_WATER_BYTES then e\<lparr>sePaused := True, seReadPaused := True, sePollArmed := True\<rparr> else e)
       else mget (tnEntries t) d)" for d
    using True tunnelInvD(2) [OF assms(1,3)] assms(5)
    by (auto simp: u_def onSocketData_def sendToApk_def Let_def m_def n_def assms(3) entryOk_def)
  have ctl: "controlBytes (tnSent u) = controlBytes (tnSent t)" by (simp add: u controlBytes_def isData_def m_def)
  have "c \<notin> stuck t" using assms(3-5) tunnelInvD(2) [OF assms(1,3)] by (auto simp: stuck_def entryOk_def)
  have "bufferOk M u"
  proof (cases "n \<le> WS_HIGH_WATER_BYTES")
    case True
    then show ?thesis by (simp add: bufferOk_def u)
  next
    case False
    then have "stuck u = insert c (stuck t)" by (auto simp: stuck_def u)
    with \<open>c \<notin> stuck t\<close> have "card (stuck u) = Suc (card (stuck t))" by simp
    then show ?thesis using assms(2) True ctl by (auto simp: bufferOk_def u n_def isData_def m_def)
  qed
  then show ?thesis by (simp add: u_def)
qed (use assms(2) in \<open>simp add: onSocketData_def\<close>)

lemma bufferOk_poll:
  assumes "bufferOk M t"
  shows "bufferOk M (pollDrain c t)"
proof (cases "tnBuffered t \<le> WS_LOW_WATER_BYTES \<or> tnWs t \<noteq> WsOpen")
  case True
  then show ?thesis by (auto simp: bufferOk_def pollDrain_def WS_LOW_WATER_BYTES_def WS_HIGH_WATER_BYTES_def)
next
  case False
  then have "calm t (pollDrain c t)" unfolding pollDrain_def by (intro calm_updEntry) auto
  with assms show ?thesis by (blast intro: calm_bufferOk)
qed

lemma calm_connect:
  assumes "tunnelInv t" "tnNextConnId t \<le> coConnId conn"
  shows "calm t (fst (onConnect conn sock t))"
proof -
  have "mget (tnEntries t) (coConnId conn) = None"
    using tunnelInvD(1) [OF assms(1)] assms(2) by (fastforce simp: wsOk_def set_mkeys)
  then show ?thesis
    by (auto simp: onConnect_def Let_def calm_def stuck_def sendToApk_def controlBytes_def isData_def)
qed

lemma buffer_step: "bridge_step t u \<Longrightarrow> tunnelInv t \<and> bufferOk M t \<Longrightarrow> tunnelInv u \<and> bufferOk M u"
proof (intro conjI)
  assume step: "bridge_step t u" and inv: "tunnelInv t \<and> bufferOk M t"
  then show "tunnelInv u" by (blast intro: inv_step)
  from step inv show "bufferOk M u"
  proof cases
    case (drain c e)
    have "calm t (onDrain c t)"
      unfolding onDrain_def by (rule calm_trans [OF calm_updEntry calm_clearFlag]) simp
    with drain inv show ?thesis by (blast intro: calm_bufferOk)
  next
    case (flush n)
    then have "calm t u" by (simp add: calm_def stuck_def)
    with inv show ?thesis by (blast intro: calm_bufferOk)
  next
    case (close ok tok)
    have "calm t (fst (closeSweep ok tok t))"
      by (auto simp: closeSweep_def Let_def intro: calm_fold calm_tearConn calm_trans [OF _ calm_ws])
    with close inv show ?thesis by (blast intro: calm_bufferOk)
  next
    case (wsError ok)
    with inv show ?thesis by (auto intro: calm_bufferOk [OF calm_wsGone])
  qed (use inv in \<open>auto intro: bufferOk_data bufferOk_poll calm_bufferOk [OF calm_connect] calm_bufferOk [OF calm_gone]
         calm_bufferOk [OF calm_message] calm_bufferOk [OF calm_wsGone]\<close>)
qed

interpretation buffer: safety_invariant "\<lambda>t. t = newTunnel" bridge_step "\<lambda>t. tunnelInv t \<and> bufferOk M t" for M
proof unfold_locales
  show "t = newTunnel \<Longrightarrow> tunnelInv t \<and> bufferOk M t" for t
    by (simp add: newTunnel_def tunnelInv_def wsOk_def mkeys_def bufferOk_def)
qed (rule buffer_step)

section \<open>Teardown and relayed bytes\<close>

lemma tearConn_connections: "tnConnections (tearConn ok c t) = (if ok c then sdel c (tnConnections t) else tnConnections t)"
  by (simp add: tearConn_def destroySocksConn_def)

lemma tearConn_entries:
  "mget (tnEntries (tearConn ok c t)) d =
     (if d \<noteq> c then mget (tnEntries t) d
      else if ok c then map_option (\<lambda>e. e\<lparr>seListener := False, seSocket := destroySocket (seSocket e), seWsBackpressured := False\<rparr>) (mget (tnEntries t) c)
      else map_option (\<lambda>e. e\<lparr>seListener := False\<rparr>) (mget (tnEntries t) c))"
  by (cases "mget (tnEntries t) c") (simp_all add: tearConn_def)

lemma tear_all_connections:
  "distinct (tnConnections t) \<Longrightarrow>
     set (tnConnections (fold (tearConn ok) cs t)) = set (tnConnections t) - {c \<in> set cs. ok c}"
proof (induction cs arbitrary: t)
  case (Cons c cs)
  have "distinct (tnConnections (tearConn ok c t))" using Cons.prems by (simp add: tearConn_connections)
  from Cons.IH [OF this] show ?case by (auto simp: tearConn_connections)
qed simp

lemma tear_all_listeners:
  assumes "\<And>e. mget (tnEntries t) d = Some e \<Longrightarrow> d \<in> set cs \<or> \<not> seListener e" "mget (tnEntries (fold (tearConn ok) cs t)) d = Some e"
  shows "\<not> seListener e"
  using assms
proof (induction cs arbitrary: t)
  case (Cons c cs)
  show ?case
  proof (rule Cons.IH [of "tearConn ok c t"])
    show "mget (tnEntries (tearConn ok c t)) d = Some e' \<Longrightarrow> d \<in> set cs \<or> \<not> seListener e'" for e'
      using Cons.prems(1) by (auto simp: tearConn_entries split: if_splits)
    show "mget (tnEntries (fold (tearConn ok) cs (tearConn ok c t))) d = Some e" using Cons.prems(2) by simp
  qed
qed auto

text \<open>A connection takes part in the relay when its listener is attached and its socket is open.\<close>

definition relaying :: "socks_entry \<Rightarrow> bool" where
  "relaying e = (seListener e \<and> \<not> scDestroyed (seSocket e))"

lemma teardown_stops_relay:
  assumes "tunnelInv t" "mget (tnEntries (fold (tearConn ok) (tnConnections t) t)) c = Some e"
  shows "\<not> relaying e"
proof (cases "c \<in> set (tnConnections t)")
  case True
  have "\<not> seListener e" by (rule tear_all_listeners [OF _ assms(2)]) (simp add: True)
  then show ?thesis by (simp add: relaying_def)
next
  case False
  then have "mget (tnEntries (fold (tearConn ok) cs t)) c = mget (tnEntries t) c" if "c \<notin> set cs" for cs t
    using that by (induction cs arbitrary: t) (auto simp: tearConn_entries)
  with False assms(2) have "mget (tnEntries t) c = Some e" by simp
  from tunnelInvD(2) [OF assms(1) this] False show ?thesis by (auto simp: relaying_def entryOk_def)
qed

lemma connKey_registered: "c \<in> set (tnConnections t) \<Longrightarrow> connKey (of_nat c) t = Some c"
proof (cases "connKey (of_nat c) t")
  case None
  moreover assume "c \<in> set (tnConnections t)"
  ultimately show ?thesis by (auto simp: connKey_def find_None_iff)
next
  case (Some d)
  then show ?thesis using connKey_Some [of "of_nat c" t d] by simp
qed

definition fromPhone :: "tunnel_message \<Rightarrow> bool" where
  "fromPhone m = (case m of TmConnect _ _ _ \<Rightarrow> False | _ \<Rightarrow> True)"

lemma parse_frameText:
  assumes "tmConnId m = of_nat c" "c < 10 ^ 21" "fromPhone m"
  shows "parseTunnelFrame (frameText m) = Some m"
proof -
  have "(of_nat c :: rat) < of_nat (10 ^ 21)" using assms(2) by (simp only: of_nat_less_iff)
  then have "plainJson (frameJson m)" using assms(1,3) by (cases m) (auto simp: fromPhone_def)
  then have "jsonParse (frameText m) = Some (frameJson m)" unfolding frameText_def by (rule parse_stringify)
  with assms(3) show ?thesis
    by (cases m) (auto simp: fromPhone_def parseTunnelFrame_def frameOfJson_def mget_Cons)
qed

lemma drained: "tunnelInv t \<Longrightarrow> tnWs (fold onDrain cs t) = tnWs t \<and> tunnelInv (fold onDrain cs t)
    \<and> set (tnBackpressured (fold onDrain cs t)) = set (tnBackpressured t) - set cs"
proof (induction cs arbitrary: t)
  case (Cons c cs)
  from Cons.IH [OF inv_drain [OF Cons.prems, of c]] show ?case by (auto simp: onDrain_def)
qed simp

section \<open>Properties\<close>

text \<open>
  C10: In every reachable state of the bridge: the shared WebSocket is paused exactly while some
  connection's client is full; each such connection is registered and has a drain listener, so it
  can be released; only registered connections relay data; and a connection paused for the send
  buffer always has a poll scheduled that will look at it again.
\<close>

theorem backpressure_safe:
  assumes "bridge_step\<^sup>*\<^sup>* newTunnel t"
  shows "(tnWs t \<noteq> WsClosed \<longrightarrow> (tnWsPaused t \<longleftrightarrow> (\<exists>c e. mget (tnEntries t) c = Some e \<and> seWsBackpressured e)))
    \<and> (\<forall>c e. mget (tnEntries t) c = Some e \<longrightarrow>
         (seWsBackpressured e \<longrightarrow> c \<in> set (tnConnections t) \<and> seDrainArmed e)
         \<and> (relaying e \<longrightarrow> c \<in> set (tnConnections t))
         \<and> (sePaused e \<longleftrightarrow> sePollArmed e)
         \<and> (relaying e \<and> seReadPaused e \<and> tnWs t = WsOpen \<longrightarrow> sePollArmed e))"
proof -
  have inv: "tunnelInv t" by (rule bridge.reachable_inv [OF refl assms])
  have "tnBackpressured t \<noteq> [] \<longleftrightarrow> (\<exists>c e. mget (tnEntries t) c = Some e \<and> seWsBackpressured e)"
  proof
    assume "tnBackpressured t \<noteq> []"
    then obtain c where c: "c \<in> set (tnBackpressured t)" by (cases "tnBackpressured t") auto
    with tunnelInvD(1) [OF inv] obtain e where "mget (tnEntries t) c = Some e" by (auto simp: wsOk_def set_mkeys)
    with c tunnelInvD(2) [OF inv] show "\<exists>c e. mget (tnEntries t) c = Some e \<and> seWsBackpressured e"
      by (auto simp: entryOk_def)
  qed (use tunnelInvD(2) [OF inv] in \<open>fastforce simp: entryOk_def\<close>)
  with tunnelInvD(1) [OF inv] have "tnWs t \<noteq> WsClosed \<longrightarrow> (tnWsPaused t \<longleftrightarrow> (\<exists>c e. mget (tnEntries t) c = Some e \<and> seWsBackpressured e))"
    by (simp add: wsOk_def)
  moreover have "\<forall>c e. mget (tnEntries t) c = Some e \<longrightarrow> entryOk t c e" using tunnelInvD(2) [OF inv] by blast
  ultimately show ?thesis by (simp add: entryOk_def relaying_def)
qed

definition demoConn :: socks_connect where
  "demoConn = \<lparr>coConnId = 1, coHost = ''bank.example'', coPort = 443\<rparr>"

definition demoSock :: socks_client where
  "demoSock = newClient\<lparr>scPhase := Done, scTimerArmed := False\<rparr>"

definition demoOpen :: tunnel where
  "demoOpen = fst (onConnect demoConn demoSock newTunnel)"

definition demoFull :: tunnel where
  "demoFull = onMessage (frameText (TmData 1 (base64_encode [1, 2]))) False demoOpen"

lemma demoOpen_eq:
  "demoOpen = newTunnel\<lparr>tnSent := [TmConnect 1 ''bank.example'' 443], tnBuffered := frameBytes (TmConnect 1 ''bank.example'' 443),
     tnEntries := [(1, \<lparr>seSocket = demoSock, seListener = True, sePaused = False, seWsBackpressured = False,
                     seReadPaused = False, seDrainArmed = False, sePollArmed = False\<rparr>)],
     tnConnections := [1], tnNextConnId := 2\<rparr>"
  by (simp add: demoOpen_def onConnect_def demoConn_def newTunnel_def Let_def sendToApk_def mput_def sadd_def)

lemma demoOpen_reachable: "bridge_step\<^sup>*\<^sup>* newTunnel demoOpen"
  unfolding demoOpen_def
  by (intro r_into_rtranclp bridge_step.connect) (simp_all add: demoConn_def demoSock_def newClient_def newTunnel_def)

lemma demoFull_reachable: "bridge_step\<^sup>*\<^sup>* newTunnel demoFull"
  unfolding demoFull_def using demoOpen_reachable bridge_step.message by (rule rtranclp.rtrancl_into_rtrancl)

lemma demoFull_eq:
  "demoFull = demoOpen\<lparr>tnWsPaused := True, tnBackpressured := [1],
     tnEntries := [(1, \<lparr>seSocket = writeSocket [1, 2] demoSock, seListener = True, sePaused = False, seWsBackpressured = True,
                     seReadPaused = False, seDrainArmed = True, sePollArmed = False\<rparr>)]\<rparr>"
proof -
  have "parseTunnelFrame (frameText (TmData 1 (base64_encode [1, 2]))) = Some (TmData 1 (base64_encode [1, 2]))"
    by (rule parse_frameText [of _ 1]) (simp_all add: fromPhone_def)
  moreover have "connKey 1 demoOpen = Some 1"
    using connKey_registered [of 1 demoOpen] by (simp add: demoOpen_eq)
  ultimately show ?thesis
    by (simp add: demoFull_def onMessage_def onTunnelData_def Let_def updEntry_def addWsBackpressure_def
        demoOpen_eq mget_Cons mput_def sadd_def newTunnel_def)
qed

theorem backpressure_safe_witness: "tnWs demoFull \<noteq> WsClosed \<and> tnWsPaused demoFull \<and> tnConnections demoFull = [1]"
  using backpressure_safe [OF demoFull_reachable] by (simp add: demoFull_eq demoOpen_eq newTunnel_def mget_Cons)

text \<open>
  C33: The shared WebSocket resumes exactly when every full connection has drained, in whatever order
  the drains arrive: an earlier drain, or the drain of another connection, does not resume it.
\<close>

theorem resumes_exactly_when_drained:
  assumes "bridge_step\<^sup>*\<^sup>* newTunnel t" "tnWs t \<noteq> WsClosed"
  shows "tnWsPaused (fold onDrain cs t) \<longleftrightarrow> \<not> set (tnBackpressured t) \<subseteq> set cs"
proof -
  have inv: "tunnelInv t" by (rule bridge.reachable_inv [OF refl assms(1)])
  let ?u = "fold onDrain cs t"
  have "tnWs ?u \<noteq> WsClosed" "wsOk ?u" "set (tnBackpressured ?u) = set (tnBackpressured t) - set cs"
    using drained [OF inv, of cs] assms(2) tunnelInvD(1) by auto
  then show ?thesis unfolding wsOk_def by (metis Diff_eq_empty_iff set_empty)
qed

theorem resumes_exactly_when_drained_witness:
  "tnWsPaused (fold onDrain [] demoFull) \<and> \<not> tnWsPaused (fold onDrain [1] demoFull)"
  using resumes_exactly_when_drained [OF demoFull_reachable, of "[]"] resumes_exactly_when_drained [OF demoFull_reachable, of "[1]"]
  by (simp add: demoFull_eq demoOpen_eq newTunnel_def)

text \<open>
  What the phone hears of every connection is a conversation: one request to connect, then data,
  then closes, and nothing about a connection that was never announced; a connection id is never used twice.
\<close>

theorem phone_hears_conversations:
  assumes "bridge_step\<^sup>*\<^sup>* newTunnel t"
  shows "(\<forall>m\<in>set (tnSent t). \<exists>c. tmConnId m = of_nat c \<and> conversation c (framesOf c (tnSent t)))
    \<and> (\<forall>c e. mget (tnEntries t) c = Some e \<and> relaying e \<longrightarrow> TmClose (of_nat c) \<notin> set (tnSent t))"
proof -
  have inv: "tunnelInv t" by (rule bridge.reachable_inv [OF refl assms])
  have "\<exists>c. tmConnId m = of_nat c \<and> conversation c (framesOf c (tnSent t))" if m: "m \<in> set (tnSent t)" for m
  proof -
    from tunnelInvD(1) [OF inv] have "\<forall>m\<in>set (tnSent t). \<exists>c\<in>set (mkeys (tnEntries t)). tmConnId m = of_nat c"
      unfolding wsOk_def by blast
    with m obtain c where "c \<in> set (mkeys (tnEntries t))" "tmConnId m = of_nat c" by blast
    then obtain e where "mget (tnEntries t) c = Some e" "tmConnId m = of_nat c" by (auto simp: set_mkeys)
    with tunnelInvD(2) [OF inv] show ?thesis by (auto simp: entryOk_def)
  qed
  moreover have "TmClose (of_nat c) \<notin> set (tnSent t)" if "mget (tnEntries t) c = Some e" "relaying e" for c e
    using that tunnelInvD(2) [OF inv] by (auto simp: entryOk_def relaying_def)
  ultimately show ?thesis by blast
qed

theorem phone_hears_conversations_witness:
  "tnSent demoFull = [TmConnect 1 ''bank.example'' 443]
   \<and> (\<exists>c. tmConnId (TmConnect 1 ''bank.example'' 443) = of_nat c \<and> conversation c (framesOf c (tnSent demoFull)))"
  using phone_hears_conversations [OF demoFull_reachable] by (simp add: demoFull_eq demoOpen_eq newTunnel_def)

text \<open>
  C32: The bytes queued for the phone are bounded while it is connected: the high-water mark, one data
  frame for each connection that is paused or gone, and the connect and close frames.
\<close>

theorem send_buffer_bounded:
  assumes "bridge_step\<^sup>*\<^sup>* newTunnel t" "tnWs t = WsOpen" "\<And>m. m \<in> set (tnSent t) \<Longrightarrow> isData m \<Longrightarrow> frameBytes m \<le> M"
  shows "tnBuffered t \<le> 1048576
    + M * card {c. \<exists>e. mget (tnEntries t) c = Some e \<and> (sePaused e \<or> scDestroyed (seSocket e))} + controlBytes (tnSent t)"
proof -
  have "bufferOk M t" using buffer.reachable_inv [OF refl assms(1)] by blast
  with assms(2,3) show ?thesis by (simp add: bufferOk_def stuck_def WS_HIGH_WATER_BYTES_def)
qed

theorem send_buffer_bounded_witness:
  "tnBuffered demoFull \<le> 1048576 + controlBytes (tnSent demoFull) \<and> tnSent demoFull = [TmConnect 1 ''bank.example'' 443]"
  using send_buffer_bounded [OF demoFull_reachable, of 0]
  by (simp add: demoFull_eq demoOpen_eq newTunnel_def isData_def)

text \<open>
  Every message of the phone survives the wire: its text parses back to the message, and a data frame
  for a registered connection writes exactly the bytes that were encoded, nothing else being sent.
\<close>

theorem frames_roundtrip:
  assumes "c < 10 ^ 21" "tmConnId m = of_nat c" "fromPhone m"
  shows "parseTunnelFrame (frameText m) = Some m
    \<and> (\<forall>bs t e ok. m = TmData (of_nat c) (base64_encode bs) \<and> c \<in> set (tnConnections t) \<and> mget (tnEntries t) c = Some e \<longrightarrow>
         (\<exists>e'. mget (tnEntries (onMessage (frameText m) ok t)) c = Some e' \<and> seSocket e' = writeSocket bs (seSocket e))
         \<and> tnSent (onMessage (frameText m) ok t) = tnSent t)"
proof -
  have parse: "parseTunnelFrame (frameText m) = Some m" by (rule parse_frameText [OF assms(2,1,3)])
  moreover have "(\<exists>e'. mget (tnEntries (onMessage (frameText m) ok t)) c = Some e' \<and> seSocket e' = writeSocket bs (seSocket e))
      \<and> tnSent (onMessage (frameText m) ok t) = tnSent t"
    if "m = TmData (of_nat c) (base64_encode bs)" "c \<in> set (tnConnections t)" "mget (tnEntries t) c = Some e" for bs t e ok
    using that parse connKey_registered [OF that(2)]
    by (simp add: onMessage_def onTunnelData_def Let_def addWsBackpressure_def)
  ultimately show ?thesis by blast
qed

theorem frames_roundtrip_witness:
  "parseTunnelFrame (frameText (TmData 7 (base64_encode [104, 105]))) = Some (TmData 7 (base64_encode [104, 105]))"
  using frames_roundtrip [of 7 "TmData 7 (base64_encode [104, 105])"] by (simp add: fromPhone_def)



text \<open>
  Teardown is a positive fence: after a sweep without failures nothing is registered and no
  connection is backpressured, and in any case no connection relays another byte; a connection whose
  socket could not be destroyed stays registered, so that the next attempt finds it.
\<close>

theorem teardown_fences:
  assumes "bridge_step\<^sup>*\<^sup>* newTunnel t" "closeSweep destroyOk terminateOk t = (u, failures)"
  shows "(failures = 0 \<longrightarrow> tnConnections u = [] \<and> tnBackpressured u = [] \<and> tnWs u \<noteq> WsOpen)
    \<and> set (tnConnections u) = {c \<in> set (tnConnections t). \<not> destroyOk c}
    \<and> (\<forall>c e. mget (tnEntries u) c = Some e \<longrightarrow> \<not> relaying e)"
proof -
  have inv: "tunnelInv t" by (rule bridge.reachable_inv [OF refl assms(1)])
  let ?v = "fold (tearConn destroyOk) (tnConnections t) t"
  have u: "tnConnections u = tnConnections ?v" "tnEntries u = tnEntries ?v" "tnBackpressured u = tnBackpressured ?v"
    "failures = 0 \<Longrightarrow> tnWs u \<noteq> WsOpen \<and> (\<forall>c\<in>set (tnConnections t). destroyOk c)"
    using assms(2) by (auto simp: closeSweep_def Let_def filter_empty_conv split: if_splits)
  have conns: "set (tnConnections u) = {c \<in> set (tnConnections t). \<not> destroyOk c}"
    using tear_all_connections [of t destroyOk "tnConnections t"] tunnelInvD(1) [OF inv] by (auto simp: u(1) wsOk_def)
  have "tunnelInv ?v" using inv by (intro inv_fold inv_tearConn)
  then have "set (tnBackpressured u) \<subseteq> set (tnConnections u)" by (auto simp: u tunnelInv_def wsOk_def)
  with conns u(4) have "failures = 0 \<longrightarrow> tnConnections u = [] \<and> tnBackpressured u = [] \<and> tnWs u \<noteq> WsOpen"
    by (metis (no_types, lifting) Collect_empty_eq set_empty subset_empty)
  with conns teardown_stops_relay [OF inv] show ?thesis by (auto simp: u(2))
qed

theorem teardown_fences_witness:
  "tnConnections (fst (closeSweep (\<lambda>_. True) True demoFull)) = [] \<and> tnWs (fst (closeSweep (\<lambda>_. True) True demoFull)) \<noteq> WsOpen"
proof -
  have "snd (closeSweep (\<lambda>_. True) True demoFull) = 0" by (simp add: closeSweep_def Let_def)
  with teardown_fences [OF demoFull_reachable, of "\<lambda>_. True" True "fst (closeSweep (\<lambda>_. True) True demoFull)" 0]
  show ?thesis by (metis prod.collapse)
qed

end
