(* ===== verification/TunnelPark.thy ===== *)
theory TunnelPark
  imports JsJson
begin

text \<open>
  The park-and-wait registry of \<^verbatim>\<open>apps/engine/src/tunnel/tunnel-server.ts\<close>: a dispatched crawl waits
  until a phone's WebSocket claims it, runs once behind a SOCKS5 listener, and can be fenced at any
  moment. The registries are keyed by session and never mix keys, so the state is that of one session.
  Every \<^verbatim>\<open>await\<close> is a point where other handlers run: a handler, a fence and a teardown are program
  counters, and a step runs one of them up to its next wait. Objects the code shares by reference
  (parked crawls, lifecycles, listeners) are numbered. What the database, the operating system and the
  crawl executor decide is free, except that the tunnel claim of the session is a single-use
  compare-and-swap. A teardown without a published listener completes within its turn.
\<close>

section \<open>State\<close>

text \<open>Of a crawl's response, the fields the tunnel server itself sets; the executor's other fields pass through it.\<close>

record crawl_response =
  crSuccess :: bool
  crError :: "string option"
  crFailureReason :: "string option"
  crStepsExecuted :: nat

datatype settlement = Resolved crawl_response | Rejected

record parked_crawl =
  pkClaimed :: bool
  pkSettled :: bool
  pkTimerArmed :: bool
  pkTtlPending :: bool
  pkTtlMs :: nat
  pkOutcome :: "settlement list"

text \<open>
  Where a companion connection is: waiting for the claim query, holding its answer, releasing an unused
  claim, binding its listener, running the crawl, or waiting for the final teardown.
\<close>

datatype close_wait = WaitClose nat | Immediate bool

datatype handler =
    HLoading
  | HLoaded bool
  | HReleasing
  | HBinding nat
  | HCrawling nat
  | HClosing nat close_wait crawl_response bool
  | HDone

datatype close_op = CloseRunning nat bool | CloseOk | CloseFailed

datatype fence_pc =
    FFirst close_wait "nat option" "nat option"
  | FBinds "nat list" "nat option" "nat option"
  | FSecond close_wait "nat option" "nat option"
  | FLifecycle "nat option" "nat option"
  | FDone
  | FThrown

record park_state =
  psParks :: "nat \<rightharpoonup> parked_crawl"
  psParked :: "nat option"
  psFenced :: "string option"
  psDbClaimed :: bool
  psHandlers :: "nat \<rightharpoonup> handler"
  psPendingWs :: "nat list"
  psBinds :: "nat list"
  psActive :: "nat option"
  psLifecycle :: "nat option"
  psFinished :: "nat list"
  psAborted :: "nat list"
  psClosing :: "nat option"
  psCloses :: "nat \<rightharpoonup> close_op"
  psFences :: "nat \<rightharpoonup> fence_pc"
  psReasons :: "nat \<rightharpoonup> string"
  psStarts :: "nat list"

definition newPark :: park_state where
  "newPark = \<lparr>psParks = Map.empty, psParked = None, psFenced = None, psDbClaimed = False, psHandlers = Map.empty,
     psPendingWs = [], psBinds = [], psActive = None, psLifecycle = None, psFinished = [], psAborted = [],
     psClosing = None, psCloses = Map.empty, psFences = Map.empty, psReasons = Map.empty, psStarts = []\<rparr>"

section \<open>The registry\<close>

definition internalError :: "string \<Rightarrow> crawl_response" where
  "internalError msg = \<lparr>crSuccess = False, crError = Some msg, crFailureReason = Some ''internal_error'', crStepsExecuted = 0\<rparr>"

definition fencedResponse :: "string \<Rightarrow> crawl_response" where
  "fencedResponse reason = \<lparr>crSuccess = False, crError = Some reason, crFailureReason = Some ''instance_died'', crStepsExecuted = 0\<rparr>"

definition noCompanion :: "nat \<Rightarrow> crawl_response" where
  "noCompanion ttlMs = internalError (''device proxy tunnel was not established within ''
     @ show_nat ((ttlMs + 500) div 1000) @ ''s (no companion connected)'')"

definition parkedCrawlConnectTimeoutMs :: "nat \<Rightarrow> nat" where
  "parkedCrawlConnectTimeoutMs timeoutSeconds = timeoutSeconds * 1000"

definition settleWith :: "settlement \<Rightarrow> nat \<Rightarrow> park_state \<Rightarrow> park_state" where
  "settleWith out i s =
     (case psParks s i of
        None \<Rightarrow> s
      | Some p \<Rightarrow>
          if pkSettled p then s
          else s\<lparr>psParks := (psParks s)(i \<mapsto> p\<lparr>pkSettled := True, pkTimerArmed := False, pkOutcome := pkOutcome p @ [out]\<rparr>),
                 psParked := None\<rparr>)"

definition settleParked :: "nat \<Rightarrow> crawl_response \<Rightarrow> park_state \<Rightarrow> park_state" where
  "settleParked i response s = settleWith (Resolved response) i s"

definition rejectParked :: "nat \<Rightarrow> park_state \<Rightarrow> park_state" where
  "rejectParked i s = settleWith Rejected i s"

definition newParked :: "nat \<Rightarrow> parked_crawl" where
  "newParked ttlMs = \<lparr>pkClaimed = False, pkSettled = False, pkTimerArmed = True, pkTtlPending = False, pkTtlMs = ttlMs, pkOutcome = []\<rparr>"

text \<open>The dispatch numbered \<open>i\<close>; a fenced session answers it at once.\<close>

definition parkCrawlRequest :: "nat \<Rightarrow> nat \<Rightarrow> park_state \<Rightarrow> park_state" where
  "parkCrawlRequest i ttlMs s =
     (case psFenced s of
        Some reason \<Rightarrow>
          s\<lparr>psParks := (psParks s)(i \<mapsto> (newParked ttlMs)\<lparr>pkSettled := True, pkTimerArmed := False, pkOutcome := [Resolved (fencedResponse reason)]\<rparr>)\<rparr>
      | None \<Rightarrow>
          let s = (case psParked s of
                     None \<Rightarrow> s
                   | Some j \<Rightarrow> settleParked j (internalError ''superseded by a newer crawl dispatch for this session'') s)
          in s\<lparr>psParks := (psParks s)(i \<mapsto> newParked ttlMs), psParked := Some i\<rparr>)"

text \<open>The wait for a companion expires: the guard is checked before the session is marked failed.\<close>

definition ttlFires :: "nat \<Rightarrow> park_state \<Rightarrow> park_state" where
  "ttlFires i s =
     (let s = s\<lparr>psParks := (case psParks s i of None \<Rightarrow> psParks s | Some p \<Rightarrow> (psParks s)(i \<mapsto> p\<lparr>pkTimerArmed := False\<rparr>))\<rparr>
      in case psParked s of
           None \<Rightarrow> s
         | Some j \<Rightarrow>
             (case psParks s j of
                None \<Rightarrow> s
              | Some p \<Rightarrow> if pkSettled p \<or> pkClaimed p then s
                          else s\<lparr>psParks := (psParks s)(j \<mapsto> p\<lparr>pkTtlPending := True\<rparr>)\<rparr>))"

definition ttlSettles :: "nat \<Rightarrow> park_state \<Rightarrow> park_state" where
  "ttlSettles i s =
     (case psParks s i of
        None \<Rightarrow> s
      | Some p \<Rightarrow> settleParked i (noCompanion (pkTtlMs p)) (s\<lparr>psParks := (psParks s)(i \<mapsto> p\<lparr>pkTtlPending := False\<rparr>)\<rparr>))"

definition claimParked :: "park_state \<Rightarrow> (park_state \<times> nat) option" where
  "claimParked s =
     (case psParked s of
        None \<Rightarrow> None
      | Some i \<Rightarrow>
          (case psParks s i of
             None \<Rightarrow> None
           | Some p \<Rightarrow>
               if pkSettled p \<or> pkClaimed p then None
               else Some (s\<lparr>psParks := (psParks s)(i \<mapsto> p\<lparr>pkClaimed := True, pkTimerArmed := False\<rparr>)\<rparr>, i)))"

section \<open>Teardown\<close>

text \<open>
  \<^verbatim>\<open>closeTunnel\<close> up to its first wait: it joins a teardown in flight, or sweeps the sockets and the
  pending WebSockets (\<open>sweepOk\<close>: nothing threw) and then waits for the listener, if one is published.
\<close>

definition closeTunnel :: "nat \<Rightarrow> bool \<Rightarrow> park_state \<Rightarrow> park_state \<times> close_wait" where
  "closeTunnel k sweepOk s =
     (case psClosing s of
        Some k' \<Rightarrow> (s, WaitClose k')
      | None \<Rightarrow>
          (case psActive s of
             None \<Rightarrow>
               if psPendingWs s = [] then (s, Immediate True)
               else if sweepOk then (s\<lparr>psPendingWs := []\<rparr>, Immediate True) else (s, Immediate False)
           | Some h \<Rightarrow>
               (s\<lparr>psPendingWs := (if sweepOk then [] else psPendingWs s), psClosing := Some k,
                  psCloses := (psCloses s)(k \<mapsto> CloseRunning h (\<not> sweepOk))\<rparr>, WaitClose k)))"

definition closeFinishes :: "nat \<Rightarrow> bool \<Rightarrow> park_state \<Rightarrow> park_state" where
  "closeFinishes k socksOk s =
     (case psCloses s k of
        Some (CloseRunning h failed) \<Rightarrow>
          let s = s\<lparr>psClosing := (if psClosing s = Some k then None else psClosing s)\<rparr>
          in if failed \<or> \<not> socksOk then s\<lparr>psCloses := (psCloses s)(k \<mapsto> CloseFailed)\<rparr>
             else s\<lparr>psCloses := (psCloses s)(k \<mapsto> CloseOk), psActive := (if psActive s = Some h then None else psActive s)\<rparr>
      | _ \<Rightarrow> s)"

definition hasClosed :: "close_wait \<Rightarrow> park_state \<Rightarrow> bool" where
  "hasClosed w s = (case w of Immediate ok \<Rightarrow> ok | WaitClose k \<Rightarrow> psCloses s k = Some CloseOk)"

definition closeFailed :: "close_wait \<Rightarrow> park_state \<Rightarrow> bool" where
  "closeFailed w s = (case w of Immediate ok \<Rightarrow> \<not> ok | WaitClose k \<Rightarrow> psCloses s k = Some CloseFailed)"

section \<open>A companion connection\<close>

definition setHandler :: "nat \<Rightarrow> handler \<Rightarrow> park_state \<Rightarrow> park_state" where
  "setHandler h pc s = s\<lparr>psHandlers := (psHandlers s)(h \<mapsto> pc)\<rparr>"

definition finishLifecycle :: "nat \<Rightarrow> park_state \<Rightarrow> park_state" where
  "finishLifecycle h s =
     s\<lparr>psFinished := h # psFinished s, psLifecycle := (if psLifecycle s = Some h then None else psLifecycle s)\<rparr>"

text \<open>The upgrade: refused under a fence, otherwise tracked before the first wait.\<close>

definition acceptUpgrade :: "nat \<Rightarrow> park_state \<Rightarrow> park_state" where
  "acceptUpgrade h s =
     (if psFenced s \<noteq> None then s
      else setHandler h HLoading (s\<lparr>psPendingWs := psPendingWs s @ [h]\<rparr>))"

text \<open>
  The claim query runs: the compare-and-swap of the session's claim can win only once (\<open>wins\<close>), and the
  connection goes on only with a winning claim on a session in an active status.
\<close>

definition ACTIVE_TUNNEL_STATUSES :: "string list" where
  "ACTIVE_TUNNEL_STATUSES = [''starting'', ''logging_in'', ''navigating'', ''waiting_for_otp'', ''extracting'']"

definition queryClaim :: "nat \<Rightarrow> string option \<Rightarrow> bool \<Rightarrow> park_state \<Rightarrow> park_state" where
  "queryClaim h status wins s =
     (let claimed = (status \<noteq> None \<and> wins \<and> \<not> psDbClaimed s);
          active = (case status of None \<Rightarrow> False | Some st \<Rightarrow> st \<in> set ACTIVE_TUNNEL_STATUSES)
      in setHandler h (HLoaded (active \<and> claimed)) (s\<lparr>psDbClaimed := psDbClaimed s \<or> claimed\<rparr>))"

text \<open>From the answer of the claim query to the bind of the listener.\<close>

definition resumeClaim :: "nat \<Rightarrow> bool \<Rightarrow> park_state \<Rightarrow> park_state" where
  "resumeClaim h claimed s =
     (if \<not> claimed \<or> psFenced s \<noteq> None then setHandler h HDone s
      else if psParked s = None then setHandler h HReleasing s
      else case claimParked s of
             None \<Rightarrow> setHandler h HDone s
           | Some (s, i) \<Rightarrow>
               setHandler h (HBinding i) (s\<lparr>psLifecycle := Some h, psBinds := psBinds s @ [h]\<rparr>))"

definition releaseClaim :: "nat \<Rightarrow> bool \<Rightarrow> park_state \<Rightarrow> park_state" where
  "releaseClaim h ok s = setHandler h HDone (if ok then s\<lparr>psDbClaimed := False\<rparr> else s)"

definition beginClose :: "nat \<Rightarrow> bool \<Rightarrow> nat \<Rightarrow> nat \<Rightarrow> crawl_response \<Rightarrow> bool \<Rightarrow> park_state \<Rightarrow> park_state" where
  "beginClose k sweepOk h i response fatal s =
     (case closeTunnel k sweepOk s of (s, w) \<Rightarrow> setHandler h (HClosing i w response fatal) s)"

text \<open>The listener is bound and published; under a fence the handler leaves it to the fence and ends.\<close>

definition bindReady :: "nat \<Rightarrow> nat \<Rightarrow> park_state \<Rightarrow> park_state" where
  "bindReady h i s =
     (let s = s\<lparr>psActive := Some h, psBinds := filter (\<lambda>b. b \<noteq> h) (psBinds s)\<rparr>
      in if psFenced s \<noteq> None then setHandler h HDone (finishLifecycle h s)
         else setHandler h (HCrawling i) (s\<lparr>psStarts := psStarts s @ [i]\<rparr>))"

definition bindFailed :: "nat \<Rightarrow> bool \<Rightarrow> nat \<Rightarrow> nat \<Rightarrow> string \<Rightarrow> park_state \<Rightarrow> park_state" where
  "bindFailed k sweepOk h i msg s =
     beginClose k sweepOk h i (internalError msg) False (s\<lparr>psBinds := filter (\<lambda>b. b \<noteq> h) (psBinds s)\<rparr>)"

definition finishClose :: "nat \<Rightarrow> nat \<Rightarrow> close_wait \<Rightarrow> crawl_response \<Rightarrow> bool \<Rightarrow> park_state \<Rightarrow> park_state" where
  "finishClose h i w response fatal s =
     (let s = (if closeFailed w s \<or> fatal then rejectParked i s else settleParked i response s)
      in setHandler h HDone (finishLifecycle h s))"

section \<open>The fence\<close>

definition setFence :: "nat \<Rightarrow> fence_pc \<Rightarrow> park_state \<Rightarrow> park_state" where
  "setFence f pc s = s\<lparr>psFences := (psFences s)(f \<mapsto> pc)\<rparr>"

definition fenceCrawl :: "nat \<Rightarrow> nat \<Rightarrow> bool \<Rightarrow> string \<Rightarrow> park_state \<Rightarrow> park_state" where
  "fenceCrawl f k sweepOk reason s =
     (let s = s\<lparr>psFenced := Some reason\<rparr>;
          parked = psParked s;
          lifecycle = psLifecycle s;
          s = s\<lparr>psAborted := (case lifecycle of None \<Rightarrow> psAborted s | Some h \<Rightarrow> h # psAborted s)\<rparr>
      in case closeTunnel k sweepOk (s\<lparr>psReasons := (psReasons s)(f \<mapsto> reason)\<rparr>) of (s, w) \<Rightarrow> setFence f (FFirst w parked lifecycle) s)"

definition fenceSecond :: "nat \<Rightarrow> nat \<Rightarrow> bool \<Rightarrow> nat option \<Rightarrow> nat option \<Rightarrow> park_state \<Rightarrow> park_state" where
  "fenceSecond f k sweepOk parked lifecycle s =
     (case closeTunnel k sweepOk s of (s, w) \<Rightarrow> setFence f (FSecond w parked lifecycle) s)"

definition fenceSettles :: "nat \<Rightarrow> nat option \<Rightarrow> park_state \<Rightarrow> park_state" where
  "fenceSettles f parked s =
     setFence f FDone
       (case parked of None \<Rightarrow> s | Some i \<Rightarrow> settleParked i (fencedResponse (case psReasons s f of Some r \<Rightarrow> r | None \<Rightarrow> [])) s)"

section \<open>Interleavings\<close>

inductive park_step :: "park_state \<Rightarrow> park_state \<Rightarrow> bool" where
  dispatch: "psParks s i = None \<Longrightarrow> park_step s (parkCrawlRequest i (parkedCrawlConnectTimeoutMs timeoutSeconds) s)"
| ttl: "psParks s i = Some p \<Longrightarrow> pkTimerArmed p \<Longrightarrow> park_step s (ttlFires i s)"
| ttlDone: "psParks s i = Some p \<Longrightarrow> pkTtlPending p \<Longrightarrow> park_step s (ttlSettles i s)"
| upgrade: "psHandlers s h = None \<Longrightarrow> park_step s (acceptUpgrade h s)"
| wsGone: "park_step s (s\<lparr>psPendingWs := filter (\<lambda>w. w \<noteq> h) (psPendingWs s)\<rparr>)"
| load: "psHandlers s h = Some HLoading \<Longrightarrow> park_step s (queryClaim h status wins s)"
| claim: "psHandlers s h = Some (HLoaded claimed) \<Longrightarrow> park_step s (resumeClaim h claimed s)"
| release: "psHandlers s h = Some HReleasing \<Longrightarrow> park_step s (releaseClaim h ok s)"
| bound: "psHandlers s h = Some (HBinding i) \<Longrightarrow> park_step s (bindReady h i s)"
| unbound: "psHandlers s h = Some (HBinding i) \<Longrightarrow> psCloses s k = None \<Longrightarrow> park_step s (bindFailed k sweepOk h i msg s)"
| crawled: "psHandlers s h = Some (HCrawling i) \<Longrightarrow> psCloses s k = None \<Longrightarrow>
    park_step s (beginClose k sweepOk h i response fatal s)"
| settled: "psHandlers s h = Some (HClosing i w response fatal) \<Longrightarrow> hasClosed w s \<or> closeFailed w s \<Longrightarrow>
    park_step s (finishClose h i w response fatal s)"
| background: "psActive s \<noteq> None \<Longrightarrow> psCloses s k = None \<Longrightarrow> park_step s (fst (closeTunnel k sweepOk s))"
| closing: "psCloses s k = Some (CloseRunning h failed) \<Longrightarrow> park_step s (closeFinishes k socksOk s)"
| fence: "psFences s f = None \<Longrightarrow> psCloses s k = None \<Longrightarrow> park_step s (fenceCrawl f k sweepOk reason s)"
| fenceBinds: "psFences s f = Some (FFirst w parked lifecycle) \<Longrightarrow> hasClosed w s \<Longrightarrow>
    park_step s (setFence f (FBinds (psBinds s) parked lifecycle) s)"
| fenceThrows: "psFences s f = Some (FFirst w parked lifecycle) \<or> psFences s f = Some (FSecond w parked lifecycle) \<Longrightarrow>
    closeFailed w s \<Longrightarrow> park_step s (setFence f FThrown s)"
| fenceAgain: "psFences s f = Some (FBinds bs parked lifecycle) \<Longrightarrow> set bs \<inter> set (psBinds s) = {} \<Longrightarrow> psCloses s k = None \<Longrightarrow>
    park_step s (fenceSecond f k sweepOk parked lifecycle s)"
| fenceClosed: "psFences s f = Some (FSecond w parked lifecycle) \<Longrightarrow> hasClosed w s \<Longrightarrow>
    park_step s (setFence f (FLifecycle parked lifecycle) s)"
| fenceDone: "psFences s f = Some (FLifecycle parked lifecycle) \<Longrightarrow> (\<And>h. lifecycle = Some h \<Longrightarrow> h \<in> set (psFinished s)) \<Longrightarrow>
    park_step s (fenceSettles f parked s)"

section \<open>Parked crawls\<close>

text \<open>A crawl is registered exactly until it is settled, and it is settled once; an armed timer means nobody claimed it.\<close>

definition parkOk :: "nat option \<Rightarrow> nat \<Rightarrow> parked_crawl \<Rightarrow> bool" where
  "parkOk reg i p \<longleftrightarrow> (pkSettled p \<longleftrightarrow> reg \<noteq> Some i) \<and> (pkTimerArmed p \<longrightarrow> \<not> pkClaimed p \<and> \<not> pkSettled p)
     \<and> (if pkSettled p then length (pkOutcome p) = 1 else pkOutcome p = [])"

definition parksOk :: "park_state \<Rightarrow> bool" where
  "parksOk s \<longleftrightarrow> (\<forall>i p. psParks s i = Some p \<longrightarrow> parkOk (psParked s) i p)
     \<and> (\<forall>i. psParked s = Some i \<longrightarrow> psParks s i \<noteq> None)"

lemma parksOkD: "parksOk s \<Longrightarrow> psParks s i = Some p \<Longrightarrow> parkOk (psParked s) i p"
  by (simp add: parksOk_def)

lemma parksOk_put: "parksOk s \<Longrightarrow> parkOk (psParked s) i q \<Longrightarrow> parksOk (s\<lparr>psParks := (psParks s)(i \<mapsto> q)\<rparr>)"
  by (auto simp: parksOk_def)

lemma parkOk_other: "parkOk (Some i) j p \<Longrightarrow> j \<noteq> i \<Longrightarrow> parkOk None j p"
  by (auto simp: parkOk_def)

definition claimedIn :: "park_state \<Rightarrow> nat \<Rightarrow> bool" where
  "claimedIn s i \<longleftrightarrow> (\<exists>p. psParks s i = Some p \<and> pkClaimed p)"

text \<open>What an operation on the parks leaves alone.\<close>

definition sameControl :: "park_state \<Rightarrow> park_state \<Rightarrow> bool" where
  "sameControl s t \<longleftrightarrow> psFenced t = psFenced s \<and> psDbClaimed t = psDbClaimed s \<and> psHandlers t = psHandlers s
     \<and> psPendingWs t = psPendingWs s \<and> psBinds t = psBinds s \<and> psActive t = psActive s \<and> psLifecycle t = psLifecycle s
     \<and> psFinished t = psFinished s \<and> psClosing t = psClosing s \<and> psCloses t = psCloses s \<and> psFences t = psFences s
     \<and> psStarts t = psStarts s"

lemma sameControl_refl [simp]: "sameControl s s"
  by (simp add: sameControl_def)

lemma sameControl_trans: "sameControl s t \<Longrightarrow> sameControl t u \<Longrightarrow> sameControl s u"
  by (simp add: sameControl_def)

lemma sameControlD:
  assumes "sameControl s t"
  shows "psFenced t = psFenced s" "psDbClaimed t = psDbClaimed s" "psHandlers t = psHandlers s"
    "psPendingWs t = psPendingWs s" "psBinds t = psBinds s" "psActive t = psActive s" "psLifecycle t = psLifecycle s"
    "psFinished t = psFinished s" "psClosing t = psClosing s" "psCloses t = psCloses s" "psFences t = psFences s"
    "psStarts t = psStarts s"
  using assms by (simp_all add: sameControl_def)

lemma settle_control: "sameControl s (settleWith out i s)"
  by (simp add: settleWith_def sameControl_def split: option.split)

lemma settle_cases:
  assumes "parksOk s"
  obtains "settleWith out i s = s" "psParked s \<noteq> Some i"
  | p where "psParks s i = Some p" "psParked s = Some i" "\<not> pkSettled p"
      "settleWith out i s = s\<lparr>psParks := (psParks s)(i \<mapsto> p\<lparr>pkSettled := True, pkTimerArmed := False, pkOutcome := [out]\<rparr>), psParked := None\<rparr>"
proof (cases "psParked s = Some i")
  case True
  then obtain p where p: "psParks s i = Some p" using assms by (auto simp: parksOk_def)
  with parksOkD [OF assms p] True that(2) [OF p True] show ?thesis by (simp add: settleWith_def parkOk_def)
next
  case False
  have "settleWith out i s = s"
    using False parksOkD [OF assms] by (auto simp: settleWith_def parkOk_def split: option.split)
  with False that(1) show ?thesis by blast
qed

lemma settle_ok: "parksOk s \<Longrightarrow> parksOk (settleWith out i s)"
proof -
  assume s: "parksOk s"
  show ?thesis
  proof (rule settle_cases [OF s, of out i])
    fix p
    assume p: "psParks s i = Some p" "psParked s = Some i"
      and e: "settleWith out i s = s\<lparr>psParks := (psParks s)(i \<mapsto> p\<lparr>pkSettled := True, pkTimerArmed := False, pkOutcome := [out]\<rparr>), psParked := None\<rparr>"
    have "parkOk None j q" if "psParks s j = Some q" "j \<noteq> i" for j q
      using parksOkD [OF s that(1)] that(2) p(2) parkOk_other by simp
    then show ?thesis unfolding e by (auto simp: parksOk_def parkOk_def)
  qed (simp add: s)
qed

lemma settle_claimed: "claimedIn s j \<Longrightarrow> claimedIn (settleWith out i s) j"
  by (auto simp: claimedIn_def settleWith_def split: option.split)

lemma settle_unparks: "parksOk s \<Longrightarrow> psParked (settleWith out i s) = (if psParked s = Some i then None else psParked s)"
  by (rule settle_cases [of s out i]) simp_all

lemma settle_settles: "psParks s i = Some p \<Longrightarrow> \<exists>q. psParks (settleWith out i s) i = Some q \<and> pkSettled q"
  by (simp add: settleWith_def)

lemma control_parks: "sameControl s t \<Longrightarrow> sameControl s (t\<lparr>psParks := x\<rparr>)" "sameControl s t \<Longrightarrow> sameControl s (t\<lparr>psParks := x, psParked := y\<rparr>)"
  by (simp_all add: sameControl_def)

lemma park_control: "sameControl s (parkCrawlRequest i ms s)"
  unfolding parkCrawlRequest_def Let_def settleParked_def
  by (auto split: option.split intro!: control_parks settle_control)

lemma park_ok:
  assumes "parksOk s" "psParks s i = None"
  shows "parksOk (parkCrawlRequest i ms s)"
proof (cases "psFenced s")
  case None
  define t where "t = (case psParked s of None \<Rightarrow> s
    | Some j \<Rightarrow> settleParked j (internalError ''superseded by a newer crawl dispatch for this session'') s)"
  have "parksOk t" "psParked t = None"
    using assms(1) by (auto simp: t_def settleParked_def settle_ok settle_unparks split: option.split)
  moreover have "psParks t i = None"
    using assms by (auto simp: t_def settleParked_def settleWith_def split: option.split)
  ultimately have t: "parksOk t" "psParked t = None" "psParks t i = None" by simp_all
  have "parkOk (Some i) j q" if "psParks t j = Some q" for j q
    using parksOkD [OF t(1) that] t(2,3) that by (auto simp: parkOk_def)
  then have "parksOk (t\<lparr>psParks := (psParks t)(i \<mapsto> newParked ms), psParked := Some i\<rparr>)"
    by (auto simp: parksOk_def parkOk_def newParked_def)
  then show ?thesis unfolding parkCrawlRequest_def None t_def by (simp add: Let_def)
next
  case (Some r)
  have "psParked s \<noteq> Some i" using assms by (auto simp: parksOk_def)
  with assms Some show ?thesis by (auto simp: parkCrawlRequest_def newParked_def parkOk_def intro!: parksOk_put)
qed

lemma park_claimed: "psParks s i = None \<Longrightarrow> claimedIn s j \<Longrightarrow> claimedIn (parkCrawlRequest i ms s) j"
  by (auto simp: parkCrawlRequest_def Let_def claimedIn_def settleParked_def settleWith_def split: option.split)

lemma park_fenced: "psFenced s \<noteq> None \<Longrightarrow> psParked (parkCrawlRequest i ms s) = psParked s"
  by (auto simp: parkCrawlRequest_def)

lemma ttl_control: "sameControl s (ttlFires i s)" "sameControl s (ttlSettles i s)"
proof -
  show "sameControl s (ttlFires i s)"
    unfolding ttlFires_def Let_def by (auto split: option.split intro!: control_parks)
  show "sameControl s (ttlSettles i s)" unfolding ttlSettles_def settleParked_def
    by (auto split: option.split intro: sameControl_trans [OF control_parks(1) [OF sameControl_refl] settle_control])
qed

lemma ttl_ok:
  assumes "parksOk s"
  shows "parksOk (ttlFires i s)" "parksOk (ttlSettles i s)"
proof -
  define t where "t = s\<lparr>psParks := (case psParks s i of None \<Rightarrow> psParks s | Some p \<Rightarrow> (psParks s)(i \<mapsto> p\<lparr>pkTimerArmed := False\<rparr>))\<rparr>"
  have t: "parksOk t"
  proof (cases "psParks s i")
    case None
    then show ?thesis using assms by (simp add: t_def)
  next
    case (Some p)
    have "parkOk (psParked s) i (p\<lparr>pkTimerArmed := False\<rparr>)" using parksOkD [OF assms Some] by (simp add: parkOk_def)
    from parksOk_put [OF assms this] show ?thesis by (simp add: t_def Some)
  qed
  have "parksOk (t\<lparr>psParks := (psParks t)(j \<mapsto> p\<lparr>pkTtlPending := b\<rparr>)\<rparr>)" if "parksOk t" "psParks t j = Some p" for j p b t
    using parksOkD [OF that] by (intro parksOk_put that) (auto simp: parkOk_def)
  with t assms show "parksOk (ttlFires i s)" "parksOk (ttlSettles i s)"
    unfolding ttlFires_def ttlSettles_def Let_def t_def [symmetric] settleParked_def
    by (auto split: option.split intro!: settle_ok)
qed

lemma ttl_claimed: "claimedIn s j \<Longrightarrow> claimedIn (ttlFires i s) j" "claimedIn s j \<Longrightarrow> claimedIn (ttlSettles i s) j"
  by (auto simp: ttlFires_def ttlSettles_def Let_def claimedIn_def settleParked_def settleWith_def split: option.split)

lemma ttl_parked: "psParked (ttlFires i s) = psParked s"
  by (auto simp: ttlFires_def Let_def split: option.split)

lemma ttlSettles_parked: "psParked (ttlSettles i s) = Some j \<Longrightarrow> psParked s = Some j"
  by (auto simp: ttlSettles_def settleParked_def settleWith_def split: option.splits if_splits)

lemma settle_parked: "psParked (settleWith out i s) = Some j \<Longrightarrow> psParked s = Some j"
  by (auto simp: settleWith_def split: option.splits if_splits)

lemma claimParked_Some:
  assumes "claimParked s = Some (t, i)" "parksOk s"
  shows "parksOk t" "sameControl s t" "psParked t = psParked s" "claimedIn t i" "\<not> claimedIn s i"
    "claimedIn s j \<Longrightarrow> claimedIn t j"
proof -
  from assms(1) obtain p where p: "psParked s = Some i" "psParks s i = Some p" "\<not> pkSettled p" "\<not> pkClaimed p"
    "t = s\<lparr>psParks := (psParks s)(i \<mapsto> p\<lparr>pkClaimed := True, pkTimerArmed := False\<rparr>)\<rparr>"
    by (auto simp: claimParked_def split: option.splits if_splits)
  show "parksOk t" unfolding p(5)
    using parksOkD [OF assms(2) p(2)] by (intro parksOk_put assms(2)) (auto simp: parkOk_def)
  show "sameControl s t" unfolding p(5) by (rule control_parks) simp
  show "psParked t = psParked s" "claimedIn t i" "\<not> claimedIn s i" "claimedIn s j \<Longrightarrow> claimedIn t j"
    using p by (auto simp: claimedIn_def)
qed

section \<open>Companion connections\<close>

fun owns :: "handler \<Rightarrow> bool" where
  "owns HLoading = False"
| "owns (HLoaded claimed) = claimed"
| "owns HDone = False"
| "owns _ = True"

fun runs :: "handler \<Rightarrow> nat option" where
  "runs (HBinding i) = Some i"
| "runs (HCrawling i) = Some i"
| "runs (HClosing i _ _ _) = Some i"
| "runs _ = None"

text \<open>
  One connection at most holds the claim of the session; the one that binds or runs a crawl is the
  registered lifecycle and runs a claimed request; no request is started twice.
\<close>

definition handlersOk :: "park_state \<Rightarrow> bool" where
  "handlersOk s \<longleftrightarrow>
     (\<forall>h h' pc pc'. psHandlers s h = Some pc \<longrightarrow> psHandlers s h' = Some pc' \<longrightarrow> owns pc \<longrightarrow> owns pc' \<longrightarrow> h = h')
   \<and> (\<forall>h pc. psHandlers s h = Some pc \<longrightarrow> owns pc \<longrightarrow> psDbClaimed s)
   \<and> (\<forall>h pc i. psHandlers s h = Some pc \<longrightarrow> runs pc = Some i \<longrightarrow> psLifecycle s = Some h \<and> claimedIn s i)
   \<and> (\<forall>h\<in>set (psFinished s). psHandlers s h = Some HDone)
   \<and> (\<forall>h. h \<in> set (psBinds s) \<longleftrightarrow> (\<exists>i. psHandlers s h = Some (HBinding i)))
   \<and> distinct (psStarts s) \<and> (\<forall>i\<in>set (psStarts s). claimedIn s i)
   \<and> (\<forall>h i. psHandlers s h = Some (HBinding i) \<longrightarrow> i \<notin> set (psStarts s))"

lemma runs_owns: "runs pc = Some i \<Longrightarrow> owns pc"
  by (cases pc) simp_all

lemma handlersOkD:
  assumes "handlersOk s"
  shows "psHandlers s h = Some pc \<Longrightarrow> psHandlers s h' = Some pc' \<Longrightarrow> owns pc \<Longrightarrow> owns pc' \<Longrightarrow> h = h'"
    and "psHandlers s h = Some pc \<Longrightarrow> owns pc \<Longrightarrow> psDbClaimed s"
    and "psHandlers s h = Some pc \<Longrightarrow> runs pc = Some i \<Longrightarrow> psLifecycle s = Some h \<and> claimedIn s i"
    and "h \<in> set (psFinished s) \<Longrightarrow> psHandlers s h = Some HDone"
    and "h \<in> set (psBinds s) \<longleftrightarrow> (\<exists>i. psHandlers s h = Some (HBinding i))"
    and "distinct (psStarts s)" and "i \<in> set (psStarts s) \<Longrightarrow> claimedIn s i"
    and "psHandlers s h = Some (HBinding i) \<Longrightarrow> i \<notin> set (psStarts s)"
  using assms unfolding handlersOk_def by blast+

lemma handlersOk_frame:
  assumes "handlersOk s" "psHandlers t = psHandlers s" "psDbClaimed t = psDbClaimed s" "psLifecycle t = psLifecycle s"
    "psFinished t = psFinished s" "psBinds t = psBinds s" "psStarts t = psStarts s" "\<And>i. claimedIn s i \<Longrightarrow> claimedIn t i"
  shows "handlersOk t"
  using assms(1,8) unfolding handlersOk_def assms(2-7) by blast

lemma handlersOk_control: "handlersOk s \<Longrightarrow> sameControl s t \<Longrightarrow> (\<And>i. claimedIn s i \<Longrightarrow> claimedIn t i) \<Longrightarrow> handlersOk t"
  by (erule handlersOk_frame) (auto simp: sameControl_def)

text \<open>A connection that moves to a point where it holds no more than before.\<close>

lemma handlersOk_lower:
  assumes s: "handlersOk s" "psHandlers s h = Some pc" "owns pc' \<longrightarrow> owns pc" "\<And>i. runs pc' = Some i \<Longrightarrow> runs pc = Some i"
    and nb: "\<And>i. pc' \<noteq> HBinding i" "h \<notin> set (psFinished s) \<or> pc' = HDone"
    and t: "psHandlers t = (psHandlers s)(h \<mapsto> pc')" "psDbClaimed s \<Longrightarrow> psDbClaimed t" "psLifecycle t = psLifecycle s"
      "psFinished t = psFinished s" "psBinds t = filter (\<lambda>b. b \<noteq> h) (psBinds s)" "psStarts t = psStarts s" "\<And>i. claimedIn s i \<Longrightarrow> claimedIn t i"
  shows "handlersOk t"
  unfolding handlersOk_def t(1,3-6)
proof (intro conjI allI impI ballI)
  note d = handlersOkD [OF s(1)]
  fix a a' q q' i
  show "a = a'" if "((psHandlers s)(h \<mapsto> pc')) a = Some q" "((psHandlers s)(h \<mapsto> pc')) a' = Some q'" "owns q" "owns q'"
    using that s(2,3) d(1) by (auto split: if_splits)
  show "psDbClaimed t" if "((psHandlers s)(h \<mapsto> pc')) a = Some q" "owns q"
    using that s(2,3) d(2) t(2) by (auto split: if_splits)
  show "psLifecycle s = Some a" "claimedIn t i" if "((psHandlers s)(h \<mapsto> pc')) a = Some q" "runs q = Some i"
    using that s(2,4) d(3) t(7) by (auto split: if_splits)
  show "((psHandlers s)(h \<mapsto> pc')) a = Some HDone" if "a \<in> set (psFinished s)"
    using that nb(2) d(4) by auto
  show "a \<in> set (filter (\<lambda>b. b \<noteq> h) (psBinds s)) \<longleftrightarrow> (\<exists>i. ((psHandlers s)(h \<mapsto> pc')) a = Some (HBinding i))"
    using nb(1) d(5) by auto
  show "distinct (psStarts s)" by (rule d(6))
  show "claimedIn t i" if "i \<in> set (psStarts s)" using d(7) t(7) that by blast
  show "i \<notin> set (psStarts s)" if "((psHandlers s)(h \<mapsto> pc')) a = Some (HBinding i)"
    using that nb(1) d(8) by (auto split: if_splits)
qed

text \<open>A step of the only connection that may hold the claim.\<close>

lemma handlersOk_owner:
  assumes "handlersOk s" "\<And>g pc. psHandlers s g = Some pc \<Longrightarrow> owns pc \<Longrightarrow> g = h"
    and t: "psHandlers t = (psHandlers s)(h \<mapsto> pc')" "owns pc' \<longrightarrow> psDbClaimed t"
      "\<And>i. runs pc' = Some i \<Longrightarrow> psLifecycle t = Some h \<and> claimedIn t i"
      "\<And>g. g \<in> set (psFinished t) \<Longrightarrow> g \<noteq> h \<Longrightarrow> g \<in> set (psFinished s)" "h \<in> set (psFinished t) \<Longrightarrow> pc' = HDone"
      "\<And>g. g \<noteq> h \<Longrightarrow> g \<in> set (psBinds t) \<longleftrightarrow> g \<in> set (psBinds s)" "h \<in> set (psBinds t) \<longleftrightarrow> (\<exists>i. pc' = HBinding i)"
      "distinct (psStarts t)" "\<And>i. i \<in> set (psStarts t) \<Longrightarrow> claimedIn t i" "\<And>i. pc' = HBinding i \<Longrightarrow> i \<notin> set (psStarts t)"
  shows "handlersOk t"
proof -
  have others: "pc = pc' \<and> g = h" if "psHandlers t g = Some pc" "owns pc" for g pc
    using that assms(2) by (auto simp: t(1) split: if_splits)
  have binding: "g = h" if "psHandlers t g = Some (HBinding i)" for g i using others [OF that] by simp
  have fin: "psHandlers t g = Some HDone" if "g \<in> set (psFinished t)" for g
    using that t(4,5) handlersOkD(4) [OF assms(1)] by (cases "g = h") (auto simp: t(1))
  have b: "g \<in> set (psBinds t) \<longleftrightarrow> (\<exists>i. psHandlers t g = Some (HBinding i))" for g
    using t(6,7) handlersOkD(5) [OF assms(1)] by (cases "g = h") (auto simp: t(1))
  show ?thesis unfolding handlersOk_def
  proof (intro conjI allI impI ballI)
    fix g g' pc pc1 i
    show "g = g'" if "psHandlers t g = Some pc" "psHandlers t g' = Some pc1" "owns pc" "owns pc1"
      using others [OF that(1,3)] others [OF that(2,4)] by simp
    show "psDbClaimed t" if "psHandlers t g = Some pc" "owns pc" using others [OF that] that t(2) by simp
    show "psLifecycle t = Some g" "claimedIn t i" if "psHandlers t g = Some pc" "runs pc = Some i"
      using others [OF that(1) runs_owns [OF that(2)]] that t(3) by auto
    show "i \<notin> set (psStarts t)" if "psHandlers t g = Some (HBinding i)"
      using others [OF that] t(10) by auto
  qed (use fin b t(8,9) in auto)
qed

lemma sole_owner:
  "handlersOk s \<Longrightarrow> psHandlers s h = Some pc \<Longrightarrow> owns pc \<Longrightarrow> psHandlers s g = Some q \<Longrightarrow> owns q \<Longrightarrow> g = h"
  using handlersOkD(1) by blast

lemma not_bound:
  "handlersOk s \<Longrightarrow> psHandlers s h = Some pc \<Longrightarrow> (\<And>i. pc \<noteq> HBinding i) \<Longrightarrow> filter (\<lambda>b. b \<noteq> h) (psBinds s) = psBinds s"
  using handlersOkD(5) [of s] by (intro filter_True) fastforce

lemma not_finished: "handlersOk s \<Longrightarrow> psHandlers s h = Some pc \<Longrightarrow> pc \<noteq> HDone \<Longrightarrow> h \<notin> set (psFinished s)"
  using handlersOkD(4) by fastforce

lemma setHandler_fields [simp]:
  "psHandlers (setHandler h pc s) = (psHandlers s)(h \<mapsto> pc)" "psParks (setHandler h pc s) = psParks s"
  "psParked (setHandler h pc s) = psParked s" "psFenced (setHandler h pc s) = psFenced s"
  "psDbClaimed (setHandler h pc s) = psDbClaimed s" "psPendingWs (setHandler h pc s) = psPendingWs s"
  "psBinds (setHandler h pc s) = psBinds s" "psActive (setHandler h pc s) = psActive s"
  "psLifecycle (setHandler h pc s) = psLifecycle s" "psFinished (setHandler h pc s) = psFinished s"
  "psClosing (setHandler h pc s) = psClosing s" "psCloses (setHandler h pc s) = psCloses s"
  "psFences (setHandler h pc s) = psFences s" "psStarts (setHandler h pc s) = psStarts s"
  by (simp_all add: setHandler_def)

lemma claimedIn_set [simp]: "claimedIn (setHandler h pc s) i = claimedIn s i"
  by (simp add: claimedIn_def)

lemma upgrade_ok: "handlersOk s \<Longrightarrow> psHandlers s h = None \<Longrightarrow> handlersOk (acceptUpgrade h s)"
  by (fastforce simp: acceptUpgrade_def handlersOk_def claimedIn_def)

lemma load_ok:
  assumes "handlersOk s" "psHandlers s h = Some HLoading"
  shows "handlersOk (queryClaim h status wins s)"
proof -
  obtain b db where q: "queryClaim h status wins s = setHandler h (HLoaded b) (s\<lparr>psDbClaimed := db\<rparr>)"
    "psDbClaimed s \<longrightarrow> db" "b \<longrightarrow> db \<and> \<not> psDbClaimed s"
    by (fastforce simp: queryClaim_def Let_def split: option.split)
  show ?thesis
  proof (cases b)
    case True
    then have none: "\<not> owns pc" if "psHandlers s g = Some pc" for g pc
      using that q(3) handlersOkD(2) [OF assms(1)] by blast
    show ?thesis unfolding q(1)
      by (rule handlersOk_owner [OF assms(1), of h _ "HLoaded b"])
         (use q none handlersOkD [OF assms(1)] not_finished [OF assms] assms(2) in \<open>auto simp: claimedIn_def\<close>)
  next
    case False
    then show ?thesis unfolding q(1)
      using q by (auto intro!: handlersOk_lower [OF assms, of "HLoaded False"]
          simp: not_bound [OF assms] not_finished [OF assms] claimedIn_def)
  qed
qed

lemma release_ok:
  assumes "handlersOk s" "psHandlers s h = Some HReleasing"
  shows "handlersOk (releaseClaim h ok s)"
  using handlersOkD [OF assms(1)] sole_owner [OF assms] assms(2)
  by (intro handlersOk_owner [OF assms(1), of h _ HDone]) (cases ok; auto simp: releaseClaim_def claimedIn_def)+

lemma claim_ok:
  assumes "handlersOk s" "parksOk s" "psHandlers s h = Some (HLoaded claimed)"
  shows "handlersOk (resumeClaim h claimed s)"
proof -
  have lower: "handlersOk (setHandler h HDone s)"
    by (auto intro!: handlersOk_lower [OF assms(1,3), of HDone] simp: not_bound [OF assms(1,3)])
  show ?thesis
  proof (cases "claimed \<and> psFenced s = None")
    case False
    with lower show ?thesis by (auto simp: resumeClaim_def)
  next
    case True
    then have mine: "psHandlers s h = Some (HLoaded True)" using assms(3) by simp
    have wait: "handlersOk (setHandler h HReleasing s)"
      by (auto intro!: handlersOk_lower [OF assms(1) mine, of HReleasing] simp: not_bound [OF assms(1) mine] not_finished [OF assms(1) mine])
    have bind: "handlersOk (setHandler h (HBinding i) (t\<lparr>psLifecycle := Some h, psBinds := psBinds t @ [h]\<rparr>))"
      if c: "claimParked s = Some (t, i)" for t i
    proof -
      note c = claimParked_Some [OF c assms(2)]
      note d = handlersOkD [OF assms(1)]
      have fin: "h \<notin> set (psFinished s)" by (rule not_finished [OF assms(1) mine]) simp
      have new: "i \<notin> set (psStarts s)" using d(7) c(5) by blast
      show ?thesis
        by (rule handlersOk_owner [OF assms(1), of h _ "HBinding i"])
           (use sole_owner [OF assms(1) mine] d(2) [OF mine] d(6-8) c(4-6) fin new in \<open>auto simp: sameControlD [OF c(2)] claimedIn_def\<close>)
    qed
    from True lower wait bind show ?thesis by (auto simp: resumeClaim_def split: option.split)
  qed
qed

lemma closeTunnel_fields [simp]:
  "psHandlers (fst (closeTunnel k ok s)) = psHandlers s" "psDbClaimed (fst (closeTunnel k ok s)) = psDbClaimed s"
  "psLifecycle (fst (closeTunnel k ok s)) = psLifecycle s" "psFinished (fst (closeTunnel k ok s)) = psFinished s"
  "psBinds (fst (closeTunnel k ok s)) = psBinds s" "psStarts (fst (closeTunnel k ok s)) = psStarts s"
  "psParks (fst (closeTunnel k ok s)) = psParks s" "psParked (fst (closeTunnel k ok s)) = psParked s"
  "psFenced (fst (closeTunnel k ok s)) = psFenced s" "psFences (fst (closeTunnel k ok s)) = psFences s"
  "psActive (fst (closeTunnel k ok s)) = psActive s"
  by (simp_all add: closeTunnel_def split: option.split)

lemma closeFinishes_fields [simp]:
  "psHandlers (closeFinishes k ok s) = psHandlers s" "psDbClaimed (closeFinishes k ok s) = psDbClaimed s"
  "psLifecycle (closeFinishes k ok s) = psLifecycle s" "psFinished (closeFinishes k ok s) = psFinished s"
  "psBinds (closeFinishes k ok s) = psBinds s" "psStarts (closeFinishes k ok s) = psStarts s"
  "psParks (closeFinishes k ok s) = psParks s" "psParked (closeFinishes k ok s) = psParked s"
  "psFenced (closeFinishes k ok s) = psFenced s" "psFences (closeFinishes k ok s) = psFences s"
  "psPendingWs (closeFinishes k ok s) = psPendingWs s"
  by (simp_all add: closeFinishes_def Let_def split: option.split close_op.split)

lemma beginClose_eq:
  "beginClose k ok h i r fatal s = setHandler h (HClosing i (snd (closeTunnel k ok s)) r fatal) (fst (closeTunnel k ok s))"
  by (simp add: beginClose_def case_prod_beta)

lemma claimedIn_close [simp]: "claimedIn (fst (closeTunnel k ok s)) i = claimedIn s i"
  by (simp add: claimedIn_def)

lemma crawled_ok:
  assumes "handlersOk s" "psHandlers s h = Some (HCrawling i)"
  shows "handlersOk (beginClose k ok h i r fatal s)"
  by (rule handlersOk_lower [OF assms, of "HClosing i (snd (closeTunnel k ok s)) r fatal"])
     (simp_all add: beginClose_eq not_bound [OF assms] not_finished [OF assms])

lemma unbound_ok:
  assumes "handlersOk s" "psHandlers s h = Some (HBinding i)"
  shows "handlersOk (bindFailed k ok h i msg s)"
proof -
  let ?s = "s\<lparr>psBinds := filter (\<lambda>b. b \<noteq> h) (psBinds s)\<rparr>"
  show ?thesis
    by (rule handlersOk_lower [OF assms, of "HClosing i (snd (closeTunnel k ok ?s)) (internalError msg) False"])
       (simp_all add: bindFailed_def beginClose_eq not_finished [OF assms] claimedIn_def)
qed

lemma finish_ok:
  assumes "handlersOk s" "psHandlers s h = Some pc" "runs pc = Some i"
    "sameControl s t" "\<And>j. claimedIn s j \<Longrightarrow> claimedIn t j"
  shows "handlersOk (setHandler h HDone (finishLifecycle h (t\<lparr>psActive := a, psBinds := filter (\<lambda>b. b \<noteq> h) (psBinds t)\<rparr>)))"
  by (rule handlersOk_owner [OF assms(1), of h _ HDone])
     (use sole_owner [OF assms(1,2) runs_owns [OF assms(3)]] handlersOkD(6,7) [OF assms(1)] assms(5) in
       \<open>auto simp: finishLifecycle_def sameControlD [OF assms(4)] claimedIn_def\<close>)

lemma bound_ok:
  assumes "handlersOk s" "psHandlers s h = Some (HBinding i)"
  shows "handlersOk (bindReady h i s)"
proof (cases "psFenced s = None")
  case False
  with finish_ok [OF assms, of i s "Some h"] show ?thesis by (simp add: bindReady_def)
next
  case True
  note d = handlersOkD [OF assms(1)]
  have "psLifecycle s = Some h" "claimedIn s i" "psDbClaimed s" "h \<notin> set (psFinished s)" "i \<notin> set (psStarts s)"
    using d(3) [OF assms(2)] d(2) [OF assms(2)] not_finished [OF assms] d(8) [OF assms(2)] by auto
  with True d(6,7) sole_owner [OF assms] show ?thesis
    by (intro handlersOk_owner [OF assms(1), of h _ "HCrawling i"]) (auto simp: bindReady_def Let_def claimedIn_def)
qed

lemma settled_ok:
  assumes "handlersOk s" "psHandlers s h = Some (HClosing i w r fatal)"
  shows "handlersOk (finishClose h i w r fatal s)"
proof -
  define t where "t = (if closeFailed w s \<or> fatal then rejectParked i s else settleParked i r s)"
  have t: "sameControl s t" "claimedIn s j \<Longrightarrow> claimedIn t j" for j
    by (auto simp: t_def rejectParked_def settleParked_def settle_control settle_claimed)
  have "filter (\<lambda>b. b \<noteq> h) (psBinds t) = psBinds t" using not_bound [OF assms] by (simp add: sameControlD [OF t(1)])
  with finish_ok [OF assms _ t, of i "psActive t"] show ?thesis by (simp add: finishClose_def Let_def t_def [symmetric])
qed

section \<open>Teardowns\<close>

fun early :: "handler \<Rightarrow> bool" where
  "early (HLoaded claimed) = claimed"
| "early HReleasing = True"
| "early (HBinding _) = True"
| "early _ = False"

text \<open>
  A teardown in flight is the registered one and closes the published listener; once a listener is
  published, the claim is spent and nobody is on the way to publish another.
\<close>

definition closesOk :: "park_state \<Rightarrow> bool" where
  "closesOk s \<longleftrightarrow>
     (\<forall>k h failed. psCloses s k = Some (CloseRunning h failed) \<longrightarrow> psClosing s = Some k \<and> psActive s = Some h)
   \<and> (\<forall>k. psClosing s = Some k \<longrightarrow> (\<exists>h failed. psCloses s k = Some (CloseRunning h failed)))
   \<and> (psActive s \<noteq> None \<longrightarrow> psDbClaimed s \<and> (\<forall>h pc. psHandlers s h = Some pc \<longrightarrow> \<not> early pc))"

lemma closesOkD:
  assumes "closesOk s"
  shows "psCloses s k = Some (CloseRunning h failed) \<Longrightarrow> psClosing s = Some k \<and> psActive s = Some h"
    and "psClosing s = Some k \<Longrightarrow> \<exists>h failed. psCloses s k = Some (CloseRunning h failed)"
    and "psActive s \<noteq> None \<Longrightarrow> psDbClaimed s"
    and "psHandlers s h = Some pc \<Longrightarrow> early pc \<Longrightarrow> psActive s = None"
  using assms unfolding closesOk_def by blast+

lemma early_owns: "early pc \<Longrightarrow> owns pc"
  by (cases pc) simp_all

lemma closesOk_control: "closesOk s \<Longrightarrow> sameControl s t \<Longrightarrow> closesOk t"
  by (simp add: closesOk_def sameControl_def)

lemma closesOk_move:
  assumes "closesOk s" "psHandlers t = (psHandlers s)(h \<mapsto> pc)" "psActive s \<noteq> None \<longrightarrow> \<not> early pc"
    "psActive s \<noteq> None \<longrightarrow> psDbClaimed t" "psActive t = psActive s" "psClosing t = psClosing s" "psCloses t = psCloses s"
  shows "closesOk t"
  using assms(1,3,4) unfolding closesOk_def assms(2,5-7) by auto

lemma closesOk_close:
  assumes "closesOk s" "psCloses s k = None"
  shows "closesOk (fst (closeTunnel k ok s))"
proof (cases "psClosing s = None \<and> psActive s \<noteq> None")
  case True
  then have "psCloses s k' \<noteq> Some (CloseRunning h f)" for k' h f using closesOkD(1) [OF assms(1)] by fastforce
  with True assms(1) show ?thesis by (auto simp: closeTunnel_def closesOk_def split: if_splits)
next
  case False
  then show ?thesis using assms(1) by (auto simp: closeTunnel_def closesOk_def split: option.split)
qed

lemma closesOk_finish:
  assumes "closesOk s" "psCloses s k = Some (CloseRunning h failed)"
  shows "closesOk (closeFinishes k ok s)"
proof -
  have k: "psClosing s = Some k" "psActive s = Some h" using closesOkD(1) [OF assms] by simp_all
  have "psCloses s k' \<noteq> Some (CloseRunning g f)" if "k' \<noteq> k" for k' g f
    using that closesOkD(1) [OF assms(1), of k' g f] k(1) by auto
  with assms k show ?thesis by (auto simp: closeFinishes_def Let_def closesOk_def)
qed

lemma closesOk_bound:
  assumes "closesOk s" "handlersOk s" "psHandlers s h = Some (HBinding i)"
  shows "closesOk (bindReady h i s)"
proof -
  have a: "psActive s = None" using closesOkD(4) [OF assms(1,3)] by simp
  have "psCloses s k \<noteq> Some (CloseRunning g f)" for k g f using closesOkD(1) [OF assms(1), of k g f] a by auto
  moreover from this have "psClosing s = None" using closesOkD(2) [OF assms(1)] by (cases "psClosing s") blast+
  moreover have "psDbClaimed s" using handlersOkD(2) [OF assms(2,3)] by simp
  moreover have "g = h" if "psHandlers s g = Some pc" "early pc" for g pc
    using sole_owner [OF assms(2,3) _ that(1) early_owns [OF that(2)]] by simp
  ultimately show ?thesis
    by (auto simp: bindReady_def Let_def closesOk_def finishLifecycle_def split: if_splits)
qed

lemma closesOk_setFence [simp]: "closesOk (setFence f pc s) = closesOk s"
  by (simp add: closesOk_def setFence_def)

section \<open>Fences\<close>

text \<open>Nothing is published, pending or on its way.\<close>

definition quiet :: "park_state \<Rightarrow> bool" where
  "quiet s \<longleftrightarrow> psActive s = None \<and> psPendingWs s = [] \<and> psBinds s = []"

definition swept :: "park_state \<Rightarrow> bool" where
  "swept s \<longleftrightarrow> (\<forall>k h. psCloses s k = Some (CloseRunning h False) \<longrightarrow> psPendingWs s = [])"

definition idle :: "park_state \<Rightarrow> bool" where
  "idle s \<longleftrightarrow> (\<forall>h pc. psHandlers s h = Some pc \<longrightarrow> runs pc = None)"

definition snap :: "nat option \<Rightarrow> nat option \<Rightarrow> park_state \<Rightarrow> bool" where
  "snap pk lc s \<longleftrightarrow> (\<forall>h pc i. psHandlers s h = Some pc \<longrightarrow> runs pc = Some i \<longrightarrow> lc = Some h)
     \<and> (\<forall>i. psParked s = Some i \<longrightarrow> pk = Some i)"

definition waitOk :: "close_wait \<Rightarrow> park_state \<Rightarrow> bool" where
  "waitOk w s = (case w of Immediate _ \<Rightarrow> True | WaitClose k \<Rightarrow> psCloses s k \<noteq> None)"

primrec fenceOk :: "fence_pc \<Rightarrow> park_state \<Rightarrow> bool" where
  "fenceOk (FFirst w pk lc) s \<longleftrightarrow> snap pk lc s \<and> waitOk w s \<and> ((\<exists>k. w = WaitClose k \<and> psClosing s = Some k) \<or> swept s)"
| "fenceOk (FBinds bs pk lc) s \<longleftrightarrow> snap pk lc s \<and> swept s \<and> set (psBinds s) \<subseteq> set bs"
| "fenceOk (FSecond w pk lc) s \<longleftrightarrow> snap pk lc s \<and> swept s \<and> psBinds s = [] \<and> waitOk w s \<and> (hasClosed w s \<longrightarrow> quiet s)"
| "fenceOk (FLifecycle pk lc) s \<longleftrightarrow> snap pk lc s \<and> swept s \<and> quiet s"
| "fenceOk FDone s \<longleftrightarrow> quiet s \<and> idle s \<and> psParked s = None"
| "fenceOk FThrown s \<longleftrightarrow> True"

text \<open>What every step of a fenced session keeps.\<close>

definition fencedMove :: "park_state \<Rightarrow> park_state \<Rightarrow> bool" where
  "fencedMove s t \<longleftrightarrow>
     (\<forall>h pc i. psHandlers t h = Some pc \<longrightarrow> runs pc = Some i \<longrightarrow> (\<exists>pc'. psHandlers s h = Some pc' \<and> runs pc' = Some i))
   \<and> (\<forall>i. psParked t = Some i \<longrightarrow> psParked s = Some i)
   \<and> set (psBinds t) \<subseteq> set (psBinds s) \<and> set (psPendingWs t) \<subseteq> set (psPendingWs s)
   \<and> (psActive t = None \<or> psActive t = psActive s \<or> psBinds s \<noteq> [])
   \<and> (swept s \<longrightarrow> swept t)
   \<and> (\<forall>k. psCloses s k \<noteq> None \<longrightarrow> psCloses t k \<noteq> None)
   \<and> (\<forall>k. psCloses t k = Some CloseOk \<longrightarrow> psCloses s k = Some CloseOk
         \<or> (\<exists>h. psCloses s k = Some (CloseRunning h False) \<and> psActive t = None))
   \<and> (\<forall>k. psClosing s = Some k \<longrightarrow> psClosing t = Some k \<or> swept t)
   \<and> psStarts t = psStarts s"

lemma fencedMove_fenceOk:
  assumes "fencedMove s t" "fenceOk pc s"
  shows "fenceOk pc t"
proof -
  note m = assms(1) [unfolded fencedMove_def]
  have snap: "snap pk lc s \<Longrightarrow> snap pk lc t" for pk lc using m unfolding snap_def by blast
  have sw: "swept s \<Longrightarrow> swept t" using m by blast
  have q: "quiet s \<Longrightarrow> quiet t" using m by (auto simp: quiet_def)
  have w: "waitOk w s \<Longrightarrow> waitOk w t" for w using m by (auto simp: waitOk_def split: close_wait.split)
  have b: "psBinds s = [] \<Longrightarrow> psBinds t = []" using m by auto
  show ?thesis
  proof (cases pc)
    case (FSecond wt pk lc)
    have "quiet t" if c: "hasClosed wt t"
    proof (cases wt)
      case (WaitClose k)
      then have "psCloses t k = Some CloseOk" using c by (simp add: hasClosed_def)
      then consider "psCloses s k = Some CloseOk" | h where "psCloses s k = Some (CloseRunning h False)" "psActive t = None"
        using m by blast
      then show ?thesis
      proof cases
        case 1
        then show ?thesis using assms(2) FSecond q WaitClose by (simp add: hasClosed_def)
      next
        case 2
        then have "psPendingWs s = []" using assms(2) FSecond by (auto simp: swept_def)
        with 2 m assms(2) FSecond b show ?thesis by (auto simp: quiet_def)
      qed
    next
      case (Immediate ok)
      then show ?thesis using c assms(2) FSecond q by (simp add: hasClosed_def)
    qed
    with assms(2) FSecond snap sw w b show ?thesis by simp
  next
    case (FFirst wt pk lc)
    with assms(2) snap sw w m show ?thesis by auto
  next
    case (FBinds bs pk lc)
    with assms(2) snap sw m show ?thesis by auto
  next
    case FDone
    have "idle t" if "idle s" using that m unfolding idle_def by (metis not_Some_eq option.distinct(1))
    with assms(2) FDone q m show ?thesis by auto
  qed (use assms(2) snap sw q in auto)
qed

definition parkInv :: "park_state \<Rightarrow> bool" where
  "parkInv s \<longleftrightarrow> parksOk s \<and> handlersOk s \<and> closesOk s
     \<and> (\<forall>f pc. psFences s f = Some pc \<longrightarrow> psFenced s \<noteq> None \<and> fenceOk pc s)"

subsection \<open>Steps of a fenced session\<close>

lemma fenced_control:
  assumes "sameControl s t" "\<And>i. psParked t = Some i \<Longrightarrow> psParked s = Some i"
  shows "fencedMove s t"
  using assms(2) by (auto simp: fencedMove_def swept_def sameControlD [OF assms(1)])

lemma fenced_handler:
  assumes "psHandlers s h = Some pc" "\<And>i. runs pc' = Some i \<Longrightarrow> runs pc = Some i" "fencedMove s t"
    "psHandlers t h = psHandlers s h"
  shows "fencedMove s (setHandler h pc' t)"
  using assms by (auto simp: fencedMove_def swept_def)

lemma fencedMove_refl [simp]: "fencedMove s s"
  by (simp add: fencedMove_def)

lemma fenced_close:
  assumes "closesOk s" "psCloses s k = None"
  shows "fencedMove s (fst (closeTunnel k ok s))"
proof (cases "psClosing s = None \<and> psActive s \<noteq> None")
  case True
  then show ?thesis using assms(2) by (auto simp: closeTunnel_def fencedMove_def swept_def split: if_splits)
next
  case False
  then show ?thesis by (auto simp: closeTunnel_def fencedMove_def swept_def split: option.split)
qed

lemma fenced_finish:
  assumes "closesOk s" "psCloses s k = Some (CloseRunning h failed)"
  shows "fencedMove s (closeFinishes k ok s)"
proof -
  have k: "psClosing s = Some k" "psActive s = Some h" using closesOkD(1) [OF assms] by simp_all
  have "psCloses s k' \<noteq> Some (CloseRunning g f)" if "k' \<noteq> k" for k' g f
    using that closesOkD(1) [OF assms(1), of k' g f] k(1) by auto
  with assms k show ?thesis
    by (auto simp: closeFinishes_def Let_def fencedMove_def swept_def split: if_splits)
qed

lemma fenced_lifecycle: "fencedMove s t \<Longrightarrow> fencedMove s (finishLifecycle h t)"
  by (simp add: fencedMove_def finishLifecycle_def swept_def)

lemma finishClose_settle:
  obtains out where "finishClose h i w r fatal s = setHandler h HDone (finishLifecycle h (settleWith out i s))"
  by (cases "closeFailed w s \<or> fatal") (auto simp: finishClose_def Let_def rejectParked_def settleParked_def)

lemma finishLifecycle_handlers [simp]: "psHandlers (finishLifecycle h s) = psHandlers s"
  by (simp add: finishLifecycle_def)

lemma fenced_setFence: "fencedMove s t \<Longrightarrow> fencedMove s (setFence f pc t)"
  by (simp add: fencedMove_def setFence_def swept_def)

lemma fenced_bound:
  assumes "handlersOk s" "psHandlers s h = Some (HBinding i)" "psFenced s \<noteq> None"
  shows "fencedMove s (bindReady h i s)"
proof -
  have "psBinds s \<noteq> []" using handlersOkD(5) [OF assms(1), of h] assms(2) by auto
  then have "fencedMove s (s\<lparr>psActive := Some h, psBinds := filter (\<lambda>b. b \<noteq> h) (psBinds s)\<rparr>)"
    by (auto simp: fencedMove_def swept_def)
  then show ?thesis using assms(2,3)
    by (auto simp: bindReady_def Let_def finishLifecycle_def fencedMove_def swept_def split: if_splits)
qed

lemma fenced_move:
  assumes "park_step s t" "parkInv s" "psFenced s \<noteq> None"
  shows "fencedMove s t"
proof -
  have closes: "closesOk s" and handlers: "handlersOk s" using assms(2) by (simp_all add: parkInv_def)
  from assms(1) show ?thesis
  proof cases
    case (dispatch i n)
    then show ?thesis using park_fenced [OF assms(3)] by (auto intro: fenced_control [OF park_control])
  next
    case (ttl i p)
    then show ?thesis by (auto simp: ttl_parked intro: fenced_control [OF ttl_control(1)])
  next
    case (ttlDone i p)
    then show ?thesis by (auto dest: ttlSettles_parked intro: fenced_control [OF ttl_control(2)])
  next
    case (upgrade h)
    then show ?thesis using assms(3) by (simp add: acceptUpgrade_def)
  next
    case (wsGone h)
    then show ?thesis by (auto simp: fencedMove_def swept_def)
  next
    case (load h status wins)
    have "fencedMove s (s\<lparr>psDbClaimed := db\<rparr>)" for db by (simp add: fencedMove_def swept_def)
    with load show ?thesis
      by (auto simp: queryClaim_def Let_def split: option.split intro!: fenced_handler [where pc = HLoading])
  next
    case (claim h c)
    then show ?thesis using assms(3) by (auto simp: resumeClaim_def intro!: fenced_handler)
  next
    case (release h ok)
    have "fencedMove s (s\<lparr>psDbClaimed := False\<rparr>)" by (simp add: fencedMove_def swept_def)
    with release show ?thesis by (auto simp: releaseClaim_def intro!: fenced_handler [where pc = HReleasing])
  next
    case (bound h i)
    then show ?thesis using fenced_bound [OF handlers _ assms(3)] by blast
  next
    case (unbound h i k ok msg)
    let ?s = "s\<lparr>psBinds := filter (\<lambda>b. b \<noteq> h) (psBinds s)\<rparr>"
    have "closesOk ?s" using closes by (simp add: closesOk_def)
    from fenced_close [OF this, of k ok] unbound(3) have "fencedMove s (fst (closeTunnel k ok ?s))"
      by (auto simp: fencedMove_def swept_def)
    with unbound show ?thesis by (auto simp: bindFailed_def beginClose_eq intro!: fenced_handler)
  next
    case (crawled h i k ok r fatal)
    then show ?thesis by (auto simp: beginClose_eq intro!: fenced_handler fenced_close [OF closes])
  next
    case (settled h i w r fatal)
    have "fencedMove s (settleWith out i s)" for out by (auto dest: settle_parked intro: fenced_control [OF settle_control])
    moreover have "psHandlers (settleWith out i s) = psHandlers s" for out using sameControlD(3) [OF settle_control] .
    moreover obtain out where "finishClose h i w r fatal s = setHandler h HDone (finishLifecycle h (settleWith out i s))"
      by (rule finishClose_settle)
    ultimately show ?thesis using settled by (auto intro!: fenced_handler fenced_lifecycle)
  next
    case (background k ok)
    then show ?thesis using fenced_close [OF closes] by blast
  next
    case (closing k h failed ok)
    then show ?thesis using fenced_finish [OF closes] by blast
  next
    case (fence f k ok reason)
    have "fencedMove s (fst (closeTunnel k ok (s\<lparr>psFenced := a, psAborted := b, psReasons := c\<rparr>)))" for a b c
    proof -
      have "closesOk (s\<lparr>psFenced := a, psAborted := b, psReasons := c\<rparr>)" using closes by (simp add: closesOk_def)
      from fenced_close [OF this, of k ok] fence(3) show ?thesis by (auto simp: fencedMove_def swept_def)
    qed
    with fence show ?thesis by (auto simp: fenceCrawl_def Let_def case_prod_beta intro!: fenced_setFence)
  next
    case (fenceAgain f bs pk lc k ok)
    then show ?thesis by (auto simp: fenceSecond_def case_prod_beta intro!: fenced_setFence fenced_close [OF closes])
  next
    case (fenceDone f pk lc)
    have "fencedMove s (settleWith out i s)" for out i by (auto dest: settle_parked intro: fenced_control [OF settle_control])
    with fenceDone show ?thesis
      by (auto simp: fenceSettles_def settleParked_def intro!: fenced_setFence split: option.split)
  qed (auto intro: fenced_setFence)
qed

subsection \<open>The invariant\<close>

lemma claimedIn_fields: "psParks t = psParks s \<Longrightarrow> claimedIn t i = claimedIn s i"
  by (simp add: claimedIn_def)

lemma parksOk_fields: "parksOk s \<Longrightarrow> psParks t = psParks s \<Longrightarrow> psParked t = psParked s \<Longrightarrow> parksOk t"
  by (simp add: parksOk_def)

lemma parksOk_bind: "parksOk u \<Longrightarrow> parksOk (setHandler h pc (u\<lparr>psLifecycle := a, psBinds := b\<rparr>))"
  by (simp add: parksOk_def)

lemma setFence_fields [simp]:
  "psHandlers (setFence f pc s) = psHandlers s" "psParks (setFence f pc s) = psParks s" "psParked (setFence f pc s) = psParked s"
  "psFenced (setFence f pc s) = psFenced s" "psBinds (setFence f pc s) = psBinds s" "psPendingWs (setFence f pc s) = psPendingWs s"
  "psActive (setFence f pc s) = psActive s" "psCloses (setFence f pc s) = psCloses s" "psClosing (setFence f pc s) = psClosing s"
  "psFences (setFence f pc s) = (psFences s)(f \<mapsto> pc)" "psFinished (setFence f pc s) = psFinished s"
  "psDbClaimed (setFence f pc s) = psDbClaimed s" "psLifecycle (setFence f pc s) = psLifecycle s" "psStarts (setFence f pc s) = psStarts s"
  by (simp_all add: setFence_def)

lemma parksOk_setFence [simp]: "parksOk (setFence f pc s) = parksOk s"
  by (simp add: parksOk_def)

lemma handlersOk_setFence [simp]: "handlersOk s \<Longrightarrow> handlersOk (setFence f pc s)"
  by (erule handlersOk_frame) (simp_all add: claimedIn_def)

lemma handlersOk_closeTunnel: "handlersOk s \<Longrightarrow> handlersOk (fst (closeTunnel k ok s))"
  by (erule handlersOk_frame) simp_all

lemma closesOk_handler:
  "closesOk s \<Longrightarrow> psActive s \<noteq> None \<longrightarrow> \<not> early pc \<Longrightarrow> closesOk (setHandler h pc s)"
  by (rule closesOk_move [of s]) (auto dest: closesOkD(3))

lemma closesOk_lifecycle [simp]: "closesOk (finishLifecycle h s) = closesOk s"
  by (simp add: closesOk_def finishLifecycle_def)

text \<open>The registries, the connections and the teardowns stay consistent in every step.\<close>

lemma core_step:
  assumes "park_step s t" "parksOk s" "handlersOk s" "closesOk s"
  shows "parksOk t \<and> handlersOk t \<and> closesOk t"
  using assms(1)
proof cases
  case (dispatch i n)
  then show ?thesis
    using assms park_ok park_claimed handlersOk_control [OF _ park_control] closesOk_control [OF _ park_control] by simp
next
  case (ttl i p)
  then show ?thesis
    using assms ttl_ok ttl_claimed handlersOk_control [OF _ ttl_control(1)] closesOk_control [OF _ ttl_control(1)] by simp
next
  case (ttlDone i p)
  then show ?thesis
    using assms ttl_ok ttl_claimed handlersOk_control [OF _ ttl_control(2)] closesOk_control [OF _ ttl_control(2)] by simp
next
  case (upgrade h)
  have "closesOk (s\<lparr>psPendingWs := x\<rparr>)" for x using assms(4) by (simp add: closesOk_def)
  then show ?thesis using upgrade assms upgrade_ok [OF assms(3)] parksOk_fields [OF assms(2)]
    by (auto simp: acceptUpgrade_def intro!: closesOk_handler)
next
  case (wsGone h)
  then show ?thesis using assms by (auto simp: parksOk_def closesOk_def intro: handlersOk_frame simp: claimedIn_def)
next
  case (load h status wins)
  have "psHandlers t = (psHandlers s)(h \<mapsto> HLoaded b) \<Longrightarrow> b \<longrightarrow> \<not> psDbClaimed s \<Longrightarrow> psDbClaimed s \<longrightarrow> psDbClaimed t
      \<Longrightarrow> psActive t = psActive s \<Longrightarrow> psClosing t = psClosing s \<Longrightarrow> psCloses t = psCloses s \<Longrightarrow> closesOk t" for b
    using closesOkD(3) [OF assms(4)] by (intro closesOk_move [OF assms(4), of _ h "HLoaded b"]) auto
  then have "closesOk t" using load(1) by (auto simp: queryClaim_def Let_def split: option.split)
  with load show ?thesis using assms load_ok [OF assms(3)] parksOk_fields [OF assms(2)]
    by (auto simp: queryClaim_def Let_def split: option.split)
next
  case (claim h c)
  have a: "c \<Longrightarrow> psActive s = None" using closesOkD(4) [OF assms(4) claim(2)] by simp
  have c: "closesOk (setHandler h (HBinding i) (u\<lparr>psLifecycle := Some h, psBinds := psBinds u @ [h]\<rparr>)) \<and> parksOk u"
    if "claimParked s = Some (u, i)" "c" for u i
    using claimParked_Some [OF that(1) assms(2)] a [OF that(2)] closesOk_control [OF assms(4), of u]
    by (auto intro!: closesOk_handler simp: sameControlD closesOk_def)
  have "parksOk t \<and> closesOk t"
    using claim assms(2,4) c a
    by (auto simp: resumeClaim_def parksOk_bind split: option.split intro!: closesOk_handler elim: parksOk_fields)
  with claim claim_ok [OF assms(3,2)] show ?thesis by blast
next
  case (release h ok)
  then show ?thesis using assms release_ok [OF assms(3)] closesOkD(4) [OF assms(4), of h HReleasing] parksOk_fields [OF assms(2)]
    by (auto simp: releaseClaim_def intro!: closesOk_move [OF assms(4), of _ h HDone])
next
  case (bound h i)
  then show ?thesis using assms bound_ok closesOk_bound parksOk_fields [OF assms(2)]
    by (auto simp: bindReady_def Let_def finishLifecycle_def)
next
  case (unbound h i k ok msg)
  let ?s = "s\<lparr>psBinds := filter (\<lambda>b. b \<noteq> h) (psBinds s)\<rparr>"
  have "closesOk ?s" using assms(4) by (simp add: closesOk_def)
  then have "closesOk (bindFailed k ok h i msg s)"
    using unbound(3) by (auto simp: bindFailed_def beginClose_eq intro!: closesOk_handler closesOk_close)
  with unbound show ?thesis using unbound_ok [OF assms(3)] parksOk_fields [OF assms(2)]
    by (auto simp: bindFailed_def beginClose_eq)
next
  case (crawled h i k ok r fatal)
  have "closesOk (beginClose k ok h i r fatal s)"
    using crawled(3) assms(4) by (auto simp: beginClose_eq intro!: closesOk_handler closesOk_close)
  with crawled show ?thesis using crawled_ok [OF assms(3)] parksOk_fields [OF assms(2)] by (auto simp: beginClose_eq)
next
  case (settled h i w r fatal)
  obtain out where o: "finishClose h i w r fatal s = setHandler h HDone (finishLifecycle h (settleWith out i s))"
    by (rule finishClose_settle)
  have "closesOk t" using settled(1) closesOk_control [OF assms(4) settle_control] by (simp add: o closesOk_handler)
  moreover have "parksOk t" using settle_ok [OF assms(2), of out i]
    by (simp add: settled(1) o finishLifecycle_def parksOk_def)
  ultimately show ?thesis using settled settled_ok [OF assms(3)] by blast
next
  case (background k ok)
  then show ?thesis using assms closesOk_close handlersOk_closeTunnel parksOk_fields [OF assms(2)] by auto
next
  case (closing k h failed ok)
  have "handlersOk (closeFinishes k ok s)" using assms(3) by (rule handlersOk_frame) (simp_all add: claimedIn_def)
  with closing show ?thesis using assms closesOk_finish [OF assms(4)] parksOk_fields [OF assms(2)] by auto
next
  case (fence f k ok reason)
  have "parksOk u \<and> handlersOk u \<and> closesOk u"
    if "u = fst (closeTunnel k ok (s\<lparr>psFenced := a, psAborted := b, psReasons := c\<rparr>))" for a b c u
  proof -
    let ?s = "s\<lparr>psFenced := a, psAborted := b, psReasons := c\<rparr>"
    have "parksOk ?s" "handlersOk ?s" "closesOk ?s"
      using assms(2-4) by (auto simp: parksOk_def closesOk_def intro: handlersOk_frame simp: claimedIn_def)
    then show ?thesis unfolding that using fence(3) closesOk_close [of ?s k] handlersOk_closeTunnel parksOk_fields by auto
  qed
  then show ?thesis using fence by (auto simp: fenceCrawl_def Let_def case_prod_beta elim: parksOk_fields)
next
  case (fenceAgain f bs pk lc k ok)
  then show ?thesis using assms closesOk_close [OF assms(4), of k ok] handlersOk_closeTunnel [OF assms(3), of k ok]
    by (auto simp: fenceSecond_def case_prod_beta elim: parksOk_fields)
next
  case (fenceDone f pk lc)
  have "parksOk (settleWith out i s)" "handlersOk (settleWith out i s)" "closesOk (settleWith out i s)" for out i
    using assms settle_ok settle_claimed handlersOk_control [OF _ settle_control] closesOk_control [OF _ settle_control] by auto
  then show ?thesis using fenceDone assms
    by (auto simp: fenceSettles_def settleParked_def split: option.split elim: parksOk_fields)
qed (use assms in \<open>auto elim: parksOk_fields\<close>)

lemma fenceOk_closeTunnel:
  assumes "closesOk s" "psCloses s k = None" "closeTunnel k ok s = (t, w)"
  shows "waitOk w t" "(\<exists>k. w = WaitClose k \<and> psClosing t = Some k) \<or> swept t"
    "psBinds s = [] \<Longrightarrow> hasClosed w t \<Longrightarrow> quiet t"
proof -
  have none: "psClosing s = None \<Longrightarrow> psCloses s k' \<noteq> Some (CloseRunning h f)" for k' h f
    using closesOkD(1) [OF assms(1), of k' h f] by auto
  have run: "\<exists>h f. psCloses s k' = Some (CloseRunning h f)" if "psClosing s = Some k'" for k'
    by (rule closesOkD(2) [OF assms(1) that])
  show "waitOk w t" using assms(3) run by (fastforce simp: closeTunnel_def waitOk_def split: option.splits if_splits)
  show "(\<exists>k. w = WaitClose k \<and> psClosing t = Some k) \<or> swept t"
    using assms(3) none by (auto simp: closeTunnel_def swept_def split: option.splits if_splits)
  show "psBinds s = [] \<Longrightarrow> hasClosed w t \<Longrightarrow> quiet t"
    using assms(3) run by (fastforce simp: closeTunnel_def hasClosed_def quiet_def split: option.splits if_splits)
qed

lemma fenceOk_fields [simp]:
  "fenceOk pc (setFence f pc' s) = fenceOk pc s"
  by (cases pc) (simp_all add: snap_def swept_def quiet_def idle_def waitOk_def hasClosed_def split: close_wait.split)

lemma sameFenced:
  assumes "park_step s t" "psFenced s \<noteq> None"
  shows "psFenced t \<noteq> None"
  using assms(1)
proof cases
  case (dispatch i n)
  then show ?thesis using assms(2) sameControlD(1) [OF park_control] by simp
next
  case (ttl i p)
  then show ?thesis using assms(2) sameControlD(1) [OF ttl_control(1)] by simp
next
  case (ttlDone i p)
  then show ?thesis using assms(2) sameControlD(1) [OF ttl_control(2)] by simp
next
  case (settled h i w r fatal)
  obtain out where "finishClose h i w r fatal s = setHandler h HDone (finishLifecycle h (settleWith out i s))"
    by (rule finishClose_settle)
  then show ?thesis using settled assms(2) sameControlD(1) [OF settle_control] by (simp add: finishLifecycle_def)
next
  case (fenceDone f pk lc)
  then show ?thesis using assms(2) sameControlD(1) [OF settle_control]
    by (simp add: fenceSettles_def settleParked_def split: option.split)
qed (use assms(2) in \<open>simp_all add: acceptUpgrade_def queryClaim_def resumeClaim_def releaseClaim_def bindReady_def
       Let_def finishLifecycle_def bindFailed_def beginClose_eq fenceCrawl_def fenceSecond_def case_prod_beta\<close>)

text \<open>Which fences a step leaves where they are.\<close>

lemma other_fences:
  assumes "park_step s t" "psFences t f = Some pc" "psFences s f \<noteq> Some pc"
  shows "(\<exists>k ok reason. t = fenceCrawl f k ok reason s \<and> psFences s f = None \<and> psCloses s k = None)
    \<or> (\<exists>w pk lc. psFences s f = Some (FFirst w pk lc) \<and> hasClosed w s \<and> pc = FBinds (psBinds s) pk lc \<and> t = setFence f pc s)
    \<or> (psFences s f \<noteq> None \<and> psFences s f \<noteq> Some FDone \<and> pc = FThrown)
    \<or> (\<exists>bs pk lc k ok. psFences s f = Some (FBinds bs pk lc) \<and> set bs \<inter> set (psBinds s) = {} \<and> psCloses s k = None
         \<and> t = fenceSecond f k ok pk lc s)
    \<or> (\<exists>w pk lc. psFences s f = Some (FSecond w pk lc) \<and> hasClosed w s \<and> pc = FLifecycle pk lc \<and> t = setFence f pc s)
    \<or> (\<exists>pk lc. psFences s f = Some (FLifecycle pk lc) \<and> (\<forall>h. lc = Some h \<longrightarrow> h \<in> set (psFinished s)) \<and> pc = FDone
         \<and> t = fenceSettles f pk s)"
  using assms(1)
proof cases
  case (dispatch i n)
  then show ?thesis using assms(2,3) sameControlD(11) [OF park_control] by simp
next
  case (ttl i p)
  then show ?thesis using assms(2,3) sameControlD(11) [OF ttl_control(1)] by simp
next
  case (ttlDone i p)
  then show ?thesis using assms(2,3) sameControlD(11) [OF ttl_control(2)] by simp
next
  case (claim h c)
  have "psFences t = psFences s"
    using claim(1) by (auto simp: resumeClaim_def claimParked_def split: option.splits if_splits)
  then show ?thesis using assms(2,3) by simp
next
  case (settled h i w r fatal)
  obtain out where "finishClose h i w r fatal s = setHandler h HDone (finishLifecycle h (settleWith out i s))"
    by (rule finishClose_settle)
  then show ?thesis using settled assms(2,3) sameControlD(11) [OF settle_control] by (simp add: finishLifecycle_def)
next
  case (fenceDone g pk lc)
  have "psFences t = (psFences s)(g \<mapsto> FDone)"
    using fenceDone(1) sameControlD(11) [OF settle_control] by (simp add: fenceSettles_def settleParked_def split: option.split)
  then show ?thesis using assms(2,3) fenceDone by (auto split: if_splits)
next
  case (fence g k ok r)
  then show ?thesis using assms(2,3) by (auto simp: fenceCrawl_def Let_def case_prod_beta split: if_splits)
next
  case (fenceAgain g bs pk lc k ok)
  then show ?thesis using assms(2,3) by (auto simp: fenceSecond_def case_prod_beta split: if_splits)
qed (use assms(2,3) in \<open>auto simp: acceptUpgrade_def queryClaim_def releaseClaim_def bindReady_def
       Let_def finishLifecycle_def bindFailed_def beginClose_eq case_prod_beta split: if_splits\<close>)

lemma new_fence:
  assumes "handlersOk s" "closesOk s" "psCloses s k = None" "t = fenceCrawl f k ok reason s"
  shows "\<exists>pc. psFences t = (psFences s)(f \<mapsto> pc) \<and> psFenced t = Some reason \<and> fenceOk pc t"
proof -
  define a where "a = (case psLifecycle s of None \<Rightarrow> psAborted s | Some h \<Rightarrow> h # psAborted s)"
  let ?s = "s\<lparr>psFenced := Some reason, psAborted := a, psReasons := (psReasons s)(f \<mapsto> reason)\<rparr>"
  obtain u w where uw: "closeTunnel k ok ?s = (u, w)" by fastforce
  have t: "t = setFence f (FFirst w (psParked s) (psLifecycle s)) u"
    using assms(4) uw by (cases "psLifecycle s") (simp_all add: fenceCrawl_def Let_def a_def)
  have "closesOk ?s" using assms(2) by (simp add: closesOk_def)
  from fenceOk_closeTunnel [OF this _ uw] assms(3)
  have w: "waitOk w u" "(\<exists>k. w = WaitClose k \<and> psClosing u = Some k) \<or> swept u" by simp_all
  have u: "psHandlers u = psHandlers s" "psParked u = psParked s" "psFences u = psFences s" "psFenced u = Some reason"
    using closeTunnel_fields [of k ok ?s] by (simp_all add: uw)
  have "snap (psParked s) (psLifecycle s) u" using handlersOkD(3) [OF assms(1)] by (auto simp: snap_def u)
  with w u show ?thesis by (auto simp: t)
qed

lemma second_close:
  assumes "closesOk s" "psCloses s k = None" "fenceOk (FBinds bs pk lc) s" "set bs \<inter> set (psBinds s) = {}"
    "t = fenceSecond f k ok pk lc s"
  shows "\<exists>pc. psFences t = (psFences s)(f \<mapsto> pc) \<and> fenceOk pc t"
proof -
  obtain u w where uw: "closeTunnel k ok s = (u, w)" by fastforce
  have t: "t = setFence f (FSecond w pk lc) u" using assms(5) uw by (simp add: fenceSecond_def)
  have b: "psBinds s = []"
  proof -
    have "set (psBinds s) \<subseteq> set bs" using assms(3) by simp
    with assms(4) have "set (psBinds s) = {}" by (metis inf.absorb2)
    then show ?thesis by simp
  qed
  have move: "fencedMove s u" using fenced_close [OF assms(1,2), of ok] by (simp add: uw)
  then have "fenceOk (FBinds bs pk lc) u" using assms(3) by (rule fencedMove_fenceOk)
  moreover have "psBinds u = []" "psFences u = psFences s" using closeTunnel_fields [of k ok s] b by (simp_all add: uw)
  ultimately show ?thesis using fenceOk_closeTunnel [OF assms(1,2) uw] b
    by (intro exI [of _ "FSecond w pk lc"]) (simp add: t)
qed

lemma parkInv_step:
  assumes "park_step s t" "parkInv s"
  shows "parkInv t"
proof -
  have core: "parksOk s" "handlersOk s" "closesOk s" using assms(2) by (simp_all add: parkInv_def)
  have old: "psFenced s \<noteq> None \<and> fenceOk pc s" if "psFences s f = Some pc" for f pc
    using assms(2) that by (simp add: parkInv_def)
  have "psFenced t \<noteq> None \<and> fenceOk pc t" if f: "psFences t f = Some pc" for f pc
  proof (cases "psFences s f = Some pc")
    case True
    with old have "psFenced s \<noteq> None" "fenceOk pc s" by blast+
    with fencedMove_fenceOk [OF fenced_move [OF assms]] sameFenced [OF assms(1)] show ?thesis by blast
  next
    case False
    from other_fences [OF assms(1) f False] show ?thesis
    proof (elim disjE exE conjE)
      fix k ok reason
      assume a: "t = fenceCrawl f k ok reason s" "psCloses s k = None" "psFences s f = None"
      from new_fence [OF core(2,3) a(2,1)] f show ?thesis by auto
    next
      fix w pk lc
      assume a: "psFences s f = Some (FFirst w pk lc)" "hasClosed w s" "pc = FBinds (psBinds s) pk lc" "t = setFence f pc s"
      have "\<not> (\<exists>k. w = WaitClose k \<and> psClosing s = Some k)"
        using a(2) closesOkD(2) [OF core(3)] by (auto simp: hasClosed_def)
      with old [OF a(1)] a show ?thesis by auto
    next
      assume "psFences s f \<noteq> None" "psFences s f \<noteq> Some FDone" "pc = FThrown"
      with old sameFenced [OF assms(1)] show ?thesis by auto
    next
      fix bs pk lc k ok
      assume a: "psFences s f = Some (FBinds bs pk lc)" "set bs \<inter> set (psBinds s) = {}" "psCloses s k = None"
        "t = fenceSecond f k ok pk lc s"
      from second_close [OF core(3) a(3) _ a(2,4)] old [OF a(1)] sameFenced [OF assms(1)] f show ?thesis by auto
    next
      fix w pk lc
      assume a: "psFences s f = Some (FSecond w pk lc)" "hasClosed w s" "pc = FLifecycle pk lc" "t = setFence f pc s"
      with old [OF a(1)] show ?thesis by auto
    next
      fix pk lc
      assume a: "psFences s f = Some (FLifecycle pk lc)" "\<forall>h. lc = Some h \<longrightarrow> h \<in> set (psFinished s)" "pc = FDone"
        "t = fenceSettles f pk s"
      have s: "snap pk lc s" "quiet s" "psFenced s \<noteq> None" using old [OF a(1)] by simp_all
      have idle: "idle s"
      proof (unfold idle_def, intro allI impI)
        fix h q
        assume q: "psHandlers s h = Some q"
        show "runs q = None"
        proof (rule ccontr)
          assume "runs q \<noteq> None"
          then obtain i where "runs q = Some i" by blast
          with s(1) q a(2) have "h \<in> set (psFinished s)" by (auto simp: snap_def)
          with handlersOkD(4) [OF core(2)] q \<open>runs q \<noteq> None\<close> show False by fastforce
        qed
      qed
      define u where "u = (case pk of None \<Rightarrow> s | Some i \<Rightarrow> settleParked i (fencedResponse (case psReasons s f of Some r \<Rightarrow> r | None \<Rightarrow> [])) s)"
      have c: "sameControl s u" by (simp add: u_def settleParked_def settle_control split: option.split)
      have "psParked u = None"
        using s(1) settle_unparks [OF core(1)]
        by (cases "psParked s") (auto simp: u_def settleParked_def snap_def split: option.splits)
      moreover have "idle u" "quiet u" using idle s(2) by (simp_all add: idle_def quiet_def sameControlD [OF c])
      ultimately show ?thesis using a(3,4) s(3) sameControlD(1) [OF c] by (simp add: fenceSettles_def u_def [symmetric])
    qed
  qed
  with core_step [OF assms(1) core] show ?thesis by (simp add: parkInv_def)
qed

interpretation park: safety_invariant "\<lambda>s. s = newPark" park_step parkInv
proof unfold_locales
  show "s = newPark \<Longrightarrow> parkInv s" for s
    by (simp add: newPark_def parkInv_def parksOk_def handlersOk_def closesOk_def)
qed (rule parkInv_step)

section \<open>Properties\<close>

lemma fenced_steps:
  assumes "park_step\<^sup>*\<^sup>* s t" "parkInv s" "psFenced s \<noteq> None"
  shows "parkInv t \<and> psFenced t \<noteq> None \<and> psStarts t = psStarts s \<and> (\<forall>f. psFences s f = Some FDone \<longrightarrow> psFences t f = Some FDone)"
  using assms(1)
proof (induction rule: rtranclp_induct)
  case base
  then show ?case using assms(2,3) by simp
next
  case (step y z)
  then have y: "parkInv y" "psFenced y \<noteq> None" by blast+
  have "psFences z f = Some FDone" if "psFences y f = Some FDone" for f
  proof (rule ccontr)
    assume "psFences z f \<noteq> Some FDone"
    moreover have "psFences z f \<noteq> None"
      using step.hyps(2) that
    proof cases
      case (dispatch i n)
      then show ?thesis using that sameControlD(11) [OF park_control] by simp
    next
      case (ttl i p)
      then show ?thesis using that sameControlD(11) [OF ttl_control(1)] by simp
    next
      case (ttlDone i p)
      then show ?thesis using that sameControlD(11) [OF ttl_control(2)] by simp
    next
      case (claim h c)
      then show ?thesis using that y(2) by (simp add: resumeClaim_def)
    next
      case (settled h i w r fatal)
      obtain out where "finishClose h i w r fatal y = setHandler h HDone (finishLifecycle h (settleWith out i y))"
        by (rule finishClose_settle)
      then show ?thesis using settled that sameControlD(11) [OF settle_control] by (simp add: finishLifecycle_def)
    next
      case (fenceDone g pk lc)
      then show ?thesis using that sameControlD(11) [OF settle_control]
        by (simp add: fenceSettles_def settleParked_def split: option.split)
    qed (use that in \<open>auto simp: acceptUpgrade_def queryClaim_def releaseClaim_def bindReady_def Let_def
           finishLifecycle_def bindFailed_def beginClose_eq fenceCrawl_def fenceSecond_def case_prod_beta\<close>)
    ultimately obtain pc where pc: "psFences z f = Some pc" "pc \<noteq> FDone" by auto
    with that have "psFences y f \<noteq> Some pc" by simp
    from other_fences [OF step.hyps(2) pc(1) this] that show False by auto
  qed
  moreover have "psStarts z = psStarts y" using fenced_move [OF step.hyps(2) y] by (simp add: fencedMove_def)
  ultimately show ?case using step.IH parkInv_step [OF step.hyps(2) y(1)] sameFenced [OF step.hyps(2) y(2)] by auto
qed

text \<open>
  A crawl that is dispatched to this process is answered at most once, and never forgotten: in every
  reachable state a parked crawl has one answer when it is settled and none before, and an unsettled
  one is the registered one, so a later event can still answer it.
\<close>

theorem parked_crawl_answered_once:
  assumes "park_step\<^sup>*\<^sup>* newPark s" "psParks s i = Some p"
  shows "length (pkOutcome p) \<le> 1 \<and> (pkOutcome p = [] \<longleftrightarrow> psParked s = Some i)
    \<and> (pkTimerArmed p \<longrightarrow> \<not> pkClaimed p \<and> pkOutcome p = [])"
proof -
  have "parkInv s" by (rule park.reachable_inv [OF refl assms(1)])
  then have "parkOk (psParked s) i p" using assms(2) by (simp add: parkInv_def parksOk_def)
  then show ?thesis by (cases "pkSettled p") (auto simp: parkOk_def)
qed

definition demoParked :: park_state where
  "demoParked = parkCrawlRequest 0 60000 newPark"

definition demoLoaded :: park_state where
  "demoLoaded = queryClaim 0 (Some ''starting'') True (acceptUpgrade 0 demoParked)"

definition demoRunning :: park_state where
  "demoRunning = bindReady 0 0 (resumeClaim 0 True demoLoaded)"

lemmas demo_park_defs = demoParked_def demoLoaded_def demoRunning_def parkCrawlRequest_def newPark_def newParked_def
  acceptUpgrade_def queryClaim_def resumeClaim_def claimParked_def bindReady_def setHandler_def Let_def
  ACTIVE_TUNNEL_STATUSES_def

lemma demoParked_reachable: "park_step\<^sup>*\<^sup>* newPark demoParked"
proof -
  have "park_step newPark (parkCrawlRequest 0 (parkedCrawlConnectTimeoutMs 60) newPark)"
    by (rule park_step.dispatch) (simp add: newPark_def)
  then show ?thesis by (simp add: demoParked_def parkedCrawlConnectTimeoutMs_def r_into_rtranclp)
qed

lemma demoLoaded_reachable: "park_step\<^sup>*\<^sup>* newPark demoLoaded"
proof -
  have "park_step demoParked (acceptUpgrade 0 demoParked)"
    by (rule park_step.upgrade) (simp add: demo_park_defs)
  moreover have "park_step (acceptUpgrade 0 demoParked) demoLoaded"
    unfolding demoLoaded_def by (rule park_step.load) (simp add: demo_park_defs)
  ultimately show ?thesis using demoParked_reachable by (meson rtranclp.rtrancl_into_rtrancl)
qed

lemma demoRunning_reachable: "park_step\<^sup>*\<^sup>* newPark demoRunning"
proof -
  have "park_step demoLoaded (resumeClaim 0 True demoLoaded)"
    by (rule park_step.claim) (simp add: demo_park_defs)
  moreover have "park_step (resumeClaim 0 True demoLoaded) demoRunning"
    unfolding demoRunning_def by (rule park_step.bound) (simp add: demo_park_defs)
  ultimately show ?thesis using demoLoaded_reachable by (meson rtranclp.rtrancl_into_rtrancl)
qed

theorem parked_crawl_answered_once_witness:
  "psParks demoRunning 0 \<noteq> None \<and> psParked demoRunning = Some 0 \<and> psStarts demoRunning = [0]"
  using parked_crawl_answered_once [OF demoRunning_reachable, of 0] by (simp add: demo_park_defs)

text \<open>
  A parked request is run at most once, by the single connection that claimed it, however often phones
  reconnect and dispatches are repeated; and at most one connection is binding or running at a time.
\<close>

theorem crawl_started_once:
  assumes "park_step\<^sup>*\<^sup>* newPark s"
  shows "distinct (psStarts s) \<and> (\<forall>i\<in>set (psStarts s). \<exists>p. psParks s i = Some p \<and> pkClaimed p)
    \<and> (\<forall>h h' pc pc' i j. psHandlers s h = Some pc \<and> psHandlers s h' = Some pc' \<and> runs pc = Some i \<and> runs pc' = Some j \<longrightarrow> h = h')"
proof -
  have "handlersOk s" using park.reachable_inv [OF refl assms] by (simp add: parkInv_def)
  note d = handlersOkD [OF this]
  have "h = h'" if "psHandlers s h = Some pc" "psHandlers s h' = Some pc'" "runs pc = Some i" "runs pc' = Some j" for h h' pc pc' i j
    using d(3) [OF that(1,3)] d(3) [OF that(2,4)] by simp
  then show ?thesis using d(6,7) unfolding claimedIn_def by blast
qed

theorem crawl_started_once_witness: "distinct (psStarts demoRunning) \<and> psStarts demoRunning = [0]"
  using crawl_started_once [OF demoRunning_reachable, THEN conjunct1] by (simp add: demo_park_defs)

text \<open>
  C9: A fence is final. From the moment it is recorded no crawl is started any more, in any interleaving;
  and once it has returned, no listener is published or being bound, no WebSocket is left, nothing
  runs, no crawl is parked, and all of this stays so.
\<close>

theorem fence_is_final:
  assumes "park_step\<^sup>*\<^sup>* newPark s" "psFenced s \<noteq> None" "park_step\<^sup>*\<^sup>* s t"
  shows "psStarts t = psStarts s
    \<and> (psFences s f = Some FDone \<longrightarrow> psActive t = None \<and> psPendingWs t = [] \<and> psBinds t = [] \<and> psParked t = None
         \<and> (\<forall>h pc. psHandlers t h = Some pc \<longrightarrow> runs pc = None))"
proof -
  have inv: "parkInv s" by (rule park.reachable_inv [OF refl assms(1)])
  note t = fenced_steps [OF assms(3) inv assms(2)]
  have "fenceOk FDone t" if "psFences s f = Some FDone"
  proof -
    from t that have "psFences t f = Some FDone" by blast
    with t show ?thesis unfolding parkInv_def by blast
  qed
  with t show ?thesis by (auto simp: quiet_def idle_def)
qed

definition demoFenced :: park_state where
  "demoFenced = setFence 0 (FLifecycle (Some 0) None)
     (fenceSecond 0 0 True (Some 0) None (setFence 0 (FBinds [] (Some 0) None) (fenceCrawl 0 0 True ''lease lost'' demoParked)))"

lemmas demo_fence_defs = demo_park_defs fenceCrawl_def fenceSecond_def setFence_def closeTunnel_def demoFenced_def

lemma demoFenced_reachable: "park_step\<^sup>*\<^sup>* newPark (fenceSettles 0 (Some 0) demoFenced)"
proof -
  let ?a = "fenceCrawl 0 0 True ''lease lost'' demoParked"
  let ?b = "setFence 0 (FBinds [] (Some 0) None) ?a"
  let ?c = "fenceSecond 0 0 True (Some 0) None ?b"
  have "park_step demoParked ?a" by (rule park_step.fence) (simp_all add: demo_park_defs)
  moreover have "park_step ?a ?b"
    using park_step.fenceBinds [of ?a 0 "Immediate True" "Some 0" None] by (simp add: demo_fence_defs hasClosed_def)
  moreover have "park_step ?b ?c" by (rule park_step.fenceAgain) (simp_all add: demo_fence_defs)
  moreover have "park_step ?c demoFenced"
    unfolding demoFenced_def by (rule park_step.fenceClosed [where w = "Immediate True"]) (simp_all add: demo_fence_defs hasClosed_def)
  moreover have "park_step demoFenced (fenceSettles 0 (Some 0) demoFenced)"
    by (rule park_step.fenceDone [where lifecycle = None]) (simp_all add: demo_fence_defs)
  ultimately show ?thesis using demoParked_reachable by (meson rtranclp.rtrancl_into_rtrancl)
qed

theorem fence_is_final_witness:
  "psStarts (fenceSettles 0 (Some 0) demoFenced) = [] \<and> psParked (fenceSettles 0 (Some 0) demoFenced) = None
   \<and> psFenced (fenceSettles 0 (Some 0) demoFenced) = Some ''lease lost''"
  using fence_is_final [OF demoFenced_reachable _ rtranclp.rtrancl_refl, of 0]
  by (simp add: demo_fence_defs fenceSettles_def settleParked_def settleWith_def)

text \<open>
  C39: The connect-wait timer can still answer a crawl that is already running: its guard is evaluated when
  it fires, but the answer is given only after the session has been marked failed, and a companion can
  claim the request in between.
\<close>

theorem timer_answers_running_crawl:
  "\<exists>s. park_step\<^sup>*\<^sup>* newPark s \<and> psHandlers s 0 = Some (HCrawling 0) \<and> psStarts s = [0]
     \<and> (\<exists>p. psParks s 0 = Some p \<and> pkClaimed p \<and> pkOutcome p = [Resolved (noCompanion 60000)])"
proof -
  let ?a = "ttlFires 0 demoLoaded"
  let ?b = "resumeClaim 0 True ?a"
  let ?c = "bindReady 0 0 ?b"
  have "park_step demoLoaded ?a" by (rule park_step.ttl [where p = "newParked 60000"]) (simp_all add: demo_park_defs)
  moreover have "park_step ?a ?b" by (rule park_step.claim) (simp add: demo_park_defs ttlFires_def)
  moreover have "park_step ?b ?c" by (rule park_step.bound) (simp add: demo_park_defs ttlFires_def)
  moreover have "park_step ?c (ttlSettles 0 ?c)" 
    by (rule park_step.ttlDone [where p = "newParked 60000\<lparr>pkTimerArmed := False, pkTtlPending := True, pkClaimed := True\<rparr>"])
       (simp_all add: demo_park_defs ttlFires_def)
  ultimately have "park_step\<^sup>*\<^sup>* newPark (ttlSettles 0 ?c)"
    using demoLoaded_reachable by (meson rtranclp.rtrancl_into_rtrancl)
  moreover have "psHandlers (ttlSettles 0 ?c) 0 = Some (HCrawling 0)" "psStarts (ttlSettles 0 ?c) = [0]"
    "\<exists>p. psParks (ttlSettles 0 ?c) 0 = Some p \<and> pkClaimed p \<and> pkOutcome p = [Resolved (noCompanion 60000)]"
    by (simp_all add: demo_park_defs ttlFires_def ttlSettles_def settleParked_def settleWith_def)
  ultimately show ?thesis by blast
qed

end
