(* ===== verification/SignedTokens.thy ===== *)
theory SignedTokens
  imports JsText
begin

text \<open>
  The form that every signed bearer value of the system shares: \<^verbatim>\<open>prefix.payload.mac\<close> with a base64url JSON
  payload and an HMAC over what stands before it. Tunnel tokens, operator sessions, consent tickets and
  identity assertions are its instances. HMAC-SHA256 and HKDF are parameters on byte strings. The
  comparison of the two MACs is on bytes; that it takes constant time is outside the model.
\<close>

type_synonym mac_fun = "byte list \<Rightarrow> byte list \<Rightarrow> byte list"
type_synonym kdf_fun = "byte list \<Rightarrow> byte list \<Rightarrow> byte list \<Rightarrow> nat \<Rightarrow> byte list"

text \<open>The payload of a well-formed token with the right MAC; \<open>macOf\<close> gives the MAC of a payload.\<close>

definition openSigned :: "string \<Rightarrow> (string \<Rightarrow> string) \<Rightarrow> string \<Rightarrow> string option" where
  "openSigned prefix macOf token =
     (let parts = split_on (CHR ''.'') token
      in if length parts \<noteq> 3 \<or> parts ! 0 \<noteq> prefix then None
         else if utf8 (parts ! 2) \<noteq> utf8 (macOf (parts ! 1)) then None
         else Some (parts ! 1))"

text \<open>
  \<^verbatim>\<open>JSON.parse(Buffer.from(payload, 'base64url').toString('utf8'))\<close>. Reading a property of a value that is
  not an object throws (\<^verbatim>\<open>null\<close>) or gives \<^verbatim>\<open>undefined\<close>; every user of the payload then refuses the token.
\<close>

definition payloadFields :: "string \<Rightarrow> json jsmap option" where
  "payloadFields payloadB64 =
     (case Option.bind (utf8_decode (b64url_decode payloadB64)) jsonParse of
        Some (JObj fs) \<Rightarrow> Some fs
      | _ \<Rightarrow> None)"

definition encodePayload :: "json \<Rightarrow> string" where
  "encodePayload v = b64url_encode (utf8 (stringify (\<lambda>_. []) v))"

text \<open>\<^verbatim>\<open>Date.now() > payload.exp\<close> on an arbitrary number.\<close>

definition expired :: "millis \<Rightarrow> jsnum \<Rightarrow> bool" where
  "expired now e = (case e of Fin r \<Rightarrow> of_int now > r | NegInfinity \<Rightarrow> True | _ \<Rightarrow> False)"

lemma b64url_no_dot [simp]: "CHR ''.'' \<notin> set (b64url_encode bs)"
  using b64url_encode_chars [of bs] by (auto simp: list_all_iff isB64_def b64_val_def)

lemma utf8_inject: "utf8 s = utf8 t \<Longrightarrow> s = t"
  by (metis option.inject utf8_roundtrip)

lemma utf8_eq [simp]: "utf8 s = utf8 t \<longleftrightarrow> s = t"
  using utf8_inject by blast

lemma payload_roundtrip: "plainJson (JObj fs) \<Longrightarrow> payloadFields (encodePayload (JObj fs)) = Some fs"
  using parse_stringify [of "JObj fs" "\<lambda>_. []"] by (simp add: payloadFields_def encodePayload_def)

lemma expired_int [simp]: "expired now (Fin (of_int e)) \<longleftrightarrow> e < now"
  by (simp add: expired_def)

text \<open>Opening what was signed, and what an opened token must have been.\<close>

locale signed_token =
  fixes prefix :: string
    and macOf :: "string \<Rightarrow> string"
  assumes prefix_plain: "CHR ''.'' \<notin> set prefix"
    and mac_plain: "CHR ''.'' \<notin> set (macOf p)"
begin

lemma open_any:
  "CHR ''.'' \<notin> set p \<Longrightarrow> CHR ''.'' \<notin> set m
     \<Longrightarrow> openSigned prefix macOf (prefix @ ''.'' @ p @ ''.'' @ m) = (if m = macOf p then Some p else None)"
  by (simp add: openSigned_def Let_def split_on_append split_on_plain prefix_plain)

lemma open_sign:
  "CHR ''.'' \<notin> set p \<Longrightarrow> openSigned prefix macOf (prefix @ ''.'' @ p @ ''.'' @ macOf p) = Some p"
  by (subst open_any) (simp_all add: mac_plain)

lemma open_authentic:
  assumes "openSigned prefix macOf token = Some p"
  shows "token = prefix @ ''.'' @ p @ ''.'' @ macOf p"
proof -
  let ?parts = "split_on (CHR ''.'') token"
  have parts: "length ?parts = 3" "?parts ! 0 = prefix" "?parts ! 2 = macOf (?parts ! 1)" "p = ?parts ! 1"
    using assms by (auto simp: openSigned_def Let_def split: if_splits)
  then obtain a b c where abc: "?parts = [a, b, c]" by (auto simp: numeral_3_eq_3 length_Suc_conv)
  have "token = join ''.'' [a, b, c]" using join_split_on [of "CHR ''.''" token] abc by simp
  with parts abc show ?thesis by simp
qed

lemma open_payload:
  assumes "plainJson (JObj fs)"
  shows "Option.bind (openSigned prefix macOf (prefix @ ''.'' @ encodePayload (JObj fs) @ ''.'' @ macOf (encodePayload (JObj fs))))
    payloadFields = Some fs"
  using open_sign [of "encodePayload (JObj fs)"] payload_roundtrip [OF assms] by (simp add: encodePayload_def)

end

end
