(* ===== verification/TunnelToken.thy ===== *)
theory TunnelToken
  imports SignedTokens
begin

text \<open>
  \<^verbatim>\<open>packages/contracts/src/tunnel-token.ts\<close> and the upgrade checks of \<^verbatim>\<open>attachTunnelHandler\<close> in
  \<^verbatim>\<open>apps/engine/src/tunnel/tunnel-server.ts\<close>: the signed grant with which a phone opens the tunnel of one
  session. HMAC-SHA256 and HKDF are parameters on byte strings; the clock, the random id and the parsed
  URL of the request are arguments. The fields of a verified payload are JSON values, because the code
  does not check their types.
\<close>

section \<open>Tokens\<close>

definition TOKEN_PREFIX :: string where
  "TOKEN_PREFIX = ''actt1''"

definition DEFAULT_TTL_MS :: millis where
  "DEFAULT_TTL_MS = 2 * 60 * 1000"

record token_grant =
  tgSid :: "json option"
  tgDid :: "json option"
  tgJti :: "json option"

definition deriveTunnelKey :: "kdf_fun \<Rightarrow> string \<Rightarrow> byte list" where
  "deriveTunnelKey hkdf sharedSecret = hkdf (utf8 sharedSecret) (utf8 ''accrawl-tunnel'') (utf8 ''accrawl-tunnel-v1'') 32"

definition tokenMac :: "mac_fun \<Rightarrow> byte list \<Rightarrow> string \<Rightarrow> string" where
  "tokenMac hmac key payloadB64 = b64url_encode (hmac key (utf8 (TOKEN_PREFIX @ ''.'' @ payloadB64)))"

definition tokenPayload :: "string \<Rightarrow> string \<Rightarrow> millis \<Rightarrow> millis \<Rightarrow> string \<Rightarrow> json" where
  "tokenPayload sid did iat ttlMs jti =
     JObj [(''sid'', JStr sid), (''did'', JStr did), (''iat'', JNum (Fin (of_int iat))),
           (''exp'', JNum (Fin (of_int (iat + ttlMs)))), (''jti'', JStr jti)]"

definition signTunnelToken :: "mac_fun \<Rightarrow> byte list \<Rightarrow> string \<Rightarrow> string \<Rightarrow> millis \<Rightarrow> millis \<Rightarrow> string \<Rightarrow> string" where
  "signTunnelToken hmac key sid did now ttlMs jti =
     (let payloadB64 = encodePayload (tokenPayload sid did now ttlMs jti)
      in TOKEN_PREFIX @ ''.'' @ payloadB64 @ ''.'' @ tokenMac hmac key payloadB64)"

definition verifyTunnelToken :: "mac_fun \<Rightarrow> byte list \<Rightarrow> millis \<Rightarrow> string \<Rightarrow> token_grant option" where
  "verifyTunnelToken hmac key now token =
     (case openSigned TOKEN_PREFIX (tokenMac hmac key) token of
        None \<Rightarrow> None
      | Some payloadB64 \<Rightarrow>
          (case payloadFields payloadB64 of
             None \<Rightarrow> None
           | Some payload \<Rightarrow>
               (case mget payload ''exp'' of
                  Some (JNum e) \<Rightarrow>
                    if expired now e then None
                    else Some \<lparr>tgSid = mget payload ''sid'', tgDid = mget payload ''did'', tgJti = mget payload ''jti''\<rparr>
                | _ \<Rightarrow> None)))"

section \<open>The upgrade request\<close>

datatype upgrade_reply = DropSocket | BadRequest | Unauthorized | Forbidden | Conflict | Upgraded string "json option"

text \<open>\<open>url\<close> is the parsed request URL: its path and its query parameters; \<open>None\<close> when it does not parse.\<close>

definition attachTunnelHandler ::
  "mac_fun \<Rightarrow> kdf_fun \<Rightarrow> string option \<Rightarrow> millis \<Rightarrow> (string \<Rightarrow> bool)
    \<Rightarrow> (string \<times> (string \<Rightarrow> string option)) option \<Rightarrow> string option \<Rightarrow> upgrade_reply" where
  "attachTunnelHandler hmac hkdf secret now fenced url authHeader =
     (case url of
        None \<Rightarrow> DropSocket
      | Some (pathname, query) \<Rightarrow>
          if pathname \<noteq> ''/tunnel'' then DropSocket
          else let sessionId = query ''sessionId'';
                   token = (case authHeader of
                              Some a \<Rightarrow> if starts_with a ''Bearer '' then Some (drop 7 a) else query ''token''
                            | None \<Rightarrow> query ''token'')
               in if \<not> truthy sessionId \<or> \<not> truthy token then BadRequest
                  else if \<not> truthy secret then Unauthorized
                  else (case verifyTunnelToken hmac (deriveTunnelKey hkdf (the secret)) now (the token) of
                          None \<Rightarrow> Unauthorized
                        | Some payload \<Rightarrow>
                            if tgSid payload \<noteq> Some (JStr (the sessionId)) then Forbidden
                            else if fenced (the sessionId) then Conflict
                            else Upgraded (the sessionId) (tgDid payload)))"

section \<open>Lemmas\<close>

interpretation tunnelTokens: signed_token TOKEN_PREFIX "tokenMac hmac key" for hmac key
  by unfold_locales (simp_all add: TOKEN_PREFIX_def tokenMac_def)

lemma payload_plain: "\<bar>iat\<bar> < 10 ^ 20 \<Longrightarrow> \<bar>ttl\<bar> < 10 ^ 20 \<Longrightarrow> plainJson (tokenPayload sid did iat ttl jti)"
proof -
  assume a: "\<bar>iat\<bar> < 10 ^ 20" "\<bar>ttl\<bar> < 10 ^ 20"
  have "(of_int \<bar>n\<bar> :: rat) < of_int (10 ^ 21)" if "\<bar>n\<bar> < 10 ^ 21" for n :: int using that by (simp only: of_int_less_iff)
  moreover have "\<bar>iat\<bar> < 10 ^ 21" "\<bar>iat + ttl\<bar> < 10 ^ 21" using a by (auto simp: abs_if split: if_splits)
  ultimately show ?thesis by (simp add: tokenPayload_def)
qed

lemma verify_sign:
  assumes "\<bar>iat\<bar> < 10 ^ 20" "\<bar>ttl\<bar> < 10 ^ 20"
  shows "verifyTunnelToken hmac key now (signTunnelToken hmac key sid did iat ttl jti)
    = (if now \<le> iat + ttl then Some \<lparr>tgSid = Some (JStr sid), tgDid = Some (JStr did), tgJti = Some (JStr jti)\<rparr> else None)"
proof -
  let ?p = "tokenPayload sid did iat ttl jti"
  obtain fs where fs: "?p = JObj fs" by (simp add: tokenPayload_def)
  have "openSigned TOKEN_PREFIX (tokenMac hmac key) (signTunnelToken hmac key sid did iat ttl jti) = Some (encodePayload ?p)"
    using tunnelTokens.open_sign [of "encodePayload ?p" hmac key] by (simp add: signTunnelToken_def Let_def encodePayload_def)
  moreover have "payloadFields (encodePayload ?p) = Some fs"
    using payload_roundtrip [of fs] payload_plain [OF assms, of sid did jti] by (simp add: fs)
  moreover have "mget fs ''exp'' = Some (JNum (Fin (of_int (iat + ttl))))" "mget fs ''sid'' = Some (JStr sid)"
    "mget fs ''did'' = Some (JStr did)" "mget fs ''jti'' = Some (JStr jti)"
    using fs by (auto simp: tokenPayload_def mget_Cons)
  ultimately show ?thesis by (simp add: verifyTunnelToken_def del: of_int_add)
qed

lemma verify_authentic:
  assumes "verifyTunnelToken hmac key now token = Some g"
  shows "\<exists>payloadB64 payload e. token = TOKEN_PREFIX @ ''.'' @ payloadB64 @ ''.'' @ tokenMac hmac key payloadB64
     \<and> payloadFields payloadB64 = Some payload
     \<and> mget payload ''exp'' = Some (JNum e) \<and> \<not> expired now e \<and> tgSid g = mget payload ''sid'' \<and> tgDid g = mget payload ''did''"
  using assms tunnelTokens.open_authentic [of hmac key token]
  by (auto simp: verifyTunnelToken_def split: if_splits option.splits json.splits)

section \<open>Properties\<close>

text \<open>
  A token that was signed verifies with the same key and gives back its session, device and id, up to
  and including its expiry, and is refused from the first millisecond after it.
\<close>

theorem tunnel_token_roundtrip:
  assumes "\<bar>iat\<bar> < 10 ^ 20" "\<bar>ttl\<bar> < 10 ^ 20"
  shows "verifyTunnelToken hmac key now (signTunnelToken hmac key sid did iat ttl jti)
    = (if now \<le> iat + ttl then Some \<lparr>tgSid = Some (JStr sid), tgDid = Some (JStr did), tgJti = Some (JStr jti)\<rparr> else None)"
  by (rule verify_sign [OF assms])

theorem tunnel_token_roundtrip_witness:
  "verifyTunnelToken (\<lambda>k m. k) [7] 1120 (signTunnelToken (\<lambda>k m. k) [7] ''s1'' ''d1'' 1000 120 ''j'')
   = Some \<lparr>tgSid = Some (JStr ''s1''), tgDid = Some (JStr ''d1''), tgJti = Some (JStr ''j'')\<rparr>"
  using tunnel_token_roundtrip [of 1000 120 "\<lambda>k m. k" "[7]" 1120 "''s1''" "''d1''" "''j''"] by simp

text \<open>
  C31: An upgrade is granted only for a session that is not fenced and only to a token that carries, under
  the key derived from the shared secret, the MAC of its own payload, has not expired and names that
  very session; with a token minted for another session the answer is never an upgrade.
\<close>

theorem upgrade_bound_to_session:
  assumes "attachTunnelHandler hmac hkdf secret now fenced url authHeader = Upgraded session device"
  shows "\<not> fenced session \<and> (\<exists>sec token payloadB64 payload e. secret = Some sec
    \<and> token = TOKEN_PREFIX @ ''.'' @ payloadB64 @ ''.'' @ tokenMac hmac (deriveTunnelKey hkdf sec) payloadB64
    \<and> (authHeader = Some (''Bearer '' @ token) \<or> (\<exists>path query. url = Some (path, query) \<and> query ''token'' = Some token))
    \<and> payloadFields payloadB64 = Some payload
    \<and> mget payload ''sid'' = Some (JStr session) \<and> mget payload ''did'' = device
    \<and> mget payload ''exp'' = Some (JNum e) \<and> \<not> expired now e)
    \<and> (\<forall>sec token sid did iat ttl jti. secret = Some sec \<and> authHeader = Some (''Bearer '' @ token) \<and> \<bar>iat\<bar> < 10 ^ 20 \<and> \<bar>ttl\<bar> < 10 ^ 20
         \<and> token = signTunnelToken hmac (deriveTunnelKey hkdf sec) sid did iat ttl jti \<longrightarrow> sid = session)"
proof -
  obtain path query where u: "url = Some (path, query)" using assms
    by (auto simp: attachTunnelHandler_def split: option.splits)
  define token where "token = (case authHeader of Some a \<Rightarrow> if starts_with a ''Bearer '' then Some (drop 7 a) else query ''token''
      | None \<Rightarrow> query ''token'')"
  have a: "truthy (query ''sessionId'')" "truthy token" "truthy secret" "\<not> fenced session"
    "\<exists>g. verifyTunnelToken hmac (deriveTunnelKey hkdf (the secret)) now (the token) = Some g
      \<and> tgSid g = Some (JStr session) \<and> tgDid g = device"
    using assms unfolding attachTunnelHandler_def u
    by (auto simp: Let_def token_def [symmetric] split: if_splits option.splits)
  from a(2,3) obtain sec tok where st: "secret = Some sec" "token = Some tok" by (auto elim!: truthyE)
  from a(5) st obtain g where g: "verifyTunnelToken hmac (deriveTunnelKey hkdf sec) now tok = Some g"
    "tgSid g = Some (JStr session)" "tgDid g = device" by auto
  have route: "authHeader = Some (''Bearer '' @ tok) \<or> (\<exists>path query. url = Some (path, query) \<and> query ''token'' = Some tok)"
    using st(2) u by (auto simp: token_def starts_with_iff split: option.splits if_splits)
  have own: "sid = session" if "authHeader = Some (''Bearer '' @ t)" "\<bar>iat\<bar> < 10 ^ 20" "\<bar>ttl\<bar> < 10 ^ 20"
    "t = signTunnelToken hmac (deriveTunnelKey hkdf sec) sid did iat ttl jti" for t sid did iat ttl jti
  proof -
    have "tok = t" using that(1) st(2) by (simp add: token_def starts_with_def)
    with verify_sign [OF that(2,3)] that(4) g show ?thesis by (auto split: if_splits)
  qed
  obtain b payload e where b: "tok = TOKEN_PREFIX @ ''.'' @ b @ ''.'' @ tokenMac hmac (deriveTunnelKey hkdf sec) b"
    "payloadFields b = Some payload" "mget payload ''exp'' = Some (JNum e)"
    "\<not> expired now e" "mget payload ''sid'' = Some (JStr session)" "mget payload ''did'' = device"
    using verify_authentic [OF g(1)] g(2,3) by auto
  show ?thesis
  proof (intro conjI)
    show "\<not> fenced session" by (rule a(4))
    show "\<exists>sec token payloadB64 payload e. secret = Some sec
      \<and> token = TOKEN_PREFIX @ ''.'' @ payloadB64 @ ''.'' @ tokenMac hmac (deriveTunnelKey hkdf sec) payloadB64
      \<and> (authHeader = Some (''Bearer '' @ token) \<or> (\<exists>path query. url = Some (path, query) \<and> query ''token'' = Some token))
      \<and> payloadFields payloadB64 = Some payload
      \<and> mget payload ''sid'' = Some (JStr session) \<and> mget payload ''did'' = device
      \<and> mget payload ''exp'' = Some (JNum e) \<and> \<not> expired now e"
      by (rule exI [of _ sec], rule exI [of _ tok], rule exI [of _ b], rule exI [of _ payload], rule exI [of _ e])
         (intro conjI st b route)
  qed (use own st(1) in auto)
qed

definition demoQuery :: "string \<Rightarrow> string option" where
  "demoQuery k = (if k = ''sessionId'' then Some ''s1'' else None)"

theorem upgrade_bound_to_session_witness:
  "attachTunnelHandler (\<lambda>k m. k) (\<lambda>s a b n. s) (Some ''x'') 1100 (\<lambda>_. False) (Some (''/tunnel'', demoQuery))
     (Some (''Bearer '' @ signTunnelToken (\<lambda>k m. k) (utf8 ''x'') ''s1'' ''d1'' 1000 120 ''j'')) = Upgraded ''s1'' (Some (JStr ''d1''))
   \<and> \<not> (\<lambda>_. False) ''s1''"
proof -
  let ?t = "signTunnelToken (\<lambda>k m. k) (utf8 ''x'') ''s1'' ''d1'' 1000 120 ''j''"
  have "?t \<noteq> []" by (simp add: signTunnelToken_def Let_def TOKEN_PREFIX_def)
  then have "attachTunnelHandler (\<lambda>k m. k) (\<lambda>s a b n. s) (Some ''x'') 1100 (\<lambda>_. False) (Some (''/tunnel'', demoQuery))
      (Some (''Bearer '' @ ?t)) = Upgraded ''s1'' (Some (JStr ''d1''))"
    using verify_sign [of 1000 120 "\<lambda>k m. k" "utf8 ''x''" 1100 "''s1''" "''d1''" "''j''"]
    by (simp add: attachTunnelHandler_def Let_def demoQuery_def deriveTunnelKey_def starts_with_def)
  with upgrade_bound_to_session [OF this] show ?thesis by blast
qed

end
