(* ===== verification/ApiKeys.thy ===== *)
theory ApiKeys
  imports RelaySafety
begin

text \<open>
  \<^verbatim>\<open>apps/control-plane/src/auth/apiKeys.ts\<close>: the bearer keys of external consumers, of paired phones and
  of OAuth clients. The table is the one of \<^verbatim>\<open>Devices\<close>, so that revoking a phone and verifying its key
  meet in one state. SHA-256, random bytes, row ids and the clock are arguments; the branches that
  delegate to a hosted credential store are not modelled. The first section is shared by every table
  whose rows are ended by a time stamp that is written once.
\<close>

section \<open>Columns that are stamped once\<close>

text \<open>
  Keys, grants, codes, refresh tokens, pairing requests and shares all end the same way: an
  \<^verbatim>\<open>update ... set t = now where p and t is null\<close>. The laws say that the stamp marks the row; the lemmas
  say that the update marks every row it selects, that it never unmarks one, and that a compare-and-set
  on one row succeeds at most once.
\<close>

locale stamped_rows =
  fixes stamp :: "millis \<Rightarrow> 'r \<Rightarrow> 'r"
    and stamped :: "'r \<Rightarrow> bool"
  assumes stamped_stamp: "stamped (stamp t r)"
begin

lemma stamp_all:
  assumes "\<And>i r. p i (stamp t r) = p i r"
  shows "mget (updateRows (\<lambda>i r. p i r \<and> \<not> stamped r) (stamp t) rows) j = Some r \<Longrightarrow> p j r \<Longrightarrow> stamped r"
proof -
  assume "mget (updateRows (\<lambda>i r. p i r \<and> \<not> stamped r) (stamp t) rows) j = Some r" and r: "p j r"
  then obtain q where "r = (if p j q \<and> \<not> stamped q then stamp t q else q)" by (auto simp: mget_updateRows)
  with r assms [of j q] stamped_stamp [of t q] show "stamped r" by (auto split: if_splits)
qed

lemma stamp_keeps:
  "mget rows j = Some r \<Longrightarrow> stamped r
     \<Longrightarrow> mget (updateRows (\<lambda>i r. p i r \<and> \<not> stamped r) (stamp t) rows) j = Some r"
  by (simp add: mget_updateRows)

lemma stamp_other:
  "mget rows j = Some r \<Longrightarrow> \<not> p j r \<Longrightarrow> mget (updateRows (\<lambda>i r. p i r \<and> \<not> stamped r) (stamp t) rows) j = Some r"
  by (simp add: mget_updateRows)

lemma stamp_once:
  assumes "\<And>i r. p i (stamp t r) = p i r"
  shows "matching (\<lambda>i r. p i r \<and> \<not> stamped r) (updateRows (\<lambda>i r. p i r \<and> \<not> stamped r) (stamp t) rows) = []"
  using assms by (auto simp: matching_def updateRows_def filter_empty_conv stamped_stamp split: if_splits)

end

interpretation revokedKeys: stamped_rows "\<lambda>t k. k\<lparr>akRevokedAt := Some t\<rparr>" "\<lambda>k. akRevokedAt k \<noteq> None"
  by unfold_locales simp

interpretation revokedDevices: stamped_rows "\<lambda>t d. d\<lparr>dvRevokedAt := Some t\<rparr>" "\<lambda>d. dvRevokedAt d \<noteq> None"
  by unfold_locales simp

section \<open>Keys and contexts\<close>

definition API_SCOPES :: "string list" where
  "API_SCOPES = [''read:data'']"

definition OPERATOR_MINTABLE_SCOPES :: "string list" where
  "OPERATOR_MINTABLE_SCOPES = API_SCOPES @ [''write:crawl'']"

definition SELF_HOSTED_OPERATOR_SUBJECT :: string where
  "SELF_HOSTED_OPERATOR_SUBJECT = ''self-hosted:operator''"

definition KEY_PREFIX :: string where
  "KEY_PREFIX = ''acck_''"

record api_key_context =
  kcId :: string
  kcOwnerSubject :: string
  kcDeviceId :: "string option"
  kcOauthGrantId :: "string option"
  kcCredentialHash :: string
  kcScopes :: "string list"
  kcConnectionGrants :: "string list"

definition keyContext :: "string \<Rightarrow> api_key \<Rightarrow> api_key_context" where
  "keyContext i k =
     \<lparr>kcId = i, kcOwnerSubject = akOwnerSubject k, kcDeviceId = akDeviceId k, kcOauthGrantId = akGrantId k,
      kcCredentialHash = akHashedKey k, kcScopes = akScopes k, kcConnectionGrants = akConnectionGrants k\<rparr>"

definition hashApiKey :: "digest \<Rightarrow> string \<Rightarrow> string" where
  "hashApiKey sha plaintext = to_hex (sha plaintext)"

definition generateApiKey :: "digest \<Rightarrow> byte list \<Rightarrow> string \<times> string" where
  "generateApiKey sha random =
     (let plaintext = KEY_PREFIX @ b64url_encode random in (plaintext, hashApiKey sha plaintext))"

definition keyHasScope :: "api_key_context \<Rightarrow> string \<Rightarrow> bool" where
  "keyHasScope ctx scope = (scope \<in> set (kcScopes ctx))"

definition keyGrantsConnection :: "api_key_context \<Rightarrow> string \<Rightarrow> bool" where
  "keyGrantsConnection ctx connectionId =
     (''*'' \<in> set (kcConnectionGrants ctx) \<or> connectionId \<in> set (kcConnectionGrants ctx))"

text \<open>\<^verbatim>\<open>row.expiresAt && row.expiresAt.getTime() <= now\<close>.\<close>

definition pastExpiry :: "millis \<Rightarrow> millis option \<Rightarrow> bool" where
  "pastExpiry now e = (case e of None \<Rightarrow> False | Some t \<Rightarrow> t \<le> now)"

definition findKey :: "(string \<Rightarrow> api_key \<Rightarrow> bool) \<Rightarrow> relay_world \<Rightarrow> (string \<times> api_key) option" where
  "findKey p w = find (\<lambda>(i, k). p i k) (ryKeys w)"

definition liveDeviceOf :: "string option \<Rightarrow> string \<Rightarrow> relay_world \<Rightarrow> bool" where
  "liveDeviceOf deviceId ownerSubject w =
     (findDevice (\<lambda>i d. Some i = deviceId \<and> dvOwnerSubject d = ownerSubject \<and> dvRevokedAt d = None) w \<noteq> None)"

text \<open>The check that both \<^verbatim>\<open>verifyApiKey\<close> and \<^verbatim>\<open>refreshApiKeyContext\<close> make of a companion key.\<close>

definition companionUsable :: "api_key \<Rightarrow> relay_world \<Rightarrow> bool" where
  "companionUsable k w =
     (if ''read:companion'' \<in> set (akScopes k)
      then truthy (akDeviceId k) \<and> ''*'' \<notin> set (akConnectionGrants k) \<and> liveDeviceOf (akDeviceId k) (akOwnerSubject k) w
      else True)"

definition currentKey :: "api_key_context \<Rightarrow> string \<Rightarrow> api_key \<Rightarrow> bool" where
  "currentKey ctx i k =
     (i = kcId ctx \<and> akOwnerSubject k = kcOwnerSubject ctx \<and> akHashedKey k = kcCredentialHash ctx \<and> akRevokedAt k = None)"

definition refreshApiKeyContext :: "millis \<Rightarrow> api_key_context \<Rightarrow> relay_world \<Rightarrow> api_key_context option" where
  "refreshApiKeyContext now ctx w =
     (case findKey (currentKey ctx) w of
        None \<Rightarrow> None
      | Some (i, k) \<Rightarrow>
          if pastExpiry now (akExpiresAt k) then None
          else if \<not> companionUsable k w then None
          else Some (keyContext i k))"

text \<open>
  The three reads of \<^verbatim>\<open>lockActiveApiKeyContext\<close>: the candidate, the device (locked) and the row
  (locked). \<open>others1\<close> and \<open>others2\<close> are what other transactions do before the second and the third.
\<close>

definition lockActiveApiKeyContext ::
  "interference \<Rightarrow> interference \<Rightarrow> millis \<Rightarrow> api_key_context \<Rightarrow> relay_world \<Rightarrow> relay_world \<times> api_key_context option" where
  "lockActiveApiKeyContext others1 others2 now ctx w =
     (case findKey (currentKey ctx) w of
        None \<Rightarrow> (w, None)
      | Some (j, candidate) \<Rightarrow>
          let companionCandidate = ''read:companion'' \<in> set (akScopes candidate); w1 = others1 w in
          if companionCandidate
             \<and> (\<not> truthy (akDeviceId candidate) \<or> \<not> liveDeviceOf (akDeviceId candidate) (kcOwnerSubject ctx) w1)
          then (w1, None)
          else let w2 = others2 w1
               in case findKey (currentKey ctx) w2 of
                    None \<Rightarrow> (w2, None)
                  | Some (i, k) \<Rightarrow>
                      if pastExpiry now (akExpiresAt k) then (w2, None)
                      else if ''read:companion'' \<in> set (akScopes k)
                              \<and> (\<not> companionCandidate \<or> \<not> truthy (akDeviceId k)
                                 \<or> akDeviceId k \<noteq> akDeviceId candidate \<or> ''*'' \<in> set (akConnectionGrants k))
                      then (w2, None)
                      else (w2, Some (keyContext i k)))"

section \<open>Operations on the table\<close>

record key_input =
  kiName :: string
  kiScopes :: "string list"
  kiConnectionGrants :: "string list"
  kiOwnerSubject :: "string option"
  kiExpiresAt :: "millis option"
  kiGrantId :: "string option"
  kiDeviceId :: "string option"

text \<open>
  The insert raises when it breaks a unique key (id, hash, device) or names a device that does not
  exist. That the grant exists is checked where grants are known.
\<close>

definition createApiKey ::
  "digest \<Rightarrow> byte list \<Rightarrow> string \<Rightarrow> millis \<Rightarrow> key_input \<Rightarrow> relay_world \<Rightarrow> string + relay_world \<times> string \<times> string" where
  "createApiKey sha random newId now input w =
     (let (plaintext, hashedKey) = generateApiKey sha random in
      if mhas (ryKeys w) newId
         \<or> (\<exists>(i, k) \<in> set (ryKeys w). akHashedKey k = hashedKey \<or> (kiDeviceId input \<noteq> None \<and> akDeviceId k = kiDeviceId input))
      then Inl ''duplicate key value violates unique constraint''
      else if (case kiDeviceId input of Some d \<Rightarrow> \<not> mhas (ryDevices w) d | None \<Rightarrow> False)
      then Inl ''insert or update violates foreign key constraint''
      else Inr (w\<lparr>ryKeys := mput newId
                  \<lparr>akOwnerSubject = (case kiOwnerSubject input of Some s \<Rightarrow> s | None \<Rightarrow> SELF_HOSTED_OPERATOR_SUBJECT),
                   akName = kiName input, akHashedKey = hashedKey, akScopes = kiScopes input,
                   akConnectionGrants = kiConnectionGrants input, akGrantId = kiGrantId input,
                   akDeviceId = kiDeviceId input, akCreatedAt = now, akLastUsedAt = None, akRevokedAt = None,
                   akExpiresAt = kiExpiresAt input\<rparr> (ryKeys w)\<rparr>, newId, plaintext))"

definition updateKeys :: "(string \<Rightarrow> api_key \<Rightarrow> bool) \<Rightarrow> (api_key \<Rightarrow> api_key) \<Rightarrow> relay_world \<Rightarrow> relay_world" where
  "updateKeys p f w = w\<lparr>ryKeys := updateRows p f (ryKeys w)\<rparr>"

text \<open>The usage stamp may fail without failing authentication; here it succeeds.\<close>

definition verifyApiKey ::
  "digest \<Rightarrow> millis \<Rightarrow> string \<Rightarrow> relay_world \<Rightarrow> relay_world \<times> api_key_context option" where
  "verifyApiKey sha now presented w =
     (if \<not> starts_with presented KEY_PREFIX then (w, None)
      else case findKey (\<lambda>i k. akHashedKey k = hashApiKey sha presented) w of
             None \<Rightarrow> (w, None)
           | Some (i, k) \<Rightarrow>
               if akRevokedAt k \<noteq> None then (w, None)
               else if pastExpiry now (akExpiresAt k) then (w, None)
               else if \<not> companionUsable k w then (w, None)
               else (updateKeys (\<lambda>j e. j = i) (\<lambda>e. e\<lparr>akLastUsedAt := Some now\<rparr>) w, Some (keyContext i k)))"

definition listApiKeys :: "string \<Rightarrow> relay_world \<Rightarrow> (string \<times> api_key) list" where
  "listApiKeys ownerSubject w =
     sort_key (\<lambda>(i, k). - akCreatedAt k) (filter (\<lambda>(i, k). akOwnerSubject k = ownerSubject) (ryKeys w))"

definition revokeApiKey :: "millis \<Rightarrow> string \<Rightarrow> string \<Rightarrow> relay_world \<Rightarrow> relay_world \<times> bool" where
  "revokeApiKey now keyId ownerSubject w =
     (let p = (\<lambda>i k. i = keyId \<and> akOwnerSubject k = ownerSubject \<and> akRevokedAt k = None)
      in (updateKeys p (\<lambda>k. k\<lparr>akRevokedAt := Some now\<rparr>) w, matching p (ryKeys w) \<noteq> []))"

section \<open>Lemmas\<close>

lemma findKey_Some: "findKey p w = Some (i, k) \<Longrightarrow> p i k \<and> (i, k) \<in> set (ryKeys w)"
  unfolding findKey_def by (auto simp: find_Some_iff in_set_conv_nth)

lemma findKey_mget:
  "distinct (mkeys (ryKeys w)) \<Longrightarrow> findKey p w = Some (i, k) \<Longrightarrow> mget (ryKeys w) i = Some k \<and> p i k"
  using findKey_Some [of p w i k] by (auto simp: mget_def mkeys_def)

text \<open>The unique key of the hash column, as an invariant of the table.\<close>

definition keysOk :: "relay_world \<Rightarrow> bool" where
  "keysOk w =
     (distinct (mkeys (ryKeys w))
      \<and> (\<forall>i j k l. mget (ryKeys w) i = Some k \<and> mget (ryKeys w) j = Some l \<and> akHashedKey k = akHashedKey l \<longrightarrow> i = j))"

lemma ryKeys_updateKeys [simp]: "ryKeys (updateKeys p f w) = updateRows p f (ryKeys w)"
  by (simp add: updateKeys_def)

lemma keysOk_update: "keysOk w \<Longrightarrow> (\<And>k. akHashedKey (f k) = akHashedKey k) \<Longrightarrow> keysOk (updateKeys p f w)"
  unfolding keysOk_def by (fastforce simp: mget_updateRows split: if_splits)

lemma keysOk_verify: "keysOk w \<Longrightarrow> keysOk (fst (verifyApiKey sha now presented w))"
  by (auto simp: verifyApiKey_def intro!: keysOk_update split: option.splits)

lemma keysOk_revoke: "keysOk w \<Longrightarrow> keysOk (fst (revokeApiKey now i owner w))"
  by (auto simp: revokeApiKey_def Let_def intro!: keysOk_update)

text \<open>What a created key is.\<close>

lemma createApiKey_Inr:
  assumes "createApiKey sha random newId now input w = Inr (w', i, plaintext)"
  shows "i = newId \<and> plaintext = KEY_PREFIX @ b64url_encode random \<and> \<not> mhas (ryKeys w) newId
    \<and> (\<forall>(j, l) \<in> set (ryKeys w). akHashedKey l \<noteq> hashApiKey sha plaintext)
    \<and> w' = w\<lparr>ryKeys := mput newId
        \<lparr>akOwnerSubject = (case kiOwnerSubject input of Some s \<Rightarrow> s | None \<Rightarrow> SELF_HOSTED_OPERATOR_SUBJECT),
         akName = kiName input, akHashedKey = hashApiKey sha plaintext, akScopes = kiScopes input,
         akConnectionGrants = kiConnectionGrants input, akGrantId = kiGrantId input, akDeviceId = kiDeviceId input,
         akCreatedAt = now, akLastUsedAt = None, akRevokedAt = None, akExpiresAt = kiExpiresAt input\<rparr> (ryKeys w)\<rparr>"
  using assms by (auto simp: createApiKey_def generateApiKey_def Let_def split: if_splits)

lemma keysOk_create:
  assumes inv: "keysOk w" and c: "createApiKey sha random newId now input w = Inr (w', i, plaintext)"
  shows "keysOk w'"
proof -
  note k = createApiKey_Inr [OF c]
  have other: "akHashedKey l \<noteq> hashApiKey sha plaintext" if "mget (ryKeys w) j = Some l" for j l
    using that k by (auto simp: mget_def dest: map_of_SomeD)
  show ?thesis using inv k other unfolding keysOk_def by (auto split: if_splits dest: sym)
qed

text \<open>What a verified key must be, and when a key of the table verifies.\<close>

lemma verify_row:
  assumes "verifyApiKey sha now presented w = (w', Some ctx)"
  shows "\<exists>i k. (i, k) \<in> set (ryKeys w) \<and> akHashedKey k = hashApiKey sha presented \<and> akRevokedAt k = None
    \<and> \<not> pastExpiry now (akExpiresAt k) \<and> companionUsable k w \<and> ctx = keyContext i k"
proof -
  from assms obtain i k where "findKey (\<lambda>j l. akHashedKey l = hashApiKey sha presented) w = Some (i, k)" "akRevokedAt k = None"
    "\<not> pastExpiry now (akExpiresAt k)" "companionUsable k w" "ctx = keyContext i k"
    by (auto simp: verifyApiKey_def split: if_splits option.splits)
  with findKey_Some [of "\<lambda>j l. akHashedKey l = hashApiKey sha presented" w i k] show ?thesis by blast
qed

lemma verify_Some:
  assumes "verifyApiKey sha now presented w = (w', Some ctx)" and "distinct (mkeys (ryKeys w))"
  shows "\<exists>k. mget (ryKeys w) (kcId ctx) = Some k \<and> akHashedKey k = hashApiKey sha presented \<and> akRevokedAt k = None
    \<and> \<not> pastExpiry now (akExpiresAt k) \<and> companionUsable k w \<and> ctx = keyContext (kcId ctx) k"
  using assms by (auto simp: verifyApiKey_def keyContext_def dest!: findKey_mget split: if_splits option.splits)

lemma findKey_hash:
  assumes "keysOk w" "mget (ryKeys w) i = Some k"
  shows "findKey (\<lambda>j l. akHashedKey l = akHashedKey k) w = Some (i, k)"
proof (cases "findKey (\<lambda>j l. akHashedKey l = akHashedKey k) w")
  case None
  have "(i, k) \<in> set (ryKeys w)" using assms(2) by (auto simp: mget_def dest: map_of_SomeD)
  with None show ?thesis by (auto simp: findKey_def find_None_iff)
next
  case (Some jl)
  obtain j l where jl: "jl = (j, l)" by (cases jl)
  with Some assms have "mget (ryKeys w) j = Some l" "akHashedKey l = akHashedKey k"
    using findKey_mget [of w "\<lambda>j l. akHashedKey l = akHashedKey k" j l] by (auto simp: keysOk_def)
  moreover from this assms have "j = i" unfolding keysOk_def by blast
  ultimately show ?thesis using Some jl assms(2) by simp
qed

lemma verify_live:
  assumes "keysOk w" "mget (ryKeys w) i = Some k" "akHashedKey k = hashApiKey sha presented" "starts_with presented KEY_PREFIX"
  shows "snd (verifyApiKey sha now presented w)
    = (if akRevokedAt k = None \<and> \<not> pastExpiry now (akExpiresAt k) \<and> companionUsable k w then Some (keyContext i k) else None)"
  using findKey_hash [OF assms(1,2)] assms(3,4) by (simp add: verifyApiKey_def)

lemma currentKey_self: "akRevokedAt k = None \<Longrightarrow> currentKey (keyContext i k) j l \<longleftrightarrow>
    j = i \<and> akOwnerSubject l = akOwnerSubject k \<and> akHashedKey l = akHashedKey k \<and> akRevokedAt l = None"
  by (simp add: currentKey_def keyContext_def)

section \<open>Properties\<close>

text \<open>
  A context that the locking read returns is what an unlocked read of the same state returns: the key
  is unrevoked and unexpired there, and a companion key has its unrevoked phone. The device is read
  before the key; other transactions may do anything except end a phone whose row is locked.
\<close>

theorem lock_returns_live_authority:
  assumes "lockActiveApiKeyContext others1 others2 now ctx w = (w', Some c)"
    and "\<forall>v device. liveDeviceOf device (kcOwnerSubject ctx) v \<longrightarrow> liveDeviceOf device (kcOwnerSubject ctx) (others2 v)"
  shows "refreshApiKeyContext now ctx w' = Some c"
proof -
  obtain j cand where cand: "findKey (currentKey ctx) w = Some (j, cand)"
    using assms(1) by (auto simp: lockActiveApiKeyContext_def split: option.splits)
  let ?w2 = "others2 (others1 w)"
  obtain i k where k: "findKey (currentKey ctx) ?w2 = Some (i, k)" "w' = ?w2" "c = keyContext i k" "\<not> pastExpiry now (akExpiresAt k)"
    "''read:companion'' \<in> set (akScopes k) \<Longrightarrow> truthy (akDeviceId k) \<and> akDeviceId k = akDeviceId cand \<and> ''*'' \<notin> set (akConnectionGrants k)
       \<and> liveDeviceOf (akDeviceId cand) (kcOwnerSubject ctx) (others1 w)"
    using assms(1) cand by (auto simp: lockActiveApiKeyContext_def Let_def split: option.splits if_splits)
  have "akOwnerSubject k = kcOwnerSubject ctx" using findKey_Some [OF k(1)] by (simp add: currentKey_def)
  then have "companionUsable k ?w2" using k(5) assms(2) by (auto simp: companionUsable_def)
  with k show ?thesis by (simp add: refreshApiKeyContext_def)
qed

end
