(* ===== verification/OperatorAuth.thy ===== *)
theory OperatorAuth
  imports SignedTokens
begin

text \<open>
  \<^verbatim>\<open>apps/control-plane/src/auth/operator.ts\<close> and \<^verbatim>\<open>data/operator-credential.ts\<close>: the single operator of a
  self-hosted deployment, the session tokens signed with the credential's secret, the in-process cache
  of that secret, and the consent tickets of the OAuth screen. HMAC-SHA256 and the password hash are
  parameters; the clock, random values and the tenant are arguments. \<^verbatim>\<open>signingSecret\<close> awaits the database
  between looking at the cache and filling it: what other requests do in that gap is an argument.
\<close>

section \<open>Tokens and tickets\<close>

definition OPERATOR_TOKEN_PREFIX :: string where
  "OPERATOR_TOKEN_PREFIX = ''accs1''"

definition CONSENT_TICKET_PREFIX :: string where
  "CONSENT_TICKET_PREFIX = ''accsent1''"

definition DEFAULT_TTL_HOURS :: rat where
  "DEFAULT_TTL_HOURS = 168"

definition MIN_TTL_HOURS :: rat where
  "MIN_TTL_HOURS = 1"

definition MAX_TTL_HOURS :: rat where
  "MAX_TTL_HOURS = 720"

text \<open>\<open>hours\<close> is \<^verbatim>\<open>Number(raw)\<close> when the trimmed variable is not empty, and \<^verbatim>\<open>NaN\<close> otherwise.\<close>

definition operatorTokenTtlMs :: "jsnum \<Rightarrow> rat" where
  "operatorTokenTtlMs hours =
     (case hours of
        Fin h \<Rightarrow> if MIN_TTL_HOURS \<le> h \<and> h \<le> MAX_TTL_HOURS then h else DEFAULT_TTL_HOURS
      | _ \<Rightarrow> DEFAULT_TTL_HOURS) * 60 * 60 * 1000"

definition sessionPayload :: "millis \<Rightarrow> string \<Rightarrow> json" where
  "sessionPayload e tid = JObj [(''exp'', JNum (Fin (of_int e))), (''tid'', JStr tid)]"

definition operatorMac :: "mac_fun \<Rightarrow> string \<Rightarrow> string \<Rightarrow> string" where
  "operatorMac hmac secret payloadB64 = b64url_encode (hmac (utf8 secret) (utf8 (OPERATOR_TOKEN_PREFIX @ ''.'' @ payloadB64)))"

definition signToken :: "mac_fun \<Rightarrow> string \<Rightarrow> millis \<Rightarrow> millis \<Rightarrow> string \<Rightarrow> string" where
  "signToken hmac secret now ttlMs tenantId =
     (let payloadB64 = encodePayload (sessionPayload (now + ttlMs) tenantId)
      in OPERATOR_TOKEN_PREFIX @ ''.'' @ payloadB64 @ ''.'' @ operatorMac hmac secret payloadB64)"

text \<open>\<^verbatim>\<open>typeof payload.exp === 'number' && payload.tid === tenantId && Date.now() <= payload.exp\<close>.\<close>

definition payloadCurrent :: "millis \<Rightarrow> string \<Rightarrow> string \<Rightarrow> bool" where
  "payloadCurrent now tenantId payloadB64 =
     (case payloadFields payloadB64 of
        None \<Rightarrow> False
      | Some payload \<Rightarrow>
          (case mget payload ''exp'' of
             Some (JNum e) \<Rightarrow> mget payload ''tid'' = Some (JStr tenantId) \<and> \<not> expired now e
           | _ \<Rightarrow> False))"

definition verifyToken :: "mac_fun \<Rightarrow> string \<Rightarrow> millis \<Rightarrow> string \<Rightarrow> string \<Rightarrow> bool" where
  "verifyToken hmac secret now token tenantId =
     (case openSigned OPERATOR_TOKEN_PREFIX (operatorMac hmac secret) token of
        None \<Rightarrow> False
      | Some payloadB64 \<Rightarrow> payloadCurrent now tenantId payloadB64)"

record consent_binding =
  cbClientId :: string
  cbRedirectUri :: string
  cbScope :: string
  cbCodeChallenge :: string

definition consentBindingMaterial :: "consent_binding \<Rightarrow> string" where
  "consentBindingMaterial b =
     stringify (\<lambda>_. []) (JArr [JStr (cbClientId b), JStr (cbRedirectUri b), JStr (cbScope b), JStr (cbCodeChallenge b)])"

definition ticketMac :: "mac_fun \<Rightarrow> string \<Rightarrow> consent_binding \<Rightarrow> string \<Rightarrow> string" where
  "ticketMac hmac secret binding payloadB64 =
     b64url_encode (hmac (utf8 secret)
       (utf8 (CONSENT_TICKET_PREFIX @ ''.'' @ payloadB64 @ ''.'' @ consentBindingMaterial binding)))"

definition signConsentTicket :: "mac_fun \<Rightarrow> string \<Rightarrow> consent_binding \<Rightarrow> millis \<Rightarrow> millis \<Rightarrow> string \<Rightarrow> string" where
  "signConsentTicket hmac secret binding now ttlMs tenantId =
     (let payloadB64 = encodePayload (sessionPayload (now + ttlMs) tenantId)
      in CONSENT_TICKET_PREFIX @ ''.'' @ payloadB64 @ ''.'' @ ticketMac hmac secret binding payloadB64)"

definition checkConsentTicket :: "mac_fun \<Rightarrow> string \<Rightarrow> millis \<Rightarrow> string \<Rightarrow> consent_binding \<Rightarrow> string \<Rightarrow> bool" where
  "checkConsentTicket hmac secret now ticket binding tenantId =
     (case openSigned CONSENT_TICKET_PREFIX (ticketMac hmac secret binding) ticket of
        None \<Rightarrow> False
      | Some payloadB64 \<Rightarrow> payloadCurrent now tenantId payloadB64)"

section \<open>The credential and its cache\<close>

record operator_credential =
  ocPasswordHash :: string
  ocTokenSigningSecret :: string

record operator_state =
  osCredential :: "operator_credential option"
  osCache :: "string option jsmap"

definition MIN_PASSWORD_LENGTH :: nat where
  "MIN_PASSWORD_LENGTH = 8"

definition isOperatorInitialized :: "operator_state \<Rightarrow> bool" where
  "isOperatorInitialized st = (osCredential st \<noteq> None)"

text \<open>\<^verbatim>\<open>on conflict do nothing\<close> on the single row: the loser of a race raises.\<close>

definition initializeOperator ::
  "(string \<Rightarrow> string) \<Rightarrow> byte list \<Rightarrow> string \<Rightarrow> operator_state \<Rightarrow> string + operator_state \<times> operator_credential" where
  "initializeOperator hashPassword random password st =
     (if length password < MIN_PASSWORD_LENGTH then Inl ''Operator password must be at least 8 characters.''
      else case osCredential st of
             Some c \<Rightarrow> Inl ''Operator is already initialized; setup can only run once.''
           | None \<Rightarrow>
               let c = \<lparr>ocPasswordHash = hashPassword password, ocTokenSigningSecret = to_hex random\<rparr>
               in Inr (st\<lparr>osCredential := Some c\<rparr>, c))"

definition rotateOperatorTokenSigningSecret ::
  "byte list \<Rightarrow> operator_state \<Rightarrow> operator_state \<times> operator_credential option" where
  "rotateOperatorTokenSigningSecret random st =
     (case osCredential st of
        None \<Rightarrow> (st, None)
      | Some c \<Rightarrow>
          let c' = c\<lparr>ocTokenSigningSecret := to_hex random\<rparr> in (st\<lparr>osCredential := Some c'\<rparr>, Some c'))"

definition clearOperatorAuthCache :: "string \<Rightarrow> operator_state \<Rightarrow> operator_state" where
  "clearOperatorAuthCache tenantId st = st\<lparr>osCache := mdel tenantId (osCache st)\<rparr>"

definition signingSecret ::
  "(operator_state \<Rightarrow> operator_state) \<Rightarrow> string \<Rightarrow> operator_state \<Rightarrow> operator_state \<times> string option" where
  "signingSecret others tenantId st =
     (case mget (osCache st) tenantId of
        Some s \<Rightarrow> (st, s)
      | None \<Rightarrow>
          let secret = map_option ocTokenSigningSecret (osCredential st); st1 = others st
          in (st1\<lparr>osCache := mput tenantId secret (osCache st1)\<rparr>, secret))"

definition verifyOperatorPassword :: "(string \<Rightarrow> string \<Rightarrow> bool) \<Rightarrow> string \<Rightarrow> operator_state \<Rightarrow> bool" where
  "verifyOperatorPassword verifyPassword presented st =
     (case osCredential st of None \<Rightarrow> False | Some c \<Rightarrow> verifyPassword (ocPasswordHash c) presented)"

definition mintOperatorToken ::
  "mac_fun \<Rightarrow> (operator_state \<Rightarrow> operator_state) \<Rightarrow> millis \<Rightarrow> millis \<Rightarrow> string \<Rightarrow> operator_state
     \<Rightarrow> operator_state \<times> (string + string)" where
  "mintOperatorToken hmac others now ttlMs tenantId st =
     (case signingSecret others tenantId st of
        (st', secret) \<Rightarrow>
          (st', if truthy secret then Inr (signToken hmac (the secret) now ttlMs tenantId)
                else Inl ''Operator auth unavailable: first-run setup has not completed.''))"

definition verifyOperatorToken ::
  "mac_fun \<Rightarrow> (operator_state \<Rightarrow> operator_state) \<Rightarrow> millis \<Rightarrow> string \<Rightarrow> string \<Rightarrow> operator_state
     \<Rightarrow> operator_state \<times> bool" where
  "verifyOperatorToken hmac others now tenantId token st =
     (case signingSecret others tenantId st of
        (st', secret) \<Rightarrow> (st', truthy secret \<and> verifyToken hmac (the secret) now token tenantId))"

definition revokeAllOperatorTokens :: "byte list \<Rightarrow> string \<Rightarrow> operator_state \<Rightarrow> operator_state \<times> bool" where
  "revokeAllOperatorTokens random tenantId st =
     (case rotateOperatorTokenSigningSecret random st of
        (st', rotated) \<Rightarrow> (clearOperatorAuthCache tenantId st', rotated \<noteq> None))"

text \<open>\<open>assertionSecret\<close> is the tenant's identity secret; a hosted cell derives its ticket key from it.\<close>

definition consentSigningSecret ::
  "mac_fun \<Rightarrow> (operator_state \<Rightarrow> operator_state) \<Rightarrow> string option \<Rightarrow> string \<Rightarrow> operator_state
     \<Rightarrow> operator_state \<times> string option" where
  "consentSigningSecret hmac others assertionSecret tenantId st =
     (if truthy assertionSecret
      then (st, Some (b64url_encode (hmac (utf8 (the assertionSecret)) (utf8 ''accrawl-oauth-consent-ticket-v1''))))
      else signingSecret others tenantId st)"

definition mintConsentTicket ::
  "mac_fun \<Rightarrow> (operator_state \<Rightarrow> operator_state) \<Rightarrow> string option \<Rightarrow> millis \<Rightarrow> millis \<Rightarrow> string \<Rightarrow> consent_binding
     \<Rightarrow> operator_state \<Rightarrow> operator_state \<times> (string + string)" where
  "mintConsentTicket hmac others assertionSecret now ttlMs tenantId binding st =
     (case consentSigningSecret hmac others assertionSecret tenantId st of
        (st', secret) \<Rightarrow>
          (st', if truthy secret then Inr (signConsentTicket hmac (the secret) binding now ttlMs tenantId)
                else Inl ''Operator auth unavailable: first-run setup has not completed.''))"

definition verifyConsentTicket ::
  "mac_fun \<Rightarrow> (operator_state \<Rightarrow> operator_state) \<Rightarrow> string option \<Rightarrow> millis \<Rightarrow> string \<Rightarrow> string \<Rightarrow> consent_binding
     \<Rightarrow> operator_state \<Rightarrow> operator_state \<times> bool" where
  "verifyConsentTicket hmac others assertionSecret now tenantId ticket binding st =
     (case consentSigningSecret hmac others assertionSecret tenantId st of
        (st', secret) \<Rightarrow> (st', truthy secret \<and> checkConsentTicket hmac (the secret) now ticket binding tenantId))"

section \<open>Lemmas\<close>

interpretation operatorTokens: signed_token OPERATOR_TOKEN_PREFIX "operatorMac hmac secret" for hmac secret
  by unfold_locales (simp_all add: OPERATOR_TOKEN_PREFIX_def operatorMac_def)

interpretation consentTickets: signed_token CONSENT_TICKET_PREFIX "ticketMac hmac secret binding" for hmac secret binding
  by unfold_locales (simp_all add: CONSENT_TICKET_PREFIX_def ticketMac_def)

lemma payloadCurrent_session:
  assumes "\<bar>e\<bar> < 10 ^ 21"
  shows "payloadCurrent now tenantId (encodePayload (sessionPayload e tid)) \<longleftrightarrow> tid = tenantId \<and> now \<le> e"
proof -
  have "(of_int \<bar>e\<bar> :: rat) < of_int (10 ^ 21)" using assms by (simp only: of_int_less_iff)
  then have "plainJson (sessionPayload e tid)" by (simp add: sessionPayload_def)
  then have "payloadFields (encodePayload (sessionPayload e tid)) = Some [(''exp'', JNum (Fin (of_int e))), (''tid'', JStr tid)]"
    using payload_roundtrip by (simp add: sessionPayload_def)
  then show ?thesis by (auto simp: payloadCurrent_def mget_Cons)
qed

lemma verify_signed:
  assumes "\<bar>now + ttl\<bar> < 10 ^ 21"
  shows "verifyToken hmac secret' now' (signToken hmac secret now ttl tid) tenantId \<longleftrightarrow>
    (let p = encodePayload (sessionPayload (now + ttl) tid) in operatorMac hmac secret p = operatorMac hmac secret' p)
    \<and> tid = tenantId \<and> now' \<le> now + ttl"
proof -
  let ?p = "encodePayload (sessionPayload (now + ttl) tid)"
  have "openSigned OPERATOR_TOKEN_PREFIX (operatorMac hmac secret') (signToken hmac secret now ttl tid)
    = (if operatorMac hmac secret ?p = operatorMac hmac secret' ?p then Some ?p else None)"
    unfolding signToken_def Let_def
    by (rule operatorTokens.open_any) (simp_all add: encodePayload_def operatorMac_def)
  then show ?thesis using payloadCurrent_session [OF assms] by (simp add: verifyToken_def Let_def)
qed

lemma check_signed:
  assumes "\<bar>now + ttl\<bar> < 10 ^ 21"
  shows "checkConsentTicket hmac secret' now' (signConsentTicket hmac secret b now ttl tid) b' tenantId \<longleftrightarrow>
    (let p = encodePayload (sessionPayload (now + ttl) tid) in ticketMac hmac secret b p = ticketMac hmac secret' b' p)
    \<and> tid = tenantId \<and> now' \<le> now + ttl"
proof -
  let ?p = "encodePayload (sessionPayload (now + ttl) tid)"
  have "openSigned CONSENT_TICKET_PREFIX (ticketMac hmac secret' b') (signConsentTicket hmac secret b now ttl tid)
    = (if ticketMac hmac secret b ?p = ticketMac hmac secret' b' ?p then Some ?p else None)"
    unfolding signConsentTicket_def Let_def
    by (rule consentTickets.open_any) (simp_all add: encodePayload_def ticketMac_def)
  then show ?thesis using payloadCurrent_session [OF assms] by (simp add: checkConsentTicket_def Let_def)
qed

lemma bindingMaterial_inject: "consentBindingMaterial b = consentBindingMaterial b' \<Longrightarrow> b = b'"
proof -
  let ?v = "\<lambda>b. JArr [JStr (cbClientId b), JStr (cbRedirectUri b), JStr (cbScope b), JStr (cbCodeChallenge b)]"
  assume "consentBindingMaterial b = consentBindingMaterial b'"
  then have "jsonParse (stringify (\<lambda>_. []) (?v b)) = jsonParse (stringify (\<lambda>_. []) (?v b'))"
    by (simp add: consentBindingMaterial_def)
  then have "?v b = ?v b'" using parse_stringify [of "?v b" "\<lambda>_. []"] parse_stringify [of "?v b'" "\<lambda>_. []"] by simp
  then show "b = b'" by (cases b, cases b') simp
qed

section \<open>Properties\<close>

text \<open>
  A consent ticket is good for the request it was signed for, in its tenant, up to and including its
  expiry; for any other client, redirect URI, scope list or challenge it is refused, unless two different
  messages have the same MAC under the secret.
\<close>

theorem consent_ticket_bound:
  assumes "\<bar>now + ttl\<bar> < 10 ^ 21"
  shows "(checkConsentTicket hmac secret now' (signConsentTicket hmac secret b now ttl tid) b tenantId \<longleftrightarrow> tid = tenantId \<and> now' \<le> now + ttl)
    \<and> (checkConsentTicket hmac secret now' (signConsentTicket hmac secret b now ttl tid) b' tenantId \<longrightarrow>
         b' = b \<or> (\<exists>m m'. m \<noteq> m' \<and> hmac (utf8 secret) m = hmac (utf8 secret) m'))"
proof -
  let ?p = "encodePayload (sessionPayload (now + ttl) tid)"
  let ?m = "\<lambda>b. utf8 (CONSENT_TICKET_PREFIX @ ''.'' @ ?p @ ''.'' @ consentBindingMaterial b)"
  have "b' = b \<or> (\<exists>m m'. m \<noteq> m' \<and> hmac (utf8 secret) m = hmac (utf8 secret) m')"
    if "ticketMac hmac secret b ?p = ticketMac hmac secret b' ?p"
  proof (cases "?m b = ?m b'")
    case True
    then show ?thesis using bindingMaterial_inject [of b b'] by simp
  next
    case False
    moreover have "hmac (utf8 secret) (?m b) = hmac (utf8 secret) (?m b')"
      using that unfolding ticketMac_def by (metis b64url_decode_encode)
    ultimately show ?thesis by blast
  qed
  then show ?thesis unfolding check_signed [OF assms] Let_def by blast
qed

theorem consent_ticket_bound_witness:
  "checkConsentTicket (\<lambda>k m. m) ''s'' 700 (signConsentTicket (\<lambda>k m. m) ''s'' \<lparr>cbClientId = ''c'', cbRedirectUri = ''u'', cbScope = ''x'',
      cbCodeChallenge = ''p''\<rparr> 100 600 ''t'') \<lparr>cbClientId = ''c'', cbRedirectUri = ''u'', cbScope = ''x'', cbCodeChallenge = ''p''\<rparr> ''t''
   \<and> \<not> checkConsentTicket (\<lambda>k m. m) ''s'' 701 (signConsentTicket (\<lambda>k m. m) ''s'' \<lparr>cbClientId = ''c'', cbRedirectUri = ''u'', cbScope = ''x'',
      cbCodeChallenge = ''p''\<rparr> 100 600 ''t'') \<lparr>cbClientId = ''c'', cbRedirectUri = ''u'', cbScope = ''x'', cbCodeChallenge = ''p''\<rparr> ''t''"
  using consent_ticket_bound [of 100 600 "\<lambda>k m. m"] by simp

text \<open>
  When no other request is looking up the secret, signing out everywhere ends every session: afterwards a
  token is accepted exactly when it verifies under the new secret, and a token signed before only if its
  MAC is the same under both.
\<close>

theorem sign_out_everywhere:
  assumes "revokeAllOperatorTokens random tenantId st = (st', True)" and "\<bar>now + ttl\<bar> < 10 ^ 21" and "random \<noteq> []"
  shows "(snd (verifyOperatorToken hmac (\<lambda>s. s) now' tenantId token st') \<longleftrightarrow> verifyToken hmac (to_hex random) now' token tenantId)
    \<and> (snd (verifyOperatorToken hmac (\<lambda>s. s) now' tenantId (signToken hmac old now ttl tid) st') \<longrightarrow>
         (let p = encodePayload (sessionPayload (now + ttl) tid) in operatorMac hmac old p = operatorMac hmac (to_hex random) p))"
proof -
  obtain c where "osCredential st' = Some c" "ocTokenSigningSecret c = to_hex random" "mget (osCache st') tenantId = None"
    using assms(1) by (auto simp: revokeAllOperatorTokens_def rotateOperatorTokenSigningSecret_def clearOperatorAuthCache_def Let_def
        split: option.splits)
  moreover have "to_hex random \<noteq> []" using assms(3) by (cases random) (auto simp: to_hex_def hex_byte_def)
  ultimately have eq: "snd (verifyOperatorToken hmac (\<lambda>s. s) now' tenantId t st') \<longleftrightarrow> verifyToken hmac (to_hex random) now' t tenantId" for t
    by (simp add: verifyOperatorToken_def signingSecret_def Let_def)
  then show ?thesis using verify_signed [OF assms(2), of hmac "to_hex random" now' old tid tenantId] by (auto simp: Let_def)
qed

theorem sign_out_everywhere_witness:
  "\<not> snd (verifyOperatorToken (\<lambda>k m. k) (\<lambda>s. s) 200 ''t'' (signToken (\<lambda>k m. k) ''old'' 100 600 ''t'')
       (fst (revokeAllOperatorTokens [7] ''t'' \<lparr>osCredential = Some \<lparr>ocPasswordHash = ''h'', ocTokenSigningSecret = ''old''\<rparr>, osCache = []\<rparr>)))"
proof -
  let ?st = "\<lparr>osCredential = Some \<lparr>ocPasswordHash = ''h'', ocTokenSigningSecret = ''old''\<rparr>, osCache = []\<rparr>"
  have r: "revokeAllOperatorTokens [7] ''t'' ?st = (fst (revokeAllOperatorTokens [7] ''t'' ?st), True)"
    by (simp add: revokeAllOperatorTokens_def rotateOperatorTokenSigningSecret_def Let_def)
  have "operatorMac (\<lambda>k m. k) ''old'' p \<noteq> operatorMac (\<lambda>k m. k) (to_hex [7]) p" for p
    unfolding operatorMac_def by code_simp
  moreover have "\<bar>100 + 600 :: millis\<bar> < 10 ^ 21" by simp
  ultimately show ?thesis
    using sign_out_everywhere [OF r, of 100 600 "\<lambda>k m. k" 200 "[]" "''old''" "''t''"] unfolding Let_def by blast
qed

text \<open>
  A lookup of the secret that has read the old one when everybody is signed out puts it back into the
  cache afterwards: sessions signed with the old secret are accepted until the cache is cleared again,
  although the stored secret is the new one.
\<close>

theorem stale_secret_survives_sign_out:
  assumes "osCredential st = Some c" "mget (osCache st) tenantId = None" "ocTokenSigningSecret c \<noteq> []"
    and "\<bar>now + ttl\<bar> < 10 ^ 21" "later \<le> now + ttl"
    and "signingSecret (\<lambda>s. fst (revokeAllOperatorTokens random tenantId s)) tenantId st = (st', secret)"
  shows "map_option ocTokenSigningSecret (osCredential st') = Some (to_hex random)
    \<and> snd (verifyOperatorToken hmac others later tenantId (signToken hmac (ocTokenSigningSecret c) now ttl tenantId) st')"
proof -
  have "mget (osCache st') tenantId = Some (Some (ocTokenSigningSecret c))"
    "map_option ocTokenSigningSecret (osCredential st') = Some (to_hex random)"
    using assms(1,2,6) by (auto simp: signingSecret_def revokeAllOperatorTokens_def rotateOperatorTokenSigningSecret_def
        clearOperatorAuthCache_def Let_def)
  then show ?thesis using assms(3,5) verify_signed [OF assms(4), of hmac "ocTokenSigningSecret c" later "ocTokenSigningSecret c" tenantId tenantId]
    by (simp add: verifyOperatorToken_def signingSecret_def Let_def)
qed

theorem stale_secret_survives_sign_out_witness:
  "snd (verifyOperatorToken (\<lambda>k m. k) (\<lambda>s. s) 200 ''t'' (signToken (\<lambda>k m. k) ''old'' 100 600 ''t'')
     (fst (signingSecret (\<lambda>s. fst (revokeAllOperatorTokens [7] ''t'' s)) ''t''
       \<lparr>osCredential = Some \<lparr>ocPasswordHash = ''h'', ocTokenSigningSecret = ''old''\<rparr>, osCache = []\<rparr>)))"
  using stale_secret_survives_sign_out [of "\<lparr>osCredential = Some \<lparr>ocPasswordHash = ''h'', ocTokenSigningSecret = ''old''\<rparr>, osCache = []\<rparr>"
    "\<lparr>ocPasswordHash = ''h'', ocTokenSigningSecret = ''old''\<rparr>" "''t''" 100 600 200 "[7]" _ _ "\<lambda>k m. k" "\<lambda>s. s", OF _ _ _ _ _ surjective_pairing]
  by simp

end
