(* ===== verification/OAuth.thy ===== *)
theory OAuth
  imports ApiKeys OperatorAuth
begin

text \<open>
  The OAuth authorization server: \<^verbatim>\<open>apps/control-plane/src/routes/oauth.ts\<close>, \<^verbatim>\<open>auth/oauthClients.ts\<close>,
  \<^verbatim>\<open>auth/oauthCodes.ts\<close>, \<^verbatim>\<open>data/oauth-grants.ts\<close> and \<^verbatim>\<open>packages/contracts/src/oauth-client.ts\<close>. A client is
  authorised by the operator (a code), redeems the code for a grant with an access key and a refresh
  token, rotates the refresh token, and loses everything when the grant or the client ends. Access keys
  live in the key table of \<^verbatim>\<open>ApiKeys\<close>. SHA-256, HMAC, random bytes, ids, the clock and the URL parser are
  parameters. Where a handler reads and later writes, what other transactions do in between is an
  argument. The HTML of the consent pages, the form-body parser, rate limits and the hosted store are
  not modelled.
\<close>

section \<open>State\<close>

record oauth_client =
  clRecipientTenantId :: string
  clClientId :: string
  clHashedSecret :: "string option"
  clName :: string
  clIsPublic :: bool
  clRedirectUris :: "string list"
  clAllowedScopes :: "string list"
  clDisabledAt :: "millis option"

record auth_code =
  coOwnerSubject :: string
  coCodeHash :: string
  coClientId :: string
  coRedirectUri :: string
  coScopes :: "string list"
  coConnectionGrants :: "string list"
  coCodeChallenge :: "string option"
  coExpiresAt :: millis
  coConsumedAt :: "millis option"

record oauth_grant =
  gtOwnerSubject :: string
  gtClientId :: string
  gtScopes :: "string list"
  gtConnectionGrants :: "string list"
  gtExpiresAt :: millis
  gtRevokedAt :: "millis option"

record refresh_token =
  rtTokenHash :: string
  rtGrantId :: string
  rtExpiresAt :: "millis option"
  rtConsumedAt :: "millis option"
  rtRevokedAt :: "millis option"

record audit_entry =
  auActorType :: string
  auActorId :: "string option"
  auAction :: string
  auTargetId :: string

record oauth_world =
  owRelay :: relay_world
  owClients :: "oauth_client jsmap"
  owCodes :: "auth_code jsmap"
  owGrants :: "oauth_grant jsmap"
  owRefresh :: "refresh_token jsmap"
  owAudit :: "audit_entry list"

type_synonym oauth_interference = "oauth_world \<Rightarrow> oauth_world"

definition writeAudit :: "string \<Rightarrow> string option \<Rightarrow> string \<Rightarrow> string \<Rightarrow> oauth_world \<Rightarrow> oauth_world" where
  "writeAudit actorType actorId action targetId w =
     w\<lparr>owAudit := owAudit w @ [\<lparr>auActorType = actorType, auActorId = actorId, auAction = action, auTargetId = targetId\<rparr>]\<rparr>"

section \<open>Codes and PKCE\<close>

definition CODE_PREFIX :: string where
  "CODE_PREFIX = ''acoc_''"

definition REFRESH_PREFIX :: string where
  "REFRESH_PREFIX = ''acrt_''"

definition AUTHORIZATION_CODE_TTL_MS :: millis where
  "AUTHORIZATION_CODE_TTL_MS = 5 * 60 * 1000"

definition hashCode :: "digest \<Rightarrow> string \<Rightarrow> string" where
  "hashCode sha plaintext = to_hex (sha plaintext)"

definition generateAuthorizationCode :: "digest \<Rightarrow> byte list \<Rightarrow> string \<times> string" where
  "generateAuthorizationCode sha random =
     (let plaintext = CODE_PREFIX @ b64url_encode random in (plaintext, hashCode sha plaintext))"

definition generateRefreshToken :: "digest \<Rightarrow> byte list \<Rightarrow> string \<times> string" where
  "generateRefreshToken sha random =
     (let plaintext = REFRESH_PREFIX @ b64url_encode random in (plaintext, hashCode sha plaintext))"

definition isValidPkceVerifier :: "string \<Rightarrow> bool" where
  "isValidPkceVerifier v =
     (43 \<le> length v \<and> length v \<le> 128 \<and> list_all (\<lambda>c. is_alpha c \<or> is_digit c \<or> c \<in> set ''-._~'') v)"

definition verifyPkceS256 :: "digest \<Rightarrow> string \<Rightarrow> string \<Rightarrow> bool" where
  "verifyPkceS256 sha verifier challenge =
     (if \<not> isValidPkceVerifier verifier then False
      else utf8 (b64url_encode (sha verifier)) = utf8 challenge)"

section \<open>Clients\<close>

definition CLIENT_ID_PREFIX :: string where
  "CLIENT_ID_PREFIX = ''accl_''"

definition CLIENT_SECRET_PREFIX :: string where
  "CLIENT_SECRET_PREFIX = ''acls_''"

definition hashClientSecret :: "digest \<Rightarrow> string \<Rightarrow> string" where
  "hashClientSecret sha plaintext = to_hex (sha plaintext)"

record client_input =
  ciName :: string
  ciRecipientTenantId :: "string option"
  ciRedirectUris :: "string list"
  ciAllowedScopes :: "string list"
  ciIsPublic :: bool

definition clientRow :: "string \<Rightarrow> string option \<Rightarrow> client_input \<Rightarrow> oauth_client" where
  "clientRow clientId hashedSecret input =
     \<lparr>clRecipientTenantId = (case ciRecipientTenantId input of Some t \<Rightarrow> t | None \<Rightarrow> ''self-hosted''),
      clClientId = clientId, clHashedSecret = hashedSecret, clName = ciName input, clIsPublic = ciIsPublic input,
      clRedirectUris = ciRedirectUris input, clAllowedScopes = ciAllowedScopes input, clDisabledAt = None\<rparr>"

definition createOauthClient ::
  "digest \<Rightarrow> byte list \<Rightarrow> byte list \<Rightarrow> string \<Rightarrow> client_input \<Rightarrow> string option \<Rightarrow> oauth_world
     \<Rightarrow> string + oauth_world \<times> string \<times> string \<times> string option" where
  "createOauthClient sha idRandom secretRandom newId input actor w =
     (let clientId = CLIENT_ID_PREFIX @ b64url_encode idRandom;
          clientSecret = (if ciIsPublic input then None else Some (CLIENT_SECRET_PREFIX @ b64url_encode secretRandom));
          hashedSecret = map_option (hashClientSecret sha) clientSecret
      in if mhas (owClients w) newId \<or> (\<exists>(i, c) \<in> set (owClients w). clClientId c = clientId)
         then Inl ''duplicate key value violates unique constraint''
         else Inr (writeAudit ''operator'' actor ''oauth_client.create'' newId
                     (w\<lparr>owClients := mput newId (clientRow clientId hashedSecret input) (owClients w)\<rparr>),
                   newId, clientId, clientSecret))"

definition sameRegistration :: "oauth_client \<Rightarrow> client_input \<Rightarrow> bool" where
  "sameRegistration existing input =
     (clDisabledAt existing = None
      \<and> clRecipientTenantId existing = (case ciRecipientTenantId input of Some t \<Rightarrow> t | None \<Rightarrow> ''self-hosted'')
      \<and> clName existing = ciName input \<and> clIsPublic existing = ciIsPublic input
      \<and> clRedirectUris existing = ciRedirectUris input \<and> clAllowedScopes existing = ciAllowedScopes input)"

definition derivedCredential :: "mac_fun \<Rightarrow> string \<Rightarrow> string \<Rightarrow> string \<Rightarrow> string \<Rightarrow> string" where
  "derivedCredential hmac secret purpose recipientTenantId idempotencyKey =
     b64url_encode (hmac (utf8 secret)
       (utf8 (''oauth-registration-'' @ purpose @ ''-v1'' @ [CHR 0x00] @ recipientTenantId @ [CHR 0x00] @ idempotencyKey)))"

definition createOauthClientIdempotently ::
  "mac_fun \<Rightarrow> digest \<Rightarrow> string \<Rightarrow> client_input \<Rightarrow> string \<Rightarrow> string \<Rightarrow> string \<Rightarrow> string option \<Rightarrow> oauth_world
     \<Rightarrow> string + oauth_world \<times> string \<times> string \<times> string option \<times> bool" where
  "createOauthClientIdempotently hmac sha newId input tenant idempotencyKey derivationSecret actor w =
     (let input = input\<lparr>ciRecipientTenantId := Some tenant\<rparr>;
          clientId = CLIENT_ID_PREFIX @ derivedCredential hmac derivationSecret ''client-id'' tenant idempotencyKey;
          clientSecret = (if ciIsPublic input then None
            else Some (CLIENT_SECRET_PREFIX @ derivedCredential hmac derivationSecret ''client-secret'' tenant idempotencyKey));
          hashedSecret = map_option (hashClientSecret sha) clientSecret
      in case find (\<lambda>(i, c). clClientId c = clientId) (owClients w) of
           None \<Rightarrow>
             if mhas (owClients w) newId then Inl ''duplicate key value violates unique constraint''
             else Inr (writeAudit ''operator'' actor ''oauth_client.create'' newId
                         (w\<lparr>owClients := mput newId (clientRow clientId hashedSecret input) (owClients w)\<rparr>),
                       newId, clientId, clientSecret, True)
         | Some (i, existing) \<Rightarrow>
             if \<not> sameRegistration existing input then Inl ''Idempotency key was reused for different metadata''
             else Inr (w, i, clientId, clientSecret, False))"

definition getOauthClient :: "string \<Rightarrow> oauth_world \<Rightarrow> (string \<times> oauth_client) option" where
  "getOauthClient clientId w = find (\<lambda>(i, c). clClientId c = clientId) (owClients w)"

definition listOauthClients :: "string option \<Rightarrow> oauth_world \<Rightarrow> (string \<times> oauth_client) list" where
  "listOauthClients recipientTenantId w =
     filter (\<lambda>(i, c). (case recipientTenantId of None \<Rightarrow> True | Some t \<Rightarrow> clRecipientTenantId c = t) \<and> clDisabledAt c = None)
       (owClients w)"

definition verifyClientSecret :: "digest \<Rightarrow> string \<Rightarrow> string option \<Rightarrow> bool" where
  "verifyClientSecret sha presented storedHash =
     (truthy storedHash \<and> hashClientSecret sha presented = the storedHash)"

text \<open>Deleting a grant cascades to the keys and refresh tokens issued under it.\<close>

definition deleteGrantsWhere :: "(string \<Rightarrow> oauth_grant \<Rightarrow> bool) \<Rightarrow> oauth_world \<Rightarrow> oauth_world" where
  "deleteGrantsWhere p w =
     (let gone = matching p (owGrants w)
      in w\<lparr>owGrants := filter (\<lambda>(i, g). \<not> p i g) (owGrants w),
           owRefresh := filter (\<lambda>(i, t). rtGrantId t \<notin> set gone) (owRefresh w),
           owRelay := (owRelay w)\<lparr>ryKeys := filter (\<lambda>(i, k). case akGrantId k of None \<Rightarrow> True | Some g \<Rightarrow> g \<notin> set gone)
                                             (ryKeys (owRelay w))\<rparr>\<rparr>)"

definition disableOauthClient ::
  "millis \<Rightarrow> string \<Rightarrow> string option \<Rightarrow> string option \<Rightarrow> oauth_world \<Rightarrow> oauth_world \<times> bool" where
  "disableOauthClient now cid recipientTenantId actor w =
     (let p = (\<lambda>i c. i = cid \<and> (case recipientTenantId of None \<Rightarrow> True | Some t \<Rightarrow> clRecipientTenantId c = t) \<and> clDisabledAt c = None)
      in if length (matching p (owClients w)) \<noteq> 1 then (w, False)
         else let w1 = w\<lparr>owClients := updateRows p (\<lambda>c. c\<lparr>clDisabledAt := Some now\<rparr>) (owClients w)\<rparr>;
                  w2 = w1\<lparr>owCodes := filter (\<lambda>(i, a). coClientId a \<noteq> cid) (owCodes w1)\<rparr>;
                  w3 = deleteGrantsWhere (\<lambda>i g. gtClientId g = cid) w2
              in (writeAudit ''operator'' actor ''oauth_client.delete'' cid w3, True))"

section \<open>Redirect URIs and scopes\<close>

record redirect_url =
  ruProtocol :: string
  ruHostname :: string
  ruPathname :: string
  ruSearch :: string
  ruHash :: string
  ruUsername :: string
  ruPassword :: string

definition isLoopback :: "redirect_url \<Rightarrow> bool" where
  "isLoopback u = (ruHostname u = ''localhost'' \<or> ruHostname u = ''127.0.0.1'' \<or> ruHostname u = ''[::1]'')"

definition isAllowedOauthRedirectUri :: "(string \<Rightarrow> redirect_url option) \<Rightarrow> string \<Rightarrow> bool" where
  "isAllowedOauthRedirectUri parseUrl raw =
     (case parseUrl raw of
        None \<Rightarrow> False
      | Some u \<Rightarrow>
          if ruHash u \<noteq> [] \<or> ruUsername u \<noteq> [] \<or> ruPassword u \<noteq> [] then False
          else ruProtocol u = ''https:'' \<or> (ruProtocol u = ''http:'' \<and> isLoopback u))"

definition oauthRedirectUriMatches :: "(string \<Rightarrow> redirect_url option) \<Rightarrow> string \<Rightarrow> string \<Rightarrow> bool" where
  "oauthRedirectUriMatches parseUrl registered presented =
     (if registered = presented then True
      else case (parseUrl registered, parseUrl presented) of
             (Some expected, Some actual) \<Rightarrow>
               isLoopback expected \<and> isAllowedOauthRedirectUri parseUrl registered
               \<and> isAllowedOauthRedirectUri parseUrl presented \<and> ruProtocol expected = ruProtocol actual
               \<and> ruHostname expected = ruHostname actual \<and> ruPathname expected = ruPathname actual
               \<and> ruSearch expected = ruSearch actual
           | _ \<Rightarrow> False)"

text \<open>\<^verbatim>\<open>(raw ?? '').split(/\s+/).filter(Boolean)\<close>: the maximal runs without white space.\<close>

function words :: "string \<Rightarrow> string list" where
  "words [] = []"
| "words (c # s) =
     (if is_space c then words s
      else (c # takeWhile (\<lambda>x. \<not> is_space x) s) # words (dropWhile (\<lambda>x. \<not> is_space x) s))"
  by pat_completeness auto

termination
  by (relation "measure length") (auto simp: le_imp_less_Suc length_dropWhile_le)

definition resolveScopes :: "string option \<Rightarrow> oauth_client \<Rightarrow> string list option" where
  "resolveScopes raw client =
     (let requested = words (case raw of None \<Rightarrow> [] | Some s \<Rightarrow> s)
      in if requested = [] then None
         else if list_all (\<lambda>s. s \<in> set API_SCOPES \<and> s \<in> set (clAllowedScopes client)) requested then Some requested
         else None)"

section \<open>Client authentication\<close>

datatype client_auth = AuthFailed string | AuthOk string oauth_client

text \<open>\<^verbatim>\<open>decodeURIComponent\<close>: \<open>None\<close> where it throws.\<close>

fun percentBytes :: "string \<Rightarrow> byte list option" where
  "percentBytes [] = Some []"
| "percentBytes (c # s) =
     (if c = CHR ''%'' then
        (case s of
           a # b # r \<Rightarrow>
             (case (hexDigit a, hexDigit b) of
                (Some x, Some y) \<Rightarrow> map_option (\<lambda>bs. of_nat (x * 16 + y) # bs) (percentBytes r)
              | _ \<Rightarrow> None)
         | _ \<Rightarrow> None)
      else map_option (\<lambda>bs. utf8_char c @ bs) (percentBytes s))"

definition decodeURIComponent :: "string \<Rightarrow> string option" where
  "decodeURIComponent s = Option.bind (percentBytes s) utf8_decode"

definition is_base64_char :: "char \<Rightarrow> bool" where
  "is_base64_char c = (is_alpha c \<or> is_digit c \<or> c = CHR ''+'' \<or> c = CHR ''/'')"

text \<open>\<^verbatim>\<open>/^Basic[ \t]+([A-Za-z0-9+/]+={0,2})$/i\<close>: the encoded group.\<close>

definition basicGroup :: "string \<Rightarrow> string option" where
  "basicGroup authz =
     (if to_lower (take 5 authz) \<noteq> ''basic'' then None
      else let r = drop 5 authz; body = dropWhile (\<lambda>c. c = CHR '' '' \<or> c = CHR 0x09) r;
               core = takeWhile is_base64_char body; tail = dropWhile is_base64_char body
           in if body = r \<or> core = [] \<or> tail \<notin> {[], ''='', ''==''} then None else Some body)"

definition stripPadding :: "string \<Rightarrow> string" where
  "stripPadding s = rev (dropWhile (\<lambda>c. c = CHR ''='') (rev s))"

text \<open>The identifier and the secret of a Basic header; \<open>None\<close> for malformed credentials.\<close>

definition basicCredentials :: "string \<Rightarrow> (string \<times> string) option" where
  "basicCredentials authz =
     Option.bind (basicGroup authz) (\<lambda>encoded.
       let decodedBytes = base64_decode encoded in
       if stripPadding (base64_encode decodedBytes) \<noteq> stripPadding encoded then None
       else Option.bind (utf8_decode decodedBytes) (\<lambda>decoded.
         if CHR '':'' \<notin> set decoded then None
         else let ident = takeWhile (\<lambda>c. c \<noteq> CHR '':'') decoded; secret = drop (Suc (length ident)) decoded
              in Option.bind (decodeURIComponent ident) (\<lambda>clientId.
                 map_option (\<lambda>clientSecret. (clientId, clientSecret)) (decodeURIComponent secret))))"

definition authenticateOauthClient ::
  "digest \<Rightarrow> string option \<Rightarrow> string option \<Rightarrow> string option \<Rightarrow> oauth_world \<Rightarrow> client_auth" where
  "authenticateOauthClient sha authz bodyClientId bodyClientSecret w =
     (let presented = (case authz of
            None \<Rightarrow> Some (bodyClientId, bodyClientSecret)
          | Some a \<Rightarrow>
              if bodyClientId \<noteq> None \<or> bodyClientSecret \<noteq> None then None
              else map_option (\<lambda>(i, s). (Some i, Some s)) (basicCredentials a))
      in case presented of
           None \<Rightarrow> AuthFailed ''client authentication required''
         | Some (clientId, clientSecret) \<Rightarrow>
             if \<not> truthy clientId then AuthFailed ''client authentication required''
             else case getOauthClient (the clientId) w of
                    None \<Rightarrow> AuthFailed ''unknown client''
                  | Some (i, client) \<Rightarrow>
                      if clDisabledAt client \<noteq> None then AuthFailed ''unknown client''
                      else if clIsPublic client
                      then (if truthy clientSecret then AuthFailed ''public client must not present a secret'' else AuthOk i client)
                      else if \<not> verifyClientSecret sha (case clientSecret of None \<Rightarrow> [] | Some s \<Rightarrow> s) (clHashedSecret client)
                      then AuthFailed ''bad client credentials''
                      else AuthOk i client)"

section \<open>The consent screen\<close>

definition OAUTH_GRANT_TTL_MS :: millis where
  "OAUTH_GRANT_TTL_MS = 90 * 24 * 60 * 60 * 1000"

definition OAUTH_ACCESS_TOKEN_TTL_MS :: millis where
  "OAUTH_ACCESS_TOKEN_TTL_MS = 60 * 60 * 1000"

definition CONSENT_TICKET_TTL_MS :: millis where
  "CONSENT_TICKET_TTL_MS = 10 * 60 * 1000"

text \<open>
  What the browser receives: an error page, a redirect to the client with its parameters, the sign-in
  page, or the picker with the connections it shows and the ticket it carries.
\<close>

datatype page =
    ErrorPage nat string
  | Redirect string "(string \<times> string) list"
  | SignInPage nat
  | Picker nat "string list" string
  | ServerError string

definition redirectWith :: "string \<Rightarrow> (string \<times> string option) list \<Rightarrow> page" where
  "redirectWith redirectUri params =
     Redirect redirectUri (map (\<lambda>(k, v). (k, the v)) (filter (\<lambda>(k, v). truthy v) params))"

record tenant =
  tnId :: string
  tnIdentityAssertionSecret :: "string option"

record consent_request =
  crClientId :: "string option"
  crRedirectUri :: "string option"
  crResponseType :: "string option"
  crState :: "string option"
  crScope :: "string option"
  crCodeChallenge :: "string option"
  crCodeChallengeMethod :: "string option"
  crDecision :: "string option"
  crPassword :: "string option"
  crConsentTicket :: "string option"
  crGrantAll :: "string option"
  crConnectionGrants :: "string list"
  crOperator :: bool
  crOperatorSubject :: "string option"

definition ownedConnections :: "string \<Rightarrow> oauth_world \<Rightarrow> string list" where
  "ownedConnections ownerSubject w =
     map fst (filter (\<lambda>(i, c). rcOwnerSubject c = ownerSubject) (ryConnections (owRelay w)))"

definition registeredRedirect :: "(string \<Rightarrow> redirect_url option) \<Rightarrow> oauth_client \<Rightarrow> string \<Rightarrow> bool" where
  "registeredRedirect parseUrl client redirectUri =
     list_ex (\<lambda>registered. oauthRedirectUriMatches parseUrl registered redirectUri) (clRedirectUris client)"

definition scopeText :: "string list \<Rightarrow> string" where
  "scopeText scopes = join '' '' scopes"

definition pickerFor ::
  "mac_fun \<Rightarrow> (operator_state \<Rightarrow> operator_state) \<Rightarrow> tenant \<Rightarrow> millis \<Rightarrow> consent_binding \<Rightarrow> string \<Rightarrow> oauth_world
     \<Rightarrow> operator_state \<Rightarrow> operator_state \<times> page" where
  "pickerFor hmac others tn now binding ownerSubject w st =
     (case mintConsentTicket hmac others (tnIdentityAssertionSecret tn) now CONSENT_TICKET_TTL_MS (tnId tn) binding st of
        (st', Inl e) \<Rightarrow> (st', ServerError e)
      | (st', Inr ticket) \<Rightarrow> (st', Picker 200 (ownedConnections ownerSubject w) ticket))"

text \<open>\<^verbatim>\<open>GET /oauth/authorize\<close>.\<close>

definition authorizeEndpoint ::
  "mac_fun \<Rightarrow> (string \<Rightarrow> redirect_url option) \<Rightarrow> (operator_state \<Rightarrow> operator_state) \<Rightarrow> tenant \<Rightarrow> bool \<Rightarrow> millis
     \<Rightarrow> consent_request \<Rightarrow> oauth_world \<Rightarrow> operator_state \<Rightarrow> operator_state \<times> page" where
  "authorizeEndpoint hmac parseUrl others tn hostedCell now q w st =
     (if \<not> truthy (crClientId q) \<or> \<not> truthy (crRedirectUri q) then (st, ErrorPage 400 ''Invalid request'')
      else let redirectUri = the (crRedirectUri q); back = (\<lambda>ps. redirectWith redirectUri (ps @ [(''state'', crState q)])) in
      case getOauthClient (the (crClientId q)) w of
        None \<Rightarrow> (st, ErrorPage 400 ''Unknown application'')
      | Some (cid, client) \<Rightarrow>
          if clDisabledAt client \<noteq> None then (st, ErrorPage 400 ''Unknown application'')
          else if \<not> registeredRedirect parseUrl client redirectUri then (st, ErrorPage 400 ''Invalid redirect_uri'')
          else if crResponseType q \<noteq> Some ''code'' then (st, back [(''error'', Some ''unsupported_response_type'')])
          else if \<not> truthy (crCodeChallenge q)
          then (st, back [(''error'', Some ''invalid_request''), (''error_description'', Some ''code_challenge (PKCE S256) is required'')])
          else if crCodeChallengeMethod q \<noteq> Some ''S256''
          then (st, back [(''error'', Some ''invalid_request''), (''error_description'', Some ''only PKCE S256 is supported'')])
          else case resolveScopes (crScope q) client of
                 None \<Rightarrow> (st, back [(''error'', Some ''invalid_scope'')])
               | Some scopes \<Rightarrow>
                   if crOperator q
                   then pickerFor hmac others tn now
                          \<lparr>cbClientId = clClientId client, cbRedirectUri = redirectUri, cbScope = scopeText scopes,
                           cbCodeChallenge = the (crCodeChallenge q)\<rparr> (case crOperatorSubject q of Some s \<Rightarrow> s | None \<Rightarrow> []) w st
                   else if hostedCell then (st, ErrorPage 401 ''Sign in required'')
                   else (st, SignInPage 200))"

text \<open>\<^verbatim>\<open>POST /oauth/authorize/decision\<close>, from the ticket on: the connections granted and the code.\<close>

definition approveConsent ::
  "digest \<Rightarrow> byte list \<Rightarrow> string \<Rightarrow> millis \<Rightarrow> consent_request \<Rightarrow> string \<Rightarrow> string \<Rightarrow> string list \<Rightarrow> oauth_world
     \<Rightarrow> oauth_world \<times> page" where
  "approveConsent sha random newId now b ownerSubject cid scopes w =
     (let conns = ownedConnections ownerSubject w;
          connectionGrants = (if crGrantAll b = Some ''on'' then conns
                              else filter (\<lambda>i. i \<in> set conns) (crConnectionGrants b))
      in if connectionGrants = [] then (w, Picker 400 conns (or_else (crConsentTicket b) []))
         else let (code, codeHash) = generateAuthorizationCode sha random
              in if mhas (owCodes w) newId \<or> (\<exists>(i, a) \<in> set (owCodes w). coCodeHash a = codeHash)
                 then (w, ServerError ''duplicate key value violates unique constraint'')
                 else (writeAudit ''operator'' (crOperatorSubject b) ''oauth.authorize'' cid
                         (w\<lparr>owCodes := mput newId
                            \<lparr>coOwnerSubject = ownerSubject, coCodeHash = codeHash, coClientId = cid,
                             coRedirectUri = the (crRedirectUri b), coScopes = scopes, coConnectionGrants = connectionGrants,
                             coCodeChallenge = crCodeChallenge b, coExpiresAt = now + AUTHORIZATION_CODE_TTL_MS,
                             coConsumedAt = None\<rparr> (owCodes w)\<rparr>),
                       redirectWith (the (crRedirectUri b)) [(''code'', Some code), (''state'', crState b)]))"

definition decisionEndpoint ::
  "mac_fun \<Rightarrow> digest \<Rightarrow> (string \<Rightarrow> string \<Rightarrow> bool) \<Rightarrow> (string \<Rightarrow> redirect_url option) \<Rightarrow> (operator_state \<Rightarrow> operator_state)
     \<Rightarrow> tenant \<Rightarrow> bool \<Rightarrow> byte list \<Rightarrow> string \<Rightarrow> millis \<Rightarrow> consent_request \<Rightarrow> oauth_world \<Rightarrow> operator_state
     \<Rightarrow> oauth_world \<times> operator_state \<times> page" where
  "decisionEndpoint hmac sha verifyPassword parseUrl others tn hostedCell random newId now b w st =
     (let owner = (case crOperatorSubject b of
                     Some s \<Rightarrow> Some s | None \<Rightarrow> if hostedCell then None else Some SELF_HOSTED_OPERATOR_SUBJECT) in
      if \<not> truthy (crClientId b) \<or> \<not> truthy (crRedirectUri b) then (w, st, ErrorPage 400 ''Invalid request'')
      else if \<not> truthy owner then (w, st, ErrorPage 401 ''Sign in required'')
      else let redirectUri = the (crRedirectUri b); back = (\<lambda>ps. redirectWith redirectUri (ps @ [(''state'', crState b)])) in
      case getOauthClient (the (crClientId b)) w of
        None \<Rightarrow> (w, st, ErrorPage 400 ''Unknown application'')
      | Some (cid, client) \<Rightarrow>
          if clDisabledAt client \<noteq> None then (w, st, ErrorPage 400 ''Unknown application'')
          else if \<not> registeredRedirect parseUrl client redirectUri then (w, st, ErrorPage 400 ''Invalid redirect_uri'')
          else if crDecision b = Some ''deny'' then (w, st, back [(''error'', Some ''access_denied'')])
          else case resolveScopes (crScope b) client of
                 None \<Rightarrow> (w, st, back [(''error'', Some ''invalid_scope'')])
               | Some scopes \<Rightarrow>
                   if \<not> truthy (crCodeChallenge b)
                   then (w, st, back [(''error'', Some ''invalid_request''), (''error_description'', Some ''code_challenge (PKCE S256) is required'')])
                   else if crCodeChallengeMethod b \<noteq> Some ''S256''
                   then (w, st, back [(''error'', Some ''invalid_request''), (''error_description'', Some ''only PKCE S256 is supported'')])
                   else let binding = \<lparr>cbClientId = clClientId client, cbRedirectUri = redirectUri, cbScope = scopeText scopes,
                                       cbCodeChallenge = the (crCodeChallenge b)\<rparr> in
                        if \<not> truthy (crConsentTicket b) \<and> \<not> crOperator b
                        then (if \<not> verifyOperatorPassword verifyPassword (case crPassword b of Some s \<Rightarrow> s | None \<Rightarrow> []) st
                              then (w, st, SignInPage 401)
                              else (case pickerFor hmac others tn now binding (the owner) w st of (st', p) \<Rightarrow> (w, st', p)))
                        else if \<not> truthy (crConsentTicket b) then (w, st, back [(''error'', Some ''invalid_request'')])
                        else (case verifyConsentTicket hmac others (tnIdentityAssertionSecret tn) now (tnId tn)
                                     (the (crConsentTicket b)) binding st of
                                (st', ok) \<Rightarrow>
                                  if \<not> ok then (w, st', SignInPage 401)
                                  else (case approveConsent sha random newId now b (the owner) cid scopes w of
                                          (w', p) \<Rightarrow> (w', st', p))))"

section \<open>Tokens\<close>

record token_response =
  tpAccessToken :: string
  tpExpiresIn :: int
  tpRefreshToken :: string
  tpScope :: string

definition accessTokenExpiry :: "millis \<Rightarrow> millis \<Rightarrow> millis" where
  "accessTokenExpiry grantExpiresAt now = min (now + OAUTH_ACCESS_TOKEN_TTL_MS) grantExpiresAt"

definition oauthTokenResponse :: "string \<Rightarrow> string \<Rightarrow> oauth_grant \<Rightarrow> millis \<Rightarrow> millis \<Rightarrow> token_response" where
  "oauthTokenResponse accessToken refreshToken grant accessExpiresAt now =
     \<lparr>tpAccessToken = accessToken, tpExpiresIn = max 0 ((min accessExpiresAt (gtExpiresAt grant) - now) div 1000),
      tpRefreshToken = refreshToken, tpScope = scopeText (gtScopes grant)\<rparr>"

record token_material =
  tmAccessRandom :: "byte list"
  tmRefreshRandom :: "byte list"
  tmKeyId :: string
  tmRefreshId :: string
  tmGrantId :: string

definition issueTokensForGrant ::
  "digest \<Rightarrow> token_material \<Rightarrow> millis \<Rightarrow> oauth_client \<Rightarrow> string \<Rightarrow> oauth_grant \<Rightarrow> oauth_world
     \<Rightarrow> string + oauth_world \<times> token_response" where
  "issueTokensForGrant sha m now client grantId grant w =
     (if \<not> mhas (owGrants w) grantId then Inl ''insert or update violates foreign key constraint''
      else case createApiKey sha (tmAccessRandom m) (tmKeyId m) now
                  \<lparr>kiName = ''oauth:'' @ clName client, kiScopes = gtScopes grant, kiConnectionGrants = gtConnectionGrants grant,
                   kiOwnerSubject = Some (gtOwnerSubject grant), kiExpiresAt = Some (accessTokenExpiry (gtExpiresAt grant) now),
                   kiGrantId = Some grantId, kiDeviceId = None\<rparr> (owRelay w) of
             Inl e \<Rightarrow> Inl e
           | Inr (r, kid, accessToken) \<Rightarrow>
               let (refreshToken, tokenHash) = generateRefreshToken sha (tmRefreshRandom m)
               in if mhas (owRefresh w) (tmRefreshId m) \<or> (\<exists>(i, t) \<in> set (owRefresh w). rtTokenHash t = tokenHash)
                  then Inl ''duplicate key value violates unique constraint''
                  else Inr (w\<lparr>owRelay := r, owRefresh := mput (tmRefreshId m)
                                \<lparr>rtTokenHash = tokenHash, rtGrantId = grantId, rtExpiresAt = Some (gtExpiresAt grant),
                                 rtConsumedAt = None, rtRevokedAt = None\<rparr> (owRefresh w)\<rparr>,
                            oauthTokenResponse accessToken refreshToken grant (accessTokenExpiry (gtExpiresAt grant) now) now))"

datatype token_reply = TokenError nat string string | Tokens token_response | TokenRaised string

text \<open>The checks of a code before the transaction, in their order.\<close>

definition checkAuthorizationCode ::
  "digest \<Rightarrow> millis \<Rightarrow> string \<Rightarrow> string \<Rightarrow> string option \<Rightarrow> string option \<Rightarrow> oauth_world \<Rightarrow> string + string \<times> auth_code" where
  "checkAuthorizationCode sha now cid code redirectUri codeVerifier w =
     (case find (\<lambda>(i, a). coCodeHash a = hashCode sha code) (owCodes w) of
        None \<Rightarrow> Inl ''invalid authorization code''
      | Some (aid, ac) \<Rightarrow>
          if coClientId ac \<noteq> cid then Inl ''invalid authorization code''
          else if coConsumedAt ac \<noteq> None then Inl ''authorization code already used''
          else if coExpiresAt ac \<le> now then Inl ''authorization code expired''
          else if redirectUri \<noteq> Some (coRedirectUri ac) then Inl ''redirect_uri mismatch''
          else if \<not> truthy (coCodeChallenge ac) \<or> \<not> truthy codeVerifier
                  \<or> \<not> verifyPkceS256 sha (the codeVerifier) (the (coCodeChallenge ac))
          then Inl ''PKCE verification failed''
          else Inr (aid, ac))"

text \<open>
  The transaction: consume the code, create the grant, mint both tokens, write the audit row. \<open>None\<close>
  when the code was consumed in the meantime; an exception leaves everything as it was.
\<close>

definition redeemAuthorizationCode ::
  "digest \<Rightarrow> token_material \<Rightarrow> millis \<Rightarrow> string \<Rightarrow> oauth_client \<Rightarrow> string \<Rightarrow> auth_code \<Rightarrow> oauth_world
     \<Rightarrow> string + oauth_world \<times> token_response option" where
  "redeemAuthorizationCode sha m now cid client aid ac w =
     (let unused = (\<lambda>i a. i = aid \<and> coConsumedAt a = None) in
      if matching unused (owCodes w) = [] then Inr (w, None)
      else let w1 = w\<lparr>owCodes := updateRows unused (\<lambda>a. a\<lparr>coConsumedAt := Some now\<rparr>) (owCodes w)\<rparr>;
               grant = \<lparr>gtOwnerSubject = coOwnerSubject ac, gtClientId = cid, gtScopes = coScopes ac,
                        gtConnectionGrants = coConnectionGrants ac, gtExpiresAt = now + OAUTH_GRANT_TTL_MS, gtRevokedAt = None\<rparr>
           in if mhas (owGrants w1) (tmGrantId m) then Inl ''duplicate key value violates unique constraint''
              else case issueTokensForGrant sha m now client (tmGrantId m) grant
                          (w1\<lparr>owGrants := mput (tmGrantId m) grant (owGrants w1)\<rparr>) of
                     Inl e \<Rightarrow> Inl e
                   | Inr (w2, tokens) \<Rightarrow>
                       Inr (writeAudit ''oauth_client'' (Some cid) ''oauth.token_issued'' (tmGrantId m) w2, Some tokens))"

definition updateGrants :: "(string \<Rightarrow> oauth_grant \<Rightarrow> bool) \<Rightarrow> (oauth_grant \<Rightarrow> oauth_grant) \<Rightarrow> oauth_world \<Rightarrow> oauth_world" where
  "updateGrants p f w = w\<lparr>owGrants := updateRows p f (owGrants w)\<rparr>"

text \<open>The updates that end a grant: the grant itself, its keys and its refresh tokens.\<close>

definition revokeIssued :: "millis \<Rightarrow> string \<Rightarrow> oauth_world \<Rightarrow> oauth_world" where
  "revokeIssued now grantId w =
     w\<lparr>owRelay := updateKeys (\<lambda>i k. akGrantId k = Some grantId \<and> akRevokedAt k = None)
                    (\<lambda>k. k\<lparr>akRevokedAt := Some now\<rparr>) (owRelay w),
       owRefresh := updateRows (\<lambda>i t. rtGrantId t = grantId \<and> rtRevokedAt t = None)
                      (\<lambda>t. t\<lparr>rtRevokedAt := Some now\<rparr>) (owRefresh w)\<rparr>"

definition revokeForReuse :: "millis \<Rightarrow> string \<Rightarrow> string \<Rightarrow> oauth_world \<Rightarrow> oauth_world" where
  "revokeForReuse now cid grantId w =
     writeAudit ''oauth_client'' (Some cid) ''oauth.refresh_reuse'' grantId
       (revokeIssued now grantId
         (updateGrants (\<lambda>i g. i = grantId \<and> gtRevokedAt g = None) (\<lambda>g. g\<lparr>gtRevokedAt := Some now\<rparr>) w))"

datatype revoke_outcome = GrantRevoked | AlreadyRevoked | GrantNotFound

definition revokeGrant :: "millis \<Rightarrow> string \<Rightarrow> string option \<Rightarrow> oauth_world \<Rightarrow> oauth_world \<times> revoke_outcome" where
  "revokeGrant now grantId ownerSubject w =
     (let own = (\<lambda>i g. i = grantId \<and> (truthy ownerSubject \<longrightarrow> Some (gtOwnerSubject g) = ownerSubject)) in
      if matching own (owGrants w) = [] then (w, GrantNotFound)
      else let flip = (\<lambda>i g. own i g \<and> gtRevokedAt g = None)
           in (revokeIssued now grantId (updateGrants flip (\<lambda>g. g\<lparr>gtRevokedAt := Some now\<rparr>) w),
               if matching flip (owGrants w) \<noteq> [] then GrantRevoked else AlreadyRevoked))"

text \<open>The reads of a refresh and their checks, in their order.\<close>

definition checkRefreshToken ::
  "digest \<Rightarrow> millis \<Rightarrow> string \<Rightarrow> string \<Rightarrow> oauth_world \<Rightarrow> string + (string \<times> refresh_token) \<times> oauth_grant" where
  "checkRefreshToken sha now cid presented w =
     (case find (\<lambda>(i, t). rtTokenHash t = hashCode sha presented) (owRefresh w) of
        None \<Rightarrow> Inl ''Your sign-in session is invalid. Sign in again.''
      | Some (rid, rt) \<Rightarrow>
          (case mget (owGrants w) (rtGrantId rt) of
             None \<Rightarrow> Inl ''Your sign-in session is invalid. Sign in again.''
           | Some grant \<Rightarrow>
               if gtClientId grant \<noteq> cid \<or> gtRevokedAt grant \<noteq> None then Inl ''Your sign-in session is invalid. Sign in again.''
               else if rtRevokedAt rt \<noteq> None then Inl ''Your sign-in session has been revoked. Sign in again.''
               else if pastExpiry now (rtExpiresAt rt) \<or> gtExpiresAt grant \<le> now
               then Inl ''Your sign-in session has expired. Sign in again.''
               else Inr ((rid, rt), grant)))"

definition REUSE_DETECTED :: string where
  "REUSE_DETECTED = ''We detected a security issue with your sign-in session and revoked access. Sign in again.''"

text \<open>
  The writes of a refresh, on what the reads returned: a token that was consumed when it was read, or
  that another transaction consumed since, revokes the grant; otherwise it is consumed and replaced.
\<close>

definition rotateRefreshToken ::
  "digest \<Rightarrow> token_material \<Rightarrow> millis \<Rightarrow> string \<Rightarrow> oauth_client \<Rightarrow> string \<Rightarrow> refresh_token \<Rightarrow> oauth_grant \<Rightarrow> oauth_world
     \<Rightarrow> string + oauth_world \<times> (string + token_response)" where
  "rotateRefreshToken sha m now cid client rid rt grant w =
     (let unused = (\<lambda>i t. i = rid \<and> rtConsumedAt t = None) in
      if rtConsumedAt rt \<noteq> None \<or> matching unused (owRefresh w) = []
      then Inr (revokeForReuse now cid (rtGrantId rt) w, Inl REUSE_DETECTED)
      else case issueTokensForGrant sha m now client (rtGrantId rt) grant
                  (w\<lparr>owRefresh := updateRows unused (\<lambda>t. t\<lparr>rtConsumedAt := Some now\<rparr>) (owRefresh w)\<rparr>) of
             Inl e \<Rightarrow> Inl e
           | Inr (w2, tokens) \<Rightarrow>
               Inr (writeAudit ''oauth_client'' (Some cid) ''oauth.token_refreshed'' (rtGrantId rt) w2, Inr tokens))"

record token_request =
  trAuthorization :: "string option"
  trClientId :: "string option"
  trClientSecret :: "string option"
  trGrantType :: "string option"
  trCode :: "string option"
  trRedirectUri :: "string option"
  trCodeVerifier :: "string option"
  trRefreshToken :: "string option"

text \<open>\<^verbatim>\<open>POST /oauth/token\<close>: \<open>now\<close> is the time of the checks, \<open>later\<close> that of the transaction.\<close>

definition tokenEndpoint ::
  "digest \<Rightarrow> token_material \<Rightarrow> oauth_interference \<Rightarrow> millis \<Rightarrow> millis \<Rightarrow> token_request \<Rightarrow> oauth_world \<Rightarrow> oauth_world \<times> token_reply" where
  "tokenEndpoint sha m others now later b w =
     (case authenticateOauthClient sha (trAuthorization b) (trClientId b) (trClientSecret b) w of
        AuthFailed d \<Rightarrow> (w, TokenError 401 ''invalid_client'' d)
      | AuthOk cid client \<Rightarrow>
          if trGrantType b = Some ''authorization_code'' then
            (if \<not> truthy (trCode b) then (w, TokenError 400 ''invalid_request'' ''code is required'')
             else case checkAuthorizationCode sha now cid (the (trCode b)) (trRedirectUri b) (trCodeVerifier b) w of
                    Inl d \<Rightarrow> (w, TokenError 400 ''invalid_grant'' d)
                  | Inr (aid, ac) \<Rightarrow>
                      (case redeemAuthorizationCode sha m later cid client aid ac (others w) of
                         Inl e \<Rightarrow> (others w, TokenRaised e)
                       | Inr (w', None) \<Rightarrow> (w', TokenError 400 ''invalid_grant'' ''authorization code already used'')
                       | Inr (w', Some tokens) \<Rightarrow> (w', Tokens tokens)))
          else if trGrantType b = Some ''refresh_token'' then
            (if \<not> truthy (trRefreshToken b) then (w, TokenError 400 ''invalid_request'' ''refresh_token is required'')
             else case checkRefreshToken sha now cid (the (trRefreshToken b)) w of
                    Inl d \<Rightarrow> (w, TokenError 400 ''invalid_grant'' d)
                  | Inr ((rid, rt), grant) \<Rightarrow>
                      (case rotateRefreshToken sha m later cid client rid rt grant (others w) of
                         Inl e \<Rightarrow> (others w, TokenRaised e)
                       | Inr (w', Inl d) \<Rightarrow> (w', TokenError 400 ''invalid_grant'' d)
                       | Inr (w', Inr tokens) \<Rightarrow> (w', Tokens tokens)))
          else (w, TokenError 400 ''unsupported_grant_type'' ''grant_type must be authorization_code or refresh_token''))"

section \<open>Revocation and introspection\<close>

definition grantOfClient :: "string \<Rightarrow> string \<Rightarrow> oauth_world \<Rightarrow> bool" where
  "grantOfClient grantId cid w = (map_option gtClientId (mget (owGrants w) grantId) = Some cid)"

text \<open>\<^verbatim>\<open>POST /oauth/revoke\<close> after client authentication; the answer is always the same.\<close>

definition revokeToken :: "digest \<Rightarrow> millis \<Rightarrow> string \<Rightarrow> string \<Rightarrow> oauth_world \<Rightarrow> oauth_world" where
  "revokeToken sha now cid token w =
     (let w1 = (case findKey (\<lambda>i k. akHashedKey k = hashApiKey sha token) (owRelay w) of
                  Some (kid, ak) \<Rightarrow>
                    if truthy (akGrantId ak) \<and> grantOfClient (the (akGrantId ak)) cid w
                    then w\<lparr>owRelay := updateKeys (\<lambda>i k. i = kid) (\<lambda>k. k\<lparr>akRevokedAt := Some now\<rparr>) (owRelay w)\<rparr>
                    else w
                | None \<Rightarrow> w)
      in case find (\<lambda>(i, t). rtTokenHash t = hashCode sha token) (owRefresh w1) of
           Some (rid, rt) \<Rightarrow> if grantOfClient (rtGrantId rt) cid w1 then fst (revokeGrant now (rtGrantId rt) None w1) else w1
         | None \<Rightarrow> w1)"

record introspection =
  isScope :: string
  isTokenType :: string
  isExp :: "int option"

definition grantActive :: "millis \<Rightarrow> string \<Rightarrow> oauth_grant option \<Rightarrow> bool" where
  "grantActive now cid g =
     (case g of None \<Rightarrow> False | Some g \<Rightarrow> gtClientId g = cid \<and> gtRevokedAt g = None \<and> gtExpiresAt g > now)"

definition introspectToken :: "digest \<Rightarrow> millis \<Rightarrow> string \<Rightarrow> string \<Rightarrow> oauth_world \<Rightarrow> introspection option" where
  "introspectToken sha now cid token w =
     (if token = [] then None
      else case (case findKey (\<lambda>i k. akHashedKey k = hashApiKey sha token) (owRelay w) of
                   Some (kid, ak) \<Rightarrow> if truthy (akGrantId ak) then Some ak else None
                 | None \<Rightarrow> None) of
             Some ak \<Rightarrow>
               if akRevokedAt ak = None \<and> \<not> pastExpiry now (akExpiresAt ak)
                  \<and> grantActive now cid (mget (owGrants w) (the (akGrantId ak)))
               then Some \<lparr>isScope = scopeText (akScopes ak), isTokenType = ''Bearer'',
                          isExp = map_option (\<lambda>e. e div 1000) (akExpiresAt ak)\<rparr>
               else None
           | None \<Rightarrow>
               (case find (\<lambda>(i, t). rtTokenHash t = hashCode sha token) (owRefresh w) of
                  Some (rid, rt) \<Rightarrow>
                    if rtRevokedAt rt = None \<and> rtConsumedAt rt = None \<and> \<not> pastExpiry now (rtExpiresAt rt)
                       \<and> grantActive now cid (mget (owGrants w) (rtGrantId rt))
                    then Some \<lparr>isScope = scopeText (gtScopes (the (mget (owGrants w) (rtGrantId rt)))),
                               isTokenType = ''refresh_token'', isExp = map_option (\<lambda>e. e div 1000) (rtExpiresAt rt)\<rparr>
                    else None
                | None \<Rightarrow> None))"

section \<open>Connected apps\<close>

datatype grant_status = GrantActive | GrantExpired | GrantStatusRevoked

definition grantStatus :: "millis \<Rightarrow> oauth_grant \<Rightarrow> grant_status" where
  "grantStatus now g =
     (if gtRevokedAt g \<noteq> None then GrantStatusRevoked else if gtExpiresAt g \<le> now then GrantExpired else GrantActive)"

definition getGrantClientPublicId :: "string \<Rightarrow> string \<Rightarrow> oauth_world \<Rightarrow> string option" where
  "getGrantClientPublicId grantId ownerSubject w =
     (case mget (owGrants w) grantId of
        None \<Rightarrow> None
      | Some g \<Rightarrow>
          if gtOwnerSubject g \<noteq> ownerSubject then None else map_option clClientId (mget (owClients w) (gtClientId g)))"

section \<open>Text on the consent pages\<close>

text \<open>\<^verbatim>\<open>s.replace(/[&<>"']/g, ...)\<close>.\<close>

definition escChar :: "char \<Rightarrow> string" where
  "escChar c =
     (if c = CHR ''&'' then ''&amp;'' else if c = CHR ''<'' then ''&lt;'' else if c = CHR ''>'' then ''&gt;''
      else if c = CHR 0x22 then ''&quot;'' else if c = CHR 0x27 then ''&#39;'' else [c])"

definition escHtml :: "string \<Rightarrow> string" where
  "escHtml s = concat (map escChar s)"

lemma escHtml_safe: "c \<in> set (escHtml s) \<Longrightarrow> c \<notin> {CHR ''<'', CHR ''>'', CHR 0x22, CHR 0x27}"
  by (auto simp: escHtml_def escChar_def split: if_splits)

end
