(* ===== verification/OAuthSafety.thy ===== *)
theory OAuthSafety
  imports OAuth
begin

text \<open>
  What holds of the OAuth tables when requests are handled one after the other, and what an
  interleaving can break. The invariant ties every access key and refresh token to the grant it was
  issued under, and every grant and code to an enabled client.
\<close>

section \<open>The invariant\<close>

interpretation revokedGrants: stamped_rows "\<lambda>t g. g\<lparr>gtRevokedAt := Some t\<rparr>" "\<lambda>g. gtRevokedAt g \<noteq> None"
  by unfold_locales simp

interpretation revokedRefresh: stamped_rows "\<lambda>t r. r\<lparr>rtRevokedAt := Some t\<rparr>" "\<lambda>r. rtRevokedAt r \<noteq> None"
  by unfold_locales simp

interpretation consumedRefresh: stamped_rows "\<lambda>t r. r\<lparr>rtConsumedAt := Some t\<rparr>" "\<lambda>r. rtConsumedAt r \<noteq> None"
  by unfold_locales simp

interpretation consumedCodes: stamped_rows "\<lambda>t a. a\<lparr>coConsumedAt := Some t\<rparr>" "\<lambda>a. coConsumedAt a \<noteq> None"
  by unfold_locales simp

definition keyFits :: "oauth_grant jsmap \<Rightarrow> api_key \<Rightarrow> bool" where
  "keyFits grants k =
     (case akGrantId k of
        None \<Rightarrow> True
      | Some g \<Rightarrow>
          (case mget grants g of
             None \<Rightarrow> False
           | Some grant \<Rightarrow>
               akOwnerSubject k = gtOwnerSubject grant \<and> akScopes k = gtScopes grant
               \<and> akConnectionGrants k = gtConnectionGrants grant
               \<and> akExpiresAt k = Some (accessTokenExpiry (gtExpiresAt grant) (akCreatedAt k))
               \<and> (gtRevokedAt grant \<noteq> None \<longrightarrow> akRevokedAt k \<noteq> None)))"

definition refreshFits :: "oauth_grant jsmap \<Rightarrow> refresh_token \<Rightarrow> bool" where
  "refreshFits grants t =
     (case mget grants (rtGrantId t) of
        None \<Rightarrow> False
      | Some grant \<Rightarrow> rtExpiresAt t = Some (gtExpiresAt grant) \<and> (gtRevokedAt grant \<noteq> None \<longrightarrow> rtRevokedAt t \<noteq> None))"

definition enabledClient :: "oauth_client jsmap \<Rightarrow> string \<Rightarrow> bool" where
  "enabledClient clients cid = (\<exists>c. mget clients cid = Some c \<and> clDisabledAt c = None)"

definition grantInv :: "oauth_world \<Rightarrow> bool" where
  "grantInv w =
     (keysOk (owRelay w) \<and> distinct (mkeys (owGrants w)) \<and> distinct (mkeys (owRefresh w)) \<and> distinct (mkeys (owCodes w))
      \<and> distinct (mkeys (owClients w))
      \<and> (\<forall>i k. mget (ryKeys (owRelay w)) i = Some k \<longrightarrow> keyFits (owGrants w) k)
      \<and> (\<forall>i t. mget (owRefresh w) i = Some t \<longrightarrow> refreshFits (owGrants w) t)
      \<and> (\<forall>i g. mget (owGrants w) i = Some g \<longrightarrow> set (gtScopes g) \<subseteq> set API_SCOPES \<and> enabledClient (owClients w) (gtClientId g))
      \<and> (\<forall>i a. mget (owCodes w) i = Some a \<longrightarrow> set (coScopes a) \<subseteq> set API_SCOPES \<and> enabledClient (owClients w) (coClientId a)))"

lemma grantInvD:
  assumes "grantInv w"
  shows "keysOk (owRelay w)" "distinct (mkeys (owGrants w))" "distinct (mkeys (owRefresh w))" "distinct (mkeys (owCodes w))"
    "distinct (mkeys (owClients w))"
    "mget (ryKeys (owRelay w)) i = Some k \<Longrightarrow> keyFits (owGrants w) k"
    "mget (owRefresh w) i = Some t \<Longrightarrow> refreshFits (owGrants w) t"
    "mget (owGrants w) i = Some g \<Longrightarrow> set (gtScopes g) \<subseteq> set API_SCOPES \<and> enabledClient (owClients w) (gtClientId g)"
    "mget (owCodes w) i = Some a \<Longrightarrow> set (coScopes a) \<subseteq> set API_SCOPES \<and> enabledClient (owClients w) (coClientId a)"
  using assms unfolding grantInv_def by blast+

lemma grantInv_audit [simp]: "grantInv (w\<lparr>owAudit := l\<rparr>) \<longleftrightarrow> grantInv w"
  by (simp add: grantInv_def)

lemma grantInv_writeAudit [simp]: "grantInv (writeAudit t a s i w) \<longleftrightarrow> grantInv w"
  by (simp add: writeAudit_def)

lemma grantInv_codes:
  "grantInv w \<Longrightarrow> distinct (mkeys codes)
     \<Longrightarrow> (\<And>i a. mget codes i = Some a \<Longrightarrow> set (coScopes a) \<subseteq> set API_SCOPES \<and> enabledClient (owClients w) (coClientId a))
     \<Longrightarrow> grantInv (w\<lparr>owCodes := codes\<rparr>)"
  by (simp add: grantInv_def)

lemma grantInv_clients:
  "grantInv w \<Longrightarrow> distinct (mkeys clients)
     \<Longrightarrow> (\<And>i g. mget (owGrants w) i = Some g \<Longrightarrow> enabledClient clients (gtClientId g))
     \<Longrightarrow> (\<And>i a. mget (owCodes w) i = Some a \<Longrightarrow> enabledClient clients (coClientId a))
     \<Longrightarrow> grantInv (w\<lparr>owClients := clients\<rparr>)"
  by (simp add: grantInv_def)

lemma keysOk_frame: "ryKeys r' = ryKeys r \<Longrightarrow> keysOk r' = keysOk r"
  by (simp add: keysOk_def)

subsection \<open>Keys and clients\<close>

lemma grantInv_relay: "grantInv w \<Longrightarrow> ryKeys r = ryKeys (owRelay w) \<Longrightarrow> grantInv (w\<lparr>owRelay := r\<rparr>)"
  using keysOk_frame [of r "owRelay w"] by (auto simp: grantInv_def)

lemma keyFits_frame:
  "akGrantId k' = akGrantId k \<Longrightarrow> akOwnerSubject k' = akOwnerSubject k \<Longrightarrow> akScopes k' = akScopes k
     \<Longrightarrow> akConnectionGrants k' = akConnectionGrants k \<Longrightarrow> akExpiresAt k' = akExpiresAt k \<Longrightarrow> akCreatedAt k' = akCreatedAt k
     \<Longrightarrow> (akRevokedAt k \<noteq> None \<Longrightarrow> akRevokedAt k' \<noteq> None) \<Longrightarrow> keyFits grants k \<Longrightarrow> keyFits grants k'"
  unfolding keyFits_def by (auto split: option.splits)

lemma grantInv_updateKeys:
  assumes "grantInv w" "\<And>k. akHashedKey (f k) = akHashedKey k"
    and "\<And>i k. mget (ryKeys (owRelay w)) i = Some k \<Longrightarrow> keyFits (owGrants w) k \<Longrightarrow> keyFits (owGrants w) (f k)"
  shows "grantInv (w\<lparr>owRelay := updateKeys p f (owRelay w)\<rparr>)"
  using assms keysOk_update [of "owRelay w" f p] unfolding grantInv_def
  by (auto simp: mget_updateRows)

lemma grantInv_verify: "grantInv w \<Longrightarrow> grantInv (w\<lparr>owRelay := fst (verifyApiKey sha now presented (owRelay w))\<rparr>)"
  unfolding verifyApiKey_def
  by (auto split: option.splits intro!: grantInv_updateKeys elim: keyFits_frame [rotated -1])

lemma grantInv_revokeKey: "grantInv w \<Longrightarrow> grantInv (w\<lparr>owRelay := fst (revokeApiKey now i owner (owRelay w))\<rparr>)"
  unfolding revokeApiKey_def Let_def by (auto intro!: grantInv_updateKeys elim: keyFits_frame [rotated -1])

lemma grantInv_mintKey:
  assumes inv: "grantInv w" and c: "createApiKey sha random newId now input (owRelay w) = Inr (r, i, p)"
    and "kiGrantId input = None"
  shows "grantInv (w\<lparr>owRelay := r\<rparr>)"
  using inv keysOk_create [OF grantInvD(1) [OF inv] c] createApiKey_Inr [OF c] assms(3) unfolding grantInv_def
  by (auto simp: keyFits_def split: if_splits)

lemma grantInv_register:
  assumes inv: "grantInv w" and "\<not> mhas (owClients w) newId"
  shows "grantInv (w\<lparr>owClients := mput newId c (owClients w)\<rparr>)"
proof -
  have "enabledClient (mput newId c (owClients w)) x" if "enabledClient (owClients w) x" for x
    using that assms(2) by (auto simp: enabledClient_def mhas_def)
  with inv show ?thesis by (auto simp: grantInv_def)
qed

subsection \<open>Issuing\<close>

lemma issueTokens_Inr:
  assumes "issueTokensForGrant sha m now client grantId grant w = Inr (w', tokens)"
  shows "\<exists>r kid t. createApiKey sha (tmAccessRandom m) (tmKeyId m) now
      \<lparr>kiName = ''oauth:'' @ clName client, kiScopes = gtScopes grant, kiConnectionGrants = gtConnectionGrants grant,
       kiOwnerSubject = Some (gtOwnerSubject grant), kiExpiresAt = Some (accessTokenExpiry (gtExpiresAt grant) now),
       kiGrantId = Some grantId, kiDeviceId = None\<rparr> (owRelay w) = Inr (r, kid, tpAccessToken tokens)
    \<and> w' = w\<lparr>owRelay := r, owRefresh := mput (tmRefreshId m) t (owRefresh w)\<rparr> \<and> \<not> mhas (owRefresh w) (tmRefreshId m)
    \<and> t = \<lparr>rtTokenHash = hashCode sha (tpRefreshToken tokens), rtGrantId = grantId, rtExpiresAt = Some (gtExpiresAt grant),
           rtConsumedAt = None, rtRevokedAt = None\<rparr>"
  using assms by (auto simp: issueTokensForGrant_def generateRefreshToken_def oauthTokenResponse_def Let_def
      split: if_splits sum.splits)

lemma grantInv_issue:
  assumes inv: "grantInv w" and i: "issueTokensForGrant sha m now client grantId grant w = Inr (w', tokens)"
    and g: "mget (owGrants w) grantId = Some grant" "gtRevokedAt grant = None"
  shows "grantInv w'"
proof -
  obtain r kid where c: "createApiKey sha (tmAccessRandom m) (tmKeyId m) now
      \<lparr>kiName = ''oauth:'' @ clName client, kiScopes = gtScopes grant, kiConnectionGrants = gtConnectionGrants grant,
       kiOwnerSubject = Some (gtOwnerSubject grant), kiExpiresAt = Some (accessTokenExpiry (gtExpiresAt grant) now),
       kiGrantId = Some grantId, kiDeviceId = None\<rparr> (owRelay w) = Inr (r, kid, tpAccessToken tokens)"
    and w': "w' = w\<lparr>owRelay := r, owRefresh := mput (tmRefreshId m)
       \<lparr>rtTokenHash = hashCode sha (tpRefreshToken tokens), rtGrantId = grantId, rtExpiresAt = Some (gtExpiresAt grant),
        rtConsumedAt = None, rtRevokedAt = None\<rparr> (owRefresh w)\<rparr>"
    using issueTokens_Inr [OF i] by blast
  show ?thesis
    using inv keysOk_create [OF grantInvD(1) [OF inv] c] createApiKey_Inr [OF c] g unfolding grantInv_def w'
    by (auto simp: keyFits_def refreshFits_def split: if_splits)
qed

subsection \<open>Ending a grant\<close>

lemma mget_revokeIssued:
  "mget (ryKeys (owRelay (revokeIssued now g w))) i
     = map_option (\<lambda>k. if akGrantId k = Some g \<and> akRevokedAt k = None then k\<lparr>akRevokedAt := Some now\<rparr> else k) (mget (ryKeys (owRelay w)) i)"
  "mget (owRefresh (revokeIssued now g w)) i
     = map_option (\<lambda>t. if rtGrantId t = g \<and> rtRevokedAt t = None then t\<lparr>rtRevokedAt := Some now\<rparr> else t) (mget (owRefresh w) i)"
  by (simp_all add: revokeIssued_def mget_updateRows)

lemma revokeIssued_frame [simp]:
  "owGrants (revokeIssued now g w) = owGrants w" "owCodes (revokeIssued now g w) = owCodes w"
  "owClients (revokeIssued now g w) = owClients w" "mkeys (owRefresh (revokeIssued now g w)) = mkeys (owRefresh w)"
  by (simp_all add: revokeIssued_def)

text \<open>Stamping a grant and everything issued under it.\<close>

lemma grantInv_end:
  assumes inv: "grantInv w" and p: "\<And>i g. p i g \<Longrightarrow> i = gid"
  shows "grantInv (revokeIssued now gid (updateGrants p (\<lambda>g. g\<lparr>gtRevokedAt := Some now\<rparr>) w))"
proof -
  let ?w1 = "updateGrants p (\<lambda>g. g\<lparr>gtRevokedAt := Some now\<rparr>) w"
  let ?w2 = "revokeIssued now gid ?w1"
  have g2: "mget (owGrants ?w2) i = map_option (\<lambda>g. if p i g then g\<lparr>gtRevokedAt := Some now\<rparr> else g) (mget (owGrants w) i)" for i
    by (simp add: updateGrants_def mget_updateRows)
  have same: "owRelay ?w1 = owRelay w" "owRefresh ?w1 = owRefresh w" "owCodes ?w1 = owCodes w" "owClients ?w1 = owClients w"
    by (simp_all add: updateGrants_def)
  have "keysOk (owRelay ?w2)"
    using keysOk_update [OF grantInvD(1) [OF inv]] by (simp add: revokeIssued_def same)
  moreover have "keyFits (owGrants ?w2) k" if "mget (ryKeys (owRelay ?w2)) i = Some k" for i k
  proof -
    from that obtain l where l: "mget (ryKeys (owRelay w)) i = Some l"
      "k = (if akGrantId l = Some gid \<and> akRevokedAt l = None then l\<lparr>akRevokedAt := Some now\<rparr> else l)"
      by (auto simp: mget_revokeIssued same)
    have fits: "keyFits (owGrants w) l" by (rule grantInvD(6) [OF inv l(1)])
    show ?thesis using fits p l(2) unfolding keyFits_def g2 by (fastforce split: option.splits)
  qed
  moreover have "refreshFits (owGrants ?w2) t" if "mget (owRefresh ?w2) i = Some t" for i t
  proof -
    from that obtain l where l: "mget (owRefresh w) i = Some l"
      "t = (if rtGrantId l = gid \<and> rtRevokedAt l = None then l\<lparr>rtRevokedAt := Some now\<rparr> else l)"
      by (auto simp: mget_revokeIssued same)
    have fits: "refreshFits (owGrants w) l" by (rule grantInvD(7) [OF inv l(1)])
    show ?thesis using fits p l(2) unfolding refreshFits_def g2 by (fastforce split: option.splits)
  qed
  moreover have "set (gtScopes g) \<subseteq> set API_SCOPES \<and> enabledClient (owClients ?w2) (gtClientId g)"
    if g: "mget (owGrants ?w2) i = Some g" for i g
  proof -
    from g obtain l where l: "mget (owGrants w) i = Some l" "g = (if p i l then l\<lparr>gtRevokedAt := Some now\<rparr> else l)"
      unfolding g2 by auto
    show ?thesis using grantInvD(8) [OF inv l(1)] l(2) by (auto simp: same)
  qed
  moreover have "distinct (mkeys (owGrants ?w2))" "distinct (mkeys (owRefresh ?w2))"
    using inv by (simp_all add: grantInv_def updateGrants_def)
  ultimately show ?thesis using inv by (simp add: grantInv_def same)
qed

lemma grantInv_revokeGrant: "grantInv w \<Longrightarrow> grantInv (fst (revokeGrant now gid owner w))"
  unfolding revokeGrant_def Let_def by (auto intro!: grantInv_end)

lemma grantInv_reuse: "grantInv w \<Longrightarrow> grantInv (revokeForReuse now cid gid w)"
  unfolding revokeForReuse_def by (auto intro!: grantInv_end)

lemma grantInv_revokeToken: "grantInv w \<Longrightarrow> grantInv (revokeToken sha now cid token w)"
proof -
  assume inv: "grantInv w"
  have "grantInv (w\<lparr>owRelay := updateKeys p (\<lambda>k. k\<lparr>akRevokedAt := Some now\<rparr>) (owRelay w)\<rparr>)" for p
    by (rule grantInv_updateKeys [OF inv]) (auto elim: keyFits_frame [rotated -1])
  with inv show ?thesis unfolding revokeToken_def Let_def
    by (auto split: option.splits intro!: grantInv_revokeGrant)
qed

lemma mget_filter: "distinct (mkeys m) \<Longrightarrow> mget (filter (\<lambda>(i, r). p i r) m) i
    = (case mget m i of None \<Rightarrow> None | Some r \<Rightarrow> if p i r then Some r else None)"
  by (induction m) (auto simp: mget_def mkeys_def map_of_eq_None_iff image_iff split: option.splits)

lemma keysOk_filter: "keysOk r \<Longrightarrow> keysOk (r\<lparr>ryKeys := filter (\<lambda>(i, k). p i k) (ryKeys r)\<rparr>)"
  unfolding keysOk_def by (auto simp: mget_filter mkeys_def distinct_map_filter split: option.splits if_splits)

lemma grantInv_deleteGrants:
  assumes inv: "grantInv w"
  shows "grantInv (deleteGrantsWhere p w)"
proof -
  let ?w = "deleteGrantsWhere p w"
  have gone: "g \<in> set (matching p (owGrants w)) \<longleftrightarrow> (\<exists>r. mget (owGrants w) g = Some r \<and> p g r)" for g
    using grantInvD(2) [OF inv] by (force simp: matching_def mget_def mkeys_def image_iff intro: map_of_is_SomeI dest: map_of_SomeD)
  have grants: "mget (owGrants ?w) i = (case mget (owGrants w) i of None \<Rightarrow> None | Some r \<Rightarrow> if \<not> p i r then Some r else None)" for i
    using mget_filter [of "owGrants w" "\<lambda>i r. \<not> p i r" i] grantInvD(2) [OF inv] by (simp add: deleteGrantsWhere_def Let_def)
  have tables: "owCodes ?w = owCodes w" "owClients ?w = owClients w"
    "owRefresh ?w = filter (\<lambda>(i, t). rtGrantId t \<notin> set (matching p (owGrants w))) (owRefresh w)"
    "ryKeys (owRelay ?w) = filter (\<lambda>(i, k). case akGrantId k of None \<Rightarrow> True | Some g \<Rightarrow> g \<notin> set (matching p (owGrants w))) (ryKeys (owRelay w))"
    by (simp_all add: deleteGrantsWhere_def Let_def)
  have "keysOk (owRelay ?w)"
    using keysOk_filter [OF grantInvD(1) [OF inv]] by (simp add: deleteGrantsWhere_def Let_def)
  moreover have "keyFits (owGrants ?w) k" if k: "mget (ryKeys (owRelay ?w)) i = Some k" for i k
  proof -
    have "distinct (mkeys (ryKeys (owRelay w)))" using grantInvD(1) [OF inv] by (simp add: keysOk_def)
    from k mget_filter [OF this] have "mget (ryKeys (owRelay w)) i = Some k"
      "case akGrantId k of None \<Rightarrow> True | Some g \<Rightarrow> g \<notin> set (matching p (owGrants w))"
      unfolding tables by (auto split: option.splits if_splits)
    with grantInvD(6) [OF inv] show ?thesis unfolding keyFits_def grants gone by (fastforce split: option.splits)
  qed
  moreover have "refreshFits (owGrants ?w) t" if t: "mget (owRefresh ?w) i = Some t" for i t
  proof -
    from t mget_filter [OF grantInvD(3) [OF inv]] have "mget (owRefresh w) i = Some t" "rtGrantId t \<notin> set (matching p (owGrants w))"
      unfolding tables by (auto split: option.splits if_splits)
    with grantInvD(7) [OF inv] show ?thesis unfolding refreshFits_def grants gone by (fastforce split: option.splits)
  qed
  moreover have "mget (owGrants w) i = Some g" if "mget (owGrants ?w) i = Some g" for i g
    using that by (auto simp: grants split: option.splits if_splits)
  moreover have "distinct (mkeys (owGrants ?w))" "distinct (mkeys (owRefresh ?w))"
    using inv by (simp_all add: deleteGrantsWhere_def Let_def grantInv_def mkeys_def distinct_map_filter)
  ultimately show ?thesis using inv unfolding grantInv_def tables(1,2) by blast
qed

lemma grantInv_disable: "grantInv w \<Longrightarrow> grantInv (fst (disableOauthClient now cid tenant actor w))"
proof -
  assume inv: "grantInv w"
  let ?p = "\<lambda>i c. i = cid \<and> (case tenant of None \<Rightarrow> True | Some t \<Rightarrow> clRecipientTenantId c = t) \<and> clDisabledAt c = None"
  let ?clients = "updateRows ?p (\<lambda>c. c\<lparr>clDisabledAt := Some now\<rparr>) (owClients w)"
  let ?v = "deleteGrantsWhere (\<lambda>i g. gtClientId g = cid) (w\<lparr>owCodes := filter (\<lambda>(i, a). coClientId a \<noteq> cid) (owCodes w)\<rparr>)"
  have "mget (owCodes w) i = Some a" if "mget (filter (\<lambda>(i, a). coClientId a \<noteq> cid) (owCodes w)) i = Some a" for i a
    using that mget_filter [OF grantInvD(4) [OF inv], of "\<lambda>i a. coClientId a \<noteq> cid" i] by (auto split: option.splits if_splits)
  moreover have "distinct (mkeys (filter (\<lambda>(i, a). coClientId a \<noteq> cid) (owCodes w)))"
    using grantInvD(4) [OF inv] by (simp add: mkeys_def distinct_map_filter)
  ultimately have "grantInv (w\<lparr>owCodes := filter (\<lambda>(i, a). coClientId a \<noteq> cid) (owCodes w)\<rparr>)"
    using grantInv_codes [OF inv] grantInvD(9) [OF inv] by blast
  then have v: "grantInv ?v" by (rule grantInv_deleteGrants)
  have other: "enabledClient ?clients x = enabledClient (owClients w) x" if "x \<noteq> cid" for x
    using that by (auto simp: enabledClient_def mget_updateRows)
  have same: "owClients ?v = owClients w" by (simp add: deleteGrantsWhere_def Let_def)
  have "enabledClient ?clients (gtClientId g)" if g: "mget (owGrants ?v) i = Some g" for i g
  proof -
    have "gtClientId g \<noteq> cid" using g mget_filter [OF grantInvD(2) [OF inv], of "\<lambda>i g. gtClientId g \<noteq> cid" i]
      by (auto simp: deleteGrantsWhere_def Let_def split: option.splits if_splits)
    with grantInvD(8) [OF v g] other same show ?thesis by simp
  qed
  moreover have "enabledClient ?clients (coClientId a)" if a: "mget (owCodes ?v) i = Some a" for i a
  proof -
    have "coClientId a \<noteq> cid" using a mget_filter [OF grantInvD(4) [OF inv], of "\<lambda>i a. coClientId a \<noteq> cid" i]
      by (auto simp: deleteGrantsWhere_def Let_def split: option.splits if_splits)
    with grantInvD(9) [OF v a] other same show ?thesis by simp
  qed
  moreover have "distinct (mkeys ?clients)" using grantInvD(5) [OF inv] by simp
  ultimately have "grantInv (?v\<lparr>owClients := ?clients\<rparr>)" using grantInv_clients [OF v] by blast
  moreover have "?v\<lparr>owClients := ?clients\<rparr>
      = deleteGrantsWhere (\<lambda>i g. gtClientId g = cid) (w\<lparr>owClients := ?clients, owCodes := filter (\<lambda>(i, a). coClientId a \<noteq> cid) (owCodes w)\<rparr>)"
    by (simp add: deleteGrantsWhere_def Let_def)
  ultimately show ?thesis using inv by (simp add: disableOauthClient_def Let_def)
qed

subsection \<open>The endpoints\<close>

lemma find_mget: "distinct (mkeys m) \<Longrightarrow> find (\<lambda>(i, r). p i r) m = Some (i, r) \<Longrightarrow> mget m i = Some r \<and> p i r"
  by (auto simp: find_Some_iff mget_def mkeys_def in_set_conv_nth intro!: map_of_is_SomeI)

lemma authenticate_enabled:
  "grantInv w \<Longrightarrow> authenticateOauthClient sha authz bid bsecret w = AuthOk cid client
     \<Longrightarrow> mget (owClients w) cid = Some client \<and> clDisabledAt client = None"
  unfolding authenticateOauthClient_def getOauthClient_def Let_def
  by (auto split: option.splits if_splits dest!: find_mget [OF grantInvD(5)])

lemma resolveScopes_ok: "resolveScopes raw client = Some scopes \<Longrightarrow>
    set scopes \<subseteq> set API_SCOPES \<and> set scopes \<subseteq> set (clAllowedScopes client) \<and> scopes \<noteq> []"
  by (auto simp: resolveScopes_def Let_def list_all_iff split: if_splits)

lemma grantInv_consent:
  assumes inv: "grantInv w" and c: "approveConsent sha random newId now b owner cid scopes w = (w', page)"
    and "set scopes \<subseteq> set API_SCOPES" "enabledClient (owClients w) cid"
  shows "grantInv w'"
proof (cases "w' = w")
  case False
  then obtain a where a: "w' = writeAudit ''operator'' (crOperatorSubject b) ''oauth.authorize'' cid (w\<lparr>owCodes := mput newId a (owCodes w)\<rparr>)"
    "coScopes a = scopes" "coClientId a = cid"
    using c by (auto simp: approveConsent_def generateAuthorizationCode_def Let_def split: if_splits)
  have "grantInv (w\<lparr>owCodes := mput newId a (owCodes w)\<rparr>)"
    using inv assms(3,4) a(2,3) unfolding grantInv_def by (auto split: if_splits)
  with a(1) show ?thesis by simp
qed (use inv in simp)

lemma decision_cases:
  assumes "decisionEndpoint hmac sha vp parseUrl others tn hosted random newId now b w st = (w', st', page)"
  shows "w' = w \<or> (\<exists>cid client scopes owner p. getOauthClient (the (crClientId b)) w = Some (cid, client) \<and> clDisabledAt client = None
    \<and> resolveScopes (crScope b) client = Some scopes \<and> registeredRedirect parseUrl client (the (crRedirectUri b))
    \<and> truthy (crClientId b) \<and> truthy (crRedirectUri b) \<and> truthy (crCodeChallenge b) \<and> crCodeChallengeMethod b = Some ''S256''
    \<and> crDecision b \<noteq> Some ''deny'' \<and> truthy (crConsentTicket b)
    \<and> Some owner = (case crOperatorSubject b of Some s \<Rightarrow> Some s | None \<Rightarrow> if hosted then None else Some SELF_HOSTED_OPERATOR_SUBJECT)
    \<and> verifyConsentTicket hmac others (tnIdentityAssertionSecret tn) now (tnId tn) (the (crConsentTicket b))
        \<lparr>cbClientId = clClientId client, cbRedirectUri = the (crRedirectUri b), cbScope = scopeText scopes,
         cbCodeChallenge = the (crCodeChallenge b)\<rparr> st = (st', True)
    \<and> approveConsent sha random newId now b owner cid scopes w = (w', p) \<and> page = p)"
proof -
  define owner where "owner = (case crOperatorSubject b of Some s \<Rightarrow> Some s | None \<Rightarrow> if hosted then None else Some SELF_HOSTED_OPERATOR_SUBJECT)"
  show ?thesis using assms unfolding decisionEndpoint_def Let_def owner_def [symmetric]
    by (auto split: if_splits option.splits prod.splits elim!: truthyE)
qed

lemma grantInv_decision:
  assumes inv: "grantInv w" and d: "decisionEndpoint hmac sha vp parseUrl others tn hosted random newId now b w st = (w', st', page)"
  shows "grantInv w'"
proof (cases "w' = w")
  case False
  with decision_cases [OF d] obtain cid client scopes owner where
    f: "getOauthClient (the (crClientId b)) w = Some (cid, client)" "clDisabledAt client = None"
      "resolveScopes (crScope b) client = Some scopes" "approveConsent sha random newId now b owner cid scopes w = (w', page)"
    by auto
  have "enabledClient (owClients w) cid"
    using find_mget [OF grantInvD(5) [OF inv], of "\<lambda>i c. clClientId c = the (crClientId b)" cid client] f(1,2)
    by (simp add: getOauthClient_def enabledClient_def)
  then show ?thesis using grantInv_consent [OF inv f(4)] resolveScopes_ok [OF f(3)] by blast
qed (use inv in simp)

lemma grantInv_redeem:
  assumes inv: "grantInv w" and c: "checkAuthorizationCode sha now cid code uri verifier w = Inr (aid, ac)"
    and r: "redeemAuthorizationCode sha m later cid client aid ac w = Inr (w', tokens)" and e: "enabledClient (owClients w) cid"
  shows "grantInv w'"
proof (cases tokens)
  case None
  then show ?thesis using r inv by (auto simp: redeemAuthorizationCode_def Let_def split: if_splits sum.splits)
next
  case (Some tk)
  have ac: "mget (owCodes w) aid = Some ac"
    using c find_mget [OF grantInvD(4) [OF inv]] by (auto simp: checkAuthorizationCode_def split: option.splits if_splits)
  let ?g = "\<lparr>gtOwnerSubject = coOwnerSubject ac, gtClientId = cid, gtScopes = coScopes ac,
    gtConnectionGrants = coConnectionGrants ac, gtExpiresAt = later + OAUTH_GRANT_TTL_MS, gtRevokedAt = None\<rparr>"
  let ?codes = "updateRows (\<lambda>i a. i = aid \<and> coConsumedAt a = None) (\<lambda>a. a\<lparr>coConsumedAt := Some later\<rparr>) (owCodes w)"
  let ?w = "w\<lparr>owCodes := ?codes, owGrants := mput (tmGrantId m) ?g (owGrants w)\<rparr>"
  obtain w2 where w2: "issueTokensForGrant sha m later client (tmGrantId m) ?g ?w = Inr (w2, tk)"
    and fresh: "\<not> mhas (owGrants w) (tmGrantId m)"
    and w': "w' = writeAudit ''oauth_client'' (Some cid) ''oauth.token_issued'' (tmGrantId m) w2"
    using r Some by (auto simp: redeemAuthorizationCode_def Let_def split: if_splits sum.splits)
  have keep: "keyFits (mput (tmGrantId m) ?g (owGrants w)) k" if "keyFits (owGrants w) k" for k
    using that fresh by (auto simp: keyFits_def mhas_def split: option.splits)
  have keep2: "refreshFits (mput (tmGrantId m) ?g (owGrants w)) t" if "refreshFits (owGrants w) t" for t
    using that fresh by (auto simp: refreshFits_def mhas_def split: option.splits)
  have codes: "set (coScopes a) \<subseteq> set API_SCOPES \<and> enabledClient (owClients w) (coClientId a)" if "mget ?codes i = Some a" for i a
  proof -
    from that obtain z where z: "mget (owCodes w) i = Some z" "coScopes a = coScopes z" "coClientId a = coClientId z"
      by (auto simp: mget_updateRows split: if_splits)
    show ?thesis using grantInvD(9) [OF inv z(1)] z(2,3) by simp
  qed
  have "grantInv ?w"
    using inv keep keep2 codes e grantInvD(9) [OF inv ac] unfolding grantInv_def by (auto split: if_splits)
  from grantInv_issue [OF this w2] show ?thesis by (simp add: w')
qed

lemma checkRefresh_Inr:
  assumes "grantInv w" "checkRefreshToken sha now cid presented w = Inr ((rid, rt), grant)"
  shows "mget (owRefresh w) rid = Some rt \<and> rtTokenHash rt = hashCode sha presented \<and> mget (owGrants w) (rtGrantId rt) = Some grant
    \<and> gtClientId grant = cid \<and> gtRevokedAt grant = None \<and> rtRevokedAt rt = None \<and> now < gtExpiresAt grant"
  using assms(2) find_mget [OF grantInvD(3) [OF assms(1)], of "\<lambda>i t. rtTokenHash t = hashCode sha presented" rid rt]
  by (auto simp: checkRefreshToken_def split: option.splits if_splits)

lemma grantInv_rotate:
  assumes inv: "grantInv w" and c: "checkRefreshToken sha now cid presented w = Inr ((rid, rt), grant)"
    and r: "rotateRefreshToken sha m later cid client rid rt grant w = Inr (w', res)"
  shows "grantInv w'"
proof -
  let ?w = "w\<lparr>owRefresh := updateRows (\<lambda>i t. i = rid \<and> rtConsumedAt t = None) (\<lambda>t. t\<lparr>rtConsumedAt := Some later\<rparr>) (owRefresh w)\<rparr>"
  note f = checkRefresh_Inr [OF inv c]
  have "refreshFits (owGrants w) t" if "mget (owRefresh ?w) i = Some t" for i t
    using that grantInvD(7) [OF inv] by (fastforce simp: mget_updateRows refreshFits_def split: if_splits option.splits)
  then have w: "grantInv ?w" using inv by (simp add: grantInv_def)
  have "w' = revokeForReuse later cid (rtGrantId rt) w \<or> (\<exists>w2 tk. issueTokensForGrant sha m later client (rtGrantId rt) grant ?w = Inr (w2, tk)
      \<and> w' = writeAudit ''oauth_client'' (Some cid) ''oauth.token_refreshed'' (rtGrantId rt) w2)"
    using r by (auto simp: rotateRefreshToken_def Let_def split: if_splits sum.splits)
  then show ?thesis
    using grantInv_reuse [OF inv] grantInv_issue [OF w] f by auto
qed

lemma grantInv_token:
  assumes inv: "grantInv w" and t: "tokenEndpoint sha m (\<lambda>v. v) now later b w = (w', reply)"
  shows "grantInv w'"
proof (cases "authenticateOauthClient sha (trAuthorization b) (trClientId b) (trClientSecret b) w")
  case (AuthOk cid client)
  have e: "enabledClient (owClients w) cid" using authenticate_enabled [OF inv AuthOk] by (simp add: enabledClient_def)
  have "w' = w \<or> (\<exists>aid ac tk. checkAuthorizationCode sha now cid (the (trCode b)) (trRedirectUri b) (trCodeVerifier b) w = Inr (aid, ac)
        \<and> redeemAuthorizationCode sha m later cid client aid ac w = Inr (w', tk))
      \<or> (\<exists>rid rt grant res. checkRefreshToken sha now cid (the (trRefreshToken b)) w = Inr ((rid, rt), grant)
        \<and> rotateRefreshToken sha m later cid client rid rt grant w = Inr (w', res))"
    using t AuthOk unfolding tokenEndpoint_def by (auto split: if_splits sum.splits option.splits)
  then show ?thesis
  proof (elim disjE exE conjE)
    show "w' = w \<Longrightarrow> ?thesis" using inv by simp
  qed (fact grantInv_redeem [OF inv _ _ e] grantInv_rotate [OF inv])+
qed (use t inv in \<open>simp add: tokenEndpoint_def\<close>)

section \<open>Requests one after the other\<close>

text \<open>Each request runs to its end before the next; the last rules are the rest of the control plane.\<close>

inductive oauth_step :: "digest \<Rightarrow> oauth_world \<Rightarrow> oauth_world \<Rightarrow> bool" for sha :: digest where
  decide: "decisionEndpoint hmac sha vp parseUrl others tn hosted random newId now b w st = (w', st', page) \<Longrightarrow> oauth_step sha w w'"
| token: "tokenEndpoint sha m (\<lambda>v. v) now later b w = (w', reply) \<Longrightarrow> oauth_step sha w w'"
| revoke: "oauth_step sha w (fst (revokeGrant now gid owner w))"
| revoke_token: "authenticateOauthClient sha authz bid bsecret w = AuthOk cid client \<Longrightarrow> oauth_step sha w (revokeToken sha now cid token w)"
| register: "createOauthClient sha idRandom secretRandom newId input actor w = Inr (w', result) \<Longrightarrow> oauth_step sha w w'"
| register_again: "createOauthClientIdempotently hmac sha newId input t idem secret actor w = Inr (w', result) \<Longrightarrow> oauth_step sha w w'"
| disable: "oauth_step sha w (fst (disableOauthClient now cid t actor w))"
| mint_key: "createApiKey sha random newId now input (owRelay w) = Inr (r, i, p) \<Longrightarrow> kiGrantId input = None
    \<Longrightarrow> oauth_step sha w (w\<lparr>owRelay := r\<rparr>)"
| use_key: "oauth_step sha w (w\<lparr>owRelay := fst (verifyApiKey sha now presented (owRelay w))\<rparr>)"
| revoke_key: "oauth_step sha w (w\<lparr>owRelay := fst (revokeApiKey now i owner (owRelay w))\<rparr>)"
| other: "ryKeys r = ryKeys (owRelay w) \<Longrightarrow> oauth_step sha w (w\<lparr>owRelay := r\<rparr>)"

definition emptyOauth :: "oauth_world \<Rightarrow> bool" where
  "emptyOauth w = (owClients w = [] \<and> owCodes w = [] \<and> owGrants w = [] \<and> owRefresh w = [] \<and> ryKeys (owRelay w) = [])"

lemma grantInv_empty: "emptyOauth w \<Longrightarrow> grantInv w"
  by (simp add: emptyOauth_def grantInv_def keysOk_def mkeys_def)

lemma grantInv_step: "oauth_step sha w w' \<Longrightarrow> grantInv w \<Longrightarrow> grantInv w'"
proof (induction rule: oauth_step.induct)
  case (register idRandom secretRandom newId input actor w w' result)
  then show ?case by (auto simp: createOauthClient_def Let_def intro!: grantInv_register split: if_splits)
next
  case (register_again hmac newId input t idem secret actor w w' result)
  then show ?case
    by (auto simp: createOauthClientIdempotently_def Let_def intro!: grantInv_register split: if_splits option.splits)
qed (auto intro: grantInv_decision grantInv_token grantInv_revokeGrant grantInv_revokeToken grantInv_disable grantInv_mintKey
       grantInv_verify grantInv_revokeKey grantInv_relay)

lemma grantInv_steps: "(oauth_step sha)\<^sup>*\<^sup>* w w' \<Longrightarrow> grantInv w \<Longrightarrow> grantInv w'"
  by (induction rule: rtranclp_induct) (auto intro: grantInv_step)

lemma decision_code:
  assumes "decisionEndpoint hmac sha vp parseUrl others tn hosted random newId now b w st = (w', st', page)" and "w' \<noteq> w"
  shows "\<exists>cid client ac binding owner. owCodes w' = mput newId ac (owCodes w) \<and> \<not> mhas (owCodes w) newId
    \<and> getOauthClient (the (crClientId b)) w = Some (cid, client) \<and> clDisabledAt client = None \<and> coClientId ac = cid
    \<and> binding = \<lparr>cbClientId = clClientId client, cbRedirectUri = coRedirectUri ac, cbScope = scopeText (coScopes ac),
        cbCodeChallenge = the (coCodeChallenge ac)\<rparr>
    \<and> snd (verifyConsentTicket hmac others (tnIdentityAssertionSecret tn) now (tnId tn) (the (crConsentTicket b)) binding st)
    \<and> registeredRedirect parseUrl client (coRedirectUri ac) \<and> truthy (coCodeChallenge ac)
    \<and> set (coScopes ac) \<subseteq> set API_SCOPES \<inter> set (clAllowedScopes client)
    \<and> coOwnerSubject ac = owner \<and> coConnectionGrants ac \<noteq> [] \<and> set (coConnectionGrants ac) \<subseteq> set (ownedConnections owner w)
    \<and> coExpiresAt ac = now + AUTHORIZATION_CODE_TTL_MS \<and> coConsumedAt ac = None
    \<and> owGrants w' = owGrants w \<and> owRefresh w' = owRefresh w \<and> owRelay w' = owRelay w"
proof -
  obtain cid client scopes owner where f: "getOauthClient (the (crClientId b)) w = Some (cid, client)" "clDisabledAt client = None"
    "resolveScopes (crScope b) client = Some scopes" "registeredRedirect parseUrl client (the (crRedirectUri b))"
    "truthy (crCodeChallenge b)"
    "verifyConsentTicket hmac others (tnIdentityAssertionSecret tn) now (tnId tn) (the (crConsentTicket b))
        \<lparr>cbClientId = clClientId client, cbRedirectUri = the (crRedirectUri b), cbScope = scopeText scopes,
         cbCodeChallenge = the (crCodeChallenge b)\<rparr> st = (st', True)"
    and a: "approveConsent sha random newId now b owner cid scopes w = (w', page)"
    using decision_cases [OF assms(1)] assms(2) by blast
  let ?conns = "if crGrantAll b = Some ''on'' then ownedConnections owner w
    else filter (\<lambda>i. i \<in> set (ownedConnections owner w)) (crConnectionGrants b)"
  define ac where "ac = \<lparr>coOwnerSubject = owner, coCodeHash = snd (generateAuthorizationCode sha random), coClientId = cid,
    coRedirectUri = the (crRedirectUri b), coScopes = scopes, coConnectionGrants = ?conns, coCodeChallenge = crCodeChallenge b,
    coExpiresAt = now + AUTHORIZATION_CODE_TTL_MS, coConsumedAt = None\<rparr>"
  have w': "w' = writeAudit ''operator'' (crOperatorSubject b) ''oauth.authorize'' cid (w\<lparr>owCodes := mput newId ac (owCodes w)\<rparr>)"
    "\<not> mhas (owCodes w) newId" "?conns \<noteq> []"
    using a assms(2) by (auto simp: approveConsent_def generateAuthorizationCode_def Let_def ac_def split: if_splits)
  have ac: "owCodes w' = mput newId ac (owCodes w)" "\<not> mhas (owCodes w) newId" "coOwnerSubject ac = owner" "coClientId ac = cid"
    "coRedirectUri ac = the (crRedirectUri b)" "coScopes ac = scopes" "coCodeChallenge ac = crCodeChallenge b"
    "coExpiresAt ac = now + AUTHORIZATION_CODE_TTL_MS" "coConsumedAt ac = None" "coConnectionGrants ac \<noteq> []"
    "set (coConnectionGrants ac) \<subseteq> set (ownedConnections owner w)"
    "owGrants w' = owGrants w" "owRefresh w' = owRefresh w" "owRelay w' = owRelay w"
    using w' by (auto simp: ac_def writeAudit_def)
  show ?thesis
    using f ac resolveScopes_ok [OF f(3)] by (intro exI [of _ cid] exI [of _ client] exI [of _ ac] exI [of _ owner] exI) auto
qed

section \<open>Codes under interleaving\<close>

text \<open>
  Exchanges of codes may overlap: the checks of one request (\<open>pending\<close> keeps what they read) and its
  transaction are separate steps. Requests that leave the codes alone may do anything else. Row ids are
  not used twice.
\<close>

datatype code_event = CodeIssued string auth_code | CodeRedeemed string string string oauth_grant

fun eventCode :: "code_event \<Rightarrow> string" where
  "eventCode (CodeIssued i _) = i"
| "eventCode (CodeRedeemed i _ _ _) = i"

inductive code_run :: "digest \<Rightarrow> code_event list \<Rightarrow> (string \<times> auth_code \<times> string \<times> string) set \<Rightarrow> oauth_world \<Rightarrow> bool"
  for sha :: digest where
  start: "owCodes w = [] \<Longrightarrow> code_run sha [] {} w"
| issue: "code_run sha evs pending w \<Longrightarrow> newId \<notin> eventCode ` set evs
    \<Longrightarrow> decisionEndpoint hmac sha vp parseUrl others tn hosted random newId now b w st = (w', st', page) \<Longrightarrow> w' \<noteq> w
    \<Longrightarrow> mget (owCodes w') newId = Some ac \<Longrightarrow> code_run sha (CodeIssued newId ac # evs) pending w'"
| check: "code_run sha evs pending w
    \<Longrightarrow> checkAuthorizationCode sha now cid code uri (Some verifier) w = Inr (aid, ac)
    \<Longrightarrow> code_run sha evs (insert (aid, ac, cid, verifier) pending) w"
| redeem: "code_run sha evs pending w \<Longrightarrow> (aid, ac, cid, verifier) \<in> pending
    \<Longrightarrow> redeemAuthorizationCode sha m now cid client aid ac w = Inr (w', Some tokens)
    \<Longrightarrow> mget (owGrants w') (tmGrantId m) = Some grant
    \<Longrightarrow> code_run sha (CodeRedeemed aid cid verifier grant # evs) pending w'"
| disable: "code_run sha evs pending w \<Longrightarrow> code_run sha evs pending (fst (disableOauthClient now cid tenant actor w))"
| other: "code_run sha evs pending w \<Longrightarrow> owCodes w' = owCodes w \<Longrightarrow> code_run sha evs pending w'"

definition lawfulRedemption :: "digest \<Rightarrow> code_event \<Rightarrow> code_event list \<Rightarrow> bool" where
  "lawfulRedemption sha ev evs =
     (case ev of
        CodeRedeemed aid cid v g \<Rightarrow>
          (\<forall>c x h. CodeRedeemed aid c x h \<notin> set evs)
          \<and> (\<exists>ac. CodeIssued aid ac \<in> set evs \<and> coClientId ac = cid \<and> gtClientId g = cid \<and> verifyPkceS256 sha v (the (coCodeChallenge ac))
               \<and> gtOwnerSubject g = coOwnerSubject ac \<and> gtScopes g = coScopes ac \<and> gtConnectionGrants g = coConnectionGrants ac)
      | CodeIssued aid ac \<Rightarrow> aid \<notin> eventCode ` set evs)"

definition codeTold :: "code_event list \<Rightarrow> string \<Rightarrow> auth_code \<Rightarrow> bool" where
  "codeTold evs aid a =
     (\<exists>c. CodeIssued aid c \<in> set evs \<and> (coConsumedAt a = None \<longrightarrow> a = c \<and> (\<forall>d x h. CodeRedeemed aid d x h \<notin> set evs)))"

definition codeInv :: "digest \<Rightarrow> code_event list \<Rightarrow> (string \<times> auth_code \<times> string \<times> string) set \<Rightarrow> oauth_world \<Rightarrow> bool" where
  "codeInv sha evs pending w =
     (distinct (mkeys (owCodes w)) \<and> (\<forall>i a. mget (owCodes w) i = Some a \<longrightarrow> codeTold evs i a)
      \<and> (\<forall>(aid, ac, cid, v) \<in> pending. CodeIssued aid ac \<in> set evs \<and> coClientId ac = cid \<and> verifyPkceS256 sha v (the (coCodeChallenge ac)))
      \<and> (\<forall>later ev first. evs = later @ ev # first \<longrightarrow> lawfulRedemption sha ev first))"

lemma codeInv_event:
  assumes "codeInv sha evs pending w" "lawfulRedemption sha ev evs" "distinct (mkeys (owCodes w'))"
    and "\<And>i a. mget (owCodes w') i = Some a \<Longrightarrow> codeTold (ev # evs) i a"
  shows "codeInv sha (ev # evs) pending w'"
proof -
  have "lawfulRedemption sha x first" if "ev # evs = later @ x # first" for later x first
    using that assms(1,2) by (cases later) (auto simp: codeInv_def)
  then show ?thesis using assms unfolding codeInv_def by fastforce
qed

lemma codeInv_issue:
  assumes inv: "codeInv sha evs pending w" and fresh: "newId \<notin> eventCode ` set evs"
    and d: "decisionEndpoint hmac sha vp parseUrl others tn hosted random newId now b w st = (w', st', page)" "w' \<noteq> w"
    and ac: "mget (owCodes w') newId = Some ac"
  shows "codeInv sha (CodeIssued newId ac # evs) pending w'"
proof (rule codeInv_event [OF inv])
  have codes: "owCodes w' = mput newId ac (owCodes w)" using decision_code [OF d] ac by auto
  have none: "CodeRedeemed newId c x h \<notin> set evs" for c x h using fresh by (force simp: image_iff)
  show "distinct (mkeys (owCodes w'))" using inv by (simp add: codes codeInv_def)
  show "lawfulRedemption sha (CodeIssued newId ac) evs" using fresh by (simp add: lawfulRedemption_def)
  fix i a assume "mget (owCodes w') i = Some a"
  then show "codeTold (CodeIssued newId ac # evs) i a"
    using inv none by (cases "i = newId") (auto simp: codes codeInv_def codeTold_def)
qed

lemma redeem_Some:
  assumes "redeemAuthorizationCode sha m now cid client aid ac w = Inr (w', Some tokens)"
  shows "matching (\<lambda>i a. i = aid \<and> coConsumedAt a = None) (owCodes w) \<noteq> []
    \<and> owCodes w' = updateRows (\<lambda>i a. i = aid \<and> coConsumedAt a = None) (\<lambda>a. a\<lparr>coConsumedAt := Some now\<rparr>) (owCodes w)
    \<and> mget (owGrants w') (tmGrantId m) = Some \<lparr>gtOwnerSubject = coOwnerSubject ac, gtClientId = cid, gtScopes = coScopes ac,
        gtConnectionGrants = coConnectionGrants ac, gtExpiresAt = now + OAUTH_GRANT_TTL_MS, gtRevokedAt = None\<rparr>"
  using assms by (auto simp: redeemAuthorizationCode_def Let_def writeAudit_def split: if_splits sum.splits dest!: issueTokens_Inr)

lemma codeInv_redeem:
  assumes inv: "codeInv sha evs pending w" and p: "(aid, ac, cid, verifier) \<in> pending"
    and r: "redeemAuthorizationCode sha m now cid client aid ac w = Inr (w', Some tokens)"
    and g: "mget (owGrants w') (tmGrantId m) = Some grant"
  shows "codeInv sha (CodeRedeemed aid cid verifier grant # evs) pending w'"
proof (rule codeInv_event [OF inv])
  note f = redeem_Some [OF r]
  from f obtain a where "(aid, a) \<in> set (owCodes w)" "coConsumedAt a = None" by (auto simp: matching_def filter_empty_conv)
  then have a: "mget (owCodes w) aid = Some a" "coConsumedAt a = None" using inv by (auto simp: codeInv_def mget_def mkeys_def)
  with inv have "codeTold evs aid a" by (simp add: codeInv_def)
  with a(2) have told: "CodeIssued aid a \<in> set evs" "\<forall>d x h. CodeRedeemed aid d x h \<notin> set evs" by (auto simp: codeTold_def)
  have pend: "CodeIssued aid ac \<in> set evs" "coClientId ac = cid" "verifyPkceS256 sha verifier (the (coCodeChallenge ac))"
    using inv p by (auto simp: codeInv_def)
  show "lawfulRedemption sha (CodeRedeemed aid cid verifier grant) evs"
    using told(2) pend f g by (auto simp: lawfulRedemption_def)
  show "distinct (mkeys (owCodes w'))" using inv f by (simp add: codeInv_def)
  fix i x assume "mget (owCodes w') i = Some x"
  then obtain y where y: "mget (owCodes w) i = Some y" "x = (if i = aid \<and> coConsumedAt y = None then y\<lparr>coConsumedAt := Some now\<rparr> else y)"
    using f by (auto simp: mget_updateRows)
  have "codeTold evs i y" using inv y(1) by (simp add: codeInv_def)
  then show "codeTold (CodeRedeemed aid cid verifier grant # evs) i x"
    using y by (cases "i = aid") (auto simp: codeTold_def)
qed

lemma codeInv_run: "code_run sha evs pending w \<Longrightarrow> codeInv sha evs pending w"
proof (induction rule: code_run.induct)
  case (start w)
  then show ?case by (simp add: codeInv_def mkeys_def)
next
  case (issue evs pending w newId hmac vp parseUrl others tn hosted random now b st w' st' page ac)
  from codeInv_issue [OF issue.IH issue.hyps(2-5)] show ?case .
next
  case (check evs pending w now cid code uri verifier aid ac)
  then have d: "distinct (mkeys (owCodes w))" and law: "\<forall>later ev first. evs = later @ ev # first \<longrightarrow> lawfulRedemption sha ev first"
    by (simp_all add: codeInv_def)
  have ac: "mget (owCodes w) aid = Some ac" "coClientId ac = cid" "coConsumedAt ac = None" "verifyPkceS256 sha verifier (the (coCodeChallenge ac))"
    using check.hyps(2) find_mget [OF d, of "\<lambda>i a. coCodeHash a = hashCode sha code" aid ac]
    by (auto simp: checkAuthorizationCode_def split: option.splits if_splits)
  then have "CodeIssued aid ac \<in> set evs" using check.IH by (auto simp: codeInv_def codeTold_def)
  with ac check.IH show ?case by (auto simp: codeInv_def)
next
  case (redeem evs pending w aid ac cid verifier m now client w' tokens grant)
  then show ?case by (metis codeInv_redeem)
next
  case (disable evs pending w now cid tenant actor)
  have "owCodes (fst (disableOauthClient now cid tenant actor w)) = owCodes w
      \<or> owCodes (fst (disableOauthClient now cid tenant actor w)) = filter (\<lambda>(i, a). coClientId a \<noteq> cid) (owCodes w)"
    by (simp add: disableOauthClient_def deleteGrantsWhere_def writeAudit_def Let_def)
  then show ?case using disable.IH mget_filter [of "owCodes w" "\<lambda>i a. coClientId a \<noteq> cid"]
    by (auto simp: codeInv_def mkeys_def distinct_map_filter split: option.splits if_splits)
next
  case (other evs pending w w')
  then show ?case by (simp add: codeInv_def)
qed

section \<open>A run of the protocol\<close>

text \<open>
  One client is registered, authorised, redeems its code and rotates its refresh token. Hashing is the
  identity and the MAC is its key, so that every step can be evaluated.
\<close>

definition oauthSha :: digest where
  "oauthSha s = utf8 s"

definition oauthMac :: mac_fun where
  "oauthMac k m = k"

definition demoVerifier :: string where
  "demoVerifier = replicate 43 (CHR ''v'')"

definition demoStart :: oauth_world where
  "demoStart =
     \<lparr>owRelay = \<lparr>ryDevices = [], rySessions = [],
        ryConnections = [(''c1'', \<lparr>rcOwnerSubject = SELF_HOSTED_OPERATOR_SUBJECT, rcInstitutionId = ''b'', rcNickname = None\<rparr>)],
        ryInstitutions = [], ryKeys = [], ryEvents = [], ryStaged = []\<rparr>,
      owClients = [], owCodes = [], owGrants = [], owRefresh = [], owAudit = []\<rparr>"

definition demoClientInput :: client_input where
  "demoClientInput = \<lparr>ciName = ''App'', ciRecipientTenantId = None, ciRedirectUris = [''https://app/cb''], ciAllowedScopes = [''read:data''],
     ciIsPublic = True\<rparr>"

definition demoRegistered :: oauth_world where
  "demoRegistered = (case createOauthClient oauthSha [1] [] ''cl'' demoClientInput None demoStart of Inr (w, _) \<Rightarrow> w | Inl _ \<Rightarrow> demoStart)"

definition demoBinding :: consent_binding where
  "demoBinding = \<lparr>cbClientId = ''accl_AQ'', cbRedirectUri = ''https://app/cb'', cbScope = ''read:data'',
     cbCodeChallenge = b64url_encode (oauthSha demoVerifier)\<rparr>"

definition demoConsentRequest :: consent_request where
  "demoConsentRequest =
     \<lparr>crClientId = Some ''accl_AQ'', crRedirectUri = Some ''https://app/cb'', crResponseType = None, crState = None,
      crScope = Some ''read:data'', crCodeChallenge = Some (cbCodeChallenge demoBinding), crCodeChallengeMethod = Some ''S256'',
      crDecision = Some ''approve'', crPassword = None,
      crConsentTicket = Some (signConsentTicket oauthMac ''secret'' demoBinding 100 600000 ''self-hosted''),
      crGrantAll = None, crConnectionGrants = [''c1'', ''other''], crOperator = False, crOperatorSubject = None\<rparr>"

definition demoOperator :: operator_state where
  "demoOperator = \<lparr>osCredential = Some \<lparr>ocPasswordHash = ''hash'', ocTokenSigningSecret = ''secret''\<rparr>,
     osCache = [(''self-hosted'', Some ''secret'')]\<rparr>"

definition demoTenant :: tenant where
  "demoTenant = \<lparr>tnId = ''self-hosted'', tnIdentityAssertionSecret = None\<rparr>"

definition demoCode :: auth_code where
  "demoCode = \<lparr>coOwnerSubject = SELF_HOSTED_OPERATOR_SUBJECT, coCodeHash = hashCode oauthSha ''acoc_AQ'', coClientId = ''cl'',
     coRedirectUri = ''https://app/cb'', coScopes = [''read:data''], coConnectionGrants = [''c1''],
     coCodeChallenge = Some (cbCodeChallenge demoBinding), coExpiresAt = 300200, coConsumedAt = None\<rparr>"

definition demoApproved :: oauth_world where
  "demoApproved = writeAudit ''operator'' None ''oauth.authorize'' ''cl'' (demoRegistered\<lparr>owCodes := [(''a1'', demoCode)]\<rparr>)"

definition demoTokenRequest :: "string \<Rightarrow> string \<Rightarrow> token_request" where
  "demoTokenRequest kind secret =
     \<lparr>trAuthorization = None, trClientId = Some ''accl_AQ'', trClientSecret = None, trGrantType = Some kind, trCode = Some secret,
      trRedirectUri = Some ''https://app/cb'', trCodeVerifier = Some demoVerifier, trRefreshToken = Some secret\<rparr>"

definition demoMaterial :: "byte \<Rightarrow> string \<Rightarrow> token_material" where
  "demoMaterial b tag = \<lparr>tmAccessRandom = [b], tmRefreshRandom = [b], tmKeyId = ''k'' @ tag, tmRefreshId = ''r'' @ tag, tmGrantId = ''g1''\<rparr>"

definition demoRedeemed :: oauth_world where
  "demoRedeemed = fst (tokenEndpoint oauthSha (demoMaterial 1 ''1'') (\<lambda>v. v) 300 300 (demoTokenRequest ''authorization_code'' ''acoc_AQ'') demoApproved)"

definition demoRefreshed :: "oauth_interference \<Rightarrow> oauth_world \<times> token_reply" where
  "demoRefreshed others = tokenEndpoint oauthSha (demoMaterial 2 ''2'') others 400 600 (demoTokenRequest ''refresh_token'' ''acrt_AQ'') demoRedeemed"

lemma demo_ticket:
  "verifyConsentTicket oauthMac (\<lambda>s. s) None 200 ''self-hosted''
     (signConsentTicket oauthMac ''secret'' demoBinding 100 600000 ''self-hosted'') demoBinding demoOperator = (demoOperator, True)"
  using check_signed [of 100 600000 oauthMac "''secret''" 200 "''secret''" demoBinding "''self-hosted''" demoBinding "''self-hosted''"]
  by (simp add: verifyConsentTicket_def consentSigningSecret_def signingSecret_def demoOperator_def mget_Cons Let_def)

lemma demo_register:
  "createOauthClient oauthSha [1] [] ''cl'' demoClientInput None demoStart = Inr (demoRegistered, ''cl'', ''accl_AQ'', None)"
  by code_simp

lemma demo_client:
  "getOauthClient ''accl_AQ'' demoRegistered = Some (''cl'', clientRow ''accl_AQ'' None demoClientInput)"
  "clientRow ''accl_AQ'' None demoClientInput = \<lparr>clRecipientTenantId = ''self-hosted'', clClientId = ''accl_AQ'', clHashedSecret = None,
     clName = ''App'', clIsPublic = True, clRedirectUris = [''https://app/cb''], clAllowedScopes = [''read:data''], clDisabledAt = None\<rparr>"
  "resolveScopes (Some ''read:data'') (clientRow ''accl_AQ'' None demoClientInput) = Some [''read:data'']"
  "scopeText [''read:data''] = ''read:data''"
  by code_simp+

lemma demo_tables:
  "ownedConnections SELF_HOSTED_OPERATOR_SUBJECT demoRegistered = [''c1'']" "owCodes demoRegistered = []"
  "b64url_encode [1] = ''AQ''" "registeredRedirect (\<lambda>_. None) (clientRow ''accl_AQ'' None demoClientInput) ''https://app/cb''"
  "emptyOauth demoStart"
  by code_simp+

lemma demo_request:
  "crClientId demoConsentRequest = Some ''accl_AQ''" "crRedirectUri demoConsentRequest = Some ''https://app/cb''" "crState demoConsentRequest = None"
  "crScope demoConsentRequest = Some ''read:data''" "crCodeChallenge demoConsentRequest = Some (cbCodeChallenge demoBinding)"
  "crCodeChallengeMethod demoConsentRequest = Some ''S256''" "crDecision demoConsentRequest = Some ''approve''" "crGrantAll demoConsentRequest = None"
  "crConsentTicket demoConsentRequest = Some (signConsentTicket oauthMac ''secret'' demoBinding 100 600000 ''self-hosted'')"
  "crConnectionGrants demoConsentRequest = [''c1'', ''other'']" "crOperator demoConsentRequest = False" "crOperatorSubject demoConsentRequest = None"
  by (simp_all add: demoConsentRequest_def)

lemma demo_approve:
  "approveConsent oauthSha [1] ''a1'' 200 demoConsentRequest SELF_HOSTED_OPERATOR_SUBJECT ''cl'' [''read:data''] demoRegistered
     = (demoApproved, Redirect ''https://app/cb'' [(''code'', ''acoc_AQ'')])"
  by (simp add: approveConsent_def demo_request demo_tables redirectWith_def generateAuthorizationCode_def Let_def CODE_PREFIX_def
      demoApproved_def demoCode_def AUTHORIZATION_CODE_TTL_MS_def mput_fresh del: b64url_encode.simps)

lemma demo_challenge: "truthy (Some (cbCodeChallenge demoBinding))" "truthy (crConsentTicket demoConsentRequest)"
  by (simp_all add: demoBinding_def demo_request signConsentTicket_def Let_def CONSENT_TICKET_PREFIX_def) code_simp

lemma demo_decide:
  "decisionEndpoint oauthMac oauthSha (\<lambda>_ _. False) (\<lambda>_. None) (\<lambda>s. s) demoTenant False [1] ''a1'' 200 demoConsentRequest demoRegistered demoOperator
     = (demoApproved, demoOperator, Redirect ''https://app/cb'' [(''code'', ''acoc_AQ'')])"
proof -
  have b: "\<lparr>cbClientId = ''accl_AQ'', cbRedirectUri = ''https://app/cb'', cbScope = ''read:data'',
     cbCodeChallenge = cbCodeChallenge demoBinding\<rparr> = demoBinding" by (simp add: demoBinding_def)
  have o: "truthy (Some SELF_HOSTED_OPERATOR_SUBJECT)" by (simp add: SELF_HOSTED_OPERATOR_SUBJECT_def)
  show ?thesis
    using demo_challenge demo_client(1,3,4) demo_tables(4) demo_ticket demo_approve o
    by (simp add: decisionEndpoint_def Let_def demo_request demo_client(2) b demoTenant_def)
qed

lemma demo_distinct: "demoApproved \<noteq> demoRegistered"
  using demo_tables(2) by (auto simp: demoApproved_def writeAudit_def dest!: arg_cong [of _ _ owCodes])

lemma demo_redeem:
  "tokenEndpoint oauthSha (demoMaterial 1 ''1'') (\<lambda>v. v) 300 300 (demoTokenRequest ''authorization_code'' ''acoc_AQ'') demoApproved
     = (demoRedeemed, Tokens \<lparr>tpAccessToken = ''acck_AQ'', tpExpiresIn = 3600, tpRefreshToken = ''acrt_AQ'', tpScope = ''read:data''\<rparr>)"
  by code_simp

lemma demo_refresh:
  "demoRefreshed (\<lambda>v. v) = (fst (demoRefreshed (\<lambda>v. v)),
     Tokens \<lparr>tpAccessToken = ''acck_Ag'', tpExpiresIn = 3600, tpRefreshToken = ''acrt_Ag'', tpScope = ''read:data''\<rparr>)"
  by code_simp

lemma demo_oauth_reachable: "(oauth_step oauthSha)\<^sup>*\<^sup>* demoStart demoRedeemed"
proof -
  have "oauth_step oauthSha demoStart demoRegistered" by (rule oauth_step.register [OF demo_register])
  moreover have "oauth_step oauthSha demoRegistered demoApproved" by (rule oauth_step.decide [OF demo_decide])
  moreover have "oauth_step oauthSha demoApproved demoRedeemed" by (rule oauth_step.token [OF demo_redeem])
  ultimately show ?thesis by (meson converse_rtranclp_into_rtranclp rtranclp.rtrancl_refl)
qed

lemma demo_race:
  "let (w, reply) = demoRefreshed (\<lambda>v. fst (revokeGrant 500 ''g1'' None v)) in
     reply = Tokens \<lparr>tpAccessToken = ''acck_Ag'', tpExpiresIn = 3600, tpRefreshToken = ''acrt_Ag'', tpScope = ''read:data''\<rparr>
     \<and> map_option gtRevokedAt (mget (owGrants w) ''g1'') = Some (Some 500)
     \<and> map_option kcOauthGrantId (snd (verifyApiKey oauthSha 700 ''acck_Ag'' (owRelay w))) = Some (Some ''g1'')"
  by code_simp

section \<open>Properties\<close>

text \<open>
  C12: With requests handled one after the other, an OAuth access token is accepted only while the consent
  behind it stands: its grant exists, is not revoked and has not expired, the client is enabled, the
  token carries exactly the owner, the scopes and the connections of the grant, its scopes are public
  ones, and it is at most an hour old.
\<close>

theorem access_token_needs_live_grant:
  assumes "emptyOauth w0" "(oauth_step sha)\<^sup>*\<^sup>* w0 w"
    and v: "verifyApiKey sha now presented (owRelay w) = (r, Some ctx)" "kcOauthGrantId ctx = Some g"
  shows "\<exists>grant client k. mget (owGrants w) g = Some grant \<and> gtRevokedAt grant = None \<and> now < gtExpiresAt grant
    \<and> mget (owClients w) (gtClientId grant) = Some client \<and> clDisabledAt client = None
    \<and> kcOwnerSubject ctx = gtOwnerSubject grant \<and> kcScopes ctx = gtScopes grant \<and> set (kcScopes ctx) \<subseteq> set API_SCOPES
    \<and> kcConnectionGrants ctx = gtConnectionGrants grant
    \<and> mget (ryKeys (owRelay w)) (kcId ctx) = Some k \<and> now < akCreatedAt k + OAUTH_ACCESS_TOKEN_TTL_MS"
proof -
  have inv: "grantInv w" using grantInv_steps [OF assms(2) grantInv_empty [OF assms(1)]] .
  then have "distinct (mkeys (ryKeys (owRelay w)))" by (simp add: grantInv_def keysOk_def)
  from verify_Some [OF v(1) this] obtain k where k: "mget (ryKeys (owRelay w)) (kcId ctx) = Some k" "akRevokedAt k = None"
    "\<not> pastExpiry now (akExpiresAt k)" "ctx = keyContext (kcId ctx) k" by blast
  then have c: "akGrantId k = Some g" "kcOwnerSubject ctx = akOwnerSubject k" "kcScopes ctx = akScopes k"
    "kcConnectionGrants ctx = akConnectionGrants k" using v(2) by (metis api_key_context.simps keyContext_def)+
  have "keyFits (owGrants w) k" by (rule grantInvD(6) [OF inv k(1)])
  then obtain grant where g: "mget (owGrants w) g = Some grant" "akOwnerSubject k = gtOwnerSubject grant" "akScopes k = gtScopes grant"
    "akConnectionGrants k = gtConnectionGrants grant" "akExpiresAt k = Some (accessTokenExpiry (gtExpiresAt grant) (akCreatedAt k))"
    "gtRevokedAt grant = None"
    using c(1) k(2) by (auto simp: keyFits_def split: option.splits)
  moreover have "now < gtExpiresAt grant" "now < akCreatedAt k + OAUTH_ACCESS_TOKEN_TTL_MS"
    using k(3) g(5) by (simp_all add: pastExpiry_def accessTokenExpiry_def)
  ultimately show ?thesis using grantInvD(8) [OF inv g(1)] k(1) c by (auto simp: enabledClient_def)
qed

theorem access_token_needs_live_grant_witness:
  "\<exists>grant. mget (owGrants demoRedeemed) ''g1'' = Some grant \<and> gtRevokedAt grant = None"
proof -
  have "map_option kcOauthGrantId (snd (verifyApiKey oauthSha 700 ''acck_AQ'' (owRelay demoRedeemed))) = Some (Some ''g1'')" by code_simp
  then obtain r ctx where "verifyApiKey oauthSha 700 ''acck_AQ'' (owRelay demoRedeemed) = (r, Some ctx)" "kcOauthGrantId ctx = Some ''g1''"
    by (cases "verifyApiKey oauthSha 700 ''acck_AQ'' (owRelay demoRedeemed)") auto
  from access_token_needs_live_grant [OF demo_tables(5) demo_oauth_reachable this] show ?thesis by blast
qed




text \<open>
  A code is issued only to a request that proves the operator's sign-in for it: the ticket verifies for
  exactly this client, redirect URI, scope list and PKCE challenge, the client is enabled, the redirect
  URI is registered, the scopes are public and within the client's ceiling, and every connection the
  code carries is one the owner has. In every other case no table changes.
\<close>

theorem code_needs_consent:
  assumes "decisionEndpoint hmac sha vp parseUrl others tn hosted random newId now b w st = (w', st', page)" and "w' \<noteq> w"
  shows "\<exists>cid client ac binding owner. owCodes w' = mput newId ac (owCodes w) \<and> \<not> mhas (owCodes w) newId
    \<and> getOauthClient (the (crClientId b)) w = Some (cid, client) \<and> clDisabledAt client = None \<and> coClientId ac = cid
    \<and> binding = \<lparr>cbClientId = clClientId client, cbRedirectUri = coRedirectUri ac, cbScope = scopeText (coScopes ac),
        cbCodeChallenge = the (coCodeChallenge ac)\<rparr>
    \<and> snd (verifyConsentTicket hmac others (tnIdentityAssertionSecret tn) now (tnId tn) (the (crConsentTicket b)) binding st)
    \<and> registeredRedirect parseUrl client (coRedirectUri ac) \<and> truthy (coCodeChallenge ac)
    \<and> set (coScopes ac) \<subseteq> set API_SCOPES \<inter> set (clAllowedScopes client)
    \<and> coOwnerSubject ac = owner \<and> coConnectionGrants ac \<noteq> [] \<and> set (coConnectionGrants ac) \<subseteq> set (ownedConnections owner w)
    \<and> coExpiresAt ac = now + AUTHORIZATION_CODE_TTL_MS \<and> coConsumedAt ac = None
    \<and> owGrants w' = owGrants w \<and> owRefresh w' = owRefresh w \<and> owRelay w' = owRelay w"
  by (rule decision_code [OF assms])

theorem code_needs_consent_witness:
  "\<exists>ac owner. owCodes demoApproved = mput ''a1'' ac (owCodes demoRegistered)
     \<and> set (coConnectionGrants ac) \<subseteq> set (ownedConnections owner demoRegistered) \<and> coOwnerSubject ac = owner"
proof -
  from code_needs_consent [OF demo_decide demo_distinct] show ?thesis by blast
qed



lemma demo_code_run:
  "\<exists>P. code_run oauthSha [CodeIssued ''a1'' demoCode] P demoApproved \<and> (''a1'', demoCode, ''cl'', demoVerifier) \<in> P"
proof -
  have "mget (owCodes demoApproved) ''a1'' = Some demoCode" by (simp add: demoApproved_def writeAudit_def mget_Cons)
  then have "code_run oauthSha [CodeIssued ''a1'' demoCode] {} demoApproved"
    using demo_distinct code_run.issue [OF code_run.start [OF demo_tables(2)] _ demo_decide] by simp
  moreover have "checkAuthorizationCode oauthSha 300 ''cl'' ''acoc_AQ'' (Some ''https://app/cb'') (Some demoVerifier) demoApproved = Inr (''a1'', demoCode)"
    by code_simp
  ultimately show ?thesis using code_run.check by blast
qed

lemma demo_redemption:
  "let r = redeemAuthorizationCode oauthSha (demoMaterial 1 ''1'') 300 ''cl'' (clientRow ''accl_AQ'' None demoClientInput) ''a1'' demoCode demoApproved in
     (case r of Inr (w, Some tk) \<Rightarrow> mget (owGrants w) ''g1'' \<noteq> None | _ \<Rightarrow> False)"
  by code_simp


end
