(* ===== verification/DevicePairing.thy ===== *)
theory DevicePairing
  imports ApiKeys
begin

text \<open>
  \<^verbatim>\<open>apps/control-plane/src/data/device-pairing.ts\<close>: a pairing request travels from the console (create)
  to the phone (claim), back to the owner (approve or cancel) and to the phone again (complete), which
  mints a relay token and a data key bound to it. Every operation is one transaction; \<^verbatim>\<open>for update\<close> keeps
  the row it reads. Random bytes, ids, the verification code and the clock are arguments; the hosted
  pairing store is not modelled.
\<close>

section \<open>State\<close>

definition PAIRING_PREFIX :: string where
  "PAIRING_PREFIX = ''acpair_''"

definition CLAIM_PREFIX :: string where
  "CLAIM_PREFIX = ''acclaim_''"

definition PAIRING_LIFETIME_MS :: millis where
  "PAIRING_LIFETIME_MS = 5 * 60 * 1000"

record pairing_intent =
  inOwnerSubject :: string
  inName :: string
  inConnectionGrants :: "string list"
  inCodeHash :: string
  inClaimHash :: "string option"
  inVerificationCode :: "string option"
  inExpiresAt :: millis
  inApprovedAt :: "millis option"
  inConsumedAt :: "millis option"
  inDeviceId :: "string option"
  inCancelledAt :: "millis option"

record pairing_world =
  pwRelay :: relay_world
  pwIntents :: "pairing_intent jsmap"

datatype pairing_status =
  WaitingForPhone | WaitingForApproval | PairingApproved | PairingExpired | PairingUsed | PairingCancelled

record pairing_view =
  pvId :: string
  pvName :: string
  pvConnectionGrants :: "string list"
  pvExpiresAt :: millis
  pvVerificationCode :: "string option"
  pvStatus :: pairing_status

datatype pairing_completion = PairingStatus pairing_status | Paired string string string

definition hashSecret :: "digest \<Rightarrow> string \<Rightarrow> string" where
  "hashSecret sha s = to_hex (sha s)"

definition generatePairingCode :: "byte list \<Rightarrow> string" where
  "generatePairingCode random = PAIRING_PREFIX @ b64url_encode random"

definition generatePairingClaim :: "byte list \<Rightarrow> string" where
  "generatePairingClaim random = CLAIM_PREFIX @ b64url_encode random"

text \<open>\<open>n\<close> is the random number below one million; \<^verbatim>\<open>toString().padStart(6, '0')\<close>.\<close>

definition verificationCode :: "nat \<Rightarrow> string" where
  "verificationCode n = replicate (6 - length (show_nat n)) (CHR ''0'') @ show_nat n"

definition pairingStatus :: "millis \<Rightarrow> pairing_intent \<Rightarrow> pairing_status" where
  "pairingStatus now row =
     (if inCancelledAt row \<noteq> None then PairingCancelled
      else if inConsumedAt row \<noteq> None then PairingUsed
      else if inExpiresAt row \<le> now then PairingExpired
      else if inApprovedAt row \<noteq> None then PairingApproved
      else if truthy (inClaimHash row) then WaitingForApproval
      else WaitingForPhone)"

definition ownedCount :: "string \<Rightarrow> string list \<Rightarrow> relay_world \<Rightarrow> nat" where
  "ownedCount ownerSubject grants w =
     (if grants = [] then 0
      else length (filter (\<lambda>(i, c). rcOwnerSubject c = ownerSubject \<and> i \<in> set grants) (ryConnections w)))"

definition updateIntents ::
  "(string \<Rightarrow> pairing_intent \<Rightarrow> bool) \<Rightarrow> (pairing_intent \<Rightarrow> pairing_intent) \<Rightarrow> pairing_world \<Rightarrow> pairing_world" where
  "updateIntents p f w = w\<lparr>pwIntents := updateRows p f (pwIntents w)\<rparr>"

definition findIntent :: "(string \<Rightarrow> pairing_intent \<Rightarrow> bool) \<Rightarrow> pairing_world \<Rightarrow> (string \<times> pairing_intent) option" where
  "findIntent p w = find (\<lambda>(i, r). p i r) (pwIntents w)"

section \<open>Operations\<close>

definition createPairingIntent ::
  "digest \<Rightarrow> byte list \<Rightarrow> string \<Rightarrow> millis \<Rightarrow> string \<Rightarrow> string list \<Rightarrow> string \<Rightarrow> pairing_world
     \<Rightarrow> string + pairing_world \<times> pairing_view \<times> string" where
  "createPairingIntent sha random newId now name connectionGrants ownerSubject w =
     (let grants = sfrom connectionGrants in
      if length grants \<noteq> length connectionGrants \<or> ''*'' \<in> set grants
      then Inl ''pairing requires unique, exact connection grants''
      else if ownedCount ownerSubject grants (pwRelay w) \<noteq> length grants
      then Inl ''one or more connection grants are unavailable''
      else let kept = filter (\<lambda>(i, r). \<not> (inOwnerSubject r = ownerSubject \<and> inExpiresAt r < now)) (pwIntents w);
               pairingCode = generatePairingCode random;
               codeHash = hashSecret sha pairingCode;
               expiresAt = now + PAIRING_LIFETIME_MS
           in if mhas kept newId \<or> (\<exists>(i, r) \<in> set kept. inCodeHash r = codeHash)
              then Inl ''duplicate key value violates unique constraint''
              else Inr (w\<lparr>pwIntents := mput newId
                          \<lparr>inOwnerSubject = ownerSubject, inName = name, inConnectionGrants = grants, inCodeHash = codeHash,
                           inClaimHash = None, inVerificationCode = None, inExpiresAt = expiresAt, inApprovedAt = None,
                           inConsumedAt = None, inDeviceId = None, inCancelledAt = None\<rparr> kept\<rparr>,
                        \<lparr>pvId = newId, pvName = name, pvConnectionGrants = grants, pvExpiresAt = expiresAt,
                         pvVerificationCode = None, pvStatus = WaitingForPhone\<rparr>, pairingCode))"

definition getPairingIntent :: "millis \<Rightarrow> string \<Rightarrow> string \<Rightarrow> pairing_world \<Rightarrow> pairing_view option" where
  "getPairingIntent now intentId ownerSubject w =
     map_option (\<lambda>(i, row).
       \<lparr>pvId = i, pvName = inName row, pvConnectionGrants = inConnectionGrants row, pvExpiresAt = inExpiresAt row,
        pvVerificationCode = (if truthy (inClaimHash row) then inVerificationCode row else None),
        pvStatus = pairingStatus now row\<rparr>)
       (findIntent (\<lambda>i row. i = intentId \<and> inOwnerSubject row = ownerSubject) w)"

text \<open>The hash of a claim is unique: an update that repeats one raises.\<close>

definition claimPairingIntent ::
  "digest \<Rightarrow> string \<Rightarrow> millis \<Rightarrow> string \<Rightarrow> string \<Rightarrow> pairing_world
     \<Rightarrow> string + pairing_world \<times> pairing_status \<times> string option" where
  "claimPairingIntent sha code now pairingCode claim w =
     (let claimHash = hashSecret sha claim in
      case findIntent (\<lambda>i row. inCodeHash row = hashSecret sha pairingCode) w of
        None \<Rightarrow> Inr (w, PairingExpired, None)
      | Some (i, row) \<Rightarrow>
          let status = pairingStatus now row in
          if status \<noteq> WaitingForPhone \<and> inClaimHash row \<noteq> Some claimHash then Inr (w, status, None)
          else if inClaimHash row = Some claimHash \<and> truthy (inVerificationCode row)
          then Inr (w, status, inVerificationCode row)
          else if status \<noteq> WaitingForPhone then Inr (w, status, None)
          else if \<exists>(j, other) \<in> set (pwIntents w). inClaimHash other = Some claimHash
          then Inl ''duplicate key value violates unique constraint''
          else Inr (updateIntents (\<lambda>j r. j = i \<and> inClaimHash r = None)
                      (\<lambda>r. r\<lparr>inClaimHash := Some claimHash, inVerificationCode := Some code\<rparr>) w,
                    WaitingForApproval, Some code))"

definition approvePairingIntent ::
  "millis \<Rightarrow> string \<Rightarrow> string \<Rightarrow> pairing_world \<Rightarrow> pairing_world \<times> pairing_status option" where
  "approvePairingIntent now intentId ownerSubject w =
     (case findIntent (\<lambda>i row. i = intentId \<and> inOwnerSubject row = ownerSubject) w of
        None \<Rightarrow> (w, None)
      | Some (i, row) \<Rightarrow>
          let status = pairingStatus now row in
          if status \<noteq> WaitingForApproval then (w, Some status)
          else (updateIntents (\<lambda>j r. j = intentId) (\<lambda>r. r\<lparr>inApprovedAt := Some now\<rparr>) w, Some PairingApproved))"

definition cancelPairingIntent :: "millis \<Rightarrow> string \<Rightarrow> string \<Rightarrow> pairing_world \<Rightarrow> pairing_world \<times> bool" where
  "cancelPairingIntent now intentId ownerSubject w =
     (let p = (\<lambda>i r. i = intentId \<and> inOwnerSubject r = ownerSubject \<and> inConsumedAt r = None \<and> inCancelledAt r = None)
      in (updateIntents p (\<lambda>r. r\<lparr>inCancelledAt := Some now\<rparr>) w, matching p (pwIntents w) \<noteq> []))"

text \<open>The credentials of a completed request: the device row, then the key bound to it.\<close>

definition mintPairedCredentials ::
  "digest \<Rightarrow> byte list \<Rightarrow> byte list \<Rightarrow> string \<Rightarrow> string \<Rightarrow> millis \<Rightarrow> pairing_intent \<Rightarrow> relay_world
     \<Rightarrow> string + relay_world \<times> string \<times> string" where
  "mintPairedCredentials sha relayRandom keyRandom deviceId keyId now intent r =
     (case pairDevice sha relayRandom deviceId now
             \<lparr>piName = inName intent, piConnectionGrants = Some (inConnectionGrants intent),
              piPushTransport = None, piPushToken = None\<rparr> (inOwnerSubject intent) r of
        Inl e \<Rightarrow> Inl e
      | Inr (r1, device, deviceToken) \<Rightarrow>
          (case createApiKey sha keyRandom keyId now
                  \<lparr>kiName = inName intent @ '' companion data'', kiScopes = [''read:companion''],
                   kiConnectionGrants = inConnectionGrants intent, kiOwnerSubject = Some (inOwnerSubject intent),
                   kiExpiresAt = None, kiGrantId = None, kiDeviceId = Some device\<rparr> r1 of
             Inl e \<Rightarrow> Inl e
           | Inr (r2, key, financialToken) \<Rightarrow> Inr (r2, deviceToken, financialToken)))"

definition completePairingIntent ::
  "digest \<Rightarrow> byte list \<Rightarrow> byte list \<Rightarrow> string \<Rightarrow> string \<Rightarrow> millis \<Rightarrow> string \<Rightarrow> string \<Rightarrow> pairing_world
     \<Rightarrow> string + pairing_world \<times> pairing_completion" where
  "completePairingIntent sha relayRandom keyRandom deviceId keyId now pairingCode claim w =
     (case findIntent (\<lambda>i row. inCodeHash row = hashSecret sha pairingCode) w of
        None \<Rightarrow> Inr (w, PairingStatus PairingExpired)
      | Some (i, intent) \<Rightarrow>
          if inClaimHash intent \<noteq> Some (hashSecret sha claim) then Inr (w, PairingStatus PairingExpired)
          else if inConsumedAt intent \<noteq> None then Inr (w, PairingStatus PairingUsed)
          else if pairingStatus now intent \<noteq> PairingApproved
          then Inr (w, PairingStatus (if pairingStatus now intent = WaitingForPhone then WaitingForApproval
                                      else pairingStatus now intent))
          else if ownedCount (inOwnerSubject intent) (inConnectionGrants intent) (pwRelay w)
                  \<noteq> length (inConnectionGrants intent)
          then Inr (w, PairingStatus PairingCancelled)
          else case mintPairedCredentials sha relayRandom keyRandom deviceId keyId now intent (pwRelay w) of
                 Inl e \<Rightarrow> Inl e
               | Inr (r, deviceToken, financialToken) \<Rightarrow>
                   Inr (updateIntents (\<lambda>j row. j = i) (\<lambda>row. row\<lparr>inConsumedAt := Some now, inDeviceId := Some deviceId\<rparr>)
                          (w\<lparr>pwRelay := r\<rparr>),
                        Paired deviceId deviceToken financialToken))"

section \<open>Runs\<close>

text \<open>
  What happens to pairing requests, newest first. Calls that leave the table of requests as it is are not
  recorded, and the other tables may change in any way between two calls. A row id is random and is
  not used twice.
\<close>

datatype pairing_event =
    Created string string "string list" millis
  | Claimed string string
  | ApprovedBy string string
  | CancelledBy string
  | CompletedAs string string string millis

fun eventIntent :: "pairing_event \<Rightarrow> string" where
  "eventIntent (Created i _ _ _) = i"
| "eventIntent (Claimed i _) = i"
| "eventIntent (ApprovedBy i _) = i"
| "eventIntent (CancelledBy i) = i"
| "eventIntent (CompletedAs i _ _ _) = i"

inductive pairing_run :: "digest \<Rightarrow> pairing_event list \<Rightarrow> pairing_world \<Rightarrow> bool" for sha :: digest where
  start: "pwIntents w = [] \<Longrightarrow> pairing_run sha [] w"
| create: "pairing_run sha evs w \<Longrightarrow> newId \<notin> eventIntent ` set evs
    \<Longrightarrow> createPairingIntent sha random newId now name grants owner w = Inr (w', view, code)
    \<Longrightarrow> pairing_run sha (Created newId owner (pvConnectionGrants view) (pvExpiresAt view) # evs) w'"
| claim: "pairing_run sha evs w \<Longrightarrow> findIntent (\<lambda>i row. inCodeHash row = hashSecret sha pairingCode) w = Some (i, row)
    \<Longrightarrow> claimPairingIntent sha code now pairingCode claim w = Inr (w', st, shown) \<Longrightarrow> w' \<noteq> w
    \<Longrightarrow> pairing_run sha (Claimed i (hashSecret sha claim) # evs) w'"
| approve: "pairing_run sha evs w \<Longrightarrow> approvePairingIntent now i owner w = (w', st) \<Longrightarrow> w' \<noteq> w
    \<Longrightarrow> pairing_run sha (ApprovedBy i owner # evs) w'"
| cancel: "pairing_run sha evs w \<Longrightarrow> cancelPairingIntent now i owner w = (w', True)
    \<Longrightarrow> pairing_run sha (CancelledBy i # evs) w'"
| complete: "pairing_run sha evs w \<Longrightarrow> findIntent (\<lambda>i row. inCodeHash row = hashSecret sha pairingCode) w = Some (i, row)
    \<Longrightarrow> completePairingIntent sha relayRandom keyRandom deviceId keyId now pairingCode claim w = Inr (w', Paired device token key)
    \<Longrightarrow> pairing_run sha (CompletedAs i (hashSecret sha claim) device now # evs) w'"
| other: "pairing_run sha evs w \<Longrightarrow> pairing_run sha evs (w\<lparr>pwRelay := r\<rparr>)"

text \<open>What a row says about the events so far.\<close>

definition claimedThenApproved :: "string \<Rightarrow> string \<Rightarrow> string \<Rightarrow> string list \<Rightarrow> millis \<Rightarrow> pairing_event list \<Rightarrow> bool" where
  "claimedThenApproved i owner h grants e evs =
     (\<exists>mid first. evs = mid @ ApprovedBy i owner # first \<and> Claimed i h \<in> set first \<and> Created i owner grants e \<in> set first)"

definition rowTold :: "pairing_event list \<Rightarrow> string \<Rightarrow> pairing_intent \<Rightarrow> bool" where
  "rowTold evs i row =
     (Created i (inOwnerSubject row) (inConnectionGrants row) (inExpiresAt row) \<in> set evs
      \<and> distinct (inConnectionGrants row) \<and> ''*'' \<notin> set (inConnectionGrants row)
      \<and> (\<forall>h. inClaimHash row = Some h \<longrightarrow> Claimed i h \<in> set evs)
      \<and> (inApprovedAt row \<noteq> None \<longrightarrow> (\<exists>h. inClaimHash row = Some h
           \<and> claimedThenApproved i (inOwnerSubject row) h (inConnectionGrants row) (inExpiresAt row) evs))
      \<and> (inConsumedAt row = None \<longrightarrow> (\<forall>h d n. CompletedAs i h d n \<notin> set evs))
      \<and> (inCancelledAt row = None \<longrightarrow> CancelledBy i \<notin> set evs))"

definition lawfulCompletion :: "pairing_event \<Rightarrow> pairing_event list \<Rightarrow> bool" where
  "lawfulCompletion ev evs =
     (case ev of
        CompletedAs i h d n \<Rightarrow>
          (\<forall>h' d' n'. CompletedAs i h' d' n' \<notin> set evs) \<and> CancelledBy i \<notin> set evs
          \<and> (\<exists>owner grants e. claimedThenApproved i owner h grants e evs \<and> n < e \<and> distinct grants \<and> ''*'' \<notin> set grants)
      | _ \<Rightarrow> True)"

definition runInv :: "pairing_event list \<Rightarrow> pairing_world \<Rightarrow> bool" where
  "runInv evs w =
     (distinct (mkeys (pwIntents w)) \<and> (\<forall>i row. mget (pwIntents w) i = Some row \<longrightarrow> rowTold evs i row)
      \<and> (\<forall>later ev first. evs = later @ ev # first \<longrightarrow> lawfulCompletion ev first))"

lemma claimedThenApproved_Cons:
  "claimedThenApproved i owner h grants e evs \<Longrightarrow> claimedThenApproved i owner h grants e (ev # evs)"
  unfolding claimedThenApproved_def by (metis append_Cons)

text \<open>An event about another request, or one that a row does not deny, leaves what the row says true.\<close>

lemma rowTold_Cons:
  assumes "rowTold evs i row" "\<And>h d n. ev = CompletedAs i h d n \<Longrightarrow> inConsumedAt row \<noteq> None"
    "ev = CancelledBy i \<Longrightarrow> inCancelledAt row \<noteq> None"
  shows "rowTold (ev # evs) i row"
  using assms unfolding rowTold_def by (auto intro: claimedThenApproved_Cons)

lemma runInv_events:
  assumes inv: "runInv evs w" and law: "lawfulCompletion ev evs" and d: "distinct (mkeys (pwIntents w'))"
    and rows: "\<And>i row. mget (pwIntents w') i = Some row \<Longrightarrow> rowTold (ev # evs) i row"
  shows "runInv (ev # evs) w'"
proof -
  have "lawfulCompletion x first" if "ev # evs = later @ x # first" for later x first
    using that inv law by (cases later) (auto simp: runInv_def)
  with d rows show ?thesis by (auto simp: runInv_def)
qed

lemma findIntent_mget:
  "distinct (mkeys (pwIntents w)) \<Longrightarrow> findIntent p w = Some (i, row) \<Longrightarrow> mget (pwIntents w) i = Some row \<and> p i row"
  unfolding findIntent_def by (auto simp: find_Some_iff mget_def mkeys_def in_set_conv_nth intro!: map_of_is_SomeI)

lemma mget_filter_Some:
  "distinct (mkeys m) \<Longrightarrow> mget (filter p m) i = Some r \<Longrightarrow> mget m i = Some r"
  by (auto simp: mget_def mkeys_def intro!: map_of_is_SomeI dest!: map_of_SomeD)

lemma distinct_filter_keys [simp]: "distinct (mkeys m) \<Longrightarrow> distinct (mkeys (filter p m))"
  by (simp add: mkeys_def distinct_map_filter)

lemma fresh_intent: "runInv evs w \<Longrightarrow> i \<notin> eventIntent ` set evs \<Longrightarrow> mget (pwIntents w) i = None"
proof (cases "mget (pwIntents w) i")
  case (Some row)
  assume "runInv evs w" and f: "i \<notin> eventIntent ` set evs"
  then have "Created i (inOwnerSubject row) (inConnectionGrants row) (inExpiresAt row) \<in> set evs"
    using Some by (simp add: runInv_def rowTold_def)
  from imageI [OF this, of eventIntent] f show ?thesis by simp
qed

lemma distinct_sfrom: "distinct (sfrom xs)"
proof -
  have "distinct ys \<Longrightarrow> distinct (fold sadd xs ys)" for ys by (induction xs arbitrary: ys) auto
  from this [of "[]"] show ?thesis by (simp add: sfrom_def)
qed

lemma createPairingIntent_Inr:
  assumes "createPairingIntent sha random newId now name connectionGrants owner w = Inr (w', view, code)"
  shows "pwIntents w' = mput newId
      \<lparr>inOwnerSubject = owner, inName = name, inConnectionGrants = pvConnectionGrants view, inCodeHash = hashSecret sha code,
       inClaimHash = None, inVerificationCode = None, inExpiresAt = pvExpiresAt view, inApprovedAt = None,
       inConsumedAt = None, inDeviceId = None, inCancelledAt = None\<rparr>
      (filter (\<lambda>(i, r). \<not> (inOwnerSubject r = owner \<and> inExpiresAt r < now)) (pwIntents w))
    \<and> pvConnectionGrants view = sfrom connectionGrants \<and> ''*'' \<notin> set connectionGrants
    \<and> pvExpiresAt view = now + PAIRING_LIFETIME_MS"
  using assms unfolding createPairingIntent_def Let_def by (auto split: if_splits)

lemma runInv_create:
  assumes inv: "runInv evs w" and fresh: "newId \<notin> eventIntent ` set evs"
    and c: "createPairingIntent sha random newId now name grants owner w = Inr (w', view, code)"
  shows "runInv (Created newId owner (pvConnectionGrants view) (pvExpiresAt view) # evs) w'"
proof (rule runInv_events [OF inv])
  let ?kept = "filter (\<lambda>(i, r). \<not> (inOwnerSubject r = owner \<and> inExpiresAt r < now)) (pwIntents w)"
  obtain row where w': "pwIntents w' = mput newId row ?kept" and row: "inOwnerSubject row = owner"
    "inConnectionGrants row = pvConnectionGrants view" "inExpiresAt row = pvExpiresAt view" "inClaimHash row = None"
    "inApprovedAt row = None"
    using createPairingIntent_Inr [OF c] by auto
  have g: "distinct (pvConnectionGrants view)" "''*'' \<notin> set (pvConnectionGrants view)"
    using createPairingIntent_Inr [OF c] by (simp_all add: distinct_sfrom)
  have d: "distinct (mkeys (pwIntents w))" using inv by (simp add: runInv_def)
  then show "distinct (mkeys (pwIntents w'))" by (simp add: w')
  show "lawfulCompletion (Created newId owner (pvConnectionGrants view) (pvExpiresAt view)) evs"
    by (simp add: lawfulCompletion_def)
  have none: "CompletedAs newId h' d' n' \<notin> set evs" "CancelledBy newId \<notin> set evs" for h' d' n'
    using fresh by (force simp: image_iff)+
  fix i r assume "mget (pwIntents w') i = Some r"
  then show "rowTold (Created newId owner (pvConnectionGrants view) (pvExpiresAt view) # evs) i r"
    using inv row g none mget_filter_Some [OF d] unfolding w'
    by (cases "i = newId") (auto simp: runInv_def rowTold_def [of _ newId] intro!: rowTold_Cons)
qed

lemma runInv_update:
  assumes inv: "runInv evs w" and law: "lawfulCompletion ev evs" and w': "pwIntents w' = updateRows p f (pwIntents w)"
    and rows: "\<And>j r. mget (pwIntents w) j = Some r \<Longrightarrow> rowTold evs j r \<Longrightarrow> rowTold (ev # evs) j (if p j r then f r else r)"
  shows "runInv (ev # evs) w'"
proof (rule runInv_events [OF inv law])
  show "distinct (mkeys (pwIntents w'))" using inv by (simp add: w' runInv_def)
  fix j r assume "mget (pwIntents w') j = Some r"
  then obtain q where "mget (pwIntents w) j = Some q" "r = (if p j q then f q else q)" by (auto simp: w' mget_updateRows)
  with rows [of j q] inv show "rowTold (ev # evs) j r" by (simp add: runInv_def)
qed

lemma pairingStatus_iff:
  "pairingStatus now row = PairingApproved \<longleftrightarrow> inCancelledAt row = None \<and> inConsumedAt row = None \<and> now < inExpiresAt row \<and> inApprovedAt row \<noteq> None"
  "pairingStatus now row = WaitingForApproval \<longleftrightarrow> inCancelledAt row = None \<and> inConsumedAt row = None \<and> now < inExpiresAt row
     \<and> inApprovedAt row = None \<and> truthy (inClaimHash row)"
  by (auto simp: pairingStatus_def)

lemma runInv_claim:
  assumes inv: "runInv evs w" and f: "findIntent (\<lambda>i row. inCodeHash row = hashSecret sha pairingCode) w = Some (i, row)"
    and c: "claimPairingIntent sha code now pairingCode claim w = Inr (w', st, shown)" and "w' \<noteq> w"
  shows "runInv (Claimed i (hashSecret sha claim) # evs) w'"
proof -
  let ?p = "\<lambda>j r. j = i \<and> inClaimHash r = None"
  let ?f = "\<lambda>r. r\<lparr>inClaimHash := Some (hashSecret sha claim), inVerificationCode := Some code\<rparr>"
  have w': "pwIntents w' = updateRows ?p ?f (pwIntents w)"
    using c f \<open>w' \<noteq> w\<close> by (auto simp: claimPairingIntent_def updateIntents_def Let_def split: if_splits)
  show ?thesis
  proof (rule runInv_update [OF inv _ w'])
    fix j r assume "rowTold evs j r"
    then show "rowTold (Claimed i (hashSecret sha claim) # evs) j (if ?p j r then ?f r else r)"
      by (cases "?p j r") (auto simp: rowTold_def [of _ _ "?f r"] rowTold_def [of evs] intro!: rowTold_Cons)
  qed (simp add: lawfulCompletion_def)
qed

lemma runInv_approve:
  assumes inv: "runInv evs w" and c: "approvePairingIntent now i owner w = (w', st)" and "w' \<noteq> w"
  shows "runInv (ApprovedBy i owner # evs) w'"
proof -
  let ?f = "\<lambda>r. r\<lparr>inApprovedAt := Some now\<rparr>"
  obtain k row where f: "findIntent (\<lambda>j row. j = i \<and> inOwnerSubject row = owner) w = Some (k, row)"
    and st: "pairingStatus now row = WaitingForApproval" and w': "pwIntents w' = updateRows (\<lambda>j r. j = i) ?f (pwIntents w)"
    using c \<open>w' \<noteq> w\<close> by (auto simp: approvePairingIntent_def updateIntents_def Let_def split: option.splits if_splits)
  have row: "mget (pwIntents w) i = Some row" "inOwnerSubject row = owner"
    using findIntent_mget [OF _ f] inv by (auto simp: runInv_def)
  show ?thesis
  proof (rule runInv_update [OF inv _ w'])
    fix j r assume r: "mget (pwIntents w) j = Some r" "rowTold evs j r"
    show "rowTold (ApprovedBy i owner # evs) j (if j = i then ?f r else r)"
    proof (cases "j = i")
      case True
      with r row have "r = row" by simp
      from st obtain h where h: "inClaimHash row = Some h" by (auto simp: pairingStatus_iff elim!: truthyE)
      have "claimedThenApproved i owner h (inConnectionGrants row) (inExpiresAt row) (ApprovedBy i owner # evs)"
        using r True \<open>r = row\<close> row(2) h unfolding claimedThenApproved_def rowTold_def by blast
      with r True \<open>r = row\<close> row(2) h show ?thesis by (auto simp: rowTold_def)
    qed (use r in \<open>auto intro!: rowTold_Cons\<close>)
  qed (simp add: lawfulCompletion_def)
qed

lemma runInv_cancel:
  assumes inv: "runInv evs w" and c: "cancelPairingIntent now i owner w = (w', True)"
  shows "runInv (CancelledBy i # evs) w'"
proof -
  let ?p = "\<lambda>j r. j = i \<and> inOwnerSubject r = owner \<and> inConsumedAt r = None \<and> inCancelledAt r = None"
  let ?f = "\<lambda>r. r\<lparr>inCancelledAt := Some now\<rparr>"
  have w': "pwIntents w' = updateRows ?p ?f (pwIntents w)" and "matching ?p (pwIntents w) \<noteq> []"
    using c by (auto simp: cancelPairingIntent_def updateIntents_def Let_def)
  then obtain k row where "(k, row) \<in> set (pwIntents w)" "?p k row" by (auto simp: matching_def filter_empty_conv)
  then have row: "mget (pwIntents w) i = Some row" "?p i row" using inv by (auto simp: runInv_def mget_def mkeys_def)
  show ?thesis
  proof (rule runInv_update [OF inv _ w'])
    fix j r assume r: "mget (pwIntents w) j = Some r" "rowTold evs j r"
    then show "rowTold (CancelledBy i # evs) j (if ?p j r then ?f r else r)"
      using row by (cases "j = i") (auto simp: rowTold_def [of _ _ "?f r"] rowTold_def [of evs] intro!: rowTold_Cons
        intro: claimedThenApproved_Cons)
  qed (simp add: lawfulCompletion_def)
qed

lemma completePairingIntent_Paired:
  assumes "completePairingIntent sha relayRandom keyRandom deviceId keyId now pairingCode claim w = Inr (w', Paired device token key)"
    and "findIntent (\<lambda>i row. inCodeHash row = hashSecret sha pairingCode) w = Some (i, row)"
  shows "inClaimHash row = Some (hashSecret sha claim) \<and> pairingStatus now row = PairingApproved \<and> device = deviceId
    \<and> ownedCount (inOwnerSubject row) (inConnectionGrants row) (pwRelay w) = length (inConnectionGrants row)
    \<and> (\<exists>r. mintPairedCredentials sha relayRandom keyRandom deviceId keyId now row (pwRelay w) = Inr (r, token, key)
         \<and> w' = updateIntents (\<lambda>j r. j = i) (\<lambda>r. r\<lparr>inConsumedAt := Some now, inDeviceId := Some deviceId\<rparr>) (w\<lparr>pwRelay := r\<rparr>))"
  using assms unfolding completePairingIntent_def by (auto split: if_splits sum.splits prod.splits)

lemma runInv_complete:
  assumes inv: "runInv evs w" and f: "findIntent (\<lambda>i row. inCodeHash row = hashSecret sha pairingCode) w = Some (i, row)"
    and c: "completePairingIntent sha relayRandom keyRandom deviceId keyId now pairingCode claim w = Inr (w', Paired device token key)"
  shows "runInv (CompletedAs i (hashSecret sha claim) device now # evs) w'"
proof -
  let ?f = "\<lambda>r. r\<lparr>inConsumedAt := Some now, inDeviceId := Some deviceId\<rparr>"
  note facts = completePairingIntent_Paired [OF c f]
  have row: "mget (pwIntents w) i = Some row" using findIntent_mget [OF _ f] inv by (auto simp: runInv_def)
  with inv have told: "rowTold evs i row" by (simp add: runInv_def)
  have w': "pwIntents w' = updateRows (\<lambda>j r. j = i) ?f (pwIntents w)" using facts by (auto simp: updateIntents_def)
  show ?thesis
  proof (rule runInv_update [OF inv _ w'])
    show "lawfulCompletion (CompletedAs i (hashSecret sha claim) device now) evs"
      using told facts by (auto simp: lawfulCompletion_def rowTold_def pairingStatus_iff)
    fix j r assume r: "mget (pwIntents w) j = Some r" "rowTold evs j r"
    then show "rowTold (CompletedAs i (hashSecret sha claim) device now # evs) j (if j = i then ?f r else r)"
      by (cases "j = i") (auto simp: rowTold_def intro: claimedThenApproved_Cons)
  qed
qed

lemma runInv_run: "pairing_run sha evs w \<Longrightarrow> runInv evs w"
proof (induction rule: pairing_run.induct)
  case (start w)
  then show ?case by (simp add: runInv_def mkeys_def)
next
  case (other evs w r)
  then show ?case by (simp add: runInv_def)
qed (blast intro: runInv_create runInv_claim runInv_approve runInv_cancel runInv_complete)+

section \<open>The credentials of a completed request\<close>

lemma find_snoc: "(\<And>x. x \<in> set xs \<Longrightarrow> \<not> p x) \<Longrightarrow> p y \<Longrightarrow> find p (xs @ [y]) = Some y"
  by (induction xs) auto

lemma pairDevice_Inr:
  assumes "pairDevice sha random newId now input owner w = Inr (w', device, token)"
  shows "device = newId \<and> token = DEVICE_PREFIX @ b64url_encode random
    \<and> (\<forall>(i, d) \<in> set (ryDevices w). dvHashedToken d \<noteq> hashDeviceToken sha token)
    \<and> (\<exists>d. w' = w\<lparr>ryDevices := ryDevices w @ [(newId, d)]\<rparr> \<and> dvHashedToken d = hashDeviceToken sha token
         \<and> dvOwnerSubject d = owner \<and> dvConnectionGrants d = (case piConnectionGrants input of Some g \<Rightarrow> g | None \<Rightarrow> [])
         \<and> dvRevokedAt d = None)"
  using assms by (auto simp: pairDevice_def generateDeviceToken_def Let_def mput_fresh split: if_splits)

lemma verifyDevice_None:
  "(\<And>i d. (i, d) \<in> set (ryDevices r) \<Longrightarrow> dvHashedToken d = hashDeviceToken sha token \<Longrightarrow> dvRevokedAt d \<noteq> None)
     \<Longrightarrow> snd (verifyDeviceToken sha now token r) = None"
  by (fastforce simp: verifyDeviceToken_def split: option.splits dest!: findDevice_Some)

lemma verifyKey_None:
  "(\<And>i k. (i, k) \<in> set (ryKeys r) \<Longrightarrow> akHashedKey k = hashApiKey sha token \<Longrightarrow> akRevokedAt k \<noteq> None)
     \<Longrightarrow> snd (verifyApiKey sha now token r) = None"
  by (fastforce simp: verifyApiKey_def split: option.splits dest!: findKey_Some)

lemma ownedCount_all:
  assumes "distinct (mkeys (ryConnections w))" "distinct grants" "ownedCount owner grants w = length grants" "g \<in> set grants"
  shows "\<exists>c. mget (ryConnections w) g = Some c \<and> rcOwnerSubject c = owner"
proof -
  let ?own = "filter (\<lambda>(i, c). rcOwnerSubject c = owner \<and> i \<in> set grants) (ryConnections w)"
  have "distinct (map fst ?own)" using assms(1) by (simp add: mkeys_def distinct_map_filter)
  moreover have "set (map fst ?own) \<subseteq> set grants" by auto
  moreover have "length (map fst ?own) = length grants" using assms(3,4) by (auto simp: ownedCount_def split: if_splits)
  ultimately have "set (map fst ?own) = set grants"
    using assms(2) by (metis card_subset_eq distinct_card finite_set)
  with assms(4) have "g \<in> set (map fst ?own)" by simp
  then obtain c where "(g, c) \<in> set (ryConnections w)" "rcOwnerSubject c = owner" by auto
  with assms(1) show ?thesis by (auto simp: mget_def mkeys_def)
qed

text \<open>The two rows a completion adds.\<close>

lemma mint_rows:
  assumes "mintPairedCredentials sha relayRandom keyRandom deviceId keyId now row r0 = Inr (r, token, key)"
  shows "\<exists>d k. r = r0\<lparr>ryDevices := ryDevices r0 @ [(deviceId, d)], ryKeys := ryKeys r0 @ [(keyId, k)]\<rparr>
    \<and> starts_with token DEVICE_PREFIX \<and> starts_with key KEY_PREFIX
    \<and> dvHashedToken d = hashDeviceToken sha token \<and> (\<forall>(i, e) \<in> set (ryDevices r0). dvHashedToken e \<noteq> hashDeviceToken sha token)
    \<and> dvOwnerSubject d = inOwnerSubject row \<and> dvConnectionGrants d = inConnectionGrants row \<and> dvRevokedAt d = None
    \<and> akHashedKey k = hashApiKey sha key \<and> (\<forall>(i, l) \<in> set (ryKeys r0). akHashedKey l \<noteq> hashApiKey sha key)
    \<and> akOwnerSubject k = inOwnerSubject row \<and> akConnectionGrants k = inConnectionGrants row \<and> akScopes k = [''read:companion'']
    \<and> akDeviceId k = Some deviceId \<and> akRevokedAt k = None \<and> akExpiresAt k = None"
proof -
  let ?pin = "\<lparr>piName = inName row, piConnectionGrants = Some (inConnectionGrants row), piPushTransport = None, piPushToken = None\<rparr>"
  let ?kin = "\<lparr>kiName = inName row @ '' companion data'', kiScopes = [''read:companion''], kiConnectionGrants = inConnectionGrants row,
    kiOwnerSubject = Some (inOwnerSubject row), kiExpiresAt = None, kiGrantId = None, kiDeviceId = Some deviceId\<rparr>"
  obtain r1 dev kid where p: "pairDevice sha relayRandom deviceId now ?pin (inOwnerSubject row) r0 = Inr (r1, dev, token)"
    and c: "createApiKey sha keyRandom keyId now ?kin r1 = Inr (r, kid, key)"
    using assms pairDevice_Inr [of sha relayRandom deviceId now ?pin "inOwnerSubject row" r0]
    by (fastforce simp: mintPairedCredentials_def split: sum.splits)
  obtain d where d: "r1 = r0\<lparr>ryDevices := ryDevices r0 @ [(deviceId, d)]\<rparr>" "dvHashedToken d = hashDeviceToken sha token"
    "dvOwnerSubject d = inOwnerSubject row" "dvConnectionGrants d = inConnectionGrants row" "dvRevokedAt d = None"
    "\<forall>(i, e) \<in> set (ryDevices r0). dvHashedToken e \<noteq> hashDeviceToken sha token" "starts_with token DEVICE_PREFIX"
    using pairDevice_Inr [OF p] by auto
  note k = createApiKey_Inr [OF c]
  show ?thesis using k by (intro exI [of _ d] exI) (auto simp: d mput_fresh split: prod.splits)
qed

section \<open>Properties\<close>

text \<open>
  C13: A pairing request is completed at most once, and only by the phone whose claim the owner of the
  request approved afterwards: the completion carries the claim that was made before the approval, the
  approval is by the owner who created the request, it is not cancelled before, the request has not
  expired and its grants are distinct and name no wildcard.
\<close>

theorem pairing_completed_once:
  assumes "pairing_run sha evs w" and "evs = later @ CompletedAs i h device n # earlier"
  shows "(\<forall>h' d' n'. CompletedAs i h' d' n' \<notin> set later \<union> set earlier) \<and> CancelledBy i \<notin> set earlier
    \<and> (\<exists>owner grants e mid first. earlier = mid @ ApprovedBy i owner # first \<and> Claimed i h \<in> set first
         \<and> Created i owner grants e \<in> set first \<and> n < e \<and> distinct grants \<and> ''*'' \<notin> set grants)"
proof -
  have inv: "runInv evs w" by (rule runInv_run [OF assms(1)])
  then have law: "lawfulCompletion (CompletedAs i h device n) earlier" using assms(2) by (auto simp: runInv_def)
  have "CompletedAs i h' d' n' \<notin> set later" for h' d' n'
  proof
    assume "CompletedAs i h' d' n' \<in> set later"
    then obtain xs ys where "later = xs @ CompletedAs i h' d' n' # ys" by (meson split_list)
    then have "lawfulCompletion (CompletedAs i h' d' n') (ys @ CompletedAs i h device n # earlier)"
      using inv assms(2) by (auto simp: runInv_def)
    then show False by (auto simp: lawfulCompletion_def)
  qed
  moreover have "CompletedAs i h' d' n' \<notin> set earlier" "CancelledBy i \<notin> set earlier" for h' d' n'
    using law by (simp_all add: lawfulCompletion_def)
  moreover have "\<exists>owner grants e mid first. earlier = mid @ ApprovedBy i owner # first \<and> Claimed i h \<in> set first
      \<and> Created i owner grants e \<in> set first \<and> n < e \<and> distinct grants \<and> ''*'' \<notin> set grants"
    using law unfolding lawfulCompletion_def claimedThenApproved_def pairing_event.case by blast
  ultimately show ?thesis by blast
qed

text \<open>A run on one connection: create, claim, approve, complete.\<close>

definition pairingSha :: digest where
  "pairingSha s = utf8 s"

definition demoPairing :: pairing_world where
  "demoPairing =
     \<lparr>pwRelay = \<lparr>ryDevices = [], rySessions = [],
        ryConnections = [(''c1'', \<lparr>rcOwnerSubject = ''o'', rcInstitutionId = ''b'', rcNickname = None\<rparr>)],
        ryInstitutions = [], ryKeys = [], ryEvents = [], ryStaged = []\<rparr>, pwIntents = []\<rparr>"

definition demoIntent :: "string option \<Rightarrow> millis option \<Rightarrow> pairing_intent" where
  "demoIntent claim approved =
     \<lparr>inOwnerSubject = ''o'', inName = ''Phone'', inConnectionGrants = [''c1''], inCodeHash = hashSecret pairingSha ''acpair_AQ'',
      inClaimHash = claim, inVerificationCode = map_option (\<lambda>_. ''123456'') claim, inExpiresAt = 300100, inApprovedAt = approved,
      inConsumedAt = None, inDeviceId = None, inCancelledAt = None\<rparr>"

definition demoAt :: "string option \<Rightarrow> millis option \<Rightarrow> pairing_world" where
  "demoAt claim approved = demoPairing\<lparr>pwIntents := [(''i1'', demoIntent claim approved)]\<rparr>"

definition demoPaired :: pairing_world where
  "demoPaired =
     (case completePairingIntent pairingSha [2] [3] ''d1'' ''k1'' 400 ''acpair_AQ'' ''acclaim_x''
             (demoAt (Some (hashSecret pairingSha ''acclaim_x'')) (Some 300)) of
        Inr (w, _) \<Rightarrow> w | Inl _ \<Rightarrow> demoPairing)"

lemma demo_steps:
  "createPairingIntent pairingSha [1] ''i1'' 100 ''Phone'' [''c1''] ''o'' demoPairing
     = Inr (demoAt None None, \<lparr>pvId = ''i1'', pvName = ''Phone'', pvConnectionGrants = [''c1''], pvExpiresAt = 300100,
         pvVerificationCode = None, pvStatus = WaitingForPhone\<rparr>, ''acpair_AQ'')"
  "claimPairingIntent pairingSha ''123456'' 200 ''acpair_AQ'' ''acclaim_x'' (demoAt None None)
     = Inr (demoAt (Some (hashSecret pairingSha ''acclaim_x'')) None, WaitingForApproval, Some ''123456'')"
  "approvePairingIntent 300 ''i1'' ''o'' (demoAt (Some (hashSecret pairingSha ''acclaim_x'')) None)
     = (demoAt (Some (hashSecret pairingSha ''acclaim_x'')) (Some 300), Some PairingApproved)"
  "completePairingIntent pairingSha [2] [3] ''d1'' ''k1'' 400 ''acpair_AQ'' ''acclaim_x''
     (demoAt (Some (hashSecret pairingSha ''acclaim_x'')) (Some 300)) = Inr (demoPaired, Paired ''d1'' ''acdv_Ag'' ''acck_Aw'')"
  "findIntent (\<lambda>i row. inCodeHash row = hashSecret pairingSha ''acpair_AQ'') (demoAt c a) = Some (''i1'', demoIntent c a)"
  by code_simp+

lemma demo_changes: "demoAt (Some h) None \<noteq> demoAt None None" "demoAt c (Some t) \<noteq> demoAt c None"
proof -
  have "pwIntents (demoAt c a) = [(''i1'', demoIntent c a)]" for c a by (simp add: demoAt_def)
  then have "demoAt c a = demoAt d b \<Longrightarrow> demoIntent c a = demoIntent d b" for c a d b by (metis list.inject prod.inject)
  then show "demoAt (Some h) None \<noteq> demoAt None None" "demoAt c (Some t) \<noteq> demoAt c None"
    by (auto simp: demoIntent_def)
qed

lemma demo_pairing_run:
  "pairing_run pairingSha [ApprovedBy ''i1'' ''o'', Claimed ''i1'' (hashSecret pairingSha ''acclaim_x''), Created ''i1'' ''o'' [''c1''] 300100]
     (demoAt (Some (hashSecret pairingSha ''acclaim_x'')) (Some 300))"
proof -
  have "pairing_run pairingSha [Created ''i1'' ''o'' [''c1''] 300100] (demoAt None None)"
    using pairing_run.create [OF pairing_run.start [of demoPairing pairingSha] _ demo_steps(1)] by (simp add: demoPairing_def)
  from pairing_run.claim [OF this demo_steps(5,2) demo_changes(1)]
  have "pairing_run pairingSha [Claimed ''i1'' (hashSecret pairingSha ''acclaim_x''), Created ''i1'' ''o'' [''c1''] 300100]
      (demoAt (Some (hashSecret pairingSha ''acclaim_x'')) None)" .
  from pairing_run.approve [OF this demo_steps(3) demo_changes(2)] show ?thesis .
qed

theorem pairing_completed_once_witness:
  "\<exists>owner mid first.
     [ApprovedBy ''i1'' ''o'', Claimed ''i1'' (hashSecret pairingSha ''acclaim_x''), Created ''i1'' ''o'' [''c1''] 300100]
       = mid @ ApprovedBy ''i1'' owner # first \<and> Claimed ''i1'' (hashSecret pairingSha ''acclaim_x'') \<in> set first"
  using pairing_completed_once [OF pairing_run.complete [OF demo_pairing_run demo_steps(5,4)] append_Nil [symmetric]] by blast

text \<open>
  A completed pairing grants exactly what was approved: every connection is owned by the owner of the
  request at that moment, the relay token authenticates the new phone with exactly these grants, and
  the data key authenticates with the companion scope only, bound to that phone. Revoking the phone
  ends both credentials.
\<close>

theorem paired_credentials_exact:
  assumes run: "pairing_run sha evs w" and f: "findIntent (\<lambda>i row. inCodeHash row = hashSecret sha pairingCode) w = Some (i, row)"
    and c: "completePairingIntent sha relayRandom keyRandom deviceId keyId now pairingCode claim w = Inr (w', Paired device token key)"
    and ids: "distinct (mkeys (ryConnections (pwRelay w)))" "device \<noteq> []"
  shows "(\<forall>g \<in> set (inConnectionGrants row). \<exists>x. mget (ryConnections (pwRelay w)) g = Some x \<and> rcOwnerSubject x = inOwnerSubject row)
    \<and> (\<exists>dc. snd (verifyDeviceToken sha t token (pwRelay w')) = Some dc \<and> dcId dc = device
         \<and> dcOwnerSubject dc = inOwnerSubject row \<and> dcConnectionGrants dc = inConnectionGrants row)
    \<and> (\<exists>kc. snd (verifyApiKey sha t key (pwRelay w')) = Some kc \<and> kcDeviceId kc = Some device \<and> kcScopes kc = [''read:companion'']
         \<and> kcOwnerSubject kc = inOwnerSubject row \<and> kcConnectionGrants kc = inConnectionGrants row)
    \<and> (let gone = fst (revokeDevice t device (inOwnerSubject row) (pwRelay w'))
       in snd (verifyDeviceToken sha t' token gone) = None \<and> snd (verifyApiKey sha t' key gone) = None)"
proof -
  note facts = completePairingIntent_Paired [OF c f]
  let ?old = "pwRelay w" and ?new = "pwRelay w'"
  have told: "rowTold evs i row" using runInv_run [OF run] findIntent_mget [OF _ f] by (auto simp: runInv_def)
  have grants: "distinct (inConnectionGrants row)" "''*'' \<notin> set (inConnectionGrants row)" using told by (simp_all add: rowTold_def)
  obtain r where "mintPairedCredentials sha relayRandom keyRandom deviceId keyId now row ?old = Inr (r, token, key)"
    and "?new = r" and dev: "device = deviceId"
    using facts by (elim conjE exE) (simp add: updateIntents_def)
  then obtain d k where r: "?new = ?old\<lparr>ryDevices := ryDevices ?old @ [(device, d)], ryKeys := ryKeys ?old @ [(keyId, k)]\<rparr>"
    and pre: "starts_with token DEVICE_PREFIX" "starts_with key KEY_PREFIX"
    and d: "dvHashedToken d = hashDeviceToken sha token" "\<forall>(i, e) \<in> set (ryDevices ?old). dvHashedToken e \<noteq> hashDeviceToken sha token"
      "dvOwnerSubject d = inOwnerSubject row" "dvConnectionGrants d = inConnectionGrants row" "dvRevokedAt d = None"
    and k: "akHashedKey k = hashApiKey sha key" "\<forall>(i, l) \<in> set (ryKeys ?old). akHashedKey l \<noteq> hashApiKey sha key"
      "akOwnerSubject k = inOwnerSubject row" "akConnectionGrants k = inConnectionGrants row" "akScopes k = [''read:companion'']"
      "akDeviceId k = Some device" "akRevokedAt k = None" "akExpiresAt k = None"
    using mint_rows [of sha relayRandom keyRandom deviceId keyId now row ?old r token key] by blast
  have fd: "findDevice (\<lambda>i e. dvHashedToken e = hashDeviceToken sha token) ?new = Some (device, d)"
    unfolding findDevice_def r using d by (auto intro!: find_snoc)
  have fk: "findKey (\<lambda>i l. akHashedKey l = hashApiKey sha key) ?new = Some (keyId, k)"
    unfolding findKey_def r using k by (auto intro!: find_snoc)
  have live: "liveDeviceOf (Some device) (inOwnerSubject row) ?new"
    using d by (auto simp: liveDeviceOf_def findDevice_def r find_None_iff)
  have active: "findDevice (activeDevice device (inOwnerSubject row) None) ?new \<noteq> None"
    using d by (auto simp: findDevice_def r find_None_iff activeDevice_def)
  let ?gone = "fst (revokeDevice t device (inOwnerSubject row) ?new)"
  have gone: "ryDevices ?gone = updateRows (activeDevice device (inOwnerSubject row) None) (\<lambda>d. d\<lparr>dvRevokedAt := Some t\<rparr>) (ryDevices ?new)"
    "ryKeys ?gone = updateRows (\<lambda>i l. akDeviceId l = Some device \<and> akRevokedAt l = None) (\<lambda>l. l\<lparr>akRevokedAt := Some t\<rparr>) (ryKeys ?new)"
    using active by (auto simp: revokeDevice_def revokeDeviceAccess_def updateDevices_def updateRelay_def Let_def)
  have "snd (verifyDeviceToken sha t' token ?gone) = None"
    by (rule verifyDevice_None) (use d in \<open>auto simp: gone [unfolded r] r updateRows_def activeDevice_def split: if_splits\<close>)
  moreover have "snd (verifyApiKey sha t' key ?gone) = None"
    by (rule verifyKey_None) (use k in \<open>auto simp: gone [unfolded r] r updateRows_def split: if_splits\<close>)
  moreover have "\<exists>dc. snd (verifyDeviceToken sha t token ?new) = Some dc \<and> dcId dc = device
      \<and> dcOwnerSubject dc = inOwnerSubject row \<and> dcConnectionGrants dc = inConnectionGrants row"
    using fd pre d by (simp add: verifyDeviceToken_def contextOf_def)
  moreover have "\<exists>kc. snd (verifyApiKey sha t key ?new) = Some kc \<and> kcDeviceId kc = Some device \<and> kcScopes kc = [''read:companion'']
      \<and> kcOwnerSubject kc = inOwnerSubject row \<and> kcConnectionGrants kc = inConnectionGrants row"
    using fk pre k live ids(2) grants(2) by (simp add: verifyApiKey_def companionUsable_def pastExpiry_def keyContext_def)
  ultimately show ?thesis using ownedCount_all [OF ids(1) grants(1)] facts by (simp add: Let_def)
qed

theorem paired_credentials_exact_witness:
  "(\<exists>dc. snd (verifyDeviceToken pairingSha 500 ''acdv_Ag'' (pwRelay demoPaired)) = Some dc \<and> dcConnectionGrants dc = [''c1''])
   \<and> snd (verifyApiKey pairingSha 600 ''acck_Aw'' (fst (revokeDevice 500 ''d1'' ''o'' (pwRelay demoPaired)))) = None"
  using paired_credentials_exact [OF demo_pairing_run demo_steps(5,4), of 500 600]
  by (auto simp: demoAt_def demoPairing_def demoIntent_def mkeys_def Let_def)

end
