(* ===== verification/Sharing.thy ===== *)
theory Sharing
  imports DevicePairing
begin

text \<open>
  \<^verbatim>\<open>apps/control-plane/src/data/organization-shares.ts\<close>: organisations and the shares by which an owner lets
  one of them read exact connections until a date. Row ids and the clock are arguments. A sort is
  \<^verbatim>\<open>order by\<close> with the code-unit order of strings; rows that tie stay in table order.
\<close>

section \<open>State\<close>

record organization =
  ogName :: string
  ogDisabledAt :: "millis option"
  ogProvisioningId :: "string option"

record org_share =
  osOwnerSubject :: string
  osOwnerEmail :: string
  osOrganizationId :: string
  osScopes :: "string list"
  osConnectionGrants :: "string list"
  osCreatedAt :: millis
  osExpiresAt :: millis
  osRevokedAt :: "millis option"

record stored_account =
  saConnectionId :: string
  saData :: jobj
  saLastSeenAt :: millis

record share_world =
  swRelay :: relay_world
  swAccounts :: "stored_account jsmap"
  swOrganizations :: "organization jsmap"
  swShares :: "org_share jsmap"

record organization_view =
  ovId :: string
  ovName :: string
  ovDisabledAt :: "millis option"

datatype share_status = ShareActive | ShareExpired | ShareRevoked

record share_view =
  svId :: string
  svOrganizationName :: string
  svShare :: org_share
  svStatus :: share_status

definition ORGANIZATION_SHARE_SCOPES :: "string list" where
  "ORGANIZATION_SHARE_SCOPES = [''balances'', ''transactions'', ''holdings'']"

definition statusOf :: "millis \<Rightarrow> org_share \<Rightarrow> share_status" where
  "statusOf now row =
     (if osRevokedAt row \<noteq> None then ShareRevoked
      else if osExpiresAt row \<le> now then ShareExpired else ShareActive)"

definition shareView :: "millis \<Rightarrow> string \<Rightarrow> string \<Rightarrow> org_share \<Rightarrow> share_view" where
  "shareView now i organizationName row =
     \<lparr>svId = i, svOrganizationName = organizationName,
      svShare = row\<lparr>osScopes := filter (\<lambda>s. s \<in> set ORGANIZATION_SHARE_SCOPES) (osScopes row)\<rparr>,
      svStatus = statusOf now row\<rparr>"

section \<open>Organisations\<close>

definition viewOrganization :: "string \<Rightarrow> organization \<Rightarrow> organization_view" where
  "viewOrganization i o1 = \<lparr>ovId = i, ovName = ogName o1, ovDisabledAt = ogDisabledAt o1\<rparr>"

definition listOrganizations :: "bool \<Rightarrow> share_world \<Rightarrow> organization_view list" where
  "listOrganizations includeDisabled w =
     sort_key ovName (map (\<lambda>(i, o1). viewOrganization i o1)
       (filter (\<lambda>(i, o1). includeDisabled \<or> ogDisabledAt o1 = None) (swOrganizations w)))"

definition getOrganization :: "string \<Rightarrow> bool \<Rightarrow> share_world \<Rightarrow> organization_view option" where
  "getOrganization oid includeDisabled w =
     (case mget (swOrganizations w) oid of
        Some o1 \<Rightarrow> if includeDisabled \<or> ogDisabledAt o1 = None then Some (viewOrganization oid o1) else None
      | None \<Rightarrow> None)"

definition createOrganization ::
  "millis \<Rightarrow> bool \<Rightarrow> string \<Rightarrow> string \<Rightarrow> string option \<Rightarrow> share_world \<Rightarrow> string + share_world \<times> organization_view" where
  "createOrganization now disabled oid name provisioningId w =
     (if truthy provisioningId \<and> \<not> disabled then Inl ''organization-provisioning-must-start-disabled''
      else case mget (swOrganizations w) oid of
             None \<Rightarrow>
               let o1 = \<lparr>ogName = name, ogDisabledAt = (if disabled then Some now else None), ogProvisioningId = provisioningId\<rparr>
               in Inr (w\<lparr>swOrganizations := mput oid o1 (swOrganizations w)\<rparr>, viewOrganization oid o1)
           | Some existing \<Rightarrow>
               if ogName existing \<noteq> name \<or> truthy provisioningId \<and> ogProvisioningId existing \<noteq> provisioningId
               then Inl ''organization-id-conflict''
               else Inr (w, viewOrganization oid existing))"

definition updateOrganizations ::
  "(string \<Rightarrow> organization \<Rightarrow> bool) \<Rightarrow> (organization \<Rightarrow> organization) \<Rightarrow> share_world \<Rightarrow> share_world" where
  "updateOrganizations p f w = w\<lparr>swOrganizations := updateRows p f (swOrganizations w)\<rparr>"

text \<open>A compare-and-set on the provisioning id, which stays in place as the fence.\<close>

definition activateOrganizationProvisioning ::
  "string \<Rightarrow> string \<Rightarrow> share_world \<Rightarrow> string + share_world \<times> organization_view option" where
  "activateOrganizationProvisioning oid provisioningId w =
     (let p = (\<lambda>i o1. i = oid \<and> ogProvisioningId o1 = Some provisioningId) in
      case mget (swOrganizations w) oid of
        Some existing \<Rightarrow>
          if matching p (swOrganizations w) \<noteq> []
          then Inr (updateOrganizations p (\<lambda>o1. o1\<lparr>ogDisabledAt := None\<rparr>) w,
                    Some (viewOrganization oid (existing\<lparr>ogDisabledAt := None\<rparr>)))
          else Inl ''organization-provisioning-unavailable''
      | None \<Rightarrow> Inr (w, None))"

definition setOrganizationDisabled ::
  "millis \<Rightarrow> string \<Rightarrow> bool \<Rightarrow> share_world \<Rightarrow> share_world \<times> organization_view option" where
  "setOrganizationDisabled now oid disabled w =
     (let f = (\<lambda>o1. o1\<lparr>ogDisabledAt := (if disabled then Some now else None), ogProvisioningId := None\<rparr>)
      in (updateOrganizations (\<lambda>i o1. i = oid) f w,
          map_option (\<lambda>o1. viewOrganization oid (f o1)) (mget (swOrganizations w) oid)))"

section \<open>Shares\<close>

definition listOwnerShares :: "millis \<Rightarrow> string \<Rightarrow> share_world \<Rightarrow> share_view list" where
  "listOwnerShares now ownerSubject w =
     concat (map (\<lambda>(i, s). case mget (swOrganizations w) (osOrganizationId s) of
                   Some o1 \<Rightarrow> [shareView now i (ogName o1) s] | None \<Rightarrow> [])
       (sort_key (\<lambda>(i, s). - osCreatedAt s) (filter (\<lambda>(i, s). osOwnerSubject s = ownerSubject) (swShares w))))"

record share_input =
  shOwnerSubject :: string
  shOwnerEmail :: string
  shOrganizationId :: string
  shScopes :: "string list"
  shConnectionGrants :: "string list"
  shExpiresAt :: millis

text \<open>The two reads of the transaction: the organisation's name, or the error.\<close>

definition checkShareInput :: "share_input \<Rightarrow> share_world \<Rightarrow> string + string" where
  "checkShareInput input w =
     (case getOrganization (shOrganizationId input) False w of
        None \<Rightarrow> Inl ''organization-unavailable''
      | Some organization \<Rightarrow>
          if ownedCount (shOwnerSubject input) (shConnectionGrants input) (swRelay w) \<noteq> length (shConnectionGrants input)
          then Inl ''connection-not-owned''
          else Inr (ovName organization))"

definition liveShareOf :: "string \<Rightarrow> string \<Rightarrow> string \<Rightarrow> org_share \<Rightarrow> bool" where
  "liveShareOf ownerSubject organizationId i s =
     ((osOwnerSubject s = ownerSubject \<and> osOrganizationId s = organizationId) \<and> \<not> osRevokedAt s \<noteq> None)"

definition insertedShare :: "millis \<Rightarrow> share_input \<Rightarrow> org_share" where
  "insertedShare createdAt input =
     \<lparr>osOwnerSubject = shOwnerSubject input, osOwnerEmail = shOwnerEmail input,
      osOrganizationId = shOrganizationId input, osScopes = shScopes input,
      osConnectionGrants = shConnectionGrants input, osCreatedAt = createdAt,
      osExpiresAt = shExpiresAt input, osRevokedAt = None\<rparr>"

text \<open>
  The two writes. \<open>others\<close> is what other transactions commit after the reads. The partial index lets one
  live share stand per owner and organisation.
\<close>

definition replaceOrganizationShare ::
  "(share_world \<Rightarrow> share_world) \<Rightarrow> string \<Rightarrow> millis \<Rightarrow> millis \<Rightarrow> share_input \<Rightarrow> share_world
     \<Rightarrow> string + share_world \<times> share_view" where
  "replaceOrganizationShare others newId createdAt now input w0 =
     (case checkShareInput input w0 of
        Inl e \<Rightarrow> Inl e
      | Inr organizationName \<Rightarrow>
          let w = others w0;
              p = liveShareOf (shOwnerSubject input) (shOrganizationId input);
              shares = updateRows p (\<lambda>s. s\<lparr>osRevokedAt := Some now\<rparr>) (swShares w);
              created = insertedShare createdAt input
          in if mhas shares newId \<or> matching p shares \<noteq> []
             then Inl ''duplicate key value violates unique constraint''
             else Inr (w\<lparr>swShares := mput newId created shares\<rparr>, shareView now newId organizationName created))"

definition revokeOrganizationShare :: "millis \<Rightarrow> string \<Rightarrow> string \<Rightarrow> share_world \<Rightarrow> share_world \<times> bool" where
  "revokeOrganizationShare now shareId ownerSubject w =
     (let p = (\<lambda>i s. (i = shareId \<and> osOwnerSubject s = ownerSubject) \<and> \<not> osRevokedAt s \<noteq> None)
      in (w\<lparr>swShares := updateRows p (\<lambda>s. s\<lparr>osRevokedAt := Some now\<rparr>) (swShares w)\<rparr>, matching p (swShares w) \<noteq> []))"

section \<open>What an organisation sees\<close>

text \<open>The shares that count: not revoked, not expired, to an organisation that is enabled.\<close>

definition liveShares :: "string \<Rightarrow> millis \<Rightarrow> share_world \<Rightarrow> (string \<times> org_share) list" where
  "liveShares organizationId now w =
     sort_key (\<lambda>(i, s). - osCreatedAt s)
       (filter (\<lambda>(i, s). osOrganizationId s = organizationId \<and> osRevokedAt s = None
                  \<and> getOrganization (osOrganizationId s) False w \<noteq> None \<and> osExpiresAt s > now) (swShares w))"

definition organizationCanAccessConnection ::
  "string \<Rightarrow> string \<Rightarrow> string \<Rightarrow> string \<Rightarrow> millis \<Rightarrow> share_world \<Rightarrow> bool" where
  "organizationCanAccessConnection organizationId shareId connectionId scope now w =
     (case filter (\<lambda>(i, s). i = shareId) (liveShares organizationId now w) of
        [] \<Rightarrow> False
      | (i, share) # _ \<Rightarrow>
          if scope \<notin> set (osScopes share) \<or> connectionId \<notin> set (osConnectionGrants share) then False
          else (case mget (ryConnections (swRelay w)) connectionId of
                  Some c \<Rightarrow> rcOwnerSubject c = osOwnerSubject share
                | None \<Rightarrow> False))"

text \<open>The connections of a share, with the institution's name where the row exists.\<close>

definition sharedRows :: "org_share \<Rightarrow> share_world \<Rightarrow> (string \<times> relay_connection) list" where
  "sharedRows share w =
     filter (\<lambda>(i, c). rcOwnerSubject c = osOwnerSubject share \<and> i \<in> set (osConnectionGrants share))
       (ryConnections (swRelay w))"

definition institutionNameOf :: "relay_connection \<Rightarrow> share_world \<Rightarrow> string option" where
  "institutionNameOf c w = map_option riName (mget (ryInstitutions (swRelay w)) (rcInstitutionId c))"

text \<open>\<^verbatim>\<open>order by institutions.name, id\<close>: missing names come last.\<close>

definition byNameThenId :: "('a \<Rightarrow> string option) \<Rightarrow> ('a \<Rightarrow> string) \<Rightarrow> 'a list \<Rightarrow> 'a list" where
  "byNameThenId name idOf rows =
     sort_key (\<lambda>r. name r = None) (sort_key (\<lambda>r. or_else (name r) []) (sort_key idOf rows))"

record shared_connection =
  scId :: string
  scInstitutionId :: string
  scInstitutionName :: "string option"
  scNickname :: "string option"

record shared_connection_owner =
  cwOwnerEmail :: string
  cwShareId :: string
  cwScopes :: "string list"
  cwExpiresAt :: millis
  cwConnections :: "shared_connection list"

definition shareConnections :: "string \<Rightarrow> org_share \<Rightarrow> share_world \<Rightarrow> shared_connection_owner" where
  "shareConnections i share w =
     \<lparr>cwOwnerEmail = osOwnerEmail share, cwShareId = i,
      cwScopes = filter (\<lambda>s. s \<in> set ORGANIZATION_SHARE_SCOPES) (osScopes share), cwExpiresAt = osExpiresAt share,
      cwConnections =
        (if osConnectionGrants share = [] then []
         else byNameThenId scInstitutionName scId
                (map (\<lambda>(j, c). \<lparr>scId = j, scInstitutionId = rcInstitutionId c,
                        scInstitutionName = institutionNameOf c w, scNickname = rcNickname c\<rparr>) (sharedRows share w)))\<rparr>"

fun sharedConnectionsFrom :: "share_world \<Rightarrow> string list \<Rightarrow> (string \<times> org_share) list \<Rightarrow> shared_connection_owner list" where
  "sharedConnectionsFrom w seen [] = []"
| "sharedConnectionsFrom w seen ((i, share) # shares) =
     (if osOwnerSubject share \<in> set seen then sharedConnectionsFrom w seen shares
      else shareConnections i share w # sharedConnectionsFrom w (sadd (osOwnerSubject share) seen) shares)"

definition listOrganizationSharedConnections :: "string \<Rightarrow> millis \<Rightarrow> share_world \<Rightarrow> shared_connection_owner list" where
  "listOrganizationSharedConnections organizationId now w =
     sharedConnectionsFrom w [] (liveShares organizationId now w)"

record shared_balance_account =
  sbInstitutionName :: "string option"
  sbNickname :: "string option"
  sbAccountName :: "json option"
  sbAccountType :: "json option"
  sbCurrency :: "json option"
  sbBalance :: "json option"
  sbLastSeenAt :: millis

record shared_balance_owner =
  boOwnerEmail :: string
  boShareId :: string
  boExpiresAt :: millis
  boAccounts :: "shared_balance_account list"

text \<open>The joined rows: an account, its connection, and the institution's name.\<close>

definition balanceRows :: "org_share \<Rightarrow> share_world \<Rightarrow> (string \<times> stored_account \<times> relay_connection) list" where
  "balanceRows share w =
     concat (map (\<lambda>(aid, a).
       (case mget (ryConnections (swRelay w)) (saConnectionId a) of
          Some c \<Rightarrow>
            if rcOwnerSubject c = osOwnerSubject share \<and> saConnectionId a \<in> set (osConnectionGrants share)
            then [(aid, a, c)] else []
        | None \<Rightarrow> [])) (swAccounts w))"

definition projectBalance :: "share_world \<Rightarrow> string \<times> stored_account \<times> relay_connection \<Rightarrow> shared_balance_account" where
  "projectBalance w row =
     (case row of (aid, a, c) \<Rightarrow>
        \<lparr>sbInstitutionName = institutionNameOf c w, sbNickname = rcNickname c, sbAccountName = mget (saData a) ''name'',
         sbAccountType = mget (saData a) ''type'', sbCurrency = mget (saData a) ''currency'',
         sbBalance = mget (saData a) ''balance'', sbLastSeenAt = saLastSeenAt a\<rparr>)"

definition shareBalances :: "string \<Rightarrow> org_share \<Rightarrow> share_world \<Rightarrow> shared_balance_owner" where
  "shareBalances i share w =
     \<lparr>boOwnerEmail = osOwnerEmail share, boShareId = i, boExpiresAt = osExpiresAt share,
      boAccounts =
        (if osConnectionGrants share = [] then []
         else map (projectBalance w)
                (byNameThenId (\<lambda>(aid, a, c). institutionNameOf c w) (\<lambda>(aid, a, c). aid) (balanceRows share w)))\<rparr>"

fun sharedBalancesFrom :: "share_world \<Rightarrow> string list \<Rightarrow> (string \<times> org_share) list \<Rightarrow> shared_balance_owner list" where
  "sharedBalancesFrom w seen [] = []"
| "sharedBalancesFrom w seen ((i, share) # shares) =
     (if osOwnerSubject share \<in> set seen \<or> ''balances'' \<notin> set (osScopes share) then sharedBalancesFrom w seen shares
      else shareBalances i share w # sharedBalancesFrom w (sadd (osOwnerSubject share) seen) shares)"

definition listOrganizationSharedBalances :: "string \<Rightarrow> millis \<Rightarrow> share_world \<Rightarrow> shared_balance_owner list" where
  "listOrganizationSharedBalances organizationId now w = sharedBalancesFrom w [] (liveShares organizationId now w)"

section \<open>Runs and what they promise\<close>

text \<open>
  What happened to organisations and shares, newest first. Calls that change nothing leave no event; the
  other tables may change in any way between two calls. A share is written on the state \<open>others w\<close> that
  stands when its transaction writes, whatever state \<open>w\<close> it read.
\<close>

datatype share_event =
    OrgMade string bool
  | OrgActivated string
  | OrgSet string bool
  | Shared string share_input
  | Withdrawn string

inductive share_run :: "share_event list \<Rightarrow> share_world \<Rightarrow> bool" where
  start: "swOrganizations w = [] \<Longrightarrow> swShares w = [] \<Longrightarrow> share_run [] w"
| make: "share_run evs w \<Longrightarrow> createOrganization now disabled oid name pid w = Inr (w', view) \<Longrightarrow> w' \<noteq> w
    \<Longrightarrow> share_run (OrgMade oid disabled # evs) w'"
| activate: "share_run evs w \<Longrightarrow> activateOrganizationProvisioning oid pid w = Inr (w', Some view)
    \<Longrightarrow> share_run (OrgActivated oid # evs) w'"
| administer: "share_run evs w \<Longrightarrow> setOrganizationDisabled now oid disabled w = (w', Some view)
    \<Longrightarrow> share_run (OrgSet oid disabled # evs) w'"
| share: "share_run evs (others w) \<Longrightarrow> replaceOrganizationShare others newId createdAt now input w = Inr (w', view')
    \<Longrightarrow> share_run (Shared newId input # evs) w'"
| withdraw: "share_run evs w \<Longrightarrow> revokeOrganizationShare now sid owner w = (w', True)
    \<Longrightarrow> share_run (Withdrawn sid # evs) w'"
| other: "share_run evs w \<Longrightarrow> share_run evs (w\<lparr>swRelay := r, swAccounts := a\<rparr>)"

text \<open>The abstract meaning of a history: is the organisation enabled, did an administrator close its fence, which consent stands.\<close>

fun orgEnabled :: "string \<Rightarrow> share_event list \<Rightarrow> bool" where
  "orgEnabled oid [] = False"
| "orgEnabled oid (OrgMade i d # evs) = (if i = oid then \<not> d else orgEnabled oid evs)"
| "orgEnabled oid (OrgActivated i # evs) = (i = oid \<or> orgEnabled oid evs)"
| "orgEnabled oid (OrgSet i d # evs) = (if i = oid then \<not> d else orgEnabled oid evs)"
| "orgEnabled oid (Shared i s # evs) = orgEnabled oid evs"
| "orgEnabled oid (Withdrawn i # evs) = orgEnabled oid evs"

fun orgFenced :: "string \<Rightarrow> share_event list \<Rightarrow> bool" where
  "orgFenced oid [] = False"
| "orgFenced oid (OrgSet i d # evs) = (i = oid \<or> orgFenced oid evs)"
| "orgFenced oid (ev # evs) = orgFenced oid evs"

fun standing :: "string \<Rightarrow> share_event list \<Rightarrow> share_input option" where
  "standing sid [] = None"
| "standing sid (Shared i s # evs) =
     (if i = sid then Some s
      else (case standing sid evs of
              Some t \<Rightarrow> if shOwnerSubject t = shOwnerSubject s \<and> shOrganizationId t = shOrganizationId s then None else Some t
            | None \<Rightarrow> None))"
| "standing sid (Withdrawn i # evs) = (if i = sid then None else standing sid evs)"
| "standing sid (ev # evs) = standing sid evs"

definition inputOf :: "org_share \<Rightarrow> share_input" where
  "inputOf s =
     \<lparr>shOwnerSubject = osOwnerSubject s, shOwnerEmail = osOwnerEmail s, shOrganizationId = osOrganizationId s,
      shScopes = osScopes s, shConnectionGrants = osConnectionGrants s, shExpiresAt = osExpiresAt s\<rparr>"

definition liveRow :: "string \<Rightarrow> share_world \<Rightarrow> org_share option" where
  "liveRow sid w = Option.bind (mget (swShares w) sid) (\<lambda>s. if osRevokedAt s = None then Some s else None)"

definition orgOn :: "string \<Rightarrow> share_world \<Rightarrow> bool" where
  "orgOn oid w = (map_option ogDisabledAt (mget (swOrganizations w) oid) = Some None)"

definition shareInv :: "share_event list \<Rightarrow> share_world \<Rightarrow> bool" where
  "shareInv evs w =
     (distinct (mkeys (swOrganizations w)) \<and> distinct (mkeys (swShares w))
      \<and> (\<forall>oid. orgOn oid w = orgEnabled oid evs)
      \<and> (\<forall>oid. orgFenced oid evs \<longrightarrow> map_option ogProvisioningId (mget (swOrganizations w) oid) = Some None)
      \<and> (\<forall>sid. standing sid evs = map_option inputOf (liveRow sid w)))"

interpretation revokedShares: stamped_rows "\<lambda>t s. s\<lparr>osRevokedAt := Some t\<rparr>" "\<lambda>s. osRevokedAt s \<noteq> None"
  by unfold_locales simp

lemma matching_key:
  "distinct (mkeys rows) \<Longrightarrow> matching (\<lambda>i r. i = k \<and> q r) rows \<noteq> [] \<longleftrightarrow> (\<exists>r. mget rows k = Some r \<and> q r)"
  by (auto simp: matching_def mget_def mkeys_def filter_empty_conv dest: map_of_SomeD intro: map_of_is_SomeI)

lemma inputOf_sel [simp]:
  "shOwnerSubject (inputOf s) = osOwnerSubject s" "shOrganizationId (inputOf s) = osOrganizationId s"
  "shScopes (inputOf s) = osScopes s" "shConnectionGrants (inputOf s) = osConnectionGrants s"
  "shExpiresAt (inputOf s) = osExpiresAt s" "shOwnerEmail (inputOf s) = osOwnerEmail s"
  by (simp_all add: inputOf_def)

lemma shareInv_make:
  assumes inv: "shareInv evs w" and c: "createOrganization now disabled oid name pid w = Inr (w', view)" and "w' \<noteq> w"
  shows "shareInv (OrgMade oid disabled # evs) w'"
proof -
  have no: "mget (swOrganizations w) oid = None"
    using c \<open>w' \<noteq> w\<close> unfolding createOrganization_def Let_def by (auto split: option.splits if_splits)
  then have nf: "\<not> orgFenced oid evs" using inv unfolding shareInv_def by force
  from c no obtain o1 where w': "w' = w\<lparr>swOrganizations := mput oid o1 (swOrganizations w)\<rparr>"
      and o1: "ogDisabledAt o1 = (if disabled then Some now else None)"
    unfolding createOrganization_def Let_def by (auto split: if_splits)
  show ?thesis using inv nf o1 unfolding shareInv_def w' by (auto simp: orgOn_def liveRow_def)
qed

lemma shareInv_activate:
  assumes inv: "shareInv evs w" and c: "activateOrganizationProvisioning oid pid w = Inr (w', Some view)"
  shows "shareInv (OrgActivated oid # evs) w'"
proof -
  have d: "distinct (mkeys (swOrganizations w))" using inv by (simp add: shareInv_def)
  obtain o1 where o1: "mget (swOrganizations w) oid = Some o1"
    and m: "matching (\<lambda>i o1. i = oid \<and> ogProvisioningId o1 = Some pid) (swOrganizations w) \<noteq> []"
    and w': "w' = updateOrganizations (\<lambda>i o1. i = oid \<and> ogProvisioningId o1 = Some pid) (\<lambda>o1. o1\<lparr>ogDisabledAt := None\<rparr>) w"
    using c unfolding activateOrganizationProvisioning_def Let_def by (auto split: option.splits if_splits)
  from m o1 have p: "ogProvisioningId o1 = Some pid" by (simp add: matching_key [OF d])
  have get: "mget (swOrganizations w') i = (if i = oid then Some (o1\<lparr>ogDisabledAt := None\<rparr>) else mget (swOrganizations w) i)" for i
    using o1 p by (cases "mget (swOrganizations w) i") (auto simp: w' updateOrganizations_def mget_updateRows)
  have nf: "\<not> orgFenced oid evs" using inv o1 p unfolding shareInv_def by force
  have d': "distinct (mkeys (swOrganizations w'))" "swShares w' = swShares w"
    using d by (simp_all add: w' updateOrganizations_def)
  show ?thesis using inv nf d' unfolding shareInv_def by (auto simp: orgOn_def liveRow_def get)
qed

lemma shareInv_administer:
  assumes inv: "shareInv evs w" and c: "setOrganizationDisabled now oid disabled w = (w', Some view)"
  shows "shareInv (OrgSet oid disabled # evs) w'"
  using inv c unfolding shareInv_def setOrganizationDisabled_def updateOrganizations_def Let_def
  by (auto simp: orgOn_def liveRow_def mget_updateRows)

lemma insertedShare_live [simp]:
  "inputOf (insertedShare t input) = input" "osRevokedAt (insertedShare t input) = None"
  by (simp_all add: inputOf_def insertedShare_def)

lemma mhas_updateRows [simp]: "mhas (updateRows p f rows) k = mhas rows k"
  by (simp add: mhas_def mget_updateRows)

lemma replaceOrganizationShare_Inr:
  "replaceOrganizationShare others newId createdAt now input w0 = Inr (w', view) \<Longrightarrow>
     \<not> mhas (swShares (others w0)) newId
     \<and> w' = (others w0)\<lparr>swShares := mput newId (insertedShare createdAt input)
              (updateRows (liveShareOf (shOwnerSubject input) (shOrganizationId input)) (\<lambda>s. s\<lparr>osRevokedAt := Some now\<rparr>)
                 (swShares (others w0)))\<rparr>"
  unfolding replaceOrganizationShare_def Let_def by (auto split: sum.splits if_splits)

lemma shareInv_share:
  assumes inv: "shareInv evs (others w)" and c: "replaceOrganizationShare others newId createdAt now input w = Inr (w', view)"
  shows "shareInv (Shared newId input # evs) w'"
proof -
  note w' = conjunct2 [OF replaceOrganizationShare_Inr [OF c]]
  have "standing sid (Shared newId input # evs) = map_option inputOf (liveRow sid w')" for sid
  proof (cases "mget (swShares (others w)) sid")
    case None
    then show ?thesis using inv unfolding shareInv_def w' by (auto simp: liveRow_def mget_updateRows)
  next
    case (Some s)
    have "standing sid evs = (if osRevokedAt s = None then Some (inputOf s) else None)"
      using inv Some by (simp add: shareInv_def liveRow_def)
    with Some show ?thesis unfolding w' by (auto simp: liveRow_def mget_updateRows liveShareOf_def)
  qed
  then show ?thesis using inv unfolding shareInv_def w' by (auto simp: orgOn_def)
qed

lemma shareInv_withdraw:
  assumes inv: "shareInv evs w" and c: "revokeOrganizationShare now sid owner w = (w', True)"
  shows "shareInv (Withdrawn sid # evs) w'"
proof -
  let ?p = "\<lambda>i s. (i = sid \<and> osOwnerSubject s = owner) \<and> \<not> osRevokedAt s \<noteq> None"
  have d: "distinct (mkeys (swShares w))" using inv by (simp add: shareInv_def)
  have w': "w' = w\<lparr>swShares := updateRows ?p (\<lambda>s. s\<lparr>osRevokedAt := Some now\<rparr>) (swShares w)\<rparr>"
    and m: "matching ?p (swShares w) \<noteq> []" using c unfolding revokeOrganizationShare_def Let_def by auto
  obtain s where s: "mget (swShares w) sid = Some s" "osOwnerSubject s = owner"
    using m d unfolding matching_def by (auto simp: filter_empty_conv mget_def mkeys_def)
  then show ?thesis using inv unfolding shareInv_def w'
    by (auto simp: orgOn_def liveRow_def mget_updateRows split: bind_splits option.splits)
qed

lemma shareInv_run: "share_run evs w \<Longrightarrow> shareInv evs w"
proof (induction rule: share_run.induct)
  case (start w)
  then show ?case by (simp add: shareInv_def orgOn_def liveRow_def mkeys_def)
next
  case (other evs w r a)
  then show ?case by (simp add: shareInv_def orgOn_def liveRow_def)
qed (blast intro: shareInv_make shareInv_activate shareInv_administer shareInv_share shareInv_withdraw)+

section \<open>Reading through shares\<close>

lemma getOrganization_live: "getOrganization oid False w \<noteq> None \<longleftrightarrow> orgOn oid w"
  by (auto simp: getOrganization_def orgOn_def split: option.splits)

definition countsFor :: "string \<Rightarrow> millis \<Rightarrow> share_world \<Rightarrow> org_share \<Rightarrow> bool" where
  "countsFor oid now w s = (osOrganizationId s = oid \<and> osRevokedAt s = None \<and> orgOn oid w \<and> now < osExpiresAt s)"

lemma liveShares_filter:
  "liveShares oid now w = sort_key (\<lambda>(i, s). - osCreatedAt s) (filter (\<lambda>(i, s). countsFor oid now w s) (swShares w))"
  unfolding liveShares_def countsFor_def getOrganization_live
  by (rule arg_cong [where f = "sort_key _"], rule filter_cong) auto

lemma mem_liveShares:
  "distinct (mkeys (swShares w)) \<Longrightarrow>
     (i, s) \<in> set (liveShares oid now w) \<longleftrightarrow> mget (swShares w) i = Some s \<and> countsFor oid now w s"
  by (auto simp: liveShares_filter mget_def mkeys_def dest: map_of_SomeD intro: map_of_is_SomeI)

lemma distinct_liveShares: "distinct (mkeys (swShares w)) \<Longrightarrow> distinct (map fst (liveShares oid now w))"
  unfolding liveShares_filter
  by (auto simp: mkeys_def distinct_map intro: inj_on_subset)

lemma access_row:
  assumes d: "distinct (mkeys (swShares w))"
  shows "organizationCanAccessConnection oid sid c scope now w \<longleftrightarrow>
    (\<exists>s. mget (swShares w) sid = Some s \<and> countsFor oid now w s \<and> scope \<in> set (osScopes s) \<and> c \<in> set (osConnectionGrants s)
       \<and> map_option rcOwnerSubject (mget (ryConnections (swRelay w)) c) = Some (osOwnerSubject s))"
proof (cases "\<exists>s. mget (swShares w) sid = Some s \<and> countsFor oid now w s")
  case True
  then obtain s where s: "mget (swShares w) sid = Some s" "countsFor oid now w s" by blast
  then have m: "(sid, s) \<in> set (liveShares oid now w)" by (simp add: mem_liveShares [OF d])
  have "filter (\<lambda>(i, s). i = sid) (liveShares oid now w) \<noteq> []" using m by (auto simp: filter_empty_conv)
  then obtain i t rest where f: "filter (\<lambda>(i, s). i = sid) (liveShares oid now w) = (i, t) # rest"
    by (cases "filter (\<lambda>(i, s). i = sid) (liveShares oid now w)") auto
  then have "(i, t) \<in> set (filter (\<lambda>(i, s). i = sid) (liveShares oid now w))" by simp
  then have "i = sid" "t = s" using s by (auto simp: mem_liveShares [OF d])
  with f s show ?thesis unfolding organizationCanAccessConnection_def by (auto split: option.splits)
next
  case False
  then have "filter (\<lambda>(i, s). i = sid) (liveShares oid now w) = []" by (auto simp: filter_empty_conv mem_liveShares [OF d])
  then have "\<not> organizationCanAccessConnection oid sid c scope now w" by (simp add: organizationCanAccessConnection_def)
  with False show ?thesis by blast
qed

lemma standing_row:
  assumes "shareInv evs w"
  shows "standing sid evs = Some t \<longleftrightarrow> (\<exists>s. mget (swShares w) sid = Some s \<and> osRevokedAt s = None \<and> inputOf s = t)"
proof -
  have "standing sid evs = map_option inputOf (liveRow sid w)" using assms by (simp add: shareInv_def)
  then show ?thesis by (cases "mget (swShares w) sid") (simp_all add: liveRow_def)
qed

text \<open>Two standing shares of one owner to one organisation are the same share.\<close>

lemma standing_unique:
  "standing i evs = Some s \<Longrightarrow> standing j evs = Some t \<Longrightarrow> shOwnerSubject s = shOwnerSubject t
     \<Longrightarrow> shOrganizationId s = shOrganizationId t \<Longrightarrow> i = j"
proof (induction evs)
  case (Cons ev evs)
  show ?case
  proof (cases ev)
    case (Shared k u)
    then have "\<And>i s. standing i (ev # evs) = Some s \<Longrightarrow> i = k \<and> s = u \<or> i \<noteq> k \<and> standing i evs = Some s
        \<and> \<not> (shOwnerSubject s = shOwnerSubject u \<and> shOrganizationId s = shOrganizationId u)"
      by (auto split: if_splits option.splits)
    from this [OF Cons.prems(1)] this [OF Cons.prems(2)] Cons show ?thesis by metis
  next
    case (Withdrawn k)
    then have "\<And>i s. standing i (ev # evs) = Some s \<Longrightarrow> standing i evs = Some s" by (simp split: if_splits)
    from this [OF Cons.prems(1)] this [OF Cons.prems(2)] Cons show ?thesis by blast
  qed (use Cons in simp_all)
qed simp

lemma live_owner_once:
  assumes inv: "shareInv evs w"
  shows "distinct (map (\<lambda>(i, s). osOwnerSubject s) (liveShares oid now w))"
proof -
  have d: "distinct (mkeys (swShares w))" using inv by (simp add: shareInv_def)
  have "inj_on (\<lambda>(i, s). osOwnerSubject s) (set (liveShares oid now w))"
  proof (rule inj_onI, clarify)
    fix i s j t assume m: "(i, s) \<in> set (liveShares oid now w)" "(j, t) \<in> set (liveShares oid now w)"
      and eq: "osOwnerSubject s = osOwnerSubject t"
    have "standing i evs = Some (inputOf s)" "standing j evs = Some (inputOf t)"
      using m by (auto simp: mem_liveShares [OF d] standing_row [OF inv] countsFor_def)
    then have "i = j" using standing_unique [of i evs "inputOf s" j "inputOf t"] m eq
      by (auto simp: mem_liveShares [OF d] countsFor_def)
    with m show "i = j \<and> s = t" by (auto simp: mem_liveShares [OF d])
  qed
  moreover have "distinct (liveShares oid now w)" using distinct_liveShares [OF d] by (auto simp: distinct_map)
  ultimately show ?thesis by (simp add: distinct_map)
qed

text \<open>So the guard against a second share of the same owner never drops one.\<close>

lemma sharedBalancesFrom_all:
  "distinct (map (\<lambda>(i, s). osOwnerSubject s) shares) \<Longrightarrow> (\<forall>x \<in> set shares. osOwnerSubject (snd x) \<notin> set seen) \<Longrightarrow>
     sharedBalancesFrom w seen shares
       = map (\<lambda>(i, s). shareBalances i s w) (filter (\<lambda>(i, s). ''balances'' \<in> set (osScopes s)) shares)"
proof (induction shares arbitrary: seen)
  case (Cons x shares)
  obtain i s where x: "x = (i, s)" by (cases x)
  have "\<forall>y \<in> set shares. osOwnerSubject (snd y) \<notin> set (sadd (osOwnerSubject s) seen)"
    using Cons.prems x by (auto simp: image_iff split: prod.splits)
  with Cons x show ?case by simp
qed simp

lemma sharedConnectionsFrom_all:
  "distinct (map (\<lambda>(i, s). osOwnerSubject s) shares) \<Longrightarrow> (\<forall>x \<in> set shares. osOwnerSubject (snd x) \<notin> set seen) \<Longrightarrow>
     sharedConnectionsFrom w seen shares = map (\<lambda>(i, s). shareConnections i s w) shares"
proof (induction shares arbitrary: seen)
  case (Cons x shares)
  obtain i s where x: "x = (i, s)" by (cases x)
  have "\<forall>y \<in> set shares. osOwnerSubject (snd y) \<notin> set (sadd (osOwnerSubject s) seen)"
    using Cons.prems x by (auto simp: image_iff split: prod.splits)
  with Cons x show ?case by simp
qed simp

lemma set_byNameThenId [simp]: "set (byNameThenId f g xs) = set xs"
  by (simp add: byNameThenId_def)

lemma set_boAccounts:
  "set (boAccounts (shareBalances i s w)) = projectBalance w ` {(aid, a, c).
     (aid, a) \<in> set (swAccounts w) \<and> mget (ryConnections (swRelay w)) (saConnectionId a) = Some c
     \<and> rcOwnerSubject c = osOwnerSubject s \<and> saConnectionId a \<in> set (osConnectionGrants s)}"
  by (auto simp: shareBalances_def balanceRows_def image_iff split: option.splits if_splits)

lemma fence_closed:
  "shareInv evs w \<Longrightarrow> orgFenced oid evs \<Longrightarrow> activateOrganizationProvisioning oid pid w = Inl ''organization-provisioning-unavailable''"
  unfolding activateOrganizationProvisioning_def Let_def
  by (auto simp: shareInv_def matching_key split: option.splits)

text \<open>Behind a closed fence an organisation is neither made nor activated again.\<close>

lemma fence_holds:
  "share_run evs w \<Longrightarrow> evs = ev # rest \<Longrightarrow> orgFenced oid rest \<Longrightarrow> ev \<noteq> OrgMade oid d \<and> ev \<noteq> OrgActivated oid"
proof (induction rule: share_run.induct)
  case (make evs w now disabled i name pid w' view)
  have "mget (swOrganizations w) i = None"
    using make.hyps(2,3) unfolding createOrganization_def Let_def by (auto split: option.splits if_splits)
  moreover have "orgFenced oid evs" using make.prems by simp
  ultimately show ?case using shareInv_run [OF make.hyps(1)] make.prems unfolding shareInv_def by force
next
  case (activate evs w i pid w' view)
  show ?case using fence_closed [OF shareInv_run [OF activate.hyps(1)], of oid pid] activate by auto
qed auto

lemma orgFenced_set: "OrgSet oid d \<in> set evs \<Longrightarrow> orgFenced oid evs"
proof (induction evs)
  case (Cons ev evs)
  then show ?case by (cases ev) auto
qed simp

lemma disabled_until_enabled:
  "share_run evs w \<Longrightarrow> evs = later @ OrgSet oid True # earlier \<Longrightarrow> OrgSet oid False \<notin> set later \<Longrightarrow> \<not> orgEnabled oid evs"
proof (induction arbitrary: later rule: share_run.induct)
  case (make evs w now disabled i name pid w' view)
  have "OrgSet oid True \<in> set evs" using make.prems by (auto simp: Cons_eq_append_conv)
  from fence_holds [OF share_run.make [OF make.hyps] refl orgFenced_set [OF this]] make show ?case
    by (auto simp: Cons_eq_append_conv)
next
  case (activate evs w i pid w' view)
  have "OrgSet oid True \<in> set evs" using activate.prems by (auto simp: Cons_eq_append_conv)
  from fence_holds [OF share_run.activate [OF activate.hyps] refl orgFenced_set [OF this]] activate show ?case
    by (auto simp: Cons_eq_append_conv)
next
  case (other evs w r a)
  then show ?case by blast
qed (auto simp: Cons_eq_append_conv)

section \<open>The properties\<close>

definition demoShareRelay :: relay_world where
  "demoShareRelay =
     \<lparr>ryDevices = [], rySessions = [],
      ryConnections = [(''c1'', \<lparr>rcOwnerSubject = ''alice'', rcInstitutionId = ''bank'', rcNickname = None\<rparr>),
                       (''c2'', \<lparr>rcOwnerSubject = ''alice'', rcInstitutionId = ''bank'', rcNickname = None\<rparr>)],
      ryInstitutions = [], ryKeys = [], ryEvents = [], ryStaged = []\<rparr>"

definition demoAccounts :: "stored_account jsmap" where
  "demoAccounts =
     [(''a1'', \<lparr>saConnectionId = ''c1'', saData = [(''name'', JStr ''Main''), (''number'', JStr ''12345678'')], saLastSeenAt = 7\<rparr>),
      (''a2'', \<lparr>saConnectionId = ''c2'', saData = [(''name'', JStr ''Other'')], saLastSeenAt = 7\<rparr>)]"

definition demoShareInput :: share_input where
  "demoShareInput =
     \<lparr>shOwnerSubject = ''alice'', shOwnerEmail = ''a@x'', shOrganizationId = ''acme'', shScopes = [''balances''],
      shConnectionGrants = [''c1''], shExpiresAt = 1000\<rparr>"

definition demoShares0 :: share_world where
  "demoShares0 = \<lparr>swRelay = demoShareRelay, swAccounts = demoAccounts, swOrganizations = [], swShares = []\<rparr>"

definition demoShares1 :: share_world where
  "demoShares1 = fst (projr (createOrganization 1 False ''acme'' ''Acme'' None demoShares0))"

definition demoShares2 :: share_world where
  "demoShares2 = fst (projr (replaceOrganizationShare id ''s1'' 2 2 demoShareInput demoShares1))"

definition demoShares3 :: share_world where
  "demoShares3 = fst (setOrganizationDisabled 3 ''acme'' True demoShares2)"

lemma demo_shares_run:
  "share_run [Shared ''s1'' demoShareInput, OrgMade ''acme'' False] demoShares2"
  "share_run [OrgSet ''acme'' True, Shared ''s1'' demoShareInput, OrgMade ''acme'' False] demoShares3"
proof -
  have "share_run [] demoShares0" by (rule share_run.start) (simp_all add: demoShares0_def)
  moreover have "createOrganization 1 False ''acme'' ''Acme'' None demoShares0
      = Inr (demoShares1, snd (projr (createOrganization 1 False ''acme'' ''Acme'' None demoShares0)))" "demoShares1 \<noteq> demoShares0"
    by code_simp+
  ultimately have "share_run [OrgMade ''acme'' False] demoShares1" by (rule share_run.make)
  then have "share_run [OrgMade ''acme'' False] (id demoShares1)" by simp
  moreover have "replaceOrganizationShare id ''s1'' 2 2 demoShareInput demoShares1
      = Inr (demoShares2, snd (projr (replaceOrganizationShare id ''s1'' 2 2 demoShareInput demoShares1)))" by code_simp
  ultimately show r: "share_run [Shared ''s1'' demoShareInput, OrgMade ''acme'' False] demoShares2" by (rule share_run.share)
  have "setOrganizationDisabled 3 ''acme'' True demoShares2
      = (demoShares3, Some (the (snd (setOrganizationDisabled 3 ''acme'' True demoShares2))))" by code_simp
  from share_run.administer [OF r this]
  show "share_run [OrgSet ''acme'' True, Shared ''s1'' demoShareInput, OrgMade ''acme'' False] demoShares3" .
qed

text \<open>
  C17: An organisation reads a connection exactly by the history of consent: it was left enabled, the
  named share still stands (its owner has neither withdrawn it nor put another in its place), has not expired,
  names the connection and the scope, and the connection belongs to the owner of the share now. How the reads
  and the writes of concurrent requests overlap makes no difference.
\<close>

theorem share_access_follows_consent:
  assumes run: "share_run evs w"
  shows "organizationCanAccessConnection oid sid c scope now w \<longleftrightarrow>
    orgEnabled oid evs \<and> (\<exists>t. standing sid evs = Some t \<and> shOrganizationId t = oid \<and> now < shExpiresAt t
      \<and> scope \<in> set (shScopes t) \<and> c \<in> set (shConnectionGrants t)
      \<and> map_option rcOwnerSubject (mget (ryConnections (swRelay w)) c) = Some (shOwnerSubject t))"
proof -
  note inv = shareInv_run [OF run]
  then have "distinct (mkeys (swShares w))" "orgOn oid w = orgEnabled oid evs" by (simp_all add: shareInv_def)
  then show ?thesis by (auto simp: access_row standing_row [OF inv] countsFor_def)
qed

theorem share_access_follows_consent_witness:
  "organizationCanAccessConnection ''acme'' ''s1'' ''c1'' ''balances'' 999 demoShares2
     \<and> \<not> organizationCanAccessConnection ''acme'' ''s1'' ''c2'' ''balances'' 999 demoShares2"
proof -
  have "orgEnabled ''acme'' [Shared ''s1'' demoShareInput, OrgMade ''acme'' False]" by code_simp
  moreover have "map_option rcOwnerSubject (mget (ryConnections (swRelay demoShares2)) ''c1'') = Some ''alice''" by code_simp
  ultimately show ?thesis
    by (simp add: share_access_follows_consent [OF demo_shares_run(1)] demoShareInput_def)
qed

text \<open>
  C18: Once an administrator has disabled an organisation, nothing but an administrator lets it in again: no
  share, no repeated creation and no delayed provisioning worker. Until then every read is empty, activation
  fails and owners cannot share with it.
\<close>

theorem disabled_organization_stays_out:
  assumes run: "share_run (later @ OrgSet oid True # earlier) w" and later: "OrgSet oid False \<notin> set later"
  shows "\<not> organizationCanAccessConnection oid sid c scope now w
    \<and> listOrganizationSharedConnections oid now w = [] \<and> listOrganizationSharedBalances oid now w = []
    \<and> activateOrganizationProvisioning oid pid w = Inl ''organization-provisioning-unavailable''
    \<and> checkShareInput (input\<lparr>shOrganizationId := oid\<rparr>) w = Inl ''organization-unavailable''"
proof -
  note inv = shareInv_run [OF run]
  have off: "\<not> orgOn oid w" and d: "distinct (mkeys (swShares w))"
    using disabled_until_enabled [OF run refl later] inv by (auto simp: shareInv_def)
  then have "liveShares oid now w = []" by (auto simp: liveShares_filter countsFor_def filter_empty_conv)
  moreover have "getOrganization oid False w = None" using off getOrganization_live by blast
  moreover have "activateOrganizationProvisioning oid pid w = Inl ''organization-provisioning-unavailable''"
    by (rule fence_closed [OF inv], rule orgFenced_set [of oid True]) simp
  ultimately show ?thesis
    by (simp add: organizationCanAccessConnection_def listOrganizationSharedConnections_def
        listOrganizationSharedBalances_def checkShareInput_def)
qed

theorem disabled_organization_stays_out_witness:
  "\<not> organizationCanAccessConnection ''acme'' ''s1'' ''c1'' ''balances'' 999 demoShares3
     \<and> organizationCanAccessConnection ''acme'' ''s1'' ''c1'' ''balances'' 999 demoShares2"
proof -
  have "share_run ([] @ OrgSet ''acme'' True # [Shared ''s1'' demoShareInput, OrgMade ''acme'' False]) demoShares3"
    using demo_shares_run(2) by simp
  from disabled_organization_stays_out [OF this, of "''s1''" "''c1''" "''balances''" 999]
  have "\<not> organizationCanAccessConnection ''acme'' ''s1'' ''c1'' ''balances'' 999 demoShares3" by simp
  moreover have "organizationCanAccessConnection ''acme'' ''s1'' ''c1'' ''balances'' 999 demoShares2" by code_simp
  ultimately show ?thesis by simp
qed

text \<open>
  The balances an organisation is shown are those it may read, all of them, and only their name, type,
  currency and balance: there is an entry for each standing share with the scope \<^verbatim>\<open>balances\<close>, and its accounts are
  those of the connections that the access check admits for that share.
\<close>

theorem shared_balances_exact:
  assumes run: "share_run evs w"
  shows "map boShareId (listOrganizationSharedBalances oid now w)
      = map fst (filter (\<lambda>(i, s). ''balances'' \<in> set (osScopes s)) (liveShares oid now w))
    \<and> (\<forall>b \<in> set (listOrganizationSharedBalances oid now w). set (boAccounts b) = projectBalance w ` {(aid, a, c).
         (aid, a) \<in> set (swAccounts w) \<and> mget (ryConnections (swRelay w)) (saConnectionId a) = Some c
         \<and> organizationCanAccessConnection oid (boShareId b) (saConnectionId a) ''balances'' now w})"
proof -
  note inv = shareInv_run [OF run]
  have d: "distinct (mkeys (swShares w))" using inv by (simp add: shareInv_def)
  have l: "listOrganizationSharedBalances oid now w
      = map (\<lambda>(i, s). shareBalances i s w) (filter (\<lambda>(i, s). ''balances'' \<in> set (osScopes s)) (liveShares oid now w))"
    unfolding listOrganizationSharedBalances_def by (rule sharedBalancesFrom_all) (simp_all add: live_owner_once [OF inv])
  have "set (boAccounts (shareBalances i s w)) = projectBalance w ` {(aid, a, c).
         (aid, a) \<in> set (swAccounts w) \<and> mget (ryConnections (swRelay w)) (saConnectionId a) = Some c
         \<and> organizationCanAccessConnection oid (boShareId (shareBalances i s w)) (saConnectionId a) ''balances'' now w}"
    if "(i, s) \<in> set (liveShares oid now w)" "''balances'' \<in> set (osScopes s)" for i s
  proof -
    have "mget (swShares w) i = Some s" "countsFor oid now w s" using that by (simp_all add: mem_liveShares [OF d])
    with that(2) show ?thesis unfolding set_boAccounts access_row [OF d]
      by (intro arg_cong [where f = "image _"]) (auto simp: shareBalances_def)
  qed
  moreover have "boShareId (shareBalances i s w) = i" for i s by (simp add: shareBalances_def)
  ultimately show ?thesis unfolding l by (auto simp: case_prod_unfold)
qed

theorem shared_balances_exact_witness:
  "map (\<lambda>b. (boShareId b, map sbAccountName (boAccounts b))) (listOrganizationSharedBalances ''acme'' 999 demoShares2)
     = [(''s1'', [Some (JStr ''Main'')])]
   \<and> map boShareId (listOrganizationSharedBalances ''acme'' 999 demoShares2) = [''s1'']"
proof -
  have "map fst (filter (\<lambda>(i, s). ''balances'' \<in> set (osScopes s)) (liveShares ''acme'' 999 demoShares2)) = [''s1'']" by code_simp
  moreover have "map (\<lambda>b. (boShareId b, map sbAccountName (boAccounts b))) (listOrganizationSharedBalances ''acme'' 999 demoShares2)
     = [(''s1'', [Some (JStr ''Main'')])]" by code_simp
  ultimately show ?thesis using shared_balances_exact [OF demo_shares_run(1), of "''acme''" 999] by simp
qed

end
