(* ===== verification/AccessGuards.thy ===== *)
theory AccessGuards
  imports Sharing OAuth
begin

text \<open>
  Who a request is and what it may touch: the identity assertion of the hosted edge
  (\<^verbatim>\<open>packages/contracts/src/identity-assertion.ts\<close>), the Fastify guards (\<^verbatim>\<open>auth/middleware.ts\<close>) and the
  ownership checks of the routes (\<^verbatim>\<open>auth/authorization.ts\<close> with the queries of
  \<^verbatim>\<open>storage/postgres-user-data-store.ts\<close>). A reply is its status and the case it reports; the wording is
  left out. HMAC, SHA-256 and the clock are fields of the environment.
\<close>

section \<open>Identity assertions\<close>

definition IDENTITY_PREFIX :: string where
  "IDENTITY_PREFIX = ''acci1''"

record identity_input =
  iiTenantId :: string
  iiSubject :: string
  iiEmail :: "string option"
  iiMethod :: string
  iiRequestTarget :: string
  iiCapabilities :: "string list"

record identity =
  idSubject :: string
  idEmail :: "string option"
  idCapabilities :: "string list"

definition identityMac :: "mac_fun \<Rightarrow> string \<Rightarrow> string \<Rightarrow> string" where
  "identityMac hmac secret payload = b64url_encode (hmac (utf8 secret) (utf8 (IDENTITY_PREFIX @ ''.'' @ payload)))"

definition indexOfChar :: "char \<Rightarrow> string \<Rightarrow> int" where
  "indexOfChar c s = (if c \<in> set s then int (length (takeWhile (\<lambda>x. x \<noteq> c) s)) else -1)"

definition lastIndexOfChar :: "char \<Rightarrow> string \<Rightarrow> int" where
  "lastIndexOfChar c s =
     (if c \<in> set s then int (length s) - 1 - int (length (takeWhile (\<lambda>x. x \<noteq> c) (List.rev s))) else -1)"

definition emailInvalid :: "string \<Rightarrow> bool" where
  "emailInvalid s =
     (length s < 3 \<or> length s > 320 \<or> CHR '' '' \<in> set s \<or> indexOfChar (CHR ''@'') s \<le> 0
      \<or> lastIndexOfChar (CHR ''@'') s \<noteq> indexOfChar (CHR ''@'') s \<or> ends_with s ''@'')"

definition identityPayload :: "millis \<Rightarrow> identity_input \<Rightarrow> json" where
  "identityPayload e input =
     JObj ([(''v'', JNum (Fin 1)), (''tid'', JStr (iiTenantId input)), (''sub'', JStr (iiSubject input))]
       @ (if truthy (iiEmail input) then [(''eml'', JStr (the (iiEmail input)))] else [])
       @ [(''m'', JStr (to_upper (iiMethod input))), (''p'', JStr (iiRequestTarget input)), (''exp'', JNum (Fin (of_int e)))]
       @ (if iiCapabilities input \<noteq> [] then [(''cap'', JArr (map JStr (sort (sfrom (iiCapabilities input)))))] else []))"

definition signIdentityAssertion :: "mac_fun \<Rightarrow> string \<Rightarrow> millis \<Rightarrow> identity_input \<Rightarrow> int \<Rightarrow> string + string" where
  "signIdentityAssertion hmac secret now input ttlMs =
     (if secret = [] then Inl ''identity assertion secret is required''
      else if ttlMs \<le> 0 \<or> ttlMs > 60000 then Inl ''identity assertion TTL must be between 1 and 60000 ms''
      else if (case iiEmail input of Some s \<Rightarrow> emailInvalid s | None \<Rightarrow> False) then Inl ''identity assertion email is invalid''
      else let encoded = encodePayload (identityPayload (now + ttlMs) input)
           in Inr (IDENTITY_PREFIX @ ''.'' @ encoded @ ''.'' @ identityMac hmac secret encoded))"

definition laterThan :: "millis \<Rightarrow> jsnum \<Rightarrow> bool" where
  "laterThan t e = (case e of Fin r \<Rightarrow> r > of_int t | PosInfinity \<Rightarrow> True | _ \<Rightarrow> False)"

definition asString :: "json \<Rightarrow> string option" where
  "asString v = (case v of JStr s \<Rightarrow> Some s | _ \<Rightarrow> None)"

text \<open>\<^verbatim>\<open>payload.eml\<close> and \<^verbatim>\<open>payload.cap\<close>: absent, well formed, or a reason to refuse (\<open>None\<close>).\<close>

definition payloadEmail :: "jobj \<Rightarrow> string option option" where
  "payloadEmail payload =
     (case mget payload ''eml'' of
        None \<Rightarrow> Some None
      | Some (JStr s) \<Rightarrow> if emailInvalid s then None else Some (Some s)
      | Some _ \<Rightarrow> None)"

definition payloadCapabilities :: "jobj \<Rightarrow> string list option" where
  "payloadCapabilities payload =
     (case mget payload ''cap'' of
        None \<Rightarrow> Some []
      | Some (JArr vs) \<Rightarrow>
          if length vs > 16 \<or> (\<exists>v \<in> set vs. case asString v of None \<Rightarrow> True | Some s \<Rightarrow> length s < 1 \<or> length s > 64)
          then None else Some (map (\<lambda>v. the (asString v)) vs)
      | Some _ \<Rightarrow> None)"

definition identityCurrent :: "millis \<Rightarrow> string \<Rightarrow> string \<Rightarrow> string \<Rightarrow> jobj \<Rightarrow> bool" where
  "identityCurrent now tenantId httpMethod requestTarget payload =
     (mget payload ''v'' = Some (JNum (Fin 1)) \<and> mget payload ''tid'' = Some (JStr tenantId)
      \<and> mget payload ''m'' = Some (JStr (to_upper httpMethod)) \<and> mget payload ''p'' = Some (JStr requestTarget)
      \<and> (case mget payload ''sub'' of Some (JStr s) \<Rightarrow> 1 \<le> length s \<and> length s \<le> 256 | _ \<Rightarrow> False)
      \<and> (case mget payload ''exp'' of Some (JNum e) \<Rightarrow> \<not> expired now e \<and> \<not> laterThan (now + 60000) e | _ \<Rightarrow> False))"

definition verifyIdentityAssertion ::
  "mac_fun \<Rightarrow> string \<Rightarrow> millis \<Rightarrow> string \<Rightarrow> string \<Rightarrow> string \<Rightarrow> string \<Rightarrow> identity option" where
  "verifyIdentityAssertion hmac secret now assertion tenantId httpMethod requestTarget =
     (if secret = [] then None
      else case Option.bind (openSigned IDENTITY_PREFIX (identityMac hmac secret) assertion) payloadFields of
             None \<Rightarrow> None
           | Some payload \<Rightarrow>
               if \<not> identityCurrent now tenantId httpMethod requestTarget payload then None
               else (case (payloadEmail payload, payloadCapabilities payload) of
                       (Some email, Some caps) \<Rightarrow>
                         Some \<lparr>idSubject = the (asString (the (mget payload ''sub''))), idEmail = email, idCapabilities = caps\<rparr>
                     | _ \<Rightarrow> None))"

section \<open>Requests and guards\<close>

record guard_tenant = tenant +
  tnAdministrativeSecret :: "string option"

record guard_env =
  geHmac :: mac_fun
  geSha :: digest
  geNow :: millis
  geTenant :: guard_tenant
  geOthers :: "operator_state \<Rightarrow> operator_state"

record guard_request =
  gqMethod :: string
  gqTarget :: string
  gqIdentityHeader :: "string option"
  gqAuthorization :: "string option"
  gqOrganizationId :: "string option"
  gqOperator :: bool
  gqOperatorSubject :: "string option"
  gqOperatorEmail :: "string option"
  gqPlatformAdmin :: bool
  gqCapabilities :: "string list option"
  gqApiKey :: "api_key_context option"
  gqDevice :: "device_context option"

datatype refusal =
    SignIn | NotDataOwner | ApiKeyRequired | InvalidApiKey | NoSuchRoute | MissingScope string | PublicApiReadOnly
  | DeviceTokenRequired | InvalidDeviceToken | SignInOrApiKey | SignInOrDevice | NotPlatformAdmin
  | OrganizationMissing | NotOrganizationAdmin | HostedSetting

datatype guard_outcome = Continue guard_request | Reply nat refusal

type_synonym guard_state = "relay_world \<times> operator_state"

definition organizationAdminCapability :: "string \<Rightarrow> bool" where
  "organizationAdminCapability s =
     (let p = ''organization-admin:''; r = drop (length p) s;
          lowerDigit = (\<lambda>c. is_digit c \<or> is_alpha c \<and> \<not> is_upper_alpha c)
      in starts_with s p \<and> 1 \<le> length r \<and> length r \<le> 63 \<and> lowerDigit (hd r)
         \<and> (\<forall>c \<in> set (tl r). lowerDigit c \<or> c = CHR ''-''))"

definition acceptIdentity :: "identity \<Rightarrow> guard_request \<Rightarrow> guard_request" where
  "acceptIdentity u req =
     req\<lparr>gqOperator := True, gqOperatorSubject := Some (idSubject u),
         gqOperatorEmail := (if truthy (idEmail u) then idEmail u else gqOperatorEmail req),
         gqCapabilities := Some (idCapabilities u), gqPlatformAdmin := ''platform-admin'' \<in> set (idCapabilities u)\<rparr>"

definition acceptTrustedOperatorIdentity :: "guard_env \<Rightarrow> guard_request \<Rightarrow> guard_request" where
  "acceptTrustedOperatorIdentity env req =
     (case gqIdentityHeader req of
        None \<Rightarrow> req
      | Some header \<Rightarrow>
          if \<not> truthy (tnIdentityAssertionSecret (geTenant env)) then req
          else let verify = (\<lambda>secret. verifyIdentityAssertion (geHmac env) secret (geNow env) header
                                        (tnId (geTenant env)) (gqMethod req) (gqTarget req));
                   user = verify (the (tnIdentityAssertionSecret (geTenant env)));
                   administrativeSecret = tnAdministrativeSecret (geTenant env)
               in if map_option idCapabilities user = Some [''data-owner''] then acceptIdentity (the user) req
                  else if \<not> truthy administrativeSecret then req
                  else (case verify (the administrativeSecret) of
                          None \<Rightarrow> req
                        | Some administrator \<Rightarrow>
                            (case idCapabilities administrator of
                               [c] \<Rightarrow> if c = ''platform-admin'' \<or> organizationAdminCapability c
                                      then acceptIdentity administrator req else req
                             | _ \<Rightarrow> req)))"

definition bearerToken :: "guard_request \<Rightarrow> string option" where
  "bearerToken req =
     (case gqAuthorization req of
        None \<Rightarrow> None
      | Some header \<Rightarrow>
          if \<not> starts_with header ''Bearer '' then None
          else let token = trim (drop 7 header) in if token = [] then None else Some token)"

definition authenticateOperator ::
  "guard_env \<Rightarrow> guard_request \<Rightarrow> operator_state \<Rightarrow> operator_state \<times> guard_request \<times> bool" where
  "authenticateOperator env req st =
     (if gqOperator req then (st, req, True)
      else if truthy (tnIdentityAssertionSecret (geTenant env)) then (st, req, False)
      else case bearerToken req of
             None \<Rightarrow> (st, req, False)
           | Some token \<Rightarrow>
               (case verifyOperatorToken (geHmac env) (geOthers env) (geNow env) (tnId (geTenant env)) token st of
                  (st', ok) \<Rightarrow>
                    if \<not> ok then (st', req, False)
                    else (st', req\<lparr>gqOperator := True, gqOperatorSubject := Some SELF_HOSTED_OPERATOR_SUBJECT,
                                   gqCapabilities := Some [''platform-admin''], gqPlatformAdmin := True\<rparr>, True)))"

definition hasDataOwnerAccess :: "guard_env \<Rightarrow> guard_request \<Rightarrow> bool" where
  "hasDataOwnerAccess env req =
     (\<not> truthy (tnIdentityAssertionSecret (geTenant env))
      \<or> (case gqCapabilities req of Some caps \<Rightarrow> ''data-owner'' \<in> set caps | None \<Rightarrow> False))"

definition requireOperator :: "guard_env \<Rightarrow> guard_request \<Rightarrow> operator_state \<Rightarrow> operator_state \<times> guard_outcome" where
  "requireOperator env req st =
     (case authenticateOperator env req st of
        (st', req', ok) \<Rightarrow>
          (st', if \<not> ok then Reply 401 SignIn
                else if \<not> hasDataOwnerAccess env req' then Reply 403 NotDataOwner
                else Continue req'))"

definition requireInstitutionActor :: "guard_env \<Rightarrow> guard_request \<Rightarrow> operator_state \<Rightarrow> operator_state \<times> guard_outcome" where
  "requireInstitutionActor env req st =
     (case authenticateOperator env req st of
        (st', req', ok) \<Rightarrow> (st', if ok then Continue req' else Reply 401 SignIn))"

text \<open>The loop over the required scopes: the first that is missing is reported.\<close>

definition scopesChecked :: "string list \<Rightarrow> api_key_context \<Rightarrow> guard_request \<Rightarrow> guard_outcome" where
  "scopesChecked scopes ctx req =
     (case find (\<lambda>s. \<not> keyHasScope ctx s) scopes of
        Some s \<Rightarrow> Reply 403 (MissingScope s)
      | None \<Rightarrow> Continue (req\<lparr>gqApiKey := Some ctx\<rparr>))"

definition requireApiKey :: "guard_env \<Rightarrow> string list \<Rightarrow> guard_request \<Rightarrow> relay_world \<Rightarrow> relay_world \<times> guard_outcome" where
  "requireApiKey env scopes req w =
     (case bearerToken req of
        None \<Rightarrow> (w, Reply 401 ApiKeyRequired)
      | Some presented \<Rightarrow>
          (case verifyApiKey (geSha env) (geNow env) presented w of
             (w', None) \<Rightarrow> (w', Reply 401 InvalidApiKey)
           | (w', Some ctx) \<Rightarrow>
               (w', if truthy (kcOauthGrantId ctx) then Reply 404 NoSuchRoute else scopesChecked scopes ctx req)))"

definition requireOperatorOrApiKeyWithPolicy ::
  "guard_env \<Rightarrow> bool \<Rightarrow> string list \<Rightarrow> guard_request \<Rightarrow> guard_state \<Rightarrow> guard_state \<times> guard_outcome" where
  "requireOperatorOrApiKeyWithPolicy env allowOauthAccessTokens scopes req s =
     (case s of (w, st) \<Rightarrow>
        (case authenticateOperator env req st of
           (st', req', ok) \<Rightarrow>
             if ok then ((w, st'), if hasDataOwnerAccess env req' then Continue req' else Reply 403 NotDataOwner)
             else (case bearerToken req' of
                     None \<Rightarrow> ((w, st'), Reply 401 SignInOrApiKey)
                   | Some token \<Rightarrow>
                       (case verifyApiKey (geSha env) (geNow env) token w of
                          (w', None) \<Rightarrow> ((w', st'), Reply 401 SignInOrApiKey)
                        | (w', Some ctx) \<Rightarrow>
                            ((w', st'), if truthy (kcOauthGrantId ctx) \<and> \<not> allowOauthAccessTokens then Reply 404 NoSuchRoute
                                        else scopesChecked scopes ctx req')))))"

definition requireOperatorOrApiKey ::
  "guard_env \<Rightarrow> string list \<Rightarrow> guard_request \<Rightarrow> guard_state \<Rightarrow> guard_state \<times> guard_outcome" where
  "requireOperatorOrApiKey env scopes = requireOperatorOrApiKeyWithPolicy env False scopes"

definition READ_ONLY_METHODS :: "string list" where
  "READ_ONLY_METHODS = [''GET'', ''HEAD'']"

definition requireOperatorOrPublicApiKey ::
  "guard_env \<Rightarrow> string list \<Rightarrow> guard_request \<Rightarrow> guard_state \<Rightarrow> guard_state \<times> guard_outcome" where
  "requireOperatorOrPublicApiKey env scopes req s =
     (if gqMethod req \<notin> set READ_ONLY_METHODS then (s, Reply 405 PublicApiReadOnly)
      else requireOperatorOrApiKeyWithPolicy env True scopes req s)"

definition requireDevice :: "guard_env \<Rightarrow> guard_request \<Rightarrow> relay_world \<Rightarrow> relay_world \<times> guard_outcome" where
  "requireDevice env req w =
     (case bearerToken req of
        None \<Rightarrow> (w, Reply 401 DeviceTokenRequired)
      | Some presented \<Rightarrow>
          (case verifyDeviceToken (geSha env) (geNow env) presented w of
             (w', None) \<Rightarrow> (w', Reply 401 InvalidDeviceToken)
           | (w', Some ctx) \<Rightarrow> (w', Continue (req\<lparr>gqDevice := Some ctx\<rparr>))))"

definition requireOperatorOrDevice :: "guard_env \<Rightarrow> guard_request \<Rightarrow> guard_state \<Rightarrow> guard_state \<times> guard_outcome" where
  "requireOperatorOrDevice env req s =
     (case s of (w, st) \<Rightarrow>
        (case authenticateOperator env req st of
           (st', req', ok) \<Rightarrow>
             if ok then ((w, st'), if hasDataOwnerAccess env req' then Continue req' else Reply 403 NotDataOwner)
             else (case bearerToken req' of
                     None \<Rightarrow> ((w, st'), Reply 401 SignInOrDevice)
                   | Some token \<Rightarrow>
                       (case verifyDeviceToken (geSha env) (geNow env) token w of
                          (w', None) \<Rightarrow> ((w', st'), Reply 401 SignInOrDevice)
                        | (w', Some ctx) \<Rightarrow> ((w', st'), Continue (req'\<lparr>gqDevice := Some ctx\<rparr>))))))"

definition requirePlatformAdmin :: "guard_env \<Rightarrow> guard_request \<Rightarrow> operator_state \<Rightarrow> operator_state \<times> guard_outcome" where
  "requirePlatformAdmin env req st =
     (case authenticateOperator env req st of
        (st', req', ok) \<Rightarrow>
          (st', if \<not> ok then Reply 401 SignIn
                else if \<not> gqPlatformAdmin req' then Reply 403 NotPlatformAdmin
                else Continue req'))"

definition requireOrganizationAdmin :: "guard_env \<Rightarrow> guard_request \<Rightarrow> operator_state \<Rightarrow> operator_state \<times> guard_outcome" where
  "requireOrganizationAdmin env req st =
     (case authenticateOperator env req st of
        (st', req', ok) \<Rightarrow>
          (st', if \<not> ok then Reply 401 SignIn
                else case gqOrganizationId req' of
                       None \<Rightarrow> Reply 400 OrganizationMissing
                     | Some oid \<Rightarrow>
                         if (case gqCapabilities req' of Some caps \<Rightarrow> ''organization-admin:'' @ oid \<in> set caps | None \<Rightarrow> False)
                         then Continue req' else Reply 403 NotOrganizationAdmin))"

definition requireSelfHostedOperator :: "guard_env \<Rightarrow> guard_request \<Rightarrow> operator_state \<Rightarrow> operator_state \<times> guard_outcome" where
  "requireSelfHostedOperator env req st =
     (case authenticateOperator env req st of
        (st', req', ok) \<Rightarrow>
          (st', if \<not> ok then Reply 401 SignIn
                else if truthy (tnIdentityAssertionSecret (geTenant env)) then Reply 403 HostedSetting
                else Continue req'))"

section \<open>Ownership\<close>

definition actorOwnsConnection :: "string \<Rightarrow> string \<Rightarrow> relay_world \<Rightarrow> bool" where
  "actorOwnsConnection ownerSubject connectionId w =
     (map_option rcOwnerSubject (mget (ryConnections w) connectionId) = Some ownerSubject)"

definition getAccountConnectionId :: "string \<Rightarrow> share_world \<Rightarrow> string option" where
  "getAccountConnectionId accountId w = map_option saConnectionId (mget (swAccounts w) accountId)"

definition actorOwnsAccount :: "string \<Rightarrow> string \<Rightarrow> share_world \<Rightarrow> bool" where
  "actorOwnsAccount ownerSubject accountId w =
     (case getAccountConnectionId accountId w of
        Some c \<Rightarrow> actorOwnsConnection ownerSubject c (swRelay w)
      | None \<Rightarrow> False)"

definition getSyncConnectionId :: "string \<Rightarrow> relay_world \<Rightarrow> string option" where
  "getSyncConnectionId syncId w = map_option ssConnectionId (mget (rySessions w) syncId)"

text \<open>\<open>others\<close> is what other transactions do between two reads.\<close>

definition actorOwnsSync :: "interference \<Rightarrow> string \<Rightarrow> string \<Rightarrow> relay_world \<Rightarrow> bool" where
  "actorOwnsSync others ownerSubject syncId w =
     (case getSyncConnectionId syncId w of
        Some c \<Rightarrow> actorOwnsConnection ownerSubject c (others w)
      | None \<Rightarrow> False)"

definition actorByKey :: "interference \<Rightarrow> millis \<Rightarrow> guard_request \<Rightarrow> string \<Rightarrow> relay_world \<Rightarrow> bool" where
  "actorByKey others now req connectionId w =
     (case Option.bind (gqApiKey req) (\<lambda>ctx. refreshApiKeyContext now ctx w) of
        None \<Rightarrow> False
      | Some key \<Rightarrow>
          keyGrantsConnection key connectionId \<and> kcOwnerSubject key \<noteq> []
          \<and> actorOwnsConnection (kcOwnerSubject key) connectionId (others w))"

definition actorCanAccessConnection ::
  "interference \<Rightarrow> millis \<Rightarrow> guard_request \<Rightarrow> string \<Rightarrow> relay_world \<Rightarrow> bool" where
  "actorCanAccessConnection others now req connectionId w =
     (if truthy (gqOperatorSubject req) then actorOwnsConnection (the (gqOperatorSubject req)) connectionId w
      else case gqDevice req of
             Some dev \<Rightarrow>
               (case refreshDeviceContext dev w of
                  None \<Rightarrow> False
                | Some device \<Rightarrow>
                    if connectionId \<notin> set (dcConnectionGrants device) then False
                    else if dcOwnerSubject device \<noteq> [] then actorOwnsConnection (dcOwnerSubject device) connectionId (others w)
                    else actorByKey others now req connectionId (others w))
           | None \<Rightarrow> actorByKey others now req connectionId w)"

definition actorCanAccessSession ::
  "interference \<Rightarrow> interference \<Rightarrow> millis \<Rightarrow> guard_request \<Rightarrow> string \<Rightarrow> relay_world \<Rightarrow> bool" where
  "actorCanAccessSession others1 others2 now req sessionId w =
     (if truthy (gqOperatorSubject req) then actorOwnsSync others1 (the (gqOperatorSubject req)) sessionId w
      else case getSyncConnectionId sessionId w of
             Some c \<Rightarrow> actorCanAccessConnection others2 now req c (others1 w)
           | None \<Rightarrow> False)"

definition actorCanAccessAccount ::
  "interference \<Rightarrow> interference \<Rightarrow> millis \<Rightarrow> guard_request \<Rightarrow> string \<Rightarrow> share_world \<Rightarrow> bool" where
  "actorCanAccessAccount others1 others2 now req accountId w =
     (if truthy (gqOperatorSubject req) then actorOwnsAccount (the (gqOperatorSubject req)) accountId w
      else case getAccountConnectionId accountId w of
             None \<Rightarrow> False
           | Some c \<Rightarrow>
               let r = others1 (swRelay w) in
               if c = [] then False
               else (case gqDevice req of
                       Some dev \<Rightarrow>
                         (case refreshDeviceContext dev r of
                            None \<Rightarrow> False
                          | Some device \<Rightarrow> c \<in> set (dcConnectionGrants device)
                                           \<and> actorOwnsConnection (dcOwnerSubject device) c (others2 r))
                     | None \<Rightarrow>
                         (case Option.bind (gqApiKey req) (\<lambda>ctx. refreshApiKeyContext now ctx r) of
                            None \<Rightarrow> False
                          | Some key \<Rightarrow> keyGrantsConnection key c \<and> actorOwnsConnection (kcOwnerSubject key) c (others2 r))))"

definition requireOperatorSubject :: "guard_request \<Rightarrow> string + string" where
  "requireOperatorSubject req =
     (if \<not> gqOperator req \<or> \<not> truthy (gqOperatorSubject req) then Inl ''authenticated operator subject is missing''
      else Inr (the (gqOperatorSubject req)))"

section \<open>Assertions are bound\<close>

interpretation identityAssertions: signed_token IDENTITY_PREFIX "identityMac hmac secret" for hmac secret
  by unfold_locales (simp_all add: IDENTITY_PREFIX_def identityMac_def)

lemma laterThan_int [simp]: "laterThan t (Fin (of_int e)) \<longleftrightarrow> t < e"
  by (simp add: laterThan_def)

lemma plain_identity:
  assumes "\<bar>e\<bar> < 10 ^ 21"
  shows "plainJson (identityPayload e input)"
proof -
  have "(of_int \<bar>e\<bar> :: rat) < of_int (10 ^ 21)" using assms by (simp only: of_int_less_iff)
  then show ?thesis by (auto simp: identityPayload_def)
qed

lemma verify_identity:
  assumes "verifyIdentityAssertion hmac secret now a tid m target = Some u"
  obtains p payload where "a = IDENTITY_PREFIX @ ''.'' @ p @ ''.'' @ identityMac hmac secret p" "payloadFields p = Some payload"
    "identityCurrent now tid m target payload" "mget payload ''sub'' = Some (JStr (idSubject u))"
    "payloadCapabilities payload = Some (idCapabilities u)" "payloadEmail payload = Some (idEmail u)"
proof -
  obtain p payload where o1: "openSigned IDENTITY_PREFIX (identityMac hmac secret) a = Some p" "payloadFields p = Some payload"
    and c: "identityCurrent now tid m target payload"
    and u: "payloadEmail payload = Some (idEmail u)" "payloadCapabilities payload = Some (idCapabilities u)"
      "idSubject u = the (asString (the (mget payload ''sub'')))"
    using assms unfolding verifyIdentityAssertion_def by (auto simp: bind_eq_Some_conv split: if_splits option.splits)
  have "mget payload ''sub'' = Some (JStr (idSubject u))"
    using c u(3) by (auto simp: identityCurrent_def asString_def split: option.splits json.splits)
  with that identityAssertions.open_authentic [OF o1(1)] o1(2) c u show thesis by blast
qed

text \<open>A request that was accepted carries an assertion that names it.\<close>

definition assertedFor :: "guard_env \<Rightarrow> guard_request \<Rightarrow> string \<Rightarrow> identity \<Rightarrow> bool" where
  "assertedFor env req key u =
     (key \<noteq> [] \<and> (\<exists>p payload. gqIdentityHeader req = Some (IDENTITY_PREFIX @ ''.'' @ p @ ''.'' @ identityMac (geHmac env) key p)
        \<and> payloadFields p = Some payload
        \<and> identityCurrent (geNow env) (tnId (geTenant env)) (gqMethod req) (gqTarget req) payload
        \<and> mget payload ''sub'' = Some (JStr (idSubject u)) \<and> payloadCapabilities payload = Some (idCapabilities u)))"

lemma verify_assertedFor:
  "verifyIdentityAssertion (geHmac env) key (geNow env) header (tnId (geTenant env)) (gqMethod req) (gqTarget req) = Some u
     \<Longrightarrow> gqIdentityHeader req = Some header \<Longrightarrow> assertedFor env req key u" (is "_ \<Longrightarrow> _ \<Longrightarrow> ?thesis")
proof -
  assume v: "verifyIdentityAssertion (geHmac env) key (geNow env) header (tnId (geTenant env)) (gqMethod req) (gqTarget req) = Some u"
    and h: "gqIdentityHeader req = Some header"
  have "key \<noteq> []" using v by (auto simp: verifyIdentityAssertion_def)
  with h show ?thesis unfolding assertedFor_def using verify_identity [OF v] by metis
qed

lemma accept_cases:
  assumes "acceptTrustedOperatorIdentity env req = req'"
  obtains "req' = req"
  | u where "req' = acceptIdentity u req" "idCapabilities u = [''data-owner'']"
      "truthy (tnIdentityAssertionSecret (geTenant env))" "assertedFor env req (the (tnIdentityAssertionSecret (geTenant env))) u"
  | u c where "req' = acceptIdentity u req" "idCapabilities u = [c]" "c = ''platform-admin'' \<or> organizationAdminCapability c"
      "truthy (tnIdentityAssertionSecret (geTenant env))" "truthy (tnAdministrativeSecret (geTenant env))"
      "assertedFor env req (the (tnAdministrativeSecret (geTenant env))) u"
  using assms unfolding acceptTrustedOperatorIdentity_def Let_def
  by (auto split: option.splits if_splits list.splits dest: verify_assertedFor)

lemma payload_of_input:
  assumes "identityPayload e input = JObj payload"
  shows "mget payload ''v'' = Some (JNum (Fin 1))" "mget payload ''tid'' = Some (JStr (iiTenantId input))"
    "mget payload ''sub'' = Some (JStr (iiSubject input))" "mget payload ''m'' = Some (JStr (to_upper (iiMethod input)))"
    "mget payload ''p'' = Some (JStr (iiRequestTarget input))" "mget payload ''exp'' = Some (JNum (Fin (of_int e)))"
    "mget payload ''eml'' = (if truthy (iiEmail input) then Some (JStr (the (iiEmail input))) else None)"
    "mget payload ''cap'' = (if iiCapabilities input \<noteq> [] then Some (JArr (map JStr (sort (sfrom (iiCapabilities input))))) else None)"
  using assms unfolding identityPayload_def by (auto simp: mget_Cons)

lemma length_sfrom: "length (sfrom xs) \<le> length xs"
  by (metis card_length distinct_card distinct_sfrom set_sfrom)

lemma verify_signed_identity:
  assumes sign: "signIdentityAssertion hmac secret now input ttl = Inr a"
    and caps: "length (iiCapabilities input) \<le> 16" "\<forall>c \<in> set (iiCapabilities input). 1 \<le> length c \<and> length c \<le> 64"
    and now: "\<bar>now + ttl\<bar> < 10 ^ 21" and fs: "identityPayload (now + ttl) input = JObj fs"
  shows "verifyIdentityAssertion hmac secret now' a tid m target =
    (if identityCurrent now' tid m target fs
     then Some \<lparr>idSubject = iiSubject input, idEmail = (if truthy (iiEmail input) then iiEmail input else None),
                idCapabilities = sort (sfrom (iiCapabilities input))\<rparr>
     else None)"
proof -
  let ?p = "encodePayload (JObj fs)"
  have s: "secret \<noteq> []" "a = IDENTITY_PREFIX @ ''.'' @ ?p @ ''.'' @ identityMac hmac secret ?p"
      "case iiEmail input of Some s \<Rightarrow> \<not> emailInvalid s | None \<Rightarrow> True"
    using sign fs by (auto simp: signIdentityAssertion_def Let_def split: if_splits option.splits)
  have opened: "Option.bind (openSigned IDENTITY_PREFIX (identityMac hmac secret) a) payloadFields = Some fs"
    unfolding s(2) by (rule identityAssertions.open_payload) (use plain_identity [OF now, of input] fs in simp)
  note get = payload_of_input [OF fs]
  have email: "payloadEmail fs = Some (if truthy (iiEmail input) then iiEmail input else None)"
    using s(3) by (cases "iiEmail input") (auto simp: payloadEmail_def get)
  have "length (sfrom (iiCapabilities input)) \<le> 16" using caps(1) length_sfrom order_trans by blast
  then have cap: "payloadCapabilities fs = Some (sort (sfrom (iiCapabilities input)))"
    using caps(2) by (cases "iiCapabilities input = []") (auto simp: payloadCapabilities_def get asString_def comp_def sfrom_def [of "[]"])
  show ?thesis using s(1) opened email cap by (simp add: verifyIdentityAssertion_def get(3) asString_def)
qed

lemma authenticateOperator_keeps:
  "authenticateOperator env req st = (st', req', ok) \<Longrightarrow>
     gqApiKey req' = gqApiKey req \<and> gqDevice req' = gqDevice req \<and> bearerToken req' = bearerToken req"
  unfolding authenticateOperator_def by (auto simp: bearerToken_def split: if_splits option.splits prod.splits)

lemma scopesChecked_Continue:
  "scopesChecked scopes ctx req = Continue req' \<longleftrightarrow> set scopes \<subseteq> set (kcScopes ctx) \<and> req' = req\<lparr>gqApiKey := Some ctx\<rparr>"
  by (auto simp: scopesChecked_def keyHasScope_def find_None_iff find_Some_iff split: option.splits dest: nth_mem)

lemma guard_Continue:
  assumes "requireOperatorOrApiKeyWithPolicy env allowOauth scopes req s = (s', Continue req')"
  shows "gqDevice req' = gqDevice req \<and> (gqApiKey req' = gqApiKey req \<or> (\<exists>token ctx. bearerToken req = Some token
    \<and> snd (verifyApiKey (geSha env) (geNow env) token (fst s)) = Some ctx \<and> gqApiKey req' = Some ctx \<and> set scopes \<subseteq> set (kcScopes ctx)))"
proof -
  obtain st' r ok where a: "authenticateOperator env req (snd s) = (st', r, ok)" by (cases "authenticateOperator env req (snd s)") auto
  show ?thesis using assms a authenticateOperator_keeps [OF a] unfolding requireOperatorOrApiKeyWithPolicy_def
    by (cases s) (auto simp: scopesChecked_Continue split: if_splits option.splits prod.splits)
qed

lemma verifyApiKey_row:
  "snd (verifyApiKey sha now token w) = Some ctx
     \<Longrightarrow> \<exists>i k. (i, k) \<in> set (ryKeys w) \<and> ctx = keyContext i k \<and> akHashedKey k = hashApiKey sha token"
  unfolding verifyApiKey_def by (fastforce split: if_splits option.splits dest!: findKey_Some)

lemma refreshApiKeyContext_row:
  "refreshApiKeyContext now ctx w = Some key
     \<Longrightarrow> \<exists>k. (kcId ctx, k) \<in> set (ryKeys w) \<and> currentKey ctx (kcId ctx) k \<and> \<not> pastExpiry now (akExpiresAt k) \<and> key = keyContext (kcId ctx) k"
  unfolding refreshApiKeyContext_def by (auto split: if_splits option.splits dest!: findKey_Some simp: currentKey_def)

section \<open>Properties\<close>

text \<open>
  An identity assertion is worth what was signed: verified under the same secret it gives back the subject,
  the address and the capabilities (sorted, without repetitions) for its tenant, method and request target, from
  one minute before its expiry up to and including it, and nothing for any other request or time.
\<close>

theorem identity_assertion_roundtrip:
  assumes sign: "signIdentityAssertion hmac secret now input ttl = Inr a"
    and sub: "1 \<le> length (iiSubject input)" "length (iiSubject input) \<le> 256"
    and caps: "length (iiCapabilities input) \<le> 16" "\<forall>c \<in> set (iiCapabilities input). 1 \<le> length c \<and> length c \<le> 64"
    and now: "\<bar>now + ttl\<bar> < 10 ^ 21"
  shows "verifyIdentityAssertion hmac secret now' a tid m target =
    (if tid = iiTenantId input \<and> to_upper m = to_upper (iiMethod input) \<and> target = iiRequestTarget input
        \<and> now' \<le> now + ttl \<and> now + ttl \<le> now' + 60000
     then Some \<lparr>idSubject = iiSubject input, idEmail = (if truthy (iiEmail input) then iiEmail input else None),
                idCapabilities = sort (sfrom (iiCapabilities input))\<rparr>
     else None)"
proof -
  obtain fs where fs: "identityPayload (now + ttl) input = JObj fs" by (simp add: identityPayload_def)
  have "identityCurrent now' tid m target fs \<longleftrightarrow> tid = iiTenantId input \<and> to_upper m = to_upper (iiMethod input)
      \<and> target = iiRequestTarget input \<and> now' \<le> now + ttl \<and> now + ttl \<le> now' + 60000"
    using sub by (auto simp: identityCurrent_def payload_of_input [OF fs] simp del: of_int_add)
  then show ?thesis using verify_signed_identity [OF sign caps now fs] by simp
qed

definition demoIdentity :: identity_input where
  "demoIdentity =
     \<lparr>iiTenantId = ''t'', iiSubject = ''alice'', iiEmail = None, iiMethod = ''get'', iiRequestTarget = ''/api'',
      iiCapabilities = [''data-owner'']\<rparr>"

definition demoAssertion :: string where
  "demoAssertion = projr (signIdentityAssertion (\<lambda>k m. m) ''s'' 100 demoIdentity 600)"

lemma demo_signed: "signIdentityAssertion (\<lambda>k m. m) ''s'' 100 demoIdentity 600 = Inr demoAssertion"
  by (simp add: demoAssertion_def signIdentityAssertion_def demoIdentity_def Let_def)

lemma demo_upper: "to_upper ''GET'' = to_upper ''get''" "to_upper ''POST'' \<noteq> to_upper ''get''" "sort (sfrom [''data-owner'']) = [''data-owner'']"
  by code_simp+

lemma demo_verified:
  "verifyIdentityAssertion (\<lambda>k m. m) ''s'' 700 demoAssertion ''t'' ''GET'' ''/api''
     = Some \<lparr>idSubject = ''alice'', idEmail = None, idCapabilities = [''data-owner'']\<rparr>"
proof -
  obtain fs where fs: "identityPayload (100 + 600) demoIdentity = JObj fs" by (simp add: identityPayload_def)
  have "identityCurrent 700 ''t'' ''GET'' ''/api'' fs"
    using demo_upper(1) payload_of_input [OF fs] by (simp add: identityCurrent_def demoIdentity_def expired_def laterThan_def)
  then show ?thesis using verify_signed_identity [OF demo_signed _ _ _ fs, of 700] demo_upper(3) by (simp add: demoIdentity_def)
qed

theorem identity_assertion_roundtrip_witness:
  "verifyIdentityAssertion (\<lambda>k m. m) ''s'' 700 demoAssertion ''t'' ''GET'' ''/api''
     = Some \<lparr>idSubject = ''alice'', idEmail = None, idCapabilities = [''data-owner'']\<rparr>
   \<and> verifyIdentityAssertion (\<lambda>k m. m) ''s'' 700 demoAssertion ''t'' ''POST'' ''/api'' = None"
  using identity_assertion_roundtrip [OF demo_signed, of 700] demo_upper by (simp add: demoIdentity_def)


definition demoEnv :: guard_env where
  "demoEnv =
     \<lparr>geHmac = (\<lambda>k m. m), geSha = (\<lambda>s. utf8 s), geNow = 700,
      geTenant = \<lparr>tnId = ''t'', tnIdentityAssertionSecret = Some ''s'', tnAdministrativeSecret = None\<rparr>, geOthers = (\<lambda>st. st)\<rparr>"

definition demoGuardRequest :: "string \<Rightarrow> string option \<Rightarrow> string option \<Rightarrow> guard_request" where
  "demoGuardRequest m header authorization =
     \<lparr>gqMethod = m, gqTarget = ''/api'', gqIdentityHeader = header, gqAuthorization = authorization, gqOrganizationId = None,
      gqOperator = False, gqOperatorSubject = None, gqOperatorEmail = None, gqPlatformAdmin = False, gqCapabilities = None,
      gqApiKey = None, gqDevice = None\<rparr>"


text \<open>
  A token issued through OAuth opens the public reading interface and nothing else: the internal guards
  answer 404 whatever its scopes are, and the public guard lets it through exactly for \<^verbatim>\<open>GET\<close> and \<^verbatim>\<open>HEAD\<close> with all the
  scopes that the route names.
\<close>

theorem oauth_token_confined:
  assumes operator: "snd (snd (authenticateOperator env req st)) = False" "fst (snd (authenticateOperator env req st)) = req"
    and bearer: "bearerToken req = Some token" and key: "verifyApiKey (geSha env) (geNow env) token w = (w', Some ctx)"
    and oauth: "truthy (kcOauthGrantId ctx)"
  shows "snd (requireOperatorOrApiKey env scopes req (w, st)) = Reply 404 NoSuchRoute
    \<and> snd (requireApiKey env scopes req w) = Reply 404 NoSuchRoute
    \<and> ((\<exists>req'. snd (requireOperatorOrPublicApiKey env scopes req (w, st)) = Continue req')
         \<longleftrightarrow> gqMethod req \<in> {''GET'', ''HEAD''} \<and> set scopes \<subseteq> set (kcScopes ctx))"
proof -
  obtain st' where a: "authenticateOperator env req st = (st', req, False)"
    using operator by (cases "authenticateOperator env req st") auto
  have s: "(\<exists>req'. scopesChecked scopes ctx req = Continue req') \<longleftrightarrow> set scopes \<subseteq> set (kcScopes ctx)"
    by (simp add: scopesChecked_Continue)
  show ?thesis using a bearer key oauth s
    by (simp add: requireOperatorOrApiKey_def requireApiKey_def requireOperatorOrPublicApiKey_def
        requireOperatorOrApiKeyWithPolicy_def READ_ONLY_METHODS_def)
qed

definition demoOauthKeys :: relay_world where
  "demoOauthKeys =
     demoShareRelay\<lparr>ryKeys := [(''k1'',
       \<lparr>akOwnerSubject = ''alice'', akName = ''oauth:app'', akHashedKey = hashApiKey utf8 ''acck_x'', akScopes = [''read:data''],
        akConnectionGrants = [''c1''], akGrantId = Some ''g1'', akDeviceId = None, akCreatedAt = 0, akLastUsedAt = None,
        akRevokedAt = None, akExpiresAt = Some 900\<rparr>)]\<rparr>"

theorem oauth_token_confined_witness:
  "snd (requireOperatorOrApiKey demoEnv [''read:data''] (demoGuardRequest ''GET'' None (Some ''Bearer acck_x''))
          (demoOauthKeys, \<lparr>osCredential = None, osCache = []\<rparr>)) = Reply 404 NoSuchRoute
   \<and> (\<exists>req'. snd (requireOperatorOrPublicApiKey demoEnv [''read:data''] (demoGuardRequest ''GET'' None (Some ''Bearer acck_x''))
          (demoOauthKeys, \<lparr>osCredential = None, osCache = []\<rparr>)) = Continue req')"
proof -
  let ?req = "demoGuardRequest ''GET'' None (Some ''Bearer acck_x'')" and ?st = "\<lparr>osCredential = None, osCache = []\<rparr>"
  have a: "snd (snd (authenticateOperator demoEnv ?req ?st)) = False" "fst (snd (authenticateOperator demoEnv ?req ?st)) = ?req"
    by (simp_all add: authenticateOperator_def demoGuardRequest_def demoEnv_def)
  have b: "bearerToken ?req = Some ''acck_x''" by code_simp
  obtain w' ctx where k: "verifyApiKey (geSha demoEnv) (geNow demoEnv) ''acck_x'' demoOauthKeys = (w', ctx)" by (cases "verifyApiKey (geSha demoEnv) (geNow demoEnv) ''acck_x'' demoOauthKeys")
  have "map_option (\<lambda>c. (kcOauthGrantId c, kcScopes c)) (snd (verifyApiKey (geSha demoEnv) (geNow demoEnv) ''acck_x'' demoOauthKeys))
      = Some (Some ''g1'', [''read:data''])" by code_simp
  with k obtain c where c: "ctx = Some c" "kcOauthGrantId c = Some ''g1''" "kcScopes c = [''read:data'']" by auto
  from oauth_token_confined [OF a b k [unfolded c(1)], of "[''read:data'']"] c show ?thesis
    by (simp add: demoGuardRequest_def)
qed

text \<open>
  C15: What a request to the public interface may read: if it came through the guard and the ownership check
  of its route admits a connection, then it is a reading request, the connection belongs, when that is looked up,
  to the subject it acts for, and that subject is either the operator or the owner of the presented key, whose row
  held every scope of the route when the request came and is neither revoked nor expired and still grants the
  connection when the check reads it. The states of guard, check and lookup may be any three.
\<close>

theorem public_read_authorised:
  assumes fresh: "gqApiKey req = None" "gqDevice req = None"
    and guard: "requireOperatorOrPublicApiKey env scopes req s = (s', Continue req')"
    and check: "actorCanAccessConnection others now req' c w2"
  shows "gqMethod req \<in> {''GET'', ''HEAD''} \<and>
    (\<exists>owner. (actorOwnsConnection owner c w2 \<or> actorOwnsConnection owner c (others w2))
       \<and> (gqOperatorSubject req' = Some owner
          \<or> (\<exists>token i k0 k. bearerToken req = Some token \<and> (i, k0) \<in> set (ryKeys (fst s)) \<and> (i, k) \<in> set (ryKeys w2)
               \<and> akHashedKey k0 = hashApiKey (geSha env) token \<and> akHashedKey k = akHashedKey k0 \<and> set scopes \<subseteq> set (akScopes k0)
               \<and> akOwnerSubject k = owner \<and> akRevokedAt k = None \<and> \<not> pastExpiry now (akExpiresAt k)
               \<and> (''*'' \<in> set (akConnectionGrants k) \<or> c \<in> set (akConnectionGrants k)))))"
proof (cases "truthy (gqOperatorSubject req')")
  case True
  then show ?thesis using guard check
    by (auto simp: requireOperatorOrPublicApiKey_def READ_ONLY_METHODS_def actorCanAccessConnection_def elim!: truthyE split: if_splits)
next
  case False
  have pol: "gqMethod req \<in> {''GET'', ''HEAD''}" "requireOperatorOrApiKeyWithPolicy env True scopes req s = (s', Continue req')"
    using guard by (auto simp: requireOperatorOrPublicApiKey_def READ_ONLY_METHODS_def split: if_splits)
  note g = guard_Continue [OF pol(2)]
  obtain ctx key where key: "gqApiKey req' = Some ctx" "refreshApiKeyContext now ctx w2 = Some key"
    "keyGrantsConnection key c" "actorOwnsConnection (kcOwnerSubject key) c (others w2)"
    using check False g fresh by (auto simp: actorCanAccessConnection_def actorByKey_def bind_eq_Some_conv split: option.splits)
  obtain token where t: "bearerToken req = Some token" "set scopes \<subseteq> set (kcScopes ctx)"
    "snd (verifyApiKey (geSha env) (geNow env) token (fst s)) = Some ctx"
    using g key(1) fresh by auto
  obtain i k0 where k0: "(i, k0) \<in> set (ryKeys (fst s))" "ctx = keyContext i k0" "akHashedKey k0 = hashApiKey (geSha env) token"
    using verifyApiKey_row [OF t(3)] by blast
  obtain k where k: "(i, k) \<in> set (ryKeys w2)" "currentKey ctx i k" "\<not> pastExpiry now (akExpiresAt k)" "key = keyContext i k"
    using refreshApiKeyContext_row [OF key(2)] k0(2) by (auto simp: keyContext_def)
  have "akOwnerSubject k = kcOwnerSubject key" "akHashedKey k = akHashedKey k0" "akRevokedAt k = None" "set scopes \<subseteq> set (akScopes k0)"
    "''*'' \<in> set (akConnectionGrants k) \<or> c \<in> set (akConnectionGrants k)"
    using k k0(2) t(2) key(3) by (auto simp: keyContext_def currentKey_def keyGrantsConnection_def)
  with t(1) k0 k key(4) pol(1) show ?thesis by blast
qed

theorem public_read_authorised_witness:
  "\<exists>req' k. actorCanAccessConnection (\<lambda>w. w) 800 req' ''c1'' demoOauthKeys \<and> (''k1'', k) \<in> set (ryKeys demoOauthKeys)
     \<and> akRevokedAt k = None \<and> (''*'' \<in> set (akConnectionGrants k) \<or> ''c1'' \<in> set (akConnectionGrants k))"
proof -
  let ?req = "demoGuardRequest ''GET'' None (Some ''Bearer acck_x'')" and ?s = "(demoOauthKeys, \<lparr>osCredential = None, osCache = []\<rparr>)"
  define ctx where "ctx = keyContext ''k1'' (snd (hd (ryKeys demoOauthKeys)))"
  define req' where "req' = ?req\<lparr>gqApiKey := Some ctx\<rparr>"
  have v: "snd (verifyApiKey (geSha demoEnv) (geNow demoEnv) ''acck_x'' demoOauthKeys) = Some ctx"
    unfolding ctx_def by code_simp
  have a: "authenticateOperator demoEnv ?req \<lparr>osCredential = None, osCache = []\<rparr> = (\<lparr>osCredential = None, osCache = []\<rparr>, ?req, False)"
    by (simp add: authenticateOperator_def demoGuardRequest_def demoEnv_def)
  have b: "bearerToken ?req = Some ''acck_x''" by code_simp
  have sc: "scopesChecked [''read:data''] ctx ?req = Continue req'"
    unfolding scopesChecked_Continue req'_def ctx_def by (simp add: demoOauthKeys_def keyContext_def)
  obtain w' where w': "verifyApiKey (geSha demoEnv) (geNow demoEnv) ''acck_x'' demoOauthKeys = (w', Some ctx)"
    using v by (cases "verifyApiKey (geSha demoEnv) (geNow demoEnv) ''acck_x'' demoOauthKeys") auto
  have "gqMethod ?req = ''GET''" by (simp add: demoGuardRequest_def)
  with w' a b sc have g: "requireOperatorOrPublicApiKey demoEnv [''read:data''] ?req ?s
      = ((w', \<lparr>osCredential = None, osCache = []\<rparr>), Continue req')"
    by (simp add: requireOperatorOrPublicApiKey_def READ_ONLY_METHODS_def requireOperatorOrApiKeyWithPolicy_def)
  have c: "actorCanAccessConnection (\<lambda>w. w) 800 req' ''c1'' demoOauthKeys"
    unfolding req'_def ctx_def by code_simp
  have "gqOperatorSubject req' = None" "fst ?s = demoOauthKeys" by (simp_all add: req'_def demoGuardRequest_def)
  with public_read_authorised [OF _ _ g c] c show ?thesis
    by (fastforce simp: demoGuardRequest_def demoOauthKeys_def)
qed

end
