(* ===== verification/Cipher.thy ===== *)
theory Cipher
  imports SignedTokens
begin

text \<open>
  \<^verbatim>\<open>apps/control-plane/src/crypto/cipher.ts\<close>: the envelope encryption of bank credentials. Random bytes are
  arguments; SHA-256, HKDF and AES-256-GCM are parameters on byte strings, of which the results below rely on
  \<open>gcmLaws\<close> only. The plaintext of a token is bytes; reading it as text is the caller's \<^verbatim>\<open>toString('utf8')\<close>.
\<close>

section \<open>Primitives\<close>

record crypto =
  cySha :: "byte list \<Rightarrow> byte list"
  cyHkdf :: kdf_fun
  cySeal :: "byte list \<Rightarrow> byte list \<Rightarrow> byte list \<Rightarrow> byte list \<Rightarrow> byte list \<times> byte list"
  cyOpen :: "byte list \<Rightarrow> byte list \<Rightarrow> byte list \<Rightarrow> byte list \<Rightarrow> byte list \<Rightarrow> byte list option"

text \<open>
  What AES-256-GCM documents: a decryption with the key, the nonce and the associated data of an encryption
  gives the plaintext back, and one that succeeds was given a ciphertext and (a prefix of) the tag that this
  plaintext has under them.
\<close>

definition gcmLaws :: "crypto \<Rightarrow> bool" where
  "gcmLaws cy =
     ((\<forall>k n a p. cyOpen cy k n a (fst (cySeal cy k n a p)) (snd (cySeal cy k n a p)) = Some p)
      \<and> (\<forall>k n a c t p. cyOpen cy k n a c t = Some p
            \<longrightarrow> c = fst (cySeal cy k n a p) \<and> t = take (length t) (snd (cySeal cy k n a p)))
      \<and> (\<forall>k n a p. length (snd (cySeal cy k n a p)) = 16))"

section \<open>Keys and contexts\<close>

definition SCHEME :: string where
  "SCHEME = ''acc1''"

definition KEY_LEN :: nat where
  "KEY_LEN = 32"

definition HKDF_INFO :: string where
  "HKDF_INFO = ''accrawl-cred-kek-v1''"

record secret_context =
  sxConnectionId :: string
  sxField :: string
  sxVersion :: "string option"

fun hexBytes :: "string \<Rightarrow> byte list" where
  "hexBytes (a # b # r) =
     (case (hexDigit a, hexDigit b) of
        (Some x, Some y) \<Rightarrow> of_nat (16 * x + y) # hexBytes r
      | _ \<Rightarrow> [])"
| "hexBytes _ = []"

text \<open>\<open>raw\<close> is the tenant's key, or the secret of the deployment.\<close>

definition masterKey :: "string option \<Rightarrow> string + byte list" where
  "masterKey raw =
     (if \<not> truthy raw then Inl ''CREDENTIAL_ENC_KEY is not set''
      else let key = (if length (the raw) = 64 \<and> list_all (\<lambda>c. hexDigit c \<noteq> None) (the raw)
                      then hexBytes (the raw) else base64_decode (the raw))
           in if length key \<noteq> KEY_LEN then Inl ''CREDENTIAL_ENC_KEY must decode to 32 bytes'' else Inr key)"

definition keyId :: "crypto \<Rightarrow> byte list \<Rightarrow> string" where
  "keyId cy master = take 16 (to_hex (cySha cy master))"

definition deriveKek :: "crypto \<Rightarrow> byte list \<Rightarrow> string \<Rightarrow> byte list" where
  "deriveKek cy master kid = cyHkdf cy master (hexBytes kid) (utf8 HKDF_INFO) KEY_LEN"

definition aadFor :: "secret_context \<Rightarrow> byte list" where
  "aadFor ctx =
     utf8 (stringify (\<lambda>_. []) (JArr [JStr (sxConnectionId ctx), JStr (sxField ctx),
        JStr (case sxVersion ctx of Some v \<Rightarrow> v | None \<Rightarrow> ''v1'')]))"

record seal_random =
  srDek :: "byte list"
  srDekNonce :: "byte list"
  srDataNonce :: "byte list"

section \<open>Encryption and decryption\<close>

definition encryptSecret :: "crypto \<Rightarrow> string option \<Rightarrow> seal_random \<Rightarrow> string \<Rightarrow> secret_context \<Rightarrow> string + string" where
  "encryptSecret cy raw r plaintext ctx =
     (case masterKey raw of
        Inl e \<Rightarrow> Inl e
      | Inr master \<Rightarrow>
          let kid = keyId cy master;
              (wrappedDek, dekTag) = cySeal cy (deriveKek cy master kid) (srDekNonce r) [] (srDek r);
              (ct, dataTag) = cySeal cy (srDek r) (srDataNonce r) (aadFor ctx) (utf8 plaintext)
          in Inr (join ''.'' [SCHEME, kid, b64url_encode (srDekNonce r), b64url_encode wrappedDek, b64url_encode dekTag,
                              b64url_encode (srDataNonce r), b64url_encode ct, b64url_encode dataTag]))"

text \<open>A failed authentication raises from the library.\<close>

definition decryptSecret :: "crypto \<Rightarrow> string option \<Rightarrow> string \<Rightarrow> secret_context \<Rightarrow> string + byte list" where
  "decryptSecret cy raw token ctx =
     (case split_on (CHR ''.'') token of
        [scheme, kid, dekNonceS, wrappedDekS, dekTagS, dataNonceS, ctS, dataTagS] \<Rightarrow>
          if scheme \<noteq> SCHEME then Inl ''decryptSecret: malformed ciphertext token''
          else (case masterKey raw of
                  Inl e \<Rightarrow> Inl e
                | Inr master \<Rightarrow>
                    let currentKid = keyId cy master in
                    if length kid = length currentKid \<and> length (utf8 kid) \<noteq> length (utf8 currentKid)
                    then Inl ''Input buffers must have the same byte length''
                    else if kid \<noteq> currentKid then Inl ''decryptSecret: ciphertext was sealed under a different master key''
                    else (case cyOpen cy (deriveKek cy master kid) (b64url_decode dekNonceS) []
                                 (b64url_decode wrappedDekS) (b64url_decode dekTagS) of
                            None \<Rightarrow> Inl ''Unsupported state or unable to authenticate data''
                          | Some dek \<Rightarrow>
                              (case cyOpen cy dek (b64url_decode dataNonceS) (aadFor ctx) (b64url_decode ctS) (b64url_decode dataTagS) of
                                 None \<Rightarrow> Inl ''Unsupported state or unable to authenticate data''
                               | Some p \<Rightarrow> Inr p)))
      | _ \<Rightarrow> Inl ''decryptSecret: malformed ciphertext token'')"

section \<open>Lemmas\<close>

lemma keyId_hex: "\<forall>c \<in> set (keyId cy master). is_hex c"
  using to_hex_hex [of "cySha cy master"] set_take_subset [of 16 "to_hex (cySha cy master)"] by (auto simp: keyId_def)

lemma keyId_plain: "CHR ''.'' \<notin> set (keyId cy master)"
  using keyId_hex [of cy master] by (auto simp: is_hex_def)

text \<open>An absent version means the first.\<close>

definition sameContext :: "secret_context \<Rightarrow> secret_context \<Rightarrow> bool" where
  "sameContext a b =
     (sxConnectionId a = sxConnectionId b \<and> sxField a = sxField b
      \<and> (case sxVersion a of Some v \<Rightarrow> v | None \<Rightarrow> ''v1'') = (case sxVersion b of Some v \<Rightarrow> v | None \<Rightarrow> ''v1''))"

lemma aadFor_inject:
  "aadFor a = aadFor b \<Longrightarrow> sxConnectionId a = sxConnectionId b \<and> sxField a = sxField b
     \<and> (case sxVersion a of Some v \<Rightarrow> v | None \<Rightarrow> ''v1'') = (case sxVersion b of Some v \<Rightarrow> v | None \<Rightarrow> ''v1'')"
proof -
  let ?v = "\<lambda>x. JArr [JStr (sxConnectionId x), JStr (sxField x), JStr (case sxVersion x of Some v \<Rightarrow> v | None \<Rightarrow> ''v1'')]"
  assume "aadFor a = aadFor b"
  then have "jsonParse (stringify (\<lambda>_. []) (?v a)) = jsonParse (stringify (\<lambda>_. []) (?v b))" by (simp add: aadFor_def)
  then have "?v a = ?v b" using parse_stringify [of "?v a" "\<lambda>_. []"] parse_stringify [of "?v b" "\<lambda>_. []"] by simp
  then show ?thesis by simp
qed

text \<open>The parts of a sealed token are read back as they were written.\<close>

lemma decrypt_sealed:
  assumes laws: "gcmLaws cy" and m: "masterKey raw = Inr master" and sealed: "encryptSecret cy raw r p ctx = Inr token"
  shows "decryptSecret cy raw token ctx' =
    (case cyOpen cy (srDek r) (srDataNonce r) (aadFor ctx') (fst (cySeal cy (srDek r) (srDataNonce r) (aadFor ctx) (utf8 p)))
            (snd (cySeal cy (srDek r) (srDataNonce r) (aadFor ctx) (utf8 p))) of
       None \<Rightarrow> Inl ''Unsupported state or unable to authenticate data'' | Some q \<Rightarrow> Inr q)"
proof -
  let ?kek = "deriveKek cy master (keyId cy master)"
  obtain wd wt where w: "cySeal cy ?kek (srDekNonce r) [] (srDek r) = (wd, wt)" by (cases "cySeal cy ?kek (srDekNonce r) [] (srDek r)")
  obtain ct t where c: "cySeal cy (srDek r) (srDataNonce r) (aadFor ctx) (utf8 p) = (ct, t)"
    by (cases "cySeal cy (srDek r) (srDataNonce r) (aadFor ctx) (utf8 p)")
  have unwrap: "cyOpen cy ?kek (srDekNonce r) [] wd wt = Some (srDek r)"
    using laws w unfolding gcmLaws_def by (metis fst_conv snd_conv)
  have "split_on (CHR ''.'') token = [SCHEME, keyId cy master, b64url_encode (srDekNonce r), b64url_encode wd, b64url_encode wt,
      b64url_encode (srDataNonce r), b64url_encode ct, b64url_encode t]"
  proof -
    have "token = join ''.'' [SCHEME, keyId cy master, b64url_encode (srDekNonce r), b64url_encode wd, b64url_encode wt,
        b64url_encode (srDataNonce r), b64url_encode ct, b64url_encode t]"
      using sealed m w c by (simp add: encryptSecret_def Let_def)
    then show ?thesis by (simp only:) (rule split_on_join, simp_all add: keyId_plain SCHEME_def)
  qed
  with m unwrap c show ?thesis by (simp add: decryptSecret_def Let_def)
qed

section \<open>Properties\<close>

text \<open>
  C34: A sealed credential opens to exactly the text that was sealed, in its context and under the same master key,
  and in no other context: a token copied to another connection, field or version is refused, unless the ciphertext
  and tag of this very token are also those of some text under the other context (a forgery of the tag).
\<close>

theorem credential_bound_to_context:
  assumes laws: "gcmLaws cy" and sealed: "encryptSecret cy raw r p ctx = Inr token"
  shows "decryptSecret cy raw token ctx = Inr (utf8 p) \<and> utf8_decode (utf8 p) = Some p
    \<and> (\<forall>ctx' q. decryptSecret cy raw token ctx' = Inr q \<longrightarrow>
         sameContext ctx' ctx
         \<or> aadFor ctx' \<noteq> aadFor ctx
           \<and> cySeal cy (srDek r) (srDataNonce r) (aadFor ctx') q = cySeal cy (srDek r) (srDataNonce r) (aadFor ctx) (utf8 p))"
proof -
  obtain master where m: "masterKey raw = Inr master" using sealed by (auto simp: encryptSecret_def split: sum.splits)
  let ?k = "srDek r" and ?n = "srDataNonce r"
  have same: "cyOpen cy ?k ?n (aadFor ctx) (fst (cySeal cy ?k ?n (aadFor ctx) (utf8 p))) (snd (cySeal cy ?k ?n (aadFor ctx) (utf8 p)))
      = Some (utf8 p)" using laws by (simp add: gcmLaws_def)
  have "sameContext ctx' ctx \<or> aadFor ctx' \<noteq> aadFor ctx \<and> cySeal cy ?k ?n (aadFor ctx') q = cySeal cy ?k ?n (aadFor ctx) (utf8 p)"
    if "decryptSecret cy raw token ctx' = Inr q" for ctx' q
  proof -
    have "cyOpen cy ?k ?n (aadFor ctx') (fst (cySeal cy ?k ?n (aadFor ctx) (utf8 p))) (snd (cySeal cy ?k ?n (aadFor ctx) (utf8 p)))
        = Some q" using that unfolding decrypt_sealed [OF laws m sealed] by (auto split: option.splits)
    then have "fst (cySeal cy ?k ?n (aadFor ctx) (utf8 p)) = fst (cySeal cy ?k ?n (aadFor ctx') q)"
        "snd (cySeal cy ?k ?n (aadFor ctx) (utf8 p)) = snd (cySeal cy ?k ?n (aadFor ctx') q)"
      using laws unfolding gcmLaws_def by (metis order_refl take_all)+
    then show ?thesis using aadFor_inject [of ctx' ctx] by (auto simp: sameContext_def intro: prod_eqI)
  qed
  with same show ?thesis by (simp add: decrypt_sealed [OF laws m sealed])
qed

definition demoCrypto :: crypto where
  "demoCrypto =
     \<lparr>cySha = (\<lambda>m. m), cyHkdf = (\<lambda>k s i n. k), cySeal = (\<lambda>k n a p. (p, replicate 16 (of_nat (length a)))),
      cyOpen = (\<lambda>k n a c t. if t = replicate 16 (of_nat (length a)) then Some c else None)\<rparr>"

lemma demoCrypto_laws: "gcmLaws demoCrypto"
  by (simp add: gcmLaws_def demoCrypto_def)

theorem credential_bound_to_context_witness:
  "\<exists>token. encryptSecret demoCrypto (Some (replicate 64 (CHR ''0''))) \<lparr>srDek = [1], srDekNonce = [2], srDataNonce = [3]\<rparr> ''pin''
       \<lparr>sxConnectionId = ''c1'', sxField = ''password'', sxVersion = None\<rparr> = Inr token
     \<and> decryptSecret demoCrypto (Some (replicate 64 (CHR ''0''))) token
         \<lparr>sxConnectionId = ''c1'', sxField = ''password'', sxVersion = None\<rparr> = Inr (utf8 ''pin'')
     \<and> isl (decryptSecret demoCrypto (Some (replicate 64 (CHR ''0''))) token
         \<lparr>sxConnectionId = ''c1'', sxField = ''dob'', sxVersion = None\<rparr>)"
proof -
  let ?raw = "Some (replicate 64 (CHR ''0''))" and ?c = "\<lparr>sxConnectionId = ''c1'', sxField = ''password'', sxVersion = None\<rparr>"
  let ?d = "\<lparr>sxConnectionId = ''c1'', sxField = ''dob'', sxVersion = None\<rparr>"
  have "\<not> isl (masterKey ?raw)" by code_simp
  then obtain m where "masterKey ?raw = Inr m" by (cases "masterKey ?raw") auto
  then obtain token where t: "encryptSecret demoCrypto ?raw \<lparr>srDek = [1], srDekNonce = [2], srDataNonce = [3]\<rparr> ''pin'' ?c = Inr token"
    by (simp add: encryptSecret_def Let_def demoCrypto_def)
  have "(of_nat (length (aadFor ?d)) :: byte) \<noteq> of_nat (length (aadFor ?c))" by code_simp
  then have "cySeal demoCrypto [1] [3] (aadFor ?d) q \<noteq> cySeal demoCrypto [1] [3] (aadFor ?c) (utf8 ''pin'')" for q
    by (simp add: demoCrypto_def)
  moreover have "\<not> sameContext ?d ?c" by (simp add: sameContext_def)
  ultimately have "decryptSecret demoCrypto ?raw token ?d \<noteq> Inr q" for q
    using credential_bound_to_context [OF demoCrypto_laws t] by fastforce
  then have "isl (decryptSecret demoCrypto ?raw token ?d)" by (cases "decryptSecret demoCrypto ?raw token ?d") auto
  with credential_bound_to_context [OF demoCrypto_laws t] t show ?thesis by blast
qed

text \<open>A token sealed under a key with another fingerprint is recognised as such.\<close>

lemma rotation_detected:
  assumes "encryptSecret cy raw r p ctx = Inr token" "masterKey raw = Inr m" "masterKey raw' = Inr m'" "keyId cy m \<noteq> keyId cy m'"
    and "length (utf8 (keyId cy m)) = length (utf8 (keyId cy m'))"
  shows "decryptSecret cy raw' token ctx' = Inl ''decryptSecret: ciphertext was sealed under a different master key''"
proof -
  obtain a b c d e f where t: "token = join ''.'' [SCHEME, keyId cy m, b64url_encode a, b64url_encode b, b64url_encode c,
      b64url_encode d, b64url_encode e, b64url_encode f]"
    using assms(1,2) by (auto simp: encryptSecret_def Let_def split: prod.splits)
  have "split_on (CHR ''.'') token = [SCHEME, keyId cy m, b64url_encode a, b64url_encode b, b64url_encode c,
      b64url_encode d, b64url_encode e, b64url_encode f]"
    unfolding t by (rule split_on_join) (simp_all add: keyId_plain SCHEME_def)
  then show ?thesis using assms by (simp add: decryptSecret_def Let_def)
qed

end
