(* ===== verification/Institutions.thy ===== *)
theory Institutions
  imports RunCrawl Cipher ApiKeys
begin

text \<open>
  \<^verbatim>\<open>apps/control-plane/src/data/institutions.ts\<close> and the institution operations of
  \<^verbatim>\<open>storage/postgres-user-data-store.ts\<close>: the catalogue of banks, whose login address anchors every credential. The
  URL parser, the public-suffix list, the policy on plain HTTP and SHA-256 are fields of the environment. An
  update reads the row without a lock: \<open>others\<close> is what other transactions commit before it writes.
\<close>

section \<open>Rows\<close>

datatype config_source = Builtin | Local | Imported
datatype scan_status = ScanPending | ScanPassed | ScanFailed

record institution_row =
  irOwnerSubject :: "string option"
  irCatalogKey :: "string option"
  irName :: string
  irLoginUrl :: string
  irCanonicalDomain :: string
  irAllowedDomains :: "string list"
  irType :: string
  irCountry :: "string option"
  irLogo :: "string option"
  irPlaybook :: "string option"
  irExtractionHints :: "json option"
  irLoginHints :: "json option"
  irRequires2fa :: bool
  irOtpSenderPattern :: "string option"
  irUseDeviceProxy :: bool
  irModel :: "string option"
  irThinkingLevel :: "string option"
  irMaxSteps :: int
  irTimeoutSeconds :: int
  irTransactionLookbackDays :: int
  irSource :: config_source
  irScanStatus :: scan_status
  irVersion :: nat
  irCreatedAt :: millis
  irUpdatedAt :: millis

text \<open>What a caller may set; \<open>None\<close> is \<^verbatim>\<open>undefined\<close>, and only two fields can be set to \<^verbatim>\<open>null\<close>.\<close>

record institution_patch =
  ipName :: "string option"
  ipLoginUrl :: "string option"
  ipType :: "string option"
  ipCountry :: "string option"
  ipLogo :: "string option"
  ipAllowedDomains :: "string list option"
  ipPlaybook :: "string option"
  ipExtractionHints :: "json option"
  ipLoginHints :: "json option"
  ipRequires2fa :: "bool option"
  ipOtpSenderPattern :: "string option"
  ipUseDeviceProxy :: "bool option"
  ipModel :: "string option option"
  ipThinkingLevel :: "string option option"
  ipMaxSteps :: "int option"
  ipTimeoutSeconds :: "int option"
  ipTransactionLookbackDays :: "int option"

record institution_input =
  iiId :: string
  iiName :: string
  iiLoginUrl :: string
  iiType :: string
  iiRest :: institution_patch

text \<open>A connection as its owner edits it; what a crawl reads and writes of it is in \<open>wConnections\<close>.\<close>

record profile_row =
  pfOwnerSubject :: string
  pfInstitutionId :: string
  pfUsernameCt :: string
  pfPasswordCt :: string
  pfDobCt :: "string option"
  pfPhoneCt :: "string option"
  pfLoginUrlOverride :: "string option"
  pfCustomInstructions :: "string option"
  pfNickname :: "string option"
  pfCreatedAt :: millis

record anchor_world =
  anWorld :: world
  anInstitutions :: "institution_row jsmap"
  anProfiles :: "profile_row jsmap"

type_synonym anchor_interference = "anchor_world \<Rightarrow> anchor_world"

record anchor_env =
  aeParseUrl :: url_parser
  aeGetDomain :: "string \<Rightarrow> string option"
  aeNodeEnv :: "string option"
  aeAllowInsecure :: "string option"
  aeSha :: digest
  aeCrypto :: crypto
  aeRawKey :: "string option"
  aeCronNext :: cron
  aeTzKnown :: "string \<Rightarrow> bool"

abbreviation withinDomain :: "anchor_env \<Rightarrow> string \<Rightarrow> string \<Rightarrow> bool" where
  "withinDomain env \<equiv> isHostWithinDomain (aeParseUrl env)"

abbreviation canonicalOf :: "anchor_env \<Rightarrow> string \<Rightarrow> string option" where
  "canonicalOf env \<equiv> deriveCanonicalDomain (aeParseUrl env) (aeGetDomain env)"

datatype institution_error = InvalidLoginUrl string | InsecureLoginUrl string | InvalidAllowedDomain string | UniqueViolation | ForeignKeyViolation

definition defaultTo :: "'a \<Rightarrow> 'a option \<Rightarrow> 'a" where
  "defaultTo d v = (case v of Some x \<Rightarrow> x | None \<Rightarrow> d)"

lemma defaultTo_simps [simp]: "defaultTo d None = d" "defaultTo d (Some x) = x"
  by (simp_all add: defaultTo_def)

section \<open>Identifiers, access and validation\<close>

definition validateAllowedDomains :: "anchor_env \<Rightarrow> string list option \<Rightarrow> institution_error option" where
  "validateAllowedDomains env domains =
     map_option InvalidAllowedDomain
       (find (\<lambda>d. \<not> isRegistrableHost (aeParseUrl env) (aeGetDomain env) d) (defaultTo [] domains))"

definition privateInstitutionId :: "anchor_env \<Rightarrow> string \<Rightarrow> string \<Rightarrow> string" where
  "privateInstitutionId env ownerSubject catalogKey =
     ''u-'' @ take 62 (to_hex (aeSha env (ownerSubject @ [CHR 0x00] @ catalogKey)))"

definition publishedInstitutionId :: "anchor_env \<Rightarrow> string \<Rightarrow> string" where
  "publishedInstitutionId env sourceId = ''a-'' @ take 62 (to_hex (aeSha env (''published'' @ [CHR 0x00] @ sourceId)))"

datatype institution_access = AccessAll | AccessVisible string | AccessOwned string | AccessPublic

definition institutionMatchesAccess :: "institution_row \<Rightarrow> institution_access \<Rightarrow> bool" where
  "institutionMatchesAccess row access =
     (case access of
        AccessAll \<Rightarrow> True
      | AccessPublic \<Rightarrow> irOwnerSubject row = None
      | AccessOwned s \<Rightarrow> irOwnerSubject row = Some s
      | AccessVisible s \<Rightarrow> irOwnerSubject row = None \<or> irOwnerSubject row = Some s)"

text \<open>\<^verbatim>\<open>isSecureLoginUrl\<close>, then \<^verbatim>\<open>deriveCanonicalDomain\<close>: the domain of a login address, or why it has none.\<close>

definition anchorDomain :: "anchor_env \<Rightarrow> string \<Rightarrow> institution_error + string" where
  "anchorDomain env loginUrl =
     (if \<not> isSecureLoginUrl (aeParseUrl env) (aeNodeEnv env) (aeAllowInsecure env) loginUrl then Inl (InsecureLoginUrl loginUrl)
      else case canonicalOf env loginUrl of None \<Rightarrow> Inl (InvalidLoginUrl loginUrl) | Some d \<Rightarrow> Inr d)"

section \<open>Fingerprints\<close>

definition sortedLower :: "string list \<Rightarrow> string list" where
  "sortedLower ds = sort (map to_lower ds)"

definition scanMaterial :: "institution_row \<Rightarrow> string" where
  "scanMaterial row =
     stringify (\<lambda>_. []) (JArr [JStr (irName row), JStr (irLoginUrl row), JStr (to_lower (irCanonicalDomain row)),
       JArr (map JStr (sortedLower (irAllowedDomains row))),
       (case irPlaybook row of Some p \<Rightarrow> JStr p | None \<Rightarrow> JNull)])"

definition institutionScanFingerprint :: "anchor_env \<Rightarrow> institution_row \<Rightarrow> string" where
  "institutionScanFingerprint env row = b64url_encode (aeSha env (scanMaterial row))"

definition trustMaterial :: "institution_row \<Rightarrow> string" where
  "trustMaterial row =
     stringify (\<lambda>_. []) (JArr [JStr (to_lower (irCanonicalDomain row)), JArr (map JStr (sortedLower (irAllowedDomains row)))])"

definition institutionTrustFingerprint :: "anchor_env \<Rightarrow> institution_row \<Rightarrow> string" where
  "institutionTrustFingerprint env row = b64url_encode (aeSha env (trustMaterial row))"

section \<open>Plans\<close>

definition prepareInstitutionInsert ::
  "anchor_env \<Rightarrow> institution_input \<Rightarrow> config_source \<Rightarrow> scan_status \<Rightarrow> string option \<Rightarrow> millis
     \<Rightarrow> institution_error + string \<times> institution_row" where
  "prepareInstitutionInsert env input src scanStatus ownerSubject now =
     (case anchorDomain env (iiLoginUrl input) of
        Inl e \<Rightarrow> Inl e
      | Inr canonicalDomain \<Rightarrow>
          let p = iiRest input in
          (case validateAllowedDomains env (ipAllowedDomains p) of
             Some e \<Rightarrow> Inl e
           | None \<Rightarrow>
               Inr ((case ownerSubject of None \<Rightarrow> iiId input | Some s \<Rightarrow> privateInstitutionId env s (iiId input)),
                    \<lparr>irOwnerSubject = ownerSubject, irCatalogKey = Some (iiId input), irName = iiName input,
                     irLoginUrl = iiLoginUrl input, irCanonicalDomain = canonicalDomain,
                     irAllowedDomains = defaultTo [] (ipAllowedDomains p), irType = iiType input, irCountry = ipCountry p,
                     irLogo = ipLogo p, irPlaybook = ipPlaybook p, irExtractionHints = ipExtractionHints p,
                     irLoginHints = ipLoginHints p, irRequires2fa = defaultTo False (ipRequires2fa p),
                     irOtpSenderPattern = ipOtpSenderPattern p, irUseDeviceProxy = defaultTo False (ipUseDeviceProxy p),
                     irModel = defaultTo None (ipModel p), irThinkingLevel = defaultTo None (ipThinkingLevel p),
                     irMaxSteps = defaultTo 120 (ipMaxSteps p), irTimeoutSeconds = defaultTo 900 (ipTimeoutSeconds p),
                     irTransactionLookbackDays = defaultTo 14 (ipTransactionLookbackDays p),
                     irSource = src, irScanStatus = scanStatus, irVersion = 1, irCreatedAt = now, irUpdatedAt = now\<rparr>)))"

text \<open>\<^verbatim>\<open>{ ...existing, ...pickSettable(patch), updatedAt: now }\<close>.\<close>

definition pickSettable :: "millis \<Rightarrow> institution_patch \<Rightarrow> institution_row \<Rightarrow> institution_row" where
  "pickSettable now p row =
     row\<lparr>irName := defaultTo (irName row) (ipName p), irLoginUrl := defaultTo (irLoginUrl row) (ipLoginUrl p),
         irType := defaultTo (irType row) (ipType p),
         irCountry := (if ipCountry p = None then irCountry row else ipCountry p),
         irLogo := (if ipLogo p = None then irLogo row else ipLogo p),
         irAllowedDomains := defaultTo (irAllowedDomains row) (ipAllowedDomains p),
         irPlaybook := (if ipPlaybook p = None then irPlaybook row else ipPlaybook p),
         irExtractionHints := (if ipExtractionHints p = None then irExtractionHints row else ipExtractionHints p),
         irLoginHints := (if ipLoginHints p = None then irLoginHints row else ipLoginHints p),
         irRequires2fa := defaultTo (irRequires2fa row) (ipRequires2fa p),
         irOtpSenderPattern := (if ipOtpSenderPattern p = None then irOtpSenderPattern row else ipOtpSenderPattern p),
         irUseDeviceProxy := defaultTo (irUseDeviceProxy row) (ipUseDeviceProxy p),
         irModel := defaultTo (irModel row) (ipModel p),
         irThinkingLevel := defaultTo (irThinkingLevel row) (ipThinkingLevel p),
         irMaxSteps := defaultTo (irMaxSteps row) (ipMaxSteps p),
         irTimeoutSeconds := defaultTo (irTimeoutSeconds row) (ipTimeoutSeconds p),
         irTransactionLookbackDays := defaultTo (irTransactionLookbackDays row) (ipTransactionLookbackDays p),
         irUpdatedAt := now\<rparr>"

record institution_update_plan =
  upRow :: institution_row
  upResetVerification :: bool
  upCanonicalChanged :: bool

text \<open>\<^verbatim>\<open>JSON.stringify(before) !== JSON.stringify(after)\<close> compares two lists of strings.\<close>

definition prepareInstitutionUpdate ::
  "anchor_env \<Rightarrow> institution_row \<Rightarrow> institution_patch \<Rightarrow> millis \<Rightarrow> institution_error + institution_update_plan" where
  "prepareInstitutionUpdate env existing patch now =
     (case validateAllowedDomains env (ipAllowedDomains patch) of
        Some e \<Rightarrow> Inl e
      | None \<Rightarrow>
          (case (case ipLoginUrl patch of None \<Rightarrow> Inr (irCanonicalDomain existing) | Some u \<Rightarrow> anchorDomain env u) of
             Inl e \<Rightarrow> Inl e
           | Inr canonicalDomain \<Rightarrow>
               let canonicalDomainChanged = (canonicalDomain \<noteq> irCanonicalDomain existing);
                   allowedDomainsChanged = (case ipAllowedDomains patch of None \<Rightarrow> False
                                            | Some ds \<Rightarrow> sortedLower (irAllowedDomains existing) \<noteq> sortedLower ds);
                   next1 = (pickSettable now patch existing)\<lparr>irCanonicalDomain := canonicalDomain\<rparr>;
                   row = (if irSource existing = Imported
                             \<and> institutionScanFingerprint env existing \<noteq> institutionScanFingerprint env next1
                          then next1\<lparr>irScanStatus := ScanPending\<rparr> else next1)
               in Inr \<lparr>upRow = row, upResetVerification = (canonicalDomainChanged \<or> allowedDomainsChanged),
                       upCanonicalChanged = canonicalDomainChanged\<rparr>))"

definition institutionInputForPublishedCopy :: "anchor_env \<Rightarrow> string \<Rightarrow> institution_row \<Rightarrow> institution_input" where
  "institutionInputForPublishedCopy env rowId row =
     \<lparr>iiId = publishedInstitutionId env rowId, iiName = irName row, iiLoginUrl = irLoginUrl row, iiType = irType row,
      iiRest = \<lparr>ipName = None, ipLoginUrl = None, ipType = None, ipCountry = irCountry row, ipLogo = irLogo row,
        ipAllowedDomains = Some (irAllowedDomains row), ipPlaybook = irPlaybook row,
        ipExtractionHints = irExtractionHints row, ipLoginHints = irLoginHints row,
        ipRequires2fa = Some (irRequires2fa row), ipOtpSenderPattern = irOtpSenderPattern row,
        ipUseDeviceProxy = Some (irUseDeviceProxy row), ipModel = Some (irModel row),
        ipThinkingLevel = Some (irThinkingLevel row), ipMaxSteps = Some (irMaxSteps row),
        ipTimeoutSeconds = Some (irTimeoutSeconds row), ipTransactionLookbackDays = Some (irTransactionLookbackDays row)\<rparr>\<rparr>"

section \<open>Operations\<close>

definition getInstitution :: "string \<Rightarrow> institution_access \<Rightarrow> anchor_world \<Rightarrow> institution_row option" where
  "getInstitution iid access w =
     (case mget (anInstitutions w) iid of
        Some row \<Rightarrow> if institutionMatchesAccess row access then Some row else None
      | None \<Rightarrow> None)"

definition listInstitutions :: "institution_access \<Rightarrow> anchor_world \<Rightarrow> (string \<times> institution_row) list" where
  "listInstitutions access w = filter (\<lambda>(i, row). institutionMatchesAccess row access) (anInstitutions w)"

definition insertInstitution ::
  "anchor_env \<Rightarrow> institution_input \<Rightarrow> config_source \<Rightarrow> scan_status \<Rightarrow> string option \<Rightarrow> millis \<Rightarrow> anchor_world
     \<Rightarrow> institution_error + anchor_world \<times> string" where
  "insertInstitution env input src scanStatus ownerSubject now w =
     (case prepareInstitutionInsert env input src scanStatus ownerSubject now of
        Inl e \<Rightarrow> Inl e
      | Inr (iid, row) \<Rightarrow>
          if mhas (anInstitutions w) iid then Inl UniqueViolation
          else Inr (w\<lparr>anInstitutions := mput iid row (anInstitutions w)\<rparr>, iid))"

definition createInstitution ::
  "anchor_env \<Rightarrow> institution_input \<Rightarrow> string option \<Rightarrow> millis \<Rightarrow> anchor_world \<Rightarrow> institution_error + anchor_world \<times> string" where
  "createInstitution env input ownerSubject now w = insertInstitution env input Local ScanPassed ownerSubject now w"

definition createImportedInstitution ::
  "anchor_env \<Rightarrow> institution_input \<Rightarrow> string option \<Rightarrow> millis \<Rightarrow> anchor_world \<Rightarrow> institution_error + anchor_world \<times> string" where
  "createImportedInstitution env input ownerSubject now w = insertInstitution env input Imported ScanPending ownerSubject now w"

datatype scan_result = ScanUpdated | ScanNotFound | ScanStale

definition setInstitutionScanStatus ::
  "anchor_env \<Rightarrow> string \<Rightarrow> scan_status \<Rightarrow> string \<Rightarrow> institution_access \<Rightarrow> millis \<Rightarrow> anchor_world \<Rightarrow> anchor_world \<times> scan_result" where
  "setInstitutionScanStatus env iid scanStatus expectedScanFingerprint access now w =
     (case getInstitution iid access w of
        None \<Rightarrow> (w, ScanNotFound)
      | Some existing \<Rightarrow>
          if institutionScanFingerprint env existing \<noteq> expectedScanFingerprint then (w, ScanStale)
          else (w\<lparr>anInstitutions := updateRows (\<lambda>i r. i = iid) (\<lambda>r. r\<lparr>irScanStatus := scanStatus, irUpdatedAt := now\<rparr>)
                    (anInstitutions w)\<rparr>, ScanUpdated))"

text \<open>The two updates of connections that follow a change of the trust fields.\<close>

definition resetVerification :: "string \<Rightarrow> anchor_world \<Rightarrow> anchor_world" where
  "resetVerification iid w =
     w\<lparr>anWorld := (anWorld w)\<lparr>wConnections :=
       updateRows (\<lambda>cid c. map_option pfInstitutionId (mget (anProfiles w) cid) = Some iid)
         (\<lambda>c. c\<lparr>cnLoginDomainVerified := False\<rparr>) (wConnections (anWorld w))\<rparr>\<rparr>"

definition clearOverrides :: "anchor_env \<Rightarrow> string \<Rightarrow> string \<Rightarrow> anchor_world \<Rightarrow> anchor_world" where
  "clearOverrides env iid newDomain w =
     w\<lparr>anProfiles := updateRows
       (\<lambda>cid p. pfInstitutionId p = iid \<and> truthy (pfLoginUrlOverride p)
                \<and> \<not> withinDomain env (the (pfLoginUrlOverride p)) newDomain)
       (\<lambda>p. p\<lparr>pfLoginUrlOverride := None\<rparr>) (anProfiles w)\<rparr>"

definition updateInstitution ::
  "anchor_env \<Rightarrow> anchor_interference \<Rightarrow> string \<Rightarrow> institution_patch \<Rightarrow> institution_access \<Rightarrow> millis \<Rightarrow> anchor_world
     \<Rightarrow> institution_error + anchor_world \<times> institution_row option" where
  "updateInstitution env others iid patch access now w0 =
     (case getInstitution iid access w0 of
        None \<Rightarrow> Inr (w0, None)
      | Some existing \<Rightarrow>
          (case prepareInstitutionUpdate env existing patch now of
             Inl e \<Rightarrow> Inl e
           | Inr plan \<Rightarrow>
               let w = others w0 in
               (case getInstitution iid access w of
                  None \<Rightarrow> Inr (w, None)
                | Some current \<Rightarrow>
                    let row = (upRow plan)\<lparr>irCreatedAt := irCreatedAt current\<rparr>;
                        w1 = w\<lparr>anInstitutions := mput iid row (anInstitutions w)\<rparr>;
                        w2 = (if upResetVerification plan then resetVerification iid w1 else w1);
                        w3 = (if upCanonicalChanged plan then clearOverrides env iid (irCanonicalDomain row) w2 else w2)
                    in Inr (w3, Some row))))"

text \<open>The foreign key of connections restricts the deletion.\<close>

definition deleteInstitution ::
  "string \<Rightarrow> institution_access \<Rightarrow> anchor_world \<Rightarrow> institution_error + anchor_world \<times> bool" where
  "deleteInstitution iid access w =
     (case getInstitution iid access w of
        None \<Rightarrow> Inr (w, False)
      | Some row \<Rightarrow>
          if \<exists>(cid, p) \<in> set (anProfiles w). pfInstitutionId p = iid then Inl ForeignKeyViolation
          else Inr (w\<lparr>anInstitutions := mdel iid (anInstitutions w)\<rparr>, True))"

datatype publish_result = Published | PublishNotFound | AlreadyPublished | ScanRequired | CopyExists string

definition publishInstitutionConfig ::
  "anchor_env \<Rightarrow> string \<Rightarrow> millis \<Rightarrow> anchor_world \<Rightarrow> institution_error + anchor_world \<times> publish_result" where
  "publishInstitutionConfig env iid now w =
     (case mget (anInstitutions w) iid of
        None \<Rightarrow> Inr (w, PublishNotFound)
      | Some source \<Rightarrow>
          if irOwnerSubject source = None then Inr (w, AlreadyPublished)
          else if irScanStatus source \<noteq> ScanPassed then Inr (w, ScanRequired)
          else (case prepareInstitutionInsert env (institutionInputForPublishedCopy env iid source) (irSource source)
                       (irScanStatus source) None now of
                  Inl e \<Rightarrow> Inl e
                | Inr (pid, row) \<Rightarrow>
                    if mhas (anInstitutions w) pid then Inr (w, CopyExists (irName source))
                    else Inr (w\<lparr>anInstitutions := mput pid row (anInstitutions w)\<rparr>, Published)))"

end
