(* ===== verification/Connections.thy ===== *)
theory Connections
  imports Institutions
begin

text \<open>
  \<^verbatim>\<open>apps/control-plane/src/data/connections.ts\<close>: a user's connections to banks. A row is split between the
  columns that a crawl writes (\<open>wConnections\<close>) and the others (\<open>anProfiles\<close>). Credentials are sealed by \<^verbatim>\<open>Cipher\<close>,
  with fresh random bytes per field. Where a function reads outside its transaction, \<open>others\<close> is what other
  transactions commit before it writes; the rows that a transaction has locked are read and written in one step.
\<close>

section \<open>Inputs and views\<close>

definition DEFAULT_CRAWL_SCHEDULE :: string where
  "DEFAULT_CRAWL_SCHEDULE = ''0 6 * * *''"

record connection_patch =
  cpUsername :: "string option"
  cpPassword :: "string option"
  cpDob :: "string option"
  cpPhone :: "string option"
  cpOverride :: "string option"
  cpInstructions :: "string option"
  cpScheduleEnabled :: "bool option"
  cpSchedule :: "string option"
  cpTimezone :: "string option"
  cpNickname :: "string option"

record connection_input =
  coInstitutionId :: string
  coUsername :: string
  coPassword :: string
  coRest :: connection_patch

record connection_view =
  cvId :: string
  cvInstitutionId :: string
  cvStatus :: conn_status
  cvLoginDomainVerified :: bool
  cvLoginUrlOverride :: "string option"
  cvCustomInstructions :: "string option"
  cvScheduleEnabled :: bool
  cvSchedule :: string
  cvTimezone :: string
  cvNextCrawlAt :: "millis option"
  cvNickname :: "string option"
  cvConsecutiveFailures :: nat
  cvCrawlStats :: crawl_stats
  cvSafeErrorMessage :: "string option"
  cvCreatedAt :: millis
  cvUpdatedAt :: millis

datatype connection_error = LoginUrlOverrideError | DomainMismatchError | CipherFailed string | ConnectionConstraint

definition toConnectionView :: "string \<Rightarrow> profile_row \<Rightarrow> connection \<Rightarrow> millis option \<Rightarrow> connection_view" where
  "toConnectionView cid p c nextCrawlAt =
     \<lparr>cvId = cid, cvInstitutionId = pfInstitutionId p, cvStatus = cnStatus c, cvLoginDomainVerified = cnLoginDomainVerified c,
      cvLoginUrlOverride = pfLoginUrlOverride p, cvCustomInstructions = pfCustomInstructions p,
      cvScheduleEnabled = cnScheduleEnabled c, cvSchedule = cnSchedule c, cvTimezone = cnTimezone c,
      cvNextCrawlAt = nextCrawlAt, cvNickname = pfNickname p, cvConsecutiveFailures = cnConsecutiveFailures c,
      cvCrawlStats = cnCrawlStats c, cvSafeErrorMessage = cnSafeErrorMessage c, cvCreatedAt = pfCreatedAt p,
      cvUpdatedAt = cnUpdatedAt c\<rparr>"

section \<open>Rows\<close>

text \<open>A connection of an owner: both halves of its row.\<close>

definition ownedConnection :: "string \<Rightarrow> string \<Rightarrow> anchor_world \<Rightarrow> (profile_row \<times> connection) option" where
  "ownedConnection cid ownerSubject w =
     (case (mget (anProfiles w) cid, mget (wConnections (anWorld w)) cid) of
        (Some p, Some c) \<Rightarrow> if pfOwnerSubject p = ownerSubject then Some (p, c) else None
      | _ \<Rightarrow> None)"

definition putConnection :: "string \<Rightarrow> profile_row \<Rightarrow> connection \<Rightarrow> anchor_world \<Rightarrow> anchor_world" where
  "putConnection cid p c w =
     w\<lparr>anProfiles := mput cid p (anProfiles w),
       anWorld := (anWorld w)\<lparr>wConnections := mput cid c (wConnections (anWorld w))\<rparr>\<rparr>"

definition setDue :: "string \<Rightarrow> millis option \<Rightarrow> anchor_world \<Rightarrow> anchor_world" where
  "setDue cid t w =
     w\<lparr>anWorld := (anWorld w)\<lparr>wDue := (case t of Some x \<Rightarrow> mput cid x (wDue (anWorld w)) | None \<Rightarrow> mdel cid (wDue (anWorld w)))\<rparr>\<rparr>"

definition dueOf :: "string \<Rightarrow> anchor_world \<Rightarrow> millis option" where
  "dueOf cid w = mget (wDue (anWorld w)) cid"

definition assertOverrideWithinInstitution :: "anchor_env \<Rightarrow> string \<Rightarrow> string \<Rightarrow> anchor_world \<Rightarrow> bool" where
  "assertOverrideWithinInstitution env institutionId override w =
     (case mget (anInstitutions w) institutionId of
        Some inst \<Rightarrow> withinDomain env override (irCanonicalDomain inst)
      | None \<Rightarrow> False)"

definition credentialContext :: "string \<Rightarrow> string \<Rightarrow> secret_context" where
  "credentialContext cid field = \<lparr>sxConnectionId = cid, sxField = field, sxVersion = None\<rparr>"

type_synonym sealer = "string \<Rightarrow> string \<Rightarrow> connection_error + string"

definition seal :: "anchor_env \<Rightarrow> (string \<Rightarrow> seal_random) \<Rightarrow> string \<Rightarrow> sealer" where
  "seal env random cid field v =
     (case encryptSecret (aeCrypto env) (aeRawKey env) (random field) v (credentialContext cid field) of
        Inl e \<Rightarrow> Inl (CipherFailed e) | Inr t \<Rightarrow> Inr t)"

text \<open>The four sealed columns: a field that is not given stays as it is, an empty optional one becomes \<^verbatim>\<open>null\<close>.\<close>

definition sealRequired :: "sealer \<Rightarrow> string \<Rightarrow> string option \<Rightarrow> connection_error + string option" where
  "sealRequired s field v =
     (case v of None \<Rightarrow> Inr None | Some x \<Rightarrow> (case s field x of Inl e \<Rightarrow> Inl e | Inr t \<Rightarrow> Inr (Some t)))"

definition sealOptional :: "sealer \<Rightarrow> string \<Rightarrow> string option \<Rightarrow> connection_error + string option option" where
  "sealOptional s field v =
     (case v of
        None \<Rightarrow> Inr None
      | Some x \<Rightarrow> if x = [] then Inr (Some None) else (case s field x of Inl e \<Rightarrow> Inl e | Inr t \<Rightarrow> Inr (Some (Some t))))"

definition sealPatch :: "sealer \<Rightarrow> connection_patch \<Rightarrow> connection_error + (profile_row \<Rightarrow> profile_row)" where
  "sealPatch s patch =
     (case sealRequired s ''username'' (cpUsername patch) of
        Inl e \<Rightarrow> Inl e
      | Inr u \<Rightarrow>
     (case sealRequired s ''password'' (cpPassword patch) of
        Inl e \<Rightarrow> Inl e
      | Inr pw \<Rightarrow>
     (case sealOptional s ''dob'' (cpDob patch) of
        Inl e \<Rightarrow> Inl e
      | Inr d \<Rightarrow>
     (case sealOptional s ''phone'' (cpPhone patch) of
        Inl e \<Rightarrow> Inl e
      | Inr ph \<Rightarrow> Inr (\<lambda>p. p\<lparr>pfUsernameCt := defaultTo (pfUsernameCt p) u, pfPasswordCt := defaultTo (pfPasswordCt p) pw,
                             pfDobCt := defaultTo (pfDobCt p) d, pfPhoneCt := defaultTo (pfPhoneCt p) ph\<rparr>)))))"

section \<open>Operations\<close>

definition emptyStats :: crawl_stats where
  "emptyStats =
     \<lparr>totalCount = 0, completedCount = 0, failedCount = 0, statsConsecutiveFailures = 0, lastFailureReason = None,
      avgCostUsd = 0, recentCosts = [], lastSuccessfulTxCrawlDay = None\<rparr>"

definition createConnection ::
  "anchor_env \<Rightarrow> anchor_interference \<Rightarrow> (string \<Rightarrow> seal_random) \<Rightarrow> string \<Rightarrow> millis \<Rightarrow> connection_input \<Rightarrow> string
     \<Rightarrow> anchor_world \<Rightarrow> connection_error + anchor_world \<times> connection_view" where
  "createConnection env others random newId now input ownerSubject w0 =
     (let r = coRest input in
      if truthy (cpOverride r) \<and> \<not> assertOverrideWithinInstitution env (coInstitutionId input) (the (cpOverride r)) w0
      then Inl LoginUrlOverrideError
      else case sealPatch (seal env random newId) (r\<lparr>cpUsername := Some (coUsername input), cpPassword := Some (coPassword input)\<rparr>) of
             Inl e \<Rightarrow> Inl e
           | Inr sealed \<Rightarrow>
               let w = others w0;
                   p = sealed \<lparr>pfOwnerSubject = ownerSubject, pfInstitutionId = coInstitutionId input, pfUsernameCt = [],
                         pfPasswordCt = [], pfDobCt = None, pfPhoneCt = None, pfLoginUrlOverride = cpOverride r,
                         pfCustomInstructions = cpInstructions r, pfNickname = cpNickname r, pfCreatedAt = now\<rparr>;
                   c = \<lparr>cnStatus = Connecting, cnConsecutiveFailures = 0, cnCrawlStats = emptyStats, cnSafeErrorMessage = None,
                        cnCrawlMemory = None, cnLoginDomainVerified = False,
                        cnScheduleEnabled = defaultTo True (cpScheduleEnabled r),
                        cnSchedule = defaultTo DEFAULT_CRAWL_SCHEDULE (cpSchedule r),
                        cnTimezone = defaultTo DEFAULT_CRAWL_TIMEZONE (cpTimezone r),
                        cnScheduleRevision = 0, cnScheduleClaim = None, cnUpdatedAt = now\<rparr>
               in if \<not> mhas (anInstitutions w) (coInstitutionId input) \<or> mhas (anProfiles w) newId
                     \<or> mhas (wConnections (anWorld w)) newId
                  then Inl ConnectionConstraint
                  else Inr (putConnection newId p c w, toConnectionView newId p c None))"

definition getConnection :: "string \<Rightarrow> string \<Rightarrow> anchor_world \<Rightarrow> connection_view option" where
  "getConnection cid ownerSubject w =
     map_option (\<lambda>(p, c). toConnectionView cid p c (dueOf cid w)) (ownedConnection cid ownerSubject w)"

definition listConnections :: "string list option \<Rightarrow> string \<Rightarrow> anchor_world \<Rightarrow> connection_view list" where
  "listConnections ids ownerSubject w =
     concat (map (\<lambda>(cid, p).
       if (case ids of Some is \<Rightarrow> cid \<in> set is | None \<Rightarrow> True)
       then (case getConnection cid ownerSubject w of Some v \<Rightarrow> [v] | None \<Rightarrow> []) else []) (anProfiles w))"

text \<open>The columns of an edit that are not sealed.\<close>

definition applyPatch :: "millis \<Rightarrow> connection_patch \<Rightarrow> profile_row \<times> connection \<Rightarrow> profile_row \<times> connection" where
  "applyPatch now patch row =
     (case row of (p, c) \<Rightarrow>
        (p\<lparr>pfLoginUrlOverride := (if cpOverride patch = None then pfLoginUrlOverride p else cpOverride patch),
           pfCustomInstructions := (if cpInstructions patch = None then pfCustomInstructions p else cpInstructions patch),
           pfNickname := (if cpNickname patch = None then pfNickname p else cpNickname patch)\<rparr>,
         c\<lparr>cnScheduleEnabled := defaultTo (cnScheduleEnabled c) (cpScheduleEnabled patch),
           cnSchedule := defaultTo (cnSchedule c) (cpSchedule patch),
           cnTimezone := defaultTo (cnTimezone c) (cpTimezone patch), cnUpdatedAt := now\<rparr>))"

definition scheduleChanged :: "connection_patch \<Rightarrow> bool" where
  "scheduleChanged patch = (cpScheduleEnabled patch \<noteq> None \<or> cpSchedule patch \<noteq> None \<or> cpTimezone patch \<noteq> None)"

text \<open>
  The due time after an edit of the schedule: removed when it is off, placed by cron in normal rotation,
  kept when a stop or a backoff has set it, and otherwise the backoff that the scheduler would use. \<open>current\<close> is the
  row before the edit; \<open>None\<close> means that the due row stays as it is.
\<close>

definition rescheduled :: "anchor_env \<Rightarrow> millis \<Rightarrow> connection \<Rightarrow> connection \<Rightarrow> millis option \<Rightarrow> millis option option" where
  "rescheduled env now current edited due =
     (if \<not> cnScheduleEnabled edited then Some None
      else let normalRotation = (cnStatus current \<in> {Connected, Connecting, Errored, Syncing}
                                 \<and> cnConsecutiveFailures current \<le> MAX_CONSECUTIVE_CRAWL_FAILURES)
           in if cnLoginDomainVerified current \<and> normalRotation
              then Some (Some (nextRunFromCron (aeCronNext env) (aeTzKnown env) (cnSchedule edited) (cnTimezone edited) now))
              else if due \<noteq> None then None
              else if cnLoginDomainVerified current
              then Some (Some (now + (if cnConsecutiveFailures current > MAX_CONSECUTIVE_CRAWL_FAILURES
                                        \<and> \<not> isAuthCrawlFailureReason (lastFailureReason (cnCrawlStats current))
                                      then 7 else 1) * DAY_MS))
              else None)"

definition updateOwnedConnection ::
  "anchor_env \<Rightarrow> anchor_interference \<Rightarrow> (string \<Rightarrow> seal_random) \<Rightarrow> string \<Rightarrow> connection_patch \<Rightarrow> string \<Rightarrow> millis
     \<Rightarrow> anchor_world \<Rightarrow> connection_error + anchor_world \<times> connection_view option" where
  "updateOwnedConnection env others random cid patch ownerSubject now w0 =
     (let w = others w0 in
      if truthy (cpOverride patch) \<and> ownedConnection cid ownerSubject w0 = None then Inr (w, None)
      else if truthy (cpOverride patch)
              \<and> \<not> assertOverrideWithinInstitution env
                    (pfInstitutionId (fst (the (ownedConnection cid ownerSubject w0)))) (the (cpOverride patch)) w0
      then Inl LoginUrlOverrideError
      else case sealPatch (seal env random cid) patch of
             Inl e \<Rightarrow> Inl e
           | Inr sealed \<Rightarrow>
               (case ownedConnection cid ownerSubject w of
                  None \<Rightarrow> Inr (w, None)
                | Some (q, current) \<Rightarrow>
                    (case applyPatch now patch (sealed q, current) of
                       (p, c) \<Rightarrow>
                         if \<not> scheduleChanged patch
                         then Inr (putConnection cid p c w, Some (toConnectionView cid p c (dueOf cid w)))
                         else let c = c\<lparr>cnScheduleRevision := cnScheduleRevision current + 1, cnScheduleClaim := None\<rparr>;
                                  w1 = putConnection cid p c w;
                                  w2 = (case rescheduled env now current c (dueOf cid w) of
                                          Some t \<Rightarrow> setDue cid t w1 | None \<Rightarrow> w1)
                              in Inr (w2, Some (toConnectionView cid p c (dueOf cid w2))))))"

datatype delete_result = ConnectionDeleted | ConnectionNotFound | ActiveCrawl

text \<open>Deleting a connection cascades to its due row; what else the schema cascades to is not touched here.\<close>

definition deleteConnection :: "string \<Rightarrow> string \<Rightarrow> anchor_world \<Rightarrow> anchor_world \<times> delete_result" where
  "deleteConnection cid ownerSubject w =
     (if ownedConnection cid ownerSubject w = None then (w, ConnectionNotFound)
      else if holdsLock cid (anWorld w) then (w, ActiveCrawl)
      else (setDue cid None
              (w\<lparr>anProfiles := mdel cid (anProfiles w),
                 anWorld := (anWorld w)\<lparr>wConnections := mdel cid (wConnections (anWorld w)),
                   wSessions := filter (\<lambda>(i, s). ssConnectionId s \<noteq> cid) (wSessions (anWorld w))\<rparr>\<rparr>), ConnectionDeleted))"

text \<open>
  The institution's row is locked for share and the connection's for update until the transaction ends; the
  target is read before it begins.
\<close>

definition verifyLoginDomain ::
  "anchor_env \<Rightarrow> anchor_interference \<Rightarrow> string \<Rightarrow> string \<Rightarrow> string \<Rightarrow> millis \<Rightarrow> anchor_world
     \<Rightarrow> connection_error + anchor_world \<times> connection_view option" where
  "verifyLoginDomain env others cid submittedDomain ownerSubject now w0 =
     (let submitted = to_lower (trim submittedDomain) in
      case ownedConnection cid ownerSubject w0 of
        None \<Rightarrow> Inr (w0, None)
      | Some (target, c0) \<Rightarrow>
          let w = others w0 in
          (case ownedConnection cid ownerSubject w of
             None \<Rightarrow> Inr (w, None)
           | Some (p, c) \<Rightarrow>
               if pfInstitutionId p \<noteq> pfInstitutionId target
                  \<or> (case mget (anInstitutions w) (pfInstitutionId target) of
                       None \<Rightarrow> True
                     | Some inst \<Rightarrow> to_lower (trim (irCanonicalDomain inst)) \<noteq> submitted)
               then Inl DomainMismatchError
               else let c = c\<lparr>cnLoginDomainVerified := True, cnUpdatedAt := now\<rparr>;
                        t = (if cnScheduleEnabled c
                             then Some (nextRunFromCron (aeCronNext env) (aeTzKnown env) (cnSchedule c) (cnTimezone c) now) else None)
                    in Inr (setDue cid t (putConnection cid p c w), Some (toConnectionView cid p c t))))"

record credentials =
  crUsername :: "byte list"
  crPassword :: "byte list"
  crDob :: "byte list option"
  crPhone :: "byte list option"

definition openField :: "anchor_env \<Rightarrow> string \<Rightarrow> string \<Rightarrow> string \<Rightarrow> string + byte list" where
  "openField env cid field ct = decryptSecret (aeCrypto env) (aeRawKey env) ct (credentialContext cid field)"

definition openOptional :: "anchor_env \<Rightarrow> string \<Rightarrow> string \<Rightarrow> string option \<Rightarrow> string + byte list option" where
  "openOptional env cid field ct =
     (if truthy ct then (case openField env cid field (the ct) of Inl e \<Rightarrow> Inl e | Inr b \<Rightarrow> Inr (Some b)) else Inr None)"

definition decryptConnectionCredentials :: "anchor_env \<Rightarrow> string \<Rightarrow> profile_row \<Rightarrow> string + credentials" where
  "decryptConnectionCredentials env cid row =
     (case openField env cid ''username'' (pfUsernameCt row) of
        Inl e \<Rightarrow> Inl e
      | Inr u \<Rightarrow>
     (case openField env cid ''password'' (pfPasswordCt row) of
        Inl e \<Rightarrow> Inl e
      | Inr p \<Rightarrow>
     (case openOptional env cid ''dob'' (pfDobCt row) of
        Inl e \<Rightarrow> Inl e
      | Inr d \<Rightarrow>
     (case openOptional env cid ''phone'' (pfPhoneCt row) of
        Inl e \<Rightarrow> Inl e
      | Inr ph \<Rightarrow> Inr \<lparr>crUsername = u, crPassword = p, crDob = d, crPhone = ph\<rparr>))))"

end
