(* ===== verification/AnchorSafety.thy ===== *)
theory AnchorSafety
  imports Connections
begin

text \<open>
  What the catalogue and the connections promise together: credentials are typed only where the owner approved.
  A run is any sequence of the operations of \<^verbatim>\<open>Institutions\<close> and \<^verbatim>\<open>Connections\<close>; edits and approvals of
  connections may read earlier than they write, updates of institutions read and write in one step. The last
  section shows what happens when they do not.
\<close>

section \<open>Runs\<close>

type_synonym trust = "string \<times> string list"

definition trustOf :: "institution_row \<Rightarrow> trust" where
  "trustOf r = (irCanonicalDomain r, sortedLower (irAllowedDomains r))"

datatype anchor_event = Approved string string trust | Verdict string scan_status string

definition approvalOf :: "string \<Rightarrow> string \<Rightarrow> anchor_world \<Rightarrow> anchor_event" where
  "approvalOf cid submittedDomain w =
     Approved cid (to_lower (trim submittedDomain))
       (trustOf (the (mget (anInstitutions w) (pfInstitutionId (the (mget (anProfiles w) cid))))))"

definition verified :: "string \<Rightarrow> world \<Rightarrow> bool" where
  "verified cid v = (map_option cnLoginDomainVerified (mget (wConnections v) cid) = Some True)"

inductive anchor_run :: "anchor_env \<Rightarrow> anchor_event list \<Rightarrow> anchor_world \<Rightarrow> bool" for env where
  start: "anInstitutions w = [] \<Longrightarrow> anProfiles w = [] \<Longrightarrow> wConnections (anWorld w) = [] \<Longrightarrow> anchor_run env [] w"
| make: "anchor_run env evs w \<Longrightarrow> createInstitution env input owner now w = Inr (w', iid) \<Longrightarrow> anchor_run env evs w'"
| import_config: "anchor_run env evs w \<Longrightarrow> createImportedInstitution env input owner now w = Inr (w', iid) \<Longrightarrow> anchor_run env evs w'"
| update: "anchor_run env evs w \<Longrightarrow> updateInstitution env (\<lambda>x. x) iid patch access now w = Inr (w', row) \<Longrightarrow> anchor_run env evs w'"
| publish: "anchor_run env evs w \<Longrightarrow> publishInstitutionConfig env iid now w = Inr (w', published) \<Longrightarrow> anchor_run env evs w'"
| drop_config: "anchor_run env evs w \<Longrightarrow> deleteInstitution iid access w = Inr (w', dropped) \<Longrightarrow> anchor_run env evs w'"
| scan: "anchor_run env evs w \<Longrightarrow> setInstitutionScanStatus env iid verdict fp access now w = (w', ScanUpdated)
    \<Longrightarrow> anchor_run env (Verdict iid verdict fp # evs) w'"
| connect: "anchor_run env evs (others w) \<Longrightarrow> createConnection env others random cid now cinput owner' w = Inr (w', view)
    \<Longrightarrow> anchor_run env evs w'"
| edit: "anchor_run env evs (others w) \<Longrightarrow> updateOwnedConnection env others random cid cpatch owner' now w = Inr (w', view')
    \<Longrightarrow> anchor_run env evs w'"
| remove: "anchor_run env evs w \<Longrightarrow> deleteConnection cid owner' w = (w', res) \<Longrightarrow> anchor_run env evs w'"
| approve: "anchor_run env evs (others w) \<Longrightarrow> verifyLoginDomain env others cid submitted owner' now w = Inr (w', Some view)
    \<Longrightarrow> anchor_run env (approvalOf cid submitted w' # evs) w'"
| other: "anchor_run env evs w \<Longrightarrow> (\<And>cid. verified cid v \<Longrightarrow> verified cid (anWorld w)) \<Longrightarrow> anchor_run env evs (w\<lparr>anWorld := v\<rparr>)"

fun lastApproval :: "string \<Rightarrow> anchor_event list \<Rightarrow> (string \<times> trust) option" where
  "lastApproval cid [] = None"
| "lastApproval cid (Approved i d t # evs) = (if i = cid then Some (d, t) else lastApproval cid evs)"
| "lastApproval cid (ev # evs) = lastApproval cid evs"

section \<open>The invariant\<close>

definition rowSound :: "anchor_env \<Rightarrow> anchor_event list \<Rightarrow> institution_row \<Rightarrow> bool" where
  "rowSound env evs r =
     (anchorDomain env (irLoginUrl r) = Inr (irCanonicalDomain r)
      \<and> (\<forall>d \<in> set (irAllowedDomains r). isRegistrableHost (aeParseUrl env) (aeGetDomain env) d)
      \<and> (irSource r = Imported \<and> irScanStatus r = ScanPassed
           \<longrightarrow> (\<exists>i. Verdict i ScanPassed (institutionScanFingerprint env r) \<in> set evs)))"

definition approvedNow :: "anchor_event list \<Rightarrow> anchor_world \<Rightarrow> string \<Rightarrow> profile_row \<Rightarrow> bool" where
  "approvedNow evs w cid p =
     (\<exists>r. mget (anInstitutions w) (pfInstitutionId p) = Some r
        \<and> lastApproval cid evs = Some (to_lower (trim (irCanonicalDomain r)), trustOf r))"

definition anchorInv :: "anchor_env \<Rightarrow> anchor_event list \<Rightarrow> anchor_world \<Rightarrow> bool" where
  "anchorInv env evs w =
     ((\<forall>iid r. mget (anInstitutions w) iid = Some r \<longrightarrow> rowSound env evs r)
      \<and> (\<forall>cid p. mget (anProfiles w) cid = Some p \<longrightarrow> mhas (anInstitutions w) (pfInstitutionId p))
      \<and> (\<forall>cid p. mget (anProfiles w) cid = Some p \<longrightarrow> verified cid (anWorld w) \<longrightarrow> approvedNow evs w cid p))"

lemma validateAllowedDomains_None:
  "validateAllowedDomains env ds = None \<longleftrightarrow> (\<forall>d \<in> set (defaultTo [] ds). isRegistrableHost (aeParseUrl env) (aeGetDomain env) d)"
  by (auto simp: validateAllowedDomains_def find_None_iff)

lemma prepareInsert_Inr:
  "prepareInstitutionInsert env input src scanStatus owner now = Inr (iid, row) \<Longrightarrow>
     anchorDomain env (irLoginUrl row) = Inr (irCanonicalDomain row)
     \<and> (\<forall>d \<in> set (irAllowedDomains row). isRegistrableHost (aeParseUrl env) (aeGetDomain env) d)
     \<and> irSource row = src \<and> irScanStatus row = scanStatus \<and> irLoginUrl row = iiLoginUrl input \<and> irName row = iiName input
     \<and> irAllowedDomains row = defaultTo [] (ipAllowedDomains (iiRest input)) \<and> irPlaybook row = ipPlaybook (iiRest input)"
  unfolding prepareInstitutionInsert_def Let_def
  by (auto simp: validateAllowedDomains_None split: sum.splits option.splits)

text \<open>A row is put in place without touching what an approval rests on.\<close>

lemma anchorInv_put:
  assumes inv: "anchorInv env evs w" and row: "rowSound env evs row"
    and keep: "\<And>r. mget (anInstitutions w) iid = Some r \<Longrightarrow> trustOf row = trustOf r"
  shows "anchorInv env evs (w\<lparr>anInstitutions := mput iid row (anInstitutions w)\<rparr>)"
proof -
  have "irCanonicalDomain row = irCanonicalDomain r" if "mget (anInstitutions w) iid = Some r" for r
    using keep [OF that] by (simp add: trustOf_def)
  then have "approvedNow evs w cid p \<Longrightarrow> approvedNow evs (w\<lparr>anInstitutions := mput iid row (anInstitutions w)\<rparr>) cid p" for cid p
    using keep by (auto simp: approvedNow_def)
  then show ?thesis using inv row unfolding anchorInv_def by simp
qed

lemma anchorInv_insert:
  assumes inv: "anchorInv env evs w" and c: "insertInstitution env input src st owner now w = Inr (w', iid)"
    and sound: "src = Imported \<Longrightarrow> st \<noteq> ScanPassed"
  shows "anchorInv env evs w'"
proof -
  obtain row where p: "prepareInstitutionInsert env input src st owner now = Inr (iid, row)" "\<not> mhas (anInstitutions w) iid"
      "w' = w\<lparr>anInstitutions := mput iid row (anInstitutions w)\<rparr>"
    using c by (auto simp: insertInstitution_def split: sum.splits if_splits)
  have "rowSound env evs row" using prepareInsert_Inr [OF p(1)] sound by (auto simp: rowSound_def)
  with inv p(2) show ?thesis unfolding p(3) by (intro anchorInv_put) (auto simp: mhas_def)
qed

lemma mget_resetVerification:
  "verified cid (anWorld (resetVerification iid w)) \<longleftrightarrow>
     verified cid (anWorld w) \<and> map_option pfInstitutionId (mget (anProfiles w) cid) \<noteq> Some iid"
  by (cases "mget (wConnections (anWorld w)) cid") (auto simp: verified_def resetVerification_def mget_updateRows)

lemma fingerprint_meta [simp]:
  "institutionScanFingerprint env (r\<lparr>irCreatedAt := t\<rparr>) = institutionScanFingerprint env r"
  "institutionScanFingerprint env (r\<lparr>irScanStatus := st\<rparr>) = institutionScanFingerprint env r"
  "institutionScanFingerprint env (r\<lparr>irUpdatedAt := t\<rparr>) = institutionScanFingerprint env r"
  by (simp_all add: institutionScanFingerprint_def scanMaterial_def)

lemma rowSound_meta [simp]:
  "rowSound env evs (r\<lparr>irCreatedAt := t\<rparr>) = rowSound env evs r" "rowSound env evs (r\<lparr>irUpdatedAt := t\<rparr>) = rowSound env evs r"
  by (simp_all add: rowSound_def)

lemma trustOf_meta [simp]:
  "trustOf (r\<lparr>irCreatedAt := t\<rparr>) = trustOf r" "trustOf (r\<lparr>irScanStatus := st\<rparr>) = trustOf r" "trustOf (r\<lparr>irUpdatedAt := t\<rparr>) = trustOf r"
  by (simp_all add: trustOf_def)

lemma prepareUpdate_Inr:
  assumes u: "prepareInstitutionUpdate env existing patch now = Inr plan" and sound: "rowSound env evs existing"
  shows "rowSound env evs (upRow plan)"
    and "\<not> upResetVerification plan \<Longrightarrow> trustOf (upRow plan) = trustOf existing"
    and "upCanonicalChanged plan \<Longrightarrow> upResetVerification plan"
proof -
  obtain dom where dom: "(case ipLoginUrl patch of None \<Rightarrow> Inr (irCanonicalDomain existing) | Some u \<Rightarrow> anchorDomain env u) = Inr dom"
    and v: "validateAllowedDomains env (ipAllowedDomains patch) = None"
    using u unfolding prepareInstitutionUpdate_def by (auto split: option.splits sum.splits)
  define row1 where "row1 = (pickSettable now patch existing)\<lparr>irCanonicalDomain := dom\<rparr>"
  have plan: "upRow plan = (if irSource existing = Imported
        \<and> institutionScanFingerprint env existing \<noteq> institutionScanFingerprint env row1
      then row1\<lparr>irScanStatus := ScanPending\<rparr> else row1)"
    "upResetVerification plan = (dom \<noteq> irCanonicalDomain existing \<or> (case ipAllowedDomains patch of None \<Rightarrow> False
        | Some ds \<Rightarrow> sortedLower (irAllowedDomains existing) \<noteq> sortedLower ds))"
    "upCanonicalChanged plan = (dom \<noteq> irCanonicalDomain existing)"
    using u dom v unfolding prepareInstitutionUpdate_def row1_def by (auto simp: Let_def)
  have r1: "irLoginUrl row1 = defaultTo (irLoginUrl existing) (ipLoginUrl patch)" "irCanonicalDomain row1 = dom"
    "irAllowedDomains row1 = defaultTo (irAllowedDomains existing) (ipAllowedDomains patch)"
    "irSource row1 = irSource existing" "irScanStatus row1 = irScanStatus existing"
    by (simp_all add: row1_def pickSettable_def)
  have base: "anchorDomain env (irLoginUrl row1) = Inr (irCanonicalDomain row1)"
    "\<forall>d \<in> set (irAllowedDomains row1). isRegistrableHost (aeParseUrl env) (aeGetDomain env) d"
    using dom v sound by (cases "ipAllowedDomains patch"; auto simp: r1 rowSound_def validateAllowedDomains_None split: option.splits)+
  show "rowSound env evs (upRow plan)"
    using base sound unfolding plan(1) by (auto simp: rowSound_def r1)
  show "\<not> upResetVerification plan \<Longrightarrow> trustOf (upRow plan) = trustOf existing"
    unfolding plan by (auto simp: trustOf_def r1 split: option.splits)
  show "upCanonicalChanged plan \<Longrightarrow> upResetVerification plan" unfolding plan by simp
qed

lemma anchorInv_world:
  assumes "anchorInv env evs w" "anInstitutions w' = anInstitutions w"
    "\<And>cid p. mget (anProfiles w') cid = Some p
       \<Longrightarrow> \<exists>q. mget (anProfiles w) cid = Some q \<and> pfInstitutionId q = pfInstitutionId p"
    "\<And>cid. verified cid (anWorld w') \<Longrightarrow> verified cid (anWorld w)"
  shows "anchorInv env evs w'"
  using assms unfolding anchorInv_def approvedNow_def by metis

lemma anchorInv_reset:
  assumes inv: "anchorInv env evs w" and row: "rowSound env evs row" and old: "mhas (anInstitutions w) iid"
  shows "anchorInv env evs (resetVerification iid (w\<lparr>anInstitutions := mput iid row (anInstitutions w)\<rparr>))"
proof -
  let ?w = "w\<lparr>anInstitutions := mput iid row (anInstitutions w)\<rparr>"
  have "approvedNow evs (resetVerification iid ?w) cid p"
    if p: "mget (anProfiles w) cid = Some p" and v: "verified cid (anWorld (resetVerification iid ?w))" for cid p
  proof -
    have v': "verified cid (anWorld w)" "pfInstitutionId p \<noteq> iid" using v p by (simp_all add: mget_resetVerification)
    then have "approvedNow evs w cid p" using inv p by (simp add: anchorInv_def)
    with v'(2) show ?thesis by (simp add: approvedNow_def resetVerification_def)
  qed
  then show ?thesis using inv row old unfolding anchorInv_def by (simp add: resetVerification_def)
qed

lemma clearOverrides_frame:
  "anInstitutions (clearOverrides env iid d w) = anInstitutions w" "anWorld (clearOverrides env iid d w) = anWorld w"
  "map_option pfInstitutionId (mget (anProfiles (clearOverrides env iid d w)) cid) = map_option pfInstitutionId (mget (anProfiles w) cid)"
  by (auto simp: clearOverrides_def mget_updateRows option.map_comp comp_def intro: option.map_cong0)

lemma anchorInv_update:
  assumes inv: "anchorInv env evs w" and c: "updateInstitution env (\<lambda>x. x) iid patch access now w = Inr (w', res)"
  shows "anchorInv env evs w'"
proof (cases "getInstitution iid access w")
  case None
  then show ?thesis using c inv by (simp add: updateInstitution_def)
next
  case (Some existing)
  then obtain plan where plan: "prepareInstitutionUpdate env existing patch now = Inr plan"
    using c by (auto simp: updateInstitution_def split: sum.splits)
  have e: "mget (anInstitutions w) iid = Some existing" using Some by (auto simp: getInstitution_def split: option.splits if_splits)
  then have sound: "rowSound env evs existing" using inv by (simp add: anchorInv_def)
  let ?row = "(upRow plan)\<lparr>irCreatedAt := irCreatedAt existing\<rparr>"
  let ?w1 = "w\<lparr>anInstitutions := mput iid ?row (anInstitutions w)\<rparr>"
  let ?w2 = "if upResetVerification plan then resetVerification iid ?w1 else ?w1"
  have w': "w' = (if upCanonicalChanged plan then clearOverrides env iid (irCanonicalDomain ?row) ?w2 else ?w2)"
    using c Some plan unfolding updateInstitution_def Let_def by (simp split: if_splits)
  have row: "rowSound env evs ?row" using prepareUpdate_Inr(1) [OF plan sound] by simp
  have "anchorInv env evs ?w2"
  proof (cases "upResetVerification plan")
    case True
    then show ?thesis using anchorInv_reset [OF inv row] e by (simp add: mhas_def)
  next
    case False
    then show ?thesis using anchorInv_put [OF inv row, of iid] e prepareUpdate_Inr(2) [OF plan sound] by simp
  qed
  moreover have "anchorInv env evs w \<Longrightarrow> anchorInv env evs (clearOverrides env iid d w)" for w d
    by (rule anchorInv_world [where w = w])
      (auto simp: clearOverrides_frame clearOverrides_def mget_updateRows)
  ultimately show ?thesis unfolding w' by simp
qed

lemma rowSound_Cons: "rowSound env evs r \<Longrightarrow> rowSound env (ev # evs) r"
  unfolding rowSound_def by auto

lemma anchorInv_event: "anchorInv env evs w \<Longrightarrow> anchorInv env (Verdict i v f # evs) w"
  unfolding anchorInv_def approvedNow_def by (auto intro: rowSound_Cons)

lemma anchorInv_publish:
  assumes inv: "anchorInv env evs w" and c: "publishInstitutionConfig env iid now w = Inr (w', res)"
  shows "anchorInv env evs w'"
proof (cases "mget (anInstitutions w) iid")
  case None
  then show ?thesis using c inv by (simp add: publishInstitutionConfig_def)
next
  case (Some source)
  then have sound: "rowSound env evs source" using inv by (simp add: anchorInv_def)
  show ?thesis
  proof (cases "w' = w")
    case False
    then obtain pid row where p: "irScanStatus source = ScanPassed" "\<not> mhas (anInstitutions w) pid"
      "prepareInstitutionInsert env (institutionInputForPublishedCopy env iid source) (irSource source) (irScanStatus source) None now
         = Inr (pid, row)" "w' = w\<lparr>anInstitutions := mput pid row (anInstitutions w)\<rparr>"
      using c Some unfolding publishInstitutionConfig_def by (auto split: if_splits sum.splits)
    note pr = prepareInsert_Inr [OF p(3)]
    have "irCanonicalDomain row = irCanonicalDomain source"
      using pr sound by (auto simp: rowSound_def institutionInputForPublishedCopy_def)
    then have "institutionScanFingerprint env row = institutionScanFingerprint env source"
      using pr by (simp add: institutionScanFingerprint_def scanMaterial_def institutionInputForPublishedCopy_def)
    then have "rowSound env evs row" using pr sound by (auto simp: rowSound_def)
    with inv p(2) show ?thesis unfolding p(4) by (intro anchorInv_put) (auto simp: mhas_def)
  qed (use inv in simp)
qed

lemma anchorInv_scan:
  assumes inv: "anchorInv env evs w" and c: "setInstitutionScanStatus env iid verdict fp access now w = (w', ScanUpdated)"
  shows "anchorInv env (Verdict iid verdict fp # evs) w'"
proof -
  obtain r where r: "mget (anInstitutions w) iid = Some r" "institutionScanFingerprint env r = fp"
    and w': "w' = w\<lparr>anInstitutions := updateRows (\<lambda>i r. i = iid) (\<lambda>r. r\<lparr>irScanStatus := verdict, irUpdatedAt := now\<rparr>) (anInstitutions w)\<rparr>"
    using c unfolding setInstitutionScanStatus_def getInstitution_def by (auto split: option.splits if_splits)
  have inv': "anchorInv env (Verdict iid verdict fp # evs) w" by (rule anchorInv_event [OF inv])
  let ?r = "r\<lparr>irScanStatus := verdict, irUpdatedAt := now\<rparr>"
  have "rowSound env (Verdict iid verdict fp # evs) r" using inv' r(1) by (simp add: anchorInv_def)
  then have row: "rowSound env (Verdict iid verdict fp # evs) ?r" using r(2) by (auto simp: rowSound_def)
  have "anchorInv env (Verdict iid verdict fp # evs) (w\<lparr>anInstitutions := mput iid ?r (anInstitutions w)\<rparr>)"
    by (rule anchorInv_put [OF inv' row]) (simp add: r(1))
  moreover have "mget (anInstitutions w') i = mget (mput iid ?r (anInstitutions w)) i" for i
    using r(1) by (auto simp: w' mget_updateRows option.map_ident)
  ultimately show ?thesis unfolding anchorInv_def approvedNow_def mhas_def by (simp add: w')
qed

lemma anchorInv_delete:
  assumes inv: "anchorInv env evs w" and c: "deleteInstitution iid access w = Inr (w', res)"
  shows "anchorInv env evs w'"
proof (cases "w' = w")
  case False
  then have w': "w' = w\<lparr>anInstitutions := mdel iid (anInstitutions w)\<rparr>"
    and free: "\<forall>(cid, p) \<in> set (anProfiles w). pfInstitutionId p \<noteq> iid"
    using c unfolding deleteInstitution_def by (auto split: option.splits if_splits)
  have "pfInstitutionId p \<noteq> iid" if "mget (anProfiles w) cid = Some p" for cid p
    using free that by (auto simp: mget_def dest: map_of_SomeD)
  then show ?thesis using inv unfolding anchorInv_def approvedNow_def mhas_def w' by simp
qed (use inv in simp)

lemma verified_put [simp]:
  "verified cid (anWorld (putConnection i p c w)) \<longleftrightarrow> (if cid = i then cnLoginDomainVerified c else verified cid (anWorld w))"
  by (simp add: verified_def putConnection_def)

lemma verified_due [simp]: "verified cid (anWorld (setDue i t w)) = verified cid (anWorld w)"
  by (simp add: verified_def setDue_def)

lemma putConnection_frame [simp]:
  "anInstitutions (putConnection i p c w) = anInstitutions w" "anProfiles (putConnection i p c w) = mput i p (anProfiles w)"
  "anInstitutions (setDue i t w) = anInstitutions w" "anProfiles (setDue i t w) = anProfiles w"
  by (simp_all add: putConnection_def setDue_def)

lemma anchorInv_due [simp]: "anchorInv env evs (setDue i t w) = anchorInv env evs w"
  unfolding anchorInv_def approvedNow_def by simp

lemma ownedConnection_Some:
  "ownedConnection cid owner w = Some (p, c) \<Longrightarrow>
     mget (anProfiles w) cid = Some p \<and> mget (wConnections (anWorld w)) cid = Some c \<and> pfOwnerSubject p = owner"
  unfolding ownedConnection_def by (auto split: option.splits if_splits)

lemma sealPatch_frame: "sealPatch s patch = Inr f \<Longrightarrow> pfInstitutionId (f p) = pfInstitutionId p \<and> pfOwnerSubject (f p) = pfOwnerSubject p"
  unfolding sealPatch_def by (auto split: sum.splits)

lemma anchorInv_connect:
  assumes inv: "anchorInv env evs (others w)" and c: "createConnection env others random cid now input owner w = Inr (w', view)"
  shows "anchorInv env evs w'"
proof -
  obtain f where f: "sealPatch (seal env random cid)
      ((coRest input)\<lparr>cpUsername := Some (coUsername input), cpPassword := Some (coPassword input)\<rparr>) = Inr f"
    using c unfolding createConnection_def Let_def by (auto split: if_splits sum.splits)
  obtain p cn where w': "w' = putConnection cid p cn (others w)" "\<not> cnLoginDomainVerified cn"
    "mhas (anInstitutions (others w)) (pfInstitutionId p)"
    using c f sealPatch_frame [OF f] unfolding createConnection_def Let_def by (auto split: if_splits)
  show ?thesis using inv w'(2,3) unfolding w'(1) anchorInv_def approvedNow_def by auto
qed

lemma anchorInv_edit:
  assumes inv: "anchorInv env evs (others w)" and c: "updateOwnedConnection env others random cid patch owner now w = Inr (w', view)"
  shows "anchorInv env evs w'"
proof (cases "w' = others w")
  case False
  then obtain f q current where f: "sealPatch (seal env random cid) patch = Inr f"
    and q: "ownedConnection cid owner (others w) = Some (q, current)"
    using c unfolding updateOwnedConnection_def Let_def by (auto split: if_splits sum.splits option.splits)
  obtain p cn where pc: "applyPatch now patch (f q, current) = (p, cn)" by (cases "applyPatch now patch (f q, current)")
  then have pc': "pfInstitutionId p = pfInstitutionId q" "cnLoginDomainVerified cn = cnLoginDomainVerified current"
    using sealPatch_frame [OF f] by (auto simp: applyPatch_def)
  have put: "anchorInv env evs (putConnection cid p cn' (others w))" if "cnLoginDomainVerified cn' = cnLoginDomainVerified current" for cn'
    using inv ownedConnection_Some [OF q] pc' that unfolding anchorInv_def approvedNow_def verified_def by (auto simp: putConnection_def)
  show ?thesis
    using c f q pc put [of cn] put [of "cn\<lparr>cnScheduleRevision := cnScheduleRevision current + 1, cnScheduleClaim := None\<rparr>"] pc'(2) False
    unfolding updateOwnedConnection_def Let_def by (auto split: if_splits option.splits)
qed (use inv in simp)

lemma anchorInv_remove:
  assumes inv: "anchorInv env evs w" and c: "deleteConnection cid owner w = (w', res)"
  shows "anchorInv env evs w'"
  using assms unfolding deleteConnection_def
  by (auto split: if_splits intro!: anchorInv_world [OF inv] simp: verified_def setDue_def split: if_splits)

lemma anchorInv_approve:
  assumes inv: "anchorInv env evs (others w)" and c: "verifyLoginDomain env others cid submitted owner now w = Inr (w', Some view)"
  shows "anchorInv env (approvalOf cid submitted w' # evs) w'"
proof -
  obtain p cn inst where p: "ownedConnection cid owner (others w) = Some (p, cn)"
    "mget (anInstitutions (others w)) (pfInstitutionId p) = Some inst" "to_lower (trim (irCanonicalDomain inst)) = to_lower (trim submitted)"
    and w': "w' = setDue cid (if cnScheduleEnabled cn
        then Some (nextRunFromCron (aeCronNext env) (aeTzKnown env) (cnSchedule cn) (cnTimezone cn) now) else None)
      (putConnection cid p (cn\<lparr>cnLoginDomainVerified := True, cnUpdatedAt := now\<rparr>) (others w))"
    using c unfolding verifyLoginDomain_def Let_def by (auto split: if_splits option.splits)
  have ev: "approvalOf cid submitted w' = Approved cid (to_lower (trim (irCanonicalDomain inst))) (trustOf inst)"
    using p(2,3) by (simp add: approvalOf_def w')
  have "anchorInv env (Approved cid (to_lower (trim (irCanonicalDomain inst))) (trustOf inst) # evs) w'"
    using inv p(2) unfolding w' anchorInv_due anchorInv_def approvedNow_def by (auto simp: mhas_def intro: rowSound_Cons)
  then show ?thesis unfolding ev .
qed

lemma anchorInv_run: "anchor_run env evs w \<Longrightarrow> anchorInv env evs w"
proof (induction rule: anchor_run.induct)
  case (start w)
  then show ?case by (simp add: anchorInv_def)
next
  case (make evs w input owner now w' iid)
  then show ?case unfolding createInstitution_def by (auto intro: anchorInv_insert)
next
  case (import_config evs w input owner now w' iid)
  then show ?case unfolding createImportedInstitution_def by (auto intro: anchorInv_insert)
next
  case (other evs w v)
  then show ?case by (auto intro: anchorInv_world)
qed (blast intro: anchorInv_update anchorInv_publish anchorInv_delete anchorInv_scan anchorInv_connect anchorInv_edit
    anchorInv_remove anchorInv_approve)+

section \<open>What a crawl is started with\<close>

definition scanText :: "scan_status \<Rightarrow> string" where
  "scanText s = (case s of ScanPending \<Rightarrow> ''pending'' | ScanPassed \<Rightarrow> ''passed'' | ScanFailed \<Rightarrow> ''failed'')"

definition recipeOf :: "institution_row \<Rightarrow> institution" where
  "recipeOf r =
     \<lparr>inCanonicalDomain = irCanonicalDomain r, inLoginUrl = irLoginUrl r, inAllowedDomains = irAllowedDomains r,
      inScanStatus = scanText (irScanStatus r), inTimeoutSeconds = irTimeoutSeconds r, inThinkingLevel = irThinkingLevel r,
      inUseDeviceProxy = irUseDeviceProxy r\<rparr>"

definition profileOf :: "profile_row \<Rightarrow> connection_profile" where
  "profileOf p =
     \<lparr>cpInstitutionId = pfInstitutionId p, cpOwnerSubject = pfOwnerSubject p, cpLoginUrlOverride = pfLoginUrlOverride p\<rparr>"

text \<open>The tables that \<^verbatim>\<open>run-crawl.ts\<close> joins, as the crawl controller of \<^verbatim>\<open>RunCrawl\<close> takes them.\<close>

definition crawlEnvOf :: "anchor_env \<Rightarrow> crawl_env \<Rightarrow> anchor_world \<Rightarrow> crawl_env" where
  "crawlEnvOf env base w =
     base\<lparr>ceParseUrl := aeParseUrl env, ceProfiles := map (\<lambda>(i, p). (i, profileOf p)) (anProfiles w),
          ceInstitutions := map (\<lambda>(i, r). (i, recipeOf r)) (anInstitutions w)\<rparr>"

lemma mget_map_snd: "mget (map (\<lambda>(i, x). (i, f x)) m) k = map_option f (mget m k)"
  by (induction m) (auto simp: mget_def)

lemma startCrawl_Dispatch:
  assumes "startCrawl env today conn sid w = StartDispatch rq w1"
  obtains c p inst where "crawlGate env conn w = GateOpen c p inst"
    "rqLoginUrl rq = (case cpLoginUrlOverride p of Some u \<Rightarrow> u | None \<Rightarrow> inLoginUrl inst)"
    "rqAllowedDomains rq = inAllowedDomains inst"
proof -
  obtain c p inst where gate: "crawlGate env conn w = GateOpen c p inst"
    using assms by (cases "crawlGate env conn w") (auto simp: startCrawl_def)
  with assms that show thesis by (auto simp: startCrawl_def Let_def split: sum.splits option.splits if_splits)
qed

text \<open>What the public-suffix list documents: the registrable domain of a host is the host or a suffix of it.\<close>

definition suffixLaw :: "(string \<Rightarrow> string option) \<Rightarrow> bool" where
  "suffixLaw getDomain = (\<forall>h d. getDomain h = Some d \<longrightarrow> h = d \<or> ends_with h (CHR ''.'' # d))"

lemma lower_char_idem: "lower_char (lower_char c) = lower_char c"
  using of_char_mod_256 [of c, where 'a = nat] by (auto simp: lower_char_def Let_def)

lemma to_lower_idem [simp]: "to_lower (to_lower s) = to_lower s"
  by (simp add: to_lower_def lower_char_idem)

lemma lower_dot: "lower_char (CHR ''.'') = CHR ''.''"
  by (simp add: lower_char_def)

lemma login_within:
  assumes a: "anchorDomain env u = Inr dm" and law: "suffixLaw (aeGetDomain env)"
  shows "withinDomain env u dm"
proof -
  have "canonicalOf env u = Some dm" using a by (auto simp: anchorDomain_def split: if_splits option.splits)
  then obtain h d where h: "webHostname (aeParseUrl env) u = Some h" "aeGetDomain env h = Some d" "dm = to_lower d" "d \<noteq> []"
    by (auto simp: deriveCanonicalDomain_def split: option.splits if_splits)
  have low: "to_lower h = h" using h(1) by (auto simp: webHostname_def split: option.splits if_splits)
  have "h = dm \<or> ends_with h (CHR ''.'' # dm)"
  proof (cases "h = d")
    case True
    then show ?thesis using low h(3) by simp
  next
    case False
    then have "ends_with h (CHR ''.'' # d)" using law h(2) by (auto simp: suffixLaw_def)
    then obtain r where "h = r @ CHR ''.'' # d" by (auto simp: ends_with_iff)
    then have "to_lower h = to_lower r @ CHR ''.'' # dm" by (simp add: h(3) to_lower_def lower_dot)
    with low show ?thesis by (metis ends_with_iff)
  qed
  moreover have "h \<noteq> []"
  proof
    assume "h = []"
    then have "[] = d \<or> ends_with [] (CHR ''.'' # d)" using h(2) law unfolding suffixLaw_def by blast
    with h(4) show False by (simp add: ends_with_def)
  qed
  ultimately show ?thesis using h(1,3) by (simp add: isHostWithinDomain_def hostnameOf_def Let_def)
qed

section \<open>Properties\<close>


definition demoAnchorUrl :: url_parser where
  "demoAnchorUrl u =
     (if u = ''https://login.bank.test/'' then
        Some \<lparr>luProtocol = ''https:'', luUsername = [], luPassword = [], luHostname = ''login.bank.test''\<rparr>
      else if u = ''https://other.test/'' then
        Some \<lparr>luProtocol = ''https:'', luUsername = [], luPassword = [], luHostname = ''other.test''\<rparr>
      else None)"

definition demoAnchor :: anchor_env where
  "demoAnchor =
     \<lparr>aeParseUrl = demoAnchorUrl,
      aeGetDomain = (\<lambda>h. if h = ''login.bank.test'' then Some ''bank.test'' else if h = ''other.test'' then Some ''other.test'' else None),
      aeNodeEnv = None, aeAllowInsecure = None, aeSha = (\<lambda>s. utf8 s), aeCrypto = demoCrypto,
      aeRawKey = Some (replicate 64 (CHR ''0'')), aeCronNext = (\<lambda>s z t. Some (t + 1)), aeTzKnown = (\<lambda>z. True)\<rparr>"

lemma demoAnchor_law: "suffixLaw (aeGetDomain demoAnchor)"
  by (auto simp: suffixLaw_def demoAnchor_def ends_with_def split: if_splits)

definition noPatch :: institution_patch where
  "noPatch =
     \<lparr>ipName = None, ipLoginUrl = None, ipType = None, ipCountry = None, ipLogo = None, ipAllowedDomains = None,
      ipPlaybook = None, ipExtractionHints = None, ipLoginHints = None, ipRequires2fa = None, ipOtpSenderPattern = None,
      ipUseDeviceProxy = None, ipModel = None, ipThinkingLevel = None, ipMaxSteps = None, ipTimeoutSeconds = None,
      ipTransactionLookbackDays = None\<rparr>"

definition demoBank :: institution_input where
  "demoBank = \<lparr>iiId = ''bank'', iiName = ''Bank'', iiLoginUrl = ''https://login.bank.test/'', iiType = ''bank'', iiRest = noPatch\<rparr>"

definition demoConnectionInput :: connection_input where
  "demoConnectionInput =
     \<lparr>coInstitutionId = ''bank'', coUsername = ''u'', coPassword = ''p'',
      coRest = \<lparr>cpUsername = None, cpPassword = None, cpDob = None, cpPhone = None, cpOverride = None, cpInstructions = None,
        cpScheduleEnabled = None, cpSchedule = None, cpTimezone = None, cpNickname = None\<rparr>\<rparr>"

definition demoAnchor0 :: anchor_world where
  "demoAnchor0 = \<lparr>anWorld = demoWorld\<lparr>wConnections := []\<rparr>, anInstitutions = [], anProfiles = []\<rparr>"

definition demoAnchor1 :: anchor_world where
  "demoAnchor1 = fst (projr (createInstitution demoAnchor demoBank None 1 demoAnchor0))"

definition demoAnchor2 :: anchor_world where
  "demoAnchor2 = fst (projr (createConnection demoAnchor id (\<lambda>f. \<lparr>srDek = [], srDekNonce = [], srDataNonce = []\<rparr>) ''k'' 2
     demoConnectionInput ''alice'' demoAnchor1))"

definition demoAnchor3 :: anchor_world where
  "demoAnchor3 = fst (projr (verifyLoginDomain demoAnchor id ''k'' '' Bank.test'' ''alice'' 3 demoAnchor2))"

lemma demo_approval: "approvalOf ''k'' '' Bank.test'' demoAnchor3 = Approved ''k'' ''bank.test'' (''bank.test'', [])"
  by code_simp

lemma demo_anchor_run: "anchor_run demoAnchor [approvalOf ''k'' '' Bank.test'' demoAnchor3] demoAnchor3"
proof -
  have "anchor_run demoAnchor [] demoAnchor0" by (rule anchor_run.start) (simp_all add: demoAnchor0_def)
  moreover have "\<not> isl (createInstitution demoAnchor demoBank None 1 demoAnchor0)" by code_simp
  then have "createInstitution demoAnchor demoBank None 1 demoAnchor0
      = Inr (demoAnchor1, snd (projr (createInstitution demoAnchor demoBank None 1 demoAnchor0)))"
    by (simp add: demoAnchor1_def)
  ultimately have r1: "anchor_run demoAnchor [] (id demoAnchor1)" using anchor_run.make by fastforce
  let ?c = "createConnection demoAnchor id (\<lambda>f. \<lparr>srDek = [], srDekNonce = [], srDataNonce = []\<rparr>) ''k'' 2 demoConnectionInput ''alice'' demoAnchor1"
  have "\<not> isl ?c" by code_simp
  then have "?c = Inr (demoAnchor2, snd (projr ?c))" by (simp add: demoAnchor2_def)
  from anchor_run.connect [OF r1 this] have r2: "anchor_run demoAnchor [] (id demoAnchor2)" by simp
  let ?v = "verifyLoginDomain demoAnchor id ''k'' '' Bank.test'' ''alice'' 3 demoAnchor2"
  have "\<not> isl ?v" "snd (projr ?v) \<noteq> None" by code_simp+
  then have "?v = Inr (demoAnchor3, Some (the (snd (projr ?v))))" by (simp add: demoAnchor3_def)
  from anchor_run.approve [OF r2 this] show ?thesis .
qed



definition movedMeanwhile :: "anchor_world \<Rightarrow> anchor_world" where
  "movedMeanwhile w =
     fst (projr (verifyLoginDomain demoAnchor id ''k'' ''other.test'' ''alice'' 5
       (fst (projr (updateInstitution demoAnchor id ''bank'' (noPatch\<lparr>ipLoginUrl := Some ''https://other.test/''\<rparr>) AccessAll 4 w)))))"


end
