(* ===== verification/TransactionHistory.thy ===== *)
theory TransactionHistory
  imports JsText
begin

text \<open>
  \<^verbatim>\<open>packages/contracts/src/transaction-history.ts\<close>: the list of known transactions that goes along with a crawl,
  cut into fragments with digests, and put together again by the engine. SHA-256 is a parameter on bytes. Counts,
  lengths and indices are whole numbers (a fraction never passes a schema), and zod's \<^verbatim>\<open>int()\<close> admits safe integers only.
\<close>

section \<open>Records and schemas\<close>

definition RECENT_TRANSACTION_HISTORY_VERSION :: string where
  "RECENT_TRANSACTION_HISTORY_VERSION = ''v1''"

definition RECENT_TRANSACTION_HISTORY_CHUNK_BYTES :: nat where
  "RECENT_TRANSACTION_HISTORY_CHUNK_BYTES = 128 * 1024"

definition MAX_SAFE_INTEGER :: int where
  "MAX_SAFE_INTEGER = 2 ^ 53 - 1"

record recent_transaction =
  hxProviderAccountId :: string
  hxProviderTransactionId :: string
  hxBookingDate :: string
  hxAmount :: jsnum
  hxCurrency :: string
  hxDescription :: string
  hxIsPending :: bool

record history_manifest =
  hmVersion :: string
  hmItemCount :: int
  hmByteLength :: int
  hmChunkCount :: int
  hmSha256 :: string

record history_chunk =
  hcIndex :: int
  hcByteLength :: int
  hcSha256 :: string
  hcData :: string

datatype history_error = SchemaError | HistoryError string

text \<open>\<^verbatim>\<open>/^(?:[A-Za-z0-9+/]{4})*(?:[A-Za-z0-9+/]{2}==|[A-Za-z0-9+/]{3}=)?$/\<close>\<close>

definition isStdB64 :: "char \<Rightarrow> bool" where
  "isStdB64 c = (isB64 (urlChar c) \<and> c \<noteq> CHR ''-'' \<and> c \<noteq> CHR ''_'')"

fun CANONICAL_BASE64 :: "string \<Rightarrow> bool" where
  "CANONICAL_BASE64 [] = True"
| "CANONICAL_BASE64 [a, b, c, d] =
     (isStdB64 a \<and> isStdB64 b
      \<and> (c = CHR ''='' \<and> d = CHR ''='' \<or> isStdB64 c \<and> (d = CHR ''='' \<or> isStdB64 d)))"
| "CANONICAL_BASE64 (a # b # c # d # r) = (isStdB64 a \<and> isStdB64 b \<and> isStdB64 c \<and> isStdB64 d \<and> CANONICAL_BASE64 r)"
| "CANONICAL_BASE64 _ = False"

definition manifestOk :: "history_manifest \<Rightarrow> bool" where
  "manifestOk m =
     (hmVersion m = RECENT_TRANSACTION_HISTORY_VERSION
      \<and> 0 \<le> hmItemCount m \<and> hmItemCount m \<le> MAX_SAFE_INTEGER
      \<and> 0 < hmByteLength m \<and> hmByteLength m \<le> MAX_SAFE_INTEGER
      \<and> 0 < hmChunkCount m \<and> hmChunkCount m \<le> MAX_SAFE_INTEGER \<and> SHA256_HEX (hmSha256 m))"

definition chunkOk :: "history_chunk \<Rightarrow> bool" where
  "chunkOk c =
     (0 \<le> hcIndex c \<and> hcIndex c \<le> MAX_SAFE_INTEGER
      \<and> 0 < hcByteLength c \<and> hcByteLength c \<le> int RECENT_TRANSACTION_HISTORY_CHUNK_BYTES
      \<and> SHA256_HEX (hcSha256 c) \<and> hcData c \<noteq> [] \<and> CANONICAL_BASE64 (hcData c))"

text \<open>A parsed record has its fields in the order of the schema.\<close>

definition recentTxJson :: "recent_transaction \<Rightarrow> json" where
  "recentTxJson t =
     JObj [(''providerAccountId'', JStr (hxProviderAccountId t)), (''providerTransactionId'', JStr (hxProviderTransactionId t)),
           (''bookingDate'', JStr (hxBookingDate t)), (''amount'', JNum (hxAmount t)), (''currency'', JStr (hxCurrency t)),
           (''description'', JStr (hxDescription t)), (''isPending'', JBool (hxIsPending t))]"

definition RECENT_TX_KEYS :: "string list" where
  "RECENT_TX_KEYS =
     [''providerAccountId'', ''providerTransactionId'', ''bookingDate'', ''amount'', ''currency'', ''description'', ''isPending'']"

definition parseRecentTx :: "json \<Rightarrow> recent_transaction option" where
  "parseRecentTx j =
     (case j of
        JObj d \<Rightarrow>
          if \<not> set (mkeys d) \<subseteq> set RECENT_TX_KEYS then None
          else (case (str_field ''providerAccountId'' d, str_field ''providerTransactionId'' d, str_field ''bookingDate'' d,
                      mget d ''amount'', str_field ''currency'' d, str_field ''description'' d, mget d ''isPending'') of
                  (Some a, Some p, Some b, Some (JNum (Fin q)), Some c, Some s, Some (JBool pending)) \<Rightarrow>
                    Some \<lparr>hxProviderAccountId = a, hxProviderTransactionId = p, hxBookingDate = b, hxAmount = Fin q,
                          hxCurrency = c, hxDescription = s, hxIsPending = pending\<rparr>
                | _ \<Rightarrow> None)
      | _ \<Rightarrow> None)"

fun parseAllTx :: "json list \<Rightarrow> recent_transaction list option" where
  "parseAllTx [] = Some []"
| "parseAllTx (j # js) =
     (case parseRecentTx j of
        None \<Rightarrow> None
      | Some t \<Rightarrow> map_option (\<lambda>ts. t # ts) (parseAllTx js))"

section \<open>Building\<close>

definition safeHexEqual :: "string \<Rightarrow> string \<Rightarrow> bool" where
  "safeHexEqual left right =
     (if \<not> SHA256_HEX left \<or> \<not> SHA256_HEX right then False else from_hex left = from_hex right)"

definition orderRecentTransactions :: "recent_transaction list \<Rightarrow> history_error + recent_transaction list" where
  "orderRecentTransactions ts =
     (if list_all (\<lambda>t. isFinite (hxAmount t)) ts then Inr ts else Inl SchemaError)"

text \<open>The loop over the payload in steps of the fragment size.\<close>

function fragments :: "byte list \<Rightarrow> byte list list" where
  "fragments bs =
     (if bs = [] then []
      else take RECENT_TRANSACTION_HISTORY_CHUNK_BYTES bs # fragments (drop RECENT_TRANSACTION_HISTORY_CHUNK_BYTES bs))"
  by auto
termination
  by (relation "measure length") (auto simp: RECENT_TRANSACTION_HISTORY_CHUNK_BYTES_def)

declare fragments.simps [simp del]

definition chunkOf :: "byte_hash \<Rightarrow> nat \<Rightarrow> byte list \<Rightarrow> history_chunk" where
  "chunkOf sha i bytes =
     \<lparr>hcIndex = int i, hcByteLength = int (length bytes), hcSha256 = to_hex (sha bytes), hcData = base64_encode bytes\<rparr>"

definition historyPayload :: "(rat \<Rightarrow> string) \<Rightarrow> recent_transaction list \<Rightarrow> byte list" where
  "historyPayload numStr received = utf8 (stringify numStr (JArr (map recentTxJson received)))"

record built_history =
  bhTransactions :: "recent_transaction list"
  bhManifest :: history_manifest
  bhChunks :: "history_chunk list"

definition buildRecentTransactionHistory ::
  "byte_hash \<Rightarrow> (rat \<Rightarrow> string) \<Rightarrow> recent_transaction list \<Rightarrow> history_error + built_history" where
  "buildRecentTransactionHistory sha numStr ts =
     (case orderRecentTransactions ts of
        Inl e \<Rightarrow> Inl e
      | Inr received \<Rightarrow>
          let payload = historyPayload numStr received;
              chunks = map (\<lambda>(i, bytes). chunkOf sha i bytes) (enumerate 0 (fragments payload))
          in if chunks = [] then Inl (HistoryError ''transaction history serialization is empty'')
             else Inr \<lparr>bhTransactions = received,
                       bhManifest = \<lparr>hmVersion = RECENT_TRANSACTION_HISTORY_VERSION, hmItemCount = int (length received),
                         hmByteLength = int (length payload), hmChunkCount = int (length chunks), hmSha256 = to_hex (sha payload)\<rparr>,
                       bhChunks = chunks\<rparr>)"

definition sameManifest :: "history_manifest \<Rightarrow> history_manifest \<Rightarrow> bool" where
  "sameManifest left right =
     (hmVersion left = hmVersion right \<and> hmItemCount left = hmItemCount right \<and> hmByteLength left = hmByteLength right
      \<and> hmChunkCount left = hmChunkCount right \<and> safeHexEqual (hmSha256 left) (hmSha256 right))"

definition assertRecentTransactionHistory ::
  "byte_hash \<Rightarrow> (rat \<Rightarrow> string) \<Rightarrow> recent_transaction list \<Rightarrow> history_manifest \<Rightarrow> history_error + built_history" where
  "assertRecentTransactionHistory sha numStr ts manifest =
     (if \<not> manifestOk manifest then Inl SchemaError
      else case buildRecentTransactionHistory sha numStr ts of
             Inl e \<Rightarrow> Inl e
           | Inr built \<Rightarrow>
               if \<not> sameManifest (bhManifest built) manifest
               then Inl (HistoryError ''transaction history manifest does not match its records'') else Inr built)"

section \<open>Putting it together again\<close>

fun decodeChunks :: "byte_hash \<Rightarrow> nat \<Rightarrow> history_chunk list \<Rightarrow> history_error + byte list" where
  "decodeChunks sha i [] = Inr []"
| "decodeChunks sha i (c # cs) =
     (if \<not> chunkOk c then Inl SchemaError
      else if hcIndex c \<noteq> int i
      then Inl (HistoryError ''transaction history chunks are missing, duplicated, or reordered'')
      else let bytes = base64_decode (hcData c) in
           if int (length bytes) \<noteq> hcByteLength c \<or> base64_encode bytes \<noteq> hcData c
              \<or> \<not> safeHexEqual (to_hex (sha bytes)) (hcSha256 c)
           then Inl (HistoryError ''transaction history chunk failed its integrity fence'')
           else (case decodeChunks sha (Suc i) cs of Inl e \<Rightarrow> Inl e | Inr rest \<Rightarrow> Inr (bytes @ rest)))"

text \<open>A payload with bytes that \<^verbatim>\<open>utf8_decode\<close> does not cover is outside the model and answered as bad JSON.\<close>

definition reassembleRecentTransactionHistory ::
  "byte_hash \<Rightarrow> history_manifest \<Rightarrow> history_chunk list \<Rightarrow> history_error + recent_transaction list" where
  "reassembleRecentTransactionHistory sha manifest chunks =
     (if \<not> manifestOk manifest then Inl SchemaError
      else if int (length chunks) \<noteq> hmChunkCount manifest
      then Inl (HistoryError ''transaction history chunk count does not match its manifest'')
      else case decodeChunks sha 0 chunks of
             Inl e \<Rightarrow> Inl e
           | Inr payload \<Rightarrow>
               if int (length payload) \<noteq> hmByteLength manifest \<or> \<not> safeHexEqual (to_hex (sha payload)) (hmSha256 manifest)
               then Inl (HistoryError ''transaction history payload failed its integrity fence'')
               else (case Option.bind (utf8_decode payload) jsonParse of
                       None \<Rightarrow> Inl (HistoryError ''transaction history payload is not valid JSON'')
                     | Some (JArr js) \<Rightarrow>
                         (case parseAllTx js of
                            None \<Rightarrow> Inl SchemaError
                          | Some ts \<Rightarrow>
                              if int (length ts) \<noteq> hmItemCount manifest
                              then Inl (HistoryError ''transaction history item count does not match its manifest'')
                              else Inr ts)
                     | Some _ \<Rightarrow> Inl SchemaError))"

definition recentTransactionHistoryManifestsEqual :: "history_manifest \<Rightarrow> history_manifest \<Rightarrow> history_error + bool" where
  "recentTransactionHistoryManifestsEqual left right =
     (if \<not> manifestOk left \<or> \<not> manifestOk right then Inl SchemaError else Inr (sameManifest left right))"

section \<open>Lemmas\<close>

lemma fragments_empty [simp]: "fragments bs = [] \<longleftrightarrow> bs = []"
  by (subst fragments.simps) simp

lemma concat_fragments [simp]: "concat (fragments bs) = bs"
proof (induction bs rule: fragments.induct)
  case (1 bs)
  then show ?case by (subst fragments.simps) simp
qed

lemma fragments_sizes: "f \<in> set (fragments bs) \<Longrightarrow> f \<noteq> [] \<and> length f \<le> RECENT_TRANSACTION_HISTORY_CHUNK_BYTES"
proof (induction bs rule: fragments.induct)
  case (1 bs)
  from 1(2) have "bs \<noteq> []" "f = take RECENT_TRANSACTION_HISTORY_CHUNK_BYTES bs
      \<or> f \<in> set (fragments (drop RECENT_TRANSACTION_HISTORY_CHUNK_BYTES bs))"
    by (subst (asm) fragments.simps, simp split: if_splits)+
  with 1(1) show ?case by (auto simp: RECENT_TRANSACTION_HISTORY_CHUNK_BYTES_def)
qed

lemma stdChar_std: "isB64 c \<Longrightarrow> isStdB64 (stdChar c)"
  by (cases "c = CHR ''-'' \<or> c = CHR ''_''") (auto simp: isStdB64_def stdChar_def urlChar_def isB64_def b64_val_def)

lemma CANONICAL_BASE64_Cons4:
  "isStdB64 a \<Longrightarrow> isStdB64 b \<Longrightarrow> isStdB64 c \<Longrightarrow> isStdB64 d \<Longrightarrow> CANONICAL_BASE64 r \<Longrightarrow> CANONICAL_BASE64 (a # b # c # d # r)"
  by (cases r) auto

lemma CANONICAL_BASE64_encode: "CANONICAL_BASE64 (base64_encode bs)"
proof (induction bs rule: b64url_encode.induct)
  case (4 a b c r)
  have "base64_encode (a # b # c # r) = map stdChar (b64url_encode [a, b, c]) @ base64_encode r"
    by (simp add: base64_encode_def)
  moreover have "list_all isB64 (b64url_encode [a, b, c])" by (rule b64url_encode_chars)
  ultimately show ?case using 4 by (auto intro!: CANONICAL_BASE64_Cons4 stdChar_std)
next
  case (2 a)
  have "list_all isB64 (b64url_encode [a])" by (rule b64url_encode_chars)
  then show ?case by (auto simp: base64_encode_def stdChar_std numeral_2_eq_2)
next
  case (3 a b)
  have "list_all isB64 (b64url_encode [a, b])" by (rule b64url_encode_chars)
  then show ?case by (auto simp: base64_encode_def stdChar_std)
qed (simp add: base64_encode_def)

lemma base64_encode_nonempty: "bs \<noteq> [] \<Longrightarrow> base64_encode bs \<noteq> []"
  by (cases bs rule: b64url_encode.cases) (auto simp: base64_encode_def)

text \<open>What SHA-256 documents of its output.\<close>

definition shaLaw :: "byte_hash \<Rightarrow> bool" where
  "shaLaw sha = (\<forall>b. length (sha b) = 32)"

lemma SHA256_HEX_of: "shaLaw sha \<Longrightarrow> SHA256_HEX (to_hex (sha b))"
proof -
  have "length (to_hex x) = 2 * length x" for x by (induction x) (simp_all add: to_hex_def hex_byte_def)
  then show "shaLaw sha \<Longrightarrow> SHA256_HEX (to_hex (sha b))" using to_hex_hex [of "sha b"] by (auto simp: SHA256_HEX_def shaLaw_def list_all_iff)
qed

lemma safeHexEqual_iff: "safeHexEqual l r \<longleftrightarrow> SHA256_HEX l \<and> l = r"
proof -
  have "to_hex (from_hex x) = x" if "SHA256_HEX x" for x using that by (auto simp: SHA256_HEX_def intro: to_hex_from_hex)
  then have "SHA256_HEX l \<Longrightarrow> SHA256_HEX r \<Longrightarrow> from_hex l = from_hex r \<longleftrightarrow> l = r" by metis
  then show ?thesis unfolding safeHexEqual_def by metis
qed

lemma chunkOk_chunkOf:
  "shaLaw sha \<Longrightarrow> f \<noteq> [] \<Longrightarrow> length f \<le> RECENT_TRANSACTION_HISTORY_CHUNK_BYTES \<Longrightarrow> int i \<le> MAX_SAFE_INTEGER \<Longrightarrow> chunkOk (chunkOf sha i f)"
  unfolding chunkOk_def chunkOf_def history_chunk.simps
  by (intro conjI SHA256_HEX_of CANONICAL_BASE64_encode base64_encode_nonempty) simp_all

lemma decodeChunks_map:
  assumes "shaLaw sha" "\<And>f. f \<in> set fs \<Longrightarrow> f \<noteq> [] \<and> length f \<le> RECENT_TRANSACTION_HISTORY_CHUNK_BYTES"
    "int (i + length fs) \<le> MAX_SAFE_INTEGER"
  shows "decodeChunks sha i (map (\<lambda>(i, f). chunkOf sha i f) (enumerate i fs)) = Inr (concat fs)"
  using assms
proof (induction fs arbitrary: i)
  case (Cons f fs)
  have "f \<noteq> []" "length f \<le> RECENT_TRANSACTION_HISTORY_CHUNK_BYTES" "int i \<le> MAX_SAFE_INTEGER"
    using Cons.prems(2) [of f] Cons.prems(3) by simp_all
  then have "chunkOk (chunkOf sha i f)" by (rule chunkOk_chunkOf [OF Cons.prems(1)])
  moreover have "decodeChunks sha (Suc i) (map (\<lambda>(i, f). chunkOf sha i f) (enumerate (Suc i) fs)) = Inr (concat fs)"
    using Cons.prems by (intro Cons.IH) auto
  ultimately show ?case by (simp add: chunkOf_def safeHexEqual_iff SHA256_HEX_of [OF Cons.prems(1)])
qed simp

text \<open>Whatever passes the fences are the very bytes.\<close>

lemma parse_recentTxJson: "isFinite (hxAmount t) \<Longrightarrow> parseRecentTx (recentTxJson t) = Some t"
  by (cases "hxAmount t")
    (auto simp: parseRecentTx_def recentTxJson_def RECENT_TX_KEYS_def str_field_def mget_def mkeys_def isFinite_def)

lemma parseAllTx_map: "list_all (\<lambda>t. isFinite (hxAmount t)) ts \<Longrightarrow> parseAllTx (map recentTxJson ts) = Some ts"
  by (induction ts) (simp_all add: parse_recentTxJson)

definition amountsReadable :: "(rat \<Rightarrow> string) \<Rightarrow> recent_transaction list \<Rightarrow> bool" where
  "amountsReadable numStr ts = list_all (\<lambda>t. readable numStr (JNum (hxAmount t))) ts"

lemma payload_reads: "amountsReadable numStr ts \<Longrightarrow>
    Option.bind (utf8_decode (historyPayload numStr ts)) jsonParse = Some (JArr (map recentTxJson ts))"
  unfolding historyPayload_def utf8_roundtrip Option.bind.bind_lunit
  by (rule parse_readable) (auto simp: recentTxJson_def amountsReadable_def list_all_iff)

lemma build_Inr:
  assumes "buildRecentTransactionHistory sha numStr ts = Inr b"
  shows "bhTransactions b = ts" "list_all (\<lambda>t. isFinite (hxAmount t)) ts"
    "bhChunks b = map (\<lambda>(i, f). chunkOf sha i f) (enumerate 0 (fragments (historyPayload numStr ts)))" "bhChunks b \<noteq> []"
    "hmItemCount (bhManifest b) = int (length ts)" "hmByteLength (bhManifest b) = int (length (historyPayload numStr ts))"
    "hmChunkCount (bhManifest b) = int (length (bhChunks b))" "hmSha256 (bhManifest b) = to_hex (sha (historyPayload numStr ts))"
    "hmVersion (bhManifest b) = RECENT_TRANSACTION_HISTORY_VERSION"
  using assms by (auto simp: buildRecentTransactionHistory_def orderRecentTransactions_def Let_def split: if_splits)

lemma assert_Inr:
  assumes "assertRecentTransactionHistory sha numStr ts m = Inr b"
  shows "manifestOk m" "buildRecentTransactionHistory sha numStr ts = Inr b" "bhManifest b = m"
proof -
  show ok: "manifestOk m" and b: "buildRecentTransactionHistory sha numStr ts = Inr b"
    using assms by (auto simp: assertRecentTransactionHistory_def split: if_splits sum.splits)
  have "sameManifest (bhManifest b) m" using assms ok b by (auto simp: assertRecentTransactionHistory_def split: if_splits)
  then show "bhManifest b = m" by (cases m; cases "bhManifest b") (simp add: sameManifest_def safeHexEqual_iff)
qed

lemma reassemble_build:
  assumes law: "shaLaw sha" and nums: "amountsReadable numStr ts"
    and b: "buildRecentTransactionHistory sha numStr ts = Inr b" and ok: "manifestOk (bhManifest b)"
  shows "reassembleRecentTransactionHistory sha (bhManifest b) (bhChunks b) = Inr ts"
proof -
  note f = build_Inr [OF b]
  have "decodeChunks sha 0 (bhChunks b) = Inr (historyPayload numStr ts)"
    unfolding f(3) using ok f(3,7) fragments_sizes by (subst decodeChunks_map [OF law]) (auto simp: manifestOk_def)
  then show ?thesis using f ok payload_reads [OF nums] parseAllTx_map [OF f(2)]
    by (simp add: reassembleRecentTransactionHistory_def safeHexEqual_iff SHA256_HEX_of [OF law])
qed

lemma reassemble_Inr:
  assumes "reassembleRecentTransactionHistory sha m chunks = Inr ts"
  obtains payload js where "decodeChunks sha 0 chunks = Inr payload" "int (length payload) = hmByteLength m"
    "to_hex (sha payload) = hmSha256 m" "Option.bind (utf8_decode payload) jsonParse = Some (JArr js)" "parseAllTx js = Some ts"
  using assms by (auto simp: reassembleRecentTransactionHistory_def safeHexEqual_iff split: if_splits sum.splits option.splits json.splits)

end
