(* ===== verification/HistoryTransport.thy ===== *)
theory HistoryTransport
  imports TransactionHistory
begin

text \<open>
  How the list of known transactions reaches the engine: \<^verbatim>\<open>dispatchCrawlOverHttp\<close>
  (\<^verbatim>\<open>apps/control-plane/src/orchestration/dispatch-engine.ts\<close>) posts its fragments,
  \<^verbatim>\<open>apps/engine/src/transaction-history-store.ts\<close> holds them, and the \<^verbatim>\<open>/crawl\<close> route (\<^verbatim>\<open>apps/engine/src/index.ts\<close>)
  takes them out and has \<^verbatim>\<open>packages/contracts/src/schemas.ts\<close> put the list into the request. Of a request only the
  session and its history are modelled. A call reads the clock several times; the model reads it once.
\<close>

section \<open>The upload store\<close>

definition HISTORY_UPLOAD_TTL_MS :: millis where
  "HISTORY_UPLOAD_TTL_MS = 5 * 60000"

definition MAX_PENDING_HISTORY_SESSIONS :: nat where
  "MAX_PENDING_HISTORY_SESSIONS = 64"

record pending_history =
  phManifest :: history_manifest
  phChunks :: "history_chunk list"
  phInvalidReason :: "string option"
  phUpdatedAt :: millis

type_synonym history_store = "pending_history jsmap"

definition purgeExpired :: "millis \<Rightarrow> history_store \<Rightarrow> history_store" where
  "purgeExpired now st = filter (\<lambda>(i, h). \<not> phUpdatedAt h < now - HISTORY_UPLOAD_TTL_MS) st"

definition invalidate :: "string \<Rightarrow> string \<Rightarrow> millis \<Rightarrow> pending_history \<Rightarrow> history_store \<Rightarrow> history_store \<times> (history_error + unit)" where
  "invalidate sid reason now h st =
     (mput sid (h\<lparr>phInvalidReason := Some reason, phUpdatedAt := now\<rparr>) st, Inl (HistoryError reason))"

definition hasUploadState :: "string \<Rightarrow> millis \<Rightarrow> history_store \<Rightarrow> history_store \<times> bool" where
  "hasUploadState sid now st = (let st = purgeExpired now st in (st, mhas st sid))"

definition chunkJson :: "history_chunk \<Rightarrow> json" where
  "chunkJson c =
     JObj [(''index'', JNum (Fin (of_int (hcIndex c)))), (''byteLength'', JNum (Fin (of_int (hcByteLength c)))),
           (''sha256'', JStr (hcSha256 c)), (''data'', JStr (hcData c))]"

definition sameChunkText :: "history_chunk \<Rightarrow> history_chunk \<Rightarrow> bool" where
  "sameChunkText a b = (stringify (\<lambda>_. []) (chunkJson a) = stringify (\<lambda>_. []) (chunkJson b))"

text \<open>The second half of \<^verbatim>\<open>put\<close>, for a session whose history \<open>h\<close> is in \<open>st\<close>.\<close>

definition addChunk ::
  "string \<Rightarrow> history_manifest \<Rightarrow> history_chunk \<Rightarrow> millis \<Rightarrow> pending_history \<Rightarrow> history_store
     \<Rightarrow> history_store \<times> (history_error + unit)" where
  "addChunk sid manifest chunk now h st =
     (if hcIndex chunk < int (length (phChunks h)) then
        (if sameChunkText (phChunks h ! nat (hcIndex chunk)) chunk then (mput sid (h\<lparr>phUpdatedAt := now\<rparr>) st, Inr ())
         else invalidate sid ''transaction history chunk retry changed bytes'' now h st)
      else if hcIndex chunk \<noteq> int (length (phChunks h))
      then invalidate sid ''transaction history chunks arrived out of order'' now h st
      else if hcIndex chunk \<ge> hmChunkCount manifest
      then invalidate sid ''transaction history contains an unexpected extra chunk'' now h st
      else if sum_list (map hcByteLength (phChunks h)) + hcByteLength chunk > hmByteLength manifest
      then invalidate sid ''transaction history chunks exceed the declared byte length'' now h st
      else (mput sid (h\<lparr>phChunks := phChunks h @ [chunk], phUpdatedAt := now\<rparr>) st, Inr ()))"

definition putHistory ::
  "string \<Rightarrow> history_manifest \<Rightarrow> history_chunk \<Rightarrow> millis \<Rightarrow> history_store \<Rightarrow> history_store \<times> (history_error + unit)" where
  "putHistory sid manifest chunk now st0 =
     (let st = purgeExpired now st0 in
      if \<not> manifestOk manifest \<or> \<not> chunkOk chunk then (st, Inl SchemaError)
      else case mget st sid of
             None \<Rightarrow>
               if length st \<ge> MAX_PENDING_HISTORY_SESSIONS
               then (st, Inl (HistoryError ''too many transaction histories are awaiting crawl dispatch''))
               else let h = \<lparr>phManifest = manifest, phChunks = [], phInvalidReason = None, phUpdatedAt = now\<rparr>
                    in addChunk sid manifest chunk now h (mput sid h st)
           | Some h \<Rightarrow>
               if truthy (phInvalidReason h) then (st, Inl (HistoryError (the (phInvalidReason h))))
               else (case recentTransactionHistoryManifestsEqual (phManifest h) manifest of
                       Inl e \<Rightarrow> (st, Inl e)
                     | Inr same \<Rightarrow>
                         if \<not> same then invalidate sid ''transaction history manifest changed during upload'' now h st
                         else addChunk sid manifest chunk now h st))"

definition consumeHistory ::
  "string \<Rightarrow> history_manifest \<Rightarrow> millis \<Rightarrow> history_store \<Rightarrow> history_store \<times> (history_error + history_chunk list)" where
  "consumeHistory sid manifest now st0 =
     (let st = purgeExpired now st0 in
      (st,
       if \<not> manifestOk manifest then Inl SchemaError
       else case mget st sid of
              None \<Rightarrow> Inl (HistoryError ''transaction history chunks were not uploaded'')
            | Some h \<Rightarrow>
                if truthy (phInvalidReason h) then Inl (HistoryError (the (phInvalidReason h)))
                else (case recentTransactionHistoryManifestsEqual (phManifest h) manifest of
                        Inl e \<Rightarrow> Inl e
                      | Inr same \<Rightarrow>
                          if \<not> same
                          then Inl (HistoryError ''uploaded transaction history does not match the crawl request'')
                          else if int (length (phChunks h)) \<noteq> hmChunkCount manifest
                          then Inl (HistoryError ''transaction history upload is incomplete'')
                          else Inr (phChunks h))))"

definition discardHistory :: "string \<Rightarrow> history_store \<Rightarrow> history_store" where
  "discardHistory sid st = mdel sid st"

section \<open>Requests\<close>

record crawl_transport =
  ctSessionId :: string
  ctTransactions :: "recent_transaction list option"
  ctManifest :: "history_manifest option"

definition addHistoryFenceIssue ::
  "byte_hash \<Rightarrow> (rat \<Rightarrow> string) \<Rightarrow> bool \<Rightarrow> crawl_transport \<Rightarrow> history_error + unit" where
  "addHistoryFenceIssue sha numStr requireInlineHistory v =
     (case ctTransactions v of
        Some ts \<Rightarrow>
          (case ctManifest v of
             None \<Rightarrow> Inl (HistoryError ''recentTransactions requires an exact count and SHA-256 manifest'')
           | Some m \<Rightarrow> map_sum (\<lambda>e. e) (\<lambda>_. ()) (assertRecentTransactionHistory sha numStr ts m))
      | None \<Rightarrow>
          if requireInlineHistory \<and> ctManifest v \<noteq> None
          then Inl (HistoryError ''transaction history chunks must be reassembled before crawl execution'') else Inr ())"

definition hydrateCrawlRequestTransactionHistory ::
  "byte_hash \<Rightarrow> (rat \<Rightarrow> string) \<Rightarrow> crawl_transport \<Rightarrow> history_chunk list \<Rightarrow> history_error + crawl_transport" where
  "hydrateCrawlRequestTransactionHistory sha numStr input chunks =
     (case addHistoryFenceIssue sha numStr False input of
        Inl e \<Rightarrow> Inl e
      | Inr _ \<Rightarrow>
          let crawlRequest = (\<lambda>v. map_sum (\<lambda>e. e) (\<lambda>_. v) (addHistoryFenceIssue sha numStr True v)) in
          (case ctManifest input of
             None \<Rightarrow> crawlRequest input
           | Some m \<Rightarrow>
               if ctTransactions input \<noteq> None then
                 (if chunks \<noteq> []
                  then Inl (HistoryError ''inline transaction history cannot also supply external chunks'')
                  else crawlRequest input)
               else (case reassembleRecentTransactionHistory sha m chunks of
                       Inl e \<Rightarrow> Inl e
                     | Inr ts \<Rightarrow> crawlRequest (input\<lparr>ctTransactions := Some ts\<rparr>))))"

text \<open>
  The \<^verbatim>\<open>/crawl\<close> route up to its claim of the session: the logical request, and whether an upload was used, which
  is discarded after the claim. Both reads of the store happen in one turn of the event loop.
\<close>

definition acceptCrawlHistory ::
  "byte_hash \<Rightarrow> (rat \<Rightarrow> string) \<Rightarrow> crawl_transport \<Rightarrow> millis \<Rightarrow> history_store
     \<Rightarrow> history_store \<times> (history_error + crawl_transport \<times> bool)" where
  "acceptCrawlHistory sha numStr parsed now st0 =
     (case addHistoryFenceIssue sha numStr False parsed of
        Inl e \<Rightarrow> (st0, Inl e)
      | Inr _ \<Rightarrow>
          (case hasUploadState (ctSessionId parsed) now st0 of
             (st, hasState) \<Rightarrow>
               if hasState \<and> ctTransactions parsed \<noteq> None
               then (st, Inl (HistoryError ''inline transaction history cannot replace an external upload''))
               else if hasState \<and> ctManifest parsed = None
               then (st, Inl (HistoryError ''uploaded transaction history requires its exact manifest''))
               else let external = (ctManifest parsed \<noteq> None \<and> ctTransactions parsed = None) in
                    (case (if external then consumeHistory (ctSessionId parsed) (the (ctManifest parsed)) now st else (st, Inr [])) of
                       (st, Inl e) \<Rightarrow> (st, Inl e)
                     | (st, Inr chunks) \<Rightarrow>
                         (st, map_sum (\<lambda>e. e) (\<lambda>r. (r, hasState \<and> external))
                                (hydrateCrawlRequestTransactionHistory sha numStr parsed chunks)))))"

text \<open>What \<^verbatim>\<open>dispatchCrawlOverHttp\<close> posts before the request, and the request it then posts.\<close>

definition historyPosts ::
  "byte_hash \<Rightarrow> (rat \<Rightarrow> string) \<Rightarrow> crawl_transport \<Rightarrow> history_error + (history_manifest \<times> history_chunk) list \<times> crawl_transport" where
  "historyPosts sha numStr request =
     (case ctTransactions request of
        Some ts \<Rightarrow>
          (case ctManifest request of
             None \<Rightarrow> Inl (HistoryError ''transaction history manifest is missing'')
           | Some m \<Rightarrow>
               (case assertRecentTransactionHistory sha numStr ts m of
                  Inl e \<Rightarrow> Inl e
                | Inr history \<Rightarrow>
                    if length (bhChunks history) > 1
                    then Inr (map (\<lambda>c. (bhManifest history, c)) (bhChunks history), request\<lparr>ctTransactions := None\<rparr>)
                    else Inr ([], request)))
      | None \<Rightarrow>
          if ctManifest request \<noteq> None then Inl (HistoryError ''transaction history records are missing'')
          else Inr ([], request))"

section \<open>Lemmas\<close>

lemma mget_purge_None: "mget st s = None \<Longrightarrow> mget (purgeExpired now st) s = None"
  by (induction st) (auto simp: purgeExpired_def mget_Cons split: if_splits)

lemma mget_purge_Some:
  "mget st s = Some h \<Longrightarrow> now - HISTORY_UPLOAD_TTL_MS \<le> phUpdatedAt h \<Longrightarrow> mget (purgeExpired now st) s = Some h"
  by (induction st) (auto simp: purgeExpired_def mget_Cons split: if_splits)

lemma purge_keys: "set (mkeys (purgeExpired now st)) \<subseteq> set (mkeys st)" "distinct (mkeys st) \<Longrightarrow> distinct (mkeys (purgeExpired now st))"
  by (induction st) (auto simp: purgeExpired_def mkeys_def)

lemma set_mkeys_mput: "set (mkeys (mput k v m)) = insert k (set (mkeys m))"
  by (auto simp: mkeys_mput mhas_def set_mkeys)

text \<open>A post touches the history of its own session only.\<close>

lemma addChunk_frame:
  assumes "addChunk s m c now h st = (st', r)"
  shows "\<exists>h'. st' = mput s h' st \<and> phUpdatedAt h' = now \<and> phManifest h' = phManifest h"
  using assms by (auto simp: addChunk_def invalidate_def split: if_splits intro: exI)

lemma putHistory_frame:
  assumes "putHistory s m c now st = (st', r)" "distinct (mkeys st)"
  shows "i \<noteq> s \<Longrightarrow> mget st' i = mget (purgeExpired now st) i" "set (mkeys st') \<subseteq> insert s (set (mkeys st))" "distinct (mkeys st')"
proof -
  have sub: "set (mkeys (purgeExpired now st)) \<subseteq> set (mkeys st)" and d: "distinct (mkeys (purgeExpired now st))"
    using purge_keys assms(2) by blast+
  have "st' = purgeExpired now st \<or> (\<exists>h. st' = mput s h (purgeExpired now st)) \<or> (\<exists>h h'. st' = mput s h (mput s h' (purgeExpired now st)))"
    using assms(1) addChunk_frame [of s m c now] unfolding putHistory_def Let_def invalidate_def
    by (auto split: if_splits option.splits sum.splits) blast+
  then show "i \<noteq> s \<Longrightarrow> mget st' i = mget (purgeExpired now st) i" "set (mkeys st') \<subseteq> insert s (set (mkeys st))" "distinct (mkeys st')"
    using sub d by (auto simp: set_mkeys_mput)
qed

section \<open>Uploads\<close>

type_synonym upload = "string \<times> history_manifest \<times> history_chunk \<times> millis"

definition uploads :: "upload list \<Rightarrow> history_store \<Rightarrow> history_store" where
  "uploads evs st = fold (\<lambda>(s, m, c, now) st. fst (putHistory s m c now st)) evs st"

definition ownChunks :: "string \<Rightarrow> upload list \<Rightarrow> history_chunk list" where
  "ownChunks sid evs = map (\<lambda>(s, m, c, now). c) (filter (\<lambda>(s, m, c, now). s = sid) evs)"

lemma ownChunks_simps [simp]:
  "ownChunks sid [] = []"
  "ownChunks sid ((s, m, c, now) # evs) = (if s = sid then c # ownChunks sid evs else ownChunks sid evs)"
  by (simp_all add: ownChunks_def)

text \<open>A list of posts sent in order, in which any fragment that was sent may be sent again at any later point.\<close>

fun inOrder :: "history_chunk list \<Rightarrow> nat \<Rightarrow> history_chunk list \<Rightarrow> bool" where
  "inOrder cs k [] = (k = length cs)"
| "inOrder cs k (e # es) = (k < length cs \<and> e = cs ! k \<and> inOrder cs (Suc k) es \<or> e \<in> set (take k cs) \<and> inOrder cs k es)"

definition tracks :: "history_manifest \<Rightarrow> history_chunk list \<Rightarrow> millis \<Rightarrow> string \<Rightarrow> nat \<Rightarrow> history_store \<Rightarrow> bool" where
  "tracks m cs t0 sid k st =
     (case mget st sid of
        None \<Rightarrow> k = 0
      | Some h \<Rightarrow> phManifest h = m \<and> phChunks h = take k cs \<and> phInvalidReason h = None \<and> t0 \<le> phUpdatedAt h)"

definition goodChunks :: "history_manifest \<Rightarrow> history_chunk list \<Rightarrow> bool" where
  "goodChunks m cs =
     (manifestOk m \<and> hmChunkCount m = int (length cs) \<and> sum_list (map hcByteLength cs) = hmByteLength m
      \<and> (\<forall>i < length cs. chunkOk (cs ! i) \<and> hcIndex (cs ! i) = int i))"

lemma chunkOk_positive: "chunkOk c \<Longrightarrow> 0 \<le> hcByteLength c"
  by (simp add: chunkOk_def)

lemma chunkOk_nth: "goodChunks m cs \<Longrightarrow> c \<in> set cs \<Longrightarrow> chunkOk c"
  by (auto simp: goodChunks_def in_set_conv_nth)

lemma sum_prefix:
  assumes "goodChunks m cs" "k < length cs"
  shows "sum_list (map hcByteLength (take k cs)) + hcByteLength (cs ! k) \<le> hmByteLength m"
proof -
  have "cs = take k cs @ cs ! k # drop (Suc k) cs" using id_take_nth_drop [OF assms(2)] .
  then have "sum_list (map hcByteLength cs) = sum_list (map hcByteLength (take k cs)) + (hcByteLength (cs ! k) + sum_list (map hcByteLength (drop (Suc k) cs)))"
    by (metis list.simps(9) map_append sum_list.Cons sum_list.append)
  moreover have "0 \<le> sum_list (map hcByteLength (drop (Suc k) cs))"
    using chunkOk_nth [OF assms(1)] by (intro sum_list_nonneg) (auto dest!: in_set_dropD intro: chunkOk_positive)
  ultimately show ?thesis using assms(1) by (simp add: goodChunks_def)
qed

lemma addChunk_next:
  assumes "goodChunks m cs" "k < length cs" "phChunks h = take k cs"
  shows "addChunk sid m (cs ! k) now h st = (mput sid (h\<lparr>phChunks := take (Suc k) cs, phUpdatedAt := now\<rparr>) st, Inr ())"
  using assms sum_prefix [OF assms(1,2)] by (simp add: addChunk_def goodChunks_def take_Suc_conv_app_nth)

lemma addChunk_again:
  assumes "goodChunks m cs" "c \<in> set (take k cs)" "phChunks h = take k cs"
  shows "addChunk sid m c now h st = (mput sid (h\<lparr>phUpdatedAt := now\<rparr>) st, Inr ())"
proof -
  obtain j where "j < length (take k cs)" "c = cs ! j" using assms(2) by (auto simp: in_set_conv_nth)
  then show ?thesis using assms(1,3) by (auto simp: addChunk_def goodChunks_def sameChunkText_def)
qed

lemma tracks_purge: "tracks m cs t0 sid k st \<Longrightarrow> now \<le> t0 + HISTORY_UPLOAD_TTL_MS \<Longrightarrow> tracks m cs t0 sid k (purgeExpired now st)"
  by (cases "mget st sid") (auto simp: tracks_def mget_purge_None mget_purge_Some)

lemma putHistory_own:
  assumes good: "goodChunks m cs" and t: "tracks m cs t0 sid k st" "t0 \<le> now" "now \<le> t0 + HISTORY_UPLOAD_TTL_MS"
    and step: "k < length cs \<and> c = cs ! k \<and> k' = Suc k \<or> c \<in> set (take k cs) \<and> k' = k"
    and room: "length (purgeExpired now st) < MAX_PENDING_HISTORY_SESSIONS \<or> mhas (purgeExpired now st) sid"
  shows "tracks m cs t0 sid k' (fst (putHistory sid m c now st))"
proof -
  let ?st = "purgeExpired now st"
  have tr: "tracks m cs t0 sid k ?st" by (rule tracks_purge [OF t(1,3)])
  have "c \<in> set cs" using step by (auto dest: in_set_takeD)
  then have ok: "manifestOk m" "chunkOk c" using good chunkOk_nth by (auto simp: goodChunks_def)
  have same: "recentTransactionHistoryManifestsEqual m m = Inr True"
    using ok(1) by (simp add: recentTransactionHistoryManifestsEqual_def sameManifest_def safeHexEqual_iff manifestOk_def)
  show ?thesis
  proof (cases "mget ?st sid")
    case None
    then have k: "k = 0" "k' = Suc 0" "k < length cs" "c = cs ! 0" using tr step by (auto simp: tracks_def)
    let ?h = "\<lparr>phManifest = m, phChunks = [], phInvalidReason = None, phUpdatedAt = now\<rparr>"
    have "addChunk sid m (cs ! 0) now ?h (mput sid ?h ?st)
        = (mput sid (?h\<lparr>phChunks := take (Suc 0) cs, phUpdatedAt := now\<rparr>) (mput sid ?h ?st), Inr ())"
      by (rule addChunk_next [OF good]) (use k in simp_all)
    then show ?thesis using None ok room k t(2) by (simp add: putHistory_def Let_def mhas_def tracks_def)
  next
    case (Some h)
    then have h: "phManifest h = m" "phChunks h = take k cs" "phInvalidReason h = None" using tr by (simp_all add: tracks_def)
    have "fst (putHistory sid m c now st) = fst (addChunk sid m c now h ?st)"
      using Some h ok same by (simp add: putHistory_def Let_def)
    then show ?thesis
      using step h t(2) addChunk_next [OF good, of k h sid now ?st] addChunk_again [OF good _ h(2), of c sid now ?st]
      by (auto simp: tracks_def)
  qed
qed

lemma tracks_uploads:
  assumes good: "goodChunks m cs"
  shows "tracks m cs t0 sid k st \<Longrightarrow> distinct (mkeys st)
    \<Longrightarrow> \<forall>(s, m', c, now) \<in> set evs. t0 \<le> now \<and> now \<le> t0 + HISTORY_UPLOAD_TTL_MS \<and> (s = sid \<longrightarrow> m' = m)
    \<Longrightarrow> inOrder cs k (ownChunks sid evs)
    \<Longrightarrow> card (insert sid (set (mkeys st) \<union> fst ` set evs)) \<le> MAX_PENDING_HISTORY_SESSIONS
    \<Longrightarrow> tracks m cs t0 sid (length cs) (uploads evs st)"
proof (induction evs arbitrary: k st)
  case Nil
  then show ?case by (simp add: uploads_def)
next
  case (Cons ev evs)
  obtain s m' c now where ev: "ev = (s, m', c, now)" by (cases ev)
  obtain st' r where p: "putHistory s m' c now st = (st', r)" by fastforce
  note fr = putHistory_frame [OF p Cons.prems(2)]
  have u: "uploads (ev # evs) st = uploads evs st'" by (simp add: uploads_def ev p)
  have times: "t0 \<le> now" "now \<le> t0 + HISTORY_UPLOAD_TTL_MS" and own: "s = sid \<Longrightarrow> m' = m" using Cons.prems(3) by (auto simp: ev)
  let ?U = "insert sid (set (mkeys st) \<union> fst ` set (ev # evs))"
  have "insert sid (set (mkeys st') \<union> fst ` set evs) \<subseteq> ?U" using fr(2) by (auto simp: ev)
  then have "card (insert sid (set (mkeys st') \<union> fst ` set evs)) \<le> card ?U" by (intro card_mono) auto
  then have room': "card (insert sid (set (mkeys st') \<union> fst ` set evs)) \<le> MAX_PENDING_HISTORY_SESSIONS" using Cons.prems(5) by linarith
  have rest: "tracks m cs t0 sid (length cs) (uploads evs st')"
    if "tracks m cs t0 sid k' st'" "inOrder cs k' (ownChunks sid evs)" for k'
    using Cons.IH [OF that(1) fr(3) _ that(2) room'] Cons.prems(3) by auto
  show ?case
  proof (cases "s = sid")
    case False
    have "mget st' sid = mget (purgeExpired now st) sid" using fr(1) False by simp
    then have "tracks m cs t0 sid k st'" using tracks_purge [OF Cons.prems(1) times(2)] by (simp add: tracks_def)
    then show ?thesis unfolding u using rest [of k] Cons.prems(4) False by (simp add: ev)
  next
    case True
    obtain k' where k': "k < length cs \<and> c = cs ! k \<and> k' = Suc k \<or> c \<in> set (take k cs) \<and> k' = k"
      "inOrder cs k' (ownChunks sid evs)"
      using Cons.prems(4) True by (auto simp: ev)
    have "length (purgeExpired now st) < MAX_PENDING_HISTORY_SESSIONS \<or> mhas (purgeExpired now st) sid"
    proof (cases "mhas (purgeExpired now st) sid")
      case False
      then have "sid \<notin> set (mkeys (purgeExpired now st))" by (simp add: set_mkeys mhas_def)
      moreover have "insert sid (set (mkeys (purgeExpired now st))) \<subseteq> ?U" using purge_keys(1) by auto
      then have "card (insert sid (set (mkeys (purgeExpired now st)))) \<le> MAX_PENDING_HISTORY_SESSIONS"
        using Cons.prems(5) by (meson List.finite_set card_mono finite.insertI finite_UnI finite_imageI le_trans)
      ultimately have "card (set (mkeys (purgeExpired now st))) < MAX_PENDING_HISTORY_SESSIONS" by simp
      then show ?thesis using distinct_card [OF purge_keys(2) [OF Cons.prems(2)]] by (simp add: mkeys_def)
    qed simp
    from putHistory_own [OF good Cons.prems(1) times k'(1) this] have "tracks m cs t0 sid k' st'" using own True p by simp
    then show ?thesis unfolding u by (rule rest [OF _ k'(2)])
  qed
qed

lemma goodChunks_build:
  assumes law: "shaLaw sha" and b: "buildRecentTransactionHistory sha numStr ts = Inr b" and ok: "manifestOk (bhManifest b)"
  shows "goodChunks (bhManifest b) (bhChunks b)"
proof -
  note f = build_Inr [OF b]
  let ?fs = "fragments (historyPayload numStr ts)"
  have len: "length (bhChunks b) = length ?fs" by (simp add: f(3))
  have nth: "bhChunks b ! i = chunkOf sha i (?fs ! i)" if "i < length (bhChunks b)" for i
    using that by (simp add: f(3) nth_enumerate_eq)
  have "chunkOk (bhChunks b ! i) \<and> hcIndex (bhChunks b ! i) = int i" if i: "i < length (bhChunks b)" for i
  proof -
    have "?fs ! i \<noteq> [] \<and> length (?fs ! i) \<le> RECENT_TRANSACTION_HISTORY_CHUNK_BYTES"
      using fragments_sizes [OF nth_mem [of i ?fs]] i len by simp
    moreover have "int i \<le> MAX_SAFE_INTEGER" using i f(7) ok by (simp add: manifestOk_def)
    ultimately show ?thesis using chunkOk_chunkOf [OF law] by (simp add: nth [OF i] chunkOf_def)
  qed
  moreover have "sum_list (map hcByteLength (map (\<lambda>(i, f). chunkOf sha i f) (enumerate j fs))) = int (length (concat fs))" for j fs
    by (induction fs arbitrary: j) (simp_all add: chunkOf_def)
  from this [of 0 ?fs] have "sum_list (map hcByteLength (bhChunks b)) = hmByteLength (bhManifest b)"
    unfolding f(3) f(6) concat_fragments .
  ultimately show ?thesis using ok f(7) by (simp add: goodChunks_def)
qed

lemma uploads_others:
  "ownChunks sid evs = [] \<Longrightarrow> distinct (mkeys st) \<Longrightarrow> mget st sid = None \<Longrightarrow> mget (uploads evs st) sid = None"
proof (induction evs arbitrary: st)
  case (Cons ev evs)
  obtain s m c now where ev: "ev = (s, m, c, now)" by (cases ev)
  obtain st' r where p: "putHistory s m c now st = (st', r)" by fastforce
  have s: "s \<noteq> sid" "ownChunks sid evs = []" using Cons.prems(1) by (auto simp: ev split: if_splits)
  have "mget st' sid = None" "distinct (mkeys st')"
    using putHistory_frame [OF p Cons.prems(2)] s(1) mget_purge_None [OF Cons.prems(3)] by simp_all
  from Cons.IH [OF s(2) this(2,1)] show ?case by (simp add: uploads_def ev p)
qed (simp add: uploads_def)

lemma inOrder_Nil: "inOrder [] 0 es \<Longrightarrow> es = []"
  by (cases es) auto

lemma accept_inline:
  assumes "mget st (ctSessionId v) = None" "addHistoryFenceIssue sha numStr True v = Inr ()"
  shows "snd (acceptCrawlHistory sha numStr v t st) = Inr (v, False)"
proof -
  have "addHistoryFenceIssue sha numStr False v = Inr ()" "ctManifest v = None \<or> ctTransactions v \<noteq> None"
    using assms(2) by (auto simp: addHistoryFenceIssue_def split: option.splits if_splits)
  then show ?thesis using assms mget_purge_None [OF assms(1), of t]
    by (auto simp: acceptCrawlHistory_def hasUploadState_def hydrateCrawlRequestTransactionHistory_def Let_def mhas_def split: option.splits)
qed

lemma historyPosts_Inr:
  assumes "historyPosts sha numStr request = Inr (posts, wire)"
  obtains (inline) "posts = []" "wire = request" "addHistoryFenceIssue sha numStr True request = Inr ()"
  | (external) ts m b where "ctTransactions request = Some ts" "ctManifest request = Some m"
      "assertRecentTransactionHistory sha numStr ts m = Inr b" "posts = map (Pair (bhManifest b)) (bhChunks b)"
      "bhChunks b \<noteq> []" "wire = request\<lparr>ctTransactions := None\<rparr>"
proof (cases "ctTransactions request")
  case None
  then show thesis using assms inline by (auto simp: historyPosts_def addHistoryFenceIssue_def split: if_splits)
next
  case (Some ts)
  then obtain m where m: "ctManifest request = Some m" using assms by (auto simp: historyPosts_def split: option.splits)
  with Some obtain b where b: "assertRecentTransactionHistory sha numStr ts m = Inr b"
    using assms by (auto simp: historyPosts_def split: sum.splits)
  show thesis
  proof (cases "length (bhChunks b) > 1")
    case True
    then have "posts = map (Pair (bhManifest b)) (bhChunks b)" "wire = request\<lparr>ctTransactions := None\<rparr>" "bhChunks b \<noteq> []"
      using assms Some m b by (auto simp: historyPosts_def)
    then show thesis using external Some m b by blast
  next
    case False
    then show thesis using assms Some m b inline by (auto simp: historyPosts_def addHistoryFenceIssue_def)
  qed
qed

lemma accept_external:
  assumes h: "mget st (ctSessionId wire) = Some h" "phManifest h = m" "phChunks h = cs" "phInvalidReason h = None"
      "t - HISTORY_UPLOAD_TTL_MS \<le> phUpdatedAt h"
    and wire: "ctManifest wire = Some m" "ctTransactions wire = None"
    and cs: "manifestOk m" "hmChunkCount m = int (length cs)" "reassembleRecentTransactionHistory sha m cs = Inr ts"
      "assertRecentTransactionHistory sha numStr ts m = Inr b"
  shows "snd (acceptCrawlHistory sha numStr wire t st) = Inr (wire\<lparr>ctTransactions := Some ts\<rparr>, True)"
proof -
  let ?st = "purgeExpired t st"
  have k: "mget ?st (ctSessionId wire) = Some h" "mget (purgeExpired t ?st) (ctSessionId wire) = Some h"
    using mget_purge_Some [OF _ h(5)] h(1) by blast+
  have "recentTransactionHistoryManifestsEqual m m = Inr True"
    using cs(1) by (simp add: recentTransactionHistoryManifestsEqual_def sameManifest_def safeHexEqual_iff manifestOk_def)
  then have "consumeHistory (ctSessionId wire) m t ?st = (purgeExpired t ?st, Inr cs)"
    using k(2) h cs(1,2) by (simp add: consumeHistory_def Let_def)
  moreover have "hydrateCrawlRequestTransactionHistory sha numStr wire cs = Inr (wire\<lparr>ctTransactions := Some ts\<rparr>)"
    using wire cs(3,4) by (simp add: hydrateCrawlRequestTransactionHistory_def addHistoryFenceIssue_def)
  ultimately show ?thesis using wire k(1)
    by (simp add: acceptCrawlHistory_def hasUploadState_def Let_def mhas_def addHistoryFenceIssue_def)
qed

lemma length_concat_ge: "(\<And>x. x \<in> set xs \<Longrightarrow> x \<noteq> []) \<Longrightarrow> length xs \<le> length (concat xs)"
proof (induction xs)
  case (Cons x xs)
  then have "0 < length x" "length xs \<le> length (concat xs)" by auto
  then show ?case by (simp only: length_Cons concat.simps length_append)
qed simp

text \<open>The bytes whose digest the engine compares with the manifest of a request.\<close>

definition carried :: "byte_hash \<Rightarrow> (rat \<Rightarrow> string) \<Rightarrow> crawl_transport \<Rightarrow> history_store \<Rightarrow> byte list \<Rightarrow> bool" where
  "carried sha numStr parsed st bytes =
     (case ctTransactions parsed of
        Some us \<Rightarrow> bytes = historyPayload numStr us
      | None \<Rightarrow> (\<exists>(i, h) \<in> set st. i = ctSessionId parsed \<and> decodeChunks sha 0 (phChunks h) = Inr bytes))"

lemma mget_purge_in: "mget (purgeExpired now st) s = Some h \<Longrightarrow> (s, h) \<in> set st"
  by (induction st) (auto simp: purgeExpired_def mget_Cons split: if_splits)

lemma map_sum_Inr: "map_sum f g x = Inr y \<longleftrightarrow> (\<exists>z. x = Inr z \<and> y = g z)"
  by (cases x) auto

lemma accept_Inr:
  assumes acc: "acceptCrawlHistory sha numStr parsed t st = (st', Inr (r, used))"
  shows "addHistoryFenceIssue sha numStr True r = Inr ()"
    "ctTransactions parsed = None \<Longrightarrow> ctManifest parsed = Some m \<Longrightarrow>
       \<exists>h us. (ctSessionId parsed, h) \<in> set st \<and> used \<and> reassembleRecentTransactionHistory sha m (phChunks h) = Inr us
         \<and> r = parsed\<lparr>ctTransactions := Some us\<rparr>"
    "ctTransactions parsed \<noteq> None \<or> ctManifest parsed = None \<Longrightarrow> r = parsed \<and> \<not> used"
proof -
  obtain st2 chunks where h: "hydrateCrawlRequestTransactionHistory sha numStr parsed chunks = Inr r"
    using acc by (auto simp: acceptCrawlHistory_def Let_def map_sum_Inr split: sum.splits prod.splits if_splits)
  then show "addHistoryFenceIssue sha numStr True r = Inr ()"
    by (auto simp: hydrateCrawlRequestTransactionHistory_def Let_def map_sum_Inr split: sum.splits option.splits if_splits)
  show "r = parsed \<and> \<not> used" if "ctTransactions parsed \<noteq> None \<or> ctManifest parsed = None"
    using that acc by (auto simp: acceptCrawlHistory_def hasUploadState_def hydrateCrawlRequestTransactionHistory_def Let_def map_sum_Inr
        split: sum.splits option.splits if_splits)
  assume ext: "ctTransactions parsed = None" "ctManifest parsed = Some m"
  let ?st = "purgeExpired t st"
  obtain h where h: "mget (purgeExpired t ?st) (ctSessionId parsed) = Some h" "consumeHistory (ctSessionId parsed) m t ?st = (purgeExpired t ?st, Inr (phChunks h))"
    using acc ext by (auto simp: acceptCrawlHistory_def hasUploadState_def consumeHistory_def Let_def split: sum.splits option.splits if_splits)
  have in1: "(ctSessionId parsed, h) \<in> set ?st" using mget_purge_in [OF h(1)] .
  then have "(ctSessionId parsed, h) \<in> set st" by (auto simp: purgeExpired_def)
  moreover have "mhas ?st (ctSessionId parsed)" using in1 by (auto simp: mhas_def mget_def dest: weak_map_of_SomeI)
  ultimately show "\<exists>h us. (ctSessionId parsed, h) \<in> set st \<and> used \<and> reassembleRecentTransactionHistory sha m (phChunks h) = Inr us
         \<and> r = parsed\<lparr>ctTransactions := Some us\<rparr>"
    using acc ext h(2) by (auto simp: acceptCrawlHistory_def hasUploadState_def hydrateCrawlRequestTransactionHistory_def Let_def map_sum_Inr
        split: sum.splits option.splits if_splits)
qed

section \<open>The store in every reachable state\<close>

inductive history_step :: "history_store \<Rightarrow> history_store \<Rightarrow> bool" where
  put: "putHistory sid m c now st = (st', r) \<Longrightarrow> history_step st st'"
| accept: "acceptCrawlHistory sha numStr v now st = (st', r') \<Longrightarrow> history_step st st'"
| discard: "history_step st (discardHistory sid st)"

definition historyOk :: "pending_history \<Rightarrow> bool" where
  "historyOk h =
     (map hcIndex (phChunks h) = map int [0..<length (phChunks h)] \<and> int (length (phChunks h)) \<le> hmChunkCount (phManifest h)
      \<and> sum_list (map hcByteLength (phChunks h)) \<le> hmByteLength (phManifest h) \<and> list_all chunkOk (phChunks h)
      \<and> manifestOk (phManifest h))"

definition historyInv :: "history_store \<Rightarrow> bool" where
  "historyInv st =
     (distinct (mkeys st) \<and> length st \<le> MAX_PENDING_HISTORY_SESSIONS \<and> (\<forall>i h. mget st i = Some h \<longrightarrow> historyOk h))"

lemma historyInv_purge: "historyInv st \<Longrightarrow> historyInv (purgeExpired now st)"
proof -
  assume inv: "historyInv st"
  have "length (purgeExpired now st) \<le> length st" by (simp add: purgeExpired_def)
  moreover have "mget st i = Some h" if "mget (purgeExpired now st) i = Some h" for i h
    using mget_purge_in [OF that] inv by (simp add: historyInv_def mget_def mkeys_def)
  ultimately show ?thesis using inv purge_keys(2) [of st now] unfolding historyInv_def by (meson le_trans)
qed

lemma historyInv_mput:
  "historyInv st \<Longrightarrow> historyOk h \<Longrightarrow> mhas st s \<or> length st < MAX_PENDING_HISTORY_SESSIONS \<Longrightarrow> historyInv (mput s h st)"
  by (auto simp: historyInv_def length_mput)

lemma historyOk_frame:
  "phManifest h' = phManifest h \<Longrightarrow> phChunks h' = phChunks h \<Longrightarrow> historyOk h' = historyOk h"
  by (simp add: historyOk_def)

lemma historyInv_add:
  assumes inv: "historyInv st" "mhas st s" and h: "historyOk h" "hmByteLength (phManifest h) = hmByteLength m"
      "hmChunkCount (phManifest h) = hmChunkCount m" "chunkOk c"
    and add: "addChunk s m c now h st = (st', r)"
  shows "historyInv st'"
proof -
  have bad: "historyInv (fst (invalidate s reason now h st))" for reason
    unfolding invalidate_def fst_conv using inv h(1) by (intro historyInv_mput) (auto simp: historyOk_def)
  have same: "historyInv (mput s (h\<lparr>phUpdatedAt := now\<rparr>) st)"
    using inv h(1) by (intro historyInv_mput) (auto simp: historyOk_def)
  have more: "historyInv (mput s (h\<lparr>phChunks := phChunks h @ [c], phUpdatedAt := now\<rparr>) st)"
    if "hcIndex c = int (length (phChunks h))" "\<not> hcIndex c \<ge> hmChunkCount m"
      "\<not> sum_list (map hcByteLength (phChunks h)) + hcByteLength c > hmByteLength m"
    using inv h that by (intro historyInv_mput) (auto simp: historyOk_def)
  show ?thesis using add bad same more unfolding addChunk_def
    by (auto split: if_splits simp: surjective_pairing) (metis fst_conv)+
qed

lemma historyInv_put:
  assumes inv: "historyInv st" and put: "putHistory s m c now st = (st', r)"
  shows "historyInv st'"
proof -
  let ?st = "purgeExpired now st"
  have inv': "historyInv ?st" by (rule historyInv_purge [OF inv])
  show ?thesis
  proof (cases "manifestOk m \<and> chunkOk c")
    case False
    then show ?thesis using put inv' by (auto simp: putHistory_def Let_def split: if_splits)
  next
    case ok: True
    show ?thesis
    proof (cases "mget ?st s")
      case None
      let ?h = "\<lparr>phManifest = m, phChunks = [], phInvalidReason = None, phUpdatedAt = now\<rparr>"
      have h: "historyOk ?h" using ok by (simp add: historyOk_def manifestOk_def)
      show ?thesis
      proof (cases "length ?st \<ge> MAX_PENDING_HISTORY_SESSIONS")
        case True
        then show ?thesis using put inv' ok None by (simp add: putHistory_def Let_def)
      next
        case False
        then have "historyInv (mput s ?h ?st)" using inv' h by (intro historyInv_mput) auto
        then show ?thesis using historyInv_add [of "mput s ?h ?st" s ?h m c now st' r] put ok None False h
          by (simp add: putHistory_def Let_def mhas_def)
      qed
    next
      case (Some h)
      have ho: "historyOk h" using inv' Some by (simp add: historyInv_def)
      have bad: "historyInv (mput s (h\<lparr>phInvalidReason := Some reason, phUpdatedAt := now\<rparr>) ?st)" for reason
        using inv' ho Some by (intro historyInv_mput) (auto simp: historyOk_def mhas_def)
      show ?thesis
        using put ok Some inv' bad historyInv_add [OF inv' _ ho, of s m c now st' r]
        by (auto simp: putHistory_def Let_def mhas_def invalidate_def recentTransactionHistoryManifestsEqual_def sameManifest_def
            split: if_splits)
    qed
  qed
qed

lemma historyInv_accept:
  assumes "historyInv st" "acceptCrawlHistory sha numStr v now st = (st', r)"
  shows "historyInv st'"
  using assms historyInv_purge [of st now] historyInv_purge [of "purgeExpired now st" now] historyInv_purge
  by (auto simp: acceptCrawlHistory_def hasUploadState_def consumeHistory_def Let_def split: sum.splits prod.splits if_splits)

lemma historyInv_discard: "historyInv st \<Longrightarrow> historyInv (discardHistory s st)"
proof -
  have "length (mdel s st) \<le> length st" by (simp add: mdel_def AList.delete_eq)
  then show "historyInv st \<Longrightarrow> historyInv (discardHistory s st)" by (auto simp: historyInv_def discardHistory_def split: if_splits)
qed

interpretation history: safety_invariant "\<lambda>st. st = []" history_step historyInv
proof
  show "st = [] \<Longrightarrow> historyInv st" for st by (simp add: historyInv_def mkeys_def mget_def)
  show "historyInv s \<Longrightarrow> history_step s t \<Longrightarrow> historyInv t" for s t
    by (auto elim!: history_step.cases intro: historyInv_put historyInv_accept historyInv_discard)
qed

section \<open>Properties\<close>


text \<open>A history that does not fit into one fragment.\<close>

definition demoTx :: "nat \<Rightarrow> recent_transaction" where
  "demoTx n =
     \<lparr>hxProviderAccountId = ''a'', hxProviderTransactionId = ''t'', hxBookingDate = ''2024-01-02'', hxAmount = Fin 5,
      hxCurrency = ''EUR'', hxDescription = replicate n (CHR ''x''), hxIsPending = False\<rparr>"

definition zeroSha :: byte_hash where
  "zeroSha b = replicate 32 0"

lemma zeroSha_law: "shaLaw zeroSha"
  by (simp add: shaLaw_def zeroSha_def)

lemma demo_readable: "amountsReadable numStr [demoTx n]"
proof -
  have "readsAs (show_int 5) (JNum (Fin (of_int 5)))" by (rule readsAs_int) simp
  then show ?thesis by (simp add: amountsReadable_def demoTx_def numText_def)
qed

lemma demo_length: "length (historyPayload numStr [demoTx n]) = n + length (historyPayload numStr [demoTx 0])"
proof -
  let ?m = memberText
  let ?A = "''[{'' @ join '','' [?m ''providerAccountId'' (quote ''a''), ?m ''providerTransactionId'' (quote ''t''),
      ?m ''bookingDate'' (quote ''2024-01-02''), ?m ''amount'' (numText numStr 5), ?m ''currency'' (quote ''EUR'')]
      @ '','' @ quote ''description'' @ '':''" and ?C = "'','' @ ?m ''isPending'' ''false'' @ ''}]''"
  have written: "stringify numStr (JArr (map recentTxJson [demoTx k])) = ?A @ quote (replicate k (CHR ''x'')) @ ?C" for k
    by (simp add: recentTxJson_def demoTx_def memberText_def)
  have app: "utf8 (x @ y) = utf8 x @ utf8 y" for x y by (simp add: utf8_def)
  have "length (utf8 (quote (replicate k (CHR ''x'')))) = k + length (utf8 (quote []))" for k
  proof -
    have "length (utf8 (concat (map esc (replicate k (CHR ''x''))))) = k"
    proof (induction k)
      case (Suc k)
      moreover have "length (utf8 (esc (CHR ''x''))) = 1" by code_simp
      ultimately show ?case by (simp add: app)
    qed (simp add: utf8_def)
    then show ?thesis unfolding quote_def app by (simp add: utf8_def)
  qed
  then show ?thesis unfolding historyPayload_def written app length_append by simp
qed

lemma demo_length0: "length (historyPayload (\<lambda>_. []) [demoTx 0]) < 1000"
  by code_simp

lemma demo_posts:
  assumes n: "n = 200000"
  obtains b where "buildRecentTransactionHistory zeroSha (\<lambda>_. []) [demoTx n] = Inr b" "manifestOk (bhManifest b)" "length (bhChunks b) > 1"
proof -
  let ?p = "historyPayload (\<lambda>_. []) [demoTx n]"
  have len: "length ?p > RECENT_TRANSACTION_HISTORY_CHUNK_BYTES" "length ?p < 201000"
    using demo_length [of "\<lambda>_. []" n] demo_length0 n by (simp_all add: RECENT_TRANSACTION_HISTORY_CHUNK_BYTES_def)
  then have two: "length (fragments ?p) > 1"
    by (subst fragments.simps) (auto simp: RECENT_TRANSACTION_HISTORY_CHUNK_BYTES_def intro: Suc_leI)
  then have "fragments ?p \<noteq> []" by (intro notI) simp
  moreover have "orderRecentTransactions [demoTx n] = Inr [demoTx n]" by (simp add: orderRecentTransactions_def demoTx_def isFinite_def)
  moreover have "enumerate 0 (fragments ?p) \<noteq> []" using two by (metis length_0_conv length_enumerate not_less_zero)
  ultimately have "\<not> isl (buildRecentTransactionHistory zeroSha (\<lambda>_. []) [demoTx n])"
    by (simp add: buildRecentTransactionHistory_def Let_def)
  then obtain b where b: "buildRecentTransactionHistory zeroSha (\<lambda>_. []) [demoTx n] = Inr b"
    by (cases "buildRecentTransactionHistory zeroSha (\<lambda>_. []) [demoTx n]") auto
  note f = build_Inr [OF b]
  have "length (fragments ?p) \<le> length (concat (fragments ?p))"
    using fragments_sizes [of _ ?p] by (intro length_concat_ge) auto
  then have few: "length (bhChunks b) < 201000" using len(2) by (simp add: f(3))
  have "manifestOk (bhManifest b)"
    using two len few SHA256_HEX_of [OF zeroSha_law] by (auto simp: manifestOk_def f(5-9) MAX_SAFE_INTEGER_def f(3) RECENT_TRANSACTION_HISTORY_CHUNK_BYTES_def)
  with that b two show thesis by (simp add: f(3))
qed


text \<open>
  C21: A crawl starts with the history that the manifest in its request was made for, or not at all: whatever was
  uploaded before and by whom, an accepted request carries exactly the transactions, in their order, whose manifest
  it shows, if their digest is not shared by other bytes that were carried.
\<close>

theorem accepted_history_is_genuine:
  assumes acc: "acceptCrawlHistory sha numStr parsed t st = (st', Inr (r, used))"
    and b: "buildRecentTransactionHistory sha numStr ts = Inr b" "ctManifest parsed = Some (bhManifest b)"
    and nums: "amountsReadable numStr ts" "\<forall>us. ctTransactions parsed = Some us \<longrightarrow> amountsReadable numStr us"
    and unique: "\<forall>bytes. carried sha numStr parsed st bytes \<longrightarrow> sha bytes = sha (historyPayload numStr ts) \<longrightarrow> bytes = historyPayload numStr ts"
  shows "r = parsed\<lparr>ctTransactions := Some ts\<rparr> \<and> (used \<longleftrightarrow> ctTransactions parsed = None)"
proof -
  note f = build_Inr [OF b(1)]
  have reads: "parseAllTx js = Some us \<Longrightarrow> us = ts"
    if "Option.bind (utf8_decode bytes) jsonParse = Some (JArr js)" "bytes = historyPayload numStr ts" for bytes js us
    using that payload_reads [OF nums(1)] parseAllTx_map [OF f(2)] by simp
  show ?thesis
  proof (cases "ctTransactions parsed")
    case None
    then obtain h us where h: "(ctSessionId parsed, h) \<in> set st" "used"
      "reassembleRecentTransactionHistory sha (bhManifest b) (phChunks h) = Inr us" "r = parsed\<lparr>ctTransactions := Some us\<rparr>"
      using accept_Inr(2) [OF acc None b(2)] by blast
    obtain payload js where p: "decodeChunks sha 0 (phChunks h) = Inr payload" "to_hex (sha payload) = hmSha256 (bhManifest b)"
      "Option.bind (utf8_decode payload) jsonParse = Some (JArr js)" "parseAllTx js = Some us"
      using reassemble_Inr [OF h(3)] by metis
    have "carried sha numStr parsed st payload" using None h(1) p(1) by (auto simp: carried_def)
    then have "payload = historyPayload numStr ts" using unique p(2) f(8) to_hex_inject by metis
    then have "us = ts" using reads p(3,4) by blast
    with h None show ?thesis by simp
  next
    case (Some us)
    then have r: "r = parsed" "\<not> used" using accept_Inr(3) [OF acc] by auto
    then obtain b' where "assertRecentTransactionHistory sha numStr us (bhManifest b) = Inr b'"
      using accept_Inr(1) [OF acc] Some b(2) by (auto simp: addHistoryFenceIssue_def map_sum_Inr)
    note a = assert_Inr [OF this]
    have "sha (historyPayload numStr us) = sha (historyPayload numStr ts)"
      using build_Inr(8) [OF a(2)] f(8) a(3) to_hex_inject by metis
    then have "historyPayload numStr us = historyPayload numStr ts" using unique Some by (simp add: carried_def)
    then have "us = ts"
      using reads payload_reads [of numStr us] nums(2) Some parseAllTx_map [OF build_Inr(2) [OF a(2)]] by metis
    with r Some show ?thesis by simp
  qed
qed

lemma demo_upload:
  obtains b h where "buildRecentTransactionHistory zeroSha (\<lambda>_. []) [demoTx 3] = Inr b"
    "bhChunks b = [chunkOf zeroSha 0 (historyPayload (\<lambda>_. []) [demoTx 3])]" "manifestOk (bhManifest b)"
    "mget (uploads [(''s'', bhManifest b, chunkOf zeroSha 0 (historyPayload (\<lambda>_. []) [demoTx 3]), 0)] []) ''s'' = Some h"
    "phManifest h = bhManifest b" "phChunks h = bhChunks b" "phInvalidReason h = None" "0 \<le> phUpdatedAt h"
proof -
  let ?p = "historyPayload (\<lambda>_. []) [demoTx 3]"
  have p: "?p \<noteq> []" "length ?p \<le> RECENT_TRANSACTION_HISTORY_CHUNK_BYTES" "length ?p < 2000"
    using demo_length [of "\<lambda>_. []" 3] demo_length0 by (auto simp: RECENT_TRANSACTION_HISTORY_CHUNK_BYTES_def)
  then have one: "fragments ?p = [?p]" by (subst fragments.simps) simp
  have "\<not> isl (buildRecentTransactionHistory zeroSha (\<lambda>_. []) [demoTx 3])"
    by (simp add: buildRecentTransactionHistory_def orderRecentTransactions_def demoTx_def isFinite_def Let_def one [unfolded demoTx_def])
  then obtain b where b: "buildRecentTransactionHistory zeroSha (\<lambda>_. []) [demoTx 3] = Inr b"
    by (cases "buildRecentTransactionHistory zeroSha (\<lambda>_. []) [demoTx 3]") auto
  note f = build_Inr [OF b]
  let ?m = "bhManifest b" and ?c = "chunkOf zeroSha 0 ?p"
  have c: "bhChunks b = [?c]" by (simp add: f(3) one)
  have ok: "manifestOk ?m" using p SHA256_HEX_of [OF zeroSha_law] by (simp add: manifestOk_def f(5-9) c MAX_SAFE_INTEGER_def)
  have good: "goodChunks ?m [?c]" using goodChunks_build [OF zeroSha_law b ok] c by simp
  have "tracks ?m [?c] 0 ''s'' (length [?c]) (uploads [(''s'', ?m, ?c, 0)] [])"
    by (rule tracks_uploads [OF good, where k = 0])
      (simp_all add: tracks_def mget_def mkeys_def HISTORY_UPLOAD_TTL_MS_def MAX_PENDING_HISTORY_SESSIONS_def)
  then obtain h where "mget (uploads [(''s'', ?m, ?c, 0)] []) ''s'' = Some h" "phManifest h = ?m" "phChunks h = [?c]"
      "phInvalidReason h = None" "0 \<le> phUpdatedAt h"
    by (auto simp: tracks_def split: option.splits)
  with that b c ok show thesis by simp
qed

theorem accepted_history_is_genuine_witness:
  "\<exists>b c st'. buildRecentTransactionHistory zeroSha (\<lambda>_. []) [demoTx 3] = Inr b \<and> bhChunks b = [c]
     \<and> acceptCrawlHistory zeroSha (\<lambda>_. []) \<lparr>ctSessionId = ''s'', ctTransactions = None, ctManifest = Some (bhManifest b)\<rparr> 1
           (uploads [(''s'', bhManifest b, c, 0)] [])
         = (st', Inr (\<lparr>ctSessionId = ''s'', ctTransactions = Some [demoTx 3], ctManifest = Some (bhManifest b)\<rparr>, True))"
proof -
  let ?p = "historyPayload (\<lambda>_. []) [demoTx 3]"
  let ?c = "chunkOf zeroSha 0 ?p"
  obtain b h where b: "buildRecentTransactionHistory zeroSha (\<lambda>_. []) [demoTx 3] = Inr b" "bhChunks b = [?c]" "manifestOk (bhManifest b)"
    and h: "mget (uploads [(''s'', bhManifest b, ?c, 0)] []) ''s'' = Some h" "phManifest h = bhManifest b" "phChunks h = bhChunks b"
      "phInvalidReason h = None" "0 \<le> phUpdatedAt h" by (rule demo_upload)
  let ?m = "bhManifest b"
  let ?st = "uploads [(''s'', ?m, ?c, 0)] []" and ?w = "\<lparr>ctSessionId = ''s'', ctTransactions = None, ctManifest = Some ?m\<rparr> :: crawl_transport"
  have re: "reassembleRecentTransactionHistory zeroSha ?m (bhChunks b) = Inr [demoTx 3]"
    using reassemble_build [OF zeroSha_law demo_readable b(1,3)] .
  have as: "assertRecentTransactionHistory zeroSha (\<lambda>_. []) [demoTx 3] ?m = Inr b"
    using b(1,3) by (simp add: assertRecentTransactionHistory_def sameManifest_def safeHexEqual_iff manifestOk_def)
  have "snd (acceptCrawlHistory zeroSha (\<lambda>_. []) ?w 1 ?st) = Inr (?w\<lparr>ctTransactions := Some [demoTx 3]\<rparr>, True)"
    by (rule accept_external [OF _ h(2-4) _ _ _ b(3) _ re as]) (use h build_Inr(7) [OF b(1)] in \<open>simp_all add: HISTORY_UPLOAD_TTL_MS_def\<close>)
  then obtain st' r used where acc: "acceptCrawlHistory zeroSha (\<lambda>_. []) ?w 1 ?st = (st', Inr (r, used))"
    by (cases "acceptCrawlHistory zeroSha (\<lambda>_. []) ?w 1 ?st") auto
  have "distinct (mkeys ?st)"
    using putHistory_frame(3) [of "''s''" ?m ?c 0 "[]"] by (cases "putHistory ''s'' ?m ?c 0 []") (simp add: uploads_def mkeys_def)
  then have "(''s'', h') \<in> set ?st \<Longrightarrow> h' = h" for h' using h(1) by (auto simp: mget_def mkeys_def)
  moreover have "decodeChunks zeroSha 0 (bhChunks b) = Inr ?p"
  proof -
    obtain payload js where "decodeChunks zeroSha 0 (bhChunks b) = Inr payload" using reassemble_Inr [OF re] by metis
    moreover have "base64_decode (hcData ?c) = ?p" by (simp add: chunkOf_def)
    ultimately show ?thesis by (auto simp: b(2) Let_def split: if_splits)
  qed
  ultimately have only: "carried zeroSha (\<lambda>_. []) ?w ?st bytes \<Longrightarrow> bytes = ?p" for bytes using h(3) by (auto simp: carried_def)
  have "r = ?w\<lparr>ctTransactions := Some [demoTx 3]\<rparr> \<and> (used \<longleftrightarrow> ctTransactions ?w = None)"
    by (rule accepted_history_is_genuine [OF acc b(1)]) (use only in \<open>simp_all add: demo_readable\<close>)
  with acc b show ?thesis by (intro exI [of _ b] exI [of _ ?c] exI [of _ st']) simp
qed

text \<open>
  Whatever is posted, the upload store holds at most 64 histories, each an unbroken sequence of valid
  fragments from the first on, never more of them and never more bytes than the manifest it began with declares.
\<close>

theorem upload_store_bounded:
  assumes "history_step\<^sup>*\<^sup>* [] st"
  shows "length st \<le> MAX_PENDING_HISTORY_SESSIONS
    \<and> (\<forall>sid h. mget st sid = Some h \<longrightarrow>
         map hcIndex (phChunks h) = map int [0..<length (phChunks h)] \<and> list_all chunkOk (phChunks h)
         \<and> int (length (phChunks h)) \<le> hmChunkCount (phManifest h)
         \<and> sum_list (map hcByteLength (phChunks h)) \<le> hmByteLength (phManifest h))"
  using history.reachable_inv [OF refl assms] by (auto simp: historyInv_def historyOk_def)

theorem upload_store_bounded_witness:
  "\<exists>st h. history_step\<^sup>*\<^sup>* [] st \<and> mget st ''s'' = Some h \<and> length (phChunks h) = 1
     \<and> sum_list (map hcByteLength (phChunks h)) \<le> hmByteLength (phManifest h)"
proof -
  let ?c = "chunkOf zeroSha 0 (historyPayload (\<lambda>_. []) [demoTx 3])"
  obtain b :: built_history and h where h: "mget (uploads [(''s'', bhManifest b, ?c, 0)] []) ''s'' = Some h" "phChunks h = bhChunks b" "bhChunks b = [?c]"
    by (rule demo_upload) blast
  have "history_step [] (uploads [(''s'', bhManifest b, ?c, 0)] [])"
    using history_step.put [of "''s''" "bhManifest b" ?c 0 "[]"] by (cases "putHistory ''s'' (bhManifest b) ?c 0 []") (simp add: uploads_def)
  then have r: "history_step\<^sup>*\<^sup>* [] (uploads [(''s'', bhManifest b, ?c, 0)] [])" by (rule r_into_rtranclp)
  have "sum_list (map hcByteLength (phChunks h)) \<le> hmByteLength (phManifest h)"
    using conjunct2 [OF upload_store_bounded [OF r]] h(1) by blast
  with r h show ?thesis by (intro exI [of _ "uploads [(''s'', bhManifest b, ?c, 0)] []"] exI [of _ h]) simp
qed

end
