(* ===== verification/JobPayload.thy ===== *)
theory JobPayload
  imports HistoryTransport Cipher
begin

text \<open>
  \<^verbatim>\<open>packages/contracts/src/job-payload.ts\<close>: the sealed envelopes in which a hosted deployment stores a crawl
  request and the fragments of its history until a worker takes them. The nonce is an argument, AES-256-GCM is the
  \<open>crypto\<close> of \<^verbatim>\<open>Cipher\<close>. The schema of a whole request is an argument of the functions that apply it; that of a
  fragment is \<open>parseChunk\<close>.
\<close>

section \<open>Keys and contexts\<close>

definition VERSION :: string where
  "VERSION = ''v1''"

text \<open>\<^verbatim>\<open>replace(/=+$/, '')\<close>\<close>

definition dropPadding :: "string \<Rightarrow> string" where
  "dropPadding s = rev (dropWhile (\<lambda>c. c = CHR ''='') (rev s))"

definition decodeKey :: "string \<Rightarrow> string + byte list" where
  "decodeKey encoded =
     (let key = base64_decode encoded in
      if length key \<noteq> 32 \<or> dropPadding (base64_encode key) \<noteq> dropPadding (trim encoded)
      then Inl ''JOB_ENCRYPTION_KEY must be a canonical base64-encoded 32-byte key'' else Inr key)"

definition aad :: "string \<Rightarrow> string \<Rightarrow> byte list" where
  "aad tenantId jobId = utf8 (''accrawl:crawl-job:'' @ tenantId @ '':'' @ jobId)"

definition historyChunkAad :: "string \<Rightarrow> string \<Rightarrow> int \<Rightarrow> byte list" where
  "historyChunkAad tenantId jobId chunkIndex =
     utf8 (''accrawl:crawl-job-history:'' @ tenantId @ '':'' @ jobId @ '':'' @ show_int chunkIndex)"

section \<open>Envelopes\<close>

definition encryptJson ::
  "crypto \<Rightarrow> (rat \<Rightarrow> string) \<Rightarrow> byte list \<Rightarrow> string \<Rightarrow> byte list \<Rightarrow> json \<Rightarrow> string + string" where
  "encryptJson cy numStr nonce encodedKey associatedData value =
     (case decodeKey encodedKey of
        Inl e \<Rightarrow> Inl e
      | Inr key \<Rightarrow>
          let (ciphertext, tag) = cySeal cy key nonce associatedData (utf8 (stringify numStr value))
          in Inr (join ''.'' [VERSION, b64url_encode nonce, b64url_encode tag, b64url_encode ciphertext]))"

text \<open>A plaintext that \<^verbatim>\<open>utf8_decode\<close> does not cover is outside the model and answered as bad JSON.\<close>

definition decryptJson :: "crypto \<Rightarrow> string \<Rightarrow> byte list \<Rightarrow> string \<Rightarrow> string + json" where
  "decryptJson cy encodedKey associatedData envelope =
     (case split_on (CHR ''.'') envelope of
        [version, noncePart, tagPart, ciphertextPart] \<Rightarrow>
          if version \<noteq> VERSION then Inl ''Unsupported crawl-job payload envelope''
          else let nonce = b64url_decode noncePart; tag = b64url_decode tagPart in
               if length nonce \<noteq> 12 \<or> length tag \<noteq> 16 then Inl ''Malformed crawl-job payload envelope''
               else (case decodeKey encodedKey of
                       Inl e \<Rightarrow> Inl e
                     | Inr key \<Rightarrow>
                         (case cyOpen cy key nonce associatedData (b64url_decode ciphertextPart) tag of
                            None \<Rightarrow> Inl ''Unsupported state or unable to authenticate data''
                          | Some plaintext \<Rightarrow>
                              (case Option.bind (utf8_decode plaintext) jsonParse of
                                 None \<Rightarrow> Inl ''not valid JSON'' | Some v \<Rightarrow> Inr v)))
      | _ \<Rightarrow> Inl ''Unsupported crawl-job payload envelope'')"

definition encryptCrawlJobPayload ::
  "crypto \<Rightarrow> (rat \<Rightarrow> string) \<Rightarrow> byte list \<Rightarrow> string \<Rightarrow> string \<Rightarrow> string \<Rightarrow> json \<Rightarrow> string + string" where
  "encryptCrawlJobPayload cy numStr nonce encodedKey tenantId jobId request =
     encryptJson cy numStr nonce encodedKey (aad tenantId jobId) request"

definition decryptCrawlJobPayload ::
  "crypto \<Rightarrow> (json \<Rightarrow> 'r option) \<Rightarrow> string \<Rightarrow> string \<Rightarrow> string \<Rightarrow> string \<Rightarrow> string + 'r" where
  "decryptCrawlJobPayload cy schema encodedKey tenantId jobId envelope =
     (case decryptJson cy encodedKey (aad tenantId jobId) envelope of
        Inl e \<Rightarrow> Inl e
      | Inr v \<Rightarrow> (case schema v of None \<Rightarrow> Inl ''invalid request'' | Some r \<Rightarrow> Inr r))"

section \<open>Fragments\<close>

definition CHUNK_KEYS :: "string list" where
  "CHUNK_KEYS = [''index'', ''byteLength'', ''sha256'', ''data'']"

definition wholeNumber :: "string \<Rightarrow> jobj \<Rightarrow> int option" where
  "wholeNumber k d = (case mget d k of Some (JNum (Fin q)) \<Rightarrow> if of_int \<lfloor>q\<rfloor> = q then Some \<lfloor>q\<rfloor> else None | _ \<Rightarrow> None)"

definition parseChunk :: "json \<Rightarrow> history_chunk option" where
  "parseChunk j =
     (case j of
        JObj d \<Rightarrow>
          if \<not> set (mkeys d) \<subseteq> set CHUNK_KEYS then None
          else (case (wholeNumber ''index'' d, wholeNumber ''byteLength'' d, str_field ''sha256'' d, str_field ''data'' d) of
                  (Some i, Some n, Some h, Some b) \<Rightarrow>
                    let c = \<lparr>hcIndex = i, hcByteLength = n, hcSha256 = h, hcData = b\<rparr> in if chunkOk c then Some c else None
                | _ \<Rightarrow> None)
      | _ \<Rightarrow> None)"

definition encryptCrawlJobHistoryChunk ::
  "crypto \<Rightarrow> byte list \<Rightarrow> string \<Rightarrow> string \<Rightarrow> string \<Rightarrow> history_chunk \<Rightarrow> string + string" where
  "encryptCrawlJobHistoryChunk cy nonce encodedKey tenantId jobId chunk =
     (if \<not> chunkOk chunk then Inl ''invalid chunk''
      else encryptJson cy (\<lambda>_. []) nonce encodedKey (historyChunkAad tenantId jobId (hcIndex chunk)) (chunkJson chunk))"

definition decryptCrawlJobHistoryChunk ::
  "crypto \<Rightarrow> string \<Rightarrow> string \<Rightarrow> string \<Rightarrow> int \<Rightarrow> string \<Rightarrow> string + history_chunk" where
  "decryptCrawlJobHistoryChunk cy encodedKey tenantId jobId chunkIndex envelope =
     (case decryptJson cy encodedKey (historyChunkAad tenantId jobId chunkIndex) envelope of
        Inl e \<Rightarrow> Inl e
      | Inr v \<Rightarrow>
          (case parseChunk v of
             None \<Rightarrow> Inl ''invalid chunk''
           | Some chunk \<Rightarrow>
               if hcIndex chunk \<noteq> chunkIndex then Inl ''crawl-job history chunk index does not match its envelope''
               else Inr chunk))"

section \<open>Lemmas\<close>

lemma colon_prefix:
  "CHR '':'' \<notin> set a \<Longrightarrow> CHR '':'' \<notin> set b \<Longrightarrow> a @ CHR '':'' # x = b @ CHR '':'' # y \<Longrightarrow> a = b \<and> x = y"
proof (induction a arbitrary: b)
  case Nil
  then show ?case by (cases b) auto
next
  case (Cons c a)
  then show ?case by (cases b) auto
qed

lemma aad_inject:
  "CHR '':'' \<notin> set t \<Longrightarrow> CHR '':'' \<notin> set t' \<Longrightarrow> aad t j = aad t' j' \<Longrightarrow> t = t' \<and> j = j'"
  using colon_prefix [of t t' j j'] utf8_inject by (auto simp: aad_def)

lemma show_int_no_colon: "CHR '':'' \<notin> set (show_int i)"
  using show_int_chars [of "CHR '':''" i] by (auto simp: is_digit_def)

lemma chunkAad_inject:
  assumes t: "CHR '':'' \<notin> set t" "CHR '':'' \<notin> set t'" and eq: "historyChunkAad t j i = historyChunkAad t' j' i'"
  shows "t = t' \<and> j = j' \<and> i = i'"
proof -
  have "t @ CHR '':'' # j @ CHR '':'' # show_int i = t' @ CHR '':'' # j' @ CHR '':'' # show_int i'"
    using utf8_inject eq by (auto simp: historyChunkAad_def)
  then have r: "t = t'" "j @ CHR '':'' # show_int i = j' @ CHR '':'' # show_int i'" using colon_prefix [OF t] by auto
  have "rev (show_int i) @ CHR '':'' # rev j = rev (show_int i') @ CHR '':'' # rev j'"
    using arg_cong [OF r(2), of rev] by simp
  then have "rev (show_int i) = rev (show_int i') \<and> rev j = rev j'" by (rule colon_prefix [rotated 2]) (simp_all add: show_int_no_colon)
  with r(1) show ?thesis by simp
qed

lemma aads_apart: "aad t j \<noteq> historyChunkAad t' j' i"
  using utf8_inject by (fastforce simp: aad_def historyChunkAad_def)

text \<open>What an envelope sealed with one piece of associated data gives when it is opened with another.\<close>

definition opened :: "crypto \<Rightarrow> byte list \<Rightarrow> byte list \<Rightarrow> byte list \<Rightarrow> byte list \<Rightarrow> byte list \<Rightarrow> string + json" where
  "opened cy k nonce a p a' =
     (case cyOpen cy k nonce a' (fst (cySeal cy k nonce a p)) (snd (cySeal cy k nonce a p)) of
        None \<Rightarrow> Inl ''Unsupported state or unable to authenticate data''
      | Some q \<Rightarrow> (case Option.bind (utf8_decode q) jsonParse of None \<Rightarrow> Inl ''not valid JSON'' | Some v \<Rightarrow> Inr v))"

lemma decryptJson_sealed:
  assumes laws: "gcmLaws cy" and nonce: "length nonce = 12" and e: "encryptJson cy numStr nonce key a v = Inr envelope"
  shows "\<exists>k. decodeKey key = Inr k \<and> (\<forall>a'. decryptJson cy key a' envelope = opened cy k nonce a (utf8 (stringify numStr v)) a')"
proof -
  obtain k where k: "decodeKey key = Inr k" using e by (auto simp: encryptJson_def split: sum.splits)
  let ?s = "cySeal cy k nonce a (utf8 (stringify numStr v))"
  have env: "envelope = join ''.'' [VERSION, b64url_encode nonce, b64url_encode (snd ?s), b64url_encode (fst ?s)]"
    using e k by (simp add: encryptJson_def case_prod_unfold Let_def)
  have "split_on (CHR ''.'') envelope = [VERSION, b64url_encode nonce, b64url_encode (snd ?s), b64url_encode (fst ?s)]"
    unfolding env by (rule split_on_join) (simp_all add: VERSION_def)
  moreover have "length (snd ?s) = 16" using laws by (simp add: gcmLaws_def)
  ultimately show ?thesis using nonce k by (simp add: decryptJson_def opened_def Let_def)
qed

lemma decryptJson_same:
  assumes laws: "gcmLaws cy" and nonce: "length nonce = 12" and e: "encryptJson cy numStr nonce key a v = Inr envelope"
    and v: "readable numStr v"
  shows "decryptJson cy key a envelope = Inr v"
proof -
  obtain k where "decryptJson cy key a envelope = opened cy k nonce a (utf8 (stringify numStr v)) a"
    using decryptJson_sealed [OF laws nonce e] by blast
  then show ?thesis using laws parse_readable [OF v] by (simp add: gcmLaws_def opened_def)
qed

text \<open>The same ciphertext and tag under other associated data, for the key, the nonce and the text of one envelope.\<close>

definition forgeable :: "crypto \<Rightarrow> string \<Rightarrow> byte list \<Rightarrow> byte list \<Rightarrow> byte list \<Rightarrow> byte list \<Rightarrow> bool" where
  "forgeable cy key nonce a p a' = (\<exists>k q. decodeKey key = Inr k \<and> a' \<noteq> a \<and> cySeal cy k nonce a' q = cySeal cy k nonce a p)"

lemma decryptJson_other:
  assumes laws: "gcmLaws cy" and nonce: "length nonce = 12" and e: "encryptJson cy numStr nonce key a v = Inr envelope"
    and d: "decryptJson cy key a' envelope = Inr u" "a' \<noteq> a"
  shows "forgeable cy key nonce a (utf8 (stringify numStr v)) a'"
proof -
  let ?p = "utf8 (stringify numStr v)"
  obtain k where k: "decodeKey key = Inr k" "decryptJson cy key a' envelope = opened cy k nonce a ?p a'"
    using decryptJson_sealed [OF laws nonce e] by blast
  let ?s = "cySeal cy k nonce a ?p"
  obtain q where "cyOpen cy k nonce a' (fst ?s) (snd ?s) = Some q" using k(2) d(1) by (auto simp: opened_def split: option.splits)
  then have "fst ?s = fst (cySeal cy k nonce a' q)" "snd ?s = snd (cySeal cy k nonce a' q)"
    using laws unfolding gcmLaws_def by (metis order_refl take_all)+
  then have "cySeal cy k nonce a' q = ?s" by (simp add: prod_eqI)
  with k(1) d(2) show ?thesis unfolding forgeable_def by blast
qed

lemma parse_chunkJson: "chunkOk c \<Longrightarrow> parseChunk (chunkJson c) = Some c"
  by (cases c) (auto simp: parseChunk_def chunkJson_def CHUNK_KEYS_def wholeNumber_def str_field_def mget_def mkeys_def Let_def)

lemma chunk_readable: "chunkOk c \<Longrightarrow> readable numStr (chunkJson c)"
proof -
  assume ok: "chunkOk c"
  have "\<bar>hcIndex c\<bar> < 10 ^ 21" "\<bar>hcByteLength c\<bar> < 10 ^ 21"
    using ok by (auto simp: chunkOk_def MAX_SAFE_INTEGER_def RECENT_TRANSACTION_HISTORY_CHUNK_BYTES_def)
  moreover have "readsAs (numText numStr (of_int i)) (JNum (Fin (of_int i)))" if "\<bar>i\<bar> < 10 ^ 21" for i
  proof -
    have "\<bar>of_int i\<bar> < (of_int (10 ^ 21) :: rat)" using that unfolding of_int_abs [symmetric] of_int_less_iff .
    then show ?thesis using readsAs_int [OF that] by (simp add: numText_def)
  qed
  ultimately show ?thesis by (simp add: chunkJson_def)
qed

section \<open>Properties\<close>

text \<open>
  A sealed history fragment opens to exactly that fragment for its own tenant, job and position, and its envelope
  is refused for every other tenant, job or position and as the request of any job, short of a forged tag of this very
  envelope. Tenant ids contain no colon, which separates the parts of the associated data.
\<close>

theorem job_chunk_bound_to_place:
  assumes laws: "gcmLaws cy" and nonce: "length nonce = 12" and tenant: "CHR '':'' \<notin> set tenantId"
    and sealed: "encryptCrawlJobHistoryChunk cy nonce key tenantId jobId chunk = Inr envelope"
  shows "decryptCrawlJobHistoryChunk cy key tenantId jobId (hcIndex chunk) envelope = Inr chunk
    \<and> (\<forall>t j i c. decryptCrawlJobHistoryChunk cy key t j i envelope = Inr c \<longrightarrow> CHR '':'' \<notin> set t \<longrightarrow>
         t = tenantId \<and> j = jobId \<and> i = hcIndex chunk \<and> c = chunk
         \<or> forgeable cy key nonce (historyChunkAad tenantId jobId (hcIndex chunk)) (utf8 (stringify (\<lambda>_. []) (chunkJson chunk)))
             (historyChunkAad t j i))
    \<and> (\<forall>t j r. decryptCrawlJobPayload cy schema key t j envelope = Inr r \<longrightarrow>
         forgeable cy key nonce (historyChunkAad tenantId jobId (hcIndex chunk)) (utf8 (stringify (\<lambda>_. []) (chunkJson chunk)))
             (aad t j))"
proof -
  let ?a = "historyChunkAad tenantId jobId (hcIndex chunk)" and ?p = "utf8 (stringify (\<lambda>_. []) (chunkJson chunk))"
  have ok: "chunkOk chunk" and e: "encryptJson cy (\<lambda>_. []) nonce key ?a (chunkJson chunk) = Inr envelope"
    using sealed by (auto simp: encryptCrawlJobHistoryChunk_def split: if_splits)
  have own: "decryptCrawlJobHistoryChunk cy key tenantId jobId (hcIndex chunk) envelope = Inr chunk"
    using decryptJson_same [OF laws nonce e chunk_readable [OF ok]] parse_chunkJson [OF ok]
    by (simp add: decryptCrawlJobHistoryChunk_def)
  have other: "t = tenantId \<and> j = jobId \<and> i = hcIndex chunk \<and> c = chunk \<or> forgeable cy key nonce ?a ?p (historyChunkAad t j i)"
    if d: "decryptCrawlJobHistoryChunk cy key t j i envelope = Inr c" "CHR '':'' \<notin> set t" for t j i c
  proof (cases "historyChunkAad t j i = ?a")
    case True
    then show ?thesis using chunkAad_inject [OF d(2) tenant True] own d(1) by auto
  next
    case False
    obtain u where "decryptJson cy key (historyChunkAad t j i) envelope = Inr u"
      using d(1) by (auto simp: decryptCrawlJobHistoryChunk_def split: sum.splits)
    then show ?thesis using decryptJson_other [OF laws nonce e _ False] by blast
  qed
  have "forgeable cy key nonce ?a ?p (aad t j)" if d: "decryptCrawlJobPayload cy schema key t j envelope = Inr r" for t j r
  proof -
    obtain u where "decryptJson cy key (aad t j) envelope = Inr u"
      using d by (auto simp: decryptCrawlJobPayload_def split: sum.splits)
    then show ?thesis by (rule decryptJson_other [OF laws nonce e _ aads_apart])
  qed
  with own other show ?thesis by blast
qed

theorem job_chunk_bound_to_place_witness:
  "\<exists>envelope. encryptCrawlJobHistoryChunk demoCrypto (replicate 12 1) (replicate 43 (CHR ''A'')) ''t'' ''j''
        (chunkOf zeroSha 0 [1]) = Inr envelope
     \<and> decryptCrawlJobHistoryChunk demoCrypto (replicate 43 (CHR ''A'')) ''t'' ''j'' 0 envelope = Inr (chunkOf zeroSha 0 [1])
     \<and> isl (decryptCrawlJobHistoryChunk demoCrypto (replicate 43 (CHR ''A'')) ''other'' ''j'' 0 envelope)"
proof -
  let ?k = "replicate 43 (CHR ''A'')" and ?c = "chunkOf zeroSha 0 [1]" and ?n = "replicate 12 1 :: byte list"
  have "\<not> isl (decodeKey ?k)" by code_simp
  then obtain k where k: "decodeKey ?k = Inr k" by (cases "decodeKey ?k") auto
  have "chunkOk ?c" by (rule chunkOk_chunkOf [OF zeroSha_law]) (simp_all add: RECENT_TRANSACTION_HISTORY_CHUNK_BYTES_def MAX_SAFE_INTEGER_def)
  with k obtain e where e: "encryptCrawlJobHistoryChunk demoCrypto ?n ?k ''t'' ''j'' ?c = Inr e"
    by (simp add: encryptCrawlJobHistoryChunk_def encryptJson_def demoCrypto_def)
  have i: "hcIndex ?c = 0" by (simp add: chunkOf_def)
  have n: "length ?n = 12" and t: "CHR '':'' \<notin> set ''t''" "CHR '':'' \<notin> set ''other''" by simp_all
  note b = job_chunk_bound_to_place [OF demoCrypto_laws n t(1) e, where schema = "\<lambda>_. None :: unit option", unfolded i]
  have "(of_nat (length (historyChunkAad ''other'' ''j'' 0)) :: byte) \<noteq> of_nat (length (historyChunkAad ''t'' ''j'' 0))" by code_simp
  then have "\<not> forgeable demoCrypto ?k ?n (historyChunkAad ''t'' ''j'' 0) p (historyChunkAad ''other'' ''j'' 0)" for p
    by (simp add: forgeable_def demoCrypto_def)
  then have "decryptCrawlJobHistoryChunk demoCrypto ?k ''other'' ''j'' 0 e \<noteq> Inr c" for c using b t(2) by fastforce
  then have "isl (decryptCrawlJobHistoryChunk demoCrypto ?k ''other'' ''j'' 0 e)"
    by (cases "decryptCrawlJobHistoryChunk demoCrypto ?k ''other'' ''j'' 0 e") auto
  with b e show ?thesis by blast
qed

end
