(* ===== verification/Spec2Isabelle.thy ===== *)
theory Spec2Isabelle
  imports RunCrawl HostedPolicies BrowserGuard UrlSafety CompanionProtocol TunnelBridge TunnelPark TunnelToken OAuthSafety AccessGuards AnchorSafety JobPayload
begin

text \<open>
  Verification of accrawl: the control plane, the engine's session store, its network guards and its
  device tunnel.

  \<^bold>\<open>The program.\<close> accrawl crawls online-banking sites on behalf of a user. A scheduler (or a person) starts
  a crawl of a connection; the control plane locks the connection with a session, checks the institution's
  configuration, and hands the request to an engine worker. The engine drives a browser through a guard
  that pins egress and vets state-changing requests, optionally through the user's phone (a SOCKS5 server
  bridged to a WebSocket), and stages what it found. A bank's one-time code reaches the engine from an
  operator or from the phone that received the message. When the engine reports success, the control plane
  promotes the staged records into the user's data, identifying each transaction so that a crawl repeated
  or resumed never duplicates or overwrites one, and books the outcome on the connection.

  \<^bold>\<open>Which theory models which part\<close> (paths under \<^verbatim>\<open>src/\<close>; \<open>CP\<close> is \<^verbatim>\<open>apps/control-plane/src\<close>, \<open>EN\<close> is
  \<^verbatim>\<open>apps/engine/src\<close>).

  \<^item> \<^verbatim>\<open>Prelude\<close>, \<^verbatim>\<open>JsDate\<close>, \<^verbatim>\<open>JsJson\<close>, \<^verbatim>\<open>JsText\<close>: what the source uses of its language. Insertion-ordered maps and
    sets (locale \<open>ordered_map\<close>, interpreted on association lists), calendar dates and their ISO text, JSON
    values, \<^verbatim>\<open>JSON.parse\<close> and \<^verbatim>\<open>JSON.stringify\<close> with their round trip, base64 and UTF-8; and the locale
    \<open>safety_invariant\<close>, through which every transition system below gets its invariant.
  \<^item> \<^verbatim>\<open>TxIdentity\<close> (\<^verbatim>\<open>CP/data/tx-identity.ts\<close>), \<^verbatim>\<open>CrawlRecords\<close> and \<^verbatim>\<open>StoreResults\<close> (\<^verbatim>\<open>CP/data/store-crawl.ts\<close>),
    \<^verbatim>\<open>PromotionLoop\<close> and \<^verbatim>\<open>PlanCrawl\<close> (\<^verbatim>\<open>CP/data/plan-crawl-results.ts\<close>): identities of transactions, the
    schemas of staged records, the pure planner and the database loop. The two run one loop, the locale
    \<open>promotion_loop\<close>. Proved: identity preimages are unambiguous; a declared update is honoured exactly when it is
    unambiguous; a stored row changes only when it was authorised; observations are never merged; replaying a
    promotion writes nothing; the database loop refines the planner.
  \<^item> \<^verbatim>\<open>CrawlBookkeeping\<close> (\<^verbatim>\<open>CP/data/crawl-bookkeeping.ts\<close>), \<^verbatim>\<open>SessionLock\<close> (\<^verbatim>\<open>CP/data/sessions.ts\<close>,
    \<^verbatim>\<open>cancel-session.ts\<close>), \<^verbatim>\<open>Scheduler\<close> (\<^verbatim>\<open>CP/scheduling\<close>, \<^verbatim>\<open>CP/orchestration/recover-stranded-crawls.ts\<close>,
    \<^verbatim>\<open>CP/data/hosted-schedule-policy.ts\<close>): the life of a connection and of its sessions. Proved: one locked
    session per connection in every reachable state; terminal outcomes are final; a tick queues exactly the
    eligible connections and keeps the books; the two schedule policies agree.
  \<^item> \<^verbatim>\<open>RunCrawl\<close> (\<^verbatim>\<open>CP/orchestration/run-crawl.ts\<close>, \<^verbatim>\<open>CP/lib/domain.ts\<close>, \<^verbatim>\<open>crawl-budget.ts\<close>): one crawl from its lock
    to its settlement. Proved: it never ends with the session active, credentials leave only through every gate,
    data is promoted only on a recorded success, every crawl is counted once, the lease outlives the wait.
  \<^item> \<^verbatim>\<open>WorkerOwnership\<close> and \<^verbatim>\<open>HostedPolicies\<close> (\<^verbatim>\<open>CP/data/worker-ownership.ts\<close>, \<^verbatim>\<open>crawl-admission.ts\<close>,
    \<^verbatim>\<open>hosted-dispatch-decisions.ts\<close>, \<^verbatim>\<open>crawl-promotion.ts\<close>, \<^verbatim>\<open>crawl-webhook-outbox-policy.ts\<close>): who may act for an
    attempt, and the decisions of the hosted service.
  \<^item> \<^verbatim>\<open>OtpExtract\<close> (\<^verbatim>\<open>CP/data/otp-extract.ts\<close>, \<^verbatim>\<open>otp-readiness.ts\<close>), \<^verbatim>\<open>Devices\<close> (\<^verbatim>\<open>CP/data/devices.ts\<close>), \<^verbatim>\<open>SessionIo\<close>
    (\<^verbatim>\<open>CP/data/session-io.ts\<close>, \<^verbatim>\<open>EN/platform/postgres.ts\<close>), \<^verbatim>\<open>RelaySafety\<close> and \<^verbatim>\<open>CompanionProtocol\<close>: phones, one-time codes
    and the session store of the engine, as one transition system over the shared tables (\<open>relay_step\<close>) with the
    invariant \<open>relayInv\<close>. Proved: the tables stay consistent in every interleaving, a revoked phone can do
    nothing, a relayed code is a complete number of a message from the expected sender for a waiting crawl.
  \<^item> \<^verbatim>\<open>ApiKeys\<close> (\<^verbatim>\<open>CP/auth/apiKeys.ts\<close>), \<^verbatim>\<open>DevicePairing\<close> (\<^verbatim>\<open>CP/data/device-pairing.ts\<close>), \<^verbatim>\<open>SignedTokens\<close> and
    \<^verbatim>\<open>OperatorAuth\<close> (\<^verbatim>\<open>CP/auth/operator.ts\<close>, \<^verbatim>\<open>CP/data/operator-credential.ts\<close>), \<^verbatim>\<open>OAuth\<close> and \<^verbatim>\<open>OAuthSafety\<close>
    (\<^verbatim>\<open>CP/routes/oauth.ts\<close>, \<^verbatim>\<open>CP/auth/oauthClients.ts\<close>, \<^verbatim>\<open>oauthCodes.ts\<close>, \<^verbatim>\<open>CP/data/oauth-grants.ts\<close>): who may read a user's data. The
    locale \<open>signed_token\<close> is the common form of the signed bearer values, \<open>stamped_rows\<close> that of rows ended by a
    time stamp. Proved: a pairing request is completed once, by the phone its owner approved, and yields exactly
    the approved credentials; a code is issued only on consent and redeemed once in every interleaving; a used
    refresh token ends its grant; an access token needs a live grant.
  \<^item> \<^verbatim>\<open>Sharing\<close> (\<^verbatim>\<open>CP/data/organization-shares.ts\<close>) and \<^verbatim>\<open>AccessGuards\<close> (\<^verbatim>\<open>CP/auth/middleware.ts\<close>, \<^verbatim>\<open>authorization.ts\<close>,
    \<^verbatim>\<open>packages/contracts/src/identity-assertion.ts\<close>): organisations that read what an owner shares, and the guards of
    the HTTP interface. Proved: the access check agrees with the history of consent (\<open>standing\<close>, \<open>orgEnabled\<close>), an
    organisation that was disabled stays out until an administrator enables it, a hosted identity is bound to its
    request and capability, a public read is authorised by its key or operator, OAuth tokens stay on the public interface.
  \<^item> \<^verbatim>\<open>Cipher\<close> (\<^verbatim>\<open>CP/crypto/cipher.ts\<close>), \<^verbatim>\<open>Institutions\<close> (\<^verbatim>\<open>CP/data/institutions.ts\<close>), \<^verbatim>\<open>Connections\<close>
    (\<^verbatim>\<open>CP/data/connections.ts\<close>) and \<^verbatim>\<open>AnchorSafety\<close>: the bank recipes, the stored credentials and the owner's approval of a
    login domain. Proved: in every run of these operations a crawl is dispatched only to a domain and with allowed
    domains that the owner approved as they are, an imported recipe only after a verdict on its present content; a
    sealed credential opens in its own context only.
  \<^item> \<^verbatim>\<open>TransactionHistory\<close> (\<^verbatim>\<open>packages/contracts/src/transaction-history.ts\<close>), \<^verbatim>\<open>HistoryTransport\<close>
    (\<^verbatim>\<open>CP/orchestration/dispatch-engine.ts\<close>, \<^verbatim>\<open>EN/transaction-history-store.ts\<close>, \<^verbatim>\<open>EN/index.ts\<close>) and \<^verbatim>\<open>JobPayload\<close>
    (\<^verbatim>\<open>packages/contracts/src/job-payload.ts\<close>): how the list of known transactions reaches the engine. Proved: it arrives
    exactly under retries and interleaved uploads, an accepted list is the one its manifest was made for, the upload store is
    bounded (\<open>upload_store_bounded\<close>), a sealed fragment opens in its own place only (\<open>job_chunk_bound_to_place\<close>).
  \<^item> \<^verbatim>\<open>BrowserGuard\<close> (\<^verbatim>\<open>EN/browser/write-gate.ts\<close>, \<^verbatim>\<open>egress-guard.ts\<close>, \<^verbatim>\<open>EN/utils/safe-browser-url.ts\<close>) and \<^verbatim>\<open>UrlSafety\<close>
    (\<^verbatim>\<open>EN/utils/url-safety.ts\<close>): what may leave the browser. Proved: no state change without a read verdict on the
    same question, egress only to the pinned domains, no navigation to an internal address.
  \<^item> \<^verbatim>\<open>Socks5\<close> (\<^verbatim>\<open>EN/tunnel/socks5-server.ts\<close>): the SOCKS5 handshake; its independence from the chunking of the
    stream is the locale \<open>chunked_input\<close>.
  \<^item> \<^verbatim>\<open>TunnelToken\<close> (\<^verbatim>\<open>packages/contracts/src/tunnel-token.ts\<close> and the upgrade checks), \<^verbatim>\<open>TunnelBridge\<close> and \<^verbatim>\<open>TunnelPark\<close>
    (\<^verbatim>\<open>EN/tunnel/tunnel-server.ts\<close>): the device tunnel. \<open>TunnelBridge\<close> is the relay between the SOCKS5 clients and
    the phone: the WebSocket is paused exactly while a client is full, the send buffer is bounded, the
    phone hears well-formed conversations, bytes arrive unchanged. \<open>TunnelPark\<close> interleaves dispatches, companion
    connections, timers, teardowns and fences at every wait of the code: a parked crawl is answered once
    and started at most once, and a fence is final.

  \<^bold>\<open>State and effects.\<close> A table is an insertion-ordered map from ids to records, a database transaction one
  transition, a raised error the left side of a sum. Where a function reads and later writes, what other
  transactions do in between is an argument of type \<open>interference\<close>. Machine bytes are \<^typ>\<open>8 word\<close>, times are
  integers in milliseconds, JavaScript numbers are exact rationals or not finite.

  \<^bold>\<open>Parameters.\<close> SHA-256, HMAC and HKDF, cron-parser and the timezone database, the URL parser, the
  public-suffix list, the resolver, the language model, the job queue and AES-256-GCM are
  arguments of the definitions that use them. A theorem that relies on one of them says so in a
  hypothesis (no collision on the batch, the next occurrence lies in the future), and its witness discharges it
  for a concrete function.

  \<^bold>\<open>Bounds.\<close> The JSON parser runs with a fuel of twice the length of its text plus one; \<open>parse_fuel\<close> shows
  that any larger amount gives the same result. Waiting loops run over the list of answers the polls return, so
  they end when the code's deadline does. All other recursion is structural or has a measure.

  \<^bold>\<open>Findings.\<close> Nine theorems state behaviour that contradicts a comment or the purpose of the code: a failing crawl
  re-enables a disabled connection, recovery recounts old failures, two requests can share a cache key of
  the write gate, a relayed code can reach the next code request, revoking a phone cancels a crawl whose
  success is recorded, the connect-wait timer can answer a crawl that already runs, a refresh that overlaps a revocation
  hands out a live token, a secret lookup that overlaps signing out
  everywhere keeps old sessions alive, and an institution update that overlaps another keeps an approval for the domain it undoes. An OAuth
  token does not pass the internal guard that a comment names (\<open>oauth_token_confined\<close>).

  \<^bold>\<open>Not modelled.\<close> The other HTTP routes (request parsing and replies over the modelled operations); the
  branches that delegate to a hosted store; the HTML of the consent pages; the agent loop, browser automation and the model
  clients (their behaviour is decided by pages and models outside the program); telemetry scrubbing, the
  WebRTC script and the free-text scrubber; console queries that only display; webhook and push transport;
  the web console, the companion app (another language), SDKs, scripts and migrations.
\<close>

end
